(* ===== verification/Prelude.thy ===== *)
theory Prelude
  imports "HOL-Library.Word" "HOL-Library.Monad_Syntax"
begin

text \<open>
  What every component theory shares: the machine types of the C code, bytes in memory as lists,
  bounded reads and writes of a buffer (\<open>mem_read\<close>, \<open>mem_write\<close>: the value \<open>None\<close> is an access
  outside the object, which C leaves undefined), little-endian encodings of integers, and the
  lemma collections the proofs use.
\<close>

unbundle bit_operations_syntax

section \<open>Machine types\<close>

type_synonym u8 = "8 word"
type_synonym u16 = "16 word"
type_synonym u32 = "32 word"
type_synonym u64 = "64 word"
type_synonym bytes = "u8 list"

named_theorems mem_simps \<open>rewriting of bounded memory accesses\<close>
named_theorems code_values \<open>values of the constants the sources define\<close>

section \<open>Bounded memory accesses\<close>

text \<open>\<open>mem_read buf off n\<close> are the \<open>n\<close> bytes at offset \<open>off\<close> of an object.\<close>

definition mem_read :: "'a list \<Rightarrow> nat \<Rightarrow> nat \<Rightarrow> 'a list option" where
  "mem_read buf off n = (if off + n \<le> length buf then Some (take n (drop off buf)) else None)"

text \<open>\<open>mem_write buf off src\<close> copies \<open>src\<close> to offset \<open>off\<close> of an object.\<close>

definition mem_write :: "'a list \<Rightarrow> nat \<Rightarrow> 'a list \<Rightarrow> 'a list option" where
  "mem_write buf off src =
     (if off + length src \<le> length buf
      then Some (take off buf @ src @ drop (off + length src) buf) else None)"

text \<open>One element of an object.\<close>

definition mem_get :: "'a list \<Rightarrow> nat \<Rightarrow> 'a option" where
  "mem_get buf i = (if i < length buf then Some (buf ! i) else None)"

definition mem_set :: "'a list \<Rightarrow> nat \<Rightarrow> 'a \<Rightarrow> 'a list option" where
  "mem_set buf i x = (if i < length buf then Some (buf[i := x]) else None)"

lemma mem_read_length: "mem_read buf off n = Some bs \<Longrightarrow> length bs = n"
  by (auto simp: mem_read_def split: if_splits)

lemma mem_read_Some [mem_simps]:
  "off + n \<le> length buf \<Longrightarrow> mem_read buf off n = Some (take n (drop off buf))"
  by (simp add: mem_read_def)

lemma mem_read_None [mem_simps]: "length buf < off + n \<Longrightarrow> mem_read buf off n = None"
  by (simp add: mem_read_def)

lemma mem_write_length: "mem_write buf off src = Some buf' \<Longrightarrow> length buf' = length buf"
  by (auto simp: mem_write_def split: if_splits)

lemma mem_write_Some [mem_simps]:
  "off + length src \<le> length buf \<Longrightarrow>
   mem_write buf off src = Some (take off buf @ src @ drop (off + length src) buf)"
  by (simp add: mem_write_def)

lemma mem_write_None [mem_simps]: "length buf < off + length src \<Longrightarrow> mem_write buf off src = None"
  by (simp add: mem_write_def)

lemma mem_get_Some [mem_simps]: "i < length buf \<Longrightarrow> mem_get buf i = Some (buf ! i)"
  by (simp add: mem_get_def)

lemma mem_get_None [mem_simps]: "length buf \<le> i \<Longrightarrow> mem_get buf i = None"
  by (simp add: mem_get_def)

lemma mem_set_Some [mem_simps]: "i < length buf \<Longrightarrow> mem_set buf i x = Some (buf[i := x])"
  by (simp add: mem_set_def)

lemma mem_set_None [mem_simps]: "length buf \<le> i \<Longrightarrow> mem_set buf i x = None"
  by (simp add: mem_set_def)

text \<open>A copy that fills the tail of what has been written so far extends the written prefix.\<close>

lemma mem_write_prefix:
  assumes "take off buf = pre" "length pre = off" "off + length src \<le> length buf"
  shows "\<exists>buf'. mem_write buf off src = Some buf' \<and> length buf' = length buf
           \<and> take (off + length src) buf' = pre @ src"
  using assms by (auto simp: mem_write_def)

lemma mem_read_prefix:
  "take (off + n) buf = pre @ src \<Longrightarrow> length pre = off \<Longrightarrow> length src = n \<Longrightarrow>
   mem_read buf off n = Some src"
proof -
  assume a: "take (off + n) buf = pre @ src" "length pre = off" "length src = n"
  then have le: "off + n \<le> length buf"
    by (metis length_append length_take min.cobounded1 nat_le_linear min_def)
  have "take n (drop off buf) = drop off (take (off + n) buf)"
    by (simp add: take_drop add.commute)
  with a le show ?thesis by (simp add: mem_read_def)
qed

section \<open>Little-endian integers\<close>

fun le_bytes :: "nat \<Rightarrow> nat \<Rightarrow> bytes" where
  "le_bytes 0 x = []"
| "le_bytes (Suc n) x = of_nat (x mod 256) # le_bytes n (x div 256)"

fun le_nat :: "bytes \<Rightarrow> nat" where
  "le_nat [] = 0"
| "le_nat (b # bs) = unat b + 256 * le_nat bs"

lemma le_bytes_numeral [simp]:
  "le_bytes (numeral k) x = of_nat (x mod 256) # le_bytes (pred_numeral k) (x div 256)"
  by (metis le_bytes.simps(2) numeral_eq_Suc)

lemma length_le_bytes [simp]: "length (le_bytes n x) = n"
  by (induction n arbitrary: x) simp_all

lemma unat_of_nat_byte [simp]: "unat (of_nat (x mod 256) :: u8) = x mod 256"
  by (simp add: unat_of_nat)

lemma unat_bound: "unat (w :: 'a::len word) < 2 ^ LENGTH('a)"
  by (rule unsigned_less)

lemma unat_u8_less [simp]: "unat (b :: u8) < 256"
  using unat_bound [of b] by simp

lemma unat_u32_less: "unat (w :: u32) < 4294967296"
  using unat_bound [of w] by simp

lemma le_nat_le_bytes: "le_nat (le_bytes n x) = x mod 256 ^ n"
proof (induction n arbitrary: x)
  case 0
  then show ?case by simp
next
  case (Suc n)
  have "x mod (256 * 256 ^ n) = 256 * (x div 256 mod 256 ^ n) + x mod 256"
    by (rule mod_mult2_eq)
  with Suc show ?case by simp
qed

lemma le_nat_bound: "le_nat bs < 256 ^ length bs"
proof (induction bs)
  case Nil
  then show ?case by simp
next
  case (Cons b bs)
  have "unat b + 256 * le_nat bs < 256 + 256 * le_nat bs" by simp
  also have "\<dots> = 256 * (le_nat bs + 1)" by simp
  also have "\<dots> \<le> 256 * 256 ^ length bs"
    using Cons by (intro mult_le_mono2) simp
  finally show ?case by simp
qed

lemma le_bytes_le_nat: "le_bytes (length bs) (le_nat bs) = bs"
proof (induction bs)
  case Nil
  then show ?case by simp
next
  case (Cons b bs)
  have "(unat b + 256 * le_nat bs) mod 256 = unat b"
    by (metis mod_less mod_mult_self2 unat_u8_less)
  moreover have "(unat b + 256 * le_nat bs) div 256 = le_nat bs"
    by simp
  ultimately show ?case using Cons by simp
qed

lemma le_nat_inj: "length as = length bs \<Longrightarrow> le_nat as = le_nat bs \<Longrightarrow> as = bs"
  by (metis le_bytes_le_nat)

text \<open>An unsigned integer of the C code as its bytes in memory, and back.\<close>

lemma le_bytes_mod: "le_bytes n (x mod 256 ^ n) = le_bytes n x"
  by (rule le_nat_inj) (simp_all add: le_nat_le_bytes)

lemma le_bytes_add: "le_bytes (m + n) x = le_bytes m x @ le_bytes n (x div 256 ^ m)"
  by (induction m arbitrary: x) (simp_all add: div_mult2_eq)

definition le_word :: "bytes \<Rightarrow> 'a::len word" where
  "le_word bs = of_nat (le_nat bs)"

lemma le_word_u16 [simp]: "le_word (le_bytes 2 (unat (w :: u16))) = w"
  using unat_bound [of w]
  by (simp add: le_word_def le_nat_le_bytes del: le_bytes_numeral)

lemma le_word_u32 [simp]: "le_word (le_bytes 4 (unat (w :: u32))) = w"
  using unat_bound [of w]
  by (simp add: le_word_def le_nat_le_bytes del: le_bytes_numeral)

lemma le_word_u64 [simp]: "le_word (le_bytes 8 (unat (w :: u64))) = w"
  using unat_bound [of w]
  by (simp add: le_word_def le_nat_le_bytes del: le_bytes_numeral)

section \<open>Lists\<close>

lemma take_length_append [simp]: "take (length xs) (xs @ ys) = xs"
  by simp

lemma map_Some_conv: "map_option f x = Some y \<longleftrightarrow> (\<exists>z. x = Some z \<and> y = f z)"
  by (cases x) auto

lemma nth_prefix: "take n xs = ys \<Longrightarrow> i < length ys \<Longrightarrow> xs ! i = ys ! i"
  by auto

lemma list_all_nth_upt: "length xs = n \<Longrightarrow> map (\<lambda>i. xs ! i) [0..<n] = xs"
  by (metis map_nth)

section \<open>Splitting a list into pieces of a fixed size\<close>

function chunks :: "nat \<Rightarrow> 'a list \<Rightarrow> 'a list list" where
  "chunks n xs = (if n = 0 \<or> xs = [] then [] else take n xs # chunks n (drop n xs))"
  by pat_completeness auto
termination
  by (relation "measure (\<lambda>(n, xs). length xs)") auto

declare chunks.simps [simp del]

lemma chunks_Nil [simp]: "chunks n [] = []"
  by (simp add: chunks.simps)

lemma concat_chunks: "0 < n \<Longrightarrow> concat (chunks n xs) = xs"
proof (induction n xs rule: chunks.induct)
  case (1 n xs)
  then show ?case by (cases "xs = []") (simp_all add: chunks.simps [of n xs])
qed

lemma chunks_bounded: "x \<in> set (chunks n xs) \<Longrightarrow> 0 < length x \<and> length x \<le> n"
proof (induction n xs rule: chunks.induct)
  case (1 n xs)
  then show ?case
    by (cases "n = 0 \<or> xs = []") (auto simp: chunks.simps [of n xs])
qed

section \<open>C strings\<close>

text \<open>\<open>strlen\<close> of a buffer: the bytes before the first NUL, or a read past its end.\<close>

fun c_strlen :: "bytes \<Rightarrow> nat option" where
  "c_strlen [] = None"
| "c_strlen (b # bs) = (if b = 0 then Some 0 else map_option Suc (c_strlen bs))"

text \<open>The string a buffer holds.\<close>

definition c_string :: "bytes \<Rightarrow> bytes option" where
  "c_string buf = map_option (\<lambda>n. take n buf) (c_strlen buf)"

lemma c_strlen_append: "0 \<notin> set s \<Longrightarrow> c_strlen (s @ 0 # rest) = Some (length s)"
  by (induction s) auto

lemma c_string_append: "0 \<notin> set s \<Longrightarrow> c_string (s @ 0 # rest) = Some s"
  by (simp add: c_string_def c_strlen_append)

lemma c_strlen_Some:
  "c_strlen buf = Some n \<Longrightarrow> n < length buf \<and> buf ! n = 0 \<and> 0 \<notin> set (take n buf)"
  by (induction buf arbitrary: n) (auto split: if_splits)

lemma c_strlen_None: "c_strlen buf = None \<longleftrightarrow> 0 \<notin> set buf"
  by (induction buf) auto

lemma c_string_None: "c_string buf = None \<longleftrightarrow> 0 \<notin> set buf"
  by (simp add: c_string_def c_strlen_None)

text \<open>Storing the next element of a buffer extends the part written so far.\<close>

lemma take_Suc_update [simp]: "i < length xs \<Longrightarrow> take (Suc i) (xs[i := x]) = take i xs @ [x]"
  by (simp add: take_Suc_conv_app_nth)

end
