(* ===== verification/BlockHash.thy ===== *)
theory BlockHash
  imports Prelude
begin

text \<open>
  What the hash functions of \<open>src/sha2.c\<close> share: the logical functions and loops of the compression
  functions, byte reversal, and the theory of hashing a message block by block. \<open>absorb\<close> is the
  reference: it feeds every full block to a compression function and keeps the rest; \<open>pad\<close> is the
  padding of the standard. The locale \<open>stream_hash\<close> is the interface \<open>init\<close>, \<open>write\<close>, \<open>finalize\<close>
  that the keyed hashes call.
\<close>

section \<open>Macros\<close>

definition R :: "nat \<Rightarrow> 'a::len word \<Rightarrow> 'a word" where
  "R b x = drop_bit b x"

definition S32 :: "nat \<Rightarrow> u32 \<Rightarrow> u32" where
  "S32 b x = drop_bit b x OR push_bit (32 - b) x"

definition S64 :: "nat \<Rightarrow> u64 \<Rightarrow> u64" where
  "S64 b x = drop_bit b x OR push_bit (64 - b) x"

definition hyperbolic_cosign :: "'a::len word \<Rightarrow> 'a word \<Rightarrow> 'a word \<Rightarrow> 'a word" where
  "hyperbolic_cosign x y z = (x AND y) XOR (NOT x AND z)"

definition majority :: "'a::len word \<Rightarrow> 'a word \<Rightarrow> 'a word \<Rightarrow> 'a word" where
  "majority x y z = (x AND y) XOR (x AND z) XOR (y AND z)"

definition REVERSE32 :: "u32 \<Rightarrow> u32" where
  "REVERSE32 w =
     (let tmp = drop_bit 16 w OR push_bit 16 w
      in drop_bit 8 (tmp AND 0xff00ff00) OR push_bit 8 (tmp AND 0x00ff00ff))"

definition REVERSE64 :: "u64 \<Rightarrow> u64" where
  "REVERSE64 w =
     (let tmp = drop_bit 32 w OR push_bit 32 w;
          tmp = drop_bit 8 (tmp AND 0xff00ff00ff00ff00) OR push_bit 8 (tmp AND 0x00ff00ff00ff00ff)
      in drop_bit 16 (tmp AND 0xffff0000ffff0000) OR push_bit 16 (tmp AND 0x0000ffff0000ffff))"

section \<open>The loops of a compression function\<close>

type_synonym 'a regs = "'a word \<times> 'a word \<times> 'a word \<times> 'a word \<times> 'a word \<times> 'a word \<times> 'a word \<times> 'a word"

text \<open>One round; \<open>S0\<close> and \<open>S1\<close> are \<open>Sigma0\<close> and \<open>Sigma1\<close> of the width.\<close>

fun sha2_round :: "('a::len word \<Rightarrow> 'a word) \<Rightarrow> ('a word \<Rightarrow> 'a word) \<Rightarrow> 'a regs \<Rightarrow> 'a word \<Rightarrow> 'a word
    \<Rightarrow> 'a regs" where
  "sha2_round S0 S1 (a, b, c, d, e, f, g, h) k w =
     (let T1 = h + S1 e + hyperbolic_cosign e f g + k + w;
          T2 = S0 a + majority a b c
      in (T1 + T2, a, b, c, d + T1, e, f, g))"

text \<open>Rounds 0 to 15, which copy the block into \<open>W\<close>, from round \<open>j\<close> on.\<close>

fun first_rounds :: "('a::len word \<Rightarrow> 'a word) \<Rightarrow> ('a word \<Rightarrow> 'a word) \<Rightarrow> 'a word list \<Rightarrow> nat
    \<Rightarrow> 'a word list \<Rightarrow> 'a regs \<times> 'a word list \<Rightarrow> 'a regs \<times> 'a word list" where
  "first_rounds S0 S1 K j [] rW = rW"
| "first_rounds S0 S1 K j (w # block) (r, W) =
     (let W = W[j := w]
      in first_rounds S0 S1 K (Suc j) block (sha2_round S0 S1 r (K ! j) (W ! j), W))"

text \<open>The message expansion of round \<open>j\<close>: sixteen words, used in a circle.\<close>

definition expand_word :: "('a::len word \<Rightarrow> 'a word) \<Rightarrow> ('a word \<Rightarrow> 'a word) \<Rightarrow> nat \<Rightarrow> 'a word list
    \<Rightarrow> 'a word list" where
  "expand_word s0 s1 j W =
     (let x0 = s0 (W ! ((j + 1) AND 0x0f));
          x1 = s1 (W ! ((j + 14) AND 0x0f))
      in W[j AND 0x0f := W ! (j AND 0x0f) + (x1 + W ! ((j + 9) AND 0x0f) + x0)])"

text \<open>\<open>n\<close> rounds from round \<open>j\<close> on.\<close>

fun later_rounds :: "('a::len word \<Rightarrow> 'a word) \<Rightarrow> ('a word \<Rightarrow> 'a word) \<Rightarrow> ('a word \<Rightarrow> 'a word)
    \<Rightarrow> ('a word \<Rightarrow> 'a word) \<Rightarrow> 'a word list \<Rightarrow> nat \<Rightarrow> nat \<Rightarrow> 'a regs \<times> 'a word list
    \<Rightarrow> 'a regs \<times> 'a word list" where
  "later_rounds S0 S1 s0 s1 K j 0 (r, W) = (r, W)"
| "later_rounds S0 S1 s0 s1 K j (Suc n) (r, W) =
     (let W = expand_word s0 s1 j W
      in later_rounds S0 S1 s0 s1 K (Suc j) n (sha2_round S0 S1 r (K ! j) (W ! (j AND 0x0f)), W))"

definition load_regs :: "'a::len word list \<Rightarrow> 'a regs" where
  "load_regs s = (s ! 0, s ! 1, s ! 2, s ! 3, s ! 4, s ! 5, s ! 6, s ! 7)"

fun add_regs :: "'a::len word list \<Rightarrow> 'a regs \<Rightarrow> 'a word list" where
  "add_regs s (a, b, c, d, e, f, g, h) =
     [s ! 0 + a, s ! 1 + b, s ! 2 + c, s ! 3 + d, s ! 4 + e, s ! 5 + f, s ! 6 + g, s ! 7 + h]"

section \<open>The reference schedule\<close>

text \<open>The standard's schedule: the words of the block, extended one by one.\<close>

fun schedule :: "('a::len word \<Rightarrow> 'a word) \<Rightarrow> ('a word \<Rightarrow> 'a word) \<Rightarrow> nat \<Rightarrow> 'a word list \<Rightarrow> 'a word list" where
  "schedule s0 s1 0 ws = ws"
| "schedule s0 s1 (Suc n) ws =
     (let t = length ws
      in schedule s0 s1 n (ws @ [s1 (ws ! (t - 2)) + ws ! (t - 7) + s0 (ws ! (t - 15)) + ws ! (t - 16)]))"

fun all_rounds :: "('a::len word \<Rightarrow> 'a word) \<Rightarrow> ('a word \<Rightarrow> 'a word) \<Rightarrow> 'a word list \<Rightarrow> 'a word list
    \<Rightarrow> 'a regs \<Rightarrow> 'a regs" where
  "all_rounds S0 S1 (k # K) (w # ws) r = all_rounds S0 S1 K ws (sha2_round S0 S1 r k w)"
| "all_rounds S0 S1 _ _ r = r"

lemma nat_and_15: "(j :: nat) AND 15 = j mod 16"
proof -
  have "mask 4 = (15 :: nat)" by (simp add: mask_eq_exp_minus_1)
  then show ?thesis using take_bit_eq_mask [of 4 j] by (simp add: take_bit_eq_mod)
qed

lemma schedule_prefix: "\<exists>zs. schedule s0 s1 n ws = ws @ zs \<and> length zs = n"
proof (induction n arbitrary: ws)
  case (Suc n)
  obtain zs where "schedule s0 s1 (Suc n) ws = (ws @ [s1 (ws ! (length ws - 2)) + ws ! (length ws - 7)
      + s0 (ws ! (length ws - 15)) + ws ! (length ws - 16)]) @ zs" "length zs = n"
    using Suc [of "ws @ [s1 (ws ! (length ws - 2)) + ws ! (length ws - 7)
      + s0 (ws ! (length ws - 15)) + ws ! (length ws - 16)]"] by (auto simp: Let_def)
  then show ?case by simp
qed simp

text \<open>The circle holds the last sixteen words of the schedule.\<close>

definition circle :: "'a list \<Rightarrow> 'a list \<Rightarrow> bool" where
  "circle W ws \<longleftrightarrow> length W = 16 \<and> 16 \<le> length ws
     \<and> (\<forall>i. length ws - 16 \<le> i \<longrightarrow> i < length ws \<longrightarrow> W ! (i mod 16) = ws ! i)"

lemma circle_expand:
  fixes s0 s1 :: "'a::len word \<Rightarrow> 'a word"
  assumes "circle W ws"
  defines "t \<equiv> length ws"
  defines "x \<equiv> s1 (ws ! (t - 2)) + ws ! (t - 7) + s0 (ws ! (t - 15)) + ws ! (t - 16)"
  shows "circle (expand_word s0 s1 t W) (ws @ [x]) \<and> expand_word s0 s1 t W ! (t AND 15) = x"
proof -
  have t: "16 \<le> t" "length W = 16" using assms(1) by (simp_all add: circle_def t_def)
  have at: "W ! ((t + k) mod 16) = ws ! (t - (16 - k))" if "k < 16" for k
  proof -
    have "(t + k) mod 16 = (t - (16 - k)) mod 16"
      using that t(1) mod_add_self2 [of "t - (16 - k)" 16] by simp
    moreover have "t - 16 \<le> t - (16 - k)" "t - (16 - k) < t" using that t(1) by auto
    ultimately show ?thesis using assms(1) unfolding circle_def t_def by simp
  qed
  have e: "expand_word s0 s1 t W = W[t mod 16 := x]"
    using at [of 0] at [of 1] at [of 9] at [of 14]
    by (simp add: expand_word_def nat_and_15 Let_def x_def) (simp add: add.assoc add.commute add.left_commute)
  have "W[t mod 16 := x] ! (i mod 16) = (ws @ [x]) ! i" if i: "Suc t - 16 \<le> i" "i < Suc t" for i
  proof (cases "i = t")
    case False
    then have lt: "i < t" "t < i + 16" using i by auto
    have "i mod 16 \<noteq> t mod 16"
    proof
      assume "i mod 16 = t mod 16"
      then have "(t - i) mod 16 = 0" using lt(1) by (metis le_less mod_eq_dvd_iff_nat dvd_imp_mod_0)
      then show False using lt by simp
    qed
    moreover have "W ! (i mod 16) = ws ! i"
      using assms(1) lt i unfolding circle_def t_def by simp
    ultimately show ?thesis using lt(1) by (simp add: nth_append t_def)
  qed (simp add: t nth_append t_def [symmetric])
  then show ?thesis
    using t by (auto simp: e circle_def t_def [symmetric] nat_and_15)
qed

lemma later_rounds_schedule:
  assumes "circle W ws" "length ws + n \<le> length K"
  shows "\<exists>W'. later_rounds S0 S1 s0 s1 K (length ws) n (r, W)
      = (all_rounds S0 S1 (take n (drop (length ws) K)) (drop (length ws) (schedule s0 s1 n ws)) r, W')
    \<and> length W' = 16"
  using assms
proof (induction n arbitrary: W ws r)
  case 0
  then show ?case by (simp add: circle_def)
next
  case (Suc n)
  let ?t = "length ws"
  let ?x = "s1 (ws ! (?t - 2)) + ws ! (?t - 7) + s0 (ws ! (?t - 15)) + ws ! (?t - 16)"
  let ?W = "expand_word s0 s1 ?t W"
  have c: "circle ?W (ws @ [?x])" "?W ! (?t AND 15) = ?x"
    using circle_expand [OF Suc.prems(1), of s0 s1] by simp_all
  obtain zs where zs: "schedule s0 s1 n (ws @ [?x]) = (ws @ [?x]) @ zs" "length zs = n"
    using schedule_prefix by blast
  have K: "drop ?t K = K ! ?t # drop (Suc ?t) K"
    using Suc.prems(2) by (simp add: Cons_nth_drop_Suc)
  obtain W' where "later_rounds S0 S1 s0 s1 K (length (ws @ [?x])) n (sha2_round S0 S1 r (K ! ?t) ?x, ?W)
      = (all_rounds S0 S1 (take n (drop (length (ws @ [?x])) K))
          (drop (length (ws @ [?x])) (schedule s0 s1 n (ws @ [?x]))) (sha2_round S0 S1 r (K ! ?t) ?x), W')"
    "length W' = 16"
    using Suc.IH [OF c(1)] Suc.prems(2) by fastforce
  then show ?case
    using zs(1) by (simp add: Let_def c(2) K)
qed

lemma first_rounds_load:
  assumes "length W = j + length block" "length W \<le> length K"
  shows "first_rounds S0 S1 K j block (r, W)
    = (all_rounds S0 S1 (take (length block) (drop j K)) block r, take j W @ block)"
  using assms
proof (induction block arbitrary: j W r)
  case (Cons w block)
  have K: "drop j K = K ! j # drop (Suc j) K" using Cons.prems by (simp add: Cons_nth_drop_Suc)
  have "take (Suc j) (W[j := w]) = take j W @ [w]" using Cons.prems by simp
  with Cons.IH [of "W[j := w]" "Suc j"] Cons.prems K show ?case by (simp add: Let_def)
qed simp

lemma all_rounds_append:
  "length K = length ws \<Longrightarrow>
   all_rounds S0 S1 (K @ K') (ws @ ws') r = all_rounds S0 S1 K' ws' (all_rounds S0 S1 K ws r)"
  by (induction K ws arbitrary: r rule: list_induct2) simp_all

text \<open>Both loops together are the reference rounds over the whole schedule.\<close>

lemma both_loops:
  assumes "length block = 16" "length W = 16" "length K = 16 + n"
  shows "\<exists>W'. later_rounds S0 S1 s0 s1 K 16 n (first_rounds S0 S1 K 0 block (r, W))
      = (all_rounds S0 S1 K (schedule s0 s1 n block) r, W') \<and> length W' = 16"
proof -
  let ?r = "all_rounds S0 S1 (take 16 K) block r"
  have f: "first_rounds S0 S1 K 0 block (r, W) = (?r, block)"
    using first_rounds_load [of W 0 block K S0 S1 r] assms by simp
  have "circle block block" using assms(1) by (simp add: circle_def)
  then obtain W' where "later_rounds S0 S1 s0 s1 K 16 n (?r, block)
      = (all_rounds S0 S1 (take n (drop 16 K)) (drop 16 (schedule s0 s1 n block)) ?r, W')" "length W' = 16"
    using later_rounds_schedule [of block block n K] assms by fastforce
  moreover obtain zs where zs: "schedule s0 s1 n block = block @ zs"
    using schedule_prefix by blast
  moreover have "all_rounds S0 S1 K (block @ zs) r = all_rounds S0 S1 (drop 16 K) zs ?r"
    using all_rounds_append [of "take 16 K" block S0 S1 "drop 16 K" zs r] assms by simp
  ultimately show ?thesis using f assms by simp
qed

section \<open>Bytes of words\<close>

lemma no_high_bit: "8 \<le> i \<Longrightarrow> \<not> bit (unat (b :: u8)) i"
  using bit_imp_le_length [of b i] by (auto simp: bit_simps)

lemma le_word_bit:
  "bit (le_word bs :: 'a::len word) i \<longleftrightarrow> i < LENGTH('a) \<and> i < 8 * length bs \<and> bit (bs ! (i div 8)) (i mod 8)"
proof -
  have "bit (le_nat bs) i \<longleftrightarrow> i < 8 * length bs \<and> bit (bs ! (i div 8)) (i mod 8)"
  proof (induction bs arbitrary: i)
    case (Cons b bs)
    have e: "le_nat (b # bs) = push_bit 8 (le_nat bs) OR unat b"
    proof -
      have "take_bit 8 (push_bit 8 (le_nat bs) + unat b) = unat b"
        using unat_u8_less [of b]
        by (simp add: take_bit_eq_mod push_bit_eq_mult)
      moreover have "push_bit 8 (le_nat bs) AND unat b = 0"
      proof (rule bit_eqI)
        fix n show "bit (push_bit 8 (le_nat bs) AND unat b) n = bit (0 :: nat) n"
          using no_high_bit [of n b] by (cases "8 \<le> n") (simp_all add: bit_and_iff bit_push_bit_iff)
      qed
      ultimately show ?thesis
        using disjunctive_add_eq_or [of "push_bit 8 (le_nat bs)" "unat b"]
        by (simp add: push_bit_eq_mult mult.commute add.commute)
    qed
    show ?case
    proof (cases "i < 8")
      case True
      then show ?thesis unfolding e by (simp add: bit_simps)
    next
      case False
      then obtain k where k: "i = k + 8" by (metis add.commute le_Suc_ex not_less)
      have "\<not> bit (unat b) i"
        using False no_high_bit [of i b] by simp
      moreover have "i div 8 = Suc (k div 8)" "i mod 8 = k mod 8" using k by simp_all
      ultimately show ?thesis using Cons.IH [of k] k unfolding e by (simp add: bit_simps)
    qed
  qed simp
  then show ?thesis by (simp add: le_word_def bit_simps)
qed

lemma masks:
  "0xff00ff00 = (push_bit 8 (mask 8) OR push_bit 24 (mask 8) :: u32)"
  "0x00ff00ff = (mask 8 OR push_bit 16 (mask 8) :: u32)"
  "0xff00ff00ff00ff00 = (push_bit 8 (mask 8) OR push_bit 24 (mask 8) OR push_bit 40 (mask 8)
     OR push_bit 56 (mask 8) :: u64)"
  "0x00ff00ff00ff00ff = (mask 8 OR push_bit 16 (mask 8) OR push_bit 32 (mask 8) OR push_bit 48 (mask 8) :: u64)"
  "0xffff0000ffff0000 = (push_bit 16 (mask 16) OR push_bit 48 (mask 16) :: u64)"
  "0x0000ffff0000ffff = (mask 16 OR push_bit 32 (mask 16) :: u64)"
  by (simp_all add: mask_eq_exp_minus_1)

lemma REVERSE32_bit:
  assumes "q < 4" "r < 8"
  shows "bit (REVERSE32 w) (8 * q + r) = bit w (8 * (3 - q) + r)"
proof -
  have high: "\<not> bit w n" if "32 \<le> n" for n
    using that bit_imp_le_length [of w n] by auto
  have "q = 0 \<or> q = 1 \<or> q = 2 \<or> q = 3" using assms(1) by linarith
  then show ?thesis
    using assms(2) by (elim disjE; simp add: REVERSE32_def masks Let_def bit_or_iff bit_and_iff
        bit_push_bit_iff bit_drop_bit_eq bit_mask_iff high)
qed

lemma REVERSE64_bit:
  assumes "q < 8" "r < 8"
  shows "bit (REVERSE64 w) (8 * q + r) = bit w (8 * (7 - q) + r)"
proof -
  have high: "\<not> bit w n" if "64 \<le> n" for n
    using that bit_imp_le_length [of w n] by auto
  have "q = 0 \<or> q = 1 \<or> q = 2 \<or> q = 3 \<or> q = 4 \<or> q = 5 \<or> q = 6 \<or> q = 7" using assms(1) by linarith
  then show ?thesis
    using assms(2) by (elim disjE; simp add: REVERSE64_def masks Let_def bit_or_iff bit_and_iff
        bit_push_bit_iff bit_drop_bit_eq bit_mask_iff high)
qed

text \<open>Reading a word in host order and reversing it is reading it in network order.\<close>

lemma reverse_le_word:
  "length bs = 4 \<Longrightarrow> REVERSE32 (le_word bs) = le_word (rev bs)"
  "length cs = 8 \<Longrightarrow> REVERSE64 (le_word cs) = le_word (rev cs)"
proof -
  show "REVERSE32 (le_word bs) = le_word (rev bs)" if n: "length bs = 4"
  proof (rule bit_word_eqI)
    fix i assume i: "i < LENGTH(32)"
    define q r where "q = i div 8" and "r = i mod 8"
    have "i = 8 * q + r" "q < 4" "r < 8" using i by (auto simp: q_def r_def)
    moreover from this have "8 * (3 - q) + r < 32" by arith
    ultimately show "bit (REVERSE32 (le_word bs)) i = bit (le_word (rev bs) :: u32) i"
      using n by (simp add: REVERSE32_bit le_word_bit rev_nth)
  qed
  show "REVERSE64 (le_word cs) = le_word (rev cs)" if n: "length cs = 8"
  proof (rule bit_word_eqI)
    fix i assume i: "i < LENGTH(64)"
    define q r where "q = i div 8" and "r = i mod 8"
    have "i = 8 * q + r" "q < 8" "r < 8" using i by (auto simp: q_def r_def)
    moreover from this have "8 * (7 - q) + r < 64" by arith
    ultimately show "bit (REVERSE64 (le_word cs)) i = bit (le_word (rev cs) :: u64) i"
      using n by (simp add: REVERSE64_bit le_word_bit rev_nth)
  qed
qed

lemma le_bytes_reverse:
  "le_bytes 4 (unat (REVERSE32 v)) = rev (le_bytes 4 (unat v))"
  "le_bytes 8 (unat (REVERSE64 w)) = rev (le_bytes 8 (unat w))"
proof -
  have inv32: "le_bytes 4 (unat (le_word bs :: u32)) = bs" if "length bs = 4" for bs
    using that le_bytes_le_nat [of bs] le_nat_bound [of bs]
    by (simp add: le_word_def unat_of_nat del: le_bytes_numeral)
  have inv64: "le_bytes 8 (unat (le_word bs :: u64)) = bs" if "length bs = 8" for bs
    using that le_bytes_le_nat [of bs] le_nat_bound [of bs]
    by (simp add: le_word_def unat_of_nat del: le_bytes_numeral)
  have "REVERSE32 v = le_word (rev (le_bytes 4 (unat v)))"
    using reverse_le_word(1) [of "le_bytes 4 (unat v)"] by (simp del: le_bytes_numeral)
  then show "le_bytes 4 (unat (REVERSE32 v)) = rev (le_bytes 4 (unat v))"
    by (simp add: inv32 del: le_bytes_numeral)
  have "REVERSE64 w = le_word (rev (le_bytes 8 (unat w)))"
    using reverse_le_word(2) [of "le_bytes 8 (unat w)"] by (simp del: le_bytes_numeral)
  then show "le_bytes 8 (unat (REVERSE64 w)) = rev (le_bytes 8 (unat w))"
    by (simp add: inv64 del: le_bytes_numeral)
qed

section \<open>Hashing block by block\<close>

text \<open>The state after every full block of a message, and the bytes that are left.\<close>

function absorb :: "nat \<Rightarrow> ('s \<Rightarrow> bytes \<Rightarrow> 's) \<Rightarrow> 's \<Rightarrow> bytes \<Rightarrow> 's \<times> bytes" where
  "absorb B f s m =
     (if B = 0 \<or> length m < B then (s, m) else absorb B f (f s (take B m)) (drop B m))"
  by pat_completeness auto
termination
  by (relation "measure (\<lambda>(B, f, s, m). length m)") auto

declare absorb.simps [simp del]

text \<open>The standard's padding: a bit 1, zeros, and the length in bits in the last \<open>L\<close> bytes.\<close>

definition pad :: "nat \<Rightarrow> nat \<Rightarrow> bytes \<Rightarrow> bytes" where
  "pad B L m =
     m @ 0x80 # replicate ((B - (length m + 1 + L) mod B) mod B) 0 @ rev (le_bytes L (8 * length m))"

lemma absorb_short: "length m < B \<Longrightarrow> absorb B f s m = (s, m)"
  by (simp add: absorb.simps)

lemma absorb_block: "0 < B \<Longrightarrow> length b = B \<Longrightarrow> absorb B f s (b @ m) = absorb B f (f s b) m"
  by (simp add: absorb.simps [of B f s "b @ m"])

lemma absorb_one: "0 < B \<Longrightarrow> length b = B \<Longrightarrow> absorb B f s b = (f s b, [])"
  using absorb_block [of B b f s "[]"] by (simp add: absorb_short)

lemma absorb_append:
  assumes "0 < B"
  shows "absorb B f s (a @ b) = absorb B f (fst (absorb B f s a)) (snd (absorb B f s a) @ b)"
  using assms
proof (induction B f s a rule: absorb.induct)
  case (1 B f s m)
  show ?case
  proof (cases "length m < B")
    case True
    then show ?thesis by (simp add: absorb_short)
  next
    case False
    then have "absorb B f s (m @ b) = absorb B f (f s (take B m)) (drop B m @ b)"
      using 1(2) by (simp add: absorb.simps [of B f s "m @ b"])
    moreover have "absorb B f s m = absorb B f (f s (take B m)) (drop B m)"
      using False 1(2) by (simp add: absorb.simps [of B f s m])
    ultimately show ?thesis using 1 False by simp
  qed
qed

lemma absorb_rest: "0 < B \<Longrightarrow> length (snd (absorb B f s m)) = length m mod B"
proof (induction B f s m rule: absorb.induct)
  case (1 B f s m)
  then show ?case
    by (cases "length m < B") (simp_all add: absorb_short absorb.simps [of B f s m] le_mod_geq)
qed

lemma absorb_keeps:
  assumes "\<And>s x. P s \<Longrightarrow> P (f s x)" "P s"
  shows "P (fst (absorb B f s m))"
  using assms
proof (induction B f s m rule: absorb.induct)
  case (1 B f s m)
  show ?case
  proof (cases "B = 0 \<or> length m < B")
    case False
    then have "P (fst (absorb B f (f s (take B m)) (drop B m)))"
      using 1 by blast
    with False show ?thesis by (subst absorb.simps) simp
  qed (simp add: absorb.simps [of B f s m] "1.prems")
qed

text \<open>What the padding adds to the last bytes of a message is one block or two.\<close>

lemma absorb_pad:
  assumes "L + 1 < B" "absorb B f s m = (s', r)"
  shows "fst (absorb B f s (pad B L m)) =
    (let cnt = rev (le_bytes L (8 * length m))
     in if length r + 1 + L \<le> B
        then f s' (r @ 0x80 # replicate (B - L - 1 - length r) 0 @ cnt)
        else f (f s' (r @ 0x80 # replicate (B - 1 - length r) 0)) (replicate (B - L) 0 @ cnt))"
proof -
  define n where "n = length r"
  let ?k = "(B - (length m + 1 + L) mod B) mod B"
  let ?cnt = "rev (le_bytes L (8 * length m))"
  have n: "n = length m mod B" "n < B"
    using absorb_rest [of B f s m] assms by (simp_all add: n_def)
  have m: "(length m + 1 + L) mod B = (n + 1 + L) mod B"
    using mod_add_left_eq [of "length m" B "1 + L"] by (simp add: n(1))
  have p: "absorb B f s (pad B L m) = absorb B f s' (r @ 0x80 # replicate ?k 0 @ ?cnt)"
    using absorb_append [of B f s m] assms by (simp add: pad_def)
  show ?thesis
  proof (cases "n + 1 + L \<le> B")
    case True
    have k: "?k = B - L - 1 - n"
      unfolding m using True by (cases "n + 1 + L = B") auto
    have "absorb B f s' (r @ 0x80 # replicate ?k 0 @ ?cnt)
        = (f s' (r @ 0x80 # replicate (B - L - 1 - n) 0 @ ?cnt), [])"
      unfolding k using True assms(1) by (intro absorb_one) (auto simp: n_def)
    with True p show ?thesis by (simp add: n_def Let_def)
  next
    case False
    have "(n + 1 + L) mod B = n + 1 + L - B"
    proof -
      have "n + 1 + L - B < B" using n(2) assms(1) by linarith
      then show ?thesis using False le_mod_geq [of B "n + 1 + L"] by simp
    qed
    then have k: "?k = (B - 1 - n) + (B - L)"
      unfolding m using False n(2) assms(1) by simp
    have "absorb B f s' ((r @ 0x80 # replicate (B - 1 - n) 0) @ replicate (B - L) 0 @ ?cnt)
        = absorb B f (f s' (r @ 0x80 # replicate (B - 1 - n) 0)) (replicate (B - L) 0 @ ?cnt)"
      using n(2) by (intro absorb_block) (auto simp: n_def)
    moreover have "absorb B f (f s' (r @ 0x80 # replicate (B - 1 - n) 0)) (replicate (B - L) 0 @ ?cnt)
        = (f (f s' (r @ 0x80 # replicate (B - 1 - n) 0)) (replicate (B - L) 0 @ ?cnt), [])"
      using assms(1) by (intro absorb_one) auto
    ultimately show ?thesis
      using False p unfolding k by (simp add: n_def Let_def replicate_add)
  qed
qed

section \<open>The interface of a hash\<close>

text \<open>
  A hash is used by \<open>init\<close>, any number of calls of \<open>write\<close>, and \<open>finalize\<close>, which stores the digest
  at the start of a buffer. \<open>absorbed c m\<close> says that the context \<open>c\<close> has been fed the message \<open>m\<close>.
\<close>

locale stream_hash =
  fixes init :: 'c
    and feed :: "'c \<Rightarrow> bytes \<Rightarrow> 'c option"
    and finalize :: "'c \<Rightarrow> bytes option \<Rightarrow> (bytes option \<times> 'c) option"
    and absorbed :: "'c \<Rightarrow> bytes \<Rightarrow> bool"
    and digest :: "bytes \<Rightarrow> bytes"
    and digest_length :: nat
  assumes init_absorbed: "absorbed init []"
    and feed_absorbed: "absorbed c m \<Longrightarrow> \<exists>c'. feed c x = Some c' \<and> absorbed c' (m @ x)"
    and finalize_digest: "absorbed c m \<Longrightarrow> digest_length \<le> length out \<Longrightarrow>
      \<exists>c'. finalize c (Some out) = Some (Some (digest m @ drop digest_length out), c')"
    and digest_size: "length (digest m) = digest_length"
begin

fun feed_all :: "bytes list \<Rightarrow> 'c \<Rightarrow> 'c option" where
  "feed_all [] c = Some c"
| "feed_all (x # xs) c = do { c \<leftarrow> feed c x; feed_all xs c }"

lemma feed_all_absorbed: "absorbed c m \<Longrightarrow> \<exists>c'. feed_all xs c = Some c' \<and> absorbed c' (m @ concat xs)"
proof (induction xs arbitrary: c m)
  case (Cons x xs)
  obtain c1 where c1: "feed c x = Some c1" "absorbed c1 (m @ x)"
    using feed_absorbed [OF Cons.prems] by blast
  with Cons.IH [OF c1(2)] show ?case by auto
qed simp

lemma feed_finalize:
  assumes "digest_length \<le> length out"
  shows "\<exists>c' c''. feed init m = Some c' \<and> finalize c' (Some out)
    = Some (Some (digest m @ drop digest_length out), c'')"
  using feed_absorbed [OF init_absorbed, of m] finalize_digest assms by fastforce

lemma feed_all_finalize:
  assumes "digest_length \<le> length out"
  shows "\<exists>c' c''. feed_all xs init = Some c' \<and> finalize c' (Some out)
    = Some (Some (digest (concat xs) @ drop digest_length out), c'')"
  using feed_all_absorbed [OF init_absorbed, of xs] finalize_digest assms by fastforce

lemma feed_two_finalize:
  assumes "digest_length \<le> length out"
  shows "\<exists>c1 c2 c3. feed init x = Some c1 \<and> feed c1 y = Some c2 \<and> finalize c2 (Some out)
    = Some (Some (digest (x @ y) @ drop digest_length out), c3)"
proof -
  obtain c1 where c1: "feed init x = Some c1" "absorbed c1 x"
    using feed_absorbed [OF init_absorbed, of x] by auto
  obtain c2 where "feed c1 y = Some c2" "absorbed c2 (x @ y)"
    using feed_absorbed [OF c1(2)] by blast
  with c1 finalize_digest [of c2 "x @ y" out] assms show ?thesis by blast
qed

end

end
