(* ===== verification/Sha2.thy ===== *)
theory Sha2
  imports BlockHash
begin

text \<open>
  SHA-256, SHA-512, HMAC and PBKDF2 of \<open>src/sha2.c\<close>, in the configuration without
  \<open>SHA2_UNROLL_TRANSFORM\<close> and with \<open>BYTE_ORDER\<close> equal to \<open>LITTLE_ENDIAN\<close>. The two widths are written
  out twice in the code; here the write and padding steps are defined once, with the block length
  and the transform as arguments. Data of length \<open>len\<close> is a list of that length, a digest buffer is
  a list into which the digest is stored, or \<open>None\<close> for a null pointer.
\<close>

section \<open>Constants\<close>

definition SHA256_BLOCK_LENGTH :: nat where "SHA256_BLOCK_LENGTH = 64"
definition SHA256_DIGEST_LENGTH :: nat where "SHA256_DIGEST_LENGTH = 32"
definition SHA512_BLOCK_LENGTH :: nat where "SHA512_BLOCK_LENGTH = 128"
definition SHA512_DIGEST_LENGTH :: nat where "SHA512_DIGEST_LENGTH = 64"
definition SHA256_SHORT_BLOCK_LENGTH :: nat where "SHA256_SHORT_BLOCK_LENGTH = SHA256_BLOCK_LENGTH - 8"
definition SHA512_SHORT_BLOCK_LENGTH :: nat where "SHA512_SHORT_BLOCK_LENGTH = SHA512_BLOCK_LENGTH - 16"

lemmas sha_sizes =
  SHA256_BLOCK_LENGTH_def SHA256_DIGEST_LENGTH_def SHA512_BLOCK_LENGTH_def SHA512_DIGEST_LENGTH_def
  SHA256_SHORT_BLOCK_LENGTH_def SHA512_SHORT_BLOCK_LENGTH_def

definition Sigma0_256 :: "u32 \<Rightarrow> u32" where "Sigma0_256 x = S32 2 x XOR S32 13 x XOR S32 22 x"
definition Sigma1_256 :: "u32 \<Rightarrow> u32" where "Sigma1_256 x = S32 6 x XOR S32 11 x XOR S32 25 x"
definition sigma0_256 :: "u32 \<Rightarrow> u32" where "sigma0_256 x = S32 7 x XOR S32 18 x XOR R 3 x"
definition sigma1_256 :: "u32 \<Rightarrow> u32" where "sigma1_256 x = S32 17 x XOR S32 19 x XOR R 10 x"

definition Sigma0_512 :: "u64 \<Rightarrow> u64" where "Sigma0_512 x = S64 28 x XOR S64 34 x XOR S64 39 x"
definition Sigma1_512 :: "u64 \<Rightarrow> u64" where "Sigma1_512 x = S64 14 x XOR S64 18 x XOR S64 41 x"
definition sigma0_512 :: "u64 \<Rightarrow> u64" where "sigma0_512 x = S64 1 x XOR S64 8 x XOR R 7 x"
definition sigma1_512 :: "u64 \<Rightarrow> u64" where "sigma1_512 x = S64 19 x XOR S64 61 x XOR R 6 x"

text \<open>The tables of the source, in decimal.\<close>

definition K256 :: "u32 list" where
  "K256 =
    [1116352408, 1899447441, 3049323471, 3921009573, 961987163, 1508970993,
     2453635748, 2870763221, 3624381080, 310598401, 607225278, 1426881987,
     1925078388, 2162078206, 2614888103, 3248222580, 3835390401, 4022224774,
     264347078, 604807628, 770255983, 1249150122, 1555081692, 1996064986,
     2554220882, 2821834349, 2952996808, 3210313671, 3336571891, 3584528711,
     113926993, 338241895, 666307205, 773529912, 1294757372, 1396182291,
     1695183700, 1986661051, 2177026350, 2456956037, 2730485921, 2820302411,
     3259730800, 3345764771, 3516065817, 3600352804, 4094571909, 275423344,
     430227734, 506948616, 659060556, 883997877, 958139571, 1322822218,
     1537002063, 1747873779, 1955562222, 2024104815, 2227730452, 2361852424,
     2428436474, 2756734187, 3204031479, 3329325298]"

definition sha256_initial_hash_value :: "u32 list" where
  "sha256_initial_hash_value =
    [1779033703, 3144134277, 1013904242, 2773480762, 1359893119, 2600822924,
     528734635, 1541459225]"

definition K512 :: "u64 list" where
  "K512 =
    [4794697086780616226, 8158064640168781261, 13096744586834688815, 16840607885511220156,
     4131703408338449720, 6480981068601479193, 10538285296894168987, 12329834152419229976,
     15566598209576043074, 1334009975649890238, 2608012711638119052, 6128411473006802146,
     8268148722764581231, 9286055187155687089, 11230858885718282805, 13951009754708518548,
     16472876342353939154, 17275323862435702243, 1135362057144423861, 2597628984639134821,
     3308224258029322869, 5365058923640841347, 6679025012923562964, 8573033837759648693,
     10970295158949994411, 12119686244451234320, 12683024718118986047, 13788192230050041572,
     14330467153632333762, 15395433587784984357, 489312712824947311, 1452737877330783856,
     2861767655752347644, 3322285676063803686, 5560940570517711597, 5996557281743188959,
     7280758554555802590, 8532644243296465576, 9350256976987008742, 10552545826968843579,
     11727347734174303076, 12113106623233404929, 14000437183269869457, 14369950271660146224,
     15101387698204529176, 15463397548674623760, 17586052441742319658, 1182934255886127544,
     1847814050463011016, 2177327727835720531, 2830643537854262169, 3796741975233480872,
     4115178125766777443, 5681478168544905931, 6601373596472566643, 7507060721942968483,
     8399075790359081724, 8693463985226723168, 9568029438360202098, 10144078919501101548,
     10430055236837252648, 11840083180663258601, 13761210420658862357, 14299343276471374635,
     14566680578165727644, 15097957966210449927, 16922976911328602910, 17689382322260857208,
     500013540394364858, 748580250866718886, 1242879168328830382, 1977374033974150939,
     2944078676154940804, 3659926193048069267, 4368137639120453308, 4836135668995329356,
     5532061633213252278, 6448918945643986474, 6902733635092675308, 7801388544844847127]"

definition sha512_initial_hash_value :: "u64 list" where
  "sha512_initial_hash_value =
    [7640891576956012808, 13503953896175478587, 4354685564936845355, 11912009170470909681,
     5840696475078001361, 11170449401992604703, 2270897969802886507, 6620516959819538809]"

section \<open>Contexts\<close>

record ('w, 'n) sha2_context =
  ctx_state :: "'w list"
  ctx_bitcount :: 'n
  ctx_buffer :: bytes

type_synonym sha256_context = "(u32, u64) sha2_context"
type_synonym sha512_context = "(u64, u64 \<times> u64) sha2_context"

text \<open>Sixteen words of a block, as the machine reads them.\<close>

definition load32 :: "bytes \<Rightarrow> u32 list" where
  "load32 bs = map (\<lambda>j. le_word (take 4 (drop (4 * j) bs))) [0..<16]"

definition load64 :: "bytes \<Rightarrow> u64 list" where
  "load64 bs = map (\<lambda>j. le_word (take 8 (drop (8 * j) bs))) [0..<16]"

text \<open>
  The words \<open>W256\<close> are kept in the context's own buffer. The data may be that buffer too: each of
  its words is read just before the word of the same index is overwritten.
\<close>

definition sha256_transform :: "sha256_context \<Rightarrow> bytes \<Rightarrow> sha256_context" where
  "sha256_transform ctx block =
     (let rW = first_rounds Sigma0_256 Sigma1_256 K256 0 (map REVERSE32 (load32 block))
                 (load_regs (ctx_state ctx), load32 (ctx_buffer ctx));
          (r, W256) = later_rounds Sigma0_256 Sigma1_256 sigma0_256 sigma1_256 K256 16 48 rW
      in ctx\<lparr>ctx_state := add_regs (ctx_state ctx) r,
             ctx_buffer := concat (map (\<lambda>w. le_bytes 4 (unat w)) W256)\<rparr>)"

definition sha512_transform :: "sha512_context \<Rightarrow> bytes \<Rightarrow> sha512_context" where
  "sha512_transform ctx block =
     (let rW = first_rounds Sigma0_512 Sigma1_512 K512 0 (map REVERSE64 (load64 block))
                 (load_regs (ctx_state ctx), load64 (ctx_buffer ctx));
          (r, W512) = later_rounds Sigma0_512 Sigma1_512 sigma0_512 sigma1_512 K512 16 64 rW
      in ctx\<lparr>ctx_state := add_regs (ctx_state ctx) r,
             ctx_buffer := concat (map (\<lambda>w. le_bytes 8 (unat w)) W512)\<rparr>)"

section \<open>Writing and padding\<close>

text \<open>
  \<open>B\<close> is the block length, \<open>inc\<close> adds to the bit count, \<open>used\<close> is
  \<open>(bitcount >> 3) % BLOCK_LENGTH\<close>.
\<close>

function sha2_blocks :: "nat \<Rightarrow> (('w, 'n) sha2_context \<Rightarrow> bytes \<Rightarrow> ('w, 'n) sha2_context)
    \<Rightarrow> ('n \<Rightarrow> nat \<Rightarrow> 'n) \<Rightarrow> ('w, 'n) sha2_context \<Rightarrow> bytes \<Rightarrow> ('w, 'n) sha2_context \<times> bytes" where
  "sha2_blocks B transform inc ctx bs =
     (if B = 0 \<or> length bs < B then (ctx, bs)
      else let ctx = transform ctx (take B bs)
           in sha2_blocks B transform inc (ctx\<lparr>ctx_bitcount := inc (ctx_bitcount ctx) (B * 8)\<rparr>) (drop B bs))"
  by pat_completeness auto
termination
  by (relation "measure (\<lambda>(B, transform, inc, ctx, bs). length bs)") auto

declare sha2_blocks.simps [simp del]

definition sha2_tail :: "nat \<Rightarrow> (('w, 'n) sha2_context \<Rightarrow> bytes \<Rightarrow> ('w, 'n) sha2_context)
    \<Rightarrow> ('n \<Rightarrow> nat \<Rightarrow> 'n) \<Rightarrow> ('w, 'n) sha2_context \<Rightarrow> bytes \<Rightarrow> ('w, 'n) sha2_context option" where
  "sha2_tail B transform inc ctx bs =
     (let (ctx, bs) = sha2_blocks B transform inc ctx bs
      in if length bs > 0 then do {
           b \<leftarrow> mem_write (ctx_buffer ctx) 0 bs;
           Some (ctx\<lparr>ctx_buffer := b, ctx_bitcount := inc (ctx_bitcount ctx) (length bs * 8)\<rparr>)
         }
         else Some ctx)"

definition sha2_write :: "nat \<Rightarrow> (('w, 'n) sha2_context \<Rightarrow> bytes \<Rightarrow> ('w, 'n) sha2_context)
    \<Rightarrow> ('n \<Rightarrow> nat \<Rightarrow> 'n) \<Rightarrow> ('n \<Rightarrow> nat) \<Rightarrow> ('w, 'n) sha2_context \<Rightarrow> bytes
    \<Rightarrow> ('w, 'n) sha2_context option" where
  "sha2_write B transform inc used ctx bs =
     (if length bs = 0 then Some ctx
      else let usedspace = used (ctx_bitcount ctx)
           in if usedspace > 0 then
                let freespace = B - usedspace
                in if length bs \<ge> freespace then do {
                     b \<leftarrow> mem_write (ctx_buffer ctx) usedspace (take freespace bs);
                     let ctx = ctx\<lparr>ctx_buffer := b, ctx_bitcount := inc (ctx_bitcount ctx) (freespace * 8)\<rparr>;
                     sha2_tail B transform inc (transform ctx (ctx_buffer ctx)) (drop freespace bs)
                   }
                   else do {
                     b \<leftarrow> mem_write (ctx_buffer ctx) usedspace bs;
                     Some (ctx\<lparr>ctx_buffer := b, ctx_bitcount := inc (ctx_bitcount ctx) (length bs * 8)\<rparr>)
                   }
              else sha2_tail B transform inc ctx bs)"

text \<open>
  The padding and last transforms: \<open>short\<close> is the short block length, \<open>z\<close> the number of bytes cleared
  between two transforms and \<open>stored\<close> the bit count as it is stored after \<open>short\<close> bytes.
\<close>

definition sha2_last :: "nat \<Rightarrow> nat \<Rightarrow> nat \<Rightarrow> (('w, 'n) sha2_context \<Rightarrow> bytes \<Rightarrow> ('w, 'n) sha2_context)
    \<Rightarrow> ('n \<Rightarrow> nat) \<Rightarrow> ('n \<Rightarrow> bytes) \<Rightarrow> ('w, 'n) sha2_context \<Rightarrow> ('w, 'n) sha2_context option" where
  "sha2_last B short z transform used stored ctx =
     (let usedspace = used (ctx_bitcount ctx)
      in do {
        ctx \<leftarrow>
          (if usedspace > 0 then do {
             b \<leftarrow> mem_set (ctx_buffer ctx) usedspace 0x80;
             let usedspace = usedspace + 1;
             (if usedspace \<le> short then do {
                b \<leftarrow> mem_write b usedspace (replicate (short - usedspace) 0);
                Some (ctx\<lparr>ctx_buffer := b\<rparr>)
              }
              else do {
                b \<leftarrow> (if usedspace < B then mem_write b usedspace (replicate (B - usedspace) 0) else Some b);
                let ctx = transform (ctx\<lparr>ctx_buffer := b\<rparr>) b;
                b \<leftarrow> mem_write (ctx_buffer ctx) 0 (replicate z 0);
                Some (ctx\<lparr>ctx_buffer := b\<rparr>)
              })
           }
           else do {
             b \<leftarrow> mem_write (ctx_buffer ctx) 0 (replicate short 0);
             b \<leftarrow> mem_set b 0 0x80;
             Some (ctx\<lparr>ctx_buffer := b\<rparr>)
           });
        b \<leftarrow> mem_write (ctx_buffer ctx) short (stored (ctx_bitcount ctx));
        Some (transform (ctx\<lparr>ctx_buffer := b\<rparr>) b)
      })"

section \<open>SHA-256\<close>

definition sha256_init :: sha256_context where
  "sha256_init = \<lparr>ctx_state = sha256_initial_hash_value, ctx_bitcount = 0,
     ctx_buffer = replicate SHA256_BLOCK_LENGTH 0\<rparr>"

definition sha256_inc :: "u64 \<Rightarrow> nat \<Rightarrow> u64" where "sha256_inc n k = n + of_nat k"

definition sha256_used :: "u64 \<Rightarrow> nat" where
  "sha256_used n = unat (drop_bit 3 n) mod SHA256_BLOCK_LENGTH"

definition sha256_write :: "sha256_context \<Rightarrow> bytes \<Rightarrow> sha256_context option" where
  "sha256_write = sha2_write SHA256_BLOCK_LENGTH sha256_transform sha256_inc sha256_used"

definition sha256_stored :: "u64 \<Rightarrow> bytes" where
  "sha256_stored n = le_bytes 8 (unat (REVERSE64 n))"

definition sha256_last :: "sha256_context \<Rightarrow> sha256_context option" where
  "sha256_last = sha2_last SHA256_BLOCK_LENGTH SHA256_SHORT_BLOCK_LENGTH SHA256_SHORT_BLOCK_LENGTH
     sha256_transform sha256_used sha256_stored"

definition zero_context :: "nat \<Rightarrow> 'n \<Rightarrow> ('w::zero, 'n) sha2_context" where
  "zero_context B n = \<lparr>ctx_state = replicate 8 0, ctx_bitcount = n, ctx_buffer = replicate B 0\<rparr>"

definition sha256_finalize :: "sha256_context \<Rightarrow> bytes option \<Rightarrow> (bytes option \<times> sha256_context) option" where
  "sha256_finalize ctx digest =
     (case digest of
        None \<Rightarrow> Some (None, zero_context SHA256_BLOCK_LENGTH 0)
      | Some d \<Rightarrow> do {
          ctx \<leftarrow> sha256_last ctx;
          d \<leftarrow> mem_write d 0 (concat (map (\<lambda>w. le_bytes 4 (unat (REVERSE32 w))) (ctx_state ctx)));
          Some (Some d, zero_context SHA256_BLOCK_LENGTH 0)
        })"

definition sha256_raw :: "bytes \<Rightarrow> bytes \<Rightarrow> bytes option" where
  "sha256_raw bs digest = do {
     ctx \<leftarrow> sha256_write sha256_init bs;
     (d, _) \<leftarrow> sha256_finalize ctx (Some digest);
     d
   }"

section \<open>SHA-512\<close>

definition sha512_init :: sha512_context where
  "sha512_init = \<lparr>ctx_state = sha512_initial_hash_value, ctx_bitcount = (0, 0),
     ctx_buffer = replicate SHA512_BLOCK_LENGTH 0\<rparr>"

fun ADDINC128 :: "u64 \<times> u64 \<Rightarrow> nat \<Rightarrow> u64 \<times> u64" where
  "ADDINC128 (w0, w1) n =
     (let w0 = w0 + of_nat n in (w0, if w0 < of_nat n then w1 + 1 else w1))"

definition sha512_used :: "u64 \<times> u64 \<Rightarrow> nat" where
  "sha512_used n = unat (drop_bit 3 (fst n)) mod SHA512_BLOCK_LENGTH"

definition sha512_write :: "sha512_context \<Rightarrow> bytes \<Rightarrow> sha512_context option" where
  "sha512_write = sha2_write SHA512_BLOCK_LENGTH sha512_transform ADDINC128 sha512_used"

definition sha512_stored :: "u64 \<times> u64 \<Rightarrow> bytes" where
  "sha512_stored n = le_bytes 8 (unat (REVERSE64 (snd n))) @ le_bytes 8 (unat (REVERSE64 (fst n)))"

definition sha512_last :: "sha512_context \<Rightarrow> sha512_context option" where
  "sha512_last = sha2_last SHA512_BLOCK_LENGTH SHA512_SHORT_BLOCK_LENGTH (SHA512_BLOCK_LENGTH - 2)
     sha512_transform sha512_used sha512_stored"

definition sha512_finalize :: "sha512_context \<Rightarrow> bytes option \<Rightarrow> (bytes option \<times> sha512_context) option" where
  "sha512_finalize ctx digest =
     (case digest of
        None \<Rightarrow> Some (None, zero_context SHA512_BLOCK_LENGTH (0, 0))
      | Some d \<Rightarrow> do {
          ctx \<leftarrow> sha512_last ctx;
          d \<leftarrow> mem_write d 0 (concat (map (\<lambda>w. le_bytes 8 (unat (REVERSE64 w))) (ctx_state ctx)));
          Some (Some d, zero_context SHA512_BLOCK_LENGTH (0, 0))
        })"

definition sha512_raw :: "bytes \<Rightarrow> bytes \<Rightarrow> bytes option" where
  "sha512_raw bs digest = do {
     ctx \<leftarrow> sha512_write sha512_init bs;
     (d, _) \<leftarrow> sha512_finalize ctx (Some digest);
     d
   }"

section \<open>The reference\<close>

text \<open>The functions of the standard, over the whole padded message and the whole schedule.\<close>

definition sha256_compress :: "u32 list \<Rightarrow> bytes \<Rightarrow> u32 list" where
  "sha256_compress s block =
     (let ws = schedule sigma0_256 sigma1_256 48 (map (\<lambda>j. le_word (rev (take 4 (drop (4 * j) block)))) [0..<16])
      in add_regs s (all_rounds Sigma0_256 Sigma1_256 K256 ws (load_regs s)))"

definition sha512_compress :: "u64 list \<Rightarrow> bytes \<Rightarrow> u64 list" where
  "sha512_compress s block =
     (let ws = schedule sigma0_512 sigma1_512 64 (map (\<lambda>j. le_word (rev (take 8 (drop (8 * j) block)))) [0..<16])
      in add_regs s (all_rounds Sigma0_512 Sigma1_512 K512 ws (load_regs s)))"

definition sha256_reference :: "bytes \<Rightarrow> bytes" where
  "sha256_reference m =
     concat (map (\<lambda>w. rev (le_bytes 4 (unat w)))
       (fst (absorb 64 sha256_compress sha256_initial_hash_value (pad 64 8 m))))"

definition sha512_reference :: "bytes \<Rightarrow> bytes" where
  "sha512_reference m =
     concat (map (\<lambda>w. rev (le_bytes 8 (unat w)))
       (fst (absorb 128 sha512_compress sha512_initial_hash_value (pad 128 16 m))))"

section \<open>The two widths at once\<close>

text \<open>
  What the write and padding steps need of a transform, a bit count and their constants. \<open>cnt n\<close> is
  the bit count \<open>n\<close>; \<open>L\<close> is the number of bytes the count takes in the last block.
\<close>

locale sha2_width =
  fixes B L z :: nat
    and transform :: "('w, 'n) sha2_context \<Rightarrow> bytes \<Rightarrow> ('w, 'n) sha2_context"
    and inc :: "'n \<Rightarrow> nat \<Rightarrow> 'n"
    and used :: "'n \<Rightarrow> nat"
    and stored :: "'n \<Rightarrow> bytes"
    and cnt :: "nat \<Rightarrow> 'n"
    and compress :: "'w list \<Rightarrow> bytes \<Rightarrow> 'w list"
    and h0 :: "'w list"
  assumes sizes: "L + 1 < B" "B - L \<le> z" "z \<le> B"
    and transform_state: "length (ctx_buffer c) = B \<Longrightarrow> length x = B \<Longrightarrow>
      \<exists>b. transform c x = c\<lparr>ctx_state := compress (ctx_state c) x, ctx_buffer := b\<rparr> \<and> length b = B"
    and compress_size: "length (compress s x) = 8"
    and h0_size: "length h0 = 8"
    and inc_cnt: "k \<le> B \<Longrightarrow> inc (cnt n) (k * 8) = cnt (n + 8 * k)"
    and used_cnt: "used (cnt (8 * n)) = n mod B"
    and stored_cnt: "stored (cnt n) = rev (le_bytes L n)"
begin

text \<open>The context has been fed \<open>m\<close>: state, bit count and the first bytes of the buffer.\<close>

definition fed :: "('w, 'n) sha2_context \<Rightarrow> bytes \<Rightarrow> bool" where
  "fed c m \<longleftrightarrow> length (ctx_buffer c) = B \<and> ctx_bitcount c = cnt (8 * length m)
     \<and> ctx_state c = fst (absorb B compress h0 m)
     \<and> take (length m mod B) (ctx_buffer c) = snd (absorb B compress h0 m)"

lemma B_pos: "0 < B"
  using sizes by simp

lemma absorb_size: "length (fst (absorb B compress s m)) = 8" if "length s = 8"
  using that by (rule absorb_keeps [where P = "\<lambda>s. length s = 8", rotated]) (simp add: compress_size)

lemma blocks_absorb:
  assumes "length (ctx_buffer c) = B" "ctx_bitcount c = cnt (8 * n)"
  shows "\<exists>c'. sha2_blocks B transform inc c x = (c', snd (absorb B compress (ctx_state c) x))
    \<and> length (ctx_buffer c') = B \<and> ctx_state c' = fst (absorb B compress (ctx_state c) x)
    \<and> ctx_bitcount c' = cnt (8 * (n + (length x - length x mod B)))"
  using assms
proof (induction "length x" arbitrary: c x n rule: less_induct)
  case less
  show ?case
  proof (cases "length x < B")
    case True
    with less.prems show ?thesis by (simp add: sha2_blocks.simps absorb_short)
  next
    case False
    obtain b where t: "transform c (take B x) = c\<lparr>ctx_state := compress (ctx_state c) (take B x), ctx_buffer := b\<rparr>"
      "length b = B"
      using transform_state [of c "take B x"] less.prems(1) False by auto
    let ?c = "c\<lparr>ctx_state := compress (ctx_state c) (take B x), ctx_buffer := b,
      ctx_bitcount := cnt (8 * (n + B))\<rparr>"
    have "sha2_blocks B transform inc c x = sha2_blocks B transform inc ?c (drop B x)"
      using False B_pos t(1) inc_cnt [of B "8 * n"] less.prems(2)
      by (simp add: sha2_blocks.simps [of B transform inc c x] algebra_simps)
    moreover have "absorb B compress (ctx_state c) x = absorb B compress (compress (ctx_state c) (take B x)) (drop B x)"
      using False B_pos by (simp add: absorb.simps [of B compress "ctx_state c" x])
    moreover have "n + B + (length (drop B x) - length (drop B x) mod B) = n + (length x - length x mod B)"
    proof -
      have "length (drop B x) mod B = length x mod B" using False by (simp add: le_mod_geq)
      moreover have "length (drop B x) mod B \<le> length (drop B x)" by simp
      ultimately show ?thesis using False by simp
    qed
    ultimately show ?thesis
      using less.hyps [of "drop B x" ?c "n + B"] False B_pos t(2) by simp
  qed
qed

lemma tail_fed:
  assumes "length (ctx_buffer c) = B" "ctx_bitcount c = cnt (8 * n)" "n mod B = 0"
    "ctx_state c = fst (absorb B compress h0 m)" "snd (absorb B compress h0 m) = []" "n = length m"
  shows "\<exists>c'. sha2_tail B transform inc c x = Some c' \<and> fed c' (m @ x)"
proof -
  let ?r = "snd (absorb B compress (ctx_state c) x)"
  obtain c' where c': "sha2_blocks B transform inc c x = (c', ?r)" "length (ctx_buffer c') = B"
    "ctx_state c' = fst (absorb B compress (ctx_state c) x)"
    "ctx_bitcount c' = cnt (8 * (n + (length x - length x mod B)))"
    using blocks_absorb [OF assms(1,2), of x] by blast
  have a: "absorb B compress h0 (m @ x) = absorb B compress (ctx_state c) x"
    using absorb_append [OF B_pos, of compress h0 m x] assms(4,5) by simp
  have r: "length ?r = length x mod B" by (rule absorb_rest [OF B_pos])
  have l: "(length m + length x) mod B = length x mod B"
    using assms(3,6) mod_add_left_eq [of "length m" B "length x"] by simp
  show ?thesis
  proof (cases "?r = []")
    case True
    with r have "length x mod B = 0" by simp
    with c' a l assms(6) True show ?thesis by (simp add: sha2_tail_def fed_def)
  next
    case False
    have lt: "length ?r < B" using r B_pos by simp
    let ?b = "?r @ drop (length ?r) (ctx_buffer c')"
    let ?k = "length x mod B"
    have cn: "inc (ctx_bitcount c') (length ?r * 8) = cnt (8 * (length m + length x))"
    proof -
      have "length x - ?k + ?k = length x" by simp
      then have "8 * (n + (length x - ?k)) + 8 * ?k = 8 * (length m + length x)"
        unfolding assms(6) by (metis add.assoc add_mult_distrib2)
      then show ?thesis
        using inc_cnt [of ?k "8 * (n + (length x - ?k))"] lt r c'(4) by simp
    qed
    have w: "mem_write (ctx_buffer c') 0 ?r = Some ?b"
      using lt c'(2) by (simp add: mem_write_def)
    let ?c = "c'\<lparr>ctx_buffer := ?b, ctx_bitcount := cnt (8 * (length m + length x))\<rparr>"
    have "sha2_tail B transform inc c x = Some ?c"
      using False c'(1) w cn by (simp add: sha2_tail_def)
    moreover have "fed ?c (m @ x)"
      using c'(2,3) a l r lt by (simp add: fed_def)
    ultimately show ?thesis by blast
  qed
qed

lemma write_fed:
  assumes "fed c m"
  shows "\<exists>c'. sha2_write B transform inc used c x = Some c' \<and> fed c' (m @ x)"
proof (cases "x = []")
  case True
  with assms show ?thesis by (simp add: sha2_write_def)
next
  case False
  let ?u = "length m mod B"
  let ?r = "snd (absorb B compress h0 m)"
  have f: "length (ctx_buffer c) = B" "ctx_bitcount c = cnt (8 * length m)"
    "ctx_state c = fst (absorb B compress h0 m)" "take ?u (ctx_buffer c) = ?r"
    using assms by (simp_all add: fed_def)
  have u: "used (ctx_bitcount c) = ?u" "?u < B" "length ?r = ?u"
    using f(2) used_cnt B_pos absorb_rest [OF B_pos] by simp_all
  consider "?u = 0" | "0 < ?u" "B - ?u \<le> length x" | "0 < ?u" "length x < B - ?u" by linarith
  then show ?thesis
  proof cases
    case 1
    then have "sha2_write B transform inc used c x = sha2_tail B transform inc c x"
      using False u(1) by (simp add: sha2_write_def)
    with 1 f u show ?thesis using tail_fed [of c "length m" m x] by simp
  next
    case 2
    let ?x = "take (B - ?u) x"
    have w: "mem_write (ctx_buffer c) ?u ?x = Some (?r @ ?x)"
      using f(1,4) u(2) 2 by (simp add: mem_write_def)
    have l: "length (?r @ ?x) = B" using u 2 by simp
    let ?c = "c\<lparr>ctx_buffer := ?r @ ?x, ctx_bitcount := cnt (8 * length (m @ ?x))\<rparr>"
    obtain b where t: "transform ?c (?r @ ?x) = ?c\<lparr>ctx_state := compress (ctx_state c) (?r @ ?x), ctx_buffer := b\<rparr>"
      "length b = B"
      using transform_state [of ?c "?r @ ?x"] l by auto
    have "inc (ctx_bitcount c) ((B - ?u) * 8) = cnt (8 * length (m @ ?x))"
      using inc_cnt [of "B - ?u" "8 * length m"] f(2) 2 by (simp add: algebra_simps min_def)
    then have "sha2_write B transform inc used c x = sha2_tail B transform inc (transform ?c (?r @ ?x)) (drop (B - ?u) x)"
      using False 2 u w by (simp add: sha2_write_def Let_def)
    moreover have "absorb B compress h0 (m @ ?x) = (compress (ctx_state c) (?r @ ?x), [])"
      using absorb_append [OF B_pos, of compress h0 m ?x] absorb_one [OF B_pos l] f(3) by simp
    moreover have "length (m @ ?x) mod B = 0"
      using 2 u(2) mod_add_left_eq [of "length m" B "B - ?u"] by (simp add: min_def)
    ultimately show ?thesis
      using tail_fed [of "transform ?c (?r @ ?x)" "length (m @ ?x)" "m @ ?x" "drop (B - ?u) x"] t by simp
  next
    case 3
    let ?b = "?r @ x @ drop (?u + length x) (ctx_buffer c)"
    have w: "mem_write (ctx_buffer c) ?u x = Some ?b"
      using f(1,4) 3 by (simp add: mem_write_def)
    have cn: "inc (ctx_bitcount c) (length x * 8) = cnt (8 * length (m @ x))"
      using inc_cnt [of "length x" "8 * length m"] f(2) 3 by (simp add: algebra_simps)
    have "?u + length x < B" using 3 by linarith
    then have a: "absorb B compress h0 (m @ x) = (ctx_state c, ?r @ x)"
      using absorb_append [OF B_pos, of compress h0 m x] absorb_short [of "?r @ x" B] f(3) u(3) 3 by simp
    have l: "(length m + length x) mod B = ?u + length x"
      using absorb_rest [OF B_pos, of compress h0 "m @ x"] a u(3) by simp
    have "fed (c\<lparr>ctx_buffer := ?b, ctx_bitcount := cnt (8 * length (m @ x))\<rparr>) (m @ x)"
      using a l u(3) f(1) 3 by (simp add: fed_def)
    moreover have "sha2_write B transform inc used c x
        = Some (c\<lparr>ctx_buffer := ?b, ctx_bitcount := cnt (8 * length (m @ x))\<rparr>)"
      using False 3 u w cn by (simp add: sha2_write_def Let_def)
    ultimately show ?thesis by blast
  qed
qed

lemma mem_set_append: "length r = i \<Longrightarrow> mem_set (r @ y # ys) i x = Some (r @ x # ys)"
  by (auto simp: mem_set_def list_update_append)

lemma mem_write_append:
  "length r = i \<Longrightarrow> length ys = length x \<Longrightarrow> mem_write (r @ ys @ zs) i x = Some (r @ x @ zs)"
  by (auto simp: mem_write_def)

lemma split_buffer:
  assumes "length b = B" "take u b = r" "u + k + 1 \<le> B"
  obtains y ys zs where "b = r @ y # ys @ zs" "length ys = k" "length zs = B - k - 1 - u" "length r = u"
proof -
  have "drop u b \<noteq> []" using assms by simp
  then obtain y w where w: "drop u b = y # w" by (cases "drop u b") auto
  then have l: "length w = B - 1 - u" using assms(1) by (metis diff_right_commute length_drop length_tl list.sel(3))
  show ?thesis
  proof (rule that [of y "take k w" "drop k w"])
    show "b = r @ y # take k w @ drop k w" using w assms(2) by (metis append_take_drop_id)
  qed (use l assms in auto)
qed

lemma last_digest:
  assumes "fed c m"
  shows "\<exists>c'. sha2_last B (B - L) z transform used stored c = Some c'
    \<and> ctx_state c' = fst (absorb B compress h0 (pad B L m))"
proof -
  let ?u = "length m mod B"
  let ?cnt = "rev (le_bytes L (8 * length m))"
  define r where "r = snd (absorb B compress h0 m)"
  have f: "length (ctx_buffer c) = B" "ctx_bitcount c = cnt (8 * length m)"
    "ctx_state c = fst (absorb B compress h0 m)" "take ?u (ctx_buffer c) = r"
    using assms by (simp_all add: fed_def r_def)
  have u: "used (ctx_bitcount c) = ?u" "?u < B" "length r = ?u" "stored (ctx_bitcount c) = ?cnt"
    using f(2) used_cnt B_pos absorb_rest [OF B_pos] stored_cnt by (simp_all add: r_def)
  have p: "fst (absorb B compress h0 (pad B L m)) =
     (if ?u + 1 + L \<le> B
      then compress (ctx_state c) (r @ 0x80 # replicate (B - L - 1 - ?u) 0 @ ?cnt)
      else compress (compress (ctx_state c) (r @ 0x80 # replicate (B - 1 - ?u) 0)) (replicate (B - L) 0 @ ?cnt))"
    using absorb_pad [OF sizes(1), of compress h0 m "ctx_state c" r] u(3) f(3) by (simp add: r_def Let_def)
  have final: "\<exists>c'. transform (c1\<lparr>ctx_buffer := b\<rparr>) b = c' \<and> ctx_state c' = compress (ctx_state c1) b"
    if "length b = B" for c1 :: "('w, 'n) sha2_context" and b
    using transform_state [of "c1\<lparr>ctx_buffer := b\<rparr>" b] that by auto
  consider "?u = 0" | "0 < ?u" "?u + 1 + L \<le> B" | "0 < ?u" "B < ?u + 1 + L" by linarith
  then show ?thesis
  proof cases
    case 1
    let ?b = "0x80 # replicate (B - L - 1) 0 @ ?cnt"
    have "0 + (B - L - 1) + 1 \<le> B" using sizes(1) by simp
    from split_buffer [OF f(1) take_0 this] obtain y ys zs where
      "ctx_buffer c = [] @ y # ys @ zs" "length ys = B - L - 1" "length zs = B - (B - L - 1) - 1 - 0" .
    then have b: "ctx_buffer c = y # ys @ zs" "length ys = B - L - 1" "length zs = L"
      using sizes(1) by simp_all
    have "replicate (B - L) (0 :: u8) = 0 # replicate (B - L - 1) 0"
      using sizes(1) by (cases "B - L") auto
    then have w: "mem_write (ctx_buffer c) 0 (replicate (B - L) 0) = Some (0 # replicate (B - L - 1) 0 @ zs)"
      using mem_write_append [of "[]" 0 "y # ys" "0 # replicate (B - L - 1) 0" zs] b by simp
    have w2: "mem_write (0x80 # replicate (B - L - 1) 0 @ zs) (B - L) ?cnt = Some ?b"
      using mem_write_append [of "0x80 # replicate (B - L - 1) 0" "B - L" zs ?cnt "[]"] b sizes(1) by simp
    have "length ?b = B" using sizes(1) by simp
    from final [OF this, of "c\<lparr>ctx_buffer := 0x80 # replicate (B - L - 1) 0 @ zs\<rparr>"] show ?thesis
      using 1 u p sizes(1) w w2 by (simp add: sha2_last_def mem_set_def)
  next
    case 2
    let ?k = "B - L - 1 - ?u"
    let ?b = "r @ 0x80 # replicate ?k 0 @ ?cnt"
    have "?u + ?k + 1 \<le> B" using 2 by linarith
    from split_buffer [OF f(1,4) this] obtain y ys zs where
      "ctx_buffer c = r @ y # ys @ zs" "length ys = ?k" "length zs = B - ?k - 1 - ?u" .
    then have b: "ctx_buffer c = r @ y # ys @ zs" "length ys = ?k" "length zs = L"
      using 2 by simp_all
    have w: "mem_set (ctx_buffer c) ?u 0x80 = Some (r @ 0x80 # ys @ zs)"
      using mem_set_append b(1) u(3) by simp
    have w2: "mem_write (r @ 0x80 # ys @ zs) (?u + 1) (replicate (B - L - (?u + 1)) 0)
        = Some (r @ 0x80 # replicate ?k 0 @ zs)"
      using mem_write_append [of "r @ [0x80]" "?u + 1" ys "replicate ?k 0" zs] b(2) u(3) by simp
    have w3: "mem_write (r @ 0x80 # replicate ?k 0 @ zs) (B - L) ?cnt = Some ?b"
      using mem_write_append [of "r @ 0x80 # replicate ?k 0" "B - L" zs ?cnt "[]"] b(3) u(3) 2 by simp
    have le: "Suc ?u \<le> B - L" using 2 by linarith
    have "length ?b = B" using u(3) 2 by simp
    from final [OF this, of "c\<lparr>ctx_buffer := r @ 0x80 # replicate ?k 0 @ zs\<rparr>"] show ?thesis
      using 2 u p w w2 w3 le by (simp add: sha2_last_def Let_def)
  next
    case 3
    let ?k = "B - 1 - ?u"
    let ?b = "r @ 0x80 # replicate ?k 0"
    let ?b2 = "replicate (B - L) 0 @ ?cnt"
    have "?u + ?k + 1 \<le> B" using u(2) by linarith
    from split_buffer [OF f(1,4) this] obtain y ys zs where
      "ctx_buffer c = r @ y # ys @ zs" "length ys = ?k" "length zs = B - ?k - 1 - ?u" .
    then have b: "ctx_buffer c = r @ y # ys" "length ys = ?k"
      using u(2) by simp_all
    have w: "mem_set (ctx_buffer c) ?u 0x80 = Some (r @ 0x80 # ys)"
      using mem_set_append b(1) u(3) by simp
    have w2: "(if Suc ?u < B then mem_write (r @ 0x80 # ys) (Suc ?u) (replicate (B - Suc ?u) 0)
        else Some (r @ 0x80 # ys)) = Some ?b"
      using mem_write_append [of "r @ [0x80]" "Suc ?u" ys "replicate ?k 0" "[]"] b(2) u(3) by auto
    have lb: "length ?b = B" using u(2,3) by simp
    obtain b' where t: "transform (c\<lparr>ctx_buffer := ?b\<rparr>) ?b
        = c\<lparr>ctx_state := compress (ctx_state c) ?b, ctx_buffer := b'\<rparr>" "length b' = B"
      using transform_state [of "c\<lparr>ctx_buffer := ?b\<rparr>" ?b] lb by auto
    have w3: "mem_write b' 0 (replicate z 0) = Some (replicate z 0 @ drop z b')"
      using t(2) sizes(3) by (simp add: mem_write_def)
    have "replicate z (0 :: u8) = replicate (B - L) 0 @ replicate (z - (B - L)) 0"
      using sizes(2) by (simp add: replicate_add [symmetric])
    then have w4: "mem_write (replicate z 0 @ drop z b') (B - L) ?cnt = Some ?b2"
      using mem_write_append [of "replicate (B - L) 0" "B - L" "replicate (z - (B - L)) 0 @ drop z b'" ?cnt "[]"]
        t(2) sizes by simp
    have gt: "\<not> Suc ?u \<le> B - L" using 3 by linarith
    have "length ?b2 = B" using sizes(1) by simp
    from final [OF this, of "c\<lparr>ctx_state := compress (ctx_state c) ?b, ctx_buffer := replicate z 0 @ drop z b'\<rparr>"]
    show ?thesis
      using 3 u p w w2 w3 w4 t(1) gt by (simp add: sha2_last_def Let_def split del: if_split)
  qed
qed

end

section \<open>Both widths are instances\<close>

lemma add_regs_size: "length (add_regs s r) = 8"
  by (induction s r rule: add_regs.induct) simp

lemma compress_sizes [simp]: "length (sha256_compress s x) = 8" "length (sha512_compress s' x) = 8"
  by (simp_all add: sha256_compress_def sha512_compress_def add_regs_size Let_def)

lemma table_sizes [simp]:
  "length K256 = 64" "length K512 = 80"
  "length sha256_initial_hash_value = 8" "length sha512_initial_hash_value = 8"
  by (simp_all add: K256_def K512_def sha256_initial_hash_value_def sha512_initial_hash_value_def)

text \<open>The tables agree with each other: the constants of SHA-256 are the upper halves of those of SHA-512.\<close>

lemma tables_agree:
  "map (\<lambda>w. ucast (drop_bit 32 w)) (take 64 K512) = K256"
  "map (\<lambda>w. ucast (drop_bit 32 w)) sha512_initial_hash_value = sha256_initial_hash_value"
  by (simp_all add: K256_def K512_def sha256_initial_hash_value_def sha512_initial_hash_value_def
      drop_bit_numeral_minus_bit1 drop_bit_eq_div)

lemma reversed_block:
  "length x = 64 \<Longrightarrow> map REVERSE32 (load32 x) = map (\<lambda>j. le_word (rev (take 4 (drop (4 * j) x)))) [0..<16]"
  "length y = 128 \<Longrightarrow> map REVERSE64 (load64 y) = map (\<lambda>j. le_word (rev (take 8 (drop (8 * j) y)))) [0..<16]"
  by (simp_all add: load32_def load64_def reverse_le_word)

lemma length_concat_const: "(\<And>x. x \<in> set xs \<Longrightarrow> length (f x) = k) \<Longrightarrow> length (concat (map f xs)) = k * length xs"
  by (induction xs) auto

lemma sha256_transform_state:
  assumes "length x = 64"
  shows "\<exists>b. sha256_transform c x = c\<lparr>ctx_state := sha256_compress (ctx_state c) x, ctx_buffer := b\<rparr> \<and> length b = 64"
proof -
  let ?block = "map REVERSE32 (load32 x)"
  obtain W where W: "later_rounds Sigma0_256 Sigma1_256 sigma0_256 sigma1_256 K256 16 48
      (first_rounds Sigma0_256 Sigma1_256 K256 0 ?block (load_regs (ctx_state c), load32 (ctx_buffer c)))
    = (all_rounds Sigma0_256 Sigma1_256 K256 (schedule sigma0_256 sigma1_256 48 ?block) (load_regs (ctx_state c)), W)"
    "length W = 16"
    using both_loops [of ?block "load32 (ctx_buffer c)" K256 48] by (fastforce simp: load32_def)
  show ?thesis
    unfolding sha256_transform_def sha256_compress_def Let_def W(1)
    using W(2) length_concat_const [of W "\<lambda>w. le_bytes 4 (unat w)" 4]
    by (intro exI [of _ "concat (map (\<lambda>w. le_bytes 4 (unat w)) W)"]) (simp add: reversed_block(1) [OF assms] del: le_bytes_numeral)
qed

lemma sha512_transform_state:
  assumes "length x = 128"
  shows "\<exists>b. sha512_transform c x = c\<lparr>ctx_state := sha512_compress (ctx_state c) x, ctx_buffer := b\<rparr> \<and> length b = 128"
proof -
  let ?block = "map REVERSE64 (load64 x)"
  obtain W where W: "later_rounds Sigma0_512 Sigma1_512 sigma0_512 sigma1_512 K512 16 64
      (first_rounds Sigma0_512 Sigma1_512 K512 0 ?block (load_regs (ctx_state c), load64 (ctx_buffer c)))
    = (all_rounds Sigma0_512 Sigma1_512 K512 (schedule sigma0_512 sigma1_512 64 ?block) (load_regs (ctx_state c)), W)"
    "length W = 16"
    using both_loops [of ?block "load64 (ctx_buffer c)" K512 64] by (fastforce simp: load64_def)
  show ?thesis
    unfolding sha512_transform_def sha512_compress_def Let_def W(1)
    using W(2) length_concat_const [of W "\<lambda>w. le_bytes 8 (unat w)" 8]
    by (intro exI [of _ "concat (map (\<lambda>w. le_bytes 8 (unat w)) W)"]) (simp add: reversed_block(2) [OF assms] del: le_bytes_numeral)
qed

definition count512 :: "nat \<Rightarrow> u64 \<times> u64" where
  "count512 n = (of_nat n, of_nat (n div 2 ^ 64))"

lemma used_bits: "unat (drop_bit 3 (of_nat (8 * n) :: u64)) = n mod 2 ^ 61"
proof -
  have "unat (drop_bit 3 (of_nat (8 * n) :: u64)) = unat (of_nat (8 * n) :: u64) div 8"
    by (simp add: drop_bit_eq_div unat_div)
  also have "\<dots> = (8 * n mod (8 * 2 ^ 61)) div 8" by (simp add: unat_of_nat del: of_nat_mult of_nat_numeral)
  also have "\<dots> = n mod 2 ^ 61" by (subst mult_mod_right [symmetric]) simp
  finally show ?thesis .
qed

lemma stored_bits: "le_bytes 8 (unat (REVERSE64 (of_nat n))) = rev (le_bytes 8 n)"
  using le_bytes_mod [of 8 n] by (simp add: le_bytes_reverse unat_of_nat del: le_bytes_numeral)

interpretation w256: sha2_width 64 8 56 sha256_transform sha256_inc sha256_used sha256_stored of_nat
  sha256_compress sha256_initial_hash_value
proof unfold_locales
  fix n
  have "n mod 2305843009213693952 mod 64 = n mod (64 :: nat)" by (rule mod_mod_cancel) simp
  then show "sha256_used (of_nat (8 * n)) = n mod 64"
    using used_bits [of n] by (simp add: sha256_used_def sha_sizes)
qed (simp_all add: sha256_transform_state sha256_inc_def
    sha256_stored_def stored_bits del: le_bytes_numeral)

lemma addinc_count: "k \<le> 128 \<Longrightarrow> ADDINC128 (count512 n) (k * 8) = count512 (n + 8 * k)"
proof -
  assume k: "k \<le> 128"
  define M :: nat where "M = 2 ^ 64"
  have M: "8 * k < M" "0 < M" using k by (simp_all add: M_def)
  have lt: "(of_nat (n + 8 * k) :: u64) < of_nat (8 * k) \<longleftrightarrow> (n + 8 * k) mod M < 8 * k"
    using M by (simp add: word_less_nat_alt unat_of_nat M_def del: of_nat_mult of_nat_add)
  have nm: "n + 8 * k = n div M * M + (n mod M + 8 * k)" by simp
  have b: "n mod M < M" using M(2) by simp
  have "(if (n + 8 * k) mod M < 8 * k then n div M + 1 else n div M) = (n + 8 * k) div M"
  proof (cases "n mod M + 8 * k < M")
    case True
    have "(n + 8 * k) mod M = n mod M + 8 * k"
      using True mod_add_left_eq [of n M "8 * k"] by simp
    moreover have "(n div M * M + (n mod M + 8 * k)) div M = n div M"
      using True M(2) by (simp only: div_mult_self3 div_less)
    then have "(n + 8 * k) div M = n div M" by (subst nm)
    ultimately show ?thesis by simp
  next
    case False
    define d where "d = n mod M + 8 * k - M"
    have d: "n mod M + 8 * k = M + d" "d < M" "d < 8 * k"
      unfolding d_def using False b M(1) by linarith+
    have e: "n + 8 * k = (n div M + 1) * M + d" using nm d(1) by simp
    have "((n div M + 1) * M + d) div M = n div M + 1" "((n div M + 1) * M + d) mod M = d"
      using d(2) M(2) by (simp_all only: div_mult_self3 mod_mult_self3 div_less mod_less)
    then have "(n + 8 * k) div M = n div M + 1" "(n + 8 * k) mod M = d" unfolding e .
    then show ?thesis using d(3) by simp
  qed
  then have "(of_nat (n div M) + (if (n + 8 * k) mod M < 8 * k then 1 else 0) :: u64) = of_nat ((n + 8 * k) div M)"
    by (auto split: if_splits) (metis of_nat_Suc add.commute)
  then show ?thesis
    using lt by (auto simp: count512_def Let_def M_def mult.commute)
qed

interpretation w512: sha2_width 128 16 126 sha512_transform ADDINC128 sha512_used sha512_stored count512
  sha512_compress sha512_initial_hash_value
proof unfold_locales
  fix n
  have "n mod 2305843009213693952 mod 128 = n mod (128 :: nat)" by (rule mod_mod_cancel) simp
  then show "sha512_used (count512 (8 * n)) = n mod 128"
    using used_bits [of n] by (simp add: sha512_used_def sha_sizes count512_def)
  show "sha512_stored (count512 n) = rev (le_bytes 16 n)"
    using le_bytes_add [of 8 8 n] stored_bits [of n] stored_bits [of "n div 2 ^ 64"]
    by (simp add: sha512_stored_def count512_def del: le_bytes_numeral)
qed (simp_all add: sha512_transform_state addinc_count
    del: le_bytes_numeral)

section \<open>The digests\<close>

lemma reference_sizes [simp]: "length (sha256_reference m) = 32" "length (sha512_reference m) = 64"
  using w256.absorb_size [of sha256_initial_hash_value "pad 64 8 m"]
    w512.absorb_size [of sha512_initial_hash_value "pad 128 16 m"]
    length_concat_const [of "fst (absorb 64 sha256_compress sha256_initial_hash_value (pad 64 8 m))"
      "\<lambda>w. rev (le_bytes 4 (unat w))" 4]
    length_concat_const [of "fst (absorb 128 sha512_compress sha512_initial_hash_value (pad 128 16 m))"
      "\<lambda>w. rev (le_bytes 8 (unat w))" 8]
  by (simp_all add: sha256_reference_def sha512_reference_def del: le_bytes_numeral)

lemma sha256_finalize_fed:
  assumes "w256.fed c m" "32 \<le> length out"
  shows "sha256_finalize c (Some out)
    = Some (Some (sha256_reference m @ drop 32 out), zero_context 64 0)"
proof -
  obtain c' where c': "sha256_last c = Some c'"
    "ctx_state c' = fst (absorb 64 sha256_compress sha256_initial_hash_value (pad 64 8 m))"
    using w256.last_digest [OF assms(1)] by (auto simp: sha256_last_def sha_sizes)
  then have "concat (map (\<lambda>w. le_bytes 4 (unat (REVERSE32 w))) (ctx_state c')) = sha256_reference m"
    by (simp add: sha256_reference_def le_bytes_reverse del: le_bytes_numeral)
  with c'(1) assms(2) show ?thesis
    by (simp add: sha256_finalize_def mem_write_def sha_sizes del: le_bytes_numeral)
qed

lemma sha512_finalize_fed:
  assumes "w512.fed c m" "64 \<le> length out"
  shows "sha512_finalize c (Some out)
    = Some (Some (sha512_reference m @ drop 64 out), zero_context 128 (0, 0))"
proof -
  obtain c' where c': "sha512_last c = Some c'"
    "ctx_state c' = fst (absorb 128 sha512_compress sha512_initial_hash_value (pad 128 16 m))"
    using w512.last_digest [OF assms(1)] by (auto simp: sha512_last_def sha_sizes)
  then have "concat (map (\<lambda>w. le_bytes 8 (unat (REVERSE64 w))) (ctx_state c')) = sha512_reference m"
    by (simp add: sha512_reference_def le_bytes_reverse del: le_bytes_numeral)
  with c'(1) assms(2) show ?thesis
    by (simp add: sha512_finalize_def mem_write_def sha_sizes del: le_bytes_numeral)
qed

interpretation h256: stream_hash sha256_init sha256_write sha256_finalize w256.fed sha256_reference 32
proof unfold_locales
  show "w256.fed sha256_init []"
    by (simp add: w256.fed_def sha256_init_def sha_sizes absorb_short)
qed (use w256.write_fed in \<open>simp_all add: sha256_finalize_fed sha256_write_def sha_sizes\<close>)

interpretation h512: stream_hash sha512_init sha512_write sha512_finalize w512.fed sha512_reference 64
proof unfold_locales
  show "w512.fed sha512_init []"
    by (simp add: w512.fed_def sha512_init_def sha_sizes absorb_short count512_def)
qed (use w512.write_fed in \<open>simp_all add: sha512_finalize_fed sha512_write_def sha_sizes\<close>)

lemma sha256_raw_reference: "32 \<le> length out \<Longrightarrow> sha256_raw m out = Some (sha256_reference m @ drop 32 out)"
  using h256.feed_finalize [of out m] by (auto simp: sha256_raw_def)

lemma sha512_raw_reference: "64 \<le> length out \<Longrightarrow> sha512_raw m out = Some (sha512_reference m @ drop 64 out)"
  using h512.feed_finalize [of out m] by (auto simp: sha512_raw_def)

text \<open>The double hash of a message.\<close>

definition sha256d :: "bytes \<Rightarrow> bytes" where
  "sha256d m = sha256_reference (sha256_reference m)"

text \<open>The calls of a client that writes its message in pieces.\<close>

fun sha256_writes :: "bytes list \<Rightarrow> sha256_context \<Rightarrow> sha256_context option" where
  "sha256_writes [] ctx = Some ctx"
| "sha256_writes (x # xs) ctx = do { ctx \<leftarrow> sha256_write ctx x; sha256_writes xs ctx }"

fun sha512_writes :: "bytes list \<Rightarrow> sha512_context \<Rightarrow> sha512_context option" where
  "sha512_writes [] ctx = Some ctx"
| "sha512_writes (x # xs) ctx = do { ctx \<leftarrow> sha512_write ctx x; sha512_writes xs ctx }"

lemma writes_feed_all: "sha256_writes xs = h256.feed_all xs" "sha512_writes xs = h512.feed_all xs"
  by (induction xs) (rule ext; simp)+

text \<open>C37:
  SHA-256 is the standard's function, however the message is split. For a message written in any
  pieces (empty ones included), no write goes outside the 64-byte buffer, and \<open>sha256_finalize\<close>
  stores the digest of the concatenation, computed by padding the whole message, expanding each
  block into 64 words and running 64 rounds; the context is cleared.
\<close>

theorem sha256_standard:
  assumes "32 \<le> length out"
  shows "\<exists>c. sha256_writes xs sha256_init = Some c
    \<and> sha256_finalize c (Some out)
        = Some (Some (sha256_reference (concat xs) @ drop 32 out), zero_context 64 0)
    \<and> sha256_raw (concat xs) out = Some (sha256_reference (concat xs) @ drop 32 out)"
proof -
  obtain c where "sha256_writes xs sha256_init = Some c" "w256.fed c (concat xs)"
    using h256.feed_all_absorbed [OF h256.init_absorbed, of xs] by (auto simp: writes_feed_all)
  with sha256_finalize_fed sha256_raw_reference assms show ?thesis by blast
qed

lemma sha256_standard_witness:
  "\<exists>c. sha256_writes [[97], [], [98, 99]] sha256_init = Some c
    \<and> sha256_finalize c (Some (replicate 40 7))
        = Some (Some (sha256_reference (concat [[97], [], [98, 99]]) @ drop 32 (replicate 40 7)), zero_context 64 0)
    \<and> sha256_raw (concat [[97], [], [98, 99]]) (replicate 40 7)
        = Some (sha256_reference (concat [[97], [], [98, 99]]) @ drop 32 (replicate 40 7))"
  by (rule sha256_standard) simp

text \<open>SHA-512 is the standard's function, however the message is split: the same for 128-byte blocks,
  80 rounds and the 128-bit length that \<open>ADDINC128\<close> keeps in two words.
\<close>

theorem sha512_standard:
  assumes "64 \<le> length out"
  shows "\<exists>c. sha512_writes xs sha512_init = Some c
    \<and> sha512_finalize c (Some out)
        = Some (Some (sha512_reference (concat xs) @ drop 64 out), zero_context 128 (0, 0))
    \<and> sha512_raw (concat xs) out = Some (sha512_reference (concat xs) @ drop 64 out)"
proof -
  obtain c where "sha512_writes xs sha512_init = Some c" "w512.fed c (concat xs)"
    using h512.feed_all_absorbed [OF h512.init_absorbed, of xs] by (auto simp: writes_feed_all)
  with sha512_finalize_fed sha512_raw_reference assms show ?thesis by blast
qed

lemma sha512_standard_witness:
  "\<exists>c. sha512_writes [[97], [], [98, 99]] sha512_init = Some c
    \<and> sha512_finalize c (Some (replicate 64 7))
        = Some (Some (sha512_reference (concat [[97], [], [98, 99]]) @ drop 64 (replicate 64 7)), zero_context 128 (0, 0))
    \<and> sha512_raw (concat [[97], [], [98, 99]]) (replicate 64 7)
        = Some (sha512_reference (concat [[97], [], [98, 99]]) @ drop 64 (replicate 64 7))"
  by (rule sha512_standard) simp

end
