(* ===== verification/Radix.thy ===== *)
theory Radix
  imports Prelude
begin

text \<open>
  Positional numbers: the value of a list of digits, most significant first, with bounds, uniqueness
  and leading zeros. The base 58 conversions are stated with it.
\<close>

definition radix :: "nat \<Rightarrow> nat list \<Rightarrow> nat" where
  "radix b ds = foldl (\<lambda>a d. b * a + d) 0 ds"

lemma radix_Nil [simp]: "radix b [] = 0"
  by (simp add: radix_def)

lemma radix_snoc [simp]: "radix b (ds @ [d]) = b * radix b ds + d"
  by (simp add: radix_def)

lemma radix_append: "radix b (xs @ ys) = radix b xs * b ^ length ys + radix b ys"
  by (induction ys rule: rev_induct) (simp_all flip: append_assoc add: algebra_simps)

lemma radix_Cons: "radix b (x # ys) = x * b ^ length ys + radix b ys"
  using radix_append [of b "[x]" ys] radix_snoc [of b "[]" x] by simp

lemma radix_zeros [simp]: "radix b (replicate n 0) = 0"
  by (induction n) (simp_all add: radix_Cons)

lemma radix_less: "\<forall>d\<in>set ds. d < b \<Longrightarrow> radix b ds < b ^ length ds"
proof (induction ds)
  case Nil
  then show ?case by simp
next
  case (Cons d ds)
  then have "d + 1 \<le> b" by simp
  then have "(d + 1) * b ^ length ds \<le> b * b ^ length ds" by (rule mult_le_mono1)
  with Cons show ?case by (simp add: radix_Cons)
qed

lemma radix_inj:
  assumes "length xs = length ys" "\<forall>d\<in>set xs. d < b" "\<forall>d\<in>set ys. d < b" "radix b xs = radix b ys"
  shows "xs = ys"
  using assms
proof (induction xs ys rule: list_induct2)
  case Nil
  then show ?case by simp
next
  case (Cons x xs y ys)
  have l: "radix b xs < b ^ length ys" "radix b ys < b ^ length ys"
    using Cons.prems Cons.hyps radix_less [of xs b] radix_less [of ys b] by auto
  have "(x * b ^ length ys + radix b xs) div b ^ length ys = (y * b ^ length ys + radix b ys) div b ^ length ys"
    using Cons.prems Cons.hyps by (simp add: radix_Cons)
  moreover have "b ^ length ys \<noteq> 0" using l by linarith
  ultimately have "x = y" using l by simp
  with Cons show ?case by (simp add: radix_Cons)
qed

lemma radix_ge: "ds \<noteq> [] \<Longrightarrow> hd ds \<noteq> 0 \<Longrightarrow> b ^ (length ds - 1) \<le> radix b ds"
  by (cases ds) (auto simp: radix_Cons trans_le_add1)

lemma radix_strip: "radix b (dropWhile (\<lambda>d. d = 0) ds) = radix b ds"
  by (induction ds) (simp_all add: radix_Cons)

lemma takeWhile_zeros: "takeWhile (\<lambda>d. d = 0) ds = replicate (length (takeWhile (\<lambda>d. d = 0) ds)) 0"
  by (induction ds) auto

lemma drop_takeWhile: "drop (length (takeWhile P xs)) xs = dropWhile P xs"
  by (induction xs) auto

lemma zeros_dropWhile: "ds = replicate (length (takeWhile (\<lambda>d. d = 0) ds)) 0 @ dropWhile (\<lambda>d. d = 0) ds"
  by (metis takeWhile_dropWhile_id takeWhile_zeros)

text \<open>A number in a longer list of digits has zeros in front.\<close>

lemma radix_pad:
  assumes "radix b xs = radix b ys" "length ys \<le> length xs" "\<forall>d\<in>set xs. d < b" "\<forall>d\<in>set ys. d < b" "0 < b"
  shows "xs = replicate (length xs - length ys) 0 @ ys"
  by (rule radix_inj) (use assms in \<open>auto simp: radix_append\<close>)

abbreviation nats :: "'a::len word list \<Rightarrow> nat list" where
  "nats ws \<equiv> map unat ws"

lemma bytes_radix_less: "radix 256 (nats (bs :: bytes)) < 256 ^ length bs"
  using radix_less [of "nats bs" 256] by auto

lemma bytes_digits [simp]: "\<forall>d\<in>set (nats (bs :: bytes)). d < 256"
  by auto

lemma le_nat_radix: "le_nat bs = radix 256 (nats (rev bs))"
  by (induction bs) simp_all

lemma nats_inj: "nats xs = nats ys \<longleftrightarrow> xs = ys"
  by (rule inj_map_eq_map) (simp add: inj_def word_unat_eq_iff)

end
