(* ===== verification/Base58.thy ===== *)
theory Base58
  imports Sha2 Radix
begin

text \<open>
  Base 58 text and base 58 with a checksum, from \<open>src/base58.c\<close> of libdogecoin. A buffer is the list of
  its bytes and comes back updated; \<open>None\<close> is an access outside one.
\<close>

section \<open>The digits\<close>

definition b58digits_map :: "int list" where
  "b58digits_map =
    [-1, -1, -1, -1, -1, -1, -1, -1, -1, -1, -1, -1, -1, -1, -1, -1,
     -1, -1, -1, -1, -1, -1, -1, -1, -1, -1, -1, -1, -1, -1, -1, -1,
     -1, -1, -1, -1, -1, -1, -1, -1, -1, -1, -1, -1, -1, -1, -1, -1,
     -1, 0, 1, 2, 3, 4, 5, 6, 7, 8, -1, -1, -1, -1, -1, -1,
     -1, 9, 10, 11, 12, 13, 14, 15, 16, -1, 17, 18, 19, 20, 21, -1,
     22, 23, 24, 25, 26, 27, 28, 29, 30, 31, 32, -1, -1, -1, -1, -1,
     -1, 33, 34, 35, 36, 37, 38, 39, 40, 41, 42, 43, -1, 44, 45, 46,
     47, 48, 49, 50, 51, 52, 53, 54, 55, 56, 57, -1, -1, -1, -1, -1]"

text \<open>The string \<open>"123456789ABCDEFGHJKLMNPQRSTUVWXYZabcdefghijkmnopqrstuvwxyz"\<close>.\<close>

definition b58digits_ordered :: bytes where
  "b58digits_ordered = map of_nat
     ([49..<58] @ [65..<73] @ [74..<79] @ [80..<91] @ [97..<108] @ [109..<123])"

section \<open>Decoding\<close>

text \<open>\<open>for (j = outisz; --j;)\<close>: the words from the last one down to the one with index 1.\<close>

fun decode_digit :: "u32 list \<Rightarrow> nat \<Rightarrow> u32 \<Rightarrow> (u32 list \<times> u32) option" where
  "decode_digit outi 0 c = Some (outi, c)"
| "decode_digit outi (Suc j) c = do {
     x \<leftarrow> mem_get outi (Suc j);
     let t = (ucast x * 58 + ucast c :: u64);
     outi \<leftarrow> mem_set outi (Suc j) (ucast t);
     decode_digit outi j (ucast (drop_bit 32 t))
   }"

text \<open>The inner option is the result \<open>false\<close>.\<close>

fun decode_chars :: "bytes \<Rightarrow> u32 \<Rightarrow> u32 list \<Rightarrow> u32 list option option" where
  "decode_chars [] zeromask outi = Some (Some outi)"
| "decode_chars (x # xs) zeromask outi =
     (if x AND 0x80 \<noteq> 0 then Some None
      else if b58digits_map ! unat x = -1 then Some None
      else do {
        (outi, c) \<leftarrow> decode_digit outi (length outi - 1) (of_int (b58digits_map ! unat x));
        (if c \<noteq> 0 then Some None
         else do {
           w \<leftarrow> mem_get outi 0;
           (if w AND zeromask \<noteq> 0 then Some None else decode_chars xs zeromask outi)
         })
      })"

definition be_bytes :: "nat \<Rightarrow> u32 \<Rightarrow> bytes" where
  "be_bytes n w = rev (le_bytes n (unat w))"

text \<open>The first word gives the bytes that do not fill a whole one.\<close>

definition words_out :: "nat \<Rightarrow> u32 list \<Rightarrow> bytes" where
  "words_out bytesleft outi =
     (if bytesleft \<noteq> 0 then be_bytes bytesleft (hd outi) @ concat (map (be_bytes 4) (tl outi))
      else concat (map (be_bytes 4) outi))"

text \<open>The result, the output buffer and \<open>*binszp\<close>.\<close>

definition dogecoin_base58_decode :: "bytes \<Rightarrow> nat \<Rightarrow> bytes \<Rightarrow> nat \<Rightarrow> (bool \<times> bytes \<times> nat) option" where
  "dogecoin_base58_decode bin binsz b58 b58sz =
     (if binsz = 0 then Some (False, bin, binsz)
      else do {
        s \<leftarrow> mem_read b58 0 b58sz;
        let outisz = (binsz + 3) div 4;
        let bytesleft = binsz mod 4;
        let zeromask = (if bytesleft \<noteq> 0 then push_bit (bytesleft * 8) (mask 32) else 0 :: u32);
        let zerocount = length (takeWhile (\<lambda>c. c = 49) s);
        r \<leftarrow> decode_chars (drop zerocount s) zeromask (replicate outisz 0);
        (case r of
           None \<Rightarrow> Some (False, bin, binsz)
         | Some outi \<Rightarrow> do {
             let out = words_out bytesleft outi;
             bin \<leftarrow> mem_write bin 0 out;
             let i = length (takeWhile (\<lambda>b. b = 0) out);
             (if zerocount > i then Some (False, bin, binsz - i)
              else Some (True, bin, binsz - i + zerocount))
           })
      })"

section \<open>The checksum\<close>

definition dogecoin_dblhash :: "bytes \<Rightarrow> bytes \<Rightarrow> bytes option" where
  "dogecoin_dblhash datain hashout = do {
     hashout \<leftarrow> sha256_raw datain hashout;
     sha256_raw (take SHA256_DIGEST_LENGTH hashout) hashout
   }"

text \<open>The bytes at which the loop over the leading zeros stops.\<close>

fun after_zeros :: "bytes \<Rightarrow> bytes \<Rightarrow> (u8 \<times> u8) option" where
  "after_zeros (x # xs) (c # cs) = (if x = 0 \<and> c = 49 then after_zeros xs cs else Some (x, c))"
| "after_zeros _ _ = None"

definition dogecoin_b58check :: "bytes \<Rightarrow> nat \<Rightarrow> bytes \<Rightarrow> int option" where
  "dogecoin_b58check bin binsz base58str =
     (if binsz < 4 then Some (-4)
      else do {
        b \<leftarrow> mem_read bin 0 (binsz - 4);
        buf \<leftarrow> dogecoin_dblhash b (replicate 32 0);
        sum \<leftarrow> mem_read bin (binsz - 4) 4;
        (if sum \<noteq> take 4 buf then Some (-1)
         else do {
           (x, c) \<leftarrow> after_zeros bin base58str;
           (if x = 0 \<or> c = 49 then Some (-3) else do { y \<leftarrow> mem_get bin 0; Some (uint y) })
         })
      })"

section \<open>Encoding\<close>

text \<open>The inner loop for one byte: the digits and \<open>j\<close>, the next \<open>high\<close>.\<close>

function encode_byte :: "bytes \<Rightarrow> nat \<Rightarrow> nat \<Rightarrow> nat \<Rightarrow> (bytes \<times> nat) option" where
  "encode_byte buf high j carry =
     (if j > high \<or> carry \<noteq> 0 then do {
        d \<leftarrow> mem_get buf j;
        let carry = carry + 256 * unat d;
        buf \<leftarrow> mem_set buf j (of_nat (carry mod 58));
        (if j = 0 then Some (buf, j) else encode_byte buf high (j - 1) (carry div 58))
      }
      else Some (buf, j))"
  by pat_completeness auto
termination
  by (relation "measure (\<lambda>(buf, high, j, carry). j)") auto

declare encode_byte.simps [simp del]

fun encode_bytes :: "bytes \<Rightarrow> bytes \<Rightarrow> nat \<Rightarrow> bytes option" where
  "encode_bytes [] buf high = Some buf"
| "encode_bytes (b # bs) buf high = do {
     (buf, high) \<leftarrow> encode_byte buf high (length buf - 1) (unat b);
     encode_bytes bs buf high
   }"

text \<open>The result, the text buffer and \<open>*b58sz\<close>.\<close>

definition dogecoin_base58_encode :: "bytes \<Rightarrow> nat \<Rightarrow> bytes \<Rightarrow> nat \<Rightarrow> (bool \<times> bytes \<times> nat) option" where
  "dogecoin_base58_encode b58 b58sz bs binsz = do {
     bin \<leftarrow> mem_read bs 0 binsz;
     let zcount = length (takeWhile (\<lambda>b. b = 0) bin);
     let size = (binsz - zcount) * 138 div 100 + 1;
     buf \<leftarrow> encode_bytes (drop zcount bin) (replicate size 0) (size - 1);
     let j = length (takeWhile (\<lambda>d. d = 0) buf);
     (if b58sz \<le> zcount + size - j then Some (False, b58, zcount + size - j + 1)
      else do {
        b58 \<leftarrow> mem_write b58 0
          (replicate zcount 49 @ map (\<lambda>d. b58digits_ordered ! unat d) (drop j buf) @ [0]);
        Some (True, b58, zcount + size - j + 1)
      })
   }"

section \<open>With a checksum\<close>

text \<open>The size written, 0 for a failure, and the text buffer.\<close>

definition dogecoin_base58_encode_check :: "bytes \<Rightarrow> nat \<Rightarrow> bytes \<Rightarrow> nat \<Rightarrow> (nat \<times> bytes) option" where
  "dogecoin_base58_encode_check bs datalen s strsize =
     (if datalen > 128 then Some (0, s)
      else do {
        b \<leftarrow> mem_read bs 0 datalen;
        hash \<leftarrow> dogecoin_dblhash b (replicate 32 0);
        (ok, s, res) \<leftarrow> dogecoin_base58_encode s strsize (b @ hash) (datalen + 4);
        Some (if ok then res else 0, s)
      })"

text \<open>\<open>for (i = 0; str[i] && i < 1024; i++)\<close>.\<close>

fun bounded_len :: "bytes \<Rightarrow> nat \<Rightarrow> nat option" where
  "bounded_len [] n = None"
| "bounded_len (c # cs) n = (if c \<noteq> 0 \<and> n > 0 then map_option Suc (bounded_len cs (n - 1)) else Some 0)"

definition dogecoin_base58_decode_check :: "bytes \<Rightarrow> bytes \<Rightarrow> nat \<Rightarrow> (nat \<times> bytes) option" where
  "dogecoin_base58_decode_check s bs datalen = do {
     strl \<leftarrow> bounded_len s 1024;
     (if strl > 128 \<or> datalen < strl then Some (0, bs)
      else do {
        (ok, bs, binsize) \<leftarrow> dogecoin_base58_decode bs strl s strl;
        (if \<not> ok then Some (0, bs)
         else do {
           b \<leftarrow> mem_read bs (strl - binsize) binsize;
           bs \<leftarrow> mem_write bs 0 b;
           bs \<leftarrow> mem_write bs binsize (replicate (datalen - binsize) 0);
           r \<leftarrow> dogecoin_b58check bs binsize s;
           Some (if r < 0 then 0 else binsize, bs)
         })
      })
   }"

section \<open>Encoding gives the value in base 58\<close>

text \<open>The inner loop: the untouched digits in front are zeros, so stopping early loses nothing.\<close>

lemma encode_byte_value:
  assumes "length pre = Suc j" "\<forall>d\<in>set (nats pre). d < 58" "\<forall>k\<le>j. k \<le> high \<longrightarrow> pre ! k = 0"
    "256 * radix 58 (nats pre) + carry < 58 ^ Suc j"
  shows "\<exists>pre' h'. encode_byte (pre @ done) high j carry = Some (pre' @ done, h')
    \<and> length pre' = Suc j \<and> (\<forall>d\<in>set (nats pre'). d < 58) \<and> h' \<le> j
    \<and> radix 58 (nats pre') = 256 * radix 58 (nats pre) + carry
    \<and> (\<forall>k\<le>h'. k \<noteq> 0 \<longrightarrow> pre' ! k = 0)"
  using assms
proof (induction j arbitrary: pre carry "done")
  case 0
  then obtain x where x: "pre = [x]" by (auto simp: length_Suc_conv)
  show ?case
  proof (cases "carry = 0")
    case True
    with 0 x show ?thesis by (auto simp: encode_byte.simps)
  next
    case False
    have "unat (of_nat ((carry + 256 * unat x) mod 58) :: u8) = (carry + 256 * unat x) mod 58"
      by (simp add: unat_of_nat)
    moreover have "(carry + 256 * unat x) mod 58 = carry + 256 * unat x"
      using 0(4) by (simp add: x radix_Cons)
    ultimately have "unat (of_nat ((carry + 256 * unat x) mod 58) :: u8) = carry + 256 * unat x" by metis
    with False 0 x show ?thesis
      by (simp add: encode_byte.simps mem_get_def mem_set_def radix_Cons Let_def)
  qed
next
  case (Suc j)
  show ?case
  proof (cases "Suc j > high \<or> carry \<noteq> 0")
    case False
    then have "\<forall>k<length pre. pre ! k = 0" using Suc.prems by auto
    then have "pre = replicate (length pre) 0" by (intro nth_equalityI) auto
    then have "nats pre = replicate (length pre) 0" by (metis map_replicate unat_0)
    then have z: "radix 58 (nats pre) = 0" by simp
    with False Suc.prems show ?thesis by (subst encode_byte.simps) auto
  next
    case True
    obtain p x where p: "pre = p @ [x]" using Suc.prems(1) by (cases pre rule: rev_cases) auto
    have len: "length p = Suc j" using Suc.prems(1) p by simp
    let ?c = "carry + 256 * unat x"
    let ?d = "of_nat (?c mod 58) :: u8"
    have d: "unat ?d = ?c mod 58" by (simp add: unat_of_nat)
    have v: "256 * radix 58 (nats p) + ?c div 58 < 58 ^ Suc j"
      "58 * (256 * radix 58 (nats p) + ?c div 58) + ?c mod 58 = 256 * radix 58 (nats pre) + carry"
      using Suc.prems(4) by (simp_all add: p) 
    have "\<exists>pre' h'. encode_byte (p @ ?d # done) high j (?c div 58) = Some (pre' @ ?d # done, h')
      \<and> length pre' = Suc j \<and> (\<forall>d\<in>set (nats pre'). d < 58) \<and> h' \<le> j
      \<and> radix 58 (nats pre') = 256 * radix 58 (nats p) + ?c div 58
      \<and> (\<forall>k\<le>h'. k \<noteq> 0 \<longrightarrow> pre' ! k = 0)"
    proof (rule Suc.IH [OF len])
      show "\<forall>d\<in>set (nats p). d < 58" using Suc.prems(2) p by auto
      show "\<forall>k\<le>j. k \<le> high \<longrightarrow> p ! k = 0"
        using Suc.prems(3) len by (auto simp: p nth_append split: if_splits)
      show "256 * radix 58 (nats p) + ?c div 58 < 58 ^ Suc j" by (rule v)
    qed
    then obtain q h where q: "encode_byte (p @ ?d # done) high j (?c div 58) = Some (q @ ?d # done, h)"
      "length q = Suc j" "\<forall>d\<in>set (nats q). d < 58" "h \<le> j"
      "radix 58 (nats q) = 256 * radix 58 (nats p) + ?c div 58" "\<forall>k\<le>h. k \<noteq> 0 \<longrightarrow> q ! k = 0"
      by blast
    have "encode_byte (pre @ done) high (Suc j) carry = encode_byte (p @ ?d # done) high j (?c div 58)"
      using True len p by (subst encode_byte.simps) (simp add: mem_get_def mem_set_def nth_append list_update_append Let_def)
    moreover have "radix 58 (nats (q @ [?d])) = 256 * radix 58 (nats pre) + carry"
      using v(2) q(5) by (simp add: d)
    ultimately show ?thesis
      using q d by (intro exI [of _ "q @ [?d]"] exI [of _ h]) (auto simp: nth_append)
  qed
qed

lemma encode_bytes_value:
  assumes "length buf = Suc j" "\<forall>d\<in>set (nats buf). d < 58" "\<forall>k\<le>h. k \<noteq> 0 \<longrightarrow> buf ! k = 0" "h \<le> j"
    "radix 58 (nats buf) * 256 ^ length bs + radix 256 (nats bs) < 58 ^ Suc j"
  shows "\<exists>buf'. encode_bytes bs buf h = Some buf' \<and> length buf' = Suc j \<and> (\<forall>d\<in>set (nats buf'). d < 58)
    \<and> radix 58 (nats buf') = radix 58 (nats buf) * 256 ^ length bs + radix 256 (nats bs)"
  using assms
proof (induction bs arbitrary: buf h)
  case Nil
  then show ?case by simp
next
  case (Cons b bs)
  let ?v = "radix 58 (nats buf)"
  have e: "?v * 256 ^ length (b # bs) + radix 256 (nats (b # bs)) = (256 * ?v + unat b) * 256 ^ length bs + radix 256 (nats bs)"
    by (simp add: radix_Cons algebra_simps)
  have "256 * ?v + unat b \<le> (256 * ?v + unat b) * 256 ^ length bs" by simp
  then have fits: "256 * ?v + unat b < 58 ^ Suc j" using Cons.prems(5) unfolding e by linarith
  obtain x r where x: "buf = x # r" "length r = j" using Cons.prems(1) by (auto simp: length_Suc_conv)
  have "x = 0"
  proof (rule ccontr)
    assume "x \<noteq> 0"
    then have "unat x \<ge> 1" by (simp add: Suc_le_eq unat_gt_0)
    then have "58 ^ j \<le> unat x * 58 ^ j" by simp
    moreover have "?v = unat x * 58 ^ j + radix 58 (nats r)" using x by (simp add: radix_Cons)
    ultimately have "58 ^ j \<le> ?v" by linarith
    then show False using fits by simp
  qed
  then have "\<forall>k\<le>j. k \<le> h \<longrightarrow> buf ! k = 0" using Cons.prems(3) x by (metis nth_Cons_0)
  then obtain buf' h' where b: "encode_byte (buf @ []) h j (unat b) = Some (buf' @ [], h')"
    "length buf' = Suc j" "\<forall>d\<in>set (nats buf'). d < 58" "h' \<le> j"
    "radix 58 (nats buf') = 256 * ?v + unat b" "\<forall>k\<le>h'. k \<noteq> 0 \<longrightarrow> buf' ! k = 0"
    using encode_byte_value [OF Cons.prems(1,2) _ fits, of h "[]"] by metis
  have "radix 58 (nats buf') * 256 ^ length bs + radix 256 (nats bs) < 58 ^ Suc j"
    using Cons.prems(5) unfolding e b(5) .
  from Cons.IH [OF b(2,3,6,4) this]
  obtain buf'' where "encode_bytes bs buf' h' = Some buf''" "length buf'' = Suc j" "\<forall>d\<in>set (nats buf''). d < 58"
    "radix 58 (nats buf'') = (256 * ?v + unat b) * 256 ^ length bs + radix 256 (nats bs)"
    unfolding b(5) by blast
  with b(1) Cons.prems(1) show ?case unfolding e by simp
qed

text \<open>138 digits for every 100 bytes are enough.\<close>

lemma enough_digits: "256 ^ n \<le> (58 :: nat) ^ (n * 138 div 100 + 1)"
proof -
  let ?s = "n * 138 div 100 + 1"
  have "(256 :: nat) ^ 100 \<le> 58 ^ 138" by simp
  then have "((256 :: nat) ^ 100) ^ n \<le> (58 ^ 138) ^ n" by (rule power_mono) simp
  also have "\<dots> = 58 ^ (138 * n)" by (simp only: power_mult)
  also have "\<dots> \<le> 58 ^ (100 * ?s)" by (rule power_increasing) auto
  finally have "(256 ^ n) ^ 100 \<le> ((58 :: nat) ^ ?s) ^ 100" by (simp only: power_mult [symmetric] mult.commute)
  then show ?thesis by (rule iffD1 [OF power_mono_iff [of "256 ^ n" "58 ^ ?s" 100], rotated 3]) simp_all
qed

text \<open>The digits of a byte string: its leading zeros, then its value in base 58.\<close>

definition b58_digits :: "bytes \<Rightarrow> nat list \<Rightarrow> bool" where
  "b58_digits bs ds \<longleftrightarrow>
     (let z = length (takeWhile (\<lambda>b. b = 0) bs); n = length ds - z
      in z \<le> length ds \<and> take z ds = replicate z 0 \<and> (\<forall>d\<in>set ds. d < 58)
        \<and> (n \<noteq> 0 \<longrightarrow> ds ! z \<noteq> 0) \<and> radix 58 (drop z ds) = radix 256 (nats bs))"

definition b58_text :: "nat list \<Rightarrow> bytes" where
  "b58_text ds = map (\<lambda>d. b58digits_ordered ! d) ds"

lemma base58_encode_digits:
  assumes "length bs = binsz"
  shows "\<exists>ds. b58_digits bs ds
    \<and> length ds \<le> length (takeWhile (\<lambda>b. b = 0) bs) + length (dropWhile (\<lambda>b. b = 0) bs) * 138 div 100 + 1
    \<and> (\<forall>b58 b58sz rest. dogecoin_base58_encode b58 b58sz (bs @ rest) binsz =
      (if b58sz \<le> length ds then Some (False, b58, length ds + 1)
       else map_option (\<lambda>b. (True, b, length ds + 1)) (mem_write b58 0 (b58_text ds @ [0]))))"
proof -
  define z where "z = length (takeWhile (\<lambda>b. b = 0) bs)"
  define size where "size = (binsz - z) * 138 div 100 + 1"
  have z: "drop z bs = dropWhile (\<lambda>b. b = 0) bs" "length (dropWhile (\<lambda>b. b = 0) bs) = binsz - z"
    using assms by (simp_all add: z_def drop_takeWhile flip: drop_takeWhile)
  obtain j where j: "size = Suc j" by (simp add: size_def)
  have zeros: "radix 58 (nats (replicate size 0 :: bytes)) = 0" by (simp add: map_replicate_const)
  have "radix 256 (nats (drop z bs)) < 256 ^ (binsz - z)"
    using bytes_radix_less [of "drop z bs"] z by simp
  also have "\<dots> \<le> 58 ^ size" unfolding size_def by (rule enough_digits)
  finally have cap: "radix 256 (nats (drop z bs)) < 58 ^ Suc j" using j by simp
  have "\<exists>buf'. encode_bytes (drop z bs) (replicate size 0) j = Some buf' \<and> length buf' = Suc j
    \<and> (\<forall>d\<in>set (nats buf'). d < 58)
    \<and> radix 58 (nats buf') = radix 58 (nats (replicate size 0 :: bytes)) * 256 ^ length (drop z bs) + radix 256 (nats (drop z bs))"
    by (rule encode_bytes_value) (use j cap zeros in \<open>auto simp del: replicate_Suc\<close>)
  then obtain buf where buf: "encode_bytes (drop z bs) (replicate size 0) (size - 1) = Some buf" "length buf = size"
    "\<forall>d\<in>set (nats buf). d < 58" "radix 58 (nats buf) = radix 256 (nats (drop z bs))"
    using j zeros by auto
  define k where "k = length (takeWhile (\<lambda>d. d = 0) buf)"
  have k: "k \<le> size" unfolding k_def using buf(2) length_takeWhile_le by metis
  define ds where "ds = replicate z 0 @ nats (drop k buf)"
  have len: "length ds = z + size - k" using k buf(2) by (simp add: ds_def)
  have dk: "drop k buf = dropWhile (\<lambda>d. d = 0) buf" by (simp add: k_def drop_takeWhile)
  have rk: "radix 58 (nats (drop k buf)) = radix 58 (nats buf)"
    unfolding dk using radix_strip [of 58 "nats buf"] by (simp add: dropWhile_map comp_def unsigned_eq_0_iff)
  have rz: "radix 256 (nats (drop z bs)) = radix 256 (nats bs)"
    unfolding z using radix_strip [of 256 "nats bs"] by (simp add: dropWhile_map comp_def unsigned_eq_0_iff)
  have "b58_digits bs ds"
  proof -
    have "\<forall>d\<in>set ds. d < 58" using buf(3) by (auto simp: ds_def dest: in_set_dropD)
    moreover have "ds ! z \<noteq> 0" if "length ds - z \<noteq> 0"
    proof -
      have "drop k buf \<noteq> []" using that by (simp add: ds_def)
      then have "hd (drop k buf) \<noteq> 0" unfolding dk using hd_dropWhile by blast
      then show ?thesis using \<open>drop k buf \<noteq> []\<close> by (simp add: ds_def nth_append hd_conv_nth unat_eq_zero)
    qed
    ultimately show ?thesis
      using rk rz buf(4) unfolding b58_digits_def Let_def by (simp add: ds_def flip: z_def)
  qed
  moreover have "length ds \<le> z + (binsz - z) * 138 div 100 + 1" using len by (simp add: size_def)
  moreover have ds58: "b58_text ds = replicate z 49 @ map (\<lambda>d. b58digits_ordered ! unat d) (drop k buf)"
    by (simp add: b58_text_def ds_def b58digits_ordered_def upt_conv_Cons)
  moreover have "dogecoin_base58_encode b58 b58sz (bs @ rest) binsz =
      (if b58sz \<le> length ds then Some (False, b58, length ds + 1)
       else map_option (\<lambda>b. (True, b, length ds + 1)) (mem_write b58 0 (b58_text ds @ [0])))" for b58 b58sz rest
  proof -
    have r: "mem_read (bs @ rest) 0 binsz = Some bs" using assms by (simp add: mem_read_def)
    have t: "b58_text ds @ [0] = replicate z 49 @ map (\<lambda>d. b58digits_ordered ! unat d) (drop k buf) @ [0]"
      by (simp add: ds58)
    show ?thesis
      unfolding dogecoin_base58_encode_def r len t
      by (simp only: Option.bind_lunit Let_def z_def [symmetric] size_def [symmetric] buf(1) k_def [symmetric])
        (simp add: map_conv_bind_option comp_def)
  qed
  ultimately show ?thesis
    using z by (intro exI [of _ ds]) (simp flip: z_def)
qed
section \<open>Decoding gives the value back\<close>

lemma decode_digit_value:
  assumes "length ws = j"
  shows "\<exists>ws' c'. decode_digit (w0 # ws @ done) j c = Some (w0 # ws' @ done, c') \<and> length ws' = j
    \<and> unat c' * 4294967296 ^ j + radix 4294967296 (nats ws') = 58 * radix 4294967296 (nats ws) + unat c"
  using assms
proof (induction j arbitrary: ws c "done")
  case 0
  then show ?case by simp
next
  case (Suc j)
  obtain p x where p: "ws = p @ [x]" "length p = j" using Suc.prems by (cases ws rule: rev_cases) auto
  let ?t = "ucast x * 58 + ucast c :: u64"
  have c64: "unat (ucast w :: u64) = unat w" for w :: u32
    by (simp add: unsigned_ucast_eq take_bit_nat_eq_self less_trans [OF unat_u32_less])
  have b: "unat x * 58 + unat c < 18446744073709551616" "unat x * 58 + unat c < 253403070464"
    using unat_u32_less [of x] unat_u32_less [of c] by linarith+
  have t: "unat ?t = unat x * 58 + unat c"
    using b by (simp only: unat_word_ariths c64) simp
  have lo: "unat (ucast ?t :: u32) = (unat x * 58 + unat c) mod 4294967296"
    by (simp only: unsigned_ucast_eq t) (simp add: take_bit_eq_mod)
  have "unat (drop_bit 32 ?t) = (unat x * 58 + unat c) div 4294967296"
    using b by (simp only: unsigned_drop_bit_eq t) (simp add: take_bit_eq_mod drop_bit_eq_div)
  then have hi: "unat (ucast (drop_bit 32 ?t) :: u32) = (unat x * 58 + unat c) div 4294967296"
    using b by (simp only: unsigned_ucast_eq) (simp add: take_bit_eq_mod less_mult_imp_div_less)
  have step: "decode_digit (w0 # ws @ done) (Suc j) c
      = decode_digit (w0 # p @ ucast ?t # done) j (ucast (drop_bit 32 ?t))"
    using p by (simp add: mem_get_def mem_set_def nth_append list_update_append Let_def)
  obtain p' c' where q: "decode_digit (w0 # p @ ucast ?t # done) j (ucast (drop_bit 32 ?t)) = Some (w0 # p' @ ucast ?t # done, c')"
    "length p' = j"
    "unat c' * 4294967296 ^ j + radix 4294967296 (nats p')
      = 58 * radix 4294967296 (nats p) + unat (ucast (drop_bit 32 ?t) :: u32)"
    using Suc.IH [OF p(2)] by blast
  have "unat c' * 4294967296 ^ Suc j + radix 4294967296 (nats (p' @ [ucast ?t]))
      = 4294967296 * (unat c' * 4294967296 ^ j + radix 4294967296 (nats p')) + unat (ucast ?t :: u32)"
    by (simp add: algebra_simps)
  also have "\<dots> = 58 * radix 4294967296 (nats ws) + unat c"
    unfolding q(3) hi lo p(1) by simp
  finally show ?case
    using q(1,2) step by (intro exI [of _ "p' @ [ucast ?t]"] exI [of _ c']) (simp del: decode_digit.simps)
qed

lemma b58_digit_char:
  assumes "d < 58"
  shows "b58digits_ordered ! d AND 0x80 = 0 \<and> b58digits_map ! unat (b58digits_ordered ! d) = int d
    \<and> b58digits_ordered ! d \<noteq> 0 \<and> (b58digits_ordered ! d = 49 \<longleftrightarrow> d = 0)"
proof -
  have "list_all (\<lambda>d. b58digits_ordered ! d AND 0x80 = 0 \<and> b58digits_map ! unat (b58digits_ordered ! d) = int d
    \<and> b58digits_ordered ! d \<noteq> 0 \<and> (b58digits_ordered ! d = 49 \<longleftrightarrow> d = 0)) [0..<58]"
    by code_simp
  then show ?thesis using assms by (simp only: list_all_iff set_upt) simp
qed

lemma decode_chars_value:
  assumes "length ws = j" "\<forall>d\<in>set ds. d < 58"
    "radix 4294967296 (nats ws) * 58 ^ length ds + radix 58 ds < 4294967296 ^ j"
  shows "\<exists>ws'. decode_chars (b58_text ds) zeromask (0 # ws) = Some (Some (0 # ws')) \<and> length ws' = j
    \<and> radix 4294967296 (nats ws') = radix 4294967296 (nats ws) * 58 ^ length ds + radix 58 ds"
  using assms
proof (induction ds arbitrary: ws)
  case Nil
  then show ?case by (simp add: b58_text_def)
next
  case (Cons d ds)
  let ?v = "radix 4294967296 (nats ws)"
  have e: "?v * 58 ^ length (d # ds) + radix 58 (d # ds) = (58 * ?v + d) * 58 ^ length ds + radix 58 ds"
    by (simp add: radix_Cons algebra_simps)
  have "58 * ?v + d \<le> (58 * ?v + d) * 58 ^ length ds" by simp
  then have fits: "58 * ?v + d < 4294967296 ^ j" using Cons.prems(3) unfolding e by linarith
  have d: "unat (of_nat d :: u32) = d" using Cons.prems(2) by (simp add: unat_of_nat)
  obtain ws' c' where w: "decode_digit (0 # ws @ []) j (of_nat d) = Some (0 # ws' @ [], c')" "length ws' = j"
    "unat c' * 4294967296 ^ j + radix 4294967296 (nats ws') = 58 * ?v + d"
    using decode_digit_value [OF Cons.prems(1), of 0 "[]" "of_nat d"] unfolding d by blast
  have "c' = 0"
  proof (rule ccontr)
    assume "c' \<noteq> 0"
    then have "4294967296 ^ j \<le> unat c' * 4294967296 ^ j" by (simp add: Suc_le_eq unat_gt_0)
    then show False using w(3) fits by linarith
  qed
  with w(3) have v: "radix 4294967296 (nats ws') = 58 * ?v + d" by simp
  have "radix 4294967296 (nats ws') * 58 ^ length ds + radix 58 ds < 4294967296 ^ j"
    using Cons.prems(3) unfolding e v .
  from Cons.IH [OF w(2) _ this] Cons.prems(2)
  obtain ws'' where "decode_chars (b58_text ds) zeromask (0 # ws') = Some (Some (0 # ws''))" "length ws'' = j"
    "radix 4294967296 (nats ws'') = (58 * ?v + d) * 58 ^ length ds + radix 58 ds"
    unfolding v by auto
  then show ?case
    using w \<open>c' = 0\<close> Cons.prems(1) b58_digit_char [of d] Cons.prems(2) unfolding e
    by (simp add: b58_text_def mem_get_def)
qed

lemma be_bytes_value: "radix 256 (nats (be_bytes 4 w)) = unat w"
  using unat_u32_less [of w] le_nat_radix [of "le_bytes 4 (unat w)"]
  by (simp add: be_bytes_def le_nat_le_bytes del: le_bytes_numeral)

lemma length_be_bytes [simp]: "length (be_bytes n w) = n"
  by (simp add: be_bytes_def)

lemma be_words_value: "radix 256 (nats (concat (map (be_bytes 4) ws))) = radix 4294967296 (nats ws)"
  by (induction ws rule: rev_induct) (simp_all add: radix_append be_bytes_value radix_Cons)

lemma be_bytes_zero: "be_bytes n 0 = replicate n 0"
proof -
  have "le_bytes n 0 = replicate n 0" by (induction n) simp_all
  then show ?thesis by (simp add: be_bytes_def)
qed

lemma words_out_zero:
  "words_out b (0 # ws) = replicate (if b = 0 then 4 else b) 0 @ concat (map (be_bytes 4) ws)"
  by (simp add: words_out_def be_bytes_zero)

lemma digits_at_least_bytes:
  assumes "b58_digits bs ds"
  shows "length (takeWhile (\<lambda>b. b = 0) bs) + length (dropWhile (\<lambda>b. b = 0) bs) \<le> length ds"
proof -
  define z where "z = length (takeWhile (\<lambda>b. b = 0) bs)"
  define s where "s = dropWhile (\<lambda>b. b = 0) bs"
  have z: "z \<le> length ds" "\<forall>d\<in>set ds. d < 58" "radix 58 (drop z ds) = radix 256 (nats bs)"
    using assms unfolding b58_digits_def Let_def z_def by auto
  have r: "radix 256 (nats s) = radix 256 (nats bs)"
    unfolding s_def using radix_strip [of 256 "nats bs"] by (simp add: dropWhile_map comp_def unsigned_eq_0_iff)
  show ?thesis
  proof (cases s)
    case Nil
    then show ?thesis using z by (simp flip: z_def s_def)
  next
    case (Cons x t)
    then have "x \<noteq> 0" using hd_dropWhile [of "\<lambda>b. b = 0" bs] by (simp flip: s_def)
    then have "256 ^ length t \<le> radix 256 (nats s)"
      using radix_ge [of "nats s" 256] Cons by (simp add: unsigned_eq_0_iff)
    also have "\<dots> < 58 ^ (length ds - z)"
      using radix_less [of "drop z ds" 58] z unfolding r by (auto dest: in_set_dropD)
    finally have l: "(256 :: nat) ^ length t < 58 ^ (length ds - z)" .
    have "length t < length ds - z"
    proof (rule ccontr)
      assume "\<not> length t < length ds - z"
      then have "(58 :: nat) ^ (length ds - z) \<le> 58 ^ length t" by (intro power_increasing) auto
      also have "(58 :: nat) ^ length t \<le> 256 ^ length t" by (rule power_mono) auto
      finally show False using l by simp
    qed
    then show ?thesis using Cons z(1) by (simp flip: z_def s_def)
  qed
qed

lemma length_b58_text [simp]: "length (b58_text ds) = length ds"
  by (simp add: b58_text_def)

lemma takeWhile_replicate_append: "P x \<Longrightarrow> takeWhile P (replicate n x @ xs) = replicate n x @ takeWhile P xs"
  by (induction n) simp_all

lemma leading_ones:
  assumes "b58_digits bs ds"
  defines "z \<equiv> length (takeWhile (\<lambda>b. b = 0) bs)"
  shows "length (takeWhile (\<lambda>c. c = 49) (b58_text ds)) = z" "drop z (b58_text ds) = b58_text (drop z ds)"
proof -
  have z: "z \<le> length ds" "take z ds = replicate z 0" "\<forall>d\<in>set ds. d < 58" "length ds - z \<noteq> 0 \<longrightarrow> ds ! z \<noteq> 0"
    using assms unfolding b58_digits_def Let_def by auto
  have one: "b58digits_ordered ! 0 = 49" using b58_digit_char [of 0] by simp
  have t: "b58_text ds = replicate z 49 @ b58_text (drop z ds)"
    using z(2) one by (subst append_take_drop_id [of z ds, symmetric]) (simp add: b58_text_def)
  have h: "takeWhile (\<lambda>c. c = 49) (b58_text (drop z ds)) = []"
  proof (cases "drop z ds")
    case (Cons d r)
    then have "d = ds ! z" "z < length ds" by (auto simp: nth_via_drop) (metis length_drop length_Cons zero_less_Suc zero_less_diff)
    then show ?thesis using z b58_digit_char [of d] Cons by (simp add: b58_text_def)
  qed (simp add: b58_text_def)
  show "length (takeWhile (\<lambda>c. c = 49) (b58_text ds)) = z" using h by (simp add: t takeWhile_replicate_append)
  show "drop z (b58_text ds) = b58_text (drop z ds)" by (simp add: b58_text_def drop_map)
qed

lemma words_for:
  fixes L j :: nat
  assumes "0 < L" "j = (L - 1) div 4"
  shows "(L + 3) div 4 = Suc j" "L \<le> 4 * j + 4" "(if L mod 4 = 0 then 4 else L mod 4) + 4 * j = L"
proof -
  define r where "r = (L - 1) mod 4"
  have r: "r < 4" "L = 4 * j + (r + 1)" using assms by (simp_all add: r_def)
  have "L + 3 = r + Suc j * 4" using r(2) by simp
  then have "(L + 3) div 4 = r div 4 + Suc j" by (metis add.commute div_mult_self3 zero_neq_numeral)
  with r(1) show "(L + 3) div 4 = Suc j" by simp
  show "L \<le> 4 * j + 4" using r by simp
  have "L mod 4 = (r + 1) mod 4" using r(2) by simp
  then have "(if L mod 4 = 0 then 4 else L mod 4) = r + 1"
  proof -
    consider "r = 0" | "r = 1" | "r = 2" | "r = 3" using r(1) by linarith
    then show ?thesis using \<open>L mod 4 = (r + 1) mod 4\<close> by cases (simp_all only:, simp_all)
  qed
  then show "(if L mod 4 = 0 then 4 else L mod 4) + 4 * j = L" using r(2) by auto
qed

lemma base58_decode_digits:
  assumes "b58_digits bs ds" "length (dropWhile (\<lambda>b. b = 0) bs) + 4 \<le> length ds" "length ds \<le> length bin"
  shows "dogecoin_base58_decode bin (length ds) (b58_text ds @ rest) (length ds)
    = Some (True, replicate (length ds - length (dropWhile (\<lambda>b. b = 0) bs)) 0 @ dropWhile (\<lambda>b. b = 0) bs
        @ drop (length ds) bin, length bs)"
proof -
  define z where "z = length (takeWhile (\<lambda>b. b = 0) bs)"
  define s where "s = dropWhile (\<lambda>b. b = 0) bs"
  define L where "L = length ds"
  define j where "j = (L - 1) div 4"
  have z: "z \<le> L" "\<forall>d\<in>set ds. d < 58" "radix 58 (drop z ds) = radix 256 (nats bs)"
    using assms(1) unfolding b58_digits_def Let_def z_def L_def by auto
  have bl: "length bs = z + length s"
    unfolding z_def s_def by (metis length_append takeWhile_dropWhile_id)
  have r: "radix 256 (nats s) = radix 256 (nats bs)"
    unfolding s_def using radix_strip [of 256 "nats bs"] by (simp add: dropWhile_map comp_def unsigned_eq_0_iff)
  have L: "length s + 4 \<le> L" using assms(2) by (simp add: s_def L_def)
  then have j: "(L + 3) div 4 = Suc j" "length s \<le> 4 * j" "(if L mod 4 = 0 then 4 else L mod 4) + 4 * j = L"
    using words_for [of L j] by (auto simp: j_def)
  have "radix 256 (nats s) < 256 ^ length s" by (rule bytes_radix_less)
  also have "\<dots> \<le> 256 ^ (4 * j)" using j(2) by (intro power_increasing) auto
  also have "(256 :: nat) ^ (4 * j) = 4294967296 ^ j" by (simp add: power_mult)
  finally have cap: "radix 58 (drop z ds) < 4294967296 ^ j" using r z by simp
  have z0: "radix 4294967296 (nats (replicate j 0 :: u32 list)) = 0" by (simp add: map_replicate_const)
  have zr: "z \<le> L - length s"
    using digits_at_least_bytes [OF assms(1)] by (simp flip: z_def s_def L_def)
  define zm where "zm = (if L mod 4 \<noteq> 0 then push_bit (L mod 4 * 8) (mask 32) else 0 :: u32)"
  have "\<exists>ws'. decode_chars (b58_text (drop z ds)) zm (0 # replicate j 0) = Some (Some (0 # ws')) \<and> length ws' = j
    \<and> radix 4294967296 (nats ws') = radix 4294967296 (nats (replicate j 0 :: u32 list)) * 58 ^ length (drop z ds) + radix 58 (drop z ds)"
    by (rule decode_chars_value) (use z cap in \<open>auto simp: z0 dest: in_set_dropD\<close>)
  then obtain ws where ws: "decode_chars (b58_text (drop z ds)) zm (replicate (Suc j) 0) = Some (Some (0 # ws))" "length ws = j"
    "radix 4294967296 (nats ws) = radix 58 (drop z ds)"
    unfolding z0 by auto
  define out where "out = words_out (L mod 4) (0 # ws)"
  have lc: "length (concat (map (be_bytes 4) ws)) = 4 * j" using ws(2) by (simp add: length_concat comp_def sum_list_triv)
  have lo: "length out = L" using j(3) lc by (simp add: out_def words_out_zero del: length_concat)
  have "radix 256 (nats out) = radix 256 (nats (concat (map (be_bytes 4) ws)))"
    unfolding out_def words_out_zero map_append radix_append by (simp add: map_replicate_const)
  then have ro: "radix 256 (nats out) = radix 256 (nats s)"
    unfolding be_words_value ws(3) z(3) r .
  have "nats out = replicate (length (nats out) - length (nats s)) 0 @ nats s"
    by (rule radix_pad [OF ro]) (use L lo in auto)
  then have "nats out = nats (replicate (L - length s) 0 @ s)" using lo by (simp add: map_replicate_const)
  then have out: "out = replicate (L - length s) 0 @ s" by (simp only: nats_inj)
  have hd: "takeWhile (\<lambda>b. b = 0) s = []"
  proof (cases s)
    case (Cons x t)
    then have "x \<noteq> 0" using hd_dropWhile [of "\<lambda>b. b = 0" bs] by (simp flip: s_def)
    with Cons show ?thesis by simp
  qed simp
  have i: "length (takeWhile (\<lambda>b. b = 0) out) = L - length s" unfolding out using hd by (simp add: takeWhile_replicate_append)
  have mr: "mem_read (b58_text ds @ rest) 0 L = Some (b58_text ds)" by (simp add: mem_read_def L_def)
  have mw: "mem_write bin 0 out = Some (out @ drop L bin)" using assms(3) lo by (simp add: mem_write_def L_def)
  note lead = leading_ones [OF assms(1), folded z_def]
  have "L \<noteq> 0" using L by simp
  then show ?thesis
    unfolding dogecoin_base58_decode_def L_def [symmetric] mr s_def [symmetric]
    by (simp only: if_False Let_def Option.bind_lunit j(1) lead zm_def [symmetric] ws(1) option.case out_def [symmetric] mw i)
      (use zr L bl out in simp)
qed

section \<open>The checksum\<close>

lemma dblhash_reference: "dogecoin_dblhash m (replicate 32 0) = Some (sha256d m)"
  by (simp add: dogecoin_dblhash_def sha256_raw_reference sha256d_def sha_sizes)

lemma sha256d_length [simp]: "length (sha256d m) = 32"
  by (simp add: sha256d_def)

lemma after_zeros_stop:
  "x \<noteq> 0 \<Longrightarrow> c \<noteq> 49 \<Longrightarrow> after_zeros (replicate z 0 @ x # xs) (replicate z 49 @ c # cs) = Some (x, c)"
  by (induction z) simp_all

lemma bounded_len_string: "0 \<notin> set t \<Longrightarrow> length t \<le> n \<Longrightarrow> bounded_len (t @ 0 # rest) n = Some (length t)"
  by (induction t arbitrary: n) auto

text \<open>A checksummed byte string that is long enough for its text to leave a word free.\<close>

lemma word_left:
  assumes "b58_digits bs ds" "15 \<le> length bs" "\<exists>b\<in>set bs. b \<noteq> 0"
  shows "length (dropWhile (\<lambda>b. b = 0) bs) + 4 \<le> length ds"
proof -
  define z where "z = length (takeWhile (\<lambda>b. b = 0) bs)"
  define s where "s = dropWhile (\<lambda>b. b = 0) bs"
  have z: "z \<le> length ds" "\<forall>d\<in>set ds. d < 58" "radix 58 (drop z ds) = radix 256 (nats bs)"
    using assms(1) unfolding b58_digits_def Let_def z_def by auto
  have bl: "length bs = z + length s"
    unfolding z_def s_def by (metis length_append takeWhile_dropWhile_id)
  have least: "z + length s \<le> length ds"
    using digits_at_least_bytes [OF assms(1)] by (simp flip: z_def s_def)
  show ?thesis
  proof (cases "4 \<le> z")
    case True
    then show ?thesis using least by (simp flip: s_def)
  next
    case False
    then have n: "12 \<le> length s" using bl assms(2) by simp
    then obtain k where k: "length s = k + 12" by (metis add.commute le_Suc_ex)
    obtain x t where x: "s = x # t" using n by (cases s) auto
    then have "x \<noteq> 0" using hd_dropWhile [of "\<lambda>b. b = 0" bs] by (simp flip: s_def)
    then have "256 ^ (k + 11) \<le> radix 256 (nats s)"
      using radix_ge [of "nats s" 256] x k by (simp add: unsigned_eq_0_iff add.commute)
    also have "\<dots> = radix 256 (nats bs)"
      unfolding s_def using radix_strip [of 256 "nats bs"] by (simp add: dropWhile_map comp_def unsigned_eq_0_iff)
    also have "\<dots> < 58 ^ (length ds - z)"
      using radix_less [of "drop z ds" 58] z by (auto dest: in_set_dropD)
    finally have l: "(256 :: nat) ^ (k + 11) < 58 ^ (length ds - z)" .
    have "k + 15 < length ds - z"
    proof (rule ccontr)
      assume "\<not> k + 15 < length ds - z"
      then have "(58 :: nat) ^ (length ds - z) \<le> 58 ^ (k + 15)" by (intro power_increasing) auto
      also have "\<dots> = 58 ^ k * 58 ^ 15" by (rule power_add)
      also have "\<dots> \<le> 256 ^ k * 256 ^ 11" by (intro mult_le_mono power_mono) auto
      also have "\<dots> = 256 ^ (k + 11)" by (rule power_add [symmetric])
      finally show False using l by simp
    qed
    then show ?thesis using k by (simp flip: s_def)
  qed
qed

lemma b58check_accepts:
  assumes "b58_digits bs ds" "bs = p @ take 4 (sha256d p)" "\<exists>b\<in>set p. b \<noteq> 0"
  shows "\<exists>r\<ge>0. dogecoin_b58check (bs @ more1) (length bs) (b58_text ds @ more2) = Some r"
proof -
  define z where "z = length (takeWhile (\<lambda>b. b = 0) bs)"
  have z: "z \<le> length ds" "take z ds = replicate z 0" "\<forall>d\<in>set ds. d < 58" "length ds - z \<noteq> 0 \<longrightarrow> ds ! z \<noteq> 0"
    using assms(1) unfolding b58_digits_def Let_def z_def by auto
  have "dropWhile (\<lambda>b. b = 0) bs \<noteq> []" using assms(2,3) by (auto simp: dropWhile_eq_Nil_conv)
  then obtain x xs where x: "dropWhile (\<lambda>b. b = 0) bs = x # xs" "x \<noteq> 0"
    using hd_dropWhile [of "\<lambda>b. b = 0" bs] by (cases "dropWhile (\<lambda>b. b = 0) bs") auto
  have bs: "bs = replicate z 0 @ x # xs" unfolding z_def using zeros_dropWhile [of bs] by (simp add: x(1))
  have "z < length ds" using digits_at_least_bytes [OF assms(1)] x by (simp flip: z_def)
  then obtain d r where d: "drop z ds = d # r" "d \<noteq> 0" "d < 58"
    using z by (metis Cons_nth_drop_Suc diff_is_0_eq not_less nth_mem)
  have one: "b58digits_ordered ! 0 = 49" using b58_digit_char [of 0] by simp
  have t: "b58_text ds = replicate z 49 @ (b58digits_ordered ! d) # b58_text r"
    using z(2) one d by (subst append_take_drop_id [of z ds, symmetric]) (simp add: b58_text_def)
  have c: "b58digits_ordered ! d \<noteq> 49" using b58_digit_char [OF d(3)] d(2) by simp
  have after: "after_zeros (bs @ more1) (b58_text ds @ more2) = Some (x, b58digits_ordered ! d)"
    unfolding bs t using after_zeros_stop [OF x(2) c] by simp
  have len: "length bs = length p + 4" using assms(2) by simp
  have "mem_read (bs @ more1) 0 (length bs - 4) = Some p" "mem_read (bs @ more1) (length bs - 4) 4 = Some (take 4 (sha256d p))"
    using assms(2) by (simp_all add: mem_read_def)
  moreover have "mem_get (bs @ more1) 0 = Some (bs ! 0)" using len by (simp add: mem_get_def nth_append)
  ultimately show ?thesis
    using len after x(2) c by (simp add: dogecoin_b58check_def dblhash_reference)
qed

section \<open>What the encoding promises\<close>

definition checked :: "bytes \<Rightarrow> bytes" where
  "checked p = p @ take 4 (sha256d p)"

lemma length_checked [simp]: "length (checked p) = length p + 4"
  by (simp add: checked_def)

lemma encode_check_digits:
  assumes "length p \<le> 128"
  shows "\<exists>ds. b58_digits (checked p) ds \<and> length ds \<le> (length p + 4) * 138 div 100 + 1
    \<and> (\<forall>s strsize rest. dogecoin_base58_encode_check (p @ rest) (length p) s strsize =
      (if strsize \<le> length ds then Some (0, s)
       else map_option (\<lambda>b. (length ds + 1, b)) (mem_write s 0 (b58_text ds @ [0]))))"
proof -
  define z where "z = length (takeWhile (\<lambda>b. b = 0) (checked p))"
  define n where "n = length (dropWhile (\<lambda>b. b = 0) (checked p))"
  have zn: "z + n = length p + 4"
    unfolding z_def n_def by (metis length_append length_checked takeWhile_dropWhile_id)
  obtain ds where ds: "b58_digits (checked p) ds" "length ds \<le> z + n * 138 div 100 + 1"
    "\<And>b58 b58sz rest. dogecoin_base58_encode b58 b58sz (checked p @ rest) (length p + 4) =
      (if b58sz \<le> length ds then Some (False, b58, length ds + 1)
       else map_option (\<lambda>b. (True, b, length ds + 1)) (mem_write b58 0 (b58_text ds @ [0])))"
    using base58_encode_digits [of "checked p" "length p + 4"] unfolding z_def n_def by (metis length_checked)
  have "z + n * 138 div 100 \<le> (z + n) * 138 div 100" by (simp add: algebra_simps)
  then have "length ds \<le> (length p + 4) * 138 div 100 + 1" using ds(2) zn by simp
  moreover have "dogecoin_base58_encode_check (p @ rest) (length p) s strsize =
      (if strsize \<le> length ds then Some (0, s)
       else map_option (\<lambda>b. (length ds + 1, b)) (mem_write s 0 (b58_text ds @ [0])))" for s strsize rest
  proof -
    have "mem_read (p @ rest) 0 (length p) = Some p" by (simp add: mem_read_def)
    moreover have "p @ sha256d p = checked p @ drop 4 (sha256d p)" by (simp add: checked_def)
    ultimately show ?thesis
      using assms ds(3) [of s strsize "drop 4 (sha256d p)"]
      by (auto simp: dogecoin_base58_encode_check_def dblhash_reference map_option_case split: option.splits)
  qed
  ultimately show ?thesis using ds(1) by blast
qed

lemma drop_after: "length a = k \<Longrightarrow> k \<le> n \<Longrightarrow> drop n (a @ drop k d) = drop n d"
  by simp

lemma decode_check_digits:
  assumes "b58_digits (checked p) ds" "11 \<le> length p" "\<exists>b\<in>set p. b \<noteq> 0" "length ds \<le> 128"
    "length ds \<le> datalen" "datalen \<le> length bs"
  shows "dogecoin_base58_decode_check (b58_text ds @ 0 # rest) bs datalen
    = Some (length p + 4, checked p @ replicate (datalen - (length p + 4)) 0 @ drop datalen bs)"
proof -
  define z where "z = length (takeWhile (\<lambda>b. b = 0) (checked p))"
  define s where "s = dropWhile (\<lambda>b. b = 0) (checked p)"
  define L where "L = length ds"
  have nz: "\<exists>b\<in>set (checked p). b \<noteq> 0" using assms(3) by (auto simp: checked_def)
  have word: "length s + 4 \<le> L" using word_left [OF assms(1) _ nz] assms(2) by (simp add: s_def L_def)
  have zs: "z + length s = length p + 4" "checked p = replicate z 0 @ s"
    unfolding z_def s_def by (metis length_append length_checked takeWhile_dropWhile_id, metis zeros_dropWhile)
  have least: "z + length s \<le> L" using digits_at_least_bytes [OF assms(1)] by (simp flip: z_def s_def L_def)
  let ?d = "replicate (L - length s) 0 @ s @ drop L bs"
  have dec: "dogecoin_base58_decode bs L (b58_text ds @ 0 # rest) L = Some (True, ?d, length p + 4)"
    using base58_decode_digits [OF assms(1), of bs "0 # rest"] word assms(5,6) by (simp flip: s_def L_def)
  have nonul: "0 \<notin> set (b58_text ds)"
    using assms(1) b58_digit_char unfolding b58_digits_def Let_def b58_text_def by force
  have len: "bounded_len (b58_text ds @ 0 # rest) 1024 = Some L"
    using bounded_len_string [OF nonul, of 1024 rest] assms(4) by (simp add: L_def)
  have split: "?d = replicate (L - (z + length s)) 0 @ checked p @ drop L bs"
    using least by (simp add: zs(2) flip: append_assoc replicate_add)
  have r: "mem_read ?d (L - (length p + 4)) (length p + 4) = Some (checked p)"
    unfolding split using zs(1) by (simp add: mem_read_def)
  let ?e = "checked p @ drop (length p + 4) ?d"
  have dl: "length ?d = length bs" using assms(5,6) word by (simp add: L_def)
  have w1: "mem_write ?d 0 (checked p) = Some ?e"
    using dl assms(5,6) least zs(1) by (simp add: mem_write_def flip: L_def)
  let ?f = "checked p @ replicate (datalen - (length p + 4)) 0 @ drop datalen bs"
  have "drop datalen ?e = drop datalen ?d"
    by (rule drop_after) (use assms(5) least zs(1) in \<open>simp_all add: L_def\<close>)
  also have "\<dots> = drop datalen bs"
    using assms(5) word by (simp add: L_def)
  finally have w2: "mem_write ?e (length p + 4) (replicate (datalen - (length p + 4)) 0) = Some ?f"
    using dl assms(5,6) least zs(1) by (simp add: mem_write_def flip: L_def)
  obtain r where "r \<ge> 0" "dogecoin_b58check ?f (length p + 4) (b58_text ds @ 0 # rest) = Some r"
    using b58check_accepts [OF assms(1) checked_def assms(3), of "replicate (datalen - (length p + 4)) 0 @ drop datalen bs" "0 # rest"]
    by auto
  then show ?thesis
    unfolding dogecoin_base58_decode_check_def len
    using assms(4,5) dec r w1 w2 by (simp add: L_def)
qed

text \<open>C29: A byte string of 11 to 88 bytes that are not all zero, such as the 21 of an address, the 33 or 34
  of a private key and the 78 of an extended key, has one text in base 58 with checksum.
  \<open>dogecoin_base58_encode_check\<close> writes it into every buffer that holds it, and refuses when the size it is
  given does not exceed the length of the text; \<open>dogecoin_base58_decode_check\<close> gives the bytes back, followed
  by the first four bytes of their double hash and zeros.\<close>

theorem base58check_round_trip:
  assumes "11 \<le> length p" "length p \<le> 88" "\<exists>b\<in>set p. b \<noteq> 0"
  shows "\<exists>t. length t \<le> (length p + 4) * 138 div 100 + 1 \<and> 0 \<notin> set t
    \<and> (\<forall>s size rest. length t < size \<longrightarrow> size \<le> length s \<longrightarrow>
        dogecoin_base58_encode_check (p @ rest) (length p) s size = Some (length t + 1, t @ 0 # drop (length t + 1) s))
    \<and> (\<forall>s size rest. size \<le> length t \<longrightarrow> dogecoin_base58_encode_check (p @ rest) (length p) s size = Some (0, s))
    \<and> (\<forall>d size rest. length t \<le> size \<longrightarrow> size \<le> length d \<longrightarrow>
        dogecoin_base58_decode_check (t @ 0 # rest) d size
        = Some (length p + 4, p @ take 4 (sha256d p) @ replicate (size - (length p + 4)) 0 @ drop size d))"
proof -
  obtain ds where ds: "b58_digits (checked p) ds" "length ds \<le> (length p + 4) * 138 div 100 + 1"
    "\<And>s size rest. dogecoin_base58_encode_check (p @ rest) (length p) s size =
      (if size \<le> length ds then Some (0, s)
       else map_option (\<lambda>b. (length ds + 1, b)) (mem_write s 0 (b58_text ds @ [0])))"
    using encode_check_digits [of p] assms(2) by auto
  have "(length p + 4) * 138 div 100 + 1 \<le> 92 * 138 div 100 + 1"
    using assms(2) by (intro add_mono div_le_mono mult_le_mono) auto
  then have l: "length ds \<le> 128" using ds(2) by simp
  have n: "0 \<notin> set (b58_text ds)"
    using ds(1) b58_digit_char unfolding b58_digits_def Let_def b58_text_def by force
  show ?thesis
    using ds(2,3) n decode_check_digits [OF ds(1) assms(1,3) l]
    by (intro exI [of _ "b58_text ds"]) (auto simp: mem_write_def checked_def)
qed

definition sample_payload :: bytes where
  "sample_payload = 0x1e # replicate 20 7"

lemma base58check_round_trip_witness:
  "\<exists>t. length t \<le> 35 \<and>
     dogecoin_base58_encode_check sample_payload 21 (replicate 36 1) 36 = Some (length t + 1, t @ 0 # replicate (35 - length t) 1)
   \<and> (\<exists>r. dogecoin_base58_decode_check (t @ [0]) (replicate 40 9) 40 = Some (25, sample_payload @ r))"
proof -
  have "11 \<le> length sample_payload" "length sample_payload \<le> 88" "\<exists>b\<in>set sample_payload. b \<noteq> 0"
    by (simp_all add: sample_payload_def)
  from base58check_round_trip [OF this]
  obtain t where t: "length t \<le> 35"
    "\<And>s size rest. length t < size \<Longrightarrow> size \<le> length s \<Longrightarrow>
      dogecoin_base58_encode_check (sample_payload @ rest) 21 s size = Some (length t + 1, t @ 0 # drop (length t + 1) s)"
    "\<And>d size rest. length t \<le> size \<Longrightarrow> size \<le> length d \<Longrightarrow>
      \<exists>r. dogecoin_base58_decode_check (t @ 0 # rest) d size = Some (25, sample_payload @ r)"
    by (auto simp: sample_payload_def)
  show ?thesis
    using t(1) t(2) [of 36 "replicate 36 1" "[]"] t(3) [of 40 "replicate 40 9" "[]"]
    by (intro exI [of _ t]) auto
qed

lemma decode_bounds:
  assumes "dogecoin_base58_decode bin L s L = Some (True, bin', n)"
  shows "n \<le> L \<and> length bin' = length bin"
proof -
  let ?z = "length (takeWhile (\<lambda>c. c = 49) (take L s))"
  obtain out where o: "mem_write bin 0 out = Some bin'"
    "n = L - length (takeWhile (\<lambda>b. b = 0) out) + ?z" "?z \<le> length (takeWhile (\<lambda>b. b = 0) out)"
    using assms
    by (auto simp: dogecoin_base58_decode_def bind_eq_Some_conv Let_def mem_read_def not_less
        split: if_splits option.splits)
  have "?z \<le> L" by (rule le_trans [OF length_takeWhile_le]) simp
  with o show ?thesis by (auto simp: mem_write_length)
qed

lemma check_accepted:
  assumes "dogecoin_b58check out n s = Some r" "r \<ge> 0"
  shows "4 \<le> n \<and> n \<le> length out \<and> take 4 (drop (n - 4) out) = take 4 (sha256d (take (n - 4) out))"
proof -
  have n: "4 \<le> n" using assms by (auto simp: dogecoin_b58check_def split: if_splits)
  with assms obtain b h c where "mem_read out 0 (n - 4) = Some b" "dogecoin_dblhash b (replicate 32 0) = Some h"
    "mem_read out (n - 4) 4 = Some c" "c = take 4 h"
    by (auto simp: dogecoin_b58check_def bind_eq_Some_conv split: if_splits)
  with n show ?thesis by (auto simp: mem_read_def dblhash_reference split: if_splits)
qed

text \<open>What \<open>dogecoin_base58_decode_check\<close> accepts ends in the first four bytes of the double hash of the
  rest: the result is never longer than the text, and the bytes before the checksum hash to it.\<close>

theorem checksum_verified:
  assumes "dogecoin_base58_decode_check s d cap = Some (n, out)" "n \<noteq> 0"
  shows "4 \<le> n \<and> n \<le> cap \<and> n \<le> length out \<and> length out = length d
    \<and> take 4 (drop (n - 4) out) = take 4 (sha256d (take (n - 4) out))"
proof -
  obtain L where L: "bounded_len s 1024 = Some L" "\<not> (L > 128 \<or> cap < L)"
    using assms by (auto simp: dogecoin_base58_decode_check_def bind_eq_Some_conv split: if_splits)
  with assms obtain d1 b d2 r where d1: "dogecoin_base58_decode d L s L = Some (True, d1, n)"
    and b: "mem_read d1 (L - n) n = Some b" and d2: "mem_write d1 0 b = Some d2"
    and out: "mem_write d2 n (replicate (cap - n) 0) = Some out"
    and r: "dogecoin_b58check out n s = Some r" "r \<ge> 0"
    by (auto simp: dogecoin_base58_decode_check_def bind_eq_Some_conv split: if_splits prod.splits)
  have "n \<le> L" "length d1 = length d" using decode_bounds [OF d1] by auto
  moreover have "length out = length d1" using d2 out by (simp add: mem_write_length)
  ultimately show ?thesis using L(2) check_accepted [OF r] by auto
qed

lemma checksum_verified_witness:
  "\<exists>t n out. dogecoin_base58_decode_check t (replicate 40 9) 40 = Some (n, out) \<and> n = 25
    \<and> take 4 (drop 21 out) = take 4 (sha256d (take 21 out))"
proof -
  have "length sample_payload = 21" "\<exists>b\<in>set sample_payload. b \<noteq> 0" by (simp_all add: sample_payload_def)
  then obtain ds where ds: "b58_digits (checked sample_payload) ds" "length ds \<le> 35"
    using encode_check_digits [of sample_payload] by auto
  have "\<exists>out. dogecoin_base58_decode_check (b58_text ds @ 0 # []) (replicate 40 9) 40 = Some (25, out)"
    using decode_check_digits [OF ds(1), of 40 "replicate 40 9" "[]"] ds(2) \<open>length sample_payload = 21\<close>
      \<open>\<exists>b\<in>set sample_payload. b \<noteq> 0\<close> by simp
  then obtain t out where t: "dogecoin_base58_decode_check t (replicate 40 9) 40 = Some (25, out)" by blast
  then show ?thesis using checksum_verified [OF t] by (intro exI [of _ t] exI [of _ 25] exI [of _ out]) simp
qed

lemma decode_chars_overflow:
  assumes "length ws = j" "\<forall>d\<in>set ds. d < 58"
    "4294967296 ^ j \<le> radix 4294967296 (nats ws) * 58 ^ length ds + radix 58 ds"
  shows "decode_chars (b58_text ds) zeromask (0 # ws) = Some None"
  using assms
proof (induction ds arbitrary: ws)
  case Nil
  then show ?case using radix_less [of "nats ws" 4294967296] unat_u32_less by auto
next
  case (Cons d ds)
  let ?v = "radix 4294967296 (nats ws)"
  have e: "?v * 58 ^ length (d # ds) + radix 58 (d # ds) = (58 * ?v + d) * 58 ^ length ds + radix 58 ds"
    by (simp add: radix_Cons algebra_simps)
  have d: "unat (of_nat d :: u32) = d" using Cons.prems(2) by (simp add: unat_of_nat)
  obtain ws' c' where w: "decode_digit (0 # ws @ []) j (of_nat d) = Some (0 # ws' @ [], c')" "length ws' = j"
    "unat c' * 4294967296 ^ j + radix 4294967296 (nats ws') = 58 * ?v + d"
    using decode_digit_value [OF Cons.prems(1), of 0 "[]" "of_nat d"] unfolding d by blast
  have "decode_chars (b58_text ds) zeromask (0 # ws') = Some None" if "c' = 0"
    by (rule Cons.IH [OF w(2)]) (use Cons.prems(2) Cons.prems(3) [unfolded e] w(3) that in auto)
  then show ?case
    using w Cons.prems(1) b58_digit_char [of d] Cons.prems(2)
    by (simp add: b58_text_def mem_get_def)
qed

text \<open>\<open>dogecoin_base58_decode\<close> leaves the first 32-bit word of the number alone, so one word less than the
  output holds is available. A text without leading digits \<open>1\<close> is refused exactly when its value does not
  fit that, although it may fit the bytes asked for: with up to four bytes every text is refused. Otherwise
  the bytes have the value of the text, and the size loses their leading zeros.\<close>

theorem base58_capacity:
  assumes "0 < binsz" "binsz \<le> length bin" "\<forall>d\<in>set ds. d < 58" "ds \<noteq> []" "hd ds \<noteq> 0"
  shows "if radix 58 ds < 4294967296 ^ ((binsz - 1) div 4)
    then \<exists>out. length out = binsz \<and> radix 256 (nats out) = radix 58 ds
      \<and> dogecoin_base58_decode bin binsz (b58_text ds) (length ds)
        = Some (True, out @ drop binsz bin, length (dropWhile (\<lambda>b. b = 0) out))
    else dogecoin_base58_decode bin binsz (b58_text ds) (length ds) = Some (False, bin, binsz)"
proof -
  define j where "j = (binsz - 1) div 4"
  define zm where "zm = (if binsz mod 4 \<noteq> 0 then push_bit (binsz mod 4 * 8) (mask 32) else 0 :: u32)"
  note j = words_for [OF assms(1) j_def]
  have mr: "mem_read (b58_text ds) 0 (length ds) = Some (b58_text ds)" by (simp add: mem_read_def)
  have one: "length (takeWhile (\<lambda>c. c = 49) (b58_text ds)) = 0"
    using assms(3-5) b58_digit_char by (cases ds) (auto simp: b58_text_def)
  have z0: "radix 4294967296 (nats (replicate j 0 :: u32 list)) = 0" by (simp add: map_replicate_const)
  show ?thesis
  proof (cases "radix 58 ds < 4294967296 ^ j")
    case False
    have "decode_chars (b58_text ds) zm (0 # replicate j 0) = Some None"
      by (rule decode_chars_overflow) (use False assms(3) in \<open>auto simp: z0\<close>)
    then have no: "decode_chars (b58_text ds) zm (replicate (Suc j) 0) = Some None" by simp
    have "dogecoin_base58_decode bin binsz (b58_text ds) (length ds) = Some (False, bin, binsz)"
      using assms(1) unfolding dogecoin_base58_decode_def mr
      by (simp only: if_False Let_def Option.bind_lunit j(1) one drop_0 zm_def [symmetric] no option.case) simp
    with False show ?thesis unfolding j_def [symmetric] by simp
  next
    case True
    have "\<exists>ws'. decode_chars (b58_text ds) zm (0 # replicate j 0) = Some (Some (0 # ws')) \<and> length ws' = j
      \<and> radix 4294967296 (nats ws') = radix 4294967296 (nats (replicate j 0 :: u32 list)) * 58 ^ length ds + radix 58 ds"
      by (rule decode_chars_value) (use True assms(3) in \<open>auto simp: z0\<close>)
    then obtain ws where ws: "decode_chars (b58_text ds) zm (replicate (Suc j) 0) = Some (Some (0 # ws))" "length ws = j"
      "radix 4294967296 (nats ws) = radix 58 ds"
      unfolding z0 by auto
    define out where "out = words_out (binsz mod 4) (0 # ws)"
    have lc: "length (concat (map (be_bytes 4) ws)) = 4 * j" using ws(2) by (simp add: length_concat comp_def sum_list_triv)
    have lo: "length out = binsz" using j(3) lc by (simp add: out_def words_out_zero del: length_concat)
    have "radix 256 (nats out) = radix 256 (nats (concat (map (be_bytes 4) ws)))"
      unfolding out_def words_out_zero map_append radix_append by (simp add: map_replicate_const)
    then have ro: "radix 256 (nats out) = radix 58 ds"
      unfolding be_words_value ws(3) .
    have mw: "mem_write bin 0 out = Some (out @ drop binsz bin)" using assms(2) lo by (simp add: mem_write_def)
    have dz: "binsz - length (takeWhile (\<lambda>b. b = 0) out) = length (dropWhile (\<lambda>b. b = 0) out)"
      using lo by (metis add_diff_cancel_left' length_append takeWhile_dropWhile_id)
    have "dogecoin_base58_decode bin binsz (b58_text ds) (length ds)
      = Some (True, out @ drop binsz bin, length (dropWhile (\<lambda>b. b = 0) out))"
      using assms(1) unfolding dogecoin_base58_decode_def mr
      by (simp only: if_False Let_def Option.bind_lunit j(1) one drop_0 zm_def [symmetric] ws(1) option.case out_def [symmetric] mw dz)
        simp
    with True lo ro show ?thesis unfolding j_def [symmetric] by auto
  qed
qed

lemma base58_capacity_witness: "dogecoin_base58_decode [0, 0] 2 (b58_text [4, 57]) 2 = Some (False, [0, 0], 2)"
  using base58_capacity [of 2 "[0, 0]" "[4, 57]"] by (simp add: radix_Cons flip: numeral_2_eq_2)

end
