(* ===== verification/Cstr.thy ===== *)
theory Cstr
  imports Prelude
begin

text \<open>
  Growable strings, \<open>src/cstr.c\<close> of libdogecoin. A \<open>cstring\<close> is a heap buffer with a length and a
  capacity; a cell of the buffer that was never written is \<open>None\<close>, since \<open>realloc\<close> leaves new memory
  undefined. An operation gives \<open>None\<close> where the code accesses memory outside the buffer or shifts
  out of range; when memory is exhausted the allocator ends the program, so allocation succeeds.
  Arguments are different objects (appending a string to itself is not covered).
\<close>

section \<open>Cells\<close>

type_synonym cells = "u8 option list"

fun read_cells :: "cells \<Rightarrow> bytes option" where
  "read_cells [] = Some []"
| "read_cells (None # cs) = None"
| "read_cells (Some b # cs) = map_option ((#) b) (read_cells cs)"

lemma read_cells_map [simp]: "read_cells (map Some bs) = Some bs"
  by (induction bs) simp_all

lemma read_cells_Some: "read_cells cs = Some bs \<longleftrightarrow> cs = map Some bs"
proof
  show "read_cells cs = Some bs \<Longrightarrow> cs = map Some bs"
    by (induction cs arbitrary: bs rule: read_cells.induct) auto
qed simp

section \<open>The type\<close>

record cstring =
  str :: cells
  len :: nat
  alloc :: nat

definition SIZE_MAX :: nat where "SIZE_MAX = 2 ^ 64 - 1"

section \<open>Allocation\<close>

text \<open>
  The loop \<open>while ((al_sz = (1 << shift)) < sz) shift++\<close>: the shifted 1 is an \<open>int\<close>, and shifting it
  by 31 or more is undefined.
\<close>

function alloc_size :: "nat \<Rightarrow> nat \<Rightarrow> nat option" where
  "alloc_size sz shift =
     (if 31 \<le> shift then None
      else if 2 ^ shift < sz then alloc_size sz (Suc shift)
      else Some (2 ^ shift))"
  by pat_completeness auto
termination
  by (relation "measure (\<lambda>(sz, shift). 31 - shift)") auto

declare alloc_size.simps [simp del]

definition cstr_alloc_min_sz :: "cstring \<Rightarrow> nat \<Rightarrow> cstring option" where
  "cstr_alloc_min_sz s sz =
     (let sz = (sz + 1) mod 2 ^ 64
      in if alloc s \<noteq> 0 \<and> alloc s \<ge> sz then Some s
         else do {
           al_sz \<leftarrow> alloc_size sz 3;
           let new_s = take al_sz (str s @ replicate (al_sz - length (str s)) None);
           new_s \<leftarrow> mem_set new_s (len s) (Some 0);
           Some (s\<lparr>str := new_s, alloc := al_sz\<rparr>)
         })"

definition cstr_alloc_minsize :: "cstring \<Rightarrow> nat \<Rightarrow> (bool \<times> cstring) option" where
  "cstr_alloc_minsize s new_sz =
     (if new_sz = len s then Some (True, s)
      else if new_sz \<le> len s then Some (False, s)
      else do {
        s \<leftarrow> cstr_alloc_min_sz s new_sz;
        b \<leftarrow> mem_set (str s) (len s) (Some 0);
        Some (True, s\<lparr>str := b\<rparr>)
      })"

definition cstr_new_sz :: "nat \<Rightarrow> cstring option" where
  "cstr_new_sz sz = cstr_alloc_min_sz \<lparr>str = [], len = 0, alloc = 0\<rparr> sz"

text \<open>\<open>memcpy_safe\<close> copies nothing when one of its pointers is null.\<close>

definition memcpy_safe :: "cells \<Rightarrow> nat \<Rightarrow> bytes option \<Rightarrow> nat \<Rightarrow> cells option" where
  "memcpy_safe dst off src n =
     (case src of
        None \<Rightarrow> Some dst
      | Some b \<Rightarrow> do { x \<leftarrow> mem_read b 0 n; mem_write dst off (map Some x) })"

definition cstr_new_buf :: "bytes option \<Rightarrow> nat \<Rightarrow> cstring option" where
  "cstr_new_buf buf sz = do {
     s \<leftarrow> cstr_new_sz sz;
     b \<leftarrow> memcpy_safe (str s) 0 buf sz;
     b \<leftarrow> mem_set b sz (Some 0);
     Some (s\<lparr>str := b, len := sz\<rparr>)
   }"

definition cstr_new_cstr :: "cstring \<Rightarrow> cstring option" where
  "cstr_new_cstr copy_str = do {
     b \<leftarrow> read_cells (take (len copy_str) (str copy_str));
     cstr_new_buf (Some b) (len copy_str)
   }"

definition cstr_new :: "bytes option \<Rightarrow> cstring option" where
  "cstr_new init_str =
     (case init_str of
        None \<Rightarrow> cstr_new_sz 0
      | Some b \<Rightarrow> do {
          slen \<leftarrow> c_strlen b;
          (if slen = 0 then cstr_new_sz 0 else cstr_new_buf (Some b) slen)
        })"

section \<open>Changing a string\<close>

definition cstr_resize :: "cstring \<Rightarrow> nat \<Rightarrow> cstring option" where
  "cstr_resize s new_sz =
     (if new_sz = len s then Some s
      else do {
        s \<leftarrow> (if new_sz \<le> len s then Some s else cstr_alloc_min_sz s new_sz);
        b \<leftarrow> mem_set (str s) new_sz (Some 0);
        Some (s\<lparr>str := b, len := new_sz\<rparr>)
      })"

definition cstr_append_buf :: "cstring \<Rightarrow> bytes option \<Rightarrow> nat \<Rightarrow> cstring option" where
  "cstr_append_buf s buf sz = do {
     s \<leftarrow> cstr_alloc_min_sz s ((len s + sz) mod 2 ^ 64);
     b \<leftarrow> memcpy_safe (str s) (len s) buf sz;
     b \<leftarrow> mem_set b (len s + sz) (Some 0);
     Some (s\<lparr>str := b, len := len s + sz\<rparr>)
   }"

definition cstr_append_cstr :: "cstring \<Rightarrow> cstring \<Rightarrow> cstring option" where
  "cstr_append_cstr s append_s = do {
     b \<leftarrow> read_cells (take (len append_s) (str append_s));
     cstr_append_buf s (Some b) (len append_s)
   }"

definition cstr_append_c :: "cstring \<Rightarrow> u8 \<Rightarrow> cstring option" where
  "cstr_append_c s ch = cstr_append_buf s (Some [ch]) 1"

definition cstr_erase :: "cstring \<Rightarrow> nat \<Rightarrow> int \<Rightarrow> (bool \<times> cstring) option" where
  "cstr_erase s pos n =
     (if pos = len s \<and> n = 0 then Some (True, s)
      else if len s \<le> pos then Some (False, s)
      else
        (let old_tail = int (len s) - int pos
         in if 0 \<le> n \<and> old_tail < n then Some (False, s)
            else if int pos + n < 0 then None
            else do {
              x \<leftarrow> mem_read (str s) (nat (int pos + n)) (nat (old_tail - n));
              b \<leftarrow> mem_write (str s) pos x;
              b \<leftarrow> mem_set b (nat (int (len s) - n)) (Some 0);
              Some (True, s\<lparr>str := b, len := nat (int (len s) - n)\<rparr>)
            }))"

section \<open>Comparing strings\<close>

text \<open>Null pointers are \<open>None\<close>; two pointers to one object compare equal without a look at it.\<close>

definition cstr_equal :: "cstring option \<Rightarrow> cstring option \<Rightarrow> bool option" where
  "cstr_equal a b =
     (case (a, b) of
        (None, None) \<Rightarrow> Some True
      | (Some a, Some b) \<Rightarrow>
          if len a \<noteq> len b then Some False
          else do {
            x \<leftarrow> read_cells (take (len a) (str a));
            y \<leftarrow> read_cells (take (len b) (str b));
            Some (x = y)
          }
      | _ \<Rightarrow> Some False)"

fun compare_chars :: "bytes \<Rightarrow> bytes \<Rightarrow> int" where
  "compare_chars (a # as) (b # bs) =
     (if sint a > sint b then 1 else if sint a < sint b then -1 else compare_chars as bs)"
| "compare_chars _ _ = 0"

definition cstr_compare :: "cstring \<Rightarrow> cstring \<Rightarrow> int option" where
  "cstr_compare a b =
     (if len a > len b then Some 1
      else if len a < len b then Some (-1)
      else do {
        x \<leftarrow> read_cells (take (len a) (str a));
        y \<leftarrow> read_cells (take (len b) (str b));
        Some (compare_chars x y)
      })"

section \<open>Strings with known contents\<close>

definition cstr_holds :: "cstring \<Rightarrow> bytes \<Rightarrow> bool" where
  "cstr_holds s bs \<longleftrightarrow> len s = length bs \<and> length (str s) = alloc s \<and> length bs < alloc s
     \<and> alloc s \<le> 2 ^ 30 \<and> take (length bs) (str s) = map Some bs \<and> str s ! length bs = Some 0"

lemma alloc_size_Some:
  assumes "sz \<le> 2 ^ 30" "shift \<le> 30"
  shows "\<exists>k. shift \<le> k \<and> k \<le> 30 \<and> alloc_size sz shift = Some (2 ^ k) \<and> sz \<le> 2 ^ k"
  using assms
proof (induction sz shift rule: alloc_size.induct)
  case (1 sz shift)
  show ?case
  proof (cases "2 ^ shift < sz")
    case True
    have "(2::nat) ^ shift < 2 ^ 30" using True "1.prems"(1) by linarith
    then have "shift < 30" by (rule power_less_imp_less_exp [rotated]) simp
    with True 1 show ?thesis
      by (auto simp: alloc_size.simps [of sz shift] intro: Suc_leD)
  next
    case False
    with "1.prems" show ?thesis by (auto simp: alloc_size.simps [of sz shift])
  qed
qed

lemma alloc_size_None:
  assumes "2 ^ 30 < sz" "shift \<le> 31"
  shows "alloc_size sz shift = None"
  using assms
proof (induction sz shift rule: alloc_size.induct)
  case (1 sz shift)
  show ?case
  proof (cases "shift \<le> 30")
    case True
    then have "(2::nat) ^ shift \<le> 2 ^ 30" by (intro power_increasing) simp_all
    with 1 True show ?thesis by (simp add: alloc_size.simps [of sz shift])
  next
    case False
    then show ?thesis by (simp add: alloc_size.simps [of sz shift])
  qed
qed

lemma cstr_alloc_ok:
  assumes "cstr_holds s bs" "n < 2 ^ 30"
  shows "\<exists>s'. cstr_alloc_min_sz s n = Some s' \<and> cstr_holds s' bs \<and> n < alloc s'"
proof -
  have n: "(n + 1) mod 2 ^ 64 = n + 1" using assms(2) by simp
  show ?thesis
  proof (cases "alloc s \<ge> n + 1")
    case True
    with assms n show ?thesis by (auto simp: cstr_alloc_min_sz_def Let_def cstr_holds_def)
  next
    case False
    obtain k where k: "k \<le> 30" "alloc_size (n + 1) 3 = Some (2 ^ k)" "n + 1 \<le> 2 ^ k"
      using alloc_size_Some [of "n + 1" 3] assms(2) by auto
    have le: "alloc s \<le> 2 ^ k" "length bs < 2 ^ k" "(2::nat) ^ k \<le> 2 ^ 30"
      using False k assms(1) power_increasing [of k 30 "2 :: nat"] by (auto simp: cstr_holds_def)
    let ?new = "str s @ replicate (2 ^ k - alloc s) None"
    have "cstr_alloc_min_sz s n = Some (s\<lparr>str := ?new[length bs := Some 0], alloc := 2 ^ k\<rparr>)"
      using False n k le assms(1)
      by (auto simp: cstr_alloc_min_sz_def Let_def cstr_holds_def mem_set_def)
    moreover have "take (length bs) (?new[length bs := Some 0]) = map Some bs"
      using assms(1) by (auto simp: cstr_holds_def)
    ultimately show ?thesis
      using assms(1) k le by (auto simp: cstr_holds_def)
  qed
qed

lemma cstr_append_ok:
  assumes "cstr_holds s bs" "length bs + length x < 2 ^ 30"
  shows "\<exists>s'. cstr_append_buf s (Some x) (length x) = Some s' \<and> cstr_holds s' (bs @ x)"
proof -
  have m: "(length bs + length x) mod 2 ^ 64 = length bs + length x"
    using assms(2) by simp
  obtain t where t: "cstr_alloc_min_sz s (length bs + length x) = Some t" "cstr_holds t bs"
    "length bs + length x < alloc t"
    using cstr_alloc_ok [OF assms] by blast
  have len: "len s = length bs" "len t = length bs" "length (str t) = alloc t"
    "take (length bs) (str t) = map Some bs" "alloc t \<le> 2 ^ 30"
    using assms(1) t(2) by (simp_all add: cstr_holds_def)
  let ?b = "map Some bs @ map Some x @ drop (length bs + length x) (str t)"
  have w: "memcpy_safe (str t) (length bs) (Some x) (length x) = Some ?b"
    using t(3) len by (simp add: memcpy_safe_def mem_read_def mem_write_def)
  have st: "mem_set ?b (length bs + length x) (Some 0) = Some (?b[length bs + length x := Some 0])"
    using t(3) len by (intro mem_set_Some) simp
  have "cstr_append_buf s (Some x) (length x)
      = Some (t\<lparr>str := ?b[length bs + length x := Some 0], len := length bs + length x\<rparr>)"
    using t(1) w st len m by (simp add: cstr_append_buf_def)
  moreover have "cstr_holds (t\<lparr>str := ?b[length bs + length x := Some 0],
      len := length bs + length x\<rparr>) (bs @ x)"
    using t(3) len by (simp add: cstr_holds_def nth_append list_update_append)
  ultimately show ?thesis by blast
qed

section \<open>A place bytes are appended to\<close>

text \<open>
  The contract the serialisers rely on. An operation \<open>appends\<close> a list of bytes when, from any
  contents that leave room for them, it succeeds and puts them at the end.
\<close>

locale byte_sink =
  fixes holds :: "'s \<Rightarrow> bytes \<Rightarrow> bool"
    and capacity :: nat
    and put :: "bytes \<Rightarrow> 's \<Rightarrow> 's option"
  assumes put_ok: "holds s pre \<Longrightarrow> length pre + length bs < capacity \<Longrightarrow>
    \<exists>s'. put bs s = Some s' \<and> holds s' (pre @ bs)"
begin

definition appends :: "('s \<Rightarrow> 's option) \<Rightarrow> bytes \<Rightarrow> bool" where
  "appends f bs \<longleftrightarrow> (\<forall>s pre. holds s pre \<longrightarrow> length pre + length bs < capacity \<longrightarrow>
     (\<exists>s'. f s = Some s' \<and> holds s' (pre @ bs)))"

lemma appendsD: "appends f bs \<Longrightarrow> holds s pre \<Longrightarrow> length pre + length bs < capacity \<Longrightarrow>
    \<exists>s'. f s = Some s' \<and> holds s' (pre @ bs)"
  by (simp add: appends_def)

lemma appends_put [intro]: "appends (put bs) bs"
  by (simp add: appends_def put_ok)

lemma appends_Some: "appends Some []"
  by (simp add: appends_def)

lemma appends_comp:
  assumes "appends f as" "appends g bs"
  shows "appends (\<lambda>s. do { s \<leftarrow> f s; g s }) (as @ bs)"
  unfolding appends_def
proof (intro allI impI)
  fix s pre
  assume a: "holds s pre" "length pre + length (as @ bs) < capacity"
  then obtain t where t: "f s = Some t" "holds t (pre @ as)"
    using appendsD [OF assms(1) a(1)] by auto
  then show "\<exists>s'. (do { s \<leftarrow> f s; g s }) = Some s' \<and> holds s' (pre @ as @ bs)"
    using appendsD [OF assms(2) t(2)] a(2) by auto
qed

lemma appends_bind: "appends f as \<Longrightarrow> appends g bs \<Longrightarrow> cs = as @ bs \<Longrightarrow>
    appends (\<lambda>s. Option.bind (f s) g) cs"
  using appends_comp [of f as g bs] by simp

fun put_all :: "('a \<Rightarrow> 's \<Rightarrow> 's option) \<Rightarrow> 'a list \<Rightarrow> 's \<Rightarrow> 's option" where
  "put_all f [] s = Some s"
| "put_all f (x # xs) s = do { s \<leftarrow> f x s; put_all f xs s }"

lemma appends_all:
  assumes "\<And>x. x \<in> set xs \<Longrightarrow> appends (f x) (enc x)"
  shows "appends (put_all f xs) (concat (map enc xs))"
  using assms
proof (induction xs)
  case Nil
  then show ?case by (simp add: appends_def)
next
  case (Cons x xs)
  then have "appends (\<lambda>s. do { s \<leftarrow> f x s; put_all f xs s }) (enc x @ concat (map enc xs))"
    by (intro appends_comp) simp_all
  then show ?case by simp
qed

end

definition cstr_put :: "bytes \<Rightarrow> cstring \<Rightarrow> cstring option" where
  "cstr_put bs s = cstr_append_buf s (Some bs) (length bs)"

interpretation sink: byte_sink cstr_holds 1073741824 cstr_put
  by unfold_locales (simp add: cstr_put_def cstr_append_ok)

section \<open>What the operations do to the contents\<close>

lemma cstr_holds_unique: "cstr_holds s as \<Longrightarrow> cstr_holds s bs \<Longrightarrow> as = bs"
  by (auto simp: cstr_holds_def dest: map_injective)

lemma read_contents: "cstr_holds s bs \<Longrightarrow> read_cells (take (len s) (str s)) = Some bs"
  by (simp add: cstr_holds_def)

lemma cstr_new_sz_ok: "n < 2 ^ 30 \<Longrightarrow> \<exists>s. cstr_new_sz n = Some s \<and> cstr_holds s [] \<and> n < alloc s"
proof -
  assume n: "n < 2 ^ 30"
  then have m: "(n + 1) mod 2 ^ 64 = n + 1" by simp
  obtain k where k: "k \<le> 30" "alloc_size (n + 1) 3 = Some (2 ^ k)" "n + 1 \<le> 2 ^ k"
    using alloc_size_Some [of "n + 1" 3] n by auto
  have "(2::nat) ^ k \<le> 2 ^ 30" using k(1) by (intro power_increasing) simp_all
  with k m show ?thesis
    by (simp add: cstr_new_sz_def cstr_alloc_min_sz_def Let_def mem_set_def cstr_holds_def)
qed

lemma cstr_new_buf_ok:
  assumes "length bs < 2 ^ 30"
  shows "\<exists>s. cstr_new_buf (Some bs) (length bs) = Some s \<and> cstr_holds s bs"
proof -
  obtain s where s: "cstr_new_sz (length bs) = Some s" "cstr_holds s []" "length bs < alloc s"
    using cstr_new_sz_ok [OF assms] by blast
  then have "memcpy_safe (str s) 0 (Some bs) (length bs) = Some (map Some bs @ drop (length bs) (str s))"
    by (simp add: memcpy_safe_def mem_read_def mem_write_def cstr_holds_def)
  with s show ?thesis
    by (auto simp: cstr_new_buf_def mem_set_def cstr_holds_def nth_append list_update_append)
qed

lemma cstr_truncate:
  assumes "cstr_holds s bs" "n \<le> length bs"
  shows "\<exists>s'. cstr_resize s n = Some s' \<and> cstr_holds s' (take n bs)"
proof (cases "n = length bs")
  case True
  with assms show ?thesis by (simp add: cstr_resize_def cstr_holds_def)
next
  case False
  have "take n (str s) = take n (take (length bs) (str s))" using assms(2) by simp
  also have "\<dots> = map Some (take n bs)" using assms by (simp add: cstr_holds_def take_map)
  finally have "take n (str s) = map Some (take n bs)" .
  with assms False show ?thesis
    by (auto simp: cstr_resize_def cstr_holds_def mem_set_def)
qed

lemma cstr_clear: "cstr_holds s bs \<Longrightarrow> \<exists>s'. cstr_resize s 0 = Some s' \<and> cstr_holds s' []"
  using cstr_truncate [of s bs 0] by simp

text \<open>Appending to a string appends to its contents. A well-formed string with contents \<open>bs\<close> to which
  \<open>x\<close> is appended is well-formed with contents \<open>bs @ x\<close> as long as both together stay below 2^30
  bytes; from there on the loop that looks for a large enough power of two shifts an \<open>int\<close> out of its
  range.
\<close>

theorem cstr_append_contents:
  assumes "cstr_holds s bs"
  shows "(length bs + length x < 2 ^ 30 \<longrightarrow>
           (\<exists>s'. cstr_append_buf s (Some x) (length x) = Some s' \<and> cstr_holds s' (bs @ x)))
       \<and> (2 ^ 30 \<le> length bs + length x \<longrightarrow> length bs + length x < 2 ^ 63 \<longrightarrow>
           cstr_append_buf s (Some x) (length x) = None)"
proof (intro conjI impI)
  assume "length bs + length x < 2 ^ 30"
  then show "\<exists>s'. cstr_append_buf s (Some x) (length x) = Some s' \<and> cstr_holds s' (bs @ x)"
    by (rule cstr_append_ok [OF assms])
next
  assume n: "2 ^ 30 \<le> length bs + length x" "length bs + length x < 2 ^ 63"
  have l: "len s = length bs" "alloc s \<le> 2 ^ 30" using assms by (simp_all add: cstr_holds_def)
  have m: "((length bs + length x) mod 2 ^ 64 + 1) mod 2 ^ 64 = length bs + length x + 1"
    using n(2) by simp
  have "alloc_size (length bs + length x + 1) 3 = None"
    using n(1) by (intro alloc_size_None) simp_all
  with n l m show "cstr_append_buf s (Some x) (length x) = None"
    by (simp add: cstr_append_buf_def cstr_alloc_min_sz_def Let_def)
qed

lemma cstr_append_contents_witness:
  "let s = \<lparr>str = map Some [97, 0, 7, 7], len = 1, alloc = 4\<rparr>
   in \<exists>s'. cstr_append_buf s (Some [98, 99, 100]) (length [98, 99, 100 :: u8]) = Some s'
        \<and> cstr_holds s' ([97] @ [98, 99, 100])"
  using cstr_append_contents [of "\<lparr>str = map Some [97, 0, 7, 7], len = 1, alloc = 4\<rparr>" "[97]"
      "[98, 99, 100]"]
  by (simp add: cstr_holds_def)

lemma take_drop_cells:
  assumes "take (length bs) cs = map Some bs" "i + n \<le> length bs"
  shows "take n (drop i cs) = map Some (take n (drop i bs))"
proof -
  have "take n (drop i cs) = take n (drop i (take (length bs) cs))"
    using assms(2) by (simp add: drop_take min_absorb1)
  also have "\<dots> = map Some (take n (drop i bs))" by (simp add: assms(1) take_map drop_map)
  finally show ?thesis .
qed

lemma cstr_holds_build:
  assumes "b = map Some x @ r" "r \<noteq> []" "length b = alloc s" "alloc s \<le> 2 ^ 30" "n = length x"
  shows "cstr_holds (s\<lparr>str := b[n := Some 0], len := n\<rparr>) x"
  using assms by (cases r) (auto simp: cstr_holds_def)

text \<open>
  Erasing part of a string. A range inside the string is removed and the rest closes up; a range that
  passes the end is refused. The length is signed and a negative one is not refused: it repeats the
  characters before the position, and when the buffer has no room for them it writes past its end.
\<close>

theorem cstr_erase_contents:
  assumes "cstr_holds s bs" "pos < length bs"
  shows "(pos + n \<le> length bs \<longrightarrow> (\<exists>s'. cstr_erase s pos (int n) = Some (True, s')
            \<and> cstr_holds s' (take pos bs @ drop (pos + n) bs)))
       \<and> (length bs < pos + n \<longrightarrow> cstr_erase s pos (int n) = Some (False, s))
       \<and> (n \<le> pos \<longrightarrow> length bs + n < alloc s \<longrightarrow> (\<exists>s'. cstr_erase s pos (- int n) = Some (True, s')
            \<and> cstr_holds s' (take pos bs @ drop (pos - n) bs)))
       \<and> (n \<le> pos \<longrightarrow> alloc s \<le> length bs + n \<longrightarrow> cstr_erase s pos (- int n) = None)"
proof (intro conjI impI)
  note h = assms(1) [unfolded cstr_holds_def]
  {
    assume n: "pos + n \<le> length bs"
    let ?x = "map Some (take (length bs - pos - n) (drop (pos + n) bs))"
    let ?b = "take pos (str s) @ ?x @ drop (length bs - n) (str s)"
    have k: "nat (int pos + int n) = pos + n" "nat (int (length bs) - int pos - int n) = length bs - pos - n"
      "nat (int (length bs) - int n) = length bs - n" using n by auto
    have rd: "mem_read (str s) (pos + n) (length bs - pos - n) = Some ?x"
      using n h take_drop_cells [of bs "str s" "pos + n" "length bs - pos - n"]
      by (simp add: mem_read_def)
    have "pos + length ?x = length bs - n" "length bs - n \<le> length (str s)" using n h by auto
    then have wr: "mem_write (str s) pos ?x = Some ?b"
      unfolding mem_write_def by simp
    have "length bs - n < alloc s" using h by linarith
    then have "length bs - n < length ?b" using n h assms(2) by simp
    then have st: "mem_set ?b (length bs - n) (Some 0) = Some (?b[length bs - n := Some 0])"
      by (rule mem_set_Some)
    have pre: "take pos (str s) = map Some (take pos bs)"
      using take_drop_cells [of bs "str s" 0 pos] h assms(2) by simp
    have "cstr_erase s pos (int n) = Some (True, s\<lparr>str := ?b[length bs - n := Some 0], len := length bs - n\<rparr>)"
      using n h assms(2) k rd wr st by (simp add: cstr_erase_def Let_def)
    moreover have "cstr_holds (s\<lparr>str := ?b[length bs - n := Some 0], len := length bs - n\<rparr>)
        (take pos bs @ drop (pos + n) bs)"
    proof (rule cstr_holds_build)
      show "?b = map Some (take pos bs @ drop (pos + n) bs) @ drop (length bs - n) (str s)"
        using n pre by simp
      show "length ?b = alloc s" using mem_write_length [OF wr] h by simp
      show "drop (length bs - n) (str s) \<noteq> []" using h \<open>length bs - n < alloc s\<close> by simp
    qed (use h n assms(2) in auto)
    ultimately show "\<exists>s'. cstr_erase s pos (int n) = Some (True, s')
        \<and> cstr_holds s' (take pos bs @ drop (pos + n) bs)" by blast
  next
    assume "length bs < pos + n"
    then show "cstr_erase s pos (int n) = Some (False, s)"
      using h assms(2) by (simp add: cstr_erase_def Let_def)
  next
    assume n: "n \<le> pos" "length bs + n < alloc s"
    let ?x = "map Some (take (length bs - (pos - n)) (drop (pos - n) bs))"
    let ?b = "take pos (str s) @ ?x @ drop (length bs + n) (str s)"
    have k: "nat (int pos - int n) = pos - n" "nat (int (length bs) - int pos + int n) = length bs - (pos - n)"
      "nat (int (length bs) + int n) = length bs + n" using n assms(2) by auto
    have rd: "mem_read (str s) (pos - n) (length bs - (pos - n)) = Some ?x"
      using n h assms(2) take_drop_cells [of bs "str s" "pos - n" "length bs - (pos - n)"]
      by (simp add: mem_read_def)
    have wr: "mem_write (str s) pos ?x = Some ?b"
      using n h assms(2) by (simp add: mem_write_def)
    have "length bs + n < length ?b" using n h assms(2) by simp
    then have st: "mem_set ?b (length bs + n) (Some 0) = Some (?b[length bs + n := Some 0])"
      by (rule mem_set_Some)
    have pre: "take pos (str s) = map Some (take pos bs)"
      using take_drop_cells [of bs "str s" 0 pos] h assms(2) by simp
    have "cstr_erase s pos (- int n) = Some (True, s\<lparr>str := ?b[length bs + n := Some 0], len := length bs + n\<rparr>)"
      using n h assms(2) k rd wr st by (simp add: cstr_erase_def Let_def)
    moreover have "cstr_holds (s\<lparr>str := ?b[length bs + n := Some 0], len := length bs + n\<rparr>)
        (take pos bs @ drop (pos - n) bs)"
    proof (rule cstr_holds_build)
      show "?b = map Some (take pos bs @ drop (pos - n) bs) @ drop (length bs + n) (str s)"
        using n pre assms(2) by simp
      show "length ?b = alloc s" using mem_write_length [OF wr] h by simp
    qed (use h n assms(2) in auto)
    ultimately show "\<exists>s'. cstr_erase s pos (- int n) = Some (True, s')
        \<and> cstr_holds s' (take pos bs @ drop (pos - n) bs)" by blast
  next
    assume n: "n \<le> pos" "alloc s \<le> length bs + n"
    have "mem_set b (length bs + n) (Some 0) = None" if "mem_write (str s) pos x = Some b" for x b
      using mem_write_length [OF that] n h by (intro mem_set_None) simp
    moreover have "nat (int (length bs) + int n) = length bs + n" by simp
    ultimately show "cstr_erase s pos (- int n) = None"
      using n h assms(2) by (auto simp: cstr_erase_def Let_def split: Option.bind_splits)
  }
qed

lemma cstr_erase_contents_witness:
  "let s = \<lparr>str = map Some [97, 98, 99, 0, 7, 7], len = 3, alloc = 6\<rparr>
   in (\<exists>s'. cstr_erase s 1 (int 1) = Some (True, s') \<and> cstr_holds s' [97, 99])
    \<and> (\<exists>s'. cstr_erase s 1 (- int 1) = Some (True, s') \<and> cstr_holds s' [97, 97, 98, 99])"
  using cstr_erase_contents [of "\<lparr>str = map Some [97, 98, 99, 0, 7, 7], len = 3, alloc = 6\<rparr>"
      "[97, 98, 99]" 1 1]
  by (simp add: cstr_holds_def Let_def)

lemma compare_chars_refl: "compare_chars as as = 0"
  by (induction as) auto

lemma compare_chars_eq: "length as = length bs \<Longrightarrow> compare_chars as bs = 0 \<longleftrightarrow> as = bs"
  by (induction as bs rule: compare_chars.induct) (auto simp: signed_word_eqI [symmetric] dest: word_eq_iff_signed [THEN iffD2])

lemma compare_chars_sym: "compare_chars bs as = - compare_chars as bs"
  by (induction as bs rule: compare_chars.induct) auto

lemma compare_chars_trans:
  "length as = length bs \<Longrightarrow> length bs = length cs \<Longrightarrow> compare_chars as bs \<le> 0 \<Longrightarrow>
   compare_chars bs cs \<le> 0 \<Longrightarrow> compare_chars as cs \<le> 0"
proof (induction as arbitrary: bs cs)
  case Nil
  then show ?case by simp
next
  case (Cons a as)
  obtain b bs' c cs' where bc: "bs = b # bs'" "cs = c # cs'"
    using Cons.prems(1,2) by (cases bs; cases cs) auto
  have ab: "sint a < sint b \<or> sint a = sint b \<and> compare_chars as bs' \<le> 0"
    using Cons.prems(3) by (simp add: bc split: if_splits)
  have bc': "sint b < sint c \<or> sint b = sint c \<and> compare_chars bs' cs' \<le> 0"
    using Cons.prems(4) by (simp add: bc split: if_splits)
  show ?case
  proof (cases "sint a < sint c")
    case True
    then show ?thesis by (simp add: bc)
  next
    case False
    then have eq: "sint a = sint b" "sint b = sint c" using ab bc' by linarith+
    then have "compare_chars as cs' \<le> 0"
      using Cons.IH [of bs' cs'] Cons.prems(1,2) ab bc' by (simp add: bc)
    with eq show ?thesis by (simp add: bc)
  qed
qed

definition contents_compare :: "bytes \<Rightarrow> bytes \<Rightarrow> int" where
  "contents_compare as bs = (if length as > length bs then 1 else if length as < length bs then -1
     else compare_chars as bs)"

lemma cstr_compare_contents:
  "cstr_holds a as \<Longrightarrow> cstr_holds b bs \<Longrightarrow> cstr_compare a b = Some (contents_compare as bs)"
  using read_contents [of a as] read_contents [of b bs]
  by (auto simp: cstr_compare_def contents_compare_def cstr_holds_def)

text \<open>
  Comparison is a total order on contents. Three well-formed strings always compare; the result is 0
  exactly when the contents are equal, which is when \<open>cstr_equal\<close> says so; swapping the arguments
  changes its sign; and it is transitive. A longer string is the greater one whatever its characters.
\<close>

theorem cstr_compare_order:
  assumes "cstr_holds a as" "cstr_holds b bs" "cstr_holds c cs"
  shows "\<exists>ab ba bc ac. cstr_compare a b = Some ab \<and> cstr_compare b a = Some ba
      \<and> cstr_compare b c = Some bc \<and> cstr_compare a c = Some ac
      \<and> cstr_equal (Some a) (Some b) = Some (ab = 0) \<and> (ab = 0 \<longleftrightarrow> as = bs) \<and> ba = - ab
      \<and> (ab \<le> 0 \<and> bc \<le> 0 \<longrightarrow> ac \<le> 0) \<and> (length bs < length as \<longrightarrow> ab = 1)"
proof -
  have eq: "cstr_equal (Some a) (Some b) = Some (as = bs)"
    using read_contents [OF assms(1)] read_contents [OF assms(2)] assms
    by (auto simp: cstr_equal_def cstr_holds_def)
  have z: "contents_compare as bs = 0 \<longleftrightarrow> as = bs"
    using compare_chars_eq [of as bs] by (auto simp: contents_compare_def compare_chars_refl)
  have s: "contents_compare bs as = - contents_compare as bs"
    using compare_chars_sym [of as bs] by (auto simp: contents_compare_def)
  have t: "contents_compare as bs \<le> 0 \<and> contents_compare bs cs \<le> 0 \<longrightarrow> contents_compare as cs \<le> 0"
    using compare_chars_trans [of as bs cs] by (auto simp: contents_compare_def split: if_splits)
  show ?thesis
    using eq z s t cstr_compare_contents [OF assms(1,2)] cstr_compare_contents [OF assms(2,1)]
      cstr_compare_contents [OF assms(2,3)] cstr_compare_contents [OF assms(1,3)]
    by (auto simp: contents_compare_def)
qed

lemma cstr_compare_order_witness:
  "let s = \<lparr>str = map Some [200, 0], len = 1, alloc = 2\<rparr>
   in \<exists>ab ba bc ac. cstr_compare s s = Some ab \<and> cstr_compare s s = Some ba
      \<and> cstr_compare s s = Some bc \<and> cstr_compare s s = Some ac
      \<and> cstr_equal (Some s) (Some s) = Some (ab = 0) \<and> ba = - ab"
  using cstr_compare_order [of "\<lparr>str = map Some [200, 0], len = 1, alloc = 2\<rparr>" "[200]"
      "\<lparr>str = map Some [200, 0], len = 1, alloc = 2\<rparr>" "[200]"
      "\<lparr>str = map Some [200, 0], len = 1, alloc = 2\<rparr>" "[200]"]
  by (auto simp: cstr_holds_def Let_def)

end
