(* ===== verification/Serialize.thy ===== *)
theory Serialize
  imports Cstr
begin

text \<open>
  The wire format of libdogecoin, \<open>src/serialize.c\<close> and \<open>src/buffer.c\<close>: serialisers append to a
  \<open>cstring\<close>, deserialisers consume a \<open>const_buffer\<close>, here the list of bytes that are left. A
  deserialiser that returns false gives \<open>None\<close>. A file is the list of bytes not yet read.
\<close>

section \<open>Serialisers\<close>

definition ser_bytes :: "cstring \<Rightarrow> bytes option \<Rightarrow> nat \<Rightarrow> cstring option" where
  "ser_bytes s p n = cstr_append_buf s p n"

definition ser_u16 :: "cstring \<Rightarrow> u16 \<Rightarrow> cstring option" where
  "ser_u16 s v = cstr_append_buf s (Some (le_bytes 2 (unat v))) 2"

definition ser_u32 :: "cstring \<Rightarrow> u32 \<Rightarrow> cstring option" where
  "ser_u32 s v = cstr_append_buf s (Some (le_bytes 4 (unat v))) 4"

definition ser_s32 :: "cstring \<Rightarrow> u32 \<Rightarrow> cstring option" where
  "ser_s32 s v = ser_u32 s v"

definition ser_u64 :: "cstring \<Rightarrow> u64 \<Rightarrow> cstring option" where
  "ser_u64 s v = cstr_append_buf s (Some (le_bytes 8 (unat v))) 8"

definition ser_s64 :: "cstring \<Rightarrow> u64 \<Rightarrow> cstring option" where
  "ser_s64 s v = ser_u64 s v"

definition ser_u256 :: "cstring \<Rightarrow> bytes \<Rightarrow> cstring option" where
  "ser_u256 s v = ser_bytes s (Some v) 32"

definition ser_varlen :: "cstring \<Rightarrow> u32 \<Rightarrow> cstring option" where
  "ser_varlen s vlen =
     (if vlen < 253 then ser_bytes s (Some [ucast vlen]) 1
      else if vlen < 0x10000 then do {
        s \<leftarrow> ser_bytes s (Some [253]) 1;
        ser_u16 s (ucast vlen)
      }
      else do {
        s \<leftarrow> ser_bytes s (Some [254]) 1;
        ser_u32 s vlen
      })"

text \<open>\<open>strnlen\<close>, which looks at no more than \<open>maxlen\<close> bytes.\<close>

fun strnlen :: "bytes \<Rightarrow> nat \<Rightarrow> nat option" where
  "strnlen bs 0 = Some 0"
| "strnlen [] (Suc n) = None"
| "strnlen (b # bs) (Suc n) = (if b = 0 then Some 0 else map_option Suc (strnlen bs n))"

definition ser_str :: "cstring \<Rightarrow> bytes \<Rightarrow> nat \<Rightarrow> cstring option" where
  "ser_str s s_in maxlen = do {
     slen \<leftarrow> strnlen s_in maxlen;
     s \<leftarrow> ser_varlen s (of_nat slen);
     ser_bytes s (Some s_in) slen
   }"

definition ser_varstr :: "cstring \<Rightarrow> cstring option \<Rightarrow> cstring option" where
  "ser_varstr s s_in =
     (case s_in of
        None \<Rightarrow> ser_varlen s 0
      | Some t \<Rightarrow>
          if len t = 0 then ser_varlen s 0
          else do {
            s \<leftarrow> ser_varlen s (of_nat (len t));
            b \<leftarrow> read_cells (take (len t) (str t));
            ser_bytes s (Some b) (len t)
          })"

section \<open>Deserialisers\<close>

definition deser_skip :: "nat \<Rightarrow> bytes \<Rightarrow> bytes option" where
  "deser_skip n buf = (if length buf < n then None else Some (drop n buf))"

definition deser_bytes :: "nat \<Rightarrow> bytes \<Rightarrow> (bytes \<times> bytes) option" where
  "deser_bytes n buf = (if length buf < n then None else Some (take n buf, drop n buf))"

definition deser_u16 :: "bytes \<Rightarrow> (u16 \<times> bytes) option" where
  "deser_u16 buf = do { (v, buf) \<leftarrow> deser_bytes 2 buf; Some (le_word v, buf) }"

definition deser_u32 :: "bytes \<Rightarrow> (u32 \<times> bytes) option" where
  "deser_u32 buf = do { (v, buf) \<leftarrow> deser_bytes 4 buf; Some (le_word v, buf) }"

definition deser_s32 :: "bytes \<Rightarrow> (u32 \<times> bytes) option" where
  "deser_s32 buf = do { (v, buf) \<leftarrow> deser_bytes 4 buf; Some (le_word v, buf) }"

definition deser_u64 :: "bytes \<Rightarrow> (u64 \<times> bytes) option" where
  "deser_u64 buf = do { (v, buf) \<leftarrow> deser_bytes 8 buf; Some (le_word v, buf) }"

definition deser_s64 :: "bytes \<Rightarrow> (u64 \<times> bytes) option" where
  "deser_s64 buf = deser_u64 buf"

definition deser_u256 :: "bytes \<Rightarrow> (bytes \<times> bytes) option" where
  "deser_u256 buf = deser_bytes 32 buf"

definition deser_varlen :: "bytes \<Rightarrow> (u32 \<times> bytes) option" where
  "deser_varlen buf = do {
     (c, buf) \<leftarrow> deser_bytes 1 buf;
     let c = hd c;
     (if c = 253 then do { (v16, buf) \<leftarrow> deser_u16 buf; Some (ucast v16, buf) }
      else if c = 254 then do { (v32, buf) \<leftarrow> deser_u32 buf; Some (v32, buf) }
      else if c = 255 then do { (v64, buf) \<leftarrow> deser_u64 buf; Some (ucast v64, buf) }
      else Some (ucast c, buf))
   }"

text \<open>\<open>fread\<close> of \<open>n\<close> bytes, which gives fewer at the end of the file; then the code returns false.\<close>

definition fread :: "nat \<Rightarrow> bytes \<Rightarrow> (bytes \<times> bytes) option" where
  "fread n file = (if length file < n then None else Some (take n file, drop n file))"

definition deser_varlen_from_file :: "bytes \<Rightarrow> (u32 \<times> bytes) option" where
  "deser_varlen_from_file file = do {
     (c, file) \<leftarrow> fread 1 file;
     let c = hd c;
     (if c = 253 then do {
        (p, file) \<leftarrow> fread 2 file; (v16, _) \<leftarrow> deser_u16 (p @ replicate 6 0); Some (ucast v16, file)
      }
      else if c = 254 then do {
        (p, file) \<leftarrow> fread 4 file; (v32, _) \<leftarrow> deser_u32 (p @ replicate 4 0); Some (v32, file)
      }
      else if c = 255 then do {
        (p, file) \<leftarrow> fread 8 file; (v64, _) \<leftarrow> deser_u64 p; Some (ucast v64, file)
      }
      else Some (ucast c, file))
   }"

text \<open>
  \<open>deser_varlen_file\<close> also stores the bytes it read at the start of \<open>rawdata\<close>, of which the caller says
  it holds \<open>buflen_inout\<close>; the outer option is a write past \<open>rawdata\<close>.
\<close>

definition deser_varlen_file ::
    "bytes \<Rightarrow> bytes \<Rightarrow> nat \<Rightarrow> (u32 \<times> bytes \<times> bytes \<times> nat) option option" where
  "deser_varlen_file file rawdata buflen_inout =
     (if buflen_inout < 4 then Some None
      else (case fread 1 file of
        None \<Rightarrow> Some None
      | Some (c, file) \<Rightarrow>
          let c = hd c
          in do {
            rawdata \<leftarrow> mem_set rawdata 0 c;
            (if c = 253 then
               (case fread 2 file of
                  None \<Rightarrow> Some None
                | Some (p, file) \<Rightarrow> do {
                    rawdata \<leftarrow> mem_write rawdata 1 p;
                    Some (do { (v16, _) \<leftarrow> deser_u16 (p @ replicate 6 0);
                               Some (ucast v16, file, rawdata, 3) })
                  })
             else if c = 254 then
               (case fread 4 file of
                  None \<Rightarrow> Some None
                | Some (p, file) \<Rightarrow> do {
                    rawdata \<leftarrow> mem_write rawdata 1 p;
                    Some (do { (v32, _) \<leftarrow> deser_u32 (p @ replicate 4 0);
                               Some (v32, file, rawdata, 5) })
                  })
             else if c = 255 then
               (case fread 8 file of
                  None \<Rightarrow> Some None
                | Some (p, file) \<Rightarrow> do {
                    rawdata \<leftarrow> mem_write rawdata 1 (take 4 p);
                    Some (do { (v64, _) \<leftarrow> deser_u64 p; Some (ucast v64, file, rawdata, 5) })
                  })
             else Some (Some (ucast c, file, rawdata, 1)))
          }))"

text \<open>The string buffer, the remaining bytes and the result; \<open>None\<close> is a write outside the buffer.\<close>

definition deser_str :: "bytes \<Rightarrow> bytes \<Rightarrow> nat \<Rightarrow> (bool \<times> bytes \<times> bytes) option" where
  "deser_str so buf maxlen =
     (case deser_varlen buf of
        None \<Rightarrow> Some (False, so, buf)
      | Some (n, buf) \<Rightarrow>
          let skip_len = (if unat n > maxlen then unat n - maxlen else 0);
              k = (if unat n > maxlen then maxlen else unat n)
          in (case deser_bytes k buf of
                None \<Rightarrow> Some (False, so, buf)
              | Some (x, buf) \<Rightarrow> do {
                  so \<leftarrow> mem_write so 0 x;
                  (case deser_skip skip_len buf of
                     None \<Rightarrow> Some (False, so, buf)
                   | Some buf \<Rightarrow>
                       if k = 0 \<and> maxlen = 0 then None
                       else do {
                         so \<leftarrow> mem_set so (if k < maxlen then k else maxlen - 1) 0;
                         Some (True, so, buf)
                       })
                }))"

text \<open>The new string, which replaces and frees the old one; the inner option is the result false.\<close>

definition deser_varstr :: "bytes \<Rightarrow> (cstring \<times> bytes) option option" where
  "deser_varstr buf =
     (case deser_varlen buf of
        None \<Rightarrow> Some None
      | Some (n, buf) \<Rightarrow>
          if length buf < unat n then Some None
          else do {
            s \<leftarrow> cstr_new_sz (unat n);
            s \<leftarrow> cstr_append_buf s (Some buf) (unat n);
            Some (Some (s, drop (unat n) buf))
          })"

section \<open>Buffers\<close>

text \<open>\<open>struct buffer\<close>: \<open>buffer_equal\<close> compares lengths and then contents.\<close>

definition buffer_equal :: "bytes \<Rightarrow> nat \<Rightarrow> bytes \<Rightarrow> nat \<Rightarrow> bool option" where
  "buffer_equal ap alen bp blen =
     (if alen \<noteq> blen then Some False
      else do { x \<leftarrow> mem_read ap 0 alen; y \<leftarrow> mem_read bp 0 alen; Some (x = y) })"

definition buffer_copy :: "bytes \<Rightarrow> nat \<Rightarrow> (bytes \<times> nat) option" where
  "buffer_copy data data_len = do {
     x \<leftarrow> mem_read data 0 data_len;
     b \<leftarrow> mem_write (replicate data_len 0) 0 x;
     Some (b, data_len)
   }"

section \<open>The format\<close>

definition varlen_bytes :: "nat \<Rightarrow> bytes" where
  "varlen_bytes n =
     (if n < 253 then [of_nat n] else if n < 65536 then 253 # le_bytes 2 n else 254 # le_bytes 4 n)"

definition varstr_bytes :: "bytes \<Rightarrow> bytes" where
  "varstr_bytes bs = varlen_bytes (length bs) @ bs"

lemma length_varlen_bytes: "length (varlen_bytes n) \<le> 5"
  by (simp add: varlen_bytes_def)

lemma appends_buf: "n = length bs \<Longrightarrow> sink.appends (\<lambda>s. cstr_append_buf s (Some bs) n) bs"
  using sink.appends_put [of bs] unfolding cstr_put_def sink.appends_def by simp

named_theorems appending \<open>what the serialisers append\<close>

lemma ser_bytes_appends [appending]: "n = length bs \<Longrightarrow> sink.appends (\<lambda>s. ser_bytes s (Some bs) n) bs"
  by (simp add: ser_bytes_def appends_buf)

lemma ser_ints_append [appending]:
  "sink.appends (\<lambda>s. ser_u16 s v) (le_bytes 2 (unat v))"
  "sink.appends (\<lambda>s. ser_u32 s w) (le_bytes 4 (unat w))"
  "sink.appends (\<lambda>s. ser_s32 s w) (le_bytes 4 (unat w))"
  "sink.appends (\<lambda>s. ser_u64 s x) (le_bytes 8 (unat x))"
  "sink.appends (\<lambda>s. ser_s64 s x) (le_bytes 8 (unat x))"
  by (simp_all only: ser_u16_def ser_u32_def ser_s32_def ser_u64_def ser_s64_def appends_buf
      length_le_bytes)

lemma ser_u256_appends [appending]: "length bs = 32 \<Longrightarrow> sink.appends (\<lambda>s. ser_u256 s bs) bs"
  by (simp add: ser_u256_def ser_bytes_appends)

lemma ser_varlen_appends [appending]: "sink.appends (\<lambda>s. ser_varlen s v) (varlen_bytes (unat v))"
proof -
  have u: "unat (ucast v :: u8) = unat v" "ucast v = (of_nat (unat v) :: u8)" if "v < 253"
    using that by (simp_all add: unsigned_ucast_eq word_less_nat_alt take_bit_nat_eq_self)
  have w: "unat (ucast v :: u16) = unat v" if "v < 65536"
    using that by (simp add: unsigned_ucast_eq word_less_nat_alt take_bit_nat_eq_self)
  consider "v < 253" | "\<not> v < 253" "v < 65536" | "\<not> v < 253" "\<not> v < 65536" by blast
  then show ?thesis
  proof cases
    case 1
    then have "varlen_bytes (unat v) = [ucast v]"
      using u(2) by (simp add: varlen_bytes_def word_less_nat_alt)
    with 1 ser_bytes_appends [of 1 "[ucast v]"] show ?thesis by (simp add: ser_varlen_def)
  next
    case 2
    then have "varlen_bytes (unat v) = [253] @ le_bytes 2 (unat (ucast v :: u16))"
      using w by (simp add: varlen_bytes_def word_less_nat_alt del: le_bytes_numeral)
    moreover have "sink.appends (\<lambda>s. do { s \<leftarrow> ser_bytes s (Some [253]) 1; ser_u16 s (ucast v) })
        ([253] @ le_bytes 2 (unat (ucast v :: u16)))"
      by (intro sink.appends_comp ser_bytes_appends ser_ints_append) simp
    ultimately show ?thesis using 2 by (simp add: ser_varlen_def)
  next
    case 3
    then have "varlen_bytes (unat v) = [254] @ le_bytes 4 (unat v)"
      by (simp add: varlen_bytes_def word_less_nat_alt del: le_bytes_numeral)
    moreover have "sink.appends (\<lambda>s. do { s \<leftarrow> ser_bytes s (Some [254]) 1; ser_u32 s v })
        ([254] @ le_bytes 4 (unat v))"
      by (intro sink.appends_comp ser_bytes_appends ser_ints_append) simp
    ultimately show ?thesis using 3 by (simp add: ser_varlen_def)
  qed
qed

lemma varlen_numeral [simp]: "varlen_bytes 0 = [0]"
  by (simp add: varlen_bytes_def)

lemma ser_varstr_appends [appending]:
  assumes "cstr_holds t bs"
  shows "sink.appends (\<lambda>s. ser_varstr s (Some t)) (varstr_bytes bs)"
proof (cases "bs = []")
  case True
  then show ?thesis
    using assms ser_varlen_appends [of 0]
    by (simp add: ser_varstr_def cstr_holds_def varstr_bytes_def)
next
  case False
  have n: "len t = length bs" "length bs < 2 ^ 30" using assms by (auto simp: cstr_holds_def)
  have "sink.appends (\<lambda>s. do { s \<leftarrow> ser_varlen s (of_nat (length bs)); ser_bytes s (Some bs) (length bs) })
      (varlen_bytes (unat (of_nat (length bs) :: u32)) @ bs)"
    by (intro sink.appends_comp appending) simp
  moreover have "unat (of_nat (length bs) :: u32) = length bs"
    using n(2) by (simp add: unat_of_nat)
  ultimately show ?thesis
    using False n read_contents [OF assms] by (simp add: ser_varstr_def varstr_bytes_def)
qed

section \<open>Reading back\<close>

lemma deser_bytes_append [simp]: "n = length x \<Longrightarrow> deser_bytes n (x @ rest) = Some (x, rest)"
  by (simp add: deser_bytes_def)

lemma deser_Cons [simp]: "deser_bytes (Suc 0) (b # rest) = Some ([b], rest)"
  by (simp add: deser_bytes_def)

lemma deser_ints [simp]:
  "deser_u16 (le_bytes 2 (unat v) @ rest) = Some (v, rest)"
  "deser_u32 (le_bytes 4 (unat w) @ rest) = Some (w, rest)"
  "deser_s32 (le_bytes 4 (unat w) @ rest) = Some (w, rest)"
  "deser_u64 (le_bytes 8 (unat x) @ rest) = Some (x, rest)"
  by (simp_all add: deser_u16_def deser_u32_def deser_s32_def deser_u64_def deser_bytes_append
      del: le_bytes_numeral)

lemma deser_varlen_bytes [simp]:
  assumes "n < 4294967296"
  shows "deser_varlen (varlen_bytes n @ rest) = Some (of_nat n, rest)"
proof -
  have u16: "deser_u16 (le_bytes 2 n @ rest) = Some (of_nat n, rest)" if "n < 65536"
  proof -
    have "n = unat (of_nat n :: u16)" using that by (simp add: unat_of_nat)
    then show ?thesis by (metis deser_ints(1))
  qed
  have u32: "deser_u32 (le_bytes 4 n @ rest) = Some (of_nat n, rest)"
  proof -
    have "n = unat (of_nat n :: u32)" using assms by (simp add: unat_of_nat)
    then show ?thesis by (metis deser_ints(2))
  qed
  have c8: "ucast (of_nat n :: u8) = (of_nat n :: u32)" if "n < 253"
    using that by (simp add: unsigned_of_nat take_bit_nat_eq_self)
  have c16: "ucast (of_nat n :: u16) = (of_nat n :: u32)" if "n < 65536"
    using that by (simp add: unsigned_of_nat take_bit_nat_eq_self)
  have ne: "(of_nat n :: u8) \<noteq> 253" "(of_nat n :: u8) \<noteq> 254" "(of_nat n :: u8) \<noteq> 255" if "n < 253"
  proof -
    have "unat (of_nat n :: u8) = n" using that by (simp add: unat_of_nat)
    with that show "(of_nat n :: u8) \<noteq> 253" "(of_nat n :: u8) \<noteq> 254" "(of_nat n :: u8) \<noteq> 255" by auto
  qed
  show ?thesis
    using u16 u32 c8 c16 ne
    by (auto simp: varlen_bytes_def deser_varlen_def Let_def simp del: le_bytes_numeral)
qed

lemma deser_varstr_bytes:
  assumes "length bs < 2 ^ 30"
  shows "\<exists>s. deser_varstr (varstr_bytes bs @ rest) = Some (Some (s, rest)) \<and> cstr_holds s bs"
proof -
  have n: "unat (of_nat (length bs) :: u32) = length bs" using assms by (simp add: unat_of_nat)
  obtain t where t: "cstr_new_sz (length bs) = Some t" "cstr_holds t []"
    using cstr_new_sz_ok [OF assms] by blast
  obtain s where "cstr_append_buf t (Some bs) (length bs) = Some s" "cstr_holds s bs"
    using cstr_append_ok [OF t(2), of bs] assms by auto
  moreover have "cstr_append_buf t (Some (bs @ rest)) (length bs) = cstr_append_buf t (Some bs) (length bs)"
    by (simp add: cstr_append_buf_def memcpy_safe_def mem_read_def)
  ultimately show ?thesis
    using t(1) n assms by (simp add: deser_varstr_def varstr_bytes_def)
qed

lemma deser_bytes_split: "deser_bytes n buf = Some (x, rest) \<longleftrightarrow> buf = x @ rest \<and> length x = n"
  by (auto simp: deser_bytes_def)

lemma deser_int_padded:
  "length p = 2 \<Longrightarrow> deser_u16 (p @ q) = Some (le_word p, q)"
  "length p = 4 \<Longrightarrow> deser_u32 (p @ q) = Some (le_word p, q)"
  "length p = 8 \<Longrightarrow> deser_u64 (p @ q) = Some (le_word p, q)"
  by (simp_all add: deser_u16_def deser_u32_def deser_u64_def)

lemma fread_deser: "fread n = deser_bytes n"
  by (rule ext) (simp add: fread_def deser_bytes_def)

lemma deser_varlen_file_same: "deser_varlen_from_file = deser_varlen"
proof
  fix buf
  show "deser_varlen_from_file buf = deser_varlen buf"
    by (auto simp: deser_varlen_from_file_def deser_varlen_def fread_deser deser_u16_def
        deser_u32_def deser_u64_def deser_bytes_def Let_def split: Option.bind_splits)
qed

text \<open>
  Lengths survive serialisation. For every 32-bit length, \<open>ser_varlen\<close> appends between one and five
  bytes to the string, and \<open>deser_varlen\<close> (from a buffer or from a file) reads exactly those bytes
  back to the same length, whatever follows them.
\<close>

theorem varlen_round_trip:
  assumes "cstr_holds s pre" "length pre + 5 < 2 ^ 30"
  shows "\<exists>s' enc. ser_varlen s v = Some s' \<and> cstr_holds s' (pre @ enc) \<and> 1 \<le> length enc \<and> length enc \<le> 5
    \<and> (\<forall>rest. deser_varlen (enc @ rest) = Some (v, rest)
            \<and> deser_varlen_from_file (enc @ rest) = Some (v, rest))"
proof -
  let ?enc = "varlen_bytes (unat v)"
  have "length pre + length ?enc < 1073741824"
    using assms(2) length_varlen_bytes [of "unat v"] by simp
  then obtain s' where "ser_varlen s v = Some s'" "cstr_holds s' (pre @ ?enc)"
    using sink.appendsD [OF ser_varlen_appends assms(1)] by blast
  moreover have "1 \<le> length ?enc" by (simp add: varlen_bytes_def)
  ultimately show ?thesis
    using length_varlen_bytes [of "unat v"] unat_u32_less [of v]
    by (intro exI [of _ s'] exI [of _ ?enc]) (simp add: deser_varlen_file_same)
qed

text \<open>A string to run examples on.\<close>

definition empty_string :: cstring where
  "empty_string = \<lparr>str = Some 0 # replicate 7 None, len = 0, alloc = 8\<rparr>"

lemma empty_string_holds: "cstr_holds empty_string []"
  by (simp add: empty_string_def cstr_holds_def)

lemma varlen_round_trip_witness:
  "\<exists>s' enc. ser_varlen empty_string 70000 = Some s' \<and> cstr_holds s' ([] @ enc)
    \<and> 1 \<le> length enc \<and> length enc \<le> 5
    \<and> (\<forall>rest. deser_varlen (enc @ rest) = Some (70000, rest)
            \<and> deser_varlen_from_file (enc @ rest) = Some (70000, rest))"
  by (rule varlen_round_trip) (simp_all add: empty_string_holds)

text \<open>
  Strings survive serialisation. What \<open>ser_varstr\<close> appends for a string with contents \<open>bs\<close> is read
  back by \<open>deser_varstr\<close> as a new, well-formed string with the same contents, and exactly those bytes
  are consumed.
\<close>

theorem varstr_round_trip:
  assumes "cstr_holds s pre" "cstr_holds t bs" "length pre + length bs + 5 < 2 ^ 30"
  shows "\<exists>s' enc. ser_varstr s (Some t) = Some s' \<and> cstr_holds s' (pre @ enc)
    \<and> (\<forall>rest. \<exists>t'. deser_varstr (enc @ rest) = Some (Some (t', rest)) \<and> cstr_holds t' bs)"
proof -
  let ?enc = "varstr_bytes bs"
  have "length pre + length ?enc < 1073741824"
    using assms(3) length_varlen_bytes [of "length bs"] by (simp add: varstr_bytes_def)
  then obtain s' where "ser_varstr s (Some t) = Some s'" "cstr_holds s' (pre @ ?enc)"
    using sink.appendsD [OF ser_varstr_appends [OF assms(2)] assms(1)] by blast
  moreover have "length bs < 2 ^ 30" using assms(3) by simp
  ultimately show ?thesis
    using deser_varstr_bytes [of bs] by blast
qed

lemma varstr_round_trip_witness:
  "\<exists>s' enc. ser_varstr empty_string (Some empty_string) = Some s' \<and> cstr_holds s' ([] @ enc)
    \<and> (\<forall>rest. \<exists>t'. deser_varstr (enc @ rest) = Some (Some (t', rest)) \<and> cstr_holds t' [])"
  by (rule varstr_round_trip) (simp_all add: empty_string_holds)

text \<open>
  Lengths in a file. \<open>deser_varlen_file\<close> gives the same length as \<open>deser_varlen\<close> and leaves the file
  after the same bytes; the bytes it stores in \<open>rawdata\<close> are the ones it read, except for the
  nine-byte form, of which it stores and counts only five.
\<close>

theorem deser_varlen_file_rawdata:
  assumes "deser_varlen fl = Some (v, rest)" "4 \<le> n" "5 \<le> length rawdata"
  shows "\<exists>used raw k. fl = used @ rest \<and> deser_varlen_file fl rawdata n = Some (Some (v, rest, raw, k))
    \<and> length raw = length rawdata \<and> k = (if hd fl = 255 then 5 else length used)
    \<and> take k raw = take k used"
proof -
  obtain c buf where f: "fl = c # buf"
    using assms(1) by (cases fl) (auto simp: deser_varlen_def deser_bytes_def)
  have wr: "mem_write (rawdata[0 := c]) 1 p = Some (c # p @ drop (Suc (length p)) rawdata)"
    if "length p \<le> 4" for p
  proof -
    have "take 1 (rawdata[0 := c]) = [c]"
      using assms(3) by (cases rawdata) auto
    moreover have "drop (1 + length p) (rawdata[0 := c]) = drop (Suc (length p)) rawdata"
      by simp
    ultimately show ?thesis using that assms(3) by (simp add: mem_write_def)
  qed
  have st: "mem_set rawdata 0 c = Some (rawdata[0 := c])"
    using assms(3) by (intro mem_set_Some) linarith
  show ?thesis
  proof (cases "c \<in> {253, 254, 255}")
    case False
    then have "v = ucast c" "rest = buf"
      using assms(1) f by (auto simp: deser_varlen_def Let_def)
    moreover have "take 1 (rawdata[0 := c]) = [c]" using assms(3) by (cases rawdata) auto
    ultimately show ?thesis
      using False f assms(2) st
      by (intro exI [of _ "[c]"] exI [of _ "rawdata[0 := c]"] exI [of _ 1])
        (simp add: deser_varlen_file_def fread_deser)
  next
    case True
    define m where "m = (if c = 253 then 2 else if c = 254 then 4 else 8 :: nat)"
    obtain p where p: "buf = p @ rest" "length p = m"
      "v = (if c = 253 then ucast (le_word p :: u16) else if c = 254 then le_word p
            else ucast (le_word p :: u64))"
      using assms(1) f True
      by (auto simp: deser_varlen_def Let_def deser_u16_def deser_u32_def deser_u64_def m_def
          deser_bytes_split bind_eq_Some_conv)
    let ?q = "take 4 p"
    let ?raw = "c # ?q @ drop (Suc (length ?q)) rawdata"
    have q: "length ?q \<le> 4" by simp
    have u64: "deser_u64 p = Some (le_word p, [])" if "length p = 8"
      using deser_int_padded(3) [OF that, of "[]"] by simp
    have "deser_varlen_file fl rawdata n = Some (Some (v, rest, ?raw, if c = 255 then 5 else 1 + m))"
      using True f p assms(2) st wr [OF q] unfolding m_def
      by (auto simp: deser_varlen_file_def fread_deser Let_def deser_int_padded u64)
    with f p True assms(3) show ?thesis
      unfolding m_def
      by (intro exI [of _ "c # p"] exI [of _ ?raw] exI [of _ "if c = 255 then 5 else 1 + m"])
        (auto simp: m_def)
  qed
qed

lemma deser_varlen_file_rawdata_witness:
  "\<exists>used raw k. [253, 1, 2, 9] = used @ [9]
    \<and> deser_varlen_file [253, 1, 2, 9] (replicate 8 0) 8 = Some (Some (513, [9], raw, k))
    \<and> length raw = length (replicate 8 (0 :: u8)) \<and> k = (if hd [253, 1, 2, 9 :: u8] = 255 then 5 else length used)
    \<and> take k raw = take k used"
  by (rule deser_varlen_file_rawdata)
    (simp_all add: deser_varlen_def deser_u16_def deser_bytes_def le_word_def)

end
