(* ===== verification/Script.thy ===== *)
theory Script
  imports Serialize
begin

text \<open>
  Scripts, \<open>src/script.c\<close> of libdogecoin: splitting a script into operations, recognising the standard
  output scripts, and building them. A script that is read is its contents, a script that is built
  is a \<open>cstring\<close>; the vector of operations is a list. A result \<open>None\<close> is a failed assertion or an
  access outside an object.
\<close>

section \<open>Opcodes\<close>

definition OP_0 :: u8 where [code_values]: "OP_0 = 0x00"
definition OP_PUSHDATA1 :: u8 where [code_values]: "OP_PUSHDATA1 = 0x4c"
definition OP_PUSHDATA2 :: u8 where [code_values]: "OP_PUSHDATA2 = 0x4d"
definition OP_PUSHDATA4 :: u8 where [code_values]: "OP_PUSHDATA4 = 0x4e"
definition OP_1 :: u8 where [code_values]: "OP_1 = 0x51"
definition OP_16 :: u8 where [code_values]: "OP_16 = 0x60"
definition OP_DUP :: u8 where [code_values]: "OP_DUP = 0x76"
definition OP_EQUAL :: u8 where [code_values]: "OP_EQUAL = 0x87"
definition OP_EQUALVERIFY :: u8 where [code_values]: "OP_EQUALVERIFY = 0x88"
definition OP_HASH160 :: u8 where [code_values]: "OP_HASH160 = 0xa9"
definition OP_CODESEPARATOR :: u8 where [code_values]: "OP_CODESEPARATOR = 0xab"
definition OP_CHECKSIG :: u8 where [code_values]: "OP_CHECKSIG = 0xac"
definition OP_CHECKMULTISIG :: u8 where [code_values]: "OP_CHECKMULTISIG = 0xae"

definition DOGECOIN_ECKEY_COMPRESSED_LENGTH :: nat
  where [code_values]: "DOGECOIN_ECKEY_COMPRESSED_LENGTH = 33"
definition DOGECOIN_ECKEY_UNCOMPRESSED_LENGTH :: nat
  where [code_values]: "DOGECOIN_ECKEY_UNCOMPRESSED_LENGTH = 65"

datatype dogecoin_tx_out_type =
    DOGECOIN_TX_INVALID | DOGECOIN_TX_NONSTANDARD | DOGECOIN_TX_PUBKEY | DOGECOIN_TX_PUBKEYHASH
  | DOGECOIN_TX_SCRIPTHASH | DOGECOIN_TX_MULTISIG

record dogecoin_script_op =
  opcode :: u8
  opdata :: "bytes option"
  datalen :: nat

section \<open>Reading a script\<close>

lemma deser_length [dest]:
  "deser_bytes n buf = Some (x, rest) \<Longrightarrow> length rest + n = length buf"
  "deser_u16 buf = Some (v, rest) \<Longrightarrow> length rest + 2 = length buf"
  "deser_u32 buf = Some (w, rest) \<Longrightarrow> length rest + 4 = length buf"
  by (auto simp: deser_u16_def deser_u32_def deser_bytes_def bind_eq_Some_conv split: if_splits)

text \<open>The length that follows a push opcode: \<open>None\<close> when the script ends before it.\<close>

definition push_length :: "u8 \<Rightarrow> bytes \<Rightarrow> (nat \<times> bytes) option" where
  "push_length op buf =
     (if op = OP_PUSHDATA1 then do { (v8, buf) \<leftarrow> deser_bytes 1 buf; Some (unat (hd v8), buf) }
      else if op = OP_PUSHDATA2 then do { (v16, buf) \<leftarrow> deser_u16 buf; Some (unat v16, buf) }
      else do { (v32, buf) \<leftarrow> deser_u32 buf; Some (unat v32, buf) })"

lemma push_length_shrinks: "push_length op buf = Some (n, rest) \<Longrightarrow> length rest < length buf"
  by (auto simp: push_length_def bind_eq_Some_conv split: if_splits dest!: deser_length)

text \<open>The loop of \<open>dogecoin_script_get_ops\<close>; the operations found so far stay in the vector.\<close>

function get_ops_loop :: "bytes \<Rightarrow> dogecoin_script_op list \<Rightarrow> bool \<times> dogecoin_script_op list" where
  "get_ops_loop [] ops = (True, ops)"
| "get_ops_loop (op # buf) ops =
     (if op > OP_PUSHDATA4
      then get_ops_loop buf (ops @ [\<lparr>opcode = op, opdata = None, datalen = 0\<rparr>])
      else
        (case (if op < OP_PUSHDATA1 then Some (unat op, buf) else push_length op buf) of
           None \<Rightarrow> (False, ops)
         | Some (data_len, rest) \<Rightarrow>
             if rest = [] \<or> data_len > length rest then (False, ops)
             else get_ops_loop (drop data_len rest)
               (ops @ [\<lparr>opcode = op, opdata = Some (take data_len rest), datalen = data_len\<rparr>])))"
  by pat_completeness auto
termination
  by (relation "measure (\<lambda>(buf, ops). length buf)")
    (auto split: if_splits dest!: push_length_shrinks)

definition dogecoin_script_get_ops :: "bytes \<Rightarrow> dogecoin_script_op list \<Rightarrow> bool \<times> dogecoin_script_op list" where
  "dogecoin_script_get_ops script_in ops_out =
     (if script_in = [] then (False, ops_out) else get_ops_loop script_in ops_out)"

section \<open>Copying without OP_CODESEPARATOR\<close>

text \<open>The push a script opcode announces: the bytes of its length, the length, and what follows.\<close>

definition push_header :: "u8 \<Rightarrow> bytes \<Rightarrow> (bytes \<times> nat \<times> bytes) option" where
  "push_header op buf =
     (if op < OP_PUSHDATA1 \<and> op > OP_0 then Some ([], unat op, buf)
      else if op = OP_PUSHDATA1 then do { (v, buf) \<leftarrow> deser_bytes 1 buf; Some (v, unat (hd v), buf) }
      else if op = OP_PUSHDATA2 then do { (v, buf) \<leftarrow> deser_bytes 2 buf; Some (v, le_nat v, buf) }
      else if op = OP_PUSHDATA4 then do { (v, buf) \<leftarrow> deser_bytes 4 buf; Some (v, le_nat v, buf) }
      else Some ([], 0, buf))"

text \<open>One turn of the loop: what is left of the script (\<open>None\<close> when the copy fails), and the copy.\<close>

definition copy_op :: "u8 \<Rightarrow> bytes \<Rightarrow> cstring \<Rightarrow> (bytes option \<times> cstring) option" where
  "copy_op op buf out =
     (case push_header op buf of
        None \<Rightarrow> Some (None, out)
      | Some (v, data_len, buf) \<Rightarrow>
          if op = OP_CODESEPARATOR then Some (Some buf, out)
          else do {
            out \<leftarrow> (if op < OP_PUSHDATA1 \<and> op > OP_0 then cstr_append_buf out (Some [op]) 1
                    else if v \<noteq> [] then do {
                      out \<leftarrow> cstr_append_buf out (Some [op]) 1;
                      cstr_append_buf out (Some v) (length v)
                    }
                    else Some out);
            (if 0 < data_len then
               (if data_len \<ge> 16777215 then None
                else (case deser_bytes data_len buf of
                        None \<Rightarrow> Some (None, out)
                      | Some (bufpush, buf) \<Rightarrow> do {
                          out \<leftarrow> cstr_append_buf out (Some bufpush) data_len;
                          Some (Some buf, out)
                        }))
             else do { out \<leftarrow> cstr_append_buf out (Some [op]) 1; Some (Some buf, out) })
          })"

lemma copy_op_shrinks: "copy_op op buf out = Some (Some rest, out') \<Longrightarrow> length rest \<le> length buf"
  by (auto simp: copy_op_def push_header_def bind_eq_Some_conv split: if_splits option.splits
      dest!: deser_length)

function copy_loop :: "bytes \<Rightarrow> cstring \<Rightarrow> (bool \<times> cstring) option" where
  "copy_loop [] out = Some (True, out)"
| "copy_loop (op # buf) out =
     (case copy_op op buf out of
        None \<Rightarrow> None
      | Some (None, out) \<Rightarrow> Some (False, out)
      | Some (Some rest, out) \<Rightarrow> copy_loop rest out)"
  by pat_completeness auto
termination
  by (relation "measure (\<lambda>(buf, out). length buf)")
    (auto dest!: copy_op_shrinks)

definition dogecoin_script_copy_without_op_codeseperator :: "bytes \<Rightarrow> cstring \<Rightarrow> (bool \<times> cstring) option" where
  "dogecoin_script_copy_without_op_codeseperator script_in script_out =
     (if script_in = [] then Some (False, script_out) else copy_loop script_in script_out)"

section \<open>Recognising scripts\<close>

definition dogecoin_pubkey_get_length :: "u8 \<Rightarrow> nat" where
  "dogecoin_pubkey_get_length ch_header =
     (if ch_header = 2 \<or> ch_header = 3 then DOGECOIN_ECKEY_COMPRESSED_LENGTH
      else if ch_header = 4 \<or> ch_header = 6 \<or> ch_header = 7 then DOGECOIN_ECKEY_UNCOMPRESSED_LENGTH
      else 0)"

definition dogecoin_script_is_pushdata :: "u8 \<Rightarrow> bool" where
  "dogecoin_script_is_pushdata op \<longleftrightarrow> op \<le> OP_PUSHDATA4"

definition dogecoin_script_is_op :: "dogecoin_script_op \<Rightarrow> u8 \<Rightarrow> bool" where
  "dogecoin_script_is_op op c \<longleftrightarrow> opcode op = c"

definition dogecoin_script_is_op_pubkey :: "dogecoin_script_op \<Rightarrow> bool" where
  "dogecoin_script_is_op_pubkey op =
     (if \<not> dogecoin_script_is_pushdata (opcode op) then False
      else if datalen op \<noteq> DOGECOIN_ECKEY_COMPRESSED_LENGTH
              \<and> datalen op \<noteq> DOGECOIN_ECKEY_UNCOMPRESSED_LENGTH then False
      else (case opdata op of
              None \<Rightarrow> False
            | Some d \<Rightarrow> dogecoin_pubkey_get_length (hd d) = datalen op))"

definition dogecoin_script_is_op_pubkeyhash :: "dogecoin_script_op \<Rightarrow> bool" where
  "dogecoin_script_is_op_pubkeyhash op \<longleftrightarrow> dogecoin_script_is_pushdata (opcode op) \<and> datalen op = 20"

text \<open>The data a recogniser copies to \<open>data_out\<close>, if it was given a vector.\<close>

definition copy_out :: "dogecoin_script_op \<Rightarrow> nat \<Rightarrow> bytes list option \<Rightarrow> bytes list option" where
  "copy_out op n data_out =
     map_option (\<lambda>out. out @ [take n (case opdata op of None \<Rightarrow> [] | Some d \<Rightarrow> d)]) data_out"

definition dogecoin_script_is_pubkey ::
    "dogecoin_script_op list \<Rightarrow> bytes list option \<Rightarrow> bool \<times> bytes list option" where
  "dogecoin_script_is_pubkey ops data_out =
     (if length ops = 2 \<and> dogecoin_script_is_op (ops ! 1) OP_CHECKSIG
         \<and> dogecoin_script_is_op_pubkey (ops ! 0)
      then (True, copy_out (ops ! 0) (datalen (ops ! 0)) data_out)
      else (False, data_out))"

definition dogecoin_script_is_pubkeyhash ::
    "dogecoin_script_op list \<Rightarrow> bytes list option \<Rightarrow> bool \<times> bytes list option" where
  "dogecoin_script_is_pubkeyhash ops data_out =
     (if length ops = 5 \<and> dogecoin_script_is_op (ops ! 0) OP_DUP
         \<and> dogecoin_script_is_op (ops ! 1) OP_HASH160
         \<and> dogecoin_script_is_op_pubkeyhash (ops ! 2)
         \<and> dogecoin_script_is_op (ops ! 3) OP_EQUALVERIFY
         \<and> dogecoin_script_is_op (ops ! 4) OP_CHECKSIG
      then (True, copy_out (ops ! 2) 20 data_out)
      else (False, data_out))"

definition dogecoin_script_is_scripthash ::
    "dogecoin_script_op list \<Rightarrow> bytes list option \<Rightarrow> bool \<times> bytes list option" where
  "dogecoin_script_is_scripthash ops data_out =
     (if length ops = 3 \<and> dogecoin_script_is_op (ops ! 0) OP_HASH160
         \<and> dogecoin_script_is_op_pubkeyhash (ops ! 1)
         \<and> dogecoin_script_is_op (ops ! 2) OP_EQUAL
      then (True, copy_out (ops ! 1) 20 data_out)
      else (False, data_out))"

definition dogecoin_script_is_op_smallint :: "dogecoin_script_op \<Rightarrow> bool" where
  "dogecoin_script_is_op_smallint op \<longleftrightarrow>
     opcode op = OP_0 \<or> opcode op \<ge> OP_1 \<and> opcode op \<le> OP_16"

definition dogecoin_script_is_multisig :: "dogecoin_script_op list \<Rightarrow> bool" where
  "dogecoin_script_is_multisig ops =
     (if length ops < 3 \<or> length ops > 16 + 3
         \<or> \<not> dogecoin_script_is_op_smallint (ops ! 0)
         \<or> \<not> dogecoin_script_is_op_smallint (ops ! (length ops - 2))
         \<or> \<not> dogecoin_script_is_op (ops ! (length ops - 1)) OP_CHECKMULTISIG
      then False
      else list_all (\<lambda>i. dogecoin_script_is_op_pubkey (ops ! i)) [1..<length ops - 2])"

definition dogecoin_script_classify_ops :: "dogecoin_script_op list \<Rightarrow> dogecoin_tx_out_type" where
  "dogecoin_script_classify_ops ops =
     (if fst (dogecoin_script_is_pubkeyhash ops None) then DOGECOIN_TX_PUBKEYHASH
      else if fst (dogecoin_script_is_scripthash ops None) then DOGECOIN_TX_SCRIPTHASH
      else if fst (dogecoin_script_is_pubkey ops None) then DOGECOIN_TX_PUBKEY
      else if dogecoin_script_is_multisig ops then DOGECOIN_TX_MULTISIG
      else DOGECOIN_TX_NONSTANDARD)"

definition dogecoin_script_classify ::
    "bytes \<Rightarrow> bytes list option \<Rightarrow> dogecoin_tx_out_type \<times> bytes list option" where
  "dogecoin_script_classify script data_out =
     (let ops = snd (dogecoin_script_get_ops script []);
          t = DOGECOIN_TX_NONSTANDARD;
          (r, data_out) = dogecoin_script_is_pubkeyhash ops data_out;
          t = (if r then DOGECOIN_TX_PUBKEYHASH else t);
          (r, data_out) = dogecoin_script_is_scripthash ops data_out;
          t = (if r then DOGECOIN_TX_SCRIPTHASH else t);
          (r, data_out) = dogecoin_script_is_pubkey ops data_out;
          t = (if r then DOGECOIN_TX_PUBKEY else t);
          t = (if dogecoin_script_is_multisig ops then DOGECOIN_TX_MULTISIG else t)
      in (t, data_out))"

fun dogecoin_tx_out_type_to_str :: "dogecoin_tx_out_type \<Rightarrow> string" where
  "dogecoin_tx_out_type_to_str DOGECOIN_TX_PUBKEY = ''TX_PUBKEY''"
| "dogecoin_tx_out_type_to_str DOGECOIN_TX_PUBKEYHASH = ''TX_PUBKEYHASH''"
| "dogecoin_tx_out_type_to_str DOGECOIN_TX_SCRIPTHASH = ''TX_SCRIPTHASH''"
| "dogecoin_tx_out_type_to_str DOGECOIN_TX_MULTISIG = ''TX_MULTISIG''"
| "dogecoin_tx_out_type_to_str _ = ''TX_NONSTANDARD''"

section \<open>Building scripts\<close>

definition dogecoin_encode_op_n :: "int \<Rightarrow> u8 option" where
  "dogecoin_encode_op_n n =
     (if n < 0 \<or> n > 16 then None
      else if n = 0 then Some OP_0
      else Some (OP_1 + word_of_int n - 1))"

definition dogecoin_script_append_op :: "cstring \<Rightarrow> u8 \<Rightarrow> cstring option" where
  "dogecoin_script_append_op script_in op = cstr_append_buf script_in (Some [op]) 1"

definition dogecoin_script_append_pushdata :: "cstring \<Rightarrow> bytes \<Rightarrow> nat \<Rightarrow> cstring option" where
  "dogecoin_script_append_pushdata script_in d n = do {
     s \<leftarrow> (if n < unat OP_PUSHDATA1 then cstr_append_buf script_in (Some [of_nat n]) 1
          else if n \<le> 0xff then do {
            s \<leftarrow> dogecoin_script_append_op script_in OP_PUSHDATA1;
            cstr_append_buf s (Some [of_nat n]) 1
          }
          else if n \<le> 0xffff then do {
            s \<leftarrow> dogecoin_script_append_op script_in OP_PUSHDATA2;
            cstr_append_buf s (Some (le_bytes 2 n)) 2
          }
          else do {
            s \<leftarrow> dogecoin_script_append_op script_in OP_PUSHDATA4;
            cstr_append_buf s (Some (le_bytes 4 n)) 4
          });
     cstr_append_buf s (Some d) n
   }"

record dogecoin_pubkey =
  compressed :: bool
  pubkey :: bytes

fun push_pubkeys :: "dogecoin_pubkey list \<Rightarrow> cstring \<Rightarrow> cstring option" where
  "push_pubkeys [] s = Some s"
| "push_pubkeys (k # ks) s = do {
     s \<leftarrow> dogecoin_script_append_pushdata s (pubkey k)
       (if compressed k then DOGECOIN_ECKEY_COMPRESSED_LENGTH else DOGECOIN_ECKEY_UNCOMPRESSED_LENGTH);
     push_pubkeys ks s
   }"

definition dogecoin_script_build_multisig ::
    "cstring \<Rightarrow> nat \<Rightarrow> dogecoin_pubkey list \<Rightarrow> (bool \<times> cstring) option" where
  "dogecoin_script_build_multisig script_in required_signatures pubkeys_chars = do {
     s \<leftarrow> cstr_resize script_in 0;
     (if required_signatures > 16 \<or> length pubkeys_chars > 16 then Some (False, s)
      else do {
        op_req_sig \<leftarrow> dogecoin_encode_op_n (int required_signatures);
        s \<leftarrow> cstr_append_buf s (Some [op_req_sig]) 1;
        s \<leftarrow> push_pubkeys pubkeys_chars s;
        op_pub_len \<leftarrow> dogecoin_encode_op_n (int (length pubkeys_chars));
        s \<leftarrow> cstr_append_buf s (Some [op_pub_len]) 1;
        s \<leftarrow> cstr_append_buf s (Some [OP_CHECKMULTISIG]) 1;
        Some (True, s)
      })
   }"

definition dogecoin_script_build_p2pkh :: "cstring \<Rightarrow> bytes \<Rightarrow> cstring option" where
  "dogecoin_script_build_p2pkh script_in hash160 = do {
     s \<leftarrow> cstr_resize script_in 0;
     s \<leftarrow> dogecoin_script_append_op s OP_DUP;
     s \<leftarrow> dogecoin_script_append_op s OP_HASH160;
     s \<leftarrow> dogecoin_script_append_pushdata s hash160 20;
     s \<leftarrow> dogecoin_script_append_op s OP_EQUALVERIFY;
     dogecoin_script_append_op s OP_CHECKSIG
   }"

definition dogecoin_script_build_p2sh :: "cstring \<Rightarrow> bytes \<Rightarrow> cstring option" where
  "dogecoin_script_build_p2sh script_in hash160 = do {
     s \<leftarrow> cstr_resize script_in 0;
     s \<leftarrow> dogecoin_script_append_op s OP_HASH160;
     s \<leftarrow> dogecoin_script_append_pushdata s hash160 20;
     dogecoin_script_append_op s OP_EQUAL
   }"

section \<open>Scripts as lists of items\<close>

text \<open>What a script means: pushes of data, and other operations.\<close>

datatype script_item = Push bytes | Op u8

fun item_ok :: "script_item \<Rightarrow> bool" where
  "item_ok (Push d) = (length d < 4294967296)"
| "item_ok (Op c) = (c > OP_PUSHDATA4)"

text \<open>The shortest encoding of a push is the one \<open>dogecoin_script_append_pushdata\<close> writes.\<close>

definition push_opcode :: "nat \<Rightarrow> u8" where
  "push_opcode n = (if n < 76 then of_nat n else if n < 256 then OP_PUSHDATA1
     else if n < 65536 then OP_PUSHDATA2 else OP_PUSHDATA4)"

definition push_size :: "nat \<Rightarrow> bytes" where
  "push_size n = (if n < 76 then [] else if n < 256 then [of_nat n]
     else if n < 65536 then le_bytes 2 n else le_bytes 4 n)"

fun item_bytes :: "script_item \<Rightarrow> bytes" where
  "item_bytes (Push d) = push_opcode (length d) # push_size (length d) @ d"
| "item_bytes (Op c) = [c]"

fun item_op :: "script_item \<Rightarrow> dogecoin_script_op" where
  "item_op (Push d) = \<lparr>opcode = push_opcode (length d), opdata = Some d, datalen = length d\<rparr>"
| "item_op (Op c) = \<lparr>opcode = c, opdata = None, datalen = 0\<rparr>"

lemma push_opcode_le: "push_opcode n \<le> OP_PUSHDATA4"
  by (auto simp: push_opcode_def code_values word_le_nat_alt unat_of_nat)

lemma push_header_item:
  assumes "length d < 4294967296"
  shows "(if push_opcode (length d) < OP_PUSHDATA1
          then Some (unat (push_opcode (length d)), push_size (length d) @ rest)
          else push_length (push_opcode (length d)) (push_size (length d) @ rest))
       = Some (length d, rest)"
proof -
  let ?n = "length d"
  have lt: "(of_nat ?n :: u8) < 76" "unat (of_nat ?n :: u8) = ?n" if "?n < 76"
    using that by (simp_all add: word_less_nat_alt unat_of_nat)
  have u8: "unat (of_nat ?n :: u8) = ?n" if "?n < 256" using that by (simp add: unat_of_nat)
  have u16: "deser_u16 (le_bytes 2 ?n @ r) = Some (of_nat ?n, r)" "unat (of_nat ?n :: u16) = ?n"
    if "?n < 65536" for r
  proof -
    show "unat (of_nat ?n :: u16) = ?n" using that by (simp add: unat_of_nat)
    then show "deser_u16 (le_bytes 2 ?n @ r) = Some (of_nat ?n, r)"
      using deser_ints(1) [of "of_nat ?n" r] by simp
  qed
  have u32: "deser_u32 (le_bytes 4 ?n @ r) = Some (of_nat ?n, r)" "unat (of_nat ?n :: u32) = ?n" for r
  proof -
    show "unat (of_nat ?n :: u32) = ?n" using assms by (simp add: unat_of_nat)
    then show "deser_u32 (le_bytes 4 ?n @ r) = Some (of_nat ?n, r)"
      using deser_ints(2) [of "of_nat ?n" r] by simp
  qed
  consider "?n < 76" | "76 \<le> ?n" "?n < 256" | "256 \<le> ?n" "?n < 65536" | "65536 \<le> ?n" by linarith
  then show ?thesis
    by cases (simp_all add: push_opcode_def push_size_def push_length_def code_values lt u8 u16 u32
        del: le_bytes_numeral)
qed

lemma get_ops_items:
  assumes "\<forall>x\<in>set items. item_ok x" "items \<noteq> [] \<Longrightarrow> last items \<noteq> Push []"
  shows "get_ops_loop (concat (map item_bytes items)) ops = (True, ops @ map item_op items)"
  using assms
proof (induction items arbitrary: ops)
  case Nil
  then show ?case by simp
next
  case (Cons x items)
  then have IH: "get_ops_loop (concat (map item_bytes items)) ops' = (True, ops' @ map item_op items)"
    for ops' by (cases items) auto
  show ?case
  proof (cases x)
    case (Op c)
    with Cons.prems(1) IH show ?thesis by simp
  next
    case (Push d)
    let ?tail = "concat (map item_bytes items)"
    have ne: "d @ ?tail \<noteq> []"
      using Cons.prems(2) Push by (cases items; cases "hd items") auto
    have "\<not> push_opcode (length d) > OP_PUSHDATA4" using push_opcode_le by (simp add: not_less)
    with Push Cons.prems(1) push_header_item [of d "d @ ?tail"] ne IH show ?thesis
      by (simp del: append_is_Nil_conv)
  qed
qed

section \<open>What the builders append\<close>

lemma append_op_appends [appending]:
  "sink.appends (\<lambda>s. dogecoin_script_append_op s c) (item_bytes (Op c))"
  by (simp add: dogecoin_script_append_op_def appends_buf)

lemma append_pushdata_appends [appending]:
  assumes "n = length d" "n < 4294967296"
  shows "sink.appends (\<lambda>s. dogecoin_script_append_pushdata s d n) (item_bytes (Push d))"
proof -
  let ?n = "length d"
  have header: "sink.appends (\<lambda>s. if ?n < unat OP_PUSHDATA1 then cstr_append_buf s (Some [of_nat ?n]) 1
          else if ?n \<le> 0xff then do {
            s \<leftarrow> dogecoin_script_append_op s OP_PUSHDATA1;
            cstr_append_buf s (Some [of_nat ?n]) 1
          }
          else if ?n \<le> 0xffff then do {
            s \<leftarrow> dogecoin_script_append_op s OP_PUSHDATA2;
            cstr_append_buf s (Some (le_bytes 2 ?n)) 2
          }
          else do {
            s \<leftarrow> dogecoin_script_append_op s OP_PUSHDATA4;
            cstr_append_buf s (Some (le_bytes 4 ?n)) 4
          }) (push_opcode ?n # push_size ?n)"
  proof -
    consider "?n < 76" | "76 \<le> ?n" "?n < 256" | "256 \<le> ?n" "?n < 65536" | "65536 \<le> ?n" by linarith
    then show ?thesis
    proof cases
      case 1
      then show ?thesis
        using appends_buf [of 1 "[of_nat ?n]"] by (simp add: push_opcode_def push_size_def code_values)
    next
      case 2
      then have "push_opcode ?n # push_size ?n = item_bytes (Op OP_PUSHDATA1) @ [of_nat ?n]"
        by (simp add: push_opcode_def push_size_def)
      with 2 show ?thesis
        by (simp add: OP_PUSHDATA1_def del: item_bytes.simps)
          (intro sink.appends_bind [OF append_op_appends appends_buf], simp_all add: OP_PUSHDATA1_def)
    next
      case 3
      then have "push_opcode ?n # push_size ?n = item_bytes (Op OP_PUSHDATA2) @ le_bytes 2 ?n"
        by (simp add: push_opcode_def push_size_def)
      with 3 show ?thesis
        by (simp add: OP_PUSHDATA1_def del: item_bytes.simps le_bytes_numeral)
          (intro sink.appends_bind [OF append_op_appends appends_buf], simp_all del: le_bytes_numeral)
    next
      case 4
      then have "push_opcode ?n # push_size ?n = item_bytes (Op OP_PUSHDATA4) @ le_bytes 4 ?n"
        by (simp add: push_opcode_def push_size_def)
      with 4 show ?thesis
        by (simp add: OP_PUSHDATA1_def del: item_bytes.simps le_bytes_numeral)
          (intro sink.appends_bind [OF append_op_appends appends_buf], simp_all del: le_bytes_numeral)
    qed
  qed
  have "item_bytes (Push d) = (push_opcode ?n # push_size ?n) @ d" by simp
  then show ?thesis
    unfolding dogecoin_script_append_pushdata_def assms(1)
    by (intro sink.appends_bind [OF header appends_buf]) simp_all
qed

text \<open>Appending a list of items.\<close>

fun append_item :: "script_item \<Rightarrow> cstring \<Rightarrow> cstring option" where
  "append_item (Push d) s = dogecoin_script_append_pushdata s d (length d)"
| "append_item (Op c) s = dogecoin_script_append_op s c"

lemma append_item_appends [appending]: "item_ok x \<Longrightarrow> sink.appends (append_item x) (item_bytes x)"
proof (cases x)
  case (Push d)
  then have "append_item x = (\<lambda>s. dogecoin_script_append_pushdata s d (length d))" by (simp add: fun_eq_iff)
  moreover assume "item_ok x"
  ultimately show ?thesis using append_pushdata_appends [of "length d" d] Push by simp
next
  case (Op c)
  then have "append_item x = (\<lambda>s. dogecoin_script_append_op s c)" by (simp add: fun_eq_iff)
  then show ?thesis using append_op_appends [of c] Op by simp
qed

lemma append_items_appends:
  "\<forall>x\<in>set items. item_ok x \<Longrightarrow> sink.appends (sink.put_all append_item items) (concat (map item_bytes items))"
  by (intro sink.appends_all append_item_appends) simp

definition p2pkh_items :: "bytes \<Rightarrow> script_item list" where
  "p2pkh_items h = [Op OP_DUP, Op OP_HASH160, Push h, Op OP_EQUALVERIFY, Op OP_CHECKSIG]"

definition p2sh_items :: "bytes \<Rightarrow> script_item list" where
  "p2sh_items h = [Op OP_HASH160, Push h, Op OP_EQUAL]"

lemma build_items:
  assumes "cstr_holds s bs" "\<forall>x\<in>set items. item_ok x" "length (concat (map item_bytes items)) < 2 ^ 30"
  shows "\<exists>s'. do { s \<leftarrow> cstr_resize s 0; sink.put_all append_item items s } = Some s'
    \<and> cstr_holds s' (concat (map item_bytes items))"
proof -
  obtain t where t: "cstr_resize s 0 = Some t" "cstr_holds t []"
    using cstr_clear [OF assms(1)] by blast
  then show ?thesis
    using sink.appendsD [OF append_items_appends [OF assms(2)] t(2)] assms(3) by simp
qed

lemma build_p2pkh_items:
  "length h = 20 \<Longrightarrow> dogecoin_script_build_p2pkh s h =
     do { s \<leftarrow> cstr_resize s 0; sink.put_all append_item (p2pkh_items h) s }"
  by (auto simp: dogecoin_script_build_p2pkh_def p2pkh_items_def split: Option.bind_splits)

lemma build_p2sh_items:
  "length h = 20 \<Longrightarrow> dogecoin_script_build_p2sh s h =
     do { s \<leftarrow> cstr_resize s 0; sink.put_all append_item (p2sh_items h) s }"
  by (auto simp: dogecoin_script_build_p2sh_def p2sh_items_def split: Option.bind_splits)

lemma get_ops_script:
  assumes "\<forall>x\<in>set items. item_ok x" "items \<noteq> []" "last items \<noteq> Push []"
  shows "dogecoin_script_get_ops (concat (map item_bytes items)) ops = (True, ops @ map item_op items)"
proof -
  have "item_bytes x \<noteq> []" for x by (cases x) simp_all
  with assms(2) have "concat (map item_bytes items) \<noteq> []" by (cases items) auto
  with get_ops_items [OF assms(1,3)] show ?thesis by (simp add: dogecoin_script_get_ops_def)
qed

lemma p2pkh_items_ok: "length h = 20 \<Longrightarrow> \<forall>x\<in>set (p2pkh_items h). item_ok x"
  by (simp add: p2pkh_items_def code_values)

lemma p2sh_items_ok: "length h = 20 \<Longrightarrow> \<forall>x\<in>set (p2sh_items h). item_ok x"
  by (simp add: p2sh_items_def code_values)

lemmas classify_defs = dogecoin_script_is_pubkeyhash_def dogecoin_script_is_scripthash_def
  dogecoin_script_is_pubkey_def dogecoin_script_is_multisig_def dogecoin_script_is_op_def
  dogecoin_script_is_op_pubkeyhash_def dogecoin_script_is_op_pubkey_def
  dogecoin_script_is_op_smallint_def dogecoin_script_is_pushdata_def copy_out_def

definition p2pkh_script :: "bytes \<Rightarrow> bytes" where
  "p2pkh_script h = concat (map item_bytes (p2pkh_items h))"

definition p2sh_script :: "bytes \<Rightarrow> bytes" where
  "p2sh_script h = concat (map item_bytes (p2sh_items h))"

lemma p2pkh_script_length: "length h = 20 \<Longrightarrow> length (p2pkh_script h) = 25"
  by (simp add: p2pkh_script_def p2pkh_items_def push_opcode_def push_size_def)

lemma p2sh_script_length: "length h = 20 \<Longrightarrow> length (p2sh_script h) = 23"
  by (simp add: p2sh_script_def p2sh_items_def push_opcode_def push_size_def)

lemma build_p2pkh_holds:
  assumes "cstr_holds s bs" "length h = 20"
  shows "\<exists>s'. dogecoin_script_build_p2pkh s h = Some s' \<and> cstr_holds s' (p2pkh_script h)"
  using build_items [OF assms(1) p2pkh_items_ok [OF assms(2)]] build_p2pkh_items [OF assms(2)]
    p2pkh_script_length [OF assms(2)] by (auto simp: p2pkh_script_def)

lemma build_p2sh_holds:
  assumes "cstr_holds s bs" "length h = 20"
  shows "\<exists>s'. dogecoin_script_build_p2sh s h = Some s' \<and> cstr_holds s' (p2sh_script h)"
  using build_items [OF assms(1) p2sh_items_ok [OF assms(2)]] build_p2sh_items [OF assms(2)]
    p2sh_script_length [OF assms(2)] by (auto simp: p2sh_script_def)

lemma p2pkh_classified:
  assumes "length h = 20"
  shows "dogecoin_script_classify (p2pkh_script h) (Some []) = (DOGECOIN_TX_PUBKEYHASH, Some [h])"
proof -
  have "dogecoin_script_get_ops (p2pkh_script h) [] = (True, map item_op (p2pkh_items h))"
    using get_ops_script [OF p2pkh_items_ok [OF assms]] by (simp add: p2pkh_items_def p2pkh_script_def)
  then show ?thesis
    using assms push_opcode_le [of 20]
    by (simp add: dogecoin_script_classify_def p2pkh_items_def classify_defs code_values)
qed

lemma p2sh_classified:
  assumes "length h = 20"
  shows "dogecoin_script_classify (p2sh_script h) (Some []) = (DOGECOIN_TX_SCRIPTHASH, Some [h])"
proof -
  have "dogecoin_script_get_ops (p2sh_script h) [] = (True, map item_op (p2sh_items h))"
    using get_ops_script [OF p2sh_items_ok [OF assms]] by (simp add: p2sh_items_def p2sh_script_def)
  then show ?thesis
    using assms push_opcode_le [of 20]
    by (simp add: dogecoin_script_classify_def p2sh_items_def classify_defs code_values)
qed

text \<open>
  A pay-to-public-key-hash script is recognised. For every 20-byte hash, \<open>dogecoin_script_build_p2pkh\<close>
  replaces the contents of a string by a script that \<open>dogecoin_script_classify\<close> calls
  \<open>TX_PUBKEYHASH\<close> and from which it extracts exactly that hash.
\<close>

theorem p2pkh_recognised:
  assumes "cstr_holds s bs" "length h = 20"
  shows "\<exists>s' script. dogecoin_script_build_p2pkh s h = Some s' \<and> cstr_holds s' script
    \<and> length script = 25 \<and> dogecoin_script_classify script (Some []) = (DOGECOIN_TX_PUBKEYHASH, Some [h])"
  using build_p2pkh_holds [OF assms] p2pkh_script_length [OF assms(2)] p2pkh_classified [OF assms(2)] by blast

lemma p2pkh_recognised_witness:
  "\<exists>s' script. dogecoin_script_build_p2pkh empty_string (replicate 20 7) = Some s' \<and> cstr_holds s' script
    \<and> length script = 25
    \<and> dogecoin_script_classify script (Some []) = (DOGECOIN_TX_PUBKEYHASH, Some [replicate 20 7])"
  by (rule p2pkh_recognised [OF empty_string_holds]) simp

text \<open>
  A pay-to-script-hash script is recognised, in the same way, as \<open>TX_SCRIPTHASH\<close> with its hash.
\<close>

theorem p2sh_recognised:
  assumes "cstr_holds s bs" "length h = 20"
  shows "\<exists>s' script. dogecoin_script_build_p2sh s h = Some s' \<and> cstr_holds s' script
    \<and> length script = 23 \<and> dogecoin_script_classify script (Some []) = (DOGECOIN_TX_SCRIPTHASH, Some [h])"
  using build_p2sh_holds [OF assms] p2sh_script_length [OF assms(2)] p2sh_classified [OF assms(2)] by blast

lemma p2sh_recognised_witness:
  "\<exists>s' script. dogecoin_script_build_p2sh empty_string (replicate 20 7) = Some s' \<and> cstr_holds s' script
    \<and> length script = 23
    \<and> dogecoin_script_classify script (Some []) = (DOGECOIN_TX_SCRIPTHASH, Some [replicate 20 7])"
  by (rule p2sh_recognised [OF empty_string_holds]) simp

section \<open>Multisig\<close>

definition key_bytes :: "dogecoin_pubkey \<Rightarrow> bytes" where
  "key_bytes k = take (if compressed k then 33 else 65) (pubkey k)"

text \<open>A key as libdogecoin holds it: its array has 65 bytes, and its first byte tells its length.\<close>

definition key_ok :: "dogecoin_pubkey \<Rightarrow> bool" where
  "key_ok k \<longleftrightarrow> length (pubkey k) = 65
     \<and> dogecoin_pubkey_get_length (hd (pubkey k)) = (if compressed k then 33 else 65)"

definition multisig_items :: "nat \<Rightarrow> dogecoin_pubkey list \<Rightarrow> script_item list" where
  "multisig_items m ks =
     [if m = 0 then Push [] else Op (0x50 + of_nat m)] @ map (\<lambda>k. Push (key_bytes k)) ks
     @ [if ks = [] then Push [] else Op (0x50 + of_nat (length ks)), Op OP_CHECKMULTISIG]"

lemma encode_op_n: "n \<le> 16 \<Longrightarrow> dogecoin_encode_op_n (int n) = Some (if n = 0 then 0 else 0x50 + of_nat n)"
  by (simp add: dogecoin_encode_op_n_def code_values)

lemma small_op:
  assumes "0 < n" "n \<le> 16"
  shows "item_ok (Op (0x50 + of_nat n))" "0x50 + of_nat n \<ge> OP_1" "0x50 + of_nat n \<le> OP_16"
proof -
  have "unat (0x50 + of_nat n :: u8) = 80 + n"
    using assms by (simp add: unat_word_ariths unat_of_nat)
  with assms show "item_ok (Op (0x50 + of_nat n))" "0x50 + of_nat n \<ge> OP_1" "0x50 + of_nat n \<le> OP_16"
    by (simp_all add: code_values word_le_nat_alt word_less_nat_alt)
qed

lemma key_push:
  assumes "key_ok k"
  shows "item_ok (Push (key_bytes k))"
    and "sink.appends (\<lambda>s. dogecoin_script_append_pushdata s (pubkey k)
       (if compressed k then DOGECOIN_ECKEY_COMPRESSED_LENGTH else DOGECOIN_ECKEY_UNCOMPRESSED_LENGTH))
       (item_bytes (Push (key_bytes k)))"
    and "dogecoin_script_is_op_pubkey (item_op (Push (key_bytes k)))"
proof -
  let ?n = "if compressed k then 33 else 65 :: nat"
  have len: "length (pubkey k) = 65" "length (key_bytes k) = ?n"
    using assms by (simp_all add: key_ok_def key_bytes_def)
  show "item_ok (Push (key_bytes k))" by (simp add: len)
  have "cstr_append_buf s (Some (pubkey k)) ?n = cstr_append_buf s (Some (key_bytes k)) ?n" for s
    using len by (simp add: cstr_append_buf_def memcpy_safe_def mem_read_def key_bytes_def)
  then have "dogecoin_script_append_pushdata s (pubkey k) ?n
      = dogecoin_script_append_pushdata s (key_bytes k) ?n" for s
    by (simp add: dogecoin_script_append_pushdata_def)
  moreover have "sink.appends (\<lambda>s. dogecoin_script_append_pushdata s (key_bytes k) ?n)
      (item_bytes (Push (key_bytes k)))"
    using len by (intro append_pushdata_appends) simp_all
  ultimately show "sink.appends (\<lambda>s. dogecoin_script_append_pushdata s (pubkey k)
       (if compressed k then DOGECOIN_ECKEY_COMPRESSED_LENGTH else DOGECOIN_ECKEY_UNCOMPRESSED_LENGTH))
       (item_bytes (Push (key_bytes k)))"
    unfolding code_values by (simp only:)
  have "hd (key_bytes k) = hd (pubkey k)" by (simp add: key_bytes_def hd_take)
  with assms len push_opcode_le [of ?n]
  show "dogecoin_script_is_op_pubkey (item_op (Push (key_bytes k)))"
    by (simp add: classify_defs key_ok_def code_values)
qed

lemma push_pubkeys_appends:
  "\<forall>k\<in>set ks. key_ok k \<Longrightarrow>
   sink.appends (push_pubkeys ks) (concat (map item_bytes (map (\<lambda>k. Push (key_bytes k)) ks)))"
proof (induction ks)
  case Nil
  then show ?case by (simp add: sink.appends_def)
next
  case (Cons k ks)
  have "sink.appends (\<lambda>s. Option.bind (dogecoin_script_append_pushdata s (pubkey k)
       (if compressed k then DOGECOIN_ECKEY_COMPRESSED_LENGTH else DOGECOIN_ECKEY_UNCOMPRESSED_LENGTH))
       (push_pubkeys ks)) (item_bytes (Push (key_bytes k))
         @ concat (map item_bytes (map (\<lambda>k. Push (key_bytes k)) ks)))"
    using Cons by (intro sink.appends_bind [OF key_push(2) Cons.IH]) simp_all
  then show ?case by simp
qed

lemma multisig_items_ok:
  assumes "m \<le> 16" "length ks \<le> 16" "\<forall>k\<in>set ks. key_ok k"
  shows "\<forall>x\<in>set (multisig_items m ks). item_ok x" "last (multisig_items m ks) = Op OP_CHECKMULTISIG"
proof -
  have "item_ok (Op OP_CHECKMULTISIG)" by (simp add: code_values)
  then show "\<forall>x\<in>set (multisig_items m ks). item_ok x"
    using small_op(1) [of m] small_op(1) [of "length ks"] key_push(1) assms
    by (auto simp: multisig_items_def simp del: item_ok.simps(2))
  show "last (multisig_items m ks) = Op OP_CHECKMULTISIG" by (simp add: multisig_items_def)
qed

lemma number_item: "n \<le> 16 \<Longrightarrow>
    item_bytes (if n = 0 then Push [] else Op (0x50 + of_nat n)) = [if n = 0 then 0 else 0x50 + of_nat n]"
  by (simp add: push_opcode_def push_size_def)

lemma build_multisig_ok:
  assumes "cstr_holds s bs" "m \<le> 16" "length ks \<le> 16" "\<forall>k\<in>set ks. key_ok k"
  shows "\<exists>s'. dogecoin_script_build_multisig s m ks = Some (True, s')
    \<and> cstr_holds s' (concat (map item_bytes (multisig_items m ks)))"
proof -
  obtain t where t: "cstr_resize s 0 = Some t" "cstr_holds t []"
    using cstr_clear [OF assms(1)] by blast
  let ?m = "if m = 0 then 0 else 0x50 + of_nat m :: u8"
  let ?n = "if length ks = 0 then 0 else 0x50 + of_nat (length ks) :: u8"
  let ?keys = "concat (map item_bytes (map (\<lambda>k. Push (key_bytes k)) ks))"
  have len: "length ?keys \<le> 66 * length ks"
    using assms(4)
    by (induction ks) (auto simp: key_bytes_def key_ok_def push_size_def)
  let ?f = "\<lambda>s. do {
        s \<leftarrow> cstr_append_buf s (Some [?m]) 1;
        s \<leftarrow> push_pubkeys ks s;
        s \<leftarrow> cstr_append_buf s (Some [?n]) 1;
        cstr_append_buf s (Some [OP_CHECKMULTISIG]) 1
      }"
  have "sink.appends ?f ([?m] @ ?keys @ [?n] @ [OP_CHECKMULTISIG])"
    by (intro sink.appends_comp appends_buf push_pubkeys_appends [OF assms(4)]) simp_all
  moreover have "[?m] @ ?keys @ [?n] @ [OP_CHECKMULTISIG] = concat (map item_bytes (multisig_items m ks))"
    using number_item [OF assms(2)] number_item [OF assms(3)]
    by (simp add: multisig_items_def length_0_conv [symmetric] del: length_0_conv)
  moreover have "length ([?m] @ ?keys @ [?n] @ [OP_CHECKMULTISIG]) < 1073741824"
    using len assms(3) by simp
  ultimately obtain s' where "?f t = Some s'" "cstr_holds s' (concat (map item_bytes (multisig_items m ks)))"
    using sink.appendsD [OF _ t(2), of ?f] by (metis append_Nil list.size(3) plus_nat.add_0)
  with t(1) encode_op_n [OF assms(2)] encode_op_n [OF assms(3)] assms(2,3)
  show ?thesis
    by (auto simp: dogecoin_script_build_multisig_def bind_eq_Some_conv)
qed

lemma multisig_classified:
  assumes "m \<le> 16" "length ks \<le> 16" "\<forall>k\<in>set ks. key_ok k"
  shows "dogecoin_script_is_multisig (map item_op (multisig_items m ks))"
proof -
  let ?x = "item_op (if m = 0 then Push [] else Op (0x50 + of_nat m))"
  let ?y = "item_op (if ks = [] then Push [] else Op (0x50 + of_nat (length ks)))"
  let ?keys = "map (\<lambda>k. item_op (Push (key_bytes k))) ks"
  let ?ops = "?x # ?keys @ [?y, item_op (Op OP_CHECKMULTISIG)]"
  have ops: "map item_op (multisig_items m ks) = ?ops" by (simp add: multisig_items_def)
  have small: "dogecoin_script_is_op_smallint ?x" "dogecoin_script_is_op_smallint ?y"
    using small_op(2,3) [of m] small_op(2,3) [of "length ks"] assms(1,2)
    by (simp_all add: dogecoin_script_is_op_smallint_def push_opcode_def OP_0_def)
  have len: "length ?ops = length ks + 3" by simp
  have ends: "?ops ! 0 = ?x" "?ops ! (length ks + 1) = ?y" "?ops ! (length ks + 2) = item_op (Op OP_CHECKMULTISIG)"
    by (simp_all add: nth_append)
  have "dogecoin_script_is_op_pubkey (?ops ! i)" if i: "i \<in> set [1..<length ks + 1]" for i
  proof -
    have "1 \<le> i" "i < length ks + 1" using i unfolding set_upt by simp_all
    then obtain j where "i = Suc j" "j < length ks" by (cases i) simp_all
    then show ?thesis using key_push(3) assms(3) by (simp add: nth_append)
  qed
  then have keys: "list_all (\<lambda>i. dogecoin_script_is_op_pubkey (?ops ! i)) [1..<length ks + 1]"
    unfolding list_all_iff by blast
  have idx: "length ks + 3 - 2 = length ks + 1" "length ks + 3 - 1 = length ks + 2" by simp_all
  have last: "dogecoin_script_is_op (item_op (Op OP_CHECKMULTISIG)) OP_CHECKMULTISIG"
    by (simp add: dogecoin_script_is_op_def)
  have "\<not> length ks + 3 < 3" "\<not> length ks + 3 > 16 + 3" using assms(2) by simp_all
  note facts = this small last keys
  show ?thesis
    unfolding ops dogecoin_script_is_multisig_def len idx ends
    by (simp only: facts if_False not_True_eq_False simp_thms)
qed

text \<open>A multisig script is recognised. For up to 16 required signatures and up to 16 keys, each with a
  first byte that fits its length, \<open>dogecoin_script_build_multisig\<close> replaces the contents of a string
  by a script that is split into the required number, the keys in order, their number and
  \<open>OP_CHECKMULTISIG\<close>, and that is classified as \<open>TX_MULTISIG\<close>. With more it clears the string and
  returns false.
\<close>

theorem multisig_recognised:
  assumes "cstr_holds s bs" "\<forall>k\<in>set ks. key_ok k"
  shows "if m \<le> 16 \<and> length ks \<le> 16 then
      \<exists>s' script. dogecoin_script_build_multisig s m ks = Some (True, s') \<and> cstr_holds s' script
        \<and> dogecoin_script_get_ops script [] = (True, map item_op (multisig_items m ks))
        \<and> fst (dogecoin_script_classify script (Some [])) = DOGECOIN_TX_MULTISIG
    else \<exists>s'. dogecoin_script_build_multisig s m ks = Some (False, s') \<and> cstr_holds s' []"
proof (cases "m \<le> 16 \<and> length ks \<le> 16")
  case True
  then have le: "m \<le> 16" "length ks \<le> 16" by simp_all
  let ?items = "multisig_items m ks"
  obtain s' where s': "dogecoin_script_build_multisig s m ks = Some (True, s')"
    "cstr_holds s' (concat (map item_bytes ?items))"
    using build_multisig_ok [OF assms(1) le assms(2)] by blast
  have ops: "dogecoin_script_get_ops (concat (map item_bytes ?items)) [] = (True, map item_op ?items)"
    using get_ops_script [OF multisig_items_ok(1) [OF le assms(2)], of "[]"]
      multisig_items_ok(2) [OF le assms(2)] by (simp add: multisig_items_def)
  have "fst (dogecoin_script_classify (concat (map item_bytes ?items)) (Some [])) = DOGECOIN_TX_MULTISIG"
    using multisig_classified [OF le assms(2)]
    by (simp add: dogecoin_script_classify_def ops Let_def split: prod.splits)
  with s' ops True show ?thesis by auto
next
  case False
  obtain t where "cstr_resize s 0 = Some t" "cstr_holds t []"
    using cstr_clear [OF assms(1)] by blast
  with False show ?thesis by (auto simp: dogecoin_script_build_multisig_def)
qed

lemma multisig_recognised_witness:
  "let k = \<lparr>compressed = True, pubkey = 2 # replicate 64 9\<rparr>
   in \<exists>s' script. dogecoin_script_build_multisig empty_string 1 [k, k] = Some (True, s') \<and> cstr_holds s' script
        \<and> dogecoin_script_get_ops script [] = (True, map item_op (multisig_items 1 [k, k]))
        \<and> fst (dogecoin_script_classify script (Some [])) = DOGECOIN_TX_MULTISIG"
proof -
  let ?k = "\<lparr>compressed = True, pubkey = 2 # replicate 64 9\<rparr>"
  have "key_ok ?k" by (simp add: key_ok_def dogecoin_pubkey_get_length_def code_values)
  then have "if (1::nat) \<le> 16 \<and> length [?k, ?k] \<le> 16 then
      \<exists>s' script. dogecoin_script_build_multisig empty_string 1 [?k, ?k] = Some (True, s') \<and> cstr_holds s' script
        \<and> dogecoin_script_get_ops script [] = (True, map item_op (multisig_items 1 [?k, ?k]))
        \<and> fst (dogecoin_script_classify script (Some [])) = DOGECOIN_TX_MULTISIG
    else \<exists>s'. dogecoin_script_build_multisig empty_string 1 [?k, ?k] = Some (False, s') \<and> cstr_holds s' []"
    by (intro multisig_recognised [OF empty_string_holds]) simp
  moreover have "(1::nat) \<le> 16 \<and> length [?k, ?k] \<le> 16" by simp
  ultimately show ?thesis unfolding Let_def by (simp only: if_True)
qed

section \<open>Parsing what was built, and copying it\<close>

text \<open>C38:
  A built script is split into what it was built from. Whatever pushes and operations are appended
  one after another, \<open>dogecoin_script_get_ops\<close> gives exactly those, each push with its data and the
  shortest opcode for its length, unless the last is an empty push: a script that ends in \<open>OP_0\<close> is
  refused, although it is what \<open>dogecoin_script_append_pushdata\<close> writes for empty data.
\<close>

theorem script_build_parse:
  assumes "cstr_holds s []" "\<forall>x\<in>set items. item_ok x" "items \<noteq> []"
    and "length (concat (map item_bytes items)) < 2 ^ 30"
  shows "\<exists>s' script. sink.put_all append_item items s = Some s' \<and> cstr_holds s' script
    \<and> (last items \<noteq> Push [] \<longrightarrow> dogecoin_script_get_ops script [] = (True, map item_op items))
    \<and> (last items = Push [] \<longrightarrow> dogecoin_script_get_ops script [] = (False, map item_op (butlast items)))"
proof -
  let ?script = "concat (map item_bytes items)"
  obtain s' where s': "sink.put_all append_item items s = Some s'" "cstr_holds s' ?script"
    using sink.appendsD [OF append_items_appends [OF assms(2)] assms(1)] assms(4) by auto
  have empty: "dogecoin_script_get_ops ?script [] = (False, map item_op (butlast items))"
    if "last items = Push []"
  proof -
    have step: "get_ops_loop (concat (map item_bytes xs) @ [0]) ops = (False, ops @ map item_op xs)"
      if "\<forall>x\<in>set xs. item_ok x" for xs ops
      using that
    proof (induction xs arbitrary: ops)
      case Nil
      then show ?case by (simp add: code_values)
    next
      case (Cons x xs)
      show ?case
      proof (cases x)
        case (Op c)
        with Cons show ?thesis by simp
      next
        case (Push d)
        have "\<not> push_opcode (length d) > OP_PUSHDATA4" using push_opcode_le by (simp add: not_less)
        with Push Cons push_header_item [of d "d @ concat (map item_bytes xs) @ [0]"] show ?thesis
          by (simp del: append_is_Nil_conv)
      qed
    qed
    have "items = butlast items @ [Push []]"
      using assms(3) that by (metis append_butlast_last_id)
    then have "?script = concat (map item_bytes (butlast items @ [Push []]))" by simp
    also have "\<dots> = concat (map item_bytes (butlast items)) @ [0]"
      by (simp add: push_opcode_def push_size_def)
    finally have "?script = concat (map item_bytes (butlast items)) @ [0]" .
    moreover have "\<forall>x\<in>set (butlast items). item_ok x"
      using assms(2) by (auto dest: in_set_butlastD)
    ultimately show ?thesis
      using step by (simp add: dogecoin_script_get_ops_def)
  qed
  have "dogecoin_script_get_ops ?script [] = (True, map item_op items)" if "last items \<noteq> Push []"
    using get_ops_script [OF assms(2,3) that, of "[]"] by simp
  with s' empty show ?thesis by blast
qed

lemma script_build_parse_witness:
  "\<exists>s' script. sink.put_all append_item [Push [1, 2], Op OP_DUP] empty_string = Some s'
    \<and> cstr_holds s' script
    \<and> dogecoin_script_get_ops script [] = (True, map item_op [Push [1, 2], Op OP_DUP])"
  using script_build_parse [OF empty_string_holds, of "[Push [1, 2], Op OP_DUP]"]
  by (simp add: code_values push_size_def)

text \<open>A push the copy handles: data, and short enough for the assertion.\<close>

fun copy_ok :: "script_item \<Rightarrow> bool" where
  "copy_ok (Push d) = (length d < 16777215)"
| "copy_ok (Op c) = (c > OP_PUSHDATA4)"

lemma push_header_copy:
  assumes "d \<noteq> []" "length d < 16777215"
  shows "push_header (push_opcode (length d)) (push_size (length d) @ rest)
      = Some (push_size (length d), length d, rest)"
    and "push_opcode (length d) \<noteq> OP_CODESEPARATOR"
    and "(push_opcode (length d) < OP_PUSHDATA1 \<and> push_opcode (length d) > OP_0) = (length d < 76)"
    and "(push_size (length d) = []) = (length d < 76)"
proof -
  let ?n = "length d"
  have n0: "0 < ?n" using assms(1) by simp
  have sm: "(of_nat ?n :: u8) < 76" "unat (of_nat ?n :: u8) = ?n" "0 < (of_nat ?n :: u8)" if "?n < 76"
    using that n0 by (simp_all add: word_less_nat_alt unat_of_nat)
  have u8: "unat (of_nat ?n :: u8) = ?n" if "?n < 256" using that by (simp add: unat_of_nat)
  have le: "le_nat (le_bytes 2 ?n) = ?n" if "?n < 65536"
    using that by (simp add: le_nat_le_bytes del: le_bytes_numeral)
  have le4: "le_nat (le_bytes 4 ?n) = ?n"
    using assms(2) by (simp add: le_nat_le_bytes del: le_bytes_numeral)
  note defs = push_opcode_def push_size_def push_header_def code_values
  consider "?n < 76" | "76 \<le> ?n" "?n < 256" | "256 \<le> ?n" "?n < 65536" | "65536 \<le> ?n" by linarith
  note cases = this
  show "push_header (push_opcode ?n) (push_size ?n @ rest) = Some (push_size ?n, ?n, rest)"
    by (rule cases) (simp_all add: defs sm u8 le le4 del: le_bytes_numeral)
  show "push_opcode ?n \<noteq> OP_CODESEPARATOR"
    using push_opcode_le [of ?n] by (auto simp: code_values)
  show "(push_opcode ?n < OP_PUSHDATA1 \<and> push_opcode ?n > OP_0) = (?n < 76)"
    by (rule cases) (simp_all add: defs sm)
  show "(push_size ?n = []) = (?n < 76)"
    by (rule cases) (simp_all add: defs)
qed

definition kept_bytes :: "script_item \<Rightarrow> bytes" where
  "kept_bytes x = (if x = Op OP_CODESEPARATOR then [] else item_bytes x)"

lemma one_byte: "cstr_holds out pre \<Longrightarrow> length pre + 1 < 2 ^ 30 \<Longrightarrow>
    \<exists>out'. cstr_append_buf out (Some [c]) 1 = Some out' \<and> cstr_holds out' (pre @ [c])"
  using cstr_append_ok [of out pre "[c]"] by simp

lemma copy_op_plain:
  assumes "push_header c rest = Some ([], 0, rest)" "c \<noteq> OP_CODESEPARATOR"
    and "cstr_holds out pre" "length pre + 1 < 2 ^ 30" "\<not> (c < OP_PUSHDATA1 \<and> c > OP_0)"
  shows "\<exists>out'. copy_op c rest out = Some (Some rest, out') \<and> cstr_holds out' (pre @ [c])"
proof -
  obtain out' where "cstr_append_buf out (Some [c]) 1 = Some out'" "cstr_holds out' (pre @ [c])"
    using one_byte [OF assms(3,4)] by blast
  then show ?thesis using assms(1,2,5) by (auto simp: copy_op_def)
qed

lemma copy_op_push:
  assumes "d \<noteq> []" "length d < 16777215" "cstr_holds out pre"
    and "length pre + length (item_bytes (Push d)) < 2 ^ 30"
  shows "\<exists>out'. copy_op (push_opcode (length d)) (push_size (length d) @ d @ rest) out = Some (Some rest, out')
    \<and> cstr_holds out' (pre @ item_bytes (Push d))"
proof -
  let ?op = "push_opcode (length d)" let ?sz = "push_size (length d)"
  note h = push_header_copy [OF assms(1,2)]
  have room: "length pre + length ([?op] @ ?sz @ d) < 1073741824" using assms(4) by simp
  have "sink.appends (\<lambda>out. do { out \<leftarrow> cstr_append_buf out (Some [?op]) 1;
      cstr_append_buf out (Some ?sz) (length ?sz) }) ([?op] @ ?sz)"
    by (intro sink.appends_comp appends_buf) simp_all
  moreover have "sink.appends (\<lambda>out. cstr_append_buf out (Some [?op]) 1) ([?op] @ ?sz)" if "?sz = []"
    using that appends_buf [of 1 "[?op]"] by simp
  ultimately have "sink.appends (\<lambda>out. if ?sz = [] then cstr_append_buf out (Some [?op]) 1
      else do { out \<leftarrow> cstr_append_buf out (Some [?op]) 1; cstr_append_buf out (Some ?sz) (length ?sz) })
      ([?op] @ ?sz)" by (cases "?sz = []") simp_all
  then obtain o1 where o1: "(if ?sz = [] then cstr_append_buf out (Some [?op]) 1
      else do { out \<leftarrow> cstr_append_buf out (Some [?op]) 1; cstr_append_buf out (Some ?sz) (length ?sz) })
      = Some o1" "cstr_holds o1 (pre @ [?op] @ ?sz)"
    using sink.appendsD [OF _ assms(3), of _ "[?op] @ ?sz"] room by fastforce
  obtain o2 where o2: "cstr_append_buf o1 (Some d) (length d) = Some o2" "cstr_holds o2 (pre @ item_bytes (Push d))"
    using cstr_append_ok [OF o1(2), of d] assms(4) by auto
  have cond: "(if ?op < OP_PUSHDATA1 \<and> ?op > OP_0 then cstr_append_buf out (Some [?op]) 1
      else if ?sz \<noteq> [] then do {
        out \<leftarrow> cstr_append_buf out (Some [?op]) 1; cstr_append_buf out (Some ?sz) (length ?sz) }
      else Some out) = Some o1"
    using o1(1) unfolding h(3) h(4) [symmetric] by (simp split: if_splits)
  have d: "deser_bytes (length d) (d @ rest) = Some (d, rest)" by simp
  have "\<not> 16777215 \<le> length d" "0 < length d" using assms(1,2) by simp_all
  with h(1) [of "d @ rest"] h(2) cond d o2 show ?thesis
    by (auto simp: copy_op_def simp del: item_bytes.simps)
qed

lemma copy_items:
  assumes "\<forall>x\<in>set items. copy_ok x" "cstr_holds out pre"
    and "length pre + length (concat (map item_bytes items)) < 2 ^ 30"
  shows "\<exists>out'. copy_loop (concat (map item_bytes items)) out = Some (True, out')
    \<and> cstr_holds out' (pre @ concat (map kept_bytes items))"
  using assms
proof (induction items arbitrary: out pre)
  case Nil
  then show ?case by simp
next
  case (Cons x items)
  let ?rest = "concat (map item_bytes items)"
  have kept: "length (kept_bytes x) \<le> length (item_bytes x)" by (simp add: kept_bytes_def)
  have "\<exists>c tl out'. item_bytes x = c # tl \<and> copy_op c (tl @ ?rest) out = Some (Some ?rest, out')
      \<and> cstr_holds out' (pre @ kept_bytes x)"
  proof (cases x)
    case (Op c)
    show ?thesis
    proof (cases "c = OP_CODESEPARATOR")
      case True
      then have "copy_op c ?rest out = Some (Some ?rest, out)"
        by (simp add: copy_op_def push_header_def code_values)
      with True Op Cons.prems(2) show ?thesis by (auto simp: kept_bytes_def)
    next
      case False
      have c: "c > OP_PUSHDATA4" using Cons.prems(1) Op by simp
      then have "push_header c ?rest = Some ([], 0, ?rest)" "\<not> (c < OP_PUSHDATA1 \<and> c > OP_0)"
        by (auto simp: push_header_def code_values word_less_nat_alt)
      with copy_op_plain [OF _ False Cons.prems(2)] Cons.prems(3) Op False show ?thesis
        by (simp add: kept_bytes_def)
    qed
  next
    case (Push d)
    show ?thesis
    proof (cases "d = []")
      case True
      then have b: "item_bytes x = [0]" "kept_bytes x = [0]"
        using Push by (simp_all add: push_opcode_def push_size_def kept_bytes_def)
      have "push_header 0 ?rest = Some ([], 0, ?rest)" by (simp add: push_header_def code_values)
      with copy_op_plain [of 0 ?rest out pre] Cons.prems(2,3) b show ?thesis
        by (simp add: code_values del: item_bytes.simps)
    next
      case False
      with copy_op_push [OF False _ Cons.prems(2), of ?rest] Cons.prems(1,3) Push show ?thesis
        by (auto simp: kept_bytes_def)
    qed
  qed
  then obtain c tl out' where step: "item_bytes x = c # tl"
    "copy_op c (tl @ ?rest) out = Some (Some ?rest, out')" "cstr_holds out' (pre @ kept_bytes x)" by blast
  have "length (pre @ kept_bytes x) + length ?rest < 2 ^ 30"
    using Cons.prems(3) kept by simp
  with Cons.IH [OF _ step(3)] Cons.prems(1) step show ?case by auto
qed

definition without_separators :: "script_item list \<Rightarrow> bytes" where
  "without_separators items = concat (map item_bytes (filter (\<lambda>x. x \<noteq> Op OP_CODESEPARATOR) items))"

lemma copy_script_items:
  assumes "cstr_holds out pre" "items \<noteq> []" "\<forall>x\<in>set items. copy_ok x"
    and "length pre + length (concat (map item_bytes items)) < 2 ^ 30"
  shows "\<exists>out'. dogecoin_script_copy_without_op_codeseperator (concat (map item_bytes items)) out
      = Some (True, out') \<and> cstr_holds out' (pre @ without_separators items)"
proof -
  have "item_bytes x \<noteq> []" for x by (cases x) simp_all
  with assms(2) have "concat (map item_bytes items) \<noteq> []" by (cases items) auto
  moreover have "concat (map kept_bytes items) = without_separators items"
    by (induction items) (simp_all add: kept_bytes_def without_separators_def)
  ultimately show ?thesis
    using copy_items [OF assms(3,1,4)]
    by (simp add: dogecoin_script_copy_without_op_codeseperator_def)
qed

lemma length_without_separators:
  "length (without_separators items) \<le> length (concat (map item_bytes items))"
  by (induction items) (auto simp: without_separators_def)

text \<open>Copying a script drops its code separators and nothing else. For a script of pushes with shortest
  encodings and of other operations, the copy is appended to the output with every
  \<open>OP_CODESEPARATOR\<close> left out. A push opcode with an explicit length of zero is not copied faithfully:
  its opcode appears a second time after the length.
\<close>

theorem copy_without_separators:
  assumes "cstr_holds out pre" "items \<noteq> []" "\<forall>x\<in>set items. copy_ok x"
    and "length pre + length (concat (map item_bytes items)) < 2 ^ 30"
  shows "(\<exists>out'. dogecoin_script_copy_without_op_codeseperator (concat (map item_bytes items)) out
            = Some (True, out')
          \<and> cstr_holds out' (pre @ concat (map item_bytes (filter (\<lambda>x. x \<noteq> Op OP_CODESEPARATOR) items))))
       \<and> (length pre + 3 < 2 ^ 30 \<longrightarrow>
          (\<exists>out'. dogecoin_script_copy_without_op_codeseperator [OP_PUSHDATA1, 0] out = Some (True, out')
            \<and> cstr_holds out' (pre @ [OP_PUSHDATA1, 0, OP_PUSHDATA1])))"
proof (intro conjI impI)
  show "\<exists>out'. dogecoin_script_copy_without_op_codeseperator (concat (map item_bytes items)) out
      = Some (True, out')
    \<and> cstr_holds out' (pre @ concat (map item_bytes (filter (\<lambda>x. x \<noteq> Op OP_CODESEPARATOR) items)))"
    using copy_script_items [OF assms] by (simp add: without_separators_def)
next
  assume "length pre + 3 < 2 ^ 30"
  then obtain o1 o2 o3 where
    "cstr_append_buf out (Some [OP_PUSHDATA1]) 1 = Some o1"
    "cstr_append_buf o1 (Some [0]) 1 = Some o2"
    "cstr_append_buf o2 (Some [OP_PUSHDATA1]) 1 = Some o3"
    "cstr_holds o3 (((pre @ [OP_PUSHDATA1]) @ [0]) @ [OP_PUSHDATA1])"
    using one_byte [OF assms(1), of OP_PUSHDATA1] one_byte [of _ "pre @ [OP_PUSHDATA1]" 0]
      one_byte [of _ "(pre @ [OP_PUSHDATA1]) @ [0]" OP_PUSHDATA1] by fastforce
  then show "\<exists>out'. dogecoin_script_copy_without_op_codeseperator [OP_PUSHDATA1, 0] out = Some (True, out')
            \<and> cstr_holds out' (pre @ [OP_PUSHDATA1, 0, OP_PUSHDATA1])"
    by (intro exI [of _ o3])
      (simp add: dogecoin_script_copy_without_op_codeseperator_def copy_op_def push_header_def code_values)
qed

lemma copy_without_separators_witness:
  "(\<exists>out'. dogecoin_script_copy_without_op_codeseperator
            (concat (map item_bytes [Push [1], Op OP_CODESEPARATOR, Op OP_DUP])) empty_string = Some (True, out')
          \<and> cstr_holds out' ([] @ concat (map item_bytes (filter (\<lambda>x. x \<noteq> Op OP_CODESEPARATOR)
                [Push [1], Op OP_CODESEPARATOR, Op OP_DUP]))))
     \<and> (\<exists>out'. dogecoin_script_copy_without_op_codeseperator [OP_PUSHDATA1, 0] empty_string = Some (True, out')
            \<and> cstr_holds out' ([] @ [OP_PUSHDATA1, 0, OP_PUSHDATA1]))"
proof -
  have "\<forall>x\<in>set [Push [1], Op OP_CODESEPARATOR, Op OP_DUP]. copy_ok x" by (simp add: code_values)
  moreover have "length ([] :: bytes) + length (concat (map item_bytes [Push [1], Op OP_CODESEPARATOR, Op OP_DUP])) < 2 ^ 30"
    by (simp add: push_size_def)
  ultimately show ?thesis
    using copy_without_separators [OF empty_string_holds, of "[Push [1], Op OP_CODESEPARATOR, Op OP_DUP]"] by simp
qed

end
