(* ===== verification/Vector.thy ===== *)
theory Vector
  imports Prelude
begin

text \<open>
  Arrays of pointers, \<open>src/vector.c\<close> of libdogecoin. A pointer is an \<open>'a option\<close> (NULL is \<open>None\<close>), a
  cell of the array that was never written is \<open>None\<close>. \<open>freed\<close> logs the calls of \<open>elem_free_f\<close>. A
  result \<open>None\<close> is an access outside the array, a read of an unwritten cell, or a loop that does
  not end.
\<close>

record 'a vector =
  data :: "'a option option list"
  vlen :: nat
  valloc :: nat
  elem_free_f :: bool
  freed :: "'a option list"

section \<open>Operations\<close>

text \<open>
  The loops \<open>while (alloc < n) alloc *= 2\<close>: from 0, and once the product wraps to 0, they go on
  forever.
\<close>

function double_until :: "nat \<Rightarrow> nat \<Rightarrow> nat option" where
  "double_until a n =
     (if n \<le> a then Some a
      else if a = 0 \<or> 2 ^ 63 \<le> a then None
      else double_until (2 * a) n)"
  by pat_completeness auto
termination
  by (relation "measure (\<lambda>(a, n). 2 ^ 64 - a)") auto

declare double_until.simps [simp del]

definition vector_new :: "nat \<Rightarrow> bool \<Rightarrow> 'a vector option" where
  "vector_new res free_f = do {
     al \<leftarrow> double_until 8 res;
     Some \<lparr>data = replicate al (Some None), vlen = 0, valloc = al, elem_free_f = free_f, freed = []\<rparr>
   }"

definition vector_grow :: "'a vector \<Rightarrow> nat \<Rightarrow> 'a vector option" where
  "vector_grow vec min_sz = do {
     new_alloc \<leftarrow> double_until (valloc vec) min_sz;
     (if valloc vec = new_alloc then Some vec
      else Some (vec\<lparr>data := data vec @ replicate (new_alloc - valloc vec) None,
                     valloc := new_alloc\<rparr>))
   }"

fun find_from :: "'a option option list \<Rightarrow> 'a option \<Rightarrow> nat \<Rightarrow> nat \<Rightarrow> int option" where
  "find_from cells x i 0 = Some (-1)"
| "find_from cells x i (Suc n) = do {
     cell \<leftarrow> mem_get cells i;
     y \<leftarrow> cell;
     (if y = x then Some (int i) else find_from cells x (Suc i) n)
   }"

definition vector_find :: "'a vector \<Rightarrow> 'a option \<Rightarrow> int option" where
  "vector_find vec x = find_from (data vec) x 0 (vlen vec)"

definition vector_add :: "'a vector \<Rightarrow> 'a option \<Rightarrow> 'a vector option" where
  "vector_add vec x = do {
     vec \<leftarrow> (if vlen vec = valloc vec then vector_grow vec (vlen vec + 1) else Some vec);
     d \<leftarrow> mem_set (data vec) (vlen vec) (Some x);
     Some (vec\<lparr>data := d, vlen := vlen vec + 1\<rparr>)
   }"

text \<open>The call of \<open>elem_free_f\<close> on \<open>n\<close> elements from index \<open>i\<close>.\<close>

fun free_cells :: "'a option option list \<Rightarrow> nat \<Rightarrow> nat \<Rightarrow> 'a option list option" where
  "free_cells cells i 0 = Some []"
| "free_cells cells i (Suc n) = do {
     cell \<leftarrow> mem_get cells i;
     y \<leftarrow> cell;
     ys \<leftarrow> free_cells cells (Suc i) n;
     Some (y # ys)
   }"

definition vector_remove_range :: "'a vector \<Rightarrow> nat \<Rightarrow> nat \<Rightarrow> 'a vector option" where
  "vector_remove_range vec pos n =
     (if vlen vec < (pos + n) mod 2 ^ 64 then Some vec
      else do {
        gone \<leftarrow> (if elem_free_f vec then free_cells (data vec) pos n else Some []);
        tail \<leftarrow> mem_read (data vec) (pos + n) (vlen vec - pos - n);
        d \<leftarrow> mem_write (data vec) pos tail;
        Some (vec\<lparr>data := d, vlen := vlen vec - n, freed := freed vec @ gone\<rparr>)
      })"

definition vector_remove_idx :: "'a vector \<Rightarrow> nat \<Rightarrow> 'a vector option" where
  "vector_remove_idx vec pos = vector_remove_range vec pos 1"

definition vector_remove :: "'a vector \<Rightarrow> 'a option \<Rightarrow> (bool \<times> 'a vector) option" where
  "vector_remove vec x = do {
     idx \<leftarrow> vector_find vec x;
     (if idx < 0 then Some (False, vec)
      else do { vec \<leftarrow> vector_remove_idx vec (nat idx); Some (True, vec) })
   }"

definition vector_resize :: "'a vector \<Rightarrow> nat \<Rightarrow> 'a vector option" where
  "vector_resize vec newsz =
     (if newsz = vlen vec then Some vec
      else if newsz < vlen vec then do {
        gone \<leftarrow> (if elem_free_f vec then free_cells (data vec) newsz (vlen vec - newsz) else Some []);
        d \<leftarrow> mem_write (data vec) newsz (replicate (vlen vec - newsz) (Some None));
        Some (vec\<lparr>data := d, vlen := newsz, freed := freed vec @ gone\<rparr>)
      }
      else do {
        vec \<leftarrow> vector_grow vec newsz;
        d \<leftarrow> mem_write (data vec) (vlen vec) (replicate (newsz - vlen vec) (Some None));
        Some (vec\<lparr>data := d\<rparr>)
      })"

text \<open>NULL elements are not passed to \<open>elem_free_f\<close> here, unlike in the two operations above.\<close>

definition vector_free_data :: "'a vector \<Rightarrow> 'a vector option" where
  "vector_free_data vec = do {
     gone \<leftarrow> (if elem_free_f vec then free_cells (data vec) 0 (vlen vec) else Some []);
     Some (vec\<lparr>data := [], valloc := 0, vlen := 0,
               freed := freed vec @ filter (\<lambda>y. y \<noteq> None) gone\<rparr>)
   }"

definition vector_free :: "'a vector option \<Rightarrow> bool \<Rightarrow> 'a option list option" where
  "vector_free vec free_array =
     (case vec of
        None \<Rightarrow> Some []
      | Some vec \<Rightarrow>
          if free_array then do { vec \<leftarrow> vector_free_data vec; Some (freed vec) }
          else Some (freed vec))"

section \<open>A vector is a list\<close>

definition vec_holds :: "'a vector \<Rightarrow> 'a option list \<Rightarrow> bool" where
  "vec_holds v xs \<longleftrightarrow> vlen v = length xs \<and> length (data v) = valloc v \<and> length xs \<le> valloc v
     \<and> 0 < valloc v \<and> take (length xs) (data v) = map Some xs"

lemma double_until_Some:
  assumes "0 < a" "n \<le> 2 ^ 63"
  shows "\<exists>b. double_until a n = Some b \<and> a \<le> b \<and> n \<le> b \<and> b \<le> max a (2 * n)"
  using assms
proof (induction a n rule: double_until.induct)
  case (1 a n)
  show ?case
  proof (cases "n \<le> a")
    case True
    then show ?thesis by (simp add: double_until.simps [of a n])
  next
    case False
    then have "\<not> (a = 0 \<or> 2 ^ 63 \<le> a)" using "1.prems" by auto
    with 1 False obtain b where "double_until (2 * a) n = Some b" "2 * a \<le> b" "n \<le> b"
      "b \<le> max (2 * a) (2 * n)" by auto
    with False "1.prems" show ?thesis
      by (auto simp: double_until.simps [of a n])
  qed
qed

lemma vec_new: "n \<le> 2 ^ 63 \<Longrightarrow> \<exists>v. vector_new n f = Some v \<and> vec_holds v [] \<and> freed v = [] \<and> elem_free_f v = f"
  using double_until_Some [of 8 n] by (auto simp: vector_new_def vec_holds_def)

lemma vec_grow:
  assumes "vec_holds v xs" "n \<le> 2 ^ 63"
  shows "\<exists>v'. vector_grow v n = Some v' \<and> vec_holds v' xs \<and> n \<le> valloc v' \<and> freed v' = freed v
    \<and> elem_free_f v' = elem_free_f v"
proof -
  obtain b where "double_until (valloc v) n = Some b" "valloc v \<le> b" "n \<le> b"
    using double_until_Some [of "valloc v" n] assms by (auto simp: vec_holds_def)
  with assms(1) show ?thesis by (auto simp: vector_grow_def vec_holds_def)
qed

lemma vec_add:
  assumes "vec_holds v xs" "length xs < 2 ^ 63"
  shows "\<exists>v'. vector_add v x = Some v' \<and> vec_holds v' (xs @ [x]) \<and> freed v' = freed v
    \<and> elem_free_f v' = elem_free_f v"
proof -
  obtain w where w: "(if vlen v = valloc v then vector_grow v (vlen v + 1) else Some v) = Some w"
    "vec_holds w xs" "length xs < valloc w" "freed w = freed v" "elem_free_f w = elem_free_f v"
  proof (cases "vlen v = valloc v")
    case True
    then show thesis
      using vec_grow [OF assms(1), of "vlen v + 1"] assms that by (auto simp: vec_holds_def)
  next
    case False
    with assms(1) that [of v] show thesis by (auto simp: vec_holds_def)
  qed
  then have "vector_add v x = Some (w\<lparr>data := (data w)[length xs := Some x], vlen := length xs + 1\<rparr>)"
    by (simp add: vector_add_def mem_set_def vec_holds_def)
  with w show ?thesis
    by (auto simp: vec_holds_def take_Suc_conv_app_nth)
qed

lemma free_cells_ok:
  assumes "take (length xs) cells = map Some xs" "i + n \<le> length xs"
  shows "free_cells cells i n = Some (take n (drop i xs))"
  using assms(2)
proof (induction n arbitrary: i)
  case 0
  then show ?case by simp
next
  case (Suc n)
  have "cells ! i = Some (xs ! i)"
    using nth_prefix [OF assms(1), of i] Suc.prems by simp
  moreover have "length xs \<le> length cells"
    using assms(1) by (metis length_map length_take min.cobounded1 min.commute)
  moreover have "drop i xs = xs ! i # drop (Suc i) xs"
    using Suc.prems by (simp add: Cons_nth_drop_Suc)
  ultimately show ?case using Suc by (simp add: mem_get_def)
qed

lemma vec_remove_range:
  assumes "vec_holds v xs" "pos + n \<le> length xs" "length xs < 2 ^ 64"
  shows "\<exists>v'. vector_remove_range v pos n = Some v' \<and> vec_holds v' (take pos xs @ drop (pos + n) xs)
    \<and> freed v' = freed v @ (if elem_free_f v then take n (drop pos xs) else [])
    \<and> elem_free_f v' = elem_free_f v"
proof -
  note h = assms(1) [unfolded vec_holds_def]
  have m: "(pos + n) mod 2 ^ 64 = pos + n" using assms(2,3) by simp
  have gone: "free_cells (data v) pos n = Some (take n (drop pos xs))"
    using h assms(2) by (intro free_cells_ok) simp_all
  let ?t = "map Some (drop (pos + n) xs)"
  have "take (length xs - pos - n) (drop (pos + n) (data v))
      = drop (pos + n) (take (length xs) (data v))"
    by (simp add: drop_take)
  also have "\<dots> = ?t" using h by (simp add: drop_map)
  finally have tail: "mem_read (data v) (pos + n) (vlen v - pos - n) = Some ?t"
    using h assms(2) by (simp add: mem_read_def)
  let ?d = "take pos (data v) @ ?t @ drop (pos + length ?t) (data v)"
  have "pos + length ?t \<le> length xs" using assms(2) by simp
  with h have "pos + length ?t \<le> length (data v)" by linarith
  then have wr: "mem_write (data v) pos ?t = Some ?d" by (rule mem_write_Some)
  have "take pos (data v) = take pos (take (length xs) (data v))"
    using assms(2) by (simp add: min_absorb1)
  then have pre: "take pos (data v) = map Some (take pos xs)" using h by (simp add: take_map)
  have "vector_remove_range v pos n = Some (v\<lparr>data := ?d, vlen := vlen v - n,
      freed := freed v @ (if elem_free_f v then take n (drop pos xs) else [])\<rparr>)"
    using gone tail wr h m assms(2) by (simp add: vector_remove_range_def)
  moreover have "length ?d = valloc v" using mem_write_length [OF wr] h by simp
  ultimately show ?thesis
    using h assms(2) pre by (auto simp: vec_holds_def)
qed

lemma find_from_ok:
  assumes "take (length xs) cells = map Some xs" "i + n = length xs" "x \<notin> set (take i xs)"
  shows "find_from cells x i n = Some (if x \<in> set xs then int (length (takeWhile (\<lambda>y. y \<noteq> x) xs)) else -1)"
  using assms(2,3)
proof (induction n arbitrary: i)
  case 0
  then show ?case by simp
next
  case (Suc n)
  have c: "cells ! i = Some (xs ! i)" "i < length cells"
    using nth_prefix [OF assms(1), of i] Suc.prems assms(1)
    by (auto dest: arg_cong [of _ _ length])
  show ?case
  proof (cases "xs ! i = x")
    case True
    have "xs = take i xs @ x # drop (Suc i) xs"
      using True Suc.prems by (metis Suc_le_lessD add_Suc_right id_take_nth_drop le_add1 less_add_Suc1)
    moreover have "takeWhile (\<lambda>y. y \<noteq> x) (take i xs @ x # drop (Suc i) xs) = take i xs"
      using Suc.prems(2) by (subst takeWhile_append2) auto
    ultimately have "length (takeWhile (\<lambda>y. y \<noteq> x) xs) = i" "x \<in> set xs"
      using Suc.prems(1) by (metis length_take min.absorb2 le_add1, metis in_set_conv_decomp)
    with True c show ?thesis by (simp add: mem_get_def)
  next
    case False
    moreover have "x \<notin> set (take (Suc i) xs)"
      using False Suc.prems by (simp add: take_Suc_conv_app_nth)
    ultimately show ?thesis using c Suc by (simp add: mem_get_def)
  qed
qed

text \<open>A vector behaves as a list. With contents \<open>xs\<close>: adding an element gives \<open>xs @ [x]\<close>, growing as
  needed; removing a range of the list leaves the rest in order and passes exactly the removed
  elements, in order, to the free function when there is one; finding an element gives the index of
  its first occurrence, or -1; and a range that passes the end changes nothing.
\<close>

theorem vector_list:
  assumes "vec_holds v xs" "length xs < 2 ^ 62"
  shows "(\<exists>v'. vector_add v x = Some v' \<and> vec_holds v' (xs @ [x]))
    \<and> vector_find v x = Some (if x \<in> set xs then int (length (takeWhile (\<lambda>y. y \<noteq> x) xs)) else -1)
    \<and> (pos + n \<le> length xs \<longrightarrow> (\<exists>v'. vector_remove_range v pos n = Some v'
          \<and> vec_holds v' (take pos xs @ drop (pos + n) xs)
          \<and> freed v' = freed v @ (if elem_free_f v then take n (drop pos xs) else [])))
    \<and> (length xs < pos + n \<longrightarrow> pos + n < 2 ^ 64 \<longrightarrow> vector_remove_range v pos n = Some v)"
proof (intro conjI impI)
  show "\<exists>v'. vector_add v x = Some v' \<and> vec_holds v' (xs @ [x])"
    using vec_add [OF assms(1), of x] assms(2) by auto
  show "vector_find v x = Some (if x \<in> set xs then int (length (takeWhile (\<lambda>y. y \<noteq> x) xs)) else -1)"
    using find_from_ok [of xs "data v" 0 "length xs" x] assms(1)
    by (simp add: vector_find_def vec_holds_def)
next
  assume "pos + n \<le> length xs"
  then show "\<exists>v'. vector_remove_range v pos n = Some v'
          \<and> vec_holds v' (take pos xs @ drop (pos + n) xs)
          \<and> freed v' = freed v @ (if elem_free_f v then take n (drop pos xs) else [])"
    using vec_remove_range [OF assms(1), of pos n] assms(2) by auto
next
  assume "length xs < pos + n" "pos + n < 2 ^ 64"
  then show "vector_remove_range v pos n = Some v"
    using assms(1) by (simp add: vector_remove_range_def vec_holds_def)
qed

definition two_elements :: "nat vector" where
  "two_elements = \<lparr>data = [Some (Some 5), Some (Some 6)], vlen = 2, valloc = 2, elem_free_f = True,
     freed = []\<rparr>"

lemma two_elements_holds: "vec_holds two_elements [Some 5, Some 6]"
  by (simp add: vec_holds_def two_elements_def)

lemma vector_list_witness:
  "(\<exists>v'. vector_add two_elements (Some 7) = Some v' \<and> vec_holds v' [Some 5, Some 6, Some 7])
    \<and> vector_find two_elements (Some 6) = Some 1
    \<and> (\<exists>v'. vector_remove_range two_elements 0 1 = Some v' \<and> vec_holds v' [Some 6] \<and> freed v' = [Some 5])"
  using vector_list [OF two_elements_holds, of "Some 7" 0 1]
    vector_list [OF two_elements_holds, of "Some 6" 0 1]
  by (simp add: two_elements_def)

lemma vec_shrink:
  assumes "vec_holds v xs" "n \<le> length xs"
  shows "\<exists>v'. vector_resize v n = Some v' \<and> vec_holds v' (take n xs)
    \<and> freed v' = freed v @ (if elem_free_f v then drop n xs else [])"
proof (cases "n = length xs")
  case True
  then show ?thesis using assms(1) by (auto simp: vector_resize_def vec_holds_def)
next
  case False
  note h = assms(1) [unfolded vec_holds_def]
  have 2: "n < length xs" using False assms(2) by simp
  have gone: "free_cells (data v) n (length xs - n) = Some (drop n xs)"
    using free_cells_ok [of xs "data v" n "length xs - n"] h 2 by simp
  let ?d = "take n (data v) @ replicate (length xs - n) (Some None) @ drop (length xs) (data v)"
  have wr: "mem_write (data v) n (replicate (length xs - n) (Some None)) = Some ?d"
    using h 2 by (simp add: mem_write_def)
  have "take n (data v) = take n (take (length xs) (data v))" using 2 by (simp add: min_absorb1)
  then have pre: "take n (data v) = map Some (take n xs)" using h by (simp add: take_map)
  have "length ?d = valloc v" using mem_write_length [OF wr] h by simp
  with h 2 gone wr pre show ?thesis
    by (auto simp: vector_resize_def vec_holds_def)
qed

lemma vec_free: "vec_holds v xs \<Longrightarrow> \<exists>gone. vector_free (Some v) True = Some gone"
  using free_cells_ok [of xs "data v" 0 "length xs"]
  by (simp add: vector_free_def vector_free_data_def vec_holds_def)

text \<open>
  Resizing a vector. A smaller size cuts the list and frees the elements cut off. A larger size only
  reserves cells: they are set to NULL but the length, which the description says becomes the new
  size, stays what it was.
\<close>

theorem vector_resize_length:
  assumes "vec_holds v xs" "length xs < 2 ^ 62" "n < 2 ^ 62"
  shows "\<exists>v'. vector_resize v n = Some v' \<and> vec_holds v' (take n xs) \<and> vlen v' = min n (length xs)
    \<and> freed v' = freed v @ (if elem_free_f v then drop n xs else [])
    \<and> (length xs < n \<longrightarrow> (\<forall>i. length xs \<le> i \<and> i < n \<longrightarrow> data v' ! i = Some None))"
proof -
  note h = assms(1) [unfolded vec_holds_def]
  consider "n \<le> length xs" | "length xs < n" by linarith
  then show ?thesis
  proof cases
    case 1
    then obtain v' where "vector_resize v n = Some v'" "vec_holds v' (take n xs)"
      "freed v' = freed v @ (if elem_free_f v then drop n xs else [])"
      using vec_shrink [OF assms(1)] by blast
    with 1 show ?thesis by (auto simp: vec_holds_def)
  next
    case 2
    note 3 = 2
    obtain w where w: "vector_grow v n = Some w" "vec_holds w xs" "n \<le> valloc w" "freed w = freed v"
      "elem_free_f w = elem_free_f v"
      using vec_grow [OF assms(1), of n] assms(3) by auto
    let ?d = "take (length xs) (data w) @ replicate (n - length xs) (Some None) @ drop n (data w)"
    have wr: "mem_write (data w) (length xs) (replicate (n - length xs) (Some None)) = Some ?d"
      using w 3 by (simp add: mem_write_def vec_holds_def)
    have "length ?d = valloc w" using mem_write_length [OF wr] w by (simp add: vec_holds_def)
    moreover have "?d ! i = Some None" if "length xs \<le> i" "i < n" for i
      using that w diff_less_mono [OF that(2,1)] by (simp add: nth_append vec_holds_def)
    ultimately show ?thesis
      using h 3 w wr by (auto simp: vector_resize_def vec_holds_def)
  qed
qed

lemma vector_resize_length_witness:
  "\<exists>v'. vector_resize two_elements 5 = Some v' \<and> vec_holds v' (take 5 [Some 5, Some 6])
    \<and> vlen v' = min 5 (length [Some 5, Some (6 :: nat)])
    \<and> freed v' = freed two_elements @ (if elem_free_f two_elements then drop 5 [Some 5, Some 6] else [])
    \<and> (length [Some 5, Some (6 :: nat)] < 5 \<longrightarrow>
        (\<forall>i. length [Some 5, Some (6 :: nat)] \<le> i \<and> i < 5 \<longrightarrow> data v' ! i = Some None))"
  by (rule vector_resize_length [OF two_elements_holds]) simp_all

end
