(* ===== verification/Tx.thy ===== *)
theory Tx
  imports Script Vector Sha2
begin

text \<open>
  Transactions, \<open>src/tx.c\<close> of libdogecoin: the records, serialisation and its inverse, copying, the
  hashes a signature is made of, and the functions that add outputs. Inputs and outputs live in
  vectors of pointers; a pointer is an \<open>option\<close> and following a null pointer gives \<open>None\<close>, like any
  other access outside an object. \<open>int32_t\<close> and \<open>int64_t\<close> fields are words. Signing, which needs the
  elliptic curve, is not modelled.
\<close>

section \<open>Types\<close>

record dogecoin_tx_outpoint =
  prev_hash :: bytes
  prev_n :: u32

record dogecoin_tx_in =
  prevout :: dogecoin_tx_outpoint
  script_sig :: "cstring option"
  sequence :: u32

record dogecoin_tx_out =
  tx_value :: u64
  script_pubkey :: "cstring option"

record dogecoin_tx =
  tx_version :: u32
  vin :: "dogecoin_tx_in vector option"
  vout :: "dogecoin_tx_out vector option"
  tx_locktime :: u32

definition DOGECOIN_HASH_LENGTH :: nat where "DOGECOIN_HASH_LENGTH = 32"
definition SIGHASH_ALL :: u32 where "SIGHASH_ALL = 1"
definition SIGHASH_NONE :: u32 where "SIGHASH_NONE = 2"
definition SIGHASH_SINGLE :: u32 where "SIGHASH_SINGLE = 3"
definition SIGHASH_ANYONECANPAY :: u32 where "SIGHASH_ANYONECANPAY = 0x80"

definition dogecoin_tx_in_new :: dogecoin_tx_in where
  "dogecoin_tx_in_new =
     \<lparr>prevout = \<lparr>prev_hash = replicate 32 0, prev_n = 0\<rparr>, script_sig = None, sequence = 0xffffffff\<rparr>"

definition dogecoin_tx_out_new :: dogecoin_tx_out where
  "dogecoin_tx_out_new = \<lparr>tx_value = 0, script_pubkey = None\<rparr>"

definition dogecoin_tx_new :: "dogecoin_tx option" where
  "dogecoin_tx_new = do {
     i \<leftarrow> vector_new 8 True;
     out \<leftarrow> vector_new 8 True;
     Some \<lparr>tx_version = 1, vin = Some i, vout = Some out, tx_locktime = 0\<rparr>
   }"

section \<open>Loops over a vector\<close>

text \<open>\<open>vector_idx\<close> reads a cell without a check.\<close>

definition vector_idx :: "'a vector \<Rightarrow> nat \<Rightarrow> 'a option option" where
  "vector_idx v i = do { c \<leftarrow> mem_get (data v) i; c }"

text \<open>A loop that follows \<open>n\<close> pointers from index \<open>i\<close>, and one that changes what they point to.\<close>

fun vec_each :: "('a \<Rightarrow> 's \<Rightarrow> 's option) \<Rightarrow> 'a vector \<Rightarrow> nat \<Rightarrow> nat \<Rightarrow> 's \<Rightarrow> 's option" where
  "vec_each f v i 0 s = Some s"
| "vec_each f v i (Suc n) s = do {
     p \<leftarrow> vector_idx v i;
     x \<leftarrow> p;
     s \<leftarrow> f x s;
     vec_each f v (Suc i) n s
   }"

fun vec_modify :: "(nat \<Rightarrow> 'a \<Rightarrow> 'a option) \<Rightarrow> nat \<Rightarrow> nat \<Rightarrow> 'a vector \<Rightarrow> 'a vector option" where
  "vec_modify f i 0 v = Some v"
| "vec_modify f i (Suc n) v = do {
     p \<leftarrow> vector_idx v i;
     x \<leftarrow> p;
     y \<leftarrow> f i x;
     d \<leftarrow> mem_set (data v) i (Some (Some y));
     vec_modify f (Suc i) n (v\<lparr>data := d\<rparr>)
   }"

section \<open>Serialisation\<close>

definition dogecoin_tx_in_serialize :: "dogecoin_tx_in \<Rightarrow> cstring \<Rightarrow> cstring option" where
  "dogecoin_tx_in_serialize tx_in s = do {
     s \<leftarrow> ser_u256 s (prev_hash (prevout tx_in));
     s \<leftarrow> ser_u32 s (prev_n (prevout tx_in));
     s \<leftarrow> ser_varstr s (script_sig tx_in);
     ser_u32 s (sequence tx_in)
   }"

definition dogecoin_tx_out_serialize :: "dogecoin_tx_out \<Rightarrow> cstring \<Rightarrow> cstring option" where
  "dogecoin_tx_out_serialize tx_out s = do {
     s \<leftarrow> ser_s64 s (tx_value tx_out);
     ser_varstr s (script_pubkey tx_out)
   }"

definition dogecoin_tx_serialize :: "dogecoin_tx \<Rightarrow> cstring \<Rightarrow> cstring option" where
  "dogecoin_tx_serialize tx s = do {
     s \<leftarrow> ser_s32 s (tx_version tx);
     s \<leftarrow> ser_varlen s (case vin tx of Some v \<Rightarrow> of_nat (vlen v) | None \<Rightarrow> 0);
     s \<leftarrow> (case vin tx of Some v \<Rightarrow> vec_each dogecoin_tx_in_serialize v 0 (vlen v) s | None \<Rightarrow> Some s);
     s \<leftarrow> ser_varlen s (case vout tx of Some v \<Rightarrow> of_nat (vlen v) | None \<Rightarrow> 0);
     s \<leftarrow> (case vout tx of Some v \<Rightarrow> vec_each dogecoin_tx_out_serialize v 0 (vlen v) s | None \<Rightarrow> Some s);
     ser_u32 s (tx_locktime tx)
   }"

text \<open>
  The inner option is the result false. The result of \<open>deser_u256\<close> is not looked at: when fewer than
  32 bytes are left, the hash keeps its zeros and nothing is consumed.
\<close>

definition dogecoin_tx_in_deserialize :: "dogecoin_tx_in \<Rightarrow> bytes \<Rightarrow> (dogecoin_tx_in \<times> bytes) option option" where
  "dogecoin_tx_in_deserialize tx_in buf =
     (let (tx_in, buf) = (case deser_u256 buf of
            Some (h, buf) \<Rightarrow> (tx_in\<lparr>prevout := (prevout tx_in)\<lparr>prev_hash := h\<rparr>\<rparr>, buf)
          | None \<Rightarrow> (tx_in, buf))
      in case deser_u32 buf of
           None \<Rightarrow> Some None
         | Some (i, buf) \<Rightarrow>
             let tx_in = tx_in\<lparr>prevout := (prevout tx_in)\<lparr>prev_n := i\<rparr>\<rparr>
             in do {
               r \<leftarrow> deser_varstr buf;
               (case r of
                  None \<Rightarrow> Some None
                | Some (script, buf) \<Rightarrow>
                    case deser_u32 buf of
                      None \<Rightarrow> Some None
                    | Some (q, buf) \<Rightarrow> Some (Some (tx_in\<lparr>script_sig := Some script, sequence := q\<rparr>, buf)))
             })"

definition dogecoin_tx_out_deserialize :: "dogecoin_tx_out \<Rightarrow> bytes \<Rightarrow> (dogecoin_tx_out \<times> bytes) option option" where
  "dogecoin_tx_out_deserialize tx_out buf =
     (case deser_s64 buf of
        None \<Rightarrow> Some None
      | Some (v, buf) \<Rightarrow> do {
          r \<leftarrow> deser_varstr buf;
          (case r of
             None \<Rightarrow> Some None
           | Some (script, buf) \<Rightarrow> Some (Some (tx_out\<lparr>tx_value := v, script_pubkey := Some script\<rparr>, buf)))
        })"

text \<open>
  The loop that reads \<open>n\<close> elements into a vector: the result is false with the elements read so far
  when one cannot be read, and the buffer that is left otherwise.
\<close>

fun deser_elements :: "(bytes \<Rightarrow> ('a \<times> bytes) option option) \<Rightarrow> nat \<Rightarrow> 'a vector \<Rightarrow> bytes
    \<Rightarrow> (bool \<times> 'a vector \<times> bytes) option" where
  "deser_elements f 0 v buf = Some (True, v, buf)"
| "deser_elements f (Suc n) v buf = do {
     r \<leftarrow> f buf;
     (case r of
        None \<Rightarrow> Some (False, v, buf)
      | Some (x, buf) \<Rightarrow> do { v \<leftarrow> vector_add v (Some x); deser_elements f n v buf })
   }"

text \<open>The result, the transaction and \<open>consumed_length\<close>.\<close>

definition dogecoin_tx_deserialize :: "bytes \<Rightarrow> dogecoin_tx \<Rightarrow> (bool \<times> dogecoin_tx \<times> nat) option" where
  "dogecoin_tx_deserialize tx_serialized tx =
     (case deser_s32 tx_serialized of
        None \<Rightarrow> Some (False, tx, 0)
      | Some (v, buf) \<Rightarrow>
          let tx = tx\<lparr>tx_version := v\<rparr>
          in case deser_varlen buf of
            None \<Rightarrow> Some (False, tx, 0)
          | Some (n, buf) \<Rightarrow> do {
              ins \<leftarrow> vin tx;
              (ok, ins, buf) \<leftarrow> deser_elements (dogecoin_tx_in_deserialize dogecoin_tx_in_new) (unat n) ins buf;
              let tx = tx\<lparr>vin := Some ins\<rparr>;
              (if \<not> ok then Some (False, tx, 0)
               else case deser_varlen buf of
                 None \<Rightarrow> Some (False, tx, 0)
               | Some (n, buf) \<Rightarrow> do {
                   outs \<leftarrow> vout tx;
                   (ok, outs, buf) \<leftarrow> deser_elements (dogecoin_tx_out_deserialize dogecoin_tx_out_new) (unat n) outs buf;
                   let tx = tx\<lparr>vout := Some outs\<rparr>;
                   (if \<not> ok then Some (False, tx, 0)
                    else case deser_u32 buf of
                      None \<Rightarrow> Some (False, tx, 0)
                    | Some (l, buf) \<Rightarrow>
                        Some (True, tx\<lparr>tx_locktime := l\<rparr>, length tx_serialized - length buf))
                 })
            })"

section \<open>Hashes\<close>

definition dogecoin_hash :: "bytes \<Rightarrow> bytes \<Rightarrow> bytes option" where
  "dogecoin_hash datain hashout = do {
     hashout \<leftarrow> sha256_raw datain hashout;
     sha256_raw (take SHA256_DIGEST_LENGTH hashout) hashout
   }"

text \<open>\<open>hash[0] == 0 && !memcmp(hash, hash + 1, 19)\<close>.\<close>

definition dogecoin_hash_is_empty :: "bytes \<Rightarrow> bool option" where
  "dogecoin_hash_is_empty h = do {
     x \<leftarrow> mem_get h 0;
     a \<leftarrow> mem_read h 0 19;
     b \<leftarrow> mem_read h 1 19;
     Some (x = 0 \<and> a = b)
   }"

definition dogecoin_hash_equal :: "bytes \<Rightarrow> bytes \<Rightarrow> bool option" where
  "dogecoin_hash_equal a b = do {
     x \<leftarrow> mem_read a 0 DOGECOIN_HASH_LENGTH;
     y \<leftarrow> mem_read b 0 DOGECOIN_HASH_LENGTH;
     Some (x = y)
   }"

definition contents :: "cstring \<Rightarrow> bytes option" where
  "contents s = read_cells (take (len s) (str s))"

definition dogecoin_tx_hash :: "dogecoin_tx \<Rightarrow> bytes \<Rightarrow> bytes option" where
  "dogecoin_tx_hash tx hashout = do {
     txser \<leftarrow> cstr_new_sz 1024;
     txser \<leftarrow> dogecoin_tx_serialize tx txser;
     b \<leftarrow> contents txser;
     hashout \<leftarrow> sha256_raw b hashout;
     sha256_raw (take DOGECOIN_HASH_LENGTH hashout) hashout
   }"

definition dogecoin_tx_prevout_hash :: "dogecoin_tx \<Rightarrow> bytes \<Rightarrow> bytes option" where
  "dogecoin_tx_prevout_hash tx hash = do {
     s \<leftarrow> cstr_new_sz 512;
     v \<leftarrow> vin tx;
     s \<leftarrow> vec_each (\<lambda>i s. do { s \<leftarrow> ser_u256 s (prev_hash (prevout i)); ser_u32 s (prev_n (prevout i)) })
            v 0 (vlen v) s;
     b \<leftarrow> contents s;
     dogecoin_hash b hash
   }"

definition dogecoin_tx_sequence_hash :: "dogecoin_tx \<Rightarrow> bytes \<Rightarrow> bytes option" where
  "dogecoin_tx_sequence_hash tx hash = do {
     s \<leftarrow> cstr_new_sz 512;
     v \<leftarrow> vin tx;
     s \<leftarrow> vec_each (\<lambda>i s. ser_u32 s (sequence i)) v 0 (vlen v) s;
     b \<leftarrow> contents s;
     dogecoin_hash b hash
   }"

definition dogecoin_tx_outputs_hash :: "dogecoin_tx \<Rightarrow> bytes \<Rightarrow> bytes option" where
  "dogecoin_tx_outputs_hash tx hash =
     (case vout tx of
        None \<Rightarrow> Some hash
      | Some v \<Rightarrow> do {
          s \<leftarrow> cstr_new_sz 512;
          s \<leftarrow> vec_each dogecoin_tx_out_serialize v 0 (vlen v) s;
          b \<leftarrow> contents s;
          dogecoin_hash b hash
        })"

section \<open>Copies\<close>

definition copy_script :: "cstring option \<Rightarrow> cstring option option" where
  "copy_script src =
     (case src of
        None \<Rightarrow> Some None
      | Some c \<Rightarrow> do {
          d \<leftarrow> cstr_new_sz (len c);
          b \<leftarrow> contents c;
          d \<leftarrow> cstr_append_buf d (Some b) (len c);
          Some (Some d)
        })"

definition dogecoin_tx_in_copy :: "dogecoin_tx_in \<Rightarrow> dogecoin_tx_in option" where
  "dogecoin_tx_in_copy src = do {
     s \<leftarrow> copy_script (script_sig src);
     Some \<lparr>prevout = prevout src, script_sig = s, sequence = sequence src\<rparr>
   }"

definition dogecoin_tx_out_copy :: "dogecoin_tx_out \<Rightarrow> dogecoin_tx_out option" where
  "dogecoin_tx_out_copy src = do {
     s \<leftarrow> copy_script (script_pubkey src);
     Some \<lparr>tx_value = tx_value src, script_pubkey = s\<rparr>
   }"

definition dogecoin_tx_copy :: "dogecoin_tx \<Rightarrow> dogecoin_tx \<Rightarrow> dogecoin_tx option" where
  "dogecoin_tx_copy dest src = do {
     let dest = dest\<lparr>tx_version := tx_version src, tx_locktime := tx_locktime src\<rparr>;
     dest \<leftarrow> (case vin src of
        None \<Rightarrow> Some (dest\<lparr>vin := None\<rparr>)
      | Some v \<Rightarrow> do {
          _ \<leftarrow> vector_free (vin dest) True;
          d \<leftarrow> vector_new (vlen v) True;
          d \<leftarrow> vec_each (\<lambda>x d. do { y \<leftarrow> dogecoin_tx_in_copy x; vector_add d (Some y) }) v 0 (vlen v) d;
          Some (dest\<lparr>vin := Some d\<rparr>)
        });
     (case vout src of
        None \<Rightarrow> Some (dest\<lparr>vout := None\<rparr>)
      | Some v \<Rightarrow> do {
          _ \<leftarrow> vector_free (vout dest) True;
          d \<leftarrow> vector_new (vlen v) True;
          d \<leftarrow> vec_each (\<lambda>x d. do { y \<leftarrow> dogecoin_tx_out_copy x; vector_add d (Some y) }) v 0 (vlen v) d;
          Some (dest\<lparr>vout := Some d\<rparr>)
        })
   }"

section \<open>The hash that is signed\<close>

text \<open>
  \<open>dogecoin_tx_sighash\<close> changes a copy of the transaction in three steps. First every script is
  emptied (a null script is followed) and the one that is signed becomes the script of the output
  it spends.
\<close>

definition sign_script :: "nat \<Rightarrow> bytes \<Rightarrow> nat \<Rightarrow> dogecoin_tx_in \<Rightarrow> dogecoin_tx_in option" where
  "sign_script in_num new_script i tx_in = do {
     s \<leftarrow> script_sig tx_in;
     s \<leftarrow> cstr_resize s 0;
     s \<leftarrow> (if i = in_num then cstr_append_buf s (Some new_script) (length new_script) else Some s);
     Some (tx_in\<lparr>script_sig := Some s\<rparr>)
   }"

definition zero_sequence :: "nat \<Rightarrow> nat \<Rightarrow> dogecoin_tx_in \<Rightarrow> dogecoin_tx_in option" where
  "zero_sequence in_num i tx_in = Some (if i \<noteq> in_num then tx_in\<lparr>sequence := 0\<rparr> else tx_in)"

definition blank_output :: "nat \<Rightarrow> dogecoin_tx_out \<Rightarrow> dogecoin_tx_out option" where
  "blank_output i tx_out = Some (tx_out\<lparr>tx_value := -1, script_pubkey := None\<rparr>)"

text \<open>Then the hash type chooses the outputs; the inner option is the result false.\<close>

definition sighash_outputs :: "nat \<Rightarrow> u32 \<Rightarrow> dogecoin_tx \<Rightarrow> dogecoin_tx option option" where
  "sighash_outputs in_num hashtype tx = do {
     ins \<leftarrow> vin tx;
     (if hashtype AND 0x1f = SIGHASH_NONE then do {
        _ \<leftarrow> vector_free (vout tx) True;
        outs \<leftarrow> vector_new 1 True;
        ins \<leftarrow> vec_modify (zero_sequence in_num) 0 (vlen ins) ins;
        Some (Some (tx\<lparr>vin := Some ins, vout := Some outs\<rparr>))
      }
      else if hashtype AND 0x1f = SIGHASH_SINGLE then do {
        outs \<leftarrow> vout tx;
        (if in_num \<ge> vlen outs then Some None
         else do {
           outs \<leftarrow> vector_resize outs (in_num + 1);
           outs \<leftarrow> vec_modify blank_output 0 in_num outs;
           ins \<leftarrow> vec_modify (zero_sequence in_num) 0 (vlen ins) ins;
           Some (Some (tx\<lparr>vin := Some ins, vout := Some outs\<rparr>))
         })
      }
      else Some (Some tx))
   }"

text \<open>And last it may keep only the input that is signed.\<close>

definition sighash_inputs :: "nat \<Rightarrow> u32 \<Rightarrow> dogecoin_tx \<Rightarrow> dogecoin_tx option" where
  "sighash_inputs in_num hashtype tx =
     (if hashtype AND SIGHASH_ANYONECANPAY \<noteq> 0 then do {
        ins \<leftarrow> vin tx;
        ins \<leftarrow> (if in_num > 0 then vector_remove_range ins 0 in_num else Some ins);
        ins \<leftarrow> vector_resize ins 1;
        Some (tx\<lparr>vin := Some ins\<rparr>)
      }
      else Some tx)"

text \<open>The copy with its scripts replaced, and the hash of what is left of it at the end.\<close>

definition sighash_scripts :: "dogecoin_tx \<Rightarrow> cstring \<Rightarrow> nat \<Rightarrow> dogecoin_tx option" where
  "sighash_scripts tx_to fromPubKey in_num = do {
     tx_tmp \<leftarrow> dogecoin_tx_new;
     tx_tmp \<leftarrow> dogecoin_tx_copy tx_tmp tx_to;
     new_script \<leftarrow> cstr_new_sz (len fromPubKey);
     script \<leftarrow> contents fromPubKey;
     (_, new_script) \<leftarrow> dogecoin_script_copy_without_op_codeseperator script new_script;
     new_script \<leftarrow> contents new_script;
     ins \<leftarrow> vin tx_tmp;
     ins \<leftarrow> vec_modify (sign_script in_num new_script) 0 (vlen ins) ins;
     Some (tx_tmp\<lparr>vin := Some ins\<rparr>)
   }"

definition sighash_digest :: "dogecoin_tx \<Rightarrow> u32 \<Rightarrow> bytes \<Rightarrow> bytes option" where
  "sighash_digest tx_tmp hashtype hash = do {
     s \<leftarrow> cstr_new_sz 512;
     s \<leftarrow> dogecoin_tx_serialize tx_tmp s;
     s \<leftarrow> ser_s32 s hashtype;
     b \<leftarrow> contents s;
     dogecoin_hash b hash
   }"

definition dogecoin_tx_sighash :: "dogecoin_tx \<Rightarrow> cstring \<Rightarrow> nat \<Rightarrow> u32 \<Rightarrow> bytes \<Rightarrow> (bool \<times> bytes) option" where
  "dogecoin_tx_sighash tx_to fromPubKey in_num hashtype hash = do {
     ins \<leftarrow> vin tx_to;
     (if in_num \<ge> vlen ins \<or> vout tx_to = None then Some (False, hash)
      else do {
        tx_tmp \<leftarrow> sighash_scripts tx_to fromPubKey in_num;
        r \<leftarrow> sighash_outputs in_num hashtype tx_tmp;
        (case r of
           None \<Rightarrow> Some (False, hash)
         | Some tx_tmp \<Rightarrow> do {
             tx_tmp \<leftarrow> sighash_inputs in_num hashtype tx_tmp;
             hash \<leftarrow> sighash_digest tx_tmp hashtype hash;
             Some (True, hash)
           })
      })
   }"

section \<open>Adding outputs\<close>

definition OP_RETURN :: u8 where "OP_RETURN = 0x6a"
definition OP_HASH256 :: u8 where "OP_HASH256 = 0xaa"

definition add_out :: "dogecoin_tx \<Rightarrow> u64 \<Rightarrow> (cstring \<Rightarrow> cstring option) \<Rightarrow> (bool \<times> dogecoin_tx) option" where
  "add_out tx amount build = do {
     s \<leftarrow> cstr_new_sz 1024;
     s \<leftarrow> build s;
     outs \<leftarrow> vout tx;
     outs \<leftarrow> vector_add outs (Some (dogecoin_tx_out_new\<lparr>script_pubkey := Some s, tx_value := amount\<rparr>));
     Some (True, tx\<lparr>vout := Some outs\<rparr>)
   }"

definition dogecoin_tx_add_data_out :: "dogecoin_tx \<Rightarrow> u64 \<Rightarrow> bytes \<Rightarrow> (bool \<times> dogecoin_tx) option" where
  "dogecoin_tx_add_data_out tx amount d =
     (if length d > 80 then Some (False, tx)
      else add_out tx amount (\<lambda>s. do {
        s \<leftarrow> dogecoin_script_append_op s OP_RETURN;
        dogecoin_script_append_pushdata s d (length d)
      }))"

definition dogecoin_tx_add_puzzle_out :: "dogecoin_tx \<Rightarrow> u64 \<Rightarrow> bytes \<Rightarrow> (bool \<times> dogecoin_tx) option" where
  "dogecoin_tx_add_puzzle_out tx amount puzzle =
     (if length puzzle > DOGECOIN_HASH_LENGTH then Some (False, tx)
      else add_out tx amount (\<lambda>s. do {
        s \<leftarrow> dogecoin_script_append_op s OP_HASH256;
        s \<leftarrow> dogecoin_script_append_pushdata s puzzle (length puzzle);
        dogecoin_script_append_op s OP_EQUAL
      }))"

definition dogecoin_tx_add_p2pkh_hash160_out :: "dogecoin_tx \<Rightarrow> u64 \<Rightarrow> bytes \<Rightarrow> (bool \<times> dogecoin_tx) option" where
  "dogecoin_tx_add_p2pkh_hash160_out tx amount hash160 =
     add_out tx amount (\<lambda>s. dogecoin_script_build_p2pkh s hash160)"

definition dogecoin_tx_add_p2sh_hash160_out :: "dogecoin_tx \<Rightarrow> u64 \<Rightarrow> bytes \<Rightarrow> (bool \<times> dogecoin_tx) option" where
  "dogecoin_tx_add_p2sh_hash160_out tx amount hash160 =
     add_out tx amount (\<lambda>s. dogecoin_script_build_p2sh s hash160)"

definition dogecoin_tx_outpoint_is_null :: "dogecoin_tx_outpoint \<Rightarrow> bool" where
  "dogecoin_tx_outpoint_is_null tx = True"

definition dogecoin_tx_is_coinbase :: "dogecoin_tx \<Rightarrow> bool option" where
  "dogecoin_tx_is_coinbase tx = do {
     v \<leftarrow> vin tx;
     (if vlen v = 1 then do {
        p \<leftarrow> vector_idx v 0;
        i \<leftarrow> p;
        e \<leftarrow> dogecoin_hash_is_empty (prev_hash (prevout i));
        Some (e \<and> prev_n (prevout i) = 0xffffffff)
      }
      else Some False)
   }"

datatype dogecoin_tx_sign_result =
    DOGECOIN_SIGN_UNKNOWN | DOGECOIN_SIGN_INVALID_KEY | DOGECOIN_SIGN_NO_KEY_MATCH
  | DOGECOIN_SIGN_SIGHASH_FAILED | DOGECOIN_SIGN_UNKNOWN_SCRIPT_TYPE
  | DOGECOIN_SIGN_INVALID_TX_OR_SCRIPT | DOGECOIN_SIGN_INPUTINDEX_OUT_OF_RANGE | DOGECOIN_SIGN_OK

fun dogecoin_tx_sign_result_to_str :: "dogecoin_tx_sign_result \<Rightarrow> string" where
  "dogecoin_tx_sign_result_to_str DOGECOIN_SIGN_OK = ''OK''"
| "dogecoin_tx_sign_result_to_str DOGECOIN_SIGN_INVALID_TX_OR_SCRIPT = ''INVALID_TX_OR_SCRIPT''"
| "dogecoin_tx_sign_result_to_str DOGECOIN_SIGN_INPUTINDEX_OUT_OF_RANGE = ''INPUTINDEX_OUT_OF_RANGE''"
| "dogecoin_tx_sign_result_to_str DOGECOIN_SIGN_INVALID_KEY = ''INVALID_KEY''"
| "dogecoin_tx_sign_result_to_str DOGECOIN_SIGN_NO_KEY_MATCH = ''NO_KEY_MATCH''"
| "dogecoin_tx_sign_result_to_str DOGECOIN_SIGN_UNKNOWN_SCRIPT_TYPE = ''SIGN_UNKNOWN_SCRIPT_TYPE''"
| "dogecoin_tx_sign_result_to_str DOGECOIN_SIGN_SIGHASH_FAILED = ''SIGHASH_FAILED''"
| "dogecoin_tx_sign_result_to_str DOGECOIN_SIGN_UNKNOWN = ''UNKOWN''"

section \<open>What a transaction holds\<close>

text \<open>Views: the values of an input, an output and a transaction, without pointers and buffers.\<close>

record txin_view =
  in_hash :: bytes
  in_n :: u32
  in_script :: bytes
  in_seq :: u32

record txout_view =
  out_value :: u64
  out_script :: bytes

record tx_view =
  v_version :: u32
  v_ins :: "txin_view list"
  v_outs :: "txout_view list"
  v_locktime :: u32

definition script_holds :: "cstring option \<Rightarrow> bytes \<Rightarrow> bool" where
  "script_holds c bs \<longleftrightarrow> (case c of None \<Rightarrow> bs = [] | Some s \<Rightarrow> cstr_holds s bs)"

definition in_holds :: "dogecoin_tx_in \<Rightarrow> txin_view \<Rightarrow> bool" where
  "in_holds i a \<longleftrightarrow> prev_hash (prevout i) = in_hash a \<and> length (in_hash a) = 32
     \<and> prev_n (prevout i) = in_n a \<and> script_holds (script_sig i) (in_script a) \<and> sequence i = in_seq a"

definition out_holds :: "dogecoin_tx_out \<Rightarrow> txout_view \<Rightarrow> bool" where
  "out_holds out a \<longleftrightarrow> tx_value out = out_value a \<and> script_holds (script_pubkey out) (out_script a)"

definition vec_views :: "('a \<Rightarrow> 'b \<Rightarrow> bool) \<Rightarrow> 'a vector \<Rightarrow> 'b list \<Rightarrow> bool" where
  "vec_views r v as \<longleftrightarrow> (\<exists>xs. vec_holds v (map Some xs) \<and> list_all2 r xs as)"

text \<open>A transaction holds a view; its vectors are shorter than \<open>2^32\<close>.\<close>

definition tx_holds :: "dogecoin_tx \<Rightarrow> tx_view \<Rightarrow> bool" where
  "tx_holds tx a \<longleftrightarrow> tx_version tx = v_version a \<and> tx_locktime tx = v_locktime a
     \<and> (\<exists>v. vin tx = Some v \<and> vec_views in_holds v (v_ins a)) \<and> length (v_ins a) < 2 ^ 32
     \<and> (\<exists>v. vout tx = Some v \<and> vec_views out_holds v (v_outs a)) \<and> length (v_outs a) < 2 ^ 32"

text \<open>The wire format of a view.\<close>

definition in_bytes :: "txin_view \<Rightarrow> bytes" where
  "in_bytes a = in_hash a @ le_bytes 4 (unat (in_n a)) @ varstr_bytes (in_script a) @ le_bytes 4 (unat (in_seq a))"

definition out_bytes :: "txout_view \<Rightarrow> bytes" where
  "out_bytes a = le_bytes 8 (unat (out_value a)) @ varstr_bytes (out_script a)"

definition tx_bytes :: "tx_view \<Rightarrow> bytes" where
  "tx_bytes a = le_bytes 4 (unat (v_version a))
     @ varlen_bytes (length (v_ins a)) @ concat (map in_bytes (v_ins a))
     @ varlen_bytes (length (v_outs a)) @ concat (map out_bytes (v_outs a))
     @ le_bytes 4 (unat (v_locktime a))"

section \<open>Loops over vectors that hold lists\<close>

lemma vec_idx:
  assumes "vec_holds v (map Some xs)" "i < length xs"
  shows "vector_idx v i = Some (Some (xs ! i))"
proof -
  have "take (length xs) (data v) = map Some (map Some xs)" "length xs \<le> length (data v)"
    using assms(1) by (simp_all add: vec_holds_def)
  then have "data v ! i = Some (Some (xs ! i))" "i < length (data v)"
    using assms(2) nth_prefix [of "length xs" "data v" "map Some (map Some xs)" i] by simp_all
  then show ?thesis by (simp add: vector_idx_def mem_get_def)
qed

fun each_of :: "('a \<Rightarrow> 's \<Rightarrow> 's option) \<Rightarrow> 'a list \<Rightarrow> 's \<Rightarrow> 's option" where
  "each_of f [] s = Some s"
| "each_of f (x # xs) s = do { s \<leftarrow> f x s; each_of f xs s }"

lemma vec_each_list:
  assumes "vec_holds v (map Some xs)" "i + n = length xs"
  shows "vec_each f v i n = each_of f (drop i xs)"
  using assms(2)
proof (induction n arbitrary: i)
  case 0
  then show ?case by (auto simp: fun_eq_iff)
next
  case (Suc n)
  then have d: "drop i xs = xs ! i # drop (Suc i) xs" by (simp add: Cons_nth_drop_Suc)
  have "vec_each f v (Suc i) n = each_of f (drop (Suc i) xs)" using Suc by simp
  then show ?case using Suc.prems vec_idx [OF assms(1), of i] by (intro ext) (simp add: d)
qed

lemma vec_each_all: "vec_holds v (map Some xs) \<Longrightarrow> vec_each f v 0 (vlen v) = each_of f xs"
  using vec_each_list [of v xs 0 "length xs" f] by (simp add: vec_holds_def)

lemma serialize_all_appends:
  assumes "list_all2 r xs as" "\<And>x a. r x a \<Longrightarrow> sink.appends (f x) (enc a)"
  shows "sink.appends (each_of f xs) (concat (map enc as))"
  using assms(1)
proof (induction rule: list_all2_induct)
  case Nil
  then show ?case by (simp add: sink.appends_def)
next
  case (Cons x xs a as)
  have "sink.appends (\<lambda>s. do { s \<leftarrow> f x s; each_of f xs s }) (enc a @ concat (map enc as))"
    by (intro sink.appends_comp assms(2) Cons)
  then show ?case by (simp add: fun_eq_iff)
qed

section \<open>Serialisation of views\<close>

lemma ser_script_appends [appending]:
  "script_holds c bs \<Longrightarrow> sink.appends (\<lambda>s. ser_varstr s c) (varstr_bytes bs)"
  using ser_varlen_appends [of 0] ser_varstr_appends [of _ bs]
  by (cases c) (auto simp: script_holds_def ser_varstr_def varstr_bytes_def)

lemma in_serialize_appends: "in_holds i a \<Longrightarrow> sink.appends (dogecoin_tx_in_serialize i) (in_bytes a)"
  unfolding dogecoin_tx_in_serialize_def in_bytes_def in_holds_def
  by (elim conjE, simp only:) (intro sink.appends_comp appending, simp_all)

lemma out_serialize_appends: "out_holds out a \<Longrightarrow> sink.appends (dogecoin_tx_out_serialize out) (out_bytes a)"
  unfolding dogecoin_tx_out_serialize_def out_bytes_def out_holds_def
  by (elim conjE, simp only:) (intro sink.appends_comp appending, simp_all)

lemma in_all_appends:
  "vec_views in_holds v as \<Longrightarrow> sink.appends (vec_each dogecoin_tx_in_serialize v 0 (vlen v)) (concat (map in_bytes as))"
  by (auto simp: vec_views_def vec_each_all intro!: serialize_all_appends in_serialize_appends)

lemma out_all_appends:
  "vec_views out_holds v as \<Longrightarrow> sink.appends (vec_each dogecoin_tx_out_serialize v 0 (vlen v)) (concat (map out_bytes as))"
  by (auto simp: vec_views_def vec_each_all intro!: serialize_all_appends out_serialize_appends)

lemma views_length: "vec_views r v as \<Longrightarrow> vlen v = length as"
  by (auto simp: vec_views_def vec_holds_def dest: list_all2_lengthD)

lemma ser_count_appends:
  "vec_views r v as \<Longrightarrow> length as < 4294967296 \<Longrightarrow>
   sink.appends (\<lambda>s. ser_varlen s (of_nat (vlen v))) (varlen_bytes (length as))"
  using ser_varlen_appends [of "of_nat (length as)"] by (simp add: views_length unat_of_nat)

lemma tx_serialize_appends:
  assumes "tx_holds tx a"
  shows "sink.appends (dogecoin_tx_serialize tx) (tx_bytes a)"
proof -
  obtain i out where v: "vin tx = Some i" "vec_views in_holds i (v_ins a)"
    "vout tx = Some out" "vec_views out_holds out (v_outs a)"
    and n: "length (v_ins a) < 4294967296" "length (v_outs a) < 4294967296"
    using assms by (auto simp: tx_holds_def)
  have t: "tx_version tx = v_version a" "tx_locktime tx = v_locktime a"
    using assms by (simp_all add: tx_holds_def)
  show ?thesis
    unfolding dogecoin_tx_serialize_def tx_bytes_def v(1,3) option.case t
    by (intro sink.appends_comp ser_ints_append ser_count_appends [OF v(2) n(1)]
        ser_count_appends [OF v(4) n(2)] in_all_appends [OF v(2)] out_all_appends [OF v(4)])
qed

text \<open>A transaction none of whose inputs has a null script, as signing needs it.\<close>

definition in_holds_script :: "dogecoin_tx_in \<Rightarrow> txin_view \<Rightarrow> bool" where
  "in_holds_script i a \<longleftrightarrow> in_holds i a \<and> script_sig i \<noteq> None"

definition signable :: "dogecoin_tx \<Rightarrow> tx_view \<Rightarrow> bool" where
  "signable tx a \<longleftrightarrow> tx_version tx = v_version a \<and> tx_locktime tx = v_locktime a
     \<and> (\<exists>v. vin tx = Some v \<and> vec_views in_holds_script v (v_ins a)) \<and> length (v_ins a) < 2 ^ 32
     \<and> (\<exists>v. vout tx = Some v \<and> vec_views out_holds v (v_outs a)) \<and> length (v_outs a) < 2 ^ 32"

lemma signable_holds: "signable tx a \<Longrightarrow> tx_holds tx a"
  unfolding signable_def tx_holds_def vec_views_def in_holds_script_def
  by (auto intro: list_all2_mono)

section \<open>Reading back\<close>

lemma script_holds_Some: "cstr_holds s bs \<Longrightarrow> script_holds (Some s) bs"
  by (simp add: script_holds_def)

lemma deser_script:
  assumes "length bs < 2 ^ 30"
  obtains s where "deser_varstr (varstr_bytes bs @ rest) = Some (Some (s, rest))" "cstr_holds s bs"
  using deser_varstr_bytes [OF assms] by blast

lemma in_deserialize:
  assumes "length (in_hash a) = 32" "length (in_script a) < 2 ^ 30"
  shows "\<exists>i. dogecoin_tx_in_deserialize tx_in (in_bytes a @ rest) = Some (Some (i, rest)) \<and> in_holds_script i a"
proof -
  obtain s where "deser_varstr (varstr_bytes (in_script a) @ le_bytes 4 (unat (in_seq a)) @ rest)
      = Some (Some (s, le_bytes 4 (unat (in_seq a)) @ rest))" "cstr_holds s (in_script a)"
    using deser_script [OF assms(2)] .
  then show ?thesis
    using assms(1) by (simp add: dogecoin_tx_in_deserialize_def in_bytes_def deser_u256_def in_holds_def
        in_holds_script_def script_holds_Some del: le_bytes_numeral)
qed

lemma out_deserialize:
  assumes "length (out_script a) < 2 ^ 30"
  shows "\<exists>out. dogecoin_tx_out_deserialize tx_out (out_bytes a @ rest) = Some (Some (out, rest)) \<and> out_holds out a"
proof -
  obtain s where "deser_varstr (varstr_bytes (out_script a) @ rest) = Some (Some (s, rest))"
    "cstr_holds s (out_script a)"
    using deser_script [OF assms] .
  then show ?thesis
    by (simp add: dogecoin_tx_out_deserialize_def out_bytes_def deser_s64_def out_holds_def
        script_holds_Some del: le_bytes_numeral)
qed

lemma deser_elements_all:
  assumes "\<And>a rest. a \<in> set as \<Longrightarrow> \<exists>x. f (enc a @ rest) = Some (Some (x, rest)) \<and> r x a"
    and "vec_views r v bs" "length bs + length as < 2 ^ 63"
  shows "\<exists>v'. deser_elements f (length as) v (concat (map enc as) @ rest) = Some (True, v', rest)
    \<and> vec_views r v' (bs @ as)"
  using assms
proof (induction as arbitrary: v bs)
  case (Cons a as)
  obtain x where x: "f (enc a @ concat (map enc as) @ rest) = Some (Some (x, concat (map enc as) @ rest))" "r x a"
    using Cons.prems(1) [of a] by auto
  obtain xs where xs: "vec_holds v (map Some xs)" "list_all2 r xs bs"
    using Cons.prems(2) by (auto simp: vec_views_def)
  then have "length (map Some xs) < 2 ^ 63"
    using Cons.prems(3) by (simp add: list_all2_lengthD)
  then obtain w where w: "vector_add v (Some x) = Some w" "vec_holds w (map Some (xs @ [x]))"
    using vec_add [OF xs(1), of "Some x"] by auto
  have "vec_views r w (bs @ [a])"
    using w(2) xs(2) x(2) by (auto simp: vec_views_def intro!: exI [of _ "xs @ [x]"] list_all2_appendI)
  moreover have "length (bs @ [a]) + length as < 2 ^ 63" using Cons.prems(3) by simp
  ultimately have "\<exists>v'. deser_elements f (length as) w (concat (map enc as) @ rest) = Some (True, v', rest)
      \<and> vec_views r v' ((bs @ [a]) @ as)"
    using Cons.prems(1) by (intro Cons.IH) auto
  then show ?case using x(1) w(1) by simp
qed simp

text \<open>An empty transaction to read into.\<close>

lemma tx_new_holds:
  "\<exists>tx. dogecoin_tx_new = Some tx \<and> tx_holds tx \<lparr>v_version = 1, v_ins = [], v_outs = [], v_locktime = 0\<rparr>"
proof -
  obtain i where i: "vector_new 8 True = Some i" "vec_holds i ([] :: dogecoin_tx_in option list)"
    using vec_new [of 8 True] by auto
  obtain out where out: "vector_new 8 True = Some out" "vec_holds out ([] :: dogecoin_tx_out option list)"
    using vec_new [of 8 True] by auto
  show ?thesis
    using i out by (simp add: dogecoin_tx_new_def tx_holds_def vec_views_def)
qed

lemma tx_new_view:
  "dogecoin_tx_new = Some tx \<Longrightarrow> tx_holds tx \<lparr>v_version = 1, v_ins = [], v_outs = [], v_locktime = 0\<rparr>"
  using tx_new_holds by (metis option.inject)

definition view_ok :: "tx_view \<Rightarrow> bool" where
  "view_ok a \<longleftrightarrow> (\<forall>i\<in>set (v_ins a). length (in_hash i) = 32 \<and> length (in_script i) < 2 ^ 30)
     \<and> (\<forall>out\<in>set (v_outs a). length (out_script out) < 2 ^ 30)
     \<and> length (v_ins a) < 2 ^ 32 \<and> length (v_outs a) < 2 ^ 32"

lemma tx_deserialize_bytes:
  assumes "view_ok a" "dogecoin_tx_new = Some tx0"
  shows "\<exists>tx'. dogecoin_tx_deserialize (tx_bytes a @ rest) tx0 = Some (True, tx', length (tx_bytes a))
    \<and> signable tx' a"
proof -
  let ?outs = "varlen_bytes (length (v_outs a)) @ concat (map out_bytes (v_outs a)) @ le_bytes 4 (unat (v_locktime a)) @ rest"
  obtain i0 o0 where t: "vin tx0 = Some i0" "vec_views in_holds i0 []" "vout tx0 = Some o0" "vec_views out_holds o0 []"
    using tx_new_view [OF assms(2)] by (auto simp: tx_holds_def)
  then have "vec_views in_holds_script i0 []" by (simp add: vec_views_def)
  with in_deserialize assms(1) obtain i where i: "deser_elements (dogecoin_tx_in_deserialize dogecoin_tx_in_new) (length (v_ins a)) i0
      (concat (map in_bytes (v_ins a)) @ ?outs) = Some (True, i, ?outs)" "vec_views in_holds_script i (v_ins a)"
    using deser_elements_all [of "v_ins a" "dogecoin_tx_in_deserialize dogecoin_tx_in_new" in_bytes in_holds_script i0 "[]" ?outs]
    by (auto simp: view_ok_def)
  let ?lock = "le_bytes 4 (unat (v_locktime a)) @ rest"
  obtain out where out: "deser_elements (dogecoin_tx_out_deserialize dogecoin_tx_out_new) (length (v_outs a)) o0
      (concat (map out_bytes (v_outs a)) @ ?lock) = Some (True, out, ?lock)" "vec_views out_holds out (v_outs a)"
    using deser_elements_all [of "v_outs a" "dogecoin_tx_out_deserialize dogecoin_tx_out_new" out_bytes out_holds o0 "[]" ?lock]
      t(4) out_deserialize assms(1) by (auto simp: view_ok_def)
  have n: "length (v_ins a) < 4294967296" "length (v_outs a) < 4294967296"
    using assms(1) by (simp_all add: view_ok_def)
  then have u: "unat (of_nat (length (v_ins a)) :: u32) = length (v_ins a)"
    "unat (of_nat (length (v_outs a)) :: u32) = length (v_outs a)"
    by (simp_all add: unat_of_nat)
  show ?thesis
    using i out t n u
    by (simp add: dogecoin_tx_deserialize_def tx_bytes_def signable_def del: le_bytes_numeral)
qed

text \<open>C8:
  Transactions survive serialisation. What \<open>dogecoin_tx_serialize\<close> appends for a transaction that
  holds a view \<open>a\<close> are the bytes of the wire format; \<open>dogecoin_tx_deserialize\<close> reads them back, whatever
  follows, into a new transaction that holds the same view, and reports exactly their length.
\<close>

theorem tx_round_trip:
  assumes "tx_holds tx a" "view_ok a" "cstr_holds s pre" "length pre + length (tx_bytes a) < 2 ^ 30"
    and "dogecoin_tx_new = Some tx0"
  shows "\<exists>s' tx'. dogecoin_tx_serialize tx s = Some s' \<and> cstr_holds s' (pre @ tx_bytes a)
    \<and> dogecoin_tx_deserialize (tx_bytes a @ rest) tx0 = Some (True, tx', length (tx_bytes a))
    \<and> tx_holds tx' a"
proof -
  have "length pre + length (tx_bytes a) < 1073741824" using assms(4) by simp
  then obtain s' where "dogecoin_tx_serialize tx s = Some s'" "cstr_holds s' (pre @ tx_bytes a)"
    using sink.appendsD [OF tx_serialize_appends [OF assms(1)] assms(3)] by blast
  with tx_deserialize_bytes [OF assms(2,5)] signable_holds show ?thesis by blast
qed

section \<open>Examples to run\<close>

definition one_byte_script :: cstring where
  "one_byte_script = \<lparr>str = Some 81 # Some 0 # replicate 6 None, len = 1, alloc = 8\<rparr>"

definition sample_in :: dogecoin_tx_in where
  "sample_in = \<lparr>prevout = \<lparr>prev_hash = replicate 32 7, prev_n = 1\<rparr>, script_sig = Some one_byte_script, sequence = 5\<rparr>"

definition sample_out :: dogecoin_tx_out where
  "sample_out = \<lparr>tx_value = 900, script_pubkey = Some one_byte_script\<rparr>"

definition vector_one :: "'a \<Rightarrow> 'a vector" where
  "vector_one x = \<lparr>data = Some (Some x) # replicate 7 (Some None), vlen = 1, valloc = 8, elem_free_f = True, freed = []\<rparr>"

definition sample_tx :: dogecoin_tx where
  "sample_tx = \<lparr>tx_version = 1, vin = Some (vector_one sample_in), vout = Some (vector_one sample_out), tx_locktime = 0\<rparr>"

definition sample_view :: tx_view where
  "sample_view = \<lparr>v_version = 1,
     v_ins = [\<lparr>in_hash = replicate 32 7, in_n = 1, in_script = [81], in_seq = 5\<rparr>],
     v_outs = [\<lparr>out_value = 900, out_script = [81]\<rparr>], v_locktime = 0\<rparr>"

definition fresh_tx :: dogecoin_tx where
  "fresh_tx = \<lparr>tx_version = 1,
     vin = Some \<lparr>data = replicate 8 (Some None), vlen = 0, valloc = 8, elem_free_f = True, freed = []\<rparr>,
     vout = Some \<lparr>data = replicate 8 (Some None), vlen = 0, valloc = 8, elem_free_f = True, freed = []\<rparr>,
     tx_locktime = 0\<rparr>"

lemma fresh_tx_new: "dogecoin_tx_new = Some fresh_tx"
  by (simp add: dogecoin_tx_new_def vector_new_def double_until.simps [of 8 8] fresh_tx_def)

lemma one_byte_script_holds: "cstr_holds one_byte_script [81]"
  by (simp add: one_byte_script_def cstr_holds_def)

lemma vector_one_views: "r x a \<Longrightarrow> vec_views r (vector_one x) [a]"
  unfolding vec_views_def by (intro exI [of _ "[x]"]) (simp add: vector_one_def vec_holds_def)

lemma sample_tx_holds: "tx_holds sample_tx sample_view"
  by (auto simp: tx_holds_def sample_tx_def sample_view_def in_holds_def out_holds_def sample_in_def
      sample_out_def script_holds_def one_byte_script_holds intro!: vector_one_views)

lemma sample_view_ok: "view_ok sample_view"
  by (simp add: view_ok_def sample_view_def)

lemma sample_length: "length (tx_bytes sample_view) = 62"
  by (simp add: tx_bytes_def in_bytes_def out_bytes_def varstr_bytes_def varlen_bytes_def sample_view_def
      del: le_bytes_numeral)

lemma tx_round_trip_witness:
  "\<exists>s' tx'. dogecoin_tx_serialize sample_tx empty_string = Some s' \<and> cstr_holds s' ([] @ tx_bytes sample_view)
    \<and> dogecoin_tx_deserialize (tx_bytes sample_view @ [1, 2]) fresh_tx = Some (True, tx', length (tx_bytes sample_view))
    \<and> tx_holds tx' sample_view"
  by (rule tx_round_trip [OF sample_tx_holds sample_view_ok empty_string_holds _ fresh_tx_new])
    (simp add: sample_length)

section \<open>Copies hold the same\<close>

lemma copy_script_holds:
  assumes "script_holds c bs"
  shows "\<exists>d. copy_script c = Some d \<and> script_holds d bs \<and> (c \<noteq> None \<longrightarrow> d \<noteq> None)"
proof (cases c)
  case None
  with assms show ?thesis by (simp add: copy_script_def script_holds_def)
next
  case (Some x)
  then have x: "cstr_holds x bs" using assms by (simp add: script_holds_def)
  then have n: "len x = length bs" "length bs < 2 ^ 30" by (auto simp: cstr_holds_def)
  obtain d where d: "cstr_new_sz (length bs) = Some d" "cstr_holds d []" using cstr_new_sz_ok [OF n(2)] by blast
  obtain e where "cstr_append_buf d (Some bs) (length bs) = Some e" "cstr_holds e bs"
    using cstr_append_ok [OF d(2), of bs] n(2) by auto
  with d n read_contents [OF x] Some show ?thesis
    by (simp add: copy_script_def contents_def script_holds_def)
qed

lemma in_copy_holds:
  "in_holds i a \<Longrightarrow> \<exists>j. dogecoin_tx_in_copy i = Some j \<and> in_holds j a"
  "in_holds_script i a \<Longrightarrow> \<exists>j. dogecoin_tx_in_copy i = Some j \<and> in_holds_script j a"
  using copy_script_holds [of "script_sig i" "in_script a"]
  by (auto simp: in_holds_def in_holds_script_def dogecoin_tx_in_copy_def)

lemma out_copy_holds: "out_holds i a \<Longrightarrow> \<exists>j. dogecoin_tx_out_copy i = Some j \<and> out_holds j a"
  using copy_script_holds [of "script_pubkey i" "out_script a"]
  by (auto simp: out_holds_def dogecoin_tx_out_copy_def)

lemma copy_elements:
  assumes "list_all2 r xs as" "\<And>x a. r x a \<Longrightarrow> \<exists>y. f x = Some y \<and> r y a"
    and "vec_views r d bs" "length bs + length as < 2 ^ 63"
  shows "\<exists>d'. each_of (\<lambda>x d. do { y \<leftarrow> f x; vector_add d (Some y) }) xs d = Some d' \<and> vec_views r d' (bs @ as)"
  using assms(1,3,4)
proof (induction xs as arbitrary: d bs rule: list_all2_induct)
  case Nil
  then show ?case by simp
next
  case (Cons x xs a as)
  obtain y where y: "f x = Some y" "r y a" using assms(2) [OF Cons(1)] by blast
  obtain ys where ys: "vec_holds d (map Some ys)" "list_all2 r ys bs" using Cons.prems(1) by (auto simp: vec_views_def)
  then have "length (map Some ys) < 2 ^ 63" using Cons.prems(2) by (simp add: list_all2_lengthD)
  then obtain w where w: "vector_add d (Some y) = Some w" "vec_holds w (map Some (ys @ [y]))"
    using vec_add [OF ys(1), of "Some y"] by auto
  have v: "vec_views r w (bs @ [a])"
    using w(2) ys(2) y(2) by (auto simp: vec_views_def intro!: exI [of _ "ys @ [y]"] list_all2_appendI)
  have "length (bs @ [a]) + length as < 2 ^ 63" using Cons.prems(2) by simp
  from Cons(3) [OF v this] y(1) w(1) show ?case by simp
qed

lemma copy_vector:
  assumes "vec_views r v as" "\<And>x a. r x a \<Longrightarrow> \<exists>y. f x = Some y \<and> r y a" "length as < 2 ^ 32"
  shows "\<exists>d d'. vector_new (vlen v) True = Some d
    \<and> vec_each (\<lambda>x d. do { y \<leftarrow> f x; vector_add d (Some y) }) v 0 (vlen v) d = Some d' \<and> vec_views r d' as"
proof -
  obtain xs where xs: "vec_holds v (map Some xs)" "list_all2 r xs as" using assms(1) by (auto simp: vec_views_def)
  have n: "vlen v = length as" using views_length [OF assms(1)] .
  obtain d where d: "vector_new (vlen v) True = Some d" "vec_holds d ([] :: 'a option list)"
    using vec_new [of "vlen v" True] assms(3) n by auto
  then have "vec_views r d []" by (simp add: vec_views_def)
  then obtain d' where "each_of (\<lambda>x d. do { y \<leftarrow> f x; vector_add d (Some y) }) xs d = Some d'" "vec_views r d' as"
    using copy_elements [of r xs as f d "[]"] xs(2) assms(2,3) by auto
  with d(1) show ?thesis by (auto simp: vec_each_all [OF xs(1)])
qed

lemma views_free: "vec_views r v as \<Longrightarrow> \<exists>gone. vector_free (Some v) True = Some gone"
  unfolding vec_views_def using vec_free by blast

lemma tx_copy_views:
  assumes "\<And>x a. r x a \<Longrightarrow> \<exists>y. dogecoin_tx_in_copy x = Some y \<and> r y a"
    and "vin src = Some i" "vec_views r i ins" "length ins < 2 ^ 32"
    and "vout src = Some out" "vec_views out_holds out outs" "length outs < 2 ^ 32"
    and "tx_holds dest b"
  shows "\<exists>d i' out'. dogecoin_tx_copy dest src = Some d \<and> tx_version d = tx_version src
    \<and> tx_locktime d = tx_locktime src \<and> vin d = Some i' \<and> vec_views r i' ins
    \<and> vout d = Some out' \<and> vec_views out_holds out' outs"
proof -
  obtain g1 g2 where g: "vector_free (vin dest) True = Some g1" "vector_free (vout dest) True = Some g2"
    using assms(8) views_free [of in_holds] views_free [of out_holds] by (fastforce simp: tx_holds_def)
  obtain d1 d1' where d1: "vector_new (vlen i) True = Some d1"
    "vec_each (\<lambda>x d. do { y \<leftarrow> dogecoin_tx_in_copy x; vector_add d (Some y) }) i 0 (vlen i) d1 = Some d1'"
    "vec_views r d1' ins"
    using copy_vector [of r i ins dogecoin_tx_in_copy] assms(1,3,4) by blast
  obtain d2 d2' where d2: "vector_new (vlen out) True = Some d2"
    "vec_each (\<lambda>x d. do { y \<leftarrow> dogecoin_tx_out_copy x; vector_add d (Some y) }) out 0 (vlen out) d2 = Some d2'"
    "vec_views out_holds d2' outs"
    using copy_vector [of out_holds out outs dogecoin_tx_out_copy] assms(6,7) out_copy_holds by blast
  show ?thesis
    using g d1 d2 assms(2,5) by (simp add: dogecoin_tx_copy_def)
qed

text \<open>A copy of a transaction holds what the original holds, in buffers of its own, whatever the
  destination held before; it serialises to the same bytes.
\<close>

theorem tx_copy_same:
  assumes "tx_holds src a" "tx_holds dest b" "cstr_holds s pre" "length pre + length (tx_bytes a) < 2 ^ 30"
  shows "\<exists>d s'. dogecoin_tx_copy dest src = Some d \<and> tx_holds d a
    \<and> dogecoin_tx_serialize d s = Some s' \<and> cstr_holds s' (pre @ tx_bytes a)"
proof -
  obtain i out where "vin src = Some i" "vec_views in_holds i (v_ins a)"
    "vout src = Some out" "vec_views out_holds out (v_outs a)"
    using assms(1) by (auto simp: tx_holds_def)
  then obtain d where d: "dogecoin_tx_copy dest src = Some d" "tx_holds d a"
    using tx_copy_views [of in_holds src i "v_ins a" out "v_outs a" dest b] in_copy_holds(1) assms(1,2)
    by (auto simp: tx_holds_def)
  have "length pre + length (tx_bytes a) < 1073741824" using assms(4) by simp
  with d sink.appendsD [OF tx_serialize_appends [OF d(2)] assms(3)] show ?thesis by blast
qed

lemma tx_copy_same_witness:
  "\<exists>d s'. dogecoin_tx_copy sample_tx sample_tx = Some d \<and> tx_holds d sample_view
    \<and> dogecoin_tx_serialize d empty_string = Some s' \<and> cstr_holds s' ([] @ tx_bytes sample_view)"
  by (rule tx_copy_same [OF sample_tx_holds sample_tx_holds empty_string_holds]) (simp add: sample_length)

section \<open>What is signed\<close>

text \<open>
  The view that is hashed: the script that is signed in its input and no other script; with \<open>NONE\<close> no
  output and with \<open>SINGLE\<close> blank outputs up to the one of the same index, in both cases with zero
  sequence numbers in the other inputs; with \<open>ANYONECANPAY\<close> no other input. The value \<open>None\<close> says
  that there is nothing to sign.
\<close>

definition signed_ins :: "nat \<Rightarrow> bytes \<Rightarrow> txin_view list \<Rightarrow> txin_view list" where
  "signed_ins in_num script ins =
     map (\<lambda>j. (ins ! j)\<lparr>in_script := if j = in_num then script else []\<rparr>) [0..<length ins]"

definition zeroed_ins :: "nat \<Rightarrow> txin_view list \<Rightarrow> txin_view list" where
  "zeroed_ins in_num ins =
     map (\<lambda>j. if j \<noteq> in_num then (ins ! j)\<lparr>in_seq := 0\<rparr> else ins ! j) [0..<length ins]"

definition outputs_view :: "nat \<Rightarrow> u32 \<Rightarrow> tx_view \<Rightarrow> tx_view option" where
  "outputs_view in_num hashtype a =
     (if hashtype AND 0x1f = SIGHASH_NONE then
        Some (a\<lparr>v_ins := zeroed_ins in_num (v_ins a), v_outs := []\<rparr>)
      else if hashtype AND 0x1f = SIGHASH_SINGLE then
        (if length (v_outs a) \<le> in_num then None
         else Some (a\<lparr>v_ins := zeroed_ins in_num (v_ins a),
           v_outs := replicate in_num \<lparr>out_value = -1, out_script = []\<rparr> @ [v_outs a ! in_num]\<rparr>))
      else Some a)"

definition inputs_view :: "nat \<Rightarrow> u32 \<Rightarrow> tx_view \<Rightarrow> tx_view" where
  "inputs_view in_num hashtype a =
     (if hashtype AND SIGHASH_ANYONECANPAY \<noteq> 0 then a\<lparr>v_ins := [v_ins a ! in_num]\<rparr> else a)"

definition sighash_view :: "nat \<Rightarrow> u32 \<Rightarrow> bytes \<Rightarrow> tx_view \<Rightarrow> tx_view option" where
  "sighash_view in_num hashtype script a =
     (if length (v_ins a) \<le> in_num then None
      else map_option (inputs_view in_num hashtype)
        (outputs_view in_num hashtype (a\<lparr>v_ins := signed_ins in_num script (v_ins a)\<rparr>)))"

lemma vec_set:
  assumes "vec_holds v xs" "i < length xs"
  shows "\<exists>d. mem_set (data v) i (Some y) = Some d \<and> vec_holds (v\<lparr>data := d\<rparr>) (xs[i := y])"
proof -
  have "i < length (data v)" using assms by (simp add: vec_holds_def)
  then show ?thesis
    using assms by (simp add: mem_set_def vec_holds_def take_update_swap map_update)
qed

lemma modify_list:
  assumes "vec_holds v (map Some (ys @ xs @ ws))" "length ys = i" "length zs = length xs"
    and "\<And>j. j < length xs \<Longrightarrow> f (i + j) (xs ! j) = Some (zs ! j)"
  shows "\<exists>v'. vec_modify f i (length xs) v = Some v' \<and> vec_holds v' (map Some (ys @ zs @ ws))"
  using assms
proof (induction xs arbitrary: v ys zs i)
  case (Cons x xs)
  obtain z zs' where zs: "zs = z # zs'" using Cons.prems(3) by (cases zs) auto
  have f: "f i x = Some z" using Cons.prems(4) [of 0] zs by simp
  have idx: "vector_idx v i = Some (Some x)"
    using vec_idx [OF Cons.prems(1), of i] Cons.prems(2) by (simp add: nth_append)
  obtain d where d: "mem_set (data v) i (Some (Some z)) = Some d"
    "vec_holds (v\<lparr>data := d\<rparr>) ((map Some (ys @ (x # xs) @ ws))[i := Some z])"
    using vec_set [OF Cons.prems(1), of i "Some z"] Cons.prems(2) by auto
  then have h: "vec_holds (v\<lparr>data := d\<rparr>) (map Some ((ys @ [z]) @ xs @ ws))"
    using Cons.prems(2) by (simp add: list_update_append)
  have "f (Suc i + j) (xs ! j) = Some (zs' ! j)" if "j < length xs" for j
    using Cons.prems(4) [of "Suc j"] that zs by simp
  with Cons.IH [OF h, of "Suc i" zs'] Cons.prems(2,3) zs obtain v' where
    "vec_modify f (Suc i) (length xs) (v\<lparr>data := d\<rparr>) = Some v'"
    "vec_holds v' (map Some ((ys @ [z]) @ zs' @ ws))" by auto
  with f idx d(1) zs show ?case by simp
qed simp

lemma modify_views:
  assumes "vec_views r v as" "n \<le> length as"
    and "\<And>j x. j < n \<Longrightarrow> r x (as ! j) \<Longrightarrow> \<exists>y. f j x = Some y \<and> r y (g j (as ! j))"
  shows "\<exists>v'. vec_modify f 0 n v = Some v' \<and> vec_views r v' (map (\<lambda>j. g j (as ! j)) [0..<n] @ drop n as)"
proof -
  obtain xs where xs: "vec_holds v (map Some xs)" "list_all2 r xs as" using assms(1) by (auto simp: vec_views_def)
  have l: "length xs = length as" using xs(2) by (rule list_all2_lengthD)
  define zs where "zs = map (\<lambda>j. the (f j (xs ! j))) [0..<n]"
  have z: "f j (xs ! j) = Some (zs ! j) \<and> r (zs ! j) (g j (as ! j))" if "j < n" for j
  proof -
    have "r (xs ! j) (as ! j)" using xs(2) that assms(2) by (simp add: list_all2_conv_all_nth)
    from assms(3) [OF that this] that show ?thesis by (auto simp: zs_def)
  qed
  have "vec_holds v (map Some ([] @ take n xs @ drop n xs))" using xs(1) by simp
  moreover have "f (0 + j) (take n xs ! j) = Some (zs ! j)" if "j < length (take n xs)" for j
    using z [of j] that by simp
  ultimately obtain v' where v': "vec_modify f 0 (length (take n xs)) v = Some v'"
    "vec_holds v' (map Some ([] @ zs @ drop n xs))"
    using modify_list [of v "[]" "take n xs" "drop n xs" 0 zs f] l assms(2) by (auto simp: zs_def)
  have "list_all2 r zs (map (\<lambda>j. g j (as ! j)) [0..<n])"
    using z by (simp add: list_all2_conv_all_nth zs_def)
  moreover have "list_all2 r (drop n xs) (drop n as)" using xs(2) by (rule list_all2_dropI)
  ultimately have "vec_views r v' (map (\<lambda>j. g j (as ! j)) [0..<n] @ drop n as)"
    using v'(2) by (auto simp: vec_views_def intro!: exI [of _ "zs @ drop n xs"] list_all2_appendI)
  with v'(1) l assms(2) show ?thesis by (auto simp: min_absorb2)
qed

lemma modify_all:
  assumes "vec_views r v as" "\<And>j x a. r x a \<Longrightarrow> \<exists>y. f j x = Some y \<and> r y (g j a)"
  shows "\<exists>v'. vec_modify f 0 (vlen v) v = Some v' \<and> vec_views r v' (map (\<lambda>j. g j (as ! j)) [0..<length as])"
  using modify_views [of r v as "length as" f g] assms views_length [OF assms(1)] by simp

lemma sign_script_holds:
  assumes "in_holds_script x a" "length sc < 2 ^ 30"
  shows "\<exists>y. sign_script in_num sc j x = Some y
    \<and> in_holds_script y (a\<lparr>in_script := if j = in_num then sc else []\<rparr>)"
proof -
  obtain s where s: "script_sig x = Some s" "cstr_holds s (in_script a)"
    using assms(1) by (auto simp: in_holds_script_def in_holds_def script_holds_def split: option.splits)
  obtain t where t: "cstr_resize s 0 = Some t" "cstr_holds t []" using cstr_clear [OF s(2)] by blast
  obtain u where "cstr_append_buf t (Some sc) (length sc) = Some u" "cstr_holds u sc"
    using cstr_append_ok [OF t(2), of sc] assms(2) by auto
  with s t assms(1) show ?thesis
    by (auto simp: sign_script_def in_holds_script_def in_holds_def script_holds_def)
qed

lemma zero_sequence_holds:
  "in_holds_script x a \<Longrightarrow> \<exists>y. zero_sequence in_num j x = Some y
    \<and> in_holds_script y (if j \<noteq> in_num then a\<lparr>in_seq := 0\<rparr> else a)"
  by (simp add: zero_sequence_def in_holds_script_def in_holds_def)

lemma blank_output_holds:
  "out_holds x a \<Longrightarrow> \<exists>y. blank_output j x = Some y \<and> out_holds y \<lparr>out_value = -1, out_script = []\<rparr>"
  by (simp add: blank_output_def out_holds_def script_holds_def)

lemma views_shrink:
  assumes "vec_views r v as" "n \<le> length as"
  shows "\<exists>v'. vector_resize v n = Some v' \<and> vec_views r v' (take n as)"
proof -
  obtain xs where xs: "vec_holds v (map Some xs)" "list_all2 r xs as" using assms(1) by (auto simp: vec_views_def)
  then have "n \<le> length (map Some xs)" using assms(2) by (simp add: list_all2_lengthD)
  then obtain v' where "vector_resize v n = Some v'" "vec_holds v' (map Some (take n xs))"
    using vec_shrink [OF xs(1)] by (auto simp: take_map)
  with xs(2) show ?thesis by (auto simp: vec_views_def intro: list_all2_takeI)
qed

lemma views_remove_front:
  assumes "vec_views r v as" "n \<le> length as" "length as < 2 ^ 32"
  shows "\<exists>v'. vector_remove_range v 0 n = Some v' \<and> vec_views r v' (drop n as)"
proof -
  obtain xs where xs: "vec_holds v (map Some xs)" "list_all2 r xs as" using assms(1) by (auto simp: vec_views_def)
  then have l: "length xs = length as" by (simp add: list_all2_lengthD)
  then obtain v' where "vector_remove_range v 0 n = Some v'" "vec_holds v' (map Some (drop n xs))"
    using vec_remove_range [OF xs(1), of 0 n] assms(2,3) by (auto simp: drop_map)
  with xs(2) show ?thesis by (auto simp: vec_views_def intro: list_all2_dropI)
qed

lemma outputs_step:
  assumes "signable tx a" "in_num < length (v_ins a)"
  shows "case outputs_view in_num hashtype a of
      None \<Rightarrow> sighash_outputs in_num hashtype tx = Some None
    | Some b \<Rightarrow> \<exists>tx'. sighash_outputs in_num hashtype tx = Some (Some tx') \<and> signable tx' b"
proof -
  obtain i out where v: "vin tx = Some i" "vec_views in_holds_script i (v_ins a)"
    "vout tx = Some out" "vec_views out_holds out (v_outs a)"
    using assms(1) by (auto simp: signable_def)
  obtain z where z: "vec_modify (zero_sequence in_num) 0 (vlen i) i = Some z"
    "vec_views in_holds_script z (zeroed_ins in_num (v_ins a))"
    using modify_all [OF v(2), of "zero_sequence in_num" "\<lambda>j a. if j \<noteq> in_num then a\<lparr>in_seq := 0\<rparr> else a"]
      zero_sequence_holds unfolding zeroed_ins_def by blast
  have t: "tx_version tx = v_version a" "tx_locktime tx = v_locktime a" "length (v_ins a) < 2 ^ 32"
    "length (v_outs a) < 2 ^ 32"
    using assms(1) by (simp_all add: signable_def)
  have lz: "length (zeroed_ins in_num (v_ins a)) = length (v_ins a)" by (simp add: zeroed_ins_def)
  consider "hashtype AND 0x1f = SIGHASH_NONE" | "hashtype AND 0x1f = SIGHASH_SINGLE" "length (v_outs a) \<le> in_num"
    | "hashtype AND 0x1f = SIGHASH_SINGLE" "in_num < length (v_outs a)"
    | "hashtype AND 0x1f \<noteq> SIGHASH_NONE" "hashtype AND 0x1f \<noteq> SIGHASH_SINGLE" by linarith
  then show ?thesis
  proof cases
    case 1
    obtain gone where g: "vector_free (Some out) True = Some gone" using views_free [OF v(4)] by blast
    obtain w where w: "vector_new 1 True = Some w" "vec_holds w ([] :: dogecoin_tx_out option list)"
      using vec_new [of 1 True] by auto
    then have "vec_views out_holds w []" by (simp add: vec_views_def)
    with 1 g w(1) z v(1,3) t lz show ?thesis
      by (simp add: outputs_view_def sighash_outputs_def signable_def)
  next
    case 2
    then show ?thesis
      using v(1,3) views_length [OF v(4)]
      by (simp add: outputs_view_def sighash_outputs_def SIGHASH_NONE_def SIGHASH_SINGLE_def)
  next
    case 3
    obtain w where w: "vector_resize out (in_num + 1) = Some w" "vec_views out_holds w (take (in_num + 1) (v_outs a))"
      using views_shrink [OF v(4), of "in_num + 1"] 3(2) by auto
    obtain u where u: "vec_modify blank_output 0 in_num w = Some u"
      "vec_views out_holds u (map (\<lambda>j. \<lparr>out_value = -1, out_script = []\<rparr>) [0..<in_num]
         @ drop in_num (take (in_num + 1) (v_outs a)))"
      using modify_views [OF w(2), of in_num blank_output "\<lambda>j a. \<lparr>out_value = -1, out_script = []\<rparr>"]
        blank_output_holds 3(2) by force
    have "drop in_num (take (in_num + 1) (v_outs a)) = [v_outs a ! in_num]"
      using 3(2) by (simp add: take_Suc_conv_app_nth)
    then have u2: "vec_views out_holds u (replicate in_num \<lparr>out_value = -1, out_script = []\<rparr> @ [v_outs a ! in_num])"
      using u(2) by (simp add: map_replicate_const)
    show ?thesis
      using 3 w(1) u(1) u2 z v(1,3) t lz views_length [OF v(4)]
      by (simp add: outputs_view_def sighash_outputs_def signable_def SIGHASH_NONE_def SIGHASH_SINGLE_def)
  next
    case 4
    then show ?thesis using v(1) assms(1) by (simp add: outputs_view_def sighash_outputs_def)
  qed
qed

lemma outputs_view_ins: "outputs_view in_num hashtype a = Some b \<Longrightarrow> length (v_ins b) = length (v_ins a)"
  by (auto simp: outputs_view_def zeroed_ins_def split: if_splits)

lemma inputs_step:
  assumes "signable tx a" "in_num < length (v_ins a)"
  shows "\<exists>tx'. sighash_inputs in_num hashtype tx = Some tx' \<and> signable tx' (inputs_view in_num hashtype a)"
proof (cases "hashtype AND SIGHASH_ANYONECANPAY = 0")
  case True
  with assms show ?thesis by (simp add: sighash_inputs_def inputs_view_def)
next
  case False
  obtain i where v: "vin tx = Some i" "vec_views in_holds_script i (v_ins a)" "length (v_ins a) < 2 ^ 32"
    using assms(1) by (auto simp: signable_def)
  obtain j where j: "(if in_num > 0 then vector_remove_range i 0 in_num else Some i) = Some j"
    "vec_views in_holds_script j (drop in_num (v_ins a))"
    using views_remove_front [OF v(2) _ v(3), of in_num] v(2) assms(2) by (cases "in_num > 0") auto
  have "1 \<le> length (drop in_num (v_ins a))" using assms(2) by simp
  then obtain k where "vector_resize j 1 = Some k" "vec_views in_holds_script k (take 1 (drop in_num (v_ins a)))"
    using views_shrink [OF j(2)] by blast
  moreover have "take 1 (drop in_num (v_ins a)) = [v_ins a ! in_num]"
    using assms(2) by (simp add: take_Suc_conv_app_nth [of 0, simplified] hd_drop_conv_nth)
  ultimately show ?thesis
    using False v(1) j(1) assms(1)
    by (auto simp: sighash_inputs_def inputs_view_def signable_def)
qed

lemma inputs_view_size:
  assumes "length (v_ins a) < 4294967296"
  shows "length (v_ins (inputs_view in_num hashtype a)) < 4294967296"
  using assms by (simp add: inputs_view_def)

lemma dogecoin_hash_reference: "length h = 32 \<Longrightarrow> dogecoin_hash m h = Some (sha256d m)"
  by (simp add: dogecoin_hash_def sha256_raw_reference sha256d_def sha_sizes)

lemma copy_for_signing:
  assumes "signable tx a" "tx_holds dest b"
  shows "\<exists>d. dogecoin_tx_copy dest tx = Some d \<and> signable d a"
proof -
  obtain i out where "vin tx = Some i" "vec_views in_holds_script i (v_ins a)"
    "vout tx = Some out" "vec_views out_holds out (v_outs a)"
    using assms(1) by (auto simp: signable_def)
  then show ?thesis
    using tx_copy_views [of in_holds_script tx i "v_ins a" out "v_outs a" dest b] in_copy_holds(2) assms
    by (auto simp: signable_def)
qed

lemma scripts_step:
  assumes "signable tx a" "cstr_holds from_key (concat (map item_bytes items))" "items \<noteq> []"
    and "\<forall>x\<in>set items. copy_ok x"
  shows "\<exists>t. sighash_scripts tx from_key in_num = Some t
    \<and> signable t (a\<lparr>v_ins := signed_ins in_num (without_separators items) (v_ins a)\<rparr>)"
proof -
  let ?sc = "without_separators items" let ?script = "concat (map item_bytes items)"
  obtain d where d: "dogecoin_tx_copy fresh_tx tx = Some d" "signable d a"
    using copy_for_signing [OF assms(1) tx_new_view [OF fresh_tx_new]] by blast
  have n: "length ?script < 2 ^ 30" "len from_key = length ?script" using assms(2) by (auto simp: cstr_holds_def)
  obtain n0 where n0: "cstr_new_sz (length ?script) = Some n0" "cstr_holds n0 []"
    using cstr_new_sz_ok [OF n(1)] by blast
  obtain n1 where n1: "dogecoin_script_copy_without_op_codeseperator ?script n0 = Some (True, n1)" "cstr_holds n1 ?sc"
    using copy_script_items [OF n0(2) assms(3,4)] n(1) by auto
  have c: "contents from_key = Some ?script" "contents n1 = Some ?sc"
    using read_contents assms(2) n1(2) by (auto simp: contents_def)
  have sc: "length ?sc < 2 ^ 30" using n(1) length_without_separators [of items] by simp
  obtain di where di: "vin d = Some di" "vec_views in_holds_script di (v_ins a)"
    using d(2) by (auto simp: signable_def)
  obtain di' where di': "vec_modify (sign_script in_num ?sc) 0 (vlen di) di = Some di'"
    "vec_views in_holds_script di' (signed_ins in_num ?sc (v_ins a))"
    using modify_all [OF di(2), of "sign_script in_num ?sc" "\<lambda>j a. a\<lparr>in_script := if j = in_num then ?sc else []\<rparr>"]
      sign_script_holds sc unfolding signed_ins_def by blast
  have "sighash_scripts tx from_key in_num = Some (d\<lparr>vin := Some di'\<rparr>)"
    using d(1) n0(1) n1(1) c di(1) di'(1) n(2) by (simp add: sighash_scripts_def fresh_tx_new)
  moreover have "signable (d\<lparr>vin := Some di'\<rparr>) (a\<lparr>v_ins := signed_ins in_num ?sc (v_ins a)\<rparr>)"
    using d(2) di'(2) by (simp add: signable_def signed_ins_def)
  ultimately show ?thesis by blast
qed

lemma digest_step:
  assumes "signable tx a" "length (tx_bytes a) + 4 < 2 ^ 30" "length hash = 32"
  shows "sighash_digest tx hashtype hash = Some (sha256d (tx_bytes a @ le_bytes 4 (unat hashtype)))"
proof -
  obtain s0 where s0: "cstr_new_sz 512 = Some s0" "cstr_holds s0 []" using cstr_new_sz_ok [of 512] by auto
  have "sink.appends (\<lambda>s. do { s \<leftarrow> dogecoin_tx_serialize tx s; ser_s32 s hashtype })
      (tx_bytes a @ le_bytes 4 (unat hashtype))"
    by (intro sink.appends_comp tx_serialize_appends signable_holds assms(1) ser_ints_append)
  from sink.appendsD [OF this s0(2)] assms(2) obtain s2 where
    "dogecoin_tx_serialize tx s0 \<bind> (\<lambda>s. ser_s32 s hashtype) = Some s2"
    "cstr_holds s2 (tx_bytes a @ le_bytes 4 (unat hashtype))" by auto
  then obtain s1 where "dogecoin_tx_serialize tx s0 = Some s1" "ser_s32 s1 hashtype = Some s2"
    "contents s2 = Some (tx_bytes a @ le_bytes 4 (unat hashtype))"
    using read_contents by (auto simp: bind_eq_Some_conv contents_def)
  with s0(1) assms(3) show ?thesis
    by (simp add: sighash_digest_def dogecoin_hash_reference del: le_bytes_numeral)
qed

lemma sighash_reference:
  assumes "signable tx a" "cstr_holds from_key (concat (map item_bytes items))" "items \<noteq> []"
    and "\<forall>x\<in>set items. copy_ok x" "length hash = 32"
    and "\<forall>b. sighash_view in_num hashtype (without_separators items) a = Some b \<longrightarrow>
           length (tx_bytes b) + 4 < 2 ^ 30"
  shows "dogecoin_tx_sighash tx from_key in_num hashtype hash =
    (case sighash_view in_num hashtype (without_separators items) a of
       None \<Rightarrow> Some (False, hash)
     | Some b \<Rightarrow> Some (True, sha256d (tx_bytes b @ le_bytes 4 (unat hashtype))))"
proof (cases "length (v_ins a) \<le> in_num")
  case True
  then show ?thesis
    using assms(1) by (auto simp: dogecoin_tx_sighash_def sighash_view_def signable_def dest: views_length)
next
  case False
  let ?a = "a\<lparr>v_ins := signed_ins in_num (without_separators items) (v_ins a)\<rparr>"
  obtain i out where i: "vin tx = Some i" "vlen i = length (v_ins a)" "vout tx = Some out"
    using assms(1) by (auto simp: signable_def dest: views_length)
  obtain t where t: "sighash_scripts tx from_key in_num = Some t" "signable t ?a"
    using scripts_step [OF assms(1-4)] by blast
  have lt: "in_num < length (v_ins ?a)" using False by (simp add: signed_ins_def)
  show ?thesis
  proof (cases "outputs_view in_num hashtype ?a")
    case None
    with outputs_step [OF t(2) lt, of hashtype] False i t(1) show ?thesis
      by (simp add: dogecoin_tx_sighash_def sighash_view_def)
  next
    case (Some b)
    obtain t1 where t1: "sighash_outputs in_num hashtype t = Some (Some t1)" "signable t1 b"
      using outputs_step [OF t(2) lt, of hashtype] Some by auto
    have "in_num < length (v_ins b)" using outputs_view_ins [OF Some] lt by simp
    then obtain t2 where t2: "sighash_inputs in_num hashtype t1 = Some t2"
      "signable t2 (inputs_view in_num hashtype b)"
      using inputs_step [OF t1(2)] by blast
    have view: "sighash_view in_num hashtype (without_separators items) a = Some (inputs_view in_num hashtype b)"
      using False Some by (simp add: sighash_view_def)
    have "length (tx_bytes (inputs_view in_num hashtype b)) + 4 < 2 ^ 30"
      using assms(6) view by blast
    with digest_step [OF t2(2) _ assms(5)] False i t(1) t1(1) t2(1) view show ?thesis
      by (simp add: dogecoin_tx_sighash_def del: le_bytes_numeral)
  qed
qed

text \<open>C9:
  The hash of a signature. For a transaction without null scripts and a script of shortest pushes and
  operations, \<open>dogecoin_tx_sighash\<close> gives the double SHA-256 of the serialised view that the hash type
  asks for (its inputs, outputs, scripts and sequence numbers) followed by the hash type. It gives
  false, and no hash, exactly when the input does not exist or \<open>SINGLE\<close> has no output of the same
  index.
\<close>

theorem sighash_standard:
  assumes "signable tx a" "cstr_holds from_key (concat (map item_bytes items))" "items \<noteq> []"
    and "\<forall>x\<in>set items. copy_ok x" "length hash = 32"
    and "\<forall>b. sighash_view in_num hashtype (without_separators items) a = Some b \<longrightarrow>
           length (tx_bytes b) + 4 < 2 ^ 30"
  shows "dogecoin_tx_sighash tx from_key in_num hashtype hash =
    (case sighash_view in_num hashtype (without_separators items) a of
       None \<Rightarrow> Some (False, hash)
     | Some b \<Rightarrow> Some (True, sha256d (tx_bytes b @ le_bytes 4 (unat hashtype))))"
  using assms by (rule sighash_reference)

lemma sample_signable: "signable sample_tx sample_view"
  by (auto simp: signable_def sample_tx_def sample_view_def in_holds_def in_holds_script_def out_holds_def
      sample_in_def sample_out_def script_holds_def one_byte_script_holds intro!: vector_one_views)

lemma sighash_standard_witness:
  "dogecoin_tx_sighash sample_tx \<lparr>str = map Some [118] @ Some 0 # replicate 6 None, len = 1, alloc = 8\<rparr> 0
      (SIGHASH_NONE OR SIGHASH_ANYONECANPAY) (replicate 32 0)
    = Some (True, sha256d (tx_bytes (sample_view\<lparr>v_outs := [],
        v_ins := [\<lparr>in_hash = replicate 32 7, in_n = 1, in_script = [118], in_seq = 5\<rparr>]\<rparr>)
      @ le_bytes 4 (unat (SIGHASH_NONE OR SIGHASH_ANYONECANPAY))))"
proof -
  have v: "sighash_view 0 (SIGHASH_NONE OR SIGHASH_ANYONECANPAY) (without_separators [Op OP_DUP]) sample_view
    = Some (sample_view\<lparr>v_outs := [],
        v_ins := [\<lparr>in_hash = replicate 32 7, in_n = 1, in_script = [118], in_seq = 5\<rparr>]\<rparr>)"
    by (simp add: sighash_view_def outputs_view_def inputs_view_def signed_ins_def zeroed_ins_def
        sample_view_def without_separators_def code_values SIGHASH_NONE_def SIGHASH_ANYONECANPAY_def)
  have "length (tx_bytes (sample_view\<lparr>v_outs := [],
        v_ins := [\<lparr>in_hash = replicate 32 7, in_n = 1, in_script = [118], in_seq = 5\<rparr>]\<rparr>)) + 4 < 2 ^ 30"
    by (simp add: tx_bytes_def in_bytes_def varstr_bytes_def varlen_bytes_def sample_view_def del: le_bytes_numeral)
  with v sighash_standard [OF sample_signable, of "\<lparr>str = map Some [118] @ Some 0 # replicate 6 None, len = 1, alloc = 8\<rparr>"
      "[Op OP_DUP]" "replicate 32 0" 0 "SIGHASH_NONE OR SIGHASH_ANYONECANPAY"]
  show ?thesis
    by (simp add: cstr_holds_def code_values del: le_bytes_numeral)
qed

section \<open>New outputs\<close>

lemma add_out_holds:
  assumes "tx_holds tx a" "length (v_outs a) + 1 < 2 ^ 32"
    and "\<And>s. cstr_holds s [] \<Longrightarrow> \<exists>s'. build s = Some s' \<and> cstr_holds s' sc"
  shows "\<exists>tx'. add_out tx amount build = Some (True, tx')
    \<and> tx_holds tx' (a\<lparr>v_outs := v_outs a @ [\<lparr>out_value = amount, out_script = sc\<rparr>]\<rparr>)"
proof -
  obtain s0 where s0: "cstr_new_sz 1024 = Some s0" "cstr_holds s0 []" using cstr_new_sz_ok [of 1024] by auto
  obtain s where s: "build s0 = Some s" "cstr_holds s sc" using assms(3) [OF s0(2)] by blast
  let ?out = "\<lparr>tx_value = amount, script_pubkey = Some s\<rparr>"
  obtain v xs where v: "vout tx = Some v" "vec_holds v (map Some xs)" "list_all2 out_holds xs (v_outs a)"
    using assms(1) by (auto simp: tx_holds_def vec_views_def)
  then have "length (map Some xs) < 2 ^ 63" using assms(2) by (simp add: list_all2_lengthD)
  then obtain w where w: "vector_add v (Some ?out) = Some w" "vec_holds w (map Some (xs @ [?out]))"
    using vec_add [OF v(2), of "Some ?out"] by auto
  have "out_holds ?out \<lparr>out_value = amount, out_script = sc\<rparr>"
    using s(2) by (simp add: out_holds_def script_holds_def)
  then have "vec_views out_holds w (v_outs a @ [\<lparr>out_value = amount, out_script = sc\<rparr>])"
    using w(2) v(3) unfolding vec_views_def by (intro exI [of _ "xs @ [?out]"]) (auto intro: list_all2_appendI)
  with s0(1) s(1) v(1) w(1) assms(1,2) show ?thesis
    by (simp add: add_out_def dogecoin_tx_out_new_def tx_holds_def)
qed

lemma data_script:
  assumes "length d \<le> 80" "cstr_holds s []"
  shows "\<exists>s'. do { s \<leftarrow> dogecoin_script_append_op s OP_RETURN; dogecoin_script_append_pushdata s d (length d) } = Some s'
    \<and> cstr_holds s' (concat (map item_bytes [Op OP_RETURN, Push d]))"
proof -
  have "sink.appends (\<lambda>s. do { s \<leftarrow> dogecoin_script_append_op s OP_RETURN;
      dogecoin_script_append_pushdata s d (length d) }) (item_bytes (Op OP_RETURN) @ item_bytes (Push d))"
    using assms(1) by (intro sink.appends_comp append_op_appends append_pushdata_appends) simp_all
  from sink.appendsD [OF this assms(2)] assms(1) show ?thesis by (simp add: push_size_def)
qed

lemma puzzle_script:
  assumes "length d \<le> 32" "cstr_holds s []"
  shows "\<exists>s'. do { s \<leftarrow> dogecoin_script_append_op s OP_HASH256;
      s \<leftarrow> dogecoin_script_append_pushdata s d (length d); dogecoin_script_append_op s OP_EQUAL } = Some s'
    \<and> cstr_holds s' (concat (map item_bytes [Op OP_HASH256, Push d, Op OP_EQUAL]))"
proof -
  have "sink.appends (\<lambda>s. do { s \<leftarrow> dogecoin_script_append_op s OP_HASH256;
      s \<leftarrow> dogecoin_script_append_pushdata s d (length d); dogecoin_script_append_op s OP_EQUAL })
      (item_bytes (Op OP_HASH256) @ item_bytes (Push d) @ item_bytes (Op OP_EQUAL))"
    using assms(1) by (intro sink.appends_comp append_op_appends append_pushdata_appends) simp_all
  from sink.appendsD [OF this assms(2)] assms(1) show ?thesis by (simp add: push_size_def)
qed

definition with_output :: "tx_view \<Rightarrow> u64 \<Rightarrow> bytes \<Rightarrow> tx_view" where
  "with_output a amount sc = a\<lparr>v_outs := v_outs a @ [\<lparr>out_value = amount, out_script = sc\<rparr>]\<rparr>"

text \<open>Adding an output appends exactly one: its value is the amount and its script pays to the key hash
  (and is classified so, with that hash), pays to the script hash, carries the data after
  \<open>OP_RETURN\<close>, or asks for the preimage of a puzzle. Data of more than 80 bytes and puzzles of more
  than 32 are refused and leave the transaction as it is.
\<close>

theorem outputs_added:
  assumes "tx_holds tx a" "length (v_outs a) + 1 < 2 ^ 32" "length h = 20"
  shows "(\<exists>t. dogecoin_tx_add_p2pkh_hash160_out tx amount h = Some (True, t) \<and> tx_holds t (with_output a amount (p2pkh_script h)))
    \<and> dogecoin_script_classify (p2pkh_script h) (Some []) = (DOGECOIN_TX_PUBKEYHASH, Some [h])
    \<and> (\<exists>t. dogecoin_tx_add_p2sh_hash160_out tx amount h = Some (True, t) \<and> tx_holds t (with_output a amount (p2sh_script h)))
    \<and> dogecoin_script_classify (p2sh_script h) (Some []) = (DOGECOIN_TX_SCRIPTHASH, Some [h])
    \<and> (if length d > 80 then dogecoin_tx_add_data_out tx amount d = Some (False, tx)
       else \<exists>t. dogecoin_tx_add_data_out tx amount d = Some (True, t)
              \<and> tx_holds t (with_output a amount (concat (map item_bytes [Op OP_RETURN, Push d]))))
    \<and> (if length d > 32 then dogecoin_tx_add_puzzle_out tx amount d = Some (False, tx)
       else \<exists>t. dogecoin_tx_add_puzzle_out tx amount d = Some (True, t)
              \<and> tx_holds t (with_output a amount (concat (map item_bytes [Op OP_HASH256, Push d, Op OP_EQUAL]))))"
proof (intro conjI)
  note add = add_out_holds [OF assms(1,2)]
  show "\<exists>t. dogecoin_tx_add_p2pkh_hash160_out tx amount h = Some (True, t) \<and> tx_holds t (with_output a amount (p2pkh_script h))"
    unfolding dogecoin_tx_add_p2pkh_hash160_out_def with_output_def
    by (rule add) (rule build_p2pkh_holds [OF _ assms(3)])
  show "\<exists>t. dogecoin_tx_add_p2sh_hash160_out tx amount h = Some (True, t) \<and> tx_holds t (with_output a amount (p2sh_script h))"
    unfolding dogecoin_tx_add_p2sh_hash160_out_def with_output_def
    by (rule add) (rule build_p2sh_holds [OF _ assms(3)])
  show "dogecoin_script_classify (p2pkh_script h) (Some []) = (DOGECOIN_TX_PUBKEYHASH, Some [h])"
    by (rule p2pkh_classified [OF assms(3)])
  show "dogecoin_script_classify (p2sh_script h) (Some []) = (DOGECOIN_TX_SCRIPTHASH, Some [h])"
    by (rule p2sh_classified [OF assms(3)])
  have dat: "\<exists>t. dogecoin_tx_add_data_out tx amount d = Some (True, t)
      \<and> tx_holds t (with_output a amount (concat (map item_bytes [Op OP_RETURN, Push d])))" if "length d \<le> 80"
    using that add [OF data_script [OF that]] by (simp add: dogecoin_tx_add_data_out_def with_output_def)
  show "if length d > 80 then dogecoin_tx_add_data_out tx amount d = Some (False, tx)
       else \<exists>t. dogecoin_tx_add_data_out tx amount d = Some (True, t)
              \<and> tx_holds t (with_output a amount (concat (map item_bytes [Op OP_RETURN, Push d])))"
    using dat by (simp add: dogecoin_tx_add_data_out_def)
  have puz: "\<exists>t. dogecoin_tx_add_puzzle_out tx amount d = Some (True, t)
      \<and> tx_holds t (with_output a amount (concat (map item_bytes [Op OP_HASH256, Push d, Op OP_EQUAL])))" if "length d \<le> 32"
    using that add [OF puzzle_script [OF that]]
    by (simp add: dogecoin_tx_add_puzzle_out_def with_output_def DOGECOIN_HASH_LENGTH_def)
  show "if length d > 32 then dogecoin_tx_add_puzzle_out tx amount d = Some (False, tx)
       else \<exists>t. dogecoin_tx_add_puzzle_out tx amount d = Some (True, t)
              \<and> tx_holds t (with_output a amount (concat (map item_bytes [Op OP_HASH256, Push d, Op OP_EQUAL])))"
    using puz by (simp add: dogecoin_tx_add_puzzle_out_def DOGECOIN_HASH_LENGTH_def)
qed

lemma outputs_added_witness:
  "(\<exists>t. dogecoin_tx_add_p2pkh_hash160_out sample_tx 5 (replicate 20 9) = Some (True, t)
      \<and> tx_holds t (with_output sample_view 5 (p2pkh_script (replicate 20 9))))"
  using outputs_added [OF sample_tx_holds, of "replicate 20 9" 5 "[]"] by (simp add: sample_view_def)

section \<open>What is accepted by mistake\<close>

lemma shifted_zeros:
  "n \<le> length t \<Longrightarrow> (x = 0 \<and> take n (x # t) = take n t) \<longleftrightarrow> take (Suc n) (x # t) = replicate (Suc n) 0"
  for x :: u8
proof (induction n arbitrary: x t)
  case (Suc n)
  then obtain y u where t: "t = y # u" by (cases t) auto
  with Suc.IH [of u y] Suc.prems show ?case by auto
qed simp

lemma hash_is_empty_prefix:
  assumes "length h = 32"
  shows "dogecoin_hash_is_empty h = Some (take 20 h = replicate 20 0)"
proof -
  obtain x t where h: "h = x # t" using assms by (cases h) auto
  then have "(x = 0 \<and> take 19 h = take 19 t) \<longleftrightarrow> take (Suc 19) h = replicate (Suc 19) 0"
    using shifted_zeros [of 19 t x] assms by simp
  then show ?thesis
    using h assms by (simp add: dogecoin_hash_is_empty_def mem_get_def mem_read_def)
qed

lemma coinbase_prefix:
  assumes "tx_holds tx a"
  shows "dogecoin_tx_is_coinbase tx = Some (length (v_ins a) = 1
    \<and> take 20 (in_hash (v_ins a ! 0)) = replicate 20 0 \<and> in_n (v_ins a ! 0) = 0xffffffff)"
proof -
  obtain v xs where v: "vin tx = Some v" "vec_holds v (map Some xs)" "list_all2 in_holds xs (v_ins a)"
    using assms by (auto simp: tx_holds_def vec_views_def)
  then have l: "vlen v = length (v_ins a)" "length xs = length (v_ins a)"
    by (simp_all add: vec_holds_def list_all2_lengthD)
  show ?thesis
  proof (cases "length (v_ins a) = 1")
    case True
    then have i: "in_holds (xs ! 0) (v_ins a ! 0)" "vector_idx v 0 = Some (Some (xs ! 0))"
      using v vec_idx [OF v(2), of 0] l by (simp_all add: list_all2_conv_all_nth)
    then have "dogecoin_hash_is_empty (prev_hash (prevout (xs ! 0)))
        = Some (take 20 (in_hash (v_ins a ! 0)) = replicate 20 0)"
      by (intro trans [OF hash_is_empty_prefix]) (simp_all add: in_holds_def)
    with True i v(1) l show ?thesis
      by (simp add: dogecoin_tx_is_coinbase_def in_holds_def)
  next
    case False
    with v(1) l show ?thesis by (simp add: dogecoin_tx_is_coinbase_def)
  qed
qed

definition short_tx :: "u32 \<Rightarrow> u32 \<Rightarrow> u32 \<Rightarrow> u32 \<Rightarrow> bytes" where
  "short_tx v i q l = le_bytes 4 (unat v) @ [1] @ le_bytes 4 (unat i) @ [0] @ le_bytes 4 (unat q)
     @ [0] @ le_bytes 4 (unat l)"

lemma short_in:
  "\<exists>x. dogecoin_tx_in_deserialize dogecoin_tx_in_new (le_bytes 4 (unat i) @ [0] @ le_bytes 4 (unat q) @ [0] @ le_bytes 4 (unat l))
      = Some (Some (x, [0] @ le_bytes 4 (unat l)))
    \<and> in_holds x \<lparr>in_hash = replicate 32 0, in_n = i, in_script = [], in_seq = q\<rparr>"
proof -
  obtain s where s: "deser_varstr (varstr_bytes [] @ le_bytes 4 (unat q) @ [0] @ le_bytes 4 (unat l))
      = Some (Some (s, le_bytes 4 (unat q) @ [0] @ le_bytes 4 (unat l)))" "cstr_holds s []"
    by (rule deser_script [of "[]"]) simp
  have "deser_u256 (le_bytes 4 (unat i) @ [0] @ le_bytes 4 (unat q) @ [0] @ le_bytes 4 (unat l)) = None"
    by (simp add: deser_u256_def deser_bytes_def del: le_bytes_numeral)
  with s show ?thesis
    by (simp add: dogecoin_tx_in_deserialize_def varstr_bytes_def dogecoin_tx_in_new_def in_holds_def
        script_holds_def del: le_bytes_numeral)
qed

text \<open>A truncated input is accepted. \<open>dogecoin_tx_in_deserialize\<close> does not look at the result of
  \<open>deser_u256\<close>, so for any version, index, sequence and lock time the 19 bytes without the previous
  hash are read as a transaction with one input whose hash is zero, and all of them are consumed;
  they are not the serialisation of that transaction.
\<close>

theorem truncated_input_accepted:
  "\<exists>tx' a. dogecoin_tx_deserialize (short_tx v i q l) fresh_tx = Some (True, tx', 19)
    \<and> tx_holds tx' a \<and> a = \<lparr>v_version = v,
        v_ins = [\<lparr>in_hash = replicate 32 0, in_n = i, in_script = [], in_seq = q\<rparr>],
        v_outs = [], v_locktime = l\<rparr>
    \<and> tx_bytes a \<noteq> short_tx v i q l"
proof -
  let ?i = "\<lparr>in_hash = replicate 32 0, in_n = i, in_script = [], in_seq = q\<rparr>"
  let ?a = "\<lparr>v_version = v, v_ins = [?i], v_outs = [], v_locktime = l\<rparr>"
  obtain x where x: "dogecoin_tx_in_deserialize dogecoin_tx_in_new
      (le_bytes 4 (unat i) @ [0] @ le_bytes 4 (unat q) @ [0] @ le_bytes 4 (unat l))
      = Some (Some (x, [0] @ le_bytes 4 (unat l)))" "in_holds x ?i"
    using short_in by blast
  obtain i0 o0 where t: "vin fresh_tx = Some i0" "vec_holds i0 []" "vout fresh_tx = Some o0" "vec_views out_holds o0 []"
    using tx_new_view [OF fresh_tx_new] by (auto simp: tx_holds_def vec_views_def)
  obtain i1 where i1: "vector_add i0 (Some x) = Some i1" "vec_holds i1 (map Some [x])"
    using vec_add [OF t(2), of "Some x"] by auto
  have h: "vec_views in_holds i1 [?i]"
    using i1(2) x(2) unfolding vec_views_def by (intro exI [of _ "[x]"]) simp
  have vl: "deser_varlen ([1] @ r) = Some (1, r)" "deser_varlen ([0] @ r) = Some (0, r)" for r
    using deser_varlen_bytes [of 1 r] deser_varlen_bytes [of 0 r] by (simp_all add: varlen_bytes_def)
  have lock: "deser_u32 (le_bytes 4 (unat l)) = Some (l, [])" using deser_ints(2) [of l "[]"] by (simp del: le_bytes_numeral)
  have "dogecoin_tx_deserialize (short_tx v i q l) fresh_tx
      = Some (True, fresh_tx\<lparr>tx_version := v, vin := Some i1, vout := Some o0, tx_locktime := l\<rparr>, 19)"
    using x(1) t(1,3) i1(1) vl lock
    by (simp add: dogecoin_tx_deserialize_def short_tx_def del: le_bytes_numeral)
  moreover have "tx_holds (fresh_tx\<lparr>tx_version := v, vin := Some i1, vout := Some o0, tx_locktime := l\<rparr>) ?a"
    using h t(4) by (simp add: tx_holds_def)
  moreover have "length (tx_bytes ?a) \<noteq> length (short_tx v i q l)"
    by (simp add: tx_bytes_def in_bytes_def varstr_bytes_def varlen_bytes_def short_tx_def del: le_bytes_numeral)
  then have "tx_bytes ?a \<noteq> short_tx v i q l" by metis
  ultimately show ?thesis by blast
qed

end
