(* ===== verification/Utils.thy ===== *)
theory Utils
  imports Prelude
begin

text \<open>
  Hexadecimal text and byte strings, from \<open>src/utils.c\<close> of libdogecoin. A buffer is the list of its
  bytes, characters are bytes, a string ends at its first NUL; \<open>None\<close> is an access outside a buffer.
  The static buffers of the library are returned as values.
\<close>

section \<open>From hexadecimal\<close>

text \<open>The three tests of \<open>utils_hex_to_bin\<close>: at most one holds, and none leaves the digit at 0.\<close>

definition hex_char_value :: "u8 \<Rightarrow> u8" where
  "hex_char_value c =
     (if 48 \<le> c \<and> c \<le> 57 then c - 48
      else if 97 \<le> c \<and> c \<le> 102 then 10 + c - 97
      else if 65 \<le> c \<and> c \<le> 70 then 10 + c - 65
      else 0)"

fun hex_pairs :: "bytes \<Rightarrow> bytes" where
  "hex_pairs (a # b # s) = (push_bit 4 (hex_char_value a) OR hex_char_value b) # hex_pairs s"
| "hex_pairs _ = []"

text \<open>The filled buffer and \<open>outLen\<close>.\<close>

definition utils_hex_to_bin :: "bytes \<Rightarrow> bytes \<Rightarrow> nat \<Rightarrow> (bytes \<times> nat) option" where
  "utils_hex_to_bin str out inLen = do {
     let bLen = inLen div 2;
     s \<leftarrow> mem_read str 0 (2 * bLen);
     out \<leftarrow> mem_write out 0 (hex_pairs s);
     Some (out, bLen)
   }"

definition TO_UINT8_HEX_BUF_LEN :: nat where "TO_UINT8_HEX_BUF_LEN = 2048"

fun hex_pair_sums :: "bytes \<Rightarrow> bytes" where
  "hex_pair_sums (a # b # s) = (push_bit 4 (hex_char_value a) + hex_char_value b) # hex_pair_sums s"
| "hex_pair_sums _ = []"

text \<open>The inner option is a null pointer.\<close>

definition utils_hex_to_uint8 :: "bytes \<Rightarrow> bytes option option" where
  "utils_hex_to_uint8 str = do {
     n \<leftarrow> c_strlen str;
     (if n > TO_UINT8_HEX_BUF_LEN then Some None
      else do {
        b \<leftarrow> mem_write (replicate TO_UINT8_HEX_BUF_LEN 0) 0 (hex_pair_sums (take (2 * (n div 2)) str));
        Some (Some b)
      })
   }"

text \<open>\<open>p_util_hexdigit\<close>.\<close>

definition utils_hex_digit :: "u8 \<Rightarrow> int" where
  "utils_hex_digit c =
     (if 48 \<le> c \<and> c \<le> 57 then uint (c - 48)
      else if 65 \<le> c \<and> c \<le> 70 then uint (c - 55)
      else if 97 \<le> c \<and> c \<le> 102 then uint (c - 87)
      else -1)"

text \<open>\<open>isspace\<close> in the C locale.\<close>

definition is_blank :: "u8 \<Rightarrow> bool" where
  "is_blank c \<longleftrightarrow> c = 32 \<or> (9 \<le> c \<and> c \<le> 13)"

text \<open>The digits from the last one back, two to a byte, into \<open>n\<close> bytes.\<close>

fun sethex_bytes :: "bytes \<Rightarrow> nat \<Rightarrow> bytes" where
  "sethex_bytes [] n = []"
| "sethex_bytes ds 0 = []"
| "sethex_bytes [d] (Suc n) = [of_int (utils_hex_digit d)]"
| "sethex_bytes (d # e # ds) (Suc n) =
     (of_int (utils_hex_digit d) OR push_bit 4 (of_int (utils_hex_digit e))) # sethex_bytes ds n"

definition utils_uint256_sethex :: "bytes \<Rightarrow> bytes option" where
  "utils_uint256_sethex psz =
     (let s = dropWhile is_blank psz
      in do {
        c \<leftarrow> mem_get s 0;
        s \<leftarrow> (if c = 48 then do { x \<leftarrow> mem_get s 1; Some (if x = 120 \<or> x = 88 then drop 2 s else s) }
              else Some s);
        let ds = takeWhile (\<lambda>c. utils_hex_digit c \<noteq> -1) s;
        (if ds = s then None
         else let b = sethex_bytes (rev ds) 32 in Some (b @ replicate (32 - length b) 0))
      })"

section \<open>To hexadecimal\<close>

definition hex_digit_char :: "u8 \<Rightarrow> u8" where
  "hex_digit_char d =
     [48, 49, 50, 51, 52, 53, 54, 55, 56, 57, 97, 98, 99, 100, 101, 102] ! unat d"

fun hex_chars :: "bytes \<Rightarrow> bytes" where
  "hex_chars [] = []"
| "hex_chars (b # bs) = hex_digit_char (drop_bit 4 b AND 0xF) # hex_digit_char (b AND 0xF) # hex_chars bs"

definition utils_bin_to_hex :: "bytes \<Rightarrow> nat \<Rightarrow> bytes \<Rightarrow> bytes option" where
  "utils_bin_to_hex bin_in inlen hex_out = do {
     b \<leftarrow> mem_read bin_in 0 inlen;
     mem_write hex_out 0 (hex_chars b @ [0])
   }"

text \<open>The static buffer, which later calls overwrite, or a null pointer.\<close>

definition utils_uint8_to_hex :: "bytes \<Rightarrow> nat \<Rightarrow> bytes option option" where
  "utils_uint8_to_hex bin l =
     (if l > TO_UINT8_HEX_BUF_LEN div 2 - 1 then Some None
      else do {
        b \<leftarrow> mem_read bin 0 l;
        h \<leftarrow> mem_write (replicate TO_UINT8_HEX_BUF_LEN 0) 0 (hex_chars b);
        Some (Some h)
      })"

text \<open>The loop \<open>for (i = 0; i < len - 1; i += 2)\<close>; a length of 0 wraps around.\<close>

function reverse_hex_loop :: "bytes \<Rightarrow> nat \<Rightarrow> nat \<Rightarrow> bytes \<Rightarrow> bytes option" where
  "reverse_hex_loop copy n i h =
     (if i < n - 1 then do {
        a \<leftarrow> mem_get copy (n - i - 2);
        b \<leftarrow> mem_get copy (n - i - 1);
        h \<leftarrow> mem_set h i a;
        h \<leftarrow> mem_set h (i + 1) b;
        reverse_hex_loop copy n (i + 2) h
      }
      else Some h)"
  by pat_completeness auto
termination
  by (relation "measure (\<lambda>(copy, n, i, h). n - i)") auto

declare reverse_hex_loop.simps [simp del]

definition utils_reverse_hex :: "bytes \<Rightarrow> nat \<Rightarrow> bytes option" where
  "utils_reverse_hex h n = do {
     copy \<leftarrow> mem_read h 0 n;
     (if n = 0 then None else reverse_hex_loop copy n 0 h)
   }"

section \<open>Small string functions\<close>

function swap_loop :: "bytes \<Rightarrow> nat \<Rightarrow> nat \<Rightarrow> bytes option" where
  "swap_loop buf n i =
     (if i < n div 2 then do {
        a \<leftarrow> mem_get buf i;
        b \<leftarrow> mem_get buf (n - i - 1);
        buf \<leftarrow> mem_set buf i b;
        buf \<leftarrow> mem_set buf (n - i - 1) a;
        swap_loop buf n (i + 1)
      }
      else Some buf)"
  by pat_completeness auto
termination
  by (relation "measure (\<lambda>(buf, n, i). n - i)") auto

declare swap_loop.simps [simp del]

definition swap_bytes :: "bytes \<Rightarrow> nat \<Rightarrow> bytes option" where
  "swap_bytes buf buf_size = swap_loop buf buf_size 0"

text \<open>The inner loop of \<open>find_needle\<close>: whether the needle is found; it reads on past the given length.\<close>

fun needle_at :: "bytes \<Rightarrow> nat \<Rightarrow> bytes \<Rightarrow> bool option" where
  "needle_at haystack i [] = Some True"
| "needle_at haystack i (c # needle) = do {
     h \<leftarrow> mem_get haystack i;
     (if h = c then needle_at haystack (i + 1) needle else Some False)
   }"

text \<open>The inner option is a null pointer, a position otherwise.\<close>

function needle_from :: "bytes \<Rightarrow> nat \<Rightarrow> bytes \<Rightarrow> nat \<Rightarrow> nat option option" where
  "needle_from haystack n needle i =
     (if i < n then do {
        found \<leftarrow> needle_at haystack i needle;
        (if found then Some (Some i) else needle_from haystack n needle (i + 1))
      }
      else Some None)"
  by pat_completeness auto
termination
  by (relation "measure (\<lambda>(haystack, n, needle, i). n - i)") auto

declare needle_from.simps [simp del]

definition find_needle :: "bytes \<Rightarrow> nat \<Rightarrow> bytes \<Rightarrow> nat \<Rightarrow> nat option option" where
  "find_needle haystack haystack_length needle needle_length =
     needle_from haystack haystack_length (take needle_length needle) 0"

definition prepend :: "bytes \<Rightarrow> bytes \<Rightarrow> bytes option" where
  "prepend s t = do {
     n \<leftarrow> c_strlen t;
     k \<leftarrow> c_strlen s;
     s \<leftarrow> mem_write s n (take (k + 1) s);
     mem_write s 0 (take n t)
   }"

definition append_str :: "bytes \<Rightarrow> bytes \<Rightarrow> bytes option" where
  "append_str s t = do {
     k \<leftarrow> c_strlen s;
     n \<leftarrow> c_strlen t;
     mem_write s k (take n t @ [0])
   }"

definition concat_str :: "bytes \<Rightarrow> bytes \<Rightarrow> bytes option" where
  "concat_str pre suffix = do {
     n \<leftarrow> c_strlen suffix;
     k \<leftarrow> c_strlen pre;
     f \<leftarrow> mem_write (replicate (k + n + 1) 0) 0 (take (k + 1) pre);
     mem_write f k (take (n + 1) suffix)
   }"

fun integer_digits :: "nat \<Rightarrow> nat" where
  "integer_digits x = (if x > 0 then Suc (integer_digits (x div 10)) else 0)"

declare integer_digits.simps [simp del]

definition integer_length :: "int \<Rightarrow> nat" where
  "integer_length x = (let count = integer_digits (nat x) in if count > 0 then count else 1)"

text \<open>\<open>strncpy\<close>: the bytes up to the first NUL, at most \<open>n\<close>, and NULs up to \<open>n\<close>.\<close>

fun strncpy_bytes :: "bytes \<Rightarrow> nat \<Rightarrow> bytes option" where
  "strncpy_bytes s 0 = Some []"
| "strncpy_bytes [] (Suc n) = None"
| "strncpy_bytes (c # s) (Suc n) =
     (if c = 0 then Some (replicate (Suc n) 0) else map_option ((#) c) (strncpy_bytes s n))"

definition slice :: "bytes \<Rightarrow> bytes \<Rightarrow> nat \<Rightarrow> nat \<Rightarrow> bytes option" where
  "slice str result start e = do {
     s \<leftarrow> strncpy_bytes (drop start str) (e - start);
     mem_write result 0 s
   }"

text \<open>\<open>%02X\<close> of a \<open>char\<close>, which is signed and promoted to \<open>int\<close>.\<close>

definition upper_digit_char :: "u8 \<Rightarrow> u8" where
  "upper_digit_char d = (if d < 10 then 48 + d else 55 + d)"

definition hex02X :: "u8 \<Rightarrow> bytes" where
  "hex02X c =
     (if c < 128 then [] else replicate 6 70)
     @ [upper_digit_char (drop_bit 4 c AND 0xF), upper_digit_char (c AND 0xF)]"

fun text_to_hex_loop :: "bytes \<Rightarrow> bytes \<Rightarrow> nat \<Rightarrow> bytes option" where
  "text_to_hex_loop [] out i = None"
| "text_to_hex_loop (c # cs) out i =
     (if c = 0 then mem_set out i 0
      else do {
        out \<leftarrow> mem_write out i (hex02X c @ [0]);
        text_to_hex_loop cs out (i + 2)
      })"

definition text_to_hex :: "bytes \<Rightarrow> bytes \<Rightarrow> bytes option" where
  "text_to_hex input out = text_to_hex_loop input out 0"

text \<open>The empty string has no last character: \<open>strlen(s)-1\<close> wraps and the loop runs off the object.\<close>

definition dogecoin_str_reverse :: "bytes \<Rightarrow> bytes option" where
  "dogecoin_str_reverse s = do {
     n \<leftarrow> c_strlen s;
     (if n = 0 then None else swap_loop s n 0)
   }"

text \<open>The digits from the last one; \<open>%\<close> truncates towards zero.\<close>

fun uitoa_digits :: "nat \<Rightarrow> bytes" where
  "uitoa_digits n = of_nat (n mod 10 + 48) # (if n div 10 > 0 then uitoa_digits (n div 10) else [])"

declare uitoa_digits.simps [simp del]

text \<open>The smallest \<open>int\<close> has no negation.\<close>

definition dogecoin_uitoa :: "int \<Rightarrow> bytes \<Rightarrow> bytes option" where
  "dogecoin_uitoa n s =
     (if n = - (2 ^ 31) then None
      else do {
        s \<leftarrow> mem_write s 0 (uitoa_digits (nat \<bar>n\<bar>) @ (if n < 0 then [45] else []) @ [0]);
        dogecoin_str_reverse s
      })"

section \<open>Base 64\<close>

definition base64_char :: bytes where
  "base64_char = map of_nat ([65..<91] @ [97..<123] @ [48..<58] @ [43, 47])"

definition base64_int :: "u32 \<Rightarrow> u32" where
  "base64_int ch =
     (if ch = 43 then 62
      else if ch = 47 then 63
      else if ch = 61 then 64
      else if ch > 47 \<and> ch < 58 then ch + 4
      else if ch > 64 \<and> ch < 91 then ch - 65
      else if ch > 96 \<and> ch < 123 then (ch - 97) + 26
      else 0)"

definition base64_encoded_size :: "nat \<Rightarrow> nat" where
  "base64_encoded_size in_size = 4 * foldl (\<lambda>j i. if i mod 3 = 0 then j + 1 else j) 0 [0..<in_size]"

definition base64_decoded_size :: "nat \<Rightarrow> nat" where
  "base64_decoded_size in_size = (3 * in_size) div 4"

definition b64_at :: "u32 \<Rightarrow> u8" where "b64_at x = base64_char ! unat x"

text \<open>One round of the loop for every three bytes, and the block after it for what is left.\<close>

fun base64_groups :: "u32 list \<Rightarrow> bytes" where
  "base64_groups (s0 # s1 # s2 # s) =
     b64_at (drop_bit 2 (s0 AND 255))
     # b64_at (push_bit 4 (s0 AND 0x03) + drop_bit 4 (s1 AND 0xF0))
     # b64_at (push_bit 2 (s1 AND 0x0F) + drop_bit 6 (s2 AND 0xC0))
     # b64_at (s2 AND 0x3F)
     # base64_groups s"
| "base64_groups [s0, s1] =
     [b64_at (drop_bit 2 (s0 AND 255)),
      b64_at (push_bit 4 (s0 AND 0x03) + drop_bit 4 (s1 AND 0xF0)),
      b64_at (push_bit 2 (s1 AND 0x0F)),
      61]"
| "base64_groups [s0] =
     [b64_at (drop_bit 2 (s0 AND 255)),
      b64_at (push_bit 4 (s0 AND 0x03) + drop_bit 4 (0 AND 0xF0)),
      61,
      61]"
| "base64_groups [] = []"

definition base64_encode :: "bytes \<Rightarrow> nat \<Rightarrow> bytes \<Rightarrow> (bytes \<times> nat) option" where
  "base64_encode input in_len out = do {
     b \<leftarrow> mem_read input 0 in_len;
     let e = base64_groups (map ucast b);
     out \<leftarrow> mem_write out 0 (e @ [0]);
     Some (out, length e)
   }"

fun base64_ungroups :: "u32 list \<Rightarrow> bytes" where
  "base64_ungroups (s0 # s1 # s2 # s3 # s) =
     ucast (push_bit 2 (s0 AND 255) + drop_bit 4 (s1 AND 0x30))
     # (if s2 \<noteq> 64
        then ucast (push_bit 4 (s1 AND 0x0F) + drop_bit 2 (s2 AND 0x3C))
          # (if s3 \<noteq> 64 then [ucast (push_bit 6 (s2 AND 0x03) + s3)] else [])
        else [])
     @ base64_ungroups s"
| "base64_ungroups _ = []"

definition base64_decode :: "bytes \<Rightarrow> nat \<Rightarrow> bytes \<Rightarrow> (bytes \<times> nat) option" where
  "base64_decode input in_len out = do {
     b \<leftarrow> mem_read input 0 in_len;
     let d = base64_ungroups (map (\<lambda>c. base64_int (ucast c)) b);
     out \<leftarrow> mem_write out 0 (d @ [0]);
     Some (out, length d)
   }"

section \<open>Round trips\<close>

lemma and_15: "x AND 15 = take_bit 4 (x :: 'a::len word)"
  by (simp add: take_bit_eq_mask mask_eq_exp_minus_1)

lemma nibbles: "push_bit 4 (drop_bit 4 b AND 0xF) OR (b AND 0xF) = (b :: u8)"
  unfolding and_15
proof (rule bit_word_eqI)
  fix i assume "i < LENGTH(8)"
  then have "i < 8" by simp
  then show "bit (push_bit 4 (take_bit 4 (drop_bit 4 b)) OR take_bit 4 b) i = bit b i"
    by (simp only: bit_or_iff bit_push_bit_iff bit_drop_bit_eq bit_take_bit_iff) auto
qed

lemma nibble_cases:
  assumes "(d :: u8) < 16"
  shows "d \<in> {0, 1, 2, 3, 4, 5, 6, 7, 8, 9, 10, 11, 12, 13, 14, 15}"
proof -
  have "unat d < 16" using assms by (simp add: word_less_nat_alt)
  then have "unat d \<in> set [0..<16]" by simp
  then have "of_nat (unat d) \<in> (of_nat :: nat \<Rightarrow> u8) ` set [0..<16]" by blast
  then show ?thesis by (simp add: upt_conv_Cons)
qed

lemma hex_digit_inverse:
  assumes "d < 16"
  shows "hex_char_value (hex_digit_char d) = d \<and> utils_hex_digit (hex_digit_char d) = uint d
    \<and> hex_digit_char d \<noteq> 0 \<and> \<not> is_blank (hex_digit_char d) \<and> hex_digit_char d \<noteq> 120 \<and> hex_digit_char d \<noteq> 88"
  using nibble_cases [OF assms]
  by (elim insertE emptyE) (simp_all add: hex_digit_char_def hex_char_value_def utils_hex_digit_def is_blank_def)

lemma nibble_less: "b AND 0xF < (16 :: u8)"
proof -
  have "b AND 0xF \<le> (0xF :: u8)" by (rule word_and_le1)
  also have "(0xF :: u8) < 16" by simp
  finally show ?thesis .
qed

lemmas nibble_chars = hex_digit_inverse [OF nibble_less]

lemma nibble_values:
  "hex_char_value (hex_digit_char (b AND 0xF)) = b AND 0xF"
  "utils_hex_digit (hex_digit_char (b AND 0xF)) = uint (b AND 0xF)"
  using nibble_chars [of b] by auto

lemma length_hex_chars [simp]: "length (hex_chars bs) = 2 * length bs"
  by (induction bs) simp_all

lemma hex_chars_append [simp]: "hex_chars (as @ bs) = hex_chars as @ hex_chars bs"
  by (induction as) simp_all

lemma hex_chars_no_nul: "0 \<notin> set (hex_chars bs)"
  by (induction bs) (use nibble_chars in \<open>auto simp: eq_commute [of 0]\<close>)

lemma hex_pairs_chars [simp]: "hex_pairs (hex_chars bs) = bs"
  by (induction bs) (simp_all only: hex_chars.simps hex_pairs.simps nibble_values nibbles)

lemma hex_char_value_less: "hex_char_value c < 16"
  by (auto simp: hex_char_value_def word_less_nat_alt word_le_nat_alt unat_sub_if_size unat_word_ariths)

lemma push_take_disjoint: "push_bit n x AND take_bit n y = (0 :: 'a::len word)"
  by (rule bit_word_eqI) (auto simp: bit_and_iff bit_push_bit_iff bit_take_bit_iff)

lemma hex_pair_sum: "push_bit 4 (hex_char_value a) + hex_char_value b = push_bit 4 (hex_char_value a) OR hex_char_value b"
proof -
  have "unat (hex_char_value b) < 2 ^ 4"
    using hex_char_value_less [of b] by (simp add: word_less_nat_alt)
  then have "hex_char_value b = take_bit 4 (hex_char_value b)"
    by (simp add: word_unat_eq_iff unsigned_take_bit_eq take_bit_nat_eq_self)
  then have "push_bit 4 (hex_char_value a) AND hex_char_value b = 0"
    by (metis push_take_disjoint)
  then show ?thesis by (rule disjunctive_add_eq_or)
qed

lemma hex_pair_sums_same: "hex_pair_sums s = hex_pairs s"
  by (induction s rule: hex_pairs.induct) (simp_all add: hex_pair_sum)

section \<open>Base 64 round trip\<close>

lemma b64_int_at: "x < 64 \<Longrightarrow> base64_int (ucast (b64_at x)) = x"
proof -
  assume "x < 64"
  then have "unat x < 64" by (simp add: word_less_nat_alt)
  moreover have "list_all (\<lambda>n. base64_int (ucast (base64_char ! n)) = of_nat n) [0..<64]"
    by code_simp
  ultimately have "base64_int (ucast (base64_char ! unat x)) = of_nat (unat x)"
    by (simp only: list_all_iff) simp
  then show ?thesis by (simp add: b64_at_def)
qed

lemma and_shifted_mask: "drop_bit k (x AND push_bit k (mask n)) = take_bit n (drop_bit k (x :: 'a::len word))"
  by (rule bit_word_eqI) (auto simp: bit_simps dest: bit_imp_le_length)

lemma u32_masks:
  fixes x :: u32
  shows "x AND 3 = take_bit 2 x" "x AND 15 = take_bit 4 x" "x AND 63 = take_bit 6 x" "x AND 255 = take_bit 8 x"
    "drop_bit 4 (x AND 240) = take_bit 4 (drop_bit 4 x)" "drop_bit 6 (x AND 192) = take_bit 2 (drop_bit 6 x)"
    "drop_bit 4 (x AND 48) = take_bit 2 (drop_bit 4 x)" "drop_bit 2 (x AND 60) = take_bit 4 (drop_bit 2 x)"
  using and_shifted_mask [of 4 x 4] and_shifted_mask [of 6 x 2] and_shifted_mask [of 4 x 2] and_shifted_mask [of 2 x 4]
  by (simp_all add: take_bit_eq_mask mask_eq_exp_minus_1)

lemma unat_u8_mod [simp]: "unat (x :: u8) mod 4294967296 = unat x"
  by (rule mod_less, rule less_trans [OF unat_u8_less], simp)

lemma unat_u8_nibble [simp]:
  "unat (x :: u8) div 16 mod 16 = unat x div 16" "unat x div 64 mod 4 = unat x div 64" "unat x div 4 mod 64 = unat x div 4"
  by (rule mod_less, rule less_mult_imp_div_less, simp)+

lemma b64_nat:
  fixes a b c :: nat
  assumes "a < 256" "b < 256" "c < 256"
  shows "a div 4 < 64" "16 * (a mod 4) + b div 16 < 64" "4 * (b mod 16) + c div 64 < 64"
    "16 * (a mod 4) < 64" "4 * (b mod 16) < 64" "c mod 64 < 64"
    "a div 4 * 4 + (16 * (a mod 4) + b div 16) div 16 = a"
    "a div 4 * 4 + 16 * (a mod 4) div 16 = a"
    "16 * ((16 * (a mod 4) + b div 16) mod 16) + (4 * (b mod 16) + c div 64) div 4 = b"
    "16 * ((16 * (a mod 4) + b div 16) mod 16) + 4 * (b mod 16) div 4 = b"
    "64 * ((4 * (b mod 16) + c div 64) mod 4) + c mod 64 = c"
proof -
  have d: "a div 4 < 64" "b div 16 < 16" "c div 64 < 4" "a mod 4 < 4" "b mod 16 < 16" "c mod 64 < 64"
    using assms by (simp_all add: less_mult_imp_div_less)
  then show "a div 4 < 64" "16 * (a mod 4) + b div 16 < 64" "4 * (b mod 16) + c div 64 < 64"
    "16 * (a mod 4) < 64" "4 * (b mod 16) < 64" "c mod 64 < 64"
    by linarith+
  have "(16 * (a mod 4) + b div 16) div 16 = a mod 4" "(16 * (a mod 4) + b div 16) mod 16 = b div 16"
    "(4 * (b mod 16) + c div 64) div 4 = b mod 16" "(4 * (b mod 16) + c div 64) mod 4 = c div 64"
    using d by simp_all
  then show "a div 4 * 4 + (16 * (a mod 4) + b div 16) div 16 = a"
    "a div 4 * 4 + 16 * (a mod 4) div 16 = a"
    "16 * ((16 * (a mod 4) + b div 16) mod 16) + (4 * (b mod 16) + c div 64) div 4 = b"
    "16 * ((16 * (a mod 4) + b div 16) mod 16) + 4 * (b mod 16) div 4 = b"
    "64 * ((4 * (b mod 16) + c div 64) mod 4) + c mod 64 = c"
    by simp_all
qed

lemma b64_numbers:
  fixes a b c :: u8
  defines "s0 \<equiv> ucast a :: u32" and "s1 \<equiv> ucast b :: u32" and "s2 \<equiv> ucast c :: u32"
  shows "unat (drop_bit 2 (s0 AND 255)) = unat a div 4"
    "unat (push_bit 4 (s0 AND 3) + drop_bit 4 (s1 AND 240)) = 16 * (unat a mod 4) + unat b div 16"
    "unat (push_bit 2 (s1 AND 15) + drop_bit 6 (s2 AND 192)) = 4 * (unat b mod 16) + unat c div 64"
    "unat (push_bit 4 (s0 AND 3)) = 16 * (unat a mod 4)"
    "unat (push_bit 2 (s1 AND 15)) = 4 * (unat b mod 16)"
    "unat (s2 AND 63) = unat c mod 64"
proof -
  note b = unat_u8_less [of a] unat_u8_less [of b] unat_u8_less [of c]
  have s: "unat s0 = unat a" "unat s1 = unat b" "unat s2 = unat c"
    by (simp_all add: s0_def s1_def s2_def unsigned_ucast_eq take_bit_eq_mod)
  have p1: "unat (push_bit 4 (take_bit 2 s0)) = 16 * (unat a mod 4)"
    by (simp_all only: unsigned_push_bit_eq unsigned_take_bit_eq s) (simp add: take_bit_eq_mod push_bit_eq_mult)
  have p2: "unat (push_bit 2 (take_bit 4 s1)) = 4 * (unat b mod 16)"
    by (simp_all only: unsigned_push_bit_eq unsigned_take_bit_eq s) (simp add: take_bit_eq_mod push_bit_eq_mult)
  have d1: "unat (take_bit 4 (drop_bit 4 s1)) = unat b div 16"
    using b by (simp_all only: unsigned_drop_bit_eq unsigned_take_bit_eq s) (simp add: take_bit_eq_mod drop_bit_eq_div)
  have d2: "unat (take_bit 2 (drop_bit 6 s2)) = unat c div 64"
    using b by (simp_all only: unsigned_drop_bit_eq unsigned_take_bit_eq s) (simp add: take_bit_eq_mod drop_bit_eq_div)
  show "unat (drop_bit 2 (s0 AND 255)) = unat a div 4"
    using b by (simp_all only: u32_masks unsigned_drop_bit_eq unsigned_take_bit_eq s) (simp add: take_bit_eq_mod drop_bit_eq_div)
  show "unat (s2 AND 63) = unat c mod 64"
    by (simp_all only: u32_masks unsigned_take_bit_eq s) (simp add: take_bit_eq_mod)
  show "unat (push_bit 4 (s0 AND 3)) = 16 * (unat a mod 4)"
    "unat (push_bit 2 (s1 AND 15)) = 4 * (unat b mod 16)"
    by (simp_all only: u32_masks p1 p2)
  show "unat (push_bit 4 (s0 AND 3) + drop_bit 4 (s1 AND 240)) = 16 * (unat a mod 4) + unat b div 16"
    using b64_nat(2) [OF b] by (simp only: u32_masks unat_word_ariths p1 d1) (simp add: mod_less)
  show "unat (push_bit 2 (s1 AND 15) + drop_bit 6 (s2 AND 192)) = 4 * (unat b mod 16) + unat c div 64"
    using b64_nat(3) [OF b] by (simp only: u32_masks unat_word_ariths p2 d2) (simp add: mod_less)
qed

lemma b64_back_numbers:
  fixes x y :: u32
  assumes "unat x < 64" "unat y < 64"
  shows "unat (ucast (push_bit 2 (x AND 255) + drop_bit 4 (y AND 48)) :: u8) = unat x * 4 + unat y div 16"
    "unat (ucast (push_bit 4 (x AND 15) + drop_bit 2 (y AND 60)) :: u8) = 16 * (unat x mod 16) + unat y div 4"
    "unat (ucast (push_bit 6 (x AND 3) + y) :: u8) = 64 * (unat x mod 4) + unat y"
proof -
  have m: "take_bit 8 x = x" using assms by (simp add: word_unat_eq_iff unsigned_take_bit_eq take_bit_nat_eq_self)
  have p: "unat (push_bit 2 x) = 4 * unat x" "unat (push_bit 4 (take_bit 4 x)) = 16 * (unat x mod 16)"
    "unat (push_bit 6 (take_bit 2 x)) = 64 * (unat x mod 4)"
    using assms by (simp_all only: unsigned_push_bit_eq unsigned_take_bit_eq) (simp_all add: take_bit_eq_mod push_bit_eq_mult)
  have d: "unat (take_bit 2 (drop_bit 4 y)) = unat y div 16" "unat (take_bit 4 (drop_bit 2 y)) = unat y div 4"
    using assms by (simp_all only: unsigned_drop_bit_eq unsigned_take_bit_eq) (simp_all add: take_bit_eq_mod drop_bit_eq_div)
  show "unat (ucast (push_bit 2 (x AND 255) + drop_bit 4 (y AND 48)) :: u8) = unat x * 4 + unat y div 16"
    using assms by (simp only: u32_masks m unsigned_ucast_eq unat_word_ariths p d) (simp add: take_bit_eq_mod)
  show "unat (ucast (push_bit 4 (x AND 15) + drop_bit 2 (y AND 60)) :: u8) = 16 * (unat x mod 16) + unat y div 4"
    using assms by (simp only: u32_masks m unsigned_ucast_eq unat_word_ariths p d) (simp add: take_bit_eq_mod)
  show "unat (ucast (push_bit 6 (x AND 3) + y) :: u8) = 64 * (unat x mod 4) + unat y"
    using assms by (simp only: u32_masks m unsigned_ucast_eq unat_word_ariths p d) (simp add: take_bit_eq_mod)
qed

lemma b64_small:
  fixes a b c :: u8
  defines "s0 \<equiv> ucast a :: u32" and "s1 \<equiv> ucast b :: u32" and "s2 \<equiv> ucast c :: u32"
  shows "unat (drop_bit 2 (s0 AND 255)) < 64"
    "unat (push_bit 4 (s0 AND 3) + drop_bit 4 (s1 AND 240)) < 64"
    "unat (push_bit 2 (s1 AND 15) + drop_bit 6 (s2 AND 192)) < 64"
    "unat (push_bit 4 (s0 AND 3)) < 64"
    "unat (push_bit 2 (s1 AND 15)) < 64"
    "unat (s2 AND 63) < 64"
  unfolding assms b64_numbers by (rule b64_nat [OF unat_u8_less unat_u8_less unat_u8_less])+

lemma u32_64: "unat (x :: u32) < 64 \<Longrightarrow> x < 64 \<and> x \<noteq> 64"
  by (auto simp: word_less_nat_alt)

lemmas b64_round = u32_64 [OF b64_small(1)] u32_64 [OF b64_small(2)] u32_64 [OF b64_small(3)]
  u32_64 [OF b64_small(4)] u32_64 [OF b64_small(5)] u32_64 [OF b64_small(6)]

lemma b64_group:
  fixes a b c :: u8
  shows "ucast (push_bit 2 (drop_bit 2 (ucast a AND 255 :: u32) AND 255)
      + drop_bit 4 ((push_bit 4 (ucast a AND 3) + drop_bit 4 (ucast b AND 240)) AND 48)) = a"
    "ucast (push_bit 2 (drop_bit 2 (ucast a AND 255 :: u32) AND 255)
      + drop_bit 4 (push_bit 4 (ucast a AND 3) AND 48)) = a"
    "ucast (push_bit 4 ((push_bit 4 (ucast a AND 3 :: u32) + drop_bit 4 (ucast b AND 240)) AND 15)
      + drop_bit 2 ((push_bit 2 (ucast b AND 15) + drop_bit 6 (ucast c AND 192)) AND 60)) = b"
    "ucast (push_bit 4 ((push_bit 4 (ucast a AND 3 :: u32) + drop_bit 4 (ucast b AND 240)) AND 15)
      + drop_bit 2 (push_bit 2 (ucast b AND 15) AND 60)) = b"
    "ucast (push_bit 6 ((push_bit 2 (ucast b AND 15 :: u32) + drop_bit 6 (ucast c AND 192)) AND 3)
      + (ucast c AND 63)) = c"
  unfolding word_unat_eq_iff b64_back_numbers [OF b64_small(1) b64_small(2)]
    b64_back_numbers [OF b64_small(1) b64_small(4)] b64_back_numbers [OF b64_small(2) b64_small(3)]
    b64_back_numbers [OF b64_small(2) b64_small(5)] b64_back_numbers [OF b64_small(3) b64_small(6)]
    b64_numbers
  by (rule b64_nat [OF unat_u8_less unat_u8_less unat_u8_less])+

lemmas b64_step = list.map base64_groups.simps base64_ungroups.simps b64_int_at b64_round b64_group
  append.simps simp_thms if_True if_False

lemma b64_pad: "base64_int (ucast (61 :: u8)) = 64"
  by (simp add: base64_int_def)

lemma b64_round_trip: "base64_ungroups (map (\<lambda>c. base64_int (ucast c)) (base64_groups (map ucast bs))) = bs"
proof (induction "map ucast bs :: u32 list" arbitrary: bs rule: base64_groups.induct)
  case (1 s0 s1 s2 s)
  then obtain a b c cs where bs: "bs = a # b # c # cs" "s0 = ucast a" "s1 = ucast b" "s2 = ucast c" "s = map ucast cs"
    by (auto simp: Cons_eq_map_conv)
  show ?case using 1(1) [OF bs(5)]
    by (simp only: bs b64_step)
next
  case (2 s0 s1)
  then obtain a b where bs: "bs = [a, b]" by (auto simp: Cons_eq_map_conv)
  show ?case by (simp only: bs b64_step b64_pad)
next
  case (3 s0)
  then obtain a where bs: "bs = [a]" by (auto simp: Cons_eq_map_conv)
  show ?case by (simp only: bs b64_step b64_pad bit.conj_zero_left drop_bit_of_0 add_0_right)
next
  case 4
  then show ?case by simp
qed
lemma base64_groups_length: "length (base64_groups s) = 4 * ((length s + 2) div 3)"
proof (induction s rule: base64_groups.induct)
  case (1 s0 s1 s2 s)
  have "(length s + 3 + 2) div 3 = (length s + 2) div 3 + 1"
    using div_add_self2 [of 3 "length s + 2"] by (simp add: ac_simps)
  moreover have "length (s0 # s1 # s2 # s) = length s + 3" by simp
  ultimately show ?case using 1 by (simp only: base64_groups.simps length_Cons distrib_left mult_1_right)
qed simp_all

lemma third_step: "(if n mod 3 = 0 then (n + 2) div 3 + 1 else (n + 2) div 3) = (Suc n + 2) div (3 :: nat)"
proof -
  define q where "q = n div 3"
  have n: "n = 3 * q + n mod 3" unfolding q_def by simp
  have "n mod 3 < 3" by simp
  then consider "n mod 3 = 0" | "n mod 3 = 1" | "n mod 3 = 2" by linarith
  then show ?thesis
  proof cases
    case 1
    with n have "n = 3 * q" by simp
    then show ?thesis by simp
  next
    case 2
    with n have "n = 3 * q + 1" by simp
    then show ?thesis by simp
  next
    case 3
    with n have "n = 3 * q + 2" by simp
    then have "(n + 2) div 3 = (Suc n + 2) div 3" by simp
    with 3 show ?thesis by simp
  qed
qed

lemma base64_encoded_size_eq: "base64_encoded_size n = 4 * ((n + 2) div 3)"
proof -
  have "foldl (\<lambda>j i. if i mod 3 = 0 then j + 1 else j) 0 [0..<n] = (n + 2) div 3"
  proof (induction n)
    case (Suc n)
    have "(if n mod 3 = 0 then (n + 2) div 3 + 1 else (n + 2) div 3) = (Suc n + 2) div 3"
      by (rule third_step)
    then show ?case unfolding upt_Suc_append [OF le0] foldl_append foldl_Cons foldl_Nil Suc .
  qed simp
  then show ?thesis by (simp add: base64_encoded_size_def)
qed

section \<open>What the conversions promise\<close>

lemma swap_loop_rev:
  assumes "length u = length v" "n = length (u @ m @ v)" "i = length u"
  shows "swap_loop (u @ m @ v @ rest) n i = Some (u @ rev m @ v @ rest)"
  using assms
proof (induction "length m" arbitrary: u m v i rule: less_induct)
  case less
  show ?case
  proof (cases "i < n div 2")
    case False
    then have "length m \<le> 1" using less.prems by (auto simp: not_less)
    then have "rev m = m" by (cases m) (auto simp: le_Suc_eq)
    with False show ?thesis by (simp add: swap_loop.simps)
  next
    case True
    then have "2 \<le> length m" using less.prems by simp
    then obtain x m' where "m = x # m'" "m' \<noteq> []" by (cases m) fastforce+
    then obtain y m1 where m: "m = x # m1 @ [y]" by (cases m' rule: rev_cases) auto
    have e: "n - i - 1 = length (u @ x # m1)" using less.prems m by simp
    have "swap_loop (u @ m @ v @ rest) n i = swap_loop ((u @ [y]) @ m1 @ (x # v) @ rest) n (i + 1)"
      using True less.prems m unfolding swap_loop.simps [of "u @ m @ v @ rest"] e
      by (simp add: mem_get_def mem_set_def nth_append list_update_append)
    also have "\<dots> = Some ((u @ [y]) @ rev m1 @ (x # v) @ rest)"
      by (rule less.hyps) (use less.prems m in auto)
    finally show ?thesis by (simp add: m)
  qed
qed

lemma swap_bytes_rev: "swap_bytes (b @ rest) (length b) = Some (rev b @ rest)"
  using swap_loop_rev [of "[]" "[]" "length b" b 0 rest] by (simp add: swap_bytes_def)

lemma str_reverse_rev:
  "s \<noteq> [] \<Longrightarrow> 0 \<notin> set s \<Longrightarrow> dogecoin_str_reverse (s @ 0 # rest) = Some (rev s @ 0 # rest)"
  using swap_loop_rev [of "[]" "[]" "length s" s 0 "0 # rest"]
  by (simp add: dogecoin_str_reverse_def c_strlen_append)

lemma reverse_hex_loop_rev:
  assumes "n = 2 * length (u @ v)" "i = 2 * length v" "length w = 2 * length u" "u @ v \<noteq> []"
  shows "reverse_hex_loop (hex_chars (u @ v)) n i (hex_chars (rev v) @ w @ rest) = Some (hex_chars (rev (u @ v)) @ rest)"
  using assms
proof (induction u arbitrary: v i w rule: rev_induct)
  case Nil
  then have "\<not> i < n - 1" by auto
  with Nil show ?case by (simp add: reverse_hex_loop.simps)
next
  case (snoc x u)
  then obtain c d w' where w: "w = c # d # w'" "length w' = 2 * length u"
    by (auto simp: length_Suc_conv)
  have e: "n - i - 2 = length (hex_chars u)" "n - i - 1 = Suc (length (hex_chars u))" "i = length (hex_chars (rev v))"
    using snoc.prems by simp_all
  have i: "i < n - 1" using snoc.prems by simp
  have "reverse_hex_loop (hex_chars ((u @ [x]) @ v)) n i (hex_chars (rev v) @ w @ rest)
      = reverse_hex_loop (hex_chars (u @ x # v)) n (i + 2) (hex_chars (rev (x # v)) @ w' @ rest)"
    using i unfolding reverse_hex_loop.simps [of _ n i] e(1,2)
    by (simp add: mem_get_def mem_set_def nth_append list_update_append w e(3))
  also have "\<dots> = Some (hex_chars (rev (u @ x # v)) @ rest)"
    by (rule snoc.IH) (use snoc.prems w in simp_all)
  finally show ?case by simp
qed

lemma reverse_hex_rev:
  "b \<noteq> [] \<Longrightarrow> utils_reverse_hex (hex_chars b @ rest) (2 * length b) = Some (hex_chars (rev b) @ rest)"
  using reverse_hex_loop_rev [of "2 * length b" b "[]" 0 "hex_chars b" rest]
  by (simp add: utils_reverse_hex_def mem_read_def)

lemma sethex_bytes_rev: "length b \<le> n \<Longrightarrow> sethex_bytes (rev (hex_chars b)) n = rev b"
proof (induction b arbitrary: n rule: rev_induct)
  case Nil
  then show ?case by simp
next
  case (snoc x b)
  then obtain m where n: "n = Suc m" "length b \<le> m" by (cases n) auto
  have v: "of_int (utils_hex_digit (hex_digit_char (x AND 0xF))) = x AND 0xF"
    "of_int (utils_hex_digit (hex_digit_char (drop_bit 4 x AND 0xF))) = drop_bit 4 x AND 0xF"
    by (simp_all only: nibble_values word_of_int_uint of_int_uint)
  have "sethex_bytes (rev (hex_chars (b @ [x]))) (Suc m)
      = (of_int (utils_hex_digit (hex_digit_char (x AND 0xF)))
         OR push_bit 4 (of_int (utils_hex_digit (hex_digit_char (drop_bit 4 x AND 0xF))))) # sethex_bytes (rev (hex_chars b)) m"
    by simp
  also have "\<dots> = x # sethex_bytes (rev (hex_chars b)) m"
    unfolding v using nibbles [of x] by (simp only: or.commute)
  finally show ?case using snoc.IH [OF n(2)] n by simp
qed

lemma hex_chars_digits: "c \<in> set (hex_chars b) \<Longrightarrow> utils_hex_digit c \<noteq> -1 \<and> \<not> is_blank c \<and> c \<noteq> 120 \<and> c \<noteq> 88"
proof (induction b)
  case (Cons x b)
  have "utils_hex_digit (hex_digit_char (y AND 0xF)) \<noteq> -1" for y
  proof -
    have "0 \<le> uint (y AND 0xF)" by (rule unsigned_greater_eq)
    then show ?thesis by (simp only: nibble_values)
  qed
  then show ?case using Cons nibble_chars by auto
qed simp

lemma sethex_hex:
  assumes "length b = 32"
  shows "utils_uint256_sethex (hex_chars b @ 0 # rest) = Some (rev b)"
proof -
  obtain x b' where b: "b = x # b'" using assms by (cases b) auto
  obtain c d s where h: "hex_chars b = c # d # s" using b by simp
  note dig = hex_chars_digits [of _ b]
  have nul: "utils_hex_digit 0 = -1" by (simp add: utils_hex_digit_def)
  have "dropWhile is_blank (hex_chars b @ 0 # rest) = hex_chars b @ 0 # rest"
    using dig [of c] h by simp
  moreover have "takeWhile (\<lambda>c. utils_hex_digit c \<noteq> -1) (hex_chars b @ 0 # rest) = hex_chars b"
    using dig nul by (simp add: takeWhile_append2)
  moreover have "sethex_bytes (rev (hex_chars b)) 32 = rev b"
    using assms by (simp add: sethex_bytes_rev)
  moreover have "mem_get (hex_chars b @ 0 # rest) 0 = Some c" "mem_get (hex_chars b @ 0 # rest) 1 = Some d"
    "d \<noteq> 120" "d \<noteq> 88"
    using dig [of d] h by (simp_all add: mem_get_def)
  ultimately show ?thesis using assms nul
    by (simp add: utils_uint256_sethex_def Let_def del: hex_chars.simps)
qed

text \<open>Bytes written as hexadecimal are read back by \<open>utils_hex_to_bin\<close> and \<open>utils_hex_to_uint8\<close>;
  \<open>utils_uint256_sethex\<close> reads a 256-bit value with its bytes reversed, and \<open>utils_reverse_hex\<close> reverses
  the bytes in the text. The static buffer of \<open>utils_uint8_to_hex\<close> holds at most 1023 bytes, beyond
  which it returns a null pointer.\<close>

theorem hex_round_trip:
  assumes "2 * length b < length out" "length b \<le> length buf" "b \<noteq> []"
  shows "\<exists>h. utils_bin_to_hex b (length b) out = Some h
      \<and> utils_hex_to_bin h buf (2 * length b) = Some (b @ drop (length b) buf, length b)
      \<and> (length b = 32 \<longrightarrow> utils_uint256_sethex h = Some (rev b))
      \<and> utils_reverse_hex h (2 * length b) = utils_bin_to_hex (rev b) (length b) out
      \<and> utils_uint8_to_hex b (length b) =
          (if length b < 1024 then Some (Some (take (2 * length b) h @ replicate (2048 - 2 * length b) 0)) else Some None)
      \<and> (length b < 1024 \<longrightarrow>
          Option.bind (utils_uint8_to_hex b (length b)) (\<lambda>h. Option.bind h utils_hex_to_uint8)
          = Some (Some (b @ replicate (2048 - length b) 0)))"
proof -
  let ?h = "hex_chars b @ 0 # drop (Suc (2 * length b)) out"
  have h: "utils_bin_to_hex c (length c) out = Some (hex_chars c @ 0 # drop (Suc (2 * length c)) out)"
    if "length c = length b" for c
    using assms that by (simp add: utils_bin_to_hex_def mem_simps)
  have u: "utils_uint8_to_hex b (length b) = Some (Some (hex_chars b @ replicate (2048 - 2 * length b) 0))"
    if "length b < 1024"
    using that by (simp add: utils_uint8_to_hex_def TO_UINT8_HEX_BUF_LEN_def mem_simps)
  have s: "c_strlen (hex_chars b @ replicate (2048 - 2 * length b) 0) = Some (2 * length b)" if l: "length b < 1024"
  proof -
    obtain k where "2048 - 2 * length b = Suc k" using l by (cases "2048 - 2 * length b") auto
    then show ?thesis using c_strlen_append [OF hex_chars_no_nul, of b] by simp
  qed
  have "utils_hex_to_uint8 (hex_chars b @ replicate (2048 - 2 * length b) 0) = Some (Some (b @ replicate (2048 - length b) 0))"
    if "length b < 1024"
    using that s by (simp add: utils_hex_to_uint8_def TO_UINT8_HEX_BUF_LEN_def mem_simps hex_pair_sums_same)
  moreover have "utils_hex_to_bin ?h buf (2 * length b) = Some (b @ drop (length b) buf, length b)"
    using assms by (simp add: utils_hex_to_bin_def mem_simps Let_def)
  moreover have "utils_reverse_hex ?h (2 * length b) = utils_bin_to_hex (rev b) (length b) out"
    using h [of "rev b"] reverse_hex_rev [OF assms(3)] by simp
  moreover have "utils_uint8_to_hex b (length b) = Some None" if "\<not> length b < 1024"
    using that by (simp add: utils_uint8_to_hex_def TO_UINT8_HEX_BUF_LEN_def)
  ultimately show ?thesis
    using h [of b] sethex_hex [of b] u by (intro exI [of _ ?h]) auto
qed

lemma hex_round_trip_witness:
  "\<exists>h. utils_bin_to_hex [0xAB, 0x0C] 2 [1, 2, 3, 4, 5] = Some h
      \<and> utils_hex_to_bin h [0, 0, 7] 4 = Some ([0xAB, 0x0C, 7], 2)
      \<and> utils_reverse_hex h 4 = utils_bin_to_hex [0x0C, 0xAB] 2 [1, 2, 3, 4, 5]"
  using hex_round_trip [of "[0xAB, 0x0C]" "[1, 2, 3, 4, 5]" "[0, 0, 7]"] by (auto simp flip: numeral_2_eq_2)

lemma b64_at_nonzero: "x < 64 \<Longrightarrow> b64_at x \<noteq> 0"
proof -
  assume "x < 64"
  then have "unat x < 64" by (simp add: word_less_nat_alt)
  moreover have "list_all (\<lambda>n. base64_char ! n \<noteq> 0) [0..<64]" by code_simp
  ultimately show ?thesis by (simp only: list_all_iff b64_at_def) simp
qed

lemmas b64_nonzero = b64_round [THEN conjunct1, THEN b64_at_nonzero]

lemma base64_groups_no_nul: "0 \<notin> set (base64_groups (map ucast (bs :: bytes)))"
proof (induction "map ucast bs :: u32 list" arbitrary: bs rule: base64_groups.induct)
  case (1 s0 s1 s2 s)
  then obtain a b c cs where bs: "bs = a # b # c # cs" "s0 = ucast a" "s1 = ucast b" "s2 = ucast c" "s = map ucast cs"
    by (auto simp: Cons_eq_map_conv)
  show ?case using 1(1) [OF bs(5)]
    by (simp only: bs list.map base64_groups.simps list.set insert_iff de_Morgan_disj simp_thms eq_commute [of 0] b64_nonzero)
next
  case (2 s0 s1)
  then obtain a b where bs: "bs = [a, b]" by (auto simp: Cons_eq_map_conv)
  show ?case
    by (simp only: bs list.map base64_groups.simps list.set insert_iff de_Morgan_disj simp_thms eq_commute [of 0] b64_nonzero) simp
next
  case (3 s0)
  then obtain a where bs: "bs = [a]" by (auto simp: Cons_eq_map_conv)
  show ?case
    by (simp only: bs list.map base64_groups.simps list.set insert_iff de_Morgan_disj simp_thms eq_commute [of 0] b64_nonzero
        bit.conj_zero_left drop_bit_of_0 add_0_right) simp
next
  case 4
  then show ?case by simp
qed

text \<open>
  What \<open>base64_encode\<close> writes is a string of the size that \<open>base64_encoded_size\<close> announces, and
  \<open>base64_decode\<close> reads it back, whatever the number of bytes.\<close>

theorem base64_round_trip:
  assumes "base64_encoded_size (length b) < length out" "length b < length buf"
  shows "\<exists>e. base64_encode b (length b) out = Some (e, base64_encoded_size (length b))
      \<and> c_strlen e = Some (base64_encoded_size (length b))
      \<and> base64_decode e (base64_encoded_size (length b)) buf = Some (b @ 0 # drop (Suc (length b)) buf, length b)"
proof -
  let ?e = "base64_groups (map ucast b)"
  have l: "length ?e = base64_encoded_size (length b)"
    by (simp add: base64_groups_length base64_encoded_size_eq)
  let ?h = "?e @ 0 # drop (Suc (length ?e)) out"
  have "base64_encode b (length b) out = Some (?h, length ?e)"
    using assms l by (simp add: base64_encode_def mem_simps Let_def del: base64_groups.simps)
  moreover have "c_strlen ?h = Some (length ?e)"
    by (rule c_strlen_append [OF base64_groups_no_nul])
  moreover have "base64_decode ?h (length ?e) buf = Some (b @ 0 # drop (Suc (length b)) buf, length b)"
    using assms by (simp add: base64_decode_def mem_simps Let_def b64_round_trip)
  ultimately show ?thesis using l by auto
qed

lemma base64_round_trip_witness:
  "\<exists>e. base64_encode [77, 97] 2 [9, 9, 9, 9, 9] = Some (e, 4) \<and> base64_decode e 4 [7, 7, 7, 7] = Some ([77, 97, 0, 7], 2)"
  using base64_round_trip [of "[77, 97]" "[9, 9, 9, 9, 9]" "[7, 7, 7, 7]"]
  by (auto simp add: base64_encoded_size_eq simp flip: numeral_2_eq_2)

end
