(* ===== verification/Address.thy ===== *)
theory Address
  imports Base58 Tx Utils
begin

text \<open>
  Addresses and private keys as text: the network parameters (\<open>src/chainparams.c\<close>), the conversions between
  hashes, scripts, addresses and amounts to pay (\<open>src/base58.c\<close>, \<open>src/tx.c\<close>, \<open>src/address.c\<close>), and
  private keys in their import format (\<open>src/key.c\<close>). What needs the elliptic curve is not here.
\<close>

section \<open>Networks\<close>

text \<open>The seeds of the peer-to-peer network are left out.\<close>

record dogecoin_chainparams =
  chainname :: string
  b58prefix_pubkey_address :: u8
  b58prefix_script_address :: u8
  bech32_hrp :: string
  b58prefix_secret_address :: u8
  b58prefix_bip32_privkey :: u32
  b58prefix_bip32_pubkey :: u32
  netmagic :: bytes
  genesisblockhash :: bytes
  default_port :: int

definition dogecoin_chainparams_main :: dogecoin_chainparams where
  "dogecoin_chainparams_main = \<lparr>
     chainname = ''main'',
     b58prefix_pubkey_address = 0x1e,
     b58prefix_script_address = 0x16,
     bech32_hrp = ''doge'',
     b58prefix_secret_address = 0x9e,
     b58prefix_bip32_privkey = 0x02fac398,
     b58prefix_bip32_pubkey = 0x02facafd,
     netmagic = [0xc0, 0xc0, 0xc0, 0xc0],
     genesisblockhash = [0x91, 0x56, 0x35, 0x2c, 0x18, 0x18, 0xb3, 0x2e, 0x90, 0xc9, 0xe7, 0x92, 0xef, 0xd6, 0xa1, 0x1a,
       0x82, 0xfe, 0x79, 0x56, 0xa6, 0x30, 0xf0, 0x3b, 0xbe, 0xe2, 0x36, 0xce, 0xda, 0xe3, 0x91, 0x1a],
     default_port = 22556\<rparr>"

definition dogecoin_chainparams_test :: dogecoin_chainparams where
  "dogecoin_chainparams_test = \<lparr>
     chainname = ''testnet3'',
     b58prefix_pubkey_address = 0x71,
     b58prefix_script_address = 0xc4,
     bech32_hrp = ''tdge'',
     b58prefix_secret_address = 0xf1,
     b58prefix_bip32_privkey = 0x04358394,
     b58prefix_bip32_pubkey = 0x043587cf,
     netmagic = [0xfc, 0xc1, 0xb7, 0xdc],
     genesisblockhash = [0x9e, 0x55, 0x50, 0x73, 0xd0, 0xc4, 0xf3, 0x64, 0x56, 0xdb, 0x89, 0x51, 0xf4, 0x49, 0x70, 0x4d,
       0x54, 0x4d, 0x28, 0x26, 0xd9, 0xaa, 0x60, 0x63, 0x6b, 0x40, 0x37, 0x46, 0x26, 0x78, 0x0a, 0xbb],
     default_port = 44556\<rparr>"

definition dogecoin_chainparams_regtest :: dogecoin_chainparams where
  "dogecoin_chainparams_regtest = \<lparr>
     chainname = ''regtest'',
     b58prefix_pubkey_address = 0x6f,
     b58prefix_script_address = 0xc4,
     bech32_hrp = ''dcrt'',
     b58prefix_secret_address = 0xEF,
     b58prefix_bip32_privkey = 0x04358394,
     b58prefix_bip32_pubkey = 0x043587cf,
     netmagic = [0xfa, 0xbf, 0xb5, 0xda],
     genesisblockhash = [0xa5, 0x73, 0xe9, 0x1c, 0x17, 0x72, 0x07, 0x6c, 0x0d, 0x40, 0xf7, 0x0e, 0x44, 0x08, 0xc8, 0x3a,
       0x31, 0x70, 0x5f, 0x29, 0x6a, 0xe6, 0xe7, 0x62, 0x9d, 0x4a, 0xdc, 0xb5, 0xa3, 0x60, 0x21, 0x3d],
     default_port = 18332\<rparr>"

text \<open>By the first character: \<open>9\<close>, \<open>A\<close>, \<open>d\<close>, \<open>D\<close>, \<open>Q\<close> and \<open>6\<close> are the main network.\<close>

definition chain_from_b58_prefix :: "bytes \<Rightarrow> dogecoin_chainparams option" where
  "chain_from_b58_prefix address = do {
     c \<leftarrow> mem_get address 0;
     Some (if c \<in> {57, 65, 100, 68, 81, 54} then dogecoin_chainparams_main else dogecoin_chainparams_test)
   }"

definition chain_from_b58_prefix_bool :: "bytes \<Rightarrow> bool option" where
  "chain_from_b58_prefix_bool address = do { c \<leftarrow> mem_get address 0; Some (c = 100 \<or> c = 68) }"

section \<open>Addresses\<close>

text \<open>Whether the address was written, and its buffer.\<close>

definition dogecoin_p2pkh_addr_from_hash160 ::
    "bytes \<Rightarrow> dogecoin_chainparams \<Rightarrow> bytes \<Rightarrow> nat \<Rightarrow> (bool \<times> bytes) option" where
  "dogecoin_p2pkh_addr_from_hash160 hashin chain addrout n = do {
     h \<leftarrow> mem_read hashin 0 20;
     (r, addrout) \<leftarrow> dogecoin_base58_encode_check (b58prefix_pubkey_address chain # h) 21 addrout n;
     Some (r > 0, addrout)
   }"

definition dogecoin_p2sh_addr_from_hash160 ::
    "bytes \<Rightarrow> dogecoin_chainparams \<Rightarrow> bytes \<Rightarrow> nat \<Rightarrow> (bool \<times> bytes) option" where
  "dogecoin_p2sh_addr_from_hash160 hashin chain addrout n = do {
     h \<leftarrow> mem_read hashin 0 20;
     (r, addrout) \<leftarrow> dogecoin_base58_encode_check (b58prefix_script_address chain # h) 21 addrout n;
     Some (r > 0, addrout)
   }"

text \<open>An address that does not decode, or of another network, adds nothing; the result is true all the same.\<close>

definition dogecoin_tx_add_address_out ::
    "dogecoin_tx \<Rightarrow> dogecoin_chainparams \<Rightarrow> u64 \<Rightarrow> bytes \<Rightarrow> (bool \<times> dogecoin_tx) option" where
  "dogecoin_tx_add_address_out tx chain amount address = do {
     n \<leftarrow> c_strlen address;
     (r, buf) \<leftarrow> dogecoin_base58_decode_check address (replicate (n * 2) 0) (n * 2);
     v \<leftarrow> (if r > 0 then mem_get buf 0 else Some 0);
     (if r > 0 \<and> v = b58prefix_pubkey_address chain then do {
        (_, tx) \<leftarrow> dogecoin_tx_add_p2pkh_hash160_out tx amount (drop 1 buf);
        Some (True, tx)
      }
      else if r > 0 \<and> v = b58prefix_script_address chain then do {
        (_, tx) \<leftarrow> dogecoin_tx_add_p2sh_hash160_out tx amount (drop 1 buf);
        Some (True, tx)
      }
      else Some (True, tx))
   }"

text \<open>
  The loop of \<open>dogecoin_tx_out_pubkey_hash_to_p2pkh_address\<close>: every byte that is not one of the four
  operations copies 23 bytes of the script from the fourth on. The bytes copied may be uninitialised.
\<close>

function strip_ops :: "cells \<Rightarrow> nat \<Rightarrow> nat \<Rightarrow> cells \<Rightarrow> cells option" where
  "strip_ops s n i stripped =
     (if i < n then do {
        c \<leftarrow> mem_get s i;
        c \<leftarrow> c;
        (if c \<in> {OP_DUP, OP_HASH160, OP_EQUALVERIFY, OP_CHECKSIG} then strip_ops s n (i + 1) stripped
         else do {
           b \<leftarrow> mem_read s 3 23;
           stripped \<leftarrow> mem_write stripped 0 b;
           strip_ops s n (i + 1) stripped
         })
      }
      else Some stripped)"
  by pat_completeness auto
termination
  by (relation "measure (\<lambda>(s, n, i, stripped). n - i)") auto

declare strip_ops.simps [simp del]

text \<open>\<open>length < len - 4\<close>: a script of fewer than four bytes makes the bound wrap around.\<close>

definition strip_bound :: "nat \<Rightarrow> nat" where
  "strip_bound n = (if n < 4 then 2 ^ 64 + n - 4 else n - 4)"

definition dogecoin_tx_out_pubkey_hash_to_p2pkh_address ::
    "dogecoin_tx_out \<Rightarrow> bytes \<Rightarrow> bool \<Rightarrow> (bool \<times> bytes) option" where
  "dogecoin_tx_out_pubkey_hash_to_p2pkh_address txout p2pkh is_mainnet = do {
     let chain = (if is_mainnet then dogecoin_chainparams_main else dogecoin_chainparams_test);
     copy \<leftarrow> dogecoin_tx_out_copy txout;
     s \<leftarrow> script_pubkey txout;
     c \<leftarrow> script_pubkey copy;
     stripped \<leftarrow> strip_ops (str c) (strip_bound (len c)) 2 (replicate (len s) (Some 0));
     h \<leftarrow> read_cells (take 20 stripped);
     dogecoin_p2pkh_addr_from_hash160 h chain p2pkh 35
   }"

text \<open>
  \<open>"%02x%02x%02x%.40s%02x%02x"\<close> of the operations, the length 20 and the hexadecimal of the hash. The local
  array \<open>dec\<close> is written entirely by a conversion that succeeds.
\<close>

definition OP_text :: "u8 \<Rightarrow> bytes" where
  "OP_text b = hex_chars [b]"

definition dogecoin_p2pkh_address_to_pubkey_hash :: "bytes \<Rightarrow> bytes \<Rightarrow> (bool \<times> bytes) option" where
  "dogecoin_p2pkh_address_to_pubkey_hash p2pkh pubkey_hash = do {
     (n, dec) \<leftarrow> dogecoin_base58_decode_check p2pkh (replicate 35 0) 35;
     (if n = 0 then Some (False, pubkey_hash)
      else do {
        h \<leftarrow> utils_uint8_to_hex dec (n - 4);
        h \<leftarrow> h;
        k \<leftarrow> c_strlen (drop 2 h);
        b \<leftarrow> mem_write pubkey_hash 0
          (OP_text OP_DUP @ OP_text OP_HASH160 @ OP_text 20 @ take (min 40 k) (drop 2 h)
            @ OP_text OP_EQUALVERIFY @ OP_text OP_CHECKSIG @ [0]);
        Some (True, b)
      })
   }"

text \<open>The static buffer from its third character, or a null pointer.\<close>

definition dogecoin_address_to_pubkey_hash :: "bytes \<Rightarrow> bytes option option" where
  "dogecoin_address_to_pubkey_hash p2pkh = do {
     (n, dec) \<leftarrow> dogecoin_base58_decode_check p2pkh (replicate 35 0) 35;
     (if n = 0 then Some None
      else do {
        h \<leftarrow> utils_uint8_to_hex dec (n - 4);
        h \<leftarrow> h;
        Some (Some (drop 2 h))
      })
   }"

definition verifyP2pkhAddress :: "bytes \<Rightarrow> nat \<Rightarrow> bool option" where
  "verifyP2pkhAddress p2pkh_pubkey n =
     (if n = 0 then Some False
      else do {
        (r, dec) \<leftarrow> dogecoin_base58_decode_check p2pkh_pubkey (replicate n 0) n;
        (if r = 0 then Some False
         else do {
           b \<leftarrow> mem_read dec 0 21;
           d1 \<leftarrow> sha256_raw b (replicate 32 0);
           d2 \<leftarrow> sha256_raw d1 (replicate 32 0);
           c \<leftarrow> mem_read dec 21 4;
           Some (c = take 4 d2)
         })
      })"

section \<open>Private keys\<close>

definition DOGECOIN_ECKEY_PKEY_LENGTH :: nat where "DOGECOIN_ECKEY_PKEY_LENGTH = 32"

record dogecoin_key =
  privkey :: bytes

definition dogecoin_privkey_init :: "dogecoin_key \<Rightarrow> dogecoin_key" where
  "dogecoin_privkey_init key = key\<lparr>privkey := replicate DOGECOIN_ECKEY_PKEY_LENGTH 0\<rparr>"

definition dogecoin_privkey_cleanse :: "dogecoin_key \<Rightarrow> dogecoin_key" where
  "dogecoin_privkey_cleanse key = key\<lparr>privkey := replicate DOGECOIN_ECKEY_PKEY_LENGTH 0\<rparr>"

text \<open>The text is written by the argument of an \<open>assert\<close>: \<open>None\<close> is the program ending there.\<close>

definition dogecoin_privkey_encode_wif :: "dogecoin_key \<Rightarrow> dogecoin_chainparams \<Rightarrow> bytes \<Rightarrow> nat \<Rightarrow> bytes option" where
  "dogecoin_privkey_encode_wif key chain privkey_wif n = do {
     k \<leftarrow> mem_read (privkey key) 0 DOGECOIN_ECKEY_PKEY_LENGTH;
     (r, w) \<leftarrow> dogecoin_base58_encode_check (b58prefix_secret_address chain # k @ [1]) 34 privkey_wif n;
     (if r \<noteq> 0 then Some w else None)
   }"

definition dogecoin_privkey_decode_wif ::
    "bytes \<Rightarrow> dogecoin_chainparams \<Rightarrow> dogecoin_key \<Rightarrow> (bool \<times> dogecoin_key) option" where
  "dogecoin_privkey_decode_wif privkey_wif chain key = do {
     n \<leftarrow> c_strlen privkey_wif;
     (if n < 50 then Some (False, key)
      else do {
        (r, d) \<leftarrow> dogecoin_base58_decode_check privkey_wif (replicate n 0) n;
        (if r = 0 then Some (False, key)
         else do {
           v \<leftarrow> mem_get d 0;
           (if v \<noteq> b58prefix_secret_address chain then Some (False, key)
            else do {
              k \<leftarrow> mem_read d 1 DOGECOIN_ECKEY_PKEY_LENGTH;
              Some (True, key\<lparr>privkey := k\<rparr>)
            })
         })
      })
   }"

section \<open>The text of an address\<close>

lemma b58_digits_at_most:
  assumes "b58_digits bs ds" "radix 256 (nats bs) < 58 ^ k" "\<exists>b bs'. bs = b # bs' \<and> b \<noteq> 0"
  shows "length ds \<le> k"
proof (rule ccontr)
  assume "\<not> length ds \<le> k"
  then have k: "k \<le> length ds - 1" "ds \<noteq> []" by auto
  have "hd ds \<noteq> 0" "radix 58 ds = radix 256 (nats bs)"
    using assms(1,3) k(2) by (auto simp: b58_digits_def Let_def hd_conv_nth)
  then have "58 ^ (length ds - 1) \<le> radix 256 (nats bs)" using radix_ge [OF k(2), of 58] by simp
  moreover have "(58 :: nat) ^ k \<le> 58 ^ (length ds - 1)" using k(1) by (rule power_increasing) simp
  ultimately show False using assms(2) by linarith
qed

lemma b58_digits_at_least:
  assumes "b58_digits bs ds" "58 ^ k \<le> radix 256 (nats bs)" "\<exists>b bs'. bs = b # bs' \<and> b \<noteq> 0"
  shows "k < length ds"
proof -
  have "radix 58 ds < 58 ^ length ds" "radix 58 ds = radix 256 (nats bs)"
    using assms(1,3) radix_less [of ds 58] by (auto simp: b58_digits_def Let_def)
  then have "(58 :: nat) ^ k < 58 ^ length ds" using assms(2) by linarith
  then show ?thesis by (simp add: power_less_imp_less_exp)
qed

text \<open>The value of a byte string lies between those of its first byte and the next.\<close>

lemma radix_leading:
  "radix 256 (nats ((v :: u8) # bs)) < (unat v + 1) * 256 ^ length bs"
  "unat v * 256 ^ length bs \<le> radix 256 (nats (v # bs))"
  using bytes_radix_less [of bs] by (simp_all add: radix_Cons)

text \<open>The text \<open>t\<close> that stands for the bytes \<open>p\<close>.\<close>

definition check_text :: "bytes \<Rightarrow> bytes \<Rightarrow> bool" where
  "check_text p t \<longleftrightarrow> (\<exists>ds. t = b58_text ds \<and> b58_digits (checked p) ds
     \<and> (\<forall>s n rest. dogecoin_base58_encode_check (p @ rest) (length p) s n =
         (if n \<le> length t then Some (0, s) else map_option (\<lambda>b. (length t + 1, b)) (mem_write s 0 (t @ [0])))))"

lemma check_text_ex: "length p \<le> 128 \<Longrightarrow> \<exists>t. check_text p t \<and> length t \<le> (length p + 4) * 138 div 100 + 1"
  using encode_check_digits [of p] unfolding check_text_def by fastforce

lemma check_text_encode:
  assumes "check_text p t"
  shows "n \<le> length t \<Longrightarrow> dogecoin_base58_encode_check p (length p) s n = Some (0, s)"
    "length t < n \<Longrightarrow> n \<le> length s \<Longrightarrow>
      dogecoin_base58_encode_check p (length p) s n = Some (length t + 1, t @ 0 # drop (length t + 1) s)"
proof -
  have "dogecoin_base58_encode_check (p @ []) (length p) s n =
      (if n \<le> length t then Some (0, s) else map_option (\<lambda>b. (length t + 1, b)) (mem_write s 0 (t @ [0])))" for s n
    using assms unfolding check_text_def by blast
  then show "n \<le> length t \<Longrightarrow> dogecoin_base58_encode_check p (length p) s n = Some (0, s)"
    "length t < n \<Longrightarrow> n \<le> length s \<Longrightarrow>
      dogecoin_base58_encode_check p (length p) s n = Some (length t + 1, t @ 0 # drop (length t + 1) s)"
    by (simp_all add: mem_write_def)
qed

lemma check_text_decode:
  assumes "check_text p t" "11 \<le> length p" "\<exists>b\<in>set p. b \<noteq> 0" "length t \<le> 128" "length t \<le> cap" "cap \<le> length d"
  shows "dogecoin_base58_decode_check (t @ 0 # rest) d cap
    = Some (length p + 4, p @ take 4 (sha256d p) @ replicate (cap - (length p + 4)) 0 @ drop cap d)"
  using assms decode_check_digits [of p _ cap d rest] unfolding check_text_def checked_def by auto

lemma check_text_no_nul: "check_text p t \<Longrightarrow> 0 \<notin> set t"
  using b58_digit_char unfolding check_text_def b58_digits_def Let_def b58_text_def by force

lemma check_text_bytes: "check_text p t \<Longrightarrow> length p \<le> length t"
  using digits_at_least_bytes [of "checked p"] unfolding check_text_def
  by (metis add_leD1 le_trans length_append length_b58_text length_checked takeWhile_dropWhile_id)

lemma check_text_fits:
  assumes "check_text (v # p) t" "(unat v + 1) * 256 ^ (length p + 4) \<le> 58 ^ k" "v \<noteq> 0"
  shows "length t \<le> k"
proof -
  have "radix 256 (nats (checked (v # p))) < (unat v + 1) * 256 ^ (length p + 4)"
    using radix_leading(1) [of v "p @ take 4 (sha256d (v # p))"] by (simp add: checked_def)
  then show ?thesis using assms b58_digits_at_most [of "checked (v # p)" _ k]
    unfolding check_text_def by (auto simp: checked_def)
qed

lemma check_text_needs:
  assumes "check_text (v # p) t" "58 ^ k \<le> unat v * 256 ^ (length p + 4)" "v \<noteq> 0"
  shows "k < length t"
proof -
  have "unat v * 256 ^ (length p + 4) \<le> radix 256 (nats (checked (v # p)))"
    using radix_leading(2) [of v "p @ take 4 (sha256d (v # p))"] by (simp add: checked_def)
  then show ?thesis using assms b58_digits_at_least [of "checked (v # p)" _ k]
    unfolding check_text_def by (auto simp: checked_def)
qed

section \<open>Paying to an address\<close>

lemma pushdata_take:
  assumes "20 \<le> length h"
  shows "dogecoin_script_append_pushdata s h 20 = dogecoin_script_append_pushdata s (take 20 h) 20"
proof -
  have "cstr_append_buf s (Some h) 20 = cstr_append_buf s (Some (take 20 h)) 20" for s
    using assms by (simp add: cstr_append_buf_def memcpy_safe_def mem_read_def)
  then show ?thesis by (simp add: dogecoin_script_append_pushdata_def)
qed

lemma hash160_out_take:
  assumes "20 \<le> length h"
  shows "dogecoin_tx_add_p2pkh_hash160_out tx amount h = dogecoin_tx_add_p2pkh_hash160_out tx amount (take 20 h)"
    "dogecoin_tx_add_p2sh_hash160_out tx amount h = dogecoin_tx_add_p2sh_hash160_out tx amount (take 20 h)"
  by (simp_all only: dogecoin_tx_add_p2pkh_hash160_out_def dogecoin_tx_add_p2sh_hash160_out_def
      dogecoin_script_build_p2pkh_def dogecoin_script_build_p2sh_def pushdata_take [OF assms])

lemma hash160_out_holds:
  assumes "tx_holds tx a" "length (v_outs a) + 1 < 2 ^ 32" "length h = 20"
  shows "\<exists>t. dogecoin_tx_add_p2pkh_hash160_out tx amount (h @ r) = Some (True, t) \<and> tx_holds t (with_output a amount (p2pkh_script h))"
    "\<exists>t. dogecoin_tx_add_p2sh_hash160_out tx amount (h @ r) = Some (True, t) \<and> tx_holds t (with_output a amount (p2sh_script h))"
proof -
  note add = add_out_holds [OF assms(1,2)]
  have "\<exists>t. dogecoin_tx_add_p2pkh_hash160_out tx amount h = Some (True, t) \<and> tx_holds t (with_output a amount (p2pkh_script h))"
    unfolding dogecoin_tx_add_p2pkh_hash160_out_def with_output_def
    by (rule add) (rule build_p2pkh_holds [OF _ assms(3)])
  then show "\<exists>t. dogecoin_tx_add_p2pkh_hash160_out tx amount (h @ r) = Some (True, t) \<and> tx_holds t (with_output a amount (p2pkh_script h))"
    using hash160_out_take(1) [of "h @ r" tx amount] assms(3) by simp
  have "\<exists>t. dogecoin_tx_add_p2sh_hash160_out tx amount h = Some (True, t) \<and> tx_holds t (with_output a amount (p2sh_script h))"
    unfolding dogecoin_tx_add_p2sh_hash160_out_def with_output_def
    by (rule add) (rule build_p2sh_holds [OF _ assms(3)])
  then show "\<exists>t. dogecoin_tx_add_p2sh_hash160_out tx amount (h @ r) = Some (True, t) \<and> tx_holds t (with_output a amount (p2sh_script h))"
    using hash160_out_take(2) [of "h @ r" tx amount] assms(3) by simp
qed

text \<open>What the text of a version byte and a hash adds to a transaction.\<close>

lemma address_out_text:
  assumes "check_text (v # h) t" "length h = 20" "v \<noteq> 0" "length t \<le> 128"
  shows "dogecoin_tx_add_address_out tx chain amount (t @ 0 # rest) =
    (if v = b58prefix_pubkey_address chain
     then map_option (\<lambda>r. (True, snd r)) (dogecoin_tx_add_p2pkh_hash160_out tx amount (h @ take 4 (sha256d (v # h)) @ replicate (length t * 2 - 25) 0))
     else if v = b58prefix_script_address chain
     then map_option (\<lambda>r. (True, snd r)) (dogecoin_tx_add_p2sh_hash160_out tx amount (h @ take 4 (sha256d (v # h)) @ replicate (length t * 2 - 25) 0))
     else Some (True, tx))"
proof -
  have "c_strlen (t @ 0 # rest) = Some (length t)"
    by (rule c_strlen_append [OF check_text_no_nul [OF assms(1)]])
  moreover have "dogecoin_base58_decode_check (t @ 0 # rest) (replicate (length t * 2) 0) (length t * 2)
      = Some (25, v # h @ take 4 (sha256d (v # h)) @ replicate (length t * 2 - 25) 0)"
    using check_text_decode [OF assms(1), of "length t * 2" "replicate (length t * 2) 0" rest] assms(2-4) by simp
  ultimately show ?thesis
    by (auto simp: dogecoin_tx_add_address_out_def mem_get_def map_option_case split: option.splits)
qed

definition networks :: "dogecoin_chainparams set" where
  "networks = {dogecoin_chainparams_main, dogecoin_chainparams_test, dogecoin_chainparams_regtest}"

lemma network_prefixes:
  assumes "chain \<in> networks"
  shows "b58prefix_pubkey_address chain \<noteq> 0" "b58prefix_script_address chain \<noteq> 0" "b58prefix_secret_address chain \<noteq> 0"
    "unat (b58prefix_pubkey_address chain) \<le> 113" "unat (b58prefix_script_address chain) \<le> 196"
    "b58prefix_pubkey_address chain \<noteq> b58prefix_script_address chain"
    "158 \<le> unat (b58prefix_secret_address chain)" "unat (b58prefix_secret_address chain) \<le> 241"
  using assms by (auto simp: networks_def dogecoin_chainparams_main_def dogecoin_chainparams_test_def dogecoin_chainparams_regtest_def)

text \<open>An address of a key takes at most 34 characters, so the 35 bytes of its callers hold it.\<close>

lemma pubkey_text:
  assumes "chain \<in> networks" "length h = 20"
  shows "\<exists>t. check_text (b58prefix_pubkey_address chain # h) t \<and> length t \<le> 34 \<and> 21 \<le> length t"
proof -
  obtain t where t: "check_text (b58prefix_pubkey_address chain # h) t"
    using check_text_ex [of "b58prefix_pubkey_address chain # h"] assms(2) by auto
  have "(unat (b58prefix_pubkey_address chain) + 1) * 256 ^ (length h + 4) \<le> 114 * 256 ^ 24"
    using network_prefixes(4) [OF assms(1)] assms(2) by (intro mult_le_mono) simp_all
  also have "(114 :: nat) * 256 ^ 24 \<le> 58 ^ 34" by simp
  finally show ?thesis
    using t check_text_fits [OF t _ network_prefixes(1) [OF assms(1)], of 34] check_text_bytes [OF t] assms(2) by auto
qed

lemma script_text:
  assumes "chain \<in> networks" "length h = 20"
  shows "\<exists>t. check_text (b58prefix_script_address chain # h) t \<and> length t \<le> 35 \<and> 21 \<le> length t
    \<and> (chain \<noteq> dogecoin_chainparams_main \<longrightarrow> length t = 35)"
proof -
  obtain t where t: "check_text (b58prefix_script_address chain # h) t" "length t \<le> 35"
    using check_text_ex [of "b58prefix_script_address chain # h"] assms(2) by auto
  have "34 < length t" if "chain \<noteq> dogecoin_chainparams_main"
  proof (rule check_text_needs [OF t(1) _ network_prefixes(2) [OF assms(1)]])
    have "unat (b58prefix_script_address chain) = 196"
      using that assms(1) by (auto simp: networks_def dogecoin_chainparams_test_def dogecoin_chainparams_regtest_def)
    then show "58 ^ 34 \<le> unat (b58prefix_script_address chain) * 256 ^ (length h + 4)" using assms(2) by simp
  qed
  then show ?thesis using t check_text_bytes [OF t(1)] assms(2) by (intro exI [of _ t]) auto
qed

lemma p2pkh_addr_text:
  assumes "check_text (b58prefix_pubkey_address chain # h) t" "length h = 20" "n \<le> length s"
  shows "dogecoin_p2pkh_addr_from_hash160 (h @ r) chain s n =
    Some (if length t < n then (True, t @ 0 # drop (length t + 1) s) else (False, s))"
  using check_text_encode [OF assms(1), of n s] assms(2,3)
  by (simp add: dogecoin_p2pkh_addr_from_hash160_def mem_read_def)

lemma p2sh_addr_text:
  assumes "check_text (b58prefix_script_address chain # h) t" "length h = 20" "n \<le> length s"
  shows "dogecoin_p2sh_addr_from_hash160 (h @ r) chain s n =
    Some (if length t < n then (True, t @ 0 # drop (length t + 1) s) else (False, s))"
  using check_text_encode [OF assms(1), of n s] assms(2,3)
  by (simp add: dogecoin_p2sh_addr_from_hash160_def mem_read_def)

text \<open>C30: Paying to an address pays to its hash. For a network and a hash of 20 bytes,
  \<open>dogecoin_p2pkh_addr_from_hash160\<close> and \<open>dogecoin_p2sh_addr_from_hash160\<close> write a text that
  \<open>dogecoin_tx_add_address_out\<close> turns into exactly one more output, with the amount and the script that pays
  to the key hash or the script hash. Under parameters whose two prefixes are both different from that of the
  text nothing is added, and the result is true all the same; the test network and the regression test network share the
  prefix of scripts, so there the address of a script of one adds its output on the other. The address of a key fits the 35 bytes its callers have; that of a script
  does not on the test networks, and is refused.\<close>

theorem address_output:
  assumes "chain \<in> networks" "length h = 20" "tx_holds tx a" "length (v_outs a) + 1 < 2 ^ 32"
  shows "(\<exists>t. length t \<le> 34
      \<and> (\<forall>s. 35 \<le> length s \<longrightarrow> dogecoin_p2pkh_addr_from_hash160 h chain s 35 = Some (True, t @ 0 # drop (length t + 1) s))
      \<and> (\<forall>rest. \<exists>tx'. dogecoin_tx_add_address_out tx chain amount (t @ 0 # rest) = Some (True, tx')
          \<and> tx_holds tx' (with_output a amount (p2pkh_script h)))
      \<and> (\<forall>other rest. b58prefix_pubkey_address chain \<notin> {b58prefix_pubkey_address other, b58prefix_script_address other}
          \<longrightarrow> dogecoin_tx_add_address_out tx other amount (t @ 0 # rest) = Some (True, tx)))
    \<and> (\<exists>t. length t \<le> 35
      \<and> (\<forall>s. 36 \<le> length s \<longrightarrow> dogecoin_p2sh_addr_from_hash160 h chain s 36 = Some (True, t @ 0 # drop (length t + 1) s))
      \<and> (\<forall>s. chain \<noteq> dogecoin_chainparams_main \<longrightarrow> 35 \<le> length s \<longrightarrow>
          dogecoin_p2sh_addr_from_hash160 h chain s 35 = Some (False, s))
      \<and> (\<forall>rest. \<exists>tx'. dogecoin_tx_add_address_out tx chain amount (t @ 0 # rest) = Some (True, tx')
          \<and> tx_holds tx' (with_output a amount (p2sh_script h)))
      \<and> (\<forall>other rest. b58prefix_script_address chain \<notin> {b58prefix_pubkey_address other, b58prefix_script_address other}
          \<longrightarrow> dogecoin_tx_add_address_out tx other amount (t @ 0 # rest) = Some (True, tx))
      \<and> (\<forall>other\<in>{dogecoin_chainparams_test, dogecoin_chainparams_regtest}. \<forall>rest. chain \<noteq> dogecoin_chainparams_main
          \<longrightarrow> (\<exists>tx'. dogecoin_tx_add_address_out tx other amount (t @ 0 # rest) = Some (True, tx')
            \<and> tx_holds tx' (with_output a amount (p2sh_script h)))))"
proof (intro conjI)
  note pre = network_prefixes [OF assms(1)] and out = hash160_out_holds [OF assms(3,4,2)]
  obtain t where t: "check_text (b58prefix_pubkey_address chain # h) t" "length t \<le> 34"
    using pubkey_text [OF assms(1,2)] by blast
  have w: "dogecoin_p2pkh_addr_from_hash160 h chain s 35 = Some (True, t @ 0 # drop (length t + 1) s)" if "35 \<le> length s" for s
    using p2pkh_addr_text [OF t(1) assms(2) that, of "[]"] t(2) by simp
  have p: "\<exists>tx'. dogecoin_tx_add_address_out tx chain amount (t @ 0 # rest) = Some (True, tx')
      \<and> tx_holds tx' (with_output a amount (p2pkh_script h))" for rest
    using address_out_text [OF t(1) assms(2) pre(1), of tx chain amount rest] t(2)
      out(1) [of amount "take 4 (sha256d (b58prefix_pubkey_address chain # h)) @ replicate (length t * 2 - 25) 0"] by auto
  have no: "dogecoin_tx_add_address_out tx other amount (t @ 0 # rest) = Some (True, tx)"
    if "b58prefix_pubkey_address chain \<notin> {b58prefix_pubkey_address other, b58prefix_script_address other}" for other rest
    using address_out_text [OF t(1) assms(2) pre(1), of tx other amount rest] t(2) that by simp
  show "\<exists>t. length t \<le> 34
      \<and> (\<forall>s. 35 \<le> length s \<longrightarrow> dogecoin_p2pkh_addr_from_hash160 h chain s 35 = Some (True, t @ 0 # drop (length t + 1) s))
      \<and> (\<forall>rest. \<exists>tx'. dogecoin_tx_add_address_out tx chain amount (t @ 0 # rest) = Some (True, tx')
          \<and> tx_holds tx' (with_output a amount (p2pkh_script h)))
      \<and> (\<forall>other rest. b58prefix_pubkey_address chain \<notin> {b58prefix_pubkey_address other, b58prefix_script_address other}
          \<longrightarrow> dogecoin_tx_add_address_out tx other amount (t @ 0 # rest) = Some (True, tx))"
    using t(2) w p no by (intro exI [of _ t]) blast
next
  note pre = network_prefixes [OF assms(1)] and out = hash160_out_holds [OF assms(3,4,2)]
  obtain t where t: "check_text (b58prefix_script_address chain # h) t" "length t \<le> 35"
    "chain \<noteq> dogecoin_chainparams_main \<longrightarrow> length t = 35"
    using script_text [OF assms(1,2)] by blast
  have w: "dogecoin_p2sh_addr_from_hash160 h chain s n = Some (if length t < n then (True, t @ 0 # drop (length t + 1) s) else (False, s))"
    if "n \<le> length s" for s n
    using p2sh_addr_text [OF t(1) assms(2) that, of "[]"] by simp
  have p: "\<exists>tx'. dogecoin_tx_add_address_out tx chain amount (t @ 0 # rest) = Some (True, tx')
      \<and> tx_holds tx' (with_output a amount (p2sh_script h))" for rest
    using address_out_text [OF t(1) assms(2) pre(2), of tx chain amount rest] t(2) pre(6)
      out(2) [of amount "take 4 (sha256d (b58prefix_script_address chain # h)) @ replicate (length t * 2 - 25) 0"] by auto
  have no: "dogecoin_tx_add_address_out tx other amount (t @ 0 # rest) = Some (True, tx)"
    if "b58prefix_script_address chain \<notin> {b58prefix_pubkey_address other, b58prefix_script_address other}" for other rest
    using address_out_text [OF t(1) assms(2) pre(2), of tx other amount rest] t(2) that by simp
  have shared: "\<exists>tx'. dogecoin_tx_add_address_out tx other amount (t @ 0 # rest) = Some (True, tx')
      \<and> tx_holds tx' (with_output a amount (p2sh_script h))"
    if "chain \<noteq> dogecoin_chainparams_main" "other \<in> {dogecoin_chainparams_test, dogecoin_chainparams_regtest}" for other rest
  proof -
    have "b58prefix_script_address other = b58prefix_script_address chain" "b58prefix_script_address chain \<noteq> b58prefix_pubkey_address other"
      using that assms(1) by (auto simp: networks_def dogecoin_chainparams_test_def dogecoin_chainparams_regtest_def)
    then show ?thesis
      using address_out_text [OF t(1) assms(2) pre(2), of tx other amount rest] t(2)
        out(2) [of amount "take 4 (sha256d (b58prefix_script_address chain # h)) @ replicate (length t * 2 - 25) 0"] by auto
  qed
  show "\<exists>t. length t \<le> 35
      \<and> (\<forall>s. 36 \<le> length s \<longrightarrow> dogecoin_p2sh_addr_from_hash160 h chain s 36 = Some (True, t @ 0 # drop (length t + 1) s))
      \<and> (\<forall>s. chain \<noteq> dogecoin_chainparams_main \<longrightarrow> 35 \<le> length s \<longrightarrow>
          dogecoin_p2sh_addr_from_hash160 h chain s 35 = Some (False, s))
      \<and> (\<forall>rest. \<exists>tx'. dogecoin_tx_add_address_out tx chain amount (t @ 0 # rest) = Some (True, tx')
          \<and> tx_holds tx' (with_output a amount (p2sh_script h)))
      \<and> (\<forall>other rest. b58prefix_script_address chain \<notin> {b58prefix_pubkey_address other, b58prefix_script_address other}
          \<longrightarrow> dogecoin_tx_add_address_out tx other amount (t @ 0 # rest) = Some (True, tx))
      \<and> (\<forall>other\<in>{dogecoin_chainparams_test, dogecoin_chainparams_regtest}. \<forall>rest. chain \<noteq> dogecoin_chainparams_main
          \<longrightarrow> (\<exists>tx'. dogecoin_tx_add_address_out tx other amount (t @ 0 # rest) = Some (True, tx')
            \<and> tx_holds tx' (with_output a amount (p2sh_script h))))"
    using t(2,3) w p no shared by (intro exI [of _ t]) auto
qed

lemma address_output_witness:
  "\<exists>t. length t \<le> 34
    \<and> dogecoin_p2pkh_addr_from_hash160 (replicate 20 9) dogecoin_chainparams_main (replicate 35 1) 35
      = Some (True, t @ 0 # drop (length t + 1) (replicate 35 1))
    \<and> (\<exists>tx'. dogecoin_tx_add_address_out sample_tx dogecoin_chainparams_main 5 (t @ [0]) = Some (True, tx')
        \<and> tx_holds tx' (with_output sample_view 5 (p2pkh_script (replicate 20 9))))
    \<and> dogecoin_tx_add_address_out sample_tx dogecoin_chainparams_test 5 (t @ [0]) = Some (True, sample_tx)"
proof -
  have "dogecoin_chainparams_main \<in> networks" "length (replicate 20 (9 :: u8)) = 20" "length (v_outs sample_view) + 1 < 2 ^ 32"
    by (simp_all add: networks_def sample_view_def)
  from address_output [OF this(1,2) sample_tx_holds this(3), of 5, THEN conjunct1]
  obtain t where t: "length t \<le> 34"
    "\<And>s. 35 \<le> length s \<Longrightarrow> dogecoin_p2pkh_addr_from_hash160 (replicate 20 9) dogecoin_chainparams_main s 35 = Some (True, t @ 0 # drop (length t + 1) s)"
    "\<And>rest. \<exists>tx'. dogecoin_tx_add_address_out sample_tx dogecoin_chainparams_main 5 (t @ 0 # rest) = Some (True, tx')
          \<and> tx_holds tx' (with_output sample_view 5 (p2pkh_script (replicate 20 9)))"
    "\<And>other rest. b58prefix_pubkey_address dogecoin_chainparams_main \<notin> {b58prefix_pubkey_address other, b58prefix_script_address other}
          \<Longrightarrow> dogecoin_tx_add_address_out sample_tx other 5 (t @ 0 # rest) = Some (True, sample_tx)"
    by blast
  have "b58prefix_pubkey_address dogecoin_chainparams_main
      \<notin> {b58prefix_pubkey_address dogecoin_chainparams_test, b58prefix_script_address dogecoin_chainparams_test}"
    by (simp add: dogecoin_chainparams_main_def dogecoin_chainparams_test_def)
  from t(1) t(2) [of "replicate 35 1"] t(3) [of "[]"] t(4) [OF this, of "[]"]
  show ?thesis by (intro exI [of _ t]) simp
qed

section \<open>Scripts and addresses\<close>

lemma p2pkh_script_bytes: "length h = 20 \<Longrightarrow> p2pkh_script h = [OP_DUP, OP_HASH160, 20] @ h @ [OP_EQUALVERIFY, OP_CHECKSIG]"
  by (simp add: p2pkh_script_def p2pkh_items_def push_opcode_def push_size_def code_values)

lemma length_OP_text [simp]: "length (OP_text b) = 2"
  by (simp add: OP_text_def)

lemma address_script_text:
  assumes "check_text (v # h) t" "length h = 20" "v \<noteq> 0" "length t \<le> 35" "51 \<le> length buf"
  shows "dogecoin_p2pkh_address_to_pubkey_hash (t @ 0 # rest) buf = Some (True, hex_chars (p2pkh_script h) @ 0 # drop 51 buf)"
proof -
  let ?c = "take 4 (sha256d (v # h))"
  have dec: "dogecoin_base58_decode_check (t @ 0 # rest) (replicate 35 0) 35 = Some (25, v # h @ ?c @ replicate 10 0)"
    using check_text_decode [OF assms(1), of 35 "replicate 35 0" rest] assms(2-4) by simp
  have hex: "utils_uint8_to_hex (v # h @ ?c @ replicate 10 0) 21 = Some (Some (hex_chars (v # h) @ replicate 2006 0))"
    using assms(2) by (simp add: utils_uint8_to_hex_def TO_UINT8_HEX_BUF_LEN_def mem_simps)
  have d: "drop 2 (hex_chars (v # h) @ replicate 2006 0) = hex_chars h @ replicate 2006 0" by simp
  have l: "c_strlen (hex_chars h @ replicate 2006 0) = Some 40"
    using c_strlen_append [OF hex_chars_no_nul, of h "replicate 2005 0"] assms(2) by (simp flip: replicate_Suc)
  have hx: "hex_chars (p2pkh_script h) = OP_text OP_DUP @ OP_text OP_HASH160 @ OP_text 20 @ hex_chars h
      @ OP_text OP_EQUALVERIFY @ OP_text OP_CHECKSIG" "length (hex_chars (p2pkh_script h)) = 50"
    using assms(2) by (simp_all add: p2pkh_script_bytes OP_text_def)
  show ?thesis
    using assms(5) dec hex d l assms(2) hx
    by (simp add: dogecoin_p2pkh_address_to_pubkey_hash_def mem_write_def del: hex_chars.simps)
qed

text \<open>
  \<open>dogecoin_p2pkh_address_to_pubkey_hash\<close> writes the hexadecimal of the script that pays to the key hash
  of an address. It does not look at the version byte: the address of a script of any network gives a
  script that pays to a key with the hash of that script.\<close>

theorem address_to_script:
  assumes "length h = 20" "v \<noteq> 0"
  shows "\<exists>t. length t \<le> 35
    \<and> (\<forall>s. 36 \<le> length s \<longrightarrow> dogecoin_base58_encode_check (v # h) 21 s 36 = Some (length t + 1, t @ 0 # drop (length t + 1) s))
    \<and> (\<forall>rest buf. 51 \<le> length buf \<longrightarrow>
        dogecoin_p2pkh_address_to_pubkey_hash (t @ 0 # rest) buf
        = Some (True, hex_chars (p2pkh_script h) @ 0 # drop 51 buf))"
proof -
  obtain t where t: "check_text (v # h) t" "length t \<le> 35" using check_text_ex [of "v # h"] assms(1) by auto
  have "dogecoin_base58_encode_check (v # h) 21 s 36 = Some (length t + 1, t @ 0 # drop (length t + 1) s)"
    if "36 \<le> length s" for s
    using check_text_encode(2) [OF t(1), of 36 s] that t(2) assms(1) by simp
  then show ?thesis using t(2) address_script_text [OF t(1) assms t(2)] by (intro exI [of _ t]) blast
qed

lemma address_to_script_witness:
  "\<exists>t. length t \<le> 35
    \<and> dogecoin_p2pkh_address_to_pubkey_hash (t @ [0]) (replicate 51 0) = Some (True, hex_chars (p2pkh_script (replicate 20 9)) @ [0])"
proof -
  have "length (replicate 20 (9 :: u8)) = 20" "(0x16 :: u8) \<noteq> 0" by simp_all
  from address_to_script [OF this]
  obtain t where t: "length t \<le> 35"
    "\<And>rest buf. 51 \<le> length buf \<Longrightarrow> dogecoin_p2pkh_address_to_pubkey_hash (t @ 0 # rest) buf
        = Some (True, hex_chars (p2pkh_script (replicate 20 9)) @ 0 # drop 51 buf)"
    by blast
  show ?thesis using t(1) t(2) [of "replicate 51 0" "[]"] by (intro exI [of _ t]) simp
qed

section \<open>Private keys as text\<close>

text \<open>The text of a private key: 51 or 52 characters, so the 53 bytes of its callers hold it.\<close>

lemma wif_text:
  assumes "chain \<in> networks" "length k = 32"
  shows "\<exists>t. check_text (b58prefix_secret_address chain # k @ [1]) t \<and> 50 < length t \<and> length t \<le> 52"
proof -
  let ?v = "b58prefix_secret_address chain"
  let ?p = "?v # k @ [1]"
  note pre = network_prefixes [OF assms(1)]
  obtain t where t: "check_text ?p t" using check_text_ex [of ?p] assms(2) by auto
  have "(unat ?v + 1) * 256 ^ (length (k @ [1]) + 4) \<le> 242 * 256 ^ 37"
    using pre(8) assms(2) by (intro mult_le_mono) simp_all
  also have "(242 :: nat) * 256 ^ 37 \<le> 58 ^ 52" by simp
  finally have up: "length t \<le> 52" by (rule check_text_fits [OF t _ pre(3)])
  have "(58 :: nat) ^ 50 \<le> 158 * 256 ^ 37" by simp
  also have "\<dots> \<le> unat ?v * 256 ^ (length (k @ [1]) + 4)"
    using pre(7) assms(2) by (intro mult_le_mono) simp_all
  finally have "50 < length t" by (rule check_text_needs [OF t _ pre(3)])
  with t up show ?thesis by blast
qed

lemma encode_wif_text:
  assumes "check_text (b58prefix_secret_address chain # k @ [1]) t" "length k = 32" "length t \<le> 52" "53 \<le> length s"
  shows "dogecoin_privkey_encode_wif \<lparr>privkey = k\<rparr> chain s 53 = Some (t @ 0 # drop (length t + 1) s)"
  using check_text_encode(2) [OF assms(1), of 53 s] assms(2-4)
  by (simp add: dogecoin_privkey_encode_wif_def DOGECOIN_ECKEY_PKEY_LENGTH_def mem_read_def)

lemma decode_wif_text:
  assumes "check_text (v # k @ [1]) t" "length k = 32" "50 < length t" "length t \<le> 52" "v \<noteq> 0"
  shows "dogecoin_privkey_decode_wif (t @ 0 # rest) chain key
    = Some (if b58prefix_secret_address chain = v then (True, key\<lparr>privkey := k\<rparr>) else (False, key))"
proof -
  let ?p = "v # k @ [1]"
  have "c_strlen (t @ 0 # rest) = Some (length t)" by (rule c_strlen_append [OF check_text_no_nul [OF assms(1)]])
  moreover have "dogecoin_base58_decode_check (t @ 0 # rest) (replicate (length t) 0) (length t)
      = Some (38, ?p @ take 4 (sha256d ?p) @ replicate (length t - 38) 0)"
    using check_text_decode [OF assms(1), of "length t" "replicate (length t) 0" rest] assms(2-5) by simp
  moreover have "31 \<le> length t - 2" using assms(3) by arith
  ultimately show ?thesis
    using assms(2,3) by (simp add: dogecoin_privkey_decode_wif_def mem_get_def mem_read_def DOGECOIN_ECKEY_PKEY_LENGTH_def)
qed

text \<open>A private key survives its import format. For every key of 32 bytes and every network,
  \<open>dogecoin_privkey_encode_wif\<close> writes at most 52 characters, and \<open>dogecoin_privkey_decode_wif\<close> reads the key
  back for that network and refuses it for a network with another prefix.\<close>

theorem wif_round_trip:
  assumes "chain \<in> networks" "length k = 32" "53 \<le> length s"
  shows "\<exists>t. length t \<le> 52 \<and> 0 \<notin> set t
    \<and> dogecoin_privkey_encode_wif \<lparr>privkey = k\<rparr> chain s 53 = Some (t @ 0 # drop (length t + 1) s)
    \<and> (\<forall>key rest. dogecoin_privkey_decode_wif (t @ 0 # rest) chain key = Some (True, key\<lparr>privkey := k\<rparr>))
    \<and> (\<forall>other key rest. b58prefix_secret_address other \<noteq> b58prefix_secret_address chain
        \<longrightarrow> dogecoin_privkey_decode_wif (t @ 0 # rest) other key = Some (False, key))"
proof -
  let ?v = "b58prefix_secret_address chain"
  obtain t where t: "check_text (?v # k @ [1]) t" "50 < length t" "length t \<le> 52" using wif_text [OF assms(1,2)] by blast
  note decode = decode_wif_text [OF t(1) assms(2) t(2,3) network_prefixes(3) [OF assms(1)]]
  show ?thesis
    using t(3) check_text_no_nul [OF t(1)] encode_wif_text [OF t(1) assms(2) t(3) assms(3)] decode
    by (intro exI [of _ t]) simp
qed

lemma wif_round_trip_witness:
  "\<exists>t. dogecoin_privkey_encode_wif \<lparr>privkey = replicate 32 5\<rparr> dogecoin_chainparams_main (replicate 53 0) 53
      = Some (t @ 0 # drop (length t + 1) (replicate 53 0))
    \<and> dogecoin_privkey_decode_wif (t @ [0]) dogecoin_chainparams_main \<lparr>privkey = replicate 32 0\<rparr>
      = Some (True, \<lparr>privkey = replicate 32 5\<rparr>)
    \<and> dogecoin_privkey_decode_wif (t @ [0]) dogecoin_chainparams_test \<lparr>privkey = replicate 32 0\<rparr>
      = Some (False, \<lparr>privkey = replicate 32 0\<rparr>)"
proof -
  have "dogecoin_chainparams_main \<in> networks" "length (replicate 32 (5 :: u8)) = 32" "53 \<le> length (replicate 53 (0 :: u8))"
    by (simp_all add: networks_def)
  from wif_round_trip [OF this]
  obtain t where t: "dogecoin_privkey_encode_wif \<lparr>privkey = replicate 32 5\<rparr> dogecoin_chainparams_main (replicate 53 0) 53
      = Some (t @ 0 # drop (length t + 1) (replicate 53 0))"
    "\<And>key rest. dogecoin_privkey_decode_wif (t @ 0 # rest) dogecoin_chainparams_main key = Some (True, key\<lparr>privkey := replicate 32 5\<rparr>)"
    "\<And>other key rest. b58prefix_secret_address other \<noteq> b58prefix_secret_address dogecoin_chainparams_main
        \<Longrightarrow> dogecoin_privkey_decode_wif (t @ 0 # rest) other key = Some (False, key)"
    by blast
  have "b58prefix_secret_address dogecoin_chainparams_test \<noteq> b58prefix_secret_address dogecoin_chainparams_main"
    by (simp add: dogecoin_chainparams_main_def dogecoin_chainparams_test_def)
  from t(1) t(2) [of "[]" "\<lparr>privkey = replicate 32 0\<rparr>"] t(3) [OF this, of "[]" "\<lparr>privkey = replicate 32 0\<rparr>"]
  show ?thesis by (intro exI [of _ t]) simp
qed

end
