(* ===== verification/Koinu.thy ===== *)
theory Koinu
  imports Prelude
begin

text \<open>
  \<open>src/koinu.c\<close> of libdogecoin: the conversion between an amount in koinu (\<open>uint64_t\<close>) and its
  decimal string in coins. Strings are C buffers (lists of bytes) of a fixed size; \<open>None\<close> is an
  access outside a buffer. \<open>strtoull\<close> is the one of the C standard library, with the clamping to
  \<open>UINT64_MAX\<close> and the \<open>ERANGE\<close> flag it documents.
\<close>

section \<open>Conversion states\<close>

datatype conversion_type =
    CONVERSION_SUCCESS | CONVERSION_NON_DECIMAL | CONVERSION_INVALID_STR_TERMINATION
  | CONVERSION_OUT_OF_RANGE | CONVERSION_OVERFLOW | CONVERSION_UNDERFLOW
  | CONVERSION_UNSUPPORTED_VALUE | CONVERSION_FAILURE

fun conversion_type_to_str :: "conversion_type \<Rightarrow> string" where
  "conversion_type_to_str CONVERSION_SUCCESS = ''CONVERSION_SUCCESS''"
| "conversion_type_to_str CONVERSION_NON_DECIMAL = ''CONVERSION_NON_DECIMAL''"
| "conversion_type_to_str CONVERSION_INVALID_STR_TERMINATION = ''CONVERSION_INVALID_STR_TERMINATION''"
| "conversion_type_to_str CONVERSION_OUT_OF_RANGE = ''CONVERSION_OUT_OF_RANGE''"
| "conversion_type_to_str CONVERSION_OVERFLOW = ''CONVERSION_OVERFLOW''"
| "conversion_type_to_str CONVERSION_UNDERFLOW = ''CONVERSION_UNDERFLOW''"
| "conversion_type_to_str CONVERSION_UNSUPPORTED_VALUE = ''CONVERSION_UNSUPPORTED_VALUE''"
| "conversion_type_to_str CONVERSION_FAILURE = ''CONVERSION_FAILURE''"

definition check_length :: "bytes \<Rightarrow> nat option" where
  "check_length s = map_option (\<lambda>n. if n > 22 then 0 else n) (c_strlen s)"

definition UINT64_MAX :: u64 where "UINT64_MAX = 18446744073709551615"
definition UNDERFLOW_VALUE :: u64 where "UNDERFLOW_VALUE = 0xFFFFF511543FB600"

text \<open>
  \<open>src\<close> is the converted string with the offset where the conversion stopped, or \<open>None\<close> for the
  null pointers \<open>koinu_to_coins_str\<close> passes; \<open>target_end\<close> is the empty string at every call.
\<close>

definition validate_conversion :: "u64 \<Rightarrow> (bytes \<times> nat) option \<Rightarrow> bool \<Rightarrow> conversion_type" where
  "validate_conversion converted src erange =
     (let type0 = CONVERSION_SUCCESS;
          type1 = (case src of None \<Rightarrow> type0
                   | Some (s, src_end) \<Rightarrow>
                       (let t = (if src_end = 0 then CONVERSION_NON_DECIMAL else type0)
                        in if s ! src_end \<noteq> 0 then CONVERSION_INVALID_STR_TERMINATION else t));
          type2 = (if converted = UINT64_MAX \<and> erange then CONVERSION_OUT_OF_RANGE else type1);
          type3 = (if converted \<ge> UINT64_MAX then CONVERSION_OVERFLOW else type2)
      in if converted = UNDERFLOW_VALUE then CONVERSION_UNDERFLOW else type3)"

section \<open>Digits\<close>

function calc_length :: "nat \<Rightarrow> nat" where
  "calc_length x = (if x > 0 then Suc (calc_length (x div 10)) else 0)"
  by pat_completeness auto
termination by (relation "measure (\<lambda>x. x)") auto

declare calc_length.simps [simp del]

text \<open>The second loop of \<open>string\<close>, which writes the digits from the last to the first.\<close>

fun string_loop :: "nat \<Rightarrow> nat \<Rightarrow> bytes \<Rightarrow> bytes option" where
  "string_loop 0 input output = Some output"
| "string_loop (Suc k) input output = do {
     output' \<leftarrow> mem_set output k (of_nat (input mod 10) + 48);
     string_loop k (input div 10) output'
   }"

definition string_of :: "u64 \<Rightarrow> bytes \<Rightarrow> bytes option" where
  "string_of input output =
     (let len = calc_length (unat input)
      in do {
        output' \<leftarrow> string_loop len (unat input) output;
        mem_set output' len 0
      })"

section \<open>From koinu to coins\<close>

fun fill_zeros :: "nat \<Rightarrow> nat \<Rightarrow> bytes \<Rightarrow> bytes option" where
  \<comment> \<open>\<open>fill_zeros i n str\<close>: the loop \<open>for (; i < target; i++)\<close> with \<open>n = target - i\<close> steps left\<close>
  "fill_zeros i 0 str = Some str"
| "fill_zeros i (Suc n) str = do {
     str' \<leftarrow> (if i = 0 \<or> i = 1
             then do { s \<leftarrow> mem_set str 0 48; mem_set s 1 46 }
             else mem_set str i 48);
     fill_zeros (Suc i) n str'
   }"

fun copy_digits :: "nat \<Rightarrow> nat \<Rightarrow> nat \<Rightarrow> bytes \<Rightarrow> bytes \<Rightarrow> bytes option" where
  \<comment> \<open>the loop \<open>for (; i < 10; i++, j++) str[i] = swap[j];\<close> with \<open>n = 10 - i\<close> steps left\<close>
  "copy_digits i j 0 swap str = Some str"
| "copy_digits i j (Suc n) swap str = do {
     b \<leftarrow> mem_get swap j;
     str' \<leftarrow> mem_set str i b;
     copy_digits (Suc i) (Suc j) n swap str'
   }"

fun point_digits :: "nat \<Rightarrow> nat \<Rightarrow> nat \<Rightarrow> bytes \<Rightarrow> bytes \<Rightarrow> bytes option" where
  \<comment> \<open>the loop that copies \<open>tmp\<close> with a point after index \<open>target\<close>, \<open>n = length - i\<close> steps left\<close>
  "point_digits i target 0 tmp str = Some str"
| "point_digits i target (Suc n) tmp str = do {
     b \<leftarrow> mem_get tmp i;
     str' \<leftarrow> (if i < target then mem_set str i b
             else if i = target then do { s \<leftarrow> mem_set str i b; mem_set s (i + 1) 46 }
             else mem_set str (i + 1) b);
     point_digits (Suc i) target n tmp str'
   }"

text \<open>
  The result is the C return value with the buffer afterwards. In the branch for amounts below one
  coin the code writes ten characters and no terminator.
\<close>

definition koinu_to_coins_str :: "u64 \<Rightarrow> bytes \<Rightarrow> (bool \<times> bytes) option" where
  "koinu_to_coins_str koinu str =
     (if validate_conversion koinu None False \<noteq> CONVERSION_SUCCESS then Some (False, str)
      else
        (let len = calc_length (unat koinu);
             target = (if len < 9 then 10 - len else len - 9)
         in if len < 9
            then do {
              str1 \<leftarrow> string_of koinu str;
              l \<leftarrow> c_strlen str1;
              swap \<leftarrow> mem_read str1 0 (l + 1);
              str2 \<leftarrow> fill_zeros 0 target str1;
              str3 \<leftarrow> copy_digits target 0 (10 - target) swap str2;
              Some (True, str3)
            }
            else do {
              tmp \<leftarrow> string_of koinu (replicate 21 0);
              str1 \<leftarrow> point_digits 0 target len tmp str;
              str2 \<leftarrow> mem_set str1 (len + 1) 0;
              Some (True, str2)
            }))"

section \<open>From coins to koinu\<close>

definition is_digit :: "u8 \<Rightarrow> bool" where
  "is_digit b \<longleftrightarrow> 48 \<le> b \<and> b \<le> 57"

definition is_space :: "u8 \<Rightarrow> bool" where
  "is_space b \<longleftrightarrow> b = 32 \<or> (9 \<le> b \<and> b \<le> 13)"

text \<open>The value and the number of the decimal digits a string starts with.\<close>

fun parse_digits :: "nat \<Rightarrow> nat \<Rightarrow> bytes \<Rightarrow> nat \<times> nat" where
  "parse_digits acc n [] = (acc, n)"
| "parse_digits acc n (b # bs) =
     (if is_digit b then parse_digits (10 * acc + unat (b - 48)) (Suc n) bs else (acc, n))"

text \<open>
  \<open>strtoull(s, &end, 10)\<close>: the value, the offset of \<open>end\<close> (0 when no digit was found) and whether
  \<open>errno\<close> becomes \<open>ERANGE\<close>. A minus sign negates the value in the unsigned type.
\<close>

definition strtoull :: "bytes \<Rightarrow> u64 \<times> nat \<times> bool" where
  "strtoull s =
     (let sp = length (takeWhile is_space s);
          s1 = drop sp s;
          sign = (case s1 of b # _ \<Rightarrow> b = 43 \<or> b = 45 | [] \<Rightarrow> False);
          neg = (case s1 of b # _ \<Rightarrow> b = 45 | [] \<Rightarrow> False);
          s2 = (if sign then tl s1 else s1);
          (v, n) = parse_digits 0 0 s2
      in if n = 0 then (0, 0, False)
         else
           (let stop = sp + (if sign then 1 else 0) + n
            in if v \<ge> 2 ^ 64 then (UINT64_MAX, stop, True)
               else (if neg then - of_nat v else of_nat v, stop, False)))"

text \<open>
  The first loop of \<open>coins_to_koinu_str\<close>, over \<open>dogecoin_string\<close>: copy up to the point; there,
  eight zeros are stored from the point on and the point itself becomes the terminator. The result
  is the string with the index where the fraction starts.
\<close>

fun zero_run :: "nat \<Rightarrow> nat \<Rightarrow> bytes \<Rightarrow> bytes option" where
  "zero_run j 0 s = Some s"
| "zero_run j (Suc n) s = do { s' \<leftarrow> mem_set s j 48; zero_run (Suc j) n s' }"

fun split_coins :: "nat \<Rightarrow> nat \<Rightarrow> bytes \<Rightarrow> bytes \<Rightarrow> (bytes \<times> nat) option" where
  \<comment> \<open>\<open>n = length - i\<close> steps left\<close>
  "split_coins i 0 coins ds = Some (ds, i)"
| "split_coins i (Suc n) coins ds = do {
     b \<leftarrow> mem_get coins i;
     ds1 \<leftarrow> mem_set ds i b;
     (if b = 46
      then do { ds2 \<leftarrow> zero_run i 8 ds1; ds3 \<leftarrow> mem_set ds2 i 0; Some (ds3, Suc i) }
      else split_coins (Suc i) n coins ds1)
   }"

definition coins_to_koinu_str :: "bytes \<Rightarrow> u64 option" where
  "coins_to_koinu_str coins = do {
     c0 \<leftarrow> mem_get coins 0;
     (if c0 = 45 then Some 0 else do {
        len \<leftarrow> check_length coins;
        (if len = 0 then Some 0 else do {
           (dogecoin_string, i) \<leftarrow> split_coins 0 len coins (replicate 21 0);
           let mantissa_length = min (len - i) 8;
           mantissa \<leftarrow> mem_read coins i mantissa_length;
           let koinu_string = mantissa @ replicate (8 - mantissa_length) 48 @ [0];
           let (d, dend, derr) = strtoull dogecoin_string;
           dlen \<leftarrow> c_strlen dogecoin_string;
           let dogecoin =
             (if validate_conversion d (Some (dogecoin_string, dend)) derr = CONVERSION_SUCCESS
                 \<and> dlen \<le> 12 then d * 100000000 else d);
           let (k, kend, kerr) = strtoull koinu_string;
           let koinu = k + dogecoin;
           Some (if validate_conversion koinu (Some (koinu_string, kend)) kerr = CONVERSION_SUCCESS
                 then koinu else 0)
        })
     })
   }"

section \<open>Digits and their value\<close>

function decimal :: "nat \<Rightarrow> bytes" where
  "decimal n = (if n > 0 then decimal (n div 10) @ [of_nat (n mod 10) + 48] else [])"
  by pat_completeness auto
termination by (relation "measure (\<lambda>x. x)") auto

declare decimal.simps [simp del]

lemma decimal_0 [simp]: "decimal 0 = []"
  by (simp add: decimal.simps)

lemma calc_length_0 [simp]: "calc_length 0 = 0"
  by (simp add: calc_length.simps)

lemma length_decimal: "length (decimal n) = calc_length n"
  by (induction n rule: decimal.induct) (subst decimal.simps, subst calc_length.simps, simp)

definition dec_val :: "nat \<Rightarrow> bytes \<Rightarrow> nat" where
  "dec_val acc ds = foldl (\<lambda>a b. 10 * a + unat (b - 48)) acc ds"

lemma dec_val_Nil [simp]: "dec_val acc [] = acc"
  and dec_val_Cons [simp]: "dec_val acc (b # bs) = dec_val (10 * acc + unat (b - 48)) bs"
  and dec_val_append: "dec_val acc (as @ bs) = dec_val (dec_val acc as) bs"
  by (simp_all add: dec_val_def)

lemma dec_val_acc: "dec_val acc ds = acc * 10 ^ length ds + dec_val 0 ds"
proof (induction ds arbitrary: acc)
  case Nil
  then show ?case by simp
next
  case (Cons d ds)
  from Cons [of "10 * acc + unat (d - 48)"] Cons [of "unat (d - 48)"]
  show ?case by (simp add: algebra_simps)
qed

lemma digit_byte: "n < 10 \<Longrightarrow> is_digit (of_nat n + 48) \<and> unat (of_nat n + 48 - 48 :: u8) = n"
proof -
  assume n: "n < 10"
  then have u: "unat (of_nat n :: u8) = n" by (simp add: unat_of_nat)
  then have "unat (of_nat n + 48 :: u8) = n + 48"
    using n by (simp add: unat_word_ariths)
  with u n show ?thesis by (simp add: is_digit_def word_le_nat_alt)
qed

lemma decimal_digits: "b \<in> set (decimal n) \<Longrightarrow> is_digit b"
proof (induction n rule: decimal.induct)
  case (1 n)
  then show ?case
    using digit_byte [of "n mod 10"] by (cases "n > 0") (auto simp: decimal.simps [of n])
qed

lemma dec_val_decimal: "dec_val 0 (decimal n) = n"
proof (induction n rule: decimal.induct)
  case (1 n)
  then show ?case
    using digit_byte [of "n mod 10"]
    by (cases "n > 0") (simp_all add: decimal.simps [of n] dec_val_append)
qed

lemma digit_nonzero: "is_digit b \<Longrightarrow> b \<noteq> 0 \<and> b \<noteq> 46 \<and> b \<noteq> 43 \<and> b \<noteq> 45 \<and> \<not> is_space b"
  by (auto simp: is_digit_def is_space_def word_le_nat_alt)

lemma parse_digits_digits:
  assumes "list_all is_digit ds" "rest = [] \<or> \<not> is_digit (hd rest)"
  shows "parse_digits acc k (ds @ rest) = (dec_val acc ds, k + length ds)"
  using assms
proof (induction ds arbitrary: acc k)
  case Nil
  then show ?case by (cases rest) auto
qed simp

lemma strtoull_digits:
  assumes "list_all is_digit ds" "ds \<noteq> []" "dec_val 0 ds < 2 ^ 64"
  shows "strtoull (ds @ 0 # rest) = (of_nat (dec_val 0 ds), length ds, False)"
proof -
  obtain b bs where ds: "ds = b # bs" using assms(2) by (cases ds) auto
  then have b: "b \<noteq> 43" "b \<noteq> 45" "\<not> is_space b"
    using assms(1) digit_nonzero by auto
  have "parse_digits 0 0 (ds @ 0 # rest) = (dec_val 0 ds, length ds)"
    using assms(1) parse_digits_digits [of ds "0 # rest" 0 0] by (simp add: is_digit_def)
  with b ds assms(3) show ?thesis by (simp add: strtoull_def Let_def)
qed

section \<open>The string written by \<open>string\<close>\<close>

lemma string_loop_decimal:
  "calc_length n \<le> length out \<Longrightarrow>
   string_loop (calc_length n) n out = Some (decimal n @ drop (calc_length n) out)"
proof (induction n arbitrary: out rule: calc_length.induct)
  case (1 n)
  show ?case
  proof (cases "n > 0")
    case True
    let ?k = "calc_length (n div 10)"
    let ?out = "out[?k := of_nat (n mod 10) + 48]"
    have len: "calc_length n = Suc ?k" using True by (simp add: calc_length.simps [of n])
    have "string_loop ?k (n div 10) ?out = Some (decimal (n div 10) @ drop ?k ?out)"
      using "1.IH" [OF True, of ?out] "1.prems" len by simp
    moreover have "drop ?k ?out = (of_nat (n mod 10) + 48) # drop (Suc ?k) out"
      using "1.prems" len by (simp add: drop_update_swap Cons_nth_drop_Suc [symmetric])
    ultimately show ?thesis
      using True "1.prems" len by (simp add: mem_simps decimal.simps [of n])
  next
    case False
    then show ?thesis by (simp add: calc_length.simps [of n] decimal.simps [of n])
  qed
qed

lemma string_of_decimal:
  assumes "calc_length (unat n) < length out"
  shows "string_of n out = Some (decimal (unat n) @ 0 # drop (Suc (calc_length (unat n))) out)"
proof -
  let ?l = "calc_length (unat n)"
  have "(decimal (unat n) @ drop ?l out)[?l := 0]
      = decimal (unat n) @ 0 # drop (Suc ?l) out"
    using assms by (simp add: list_update_append length_decimal Cons_nth_drop_Suc [symmetric])
  then show ?thesis
    using assms by (simp add: string_of_def string_loop_decimal mem_simps length_decimal)
qed

lemma calc_length_bound: "n < 10 ^ k \<Longrightarrow> calc_length n \<le> k"
proof (induction k arbitrary: n)
  case 0
  then show ?case by (simp add: calc_length.simps)
next
  case (Suc k)
  then have "n div 10 < 10 ^ k" by (simp add: div_less_iff_less_mult mult.commute)
  with Suc show ?case by (simp add: calc_length.simps [of n])
qed

lemma calc_length_u64: "calc_length (unat (n :: u64)) \<le> 20"
  using unat_bound [of n] by (intro calc_length_bound) simp

lemma dec_val_bound: "list_all is_digit ds \<Longrightarrow> dec_val 0 ds < 10 ^ length ds"
proof (induction ds rule: rev_induct)
  case Nil
  then show ?case by simp
next
  case (snoc d ds)
  have "unat (d - 48) < 10"
    using snoc.prems by (auto simp: is_digit_def word_le_nat_alt unat_sub)
  with snoc show ?case by (simp add: dec_val_append)
qed

section \<open>The text of an amount\<close>

definition koinu_valid :: "u64 \<Rightarrow> bool" where
  "koinu_valid n \<longleftrightarrow> n \<noteq> UINT64_MAX \<and> n \<noteq> UNDERFLOW_VALUE"

definition koinu_int :: "u64 \<Rightarrow> bytes" where
  "koinu_int n = (let ds = decimal (unat n) in
     if length ds < 9 then [48] else take (length ds - 8) ds)"

definition koinu_frac :: "u64 \<Rightarrow> bytes" where
  "koinu_frac n = (let ds = decimal (unat n) in
     if length ds < 9 then replicate (8 - length ds) 48 @ ds else drop (length ds - 8) ds)"

definition koinu_text :: "u64 \<Rightarrow> bytes" where
  "koinu_text n = koinu_int n @ 46 # koinu_frac n"

lemma UINT64_MAX_ge: "n \<ge> UINT64_MAX \<longleftrightarrow> n = UINT64_MAX"
proof -
  have "unat n < 18446744073709551616" using unat_bound [of n] by simp
  then show ?thesis by (auto simp: UINT64_MAX_def word_le_nat_alt word_unat_eq_iff)
qed

lemma validate_conversion_iff:
  "validate_conversion c None e = CONVERSION_SUCCESS \<longleftrightarrow> koinu_valid c"
  "validate_conversion c (Some (s, i)) e = CONVERSION_SUCCESS \<longleftrightarrow> koinu_valid c \<and> i \<noteq> 0 \<and> s ! i = 0"
  by (auto simp: validate_conversion_def koinu_valid_def UINT64_MAX_ge Let_def)

lemma decimal_all_digits: "list_all is_digit (decimal n)"
  using decimal_digits by (simp add: list_all_iff)

lemma is_digit_zero [simp]: "is_digit 48"
  by (simp add: is_digit_def)

lemma koinu_int_digits: "list_all is_digit (koinu_int n)"
  using decimal_all_digits [of "unat n"]
  by (auto simp: koinu_int_def Let_def list_all_iff dest: in_set_takeD)

lemma koinu_frac_digits: "list_all is_digit (koinu_frac n)"
  using decimal_all_digits [of "unat n"]
  by (auto simp: koinu_frac_def Let_def list_all_iff dest: in_set_dropD)

lemma length_koinu_int: "0 < length (koinu_int n) \<and> length (koinu_int n) \<le> 12"
  using calc_length_u64 [of n] length_decimal [of "unat n"] by (auto simp: koinu_int_def Let_def)

lemma length_koinu_frac [simp]: "length (koinu_frac n) = 8"
  by (auto simp: koinu_frac_def Let_def)

lemma dec_val_zeros: "dec_val 0 (replicate k 48) = 0"
  by (induction k) simp_all

lemma koinu_text_value:
  "dec_val 0 (koinu_int n) * 100000000 + dec_val 0 (koinu_frac n) = unat n"
proof (cases "length (decimal (unat n)) < 9")
  case True
  then show ?thesis
    by (simp add: koinu_int_def koinu_frac_def Let_def dec_val_append dec_val_zeros dec_val_decimal)
next
  case False
  let ?ds = "decimal (unat n)" let ?k = "length ?ds - 8"
  have "dec_val 0 ?ds = dec_val (dec_val 0 (take ?k ?ds)) (drop ?k ?ds)"
    by (simp flip: dec_val_append)
  also have "\<dots> = dec_val 0 (take ?k ?ds) * 10 ^ 8 + dec_val 0 (drop ?k ?ds)"
    using False by (subst dec_val_acc) simp
  finally show ?thesis
    using False by (simp add: koinu_int_def koinu_frac_def Let_def dec_val_decimal)
qed

lemma koinu_text_chars: "0 \<notin> set (koinu_text n) \<and> 46 \<notin> set (koinu_int n)"
  using koinu_int_digits [of n] koinu_frac_digits [of n] digit_nonzero
  by (fastforce simp: koinu_text_def list_all_iff)

section \<open>From koinu to coins: what is written\<close>

lemma fill_zeros_tail:
  "2 \<le> i \<Longrightarrow> i + n \<le> length str \<Longrightarrow>
   fill_zeros i n str = Some (take i str @ replicate n 48 @ drop (i + n) str)"
proof (induction n arbitrary: i str)
  case 0
  then show ?case by simp
next
  case (Suc n)
  then show ?case by (simp add: mem_simps)
qed

lemma fill_zeros_eq:
  assumes "2 \<le> target" "target \<le> length str"
  shows "fill_zeros 0 target str =
    Some ([48, 46] @ replicate (target - 2) 48 @ drop target str)"
proof -
  obtain m where m: "target = Suc (Suc m)" using assms(1) by (metis add_2_eq_Suc le_Suc_ex)
  then obtain x y zs where str: "str = x # y # zs" "m \<le> length zs"
    using assms(2) by (cases str; cases "tl str") auto
  then show ?thesis
    using fill_zeros_tail [of 2 m "48 # 46 # zs"] m by (simp add: mem_simps numeral_2_eq_2)
qed

lemma copy_digits_eq:
  "j + n \<le> length swap \<Longrightarrow> i + n \<le> length str \<Longrightarrow>
   copy_digits i j n swap str = Some (take i str @ take n (drop j swap) @ drop (i + n) str)"
proof (induction n arbitrary: i j str)
  case 0
  then show ?case by simp
next
  case (Suc n)
  have "take (Suc n) (drop j swap) = swap ! j # take n (drop (Suc j) swap)"
    using Suc.prems by (simp add: take_Suc_conv_app_nth Cons_nth_drop_Suc [symmetric])
  with Suc show ?case by (simp add: mem_simps)
qed

lemma point_digits_eq:
  assumes "take (target + 1) tmp @ 46 # drop (target + 1) ds = full"
    and "take L tmp = ds" "length ds = L" "target < L" "i + n = L"
    and "L + 1 \<le> length str"
    and "take (if i \<le> target then i else i + 1) str = take (if i \<le> target then i else i + 1) full"
  shows "\<exists>str'. point_digits i target n tmp str = Some str' \<and> length str' = length str
           \<and> take (L + 1) str' = full \<and> drop (L + 1) str' = drop (L + 1) str"
  using assms
proof (induction n arbitrary: i str)
  case 0
  have "length full = L + 1" using 0 by auto
  with 0 show ?case by auto
next
  case (Suc n)
  have i: "i < L" "i < length tmp" using Suc.prems by auto
  have tmp: "tmp ! i = ds ! i" using Suc.prems(2,3) i by (metis nth_take)
  have lenfull: "length full = L + 1" using Suc.prems by auto
  have tk: "take (target + 1) tmp = take (target + 1) ds"
    using Suc.prems by (auto simp: min_absorb1)
  consider "i < target" | "i = target" | "target < i" by linarith
  then show ?case
  proof cases
    assume lt: "i < target"
    have "full ! i = ds ! i"
      using lt Suc.prems(1,3,4) tk by (auto simp: nth_append)
    then have "take (Suc i) (str[i := tmp ! i]) = take (Suc i) full"
      using Suc.prems lt i lenfull tmp by (simp add: take_Suc_conv_app_nth)
    then show ?thesis
      using Suc.IH [of "Suc i" "str[i := tmp ! i]"] Suc.prems lt i by (simp add: mem_simps)
  next
    assume eq: "i = target"
    have "full ! i = ds ! i" "full ! Suc i = 46"
      using eq Suc.prems(1,3,4) tk by (auto simp: nth_append)
    then have "take (Suc (Suc i)) (str[i := tmp ! i, Suc i := 46]) = take (Suc (Suc i)) full"
      using Suc.prems eq i lenfull tmp by (simp add: take_Suc_conv_app_nth)
    then show ?thesis
      using Suc.IH [of "Suc i" "str[i := tmp ! i, Suc i := 46]"] Suc.prems eq i
      by (simp add: mem_simps)
  next
    assume gt: "target < i"
    have "full ! Suc i = ds ! i"
      using gt Suc.prems(1,3,4) i tk by (auto simp: nth_append nth_Cons')
    then have "take (Suc (Suc i)) (str[Suc i := tmp ! i]) = take (Suc (Suc i)) full"
      using Suc.prems gt i lenfull tmp by (simp add: take_Suc_conv_app_nth)
    then show ?thesis
      using Suc.IH [of "Suc i" "str[Suc i := tmp ! i]"] Suc.prems gt i by (simp add: mem_simps)
  qed
qed


lemma koinu_to_coins_small:
  assumes "koinu_valid n" "calc_length (unat n) < 9" "10 \<le> length str"
  shows "koinu_to_coins_str n str = Some (True, koinu_text n @ drop 10 str)"
proof -
  let ?ds = "decimal (unat n)" let ?l = "calc_length (unat n)"
  define str1 where "str1 = ?ds @ 0 # drop (Suc ?l) str"
  have s1: "string_of n str = Some str1"
    using assms by (simp add: string_of_decimal str1_def)
  have "0 \<notin> set ?ds" using decimal_digits digit_nonzero by blast
  then have sl: "c_strlen str1 = Some ?l"
    by (simp add: str1_def c_strlen_append length_decimal)
  have swap: "mem_read str1 0 (?l + 1) = Some (?ds @ [0])"
    by (simp add: str1_def mem_read_def length_decimal)
  have "10 - ?l = Suc (9 - ?l)" using assms by simp
  then have len1: "length str1 = length str" and dr1: "drop 10 str1 = drop 10 str"
    using assms by (auto simp: str1_def length_decimal)
  define str2 where "str2 = [48, 46] @ replicate (8 - ?l) 48 @ drop (10 - ?l) str1"
  have s2: "fill_zeros 0 (10 - ?l) str1 = Some str2"
    using assms fill_zeros_eq [of "10 - ?l" str1] len1 by (simp add: str2_def diff_diff_add)
  have len2: "length str2 = length str" and dr2: "drop 10 str2 = drop 10 str"
    using assms len1 dr1 by (auto simp: str2_def)
  have "10 - ?l = Suc (Suc (8 - ?l))" using assms by simp
  then have tk2: "take (10 - ?l) str2 = [48, 46] @ replicate (8 - ?l) 48"
    by (simp add: str2_def)
  have "copy_digits (10 - ?l) 0 ?l (?ds @ [0]) str2 =
      Some (take (10 - ?l) str2 @ take ?l (?ds @ [0]) @ drop 10 str2)"
    using assms len2 copy_digits_eq [of 0 ?l "?ds @ [0]" "10 - ?l" str2]
    by (simp add: length_decimal)
  then have s3: "copy_digits (10 - ?l) 0 ?l (?ds @ [0]) str2 = Some (koinu_text n @ drop 10 str)"
    using assms tk2 dr2
    by (simp add: koinu_text_def koinu_int_def koinu_frac_def Let_def length_decimal)
  have "10 - (10 - ?l) = ?l" using assms by simp
  with assms s1 sl swap s2 s3 show ?thesis
    by (simp add: koinu_to_coins_str_def validate_conversion_iff Let_def)
qed

lemma koinu_to_coins_large:
  assumes "koinu_valid n" "\<not> calc_length (unat n) < 9" "calc_length (unat n) + 2 \<le> length str"
  shows "koinu_to_coins_str n str =
     Some (True, koinu_text n @ 0 # drop (calc_length (unat n) + 2) str)"
proof -
  let ?ds = "decimal (unat n)" let ?l = "calc_length (unat n)"
  define tmp where "tmp = ?ds @ 0 # drop (Suc ?l) (replicate 21 0)"
  have s1: "string_of n (replicate 21 0) = Some tmp"
    using calc_length_u64 [of n] by (simp add: string_of_decimal tmp_def)
  define full where "full = take (?l - 8) ?ds @ 46 # drop (?l - 8) ?ds"
  have full: "full = koinu_text n"
    using assms by (simp add: full_def koinu_text_def koinu_int_def koinu_frac_def Let_def length_decimal)
  have lenfull: "length full = ?l + 1"
    using assms by (simp add: full_def length_decimal)
  have tk: "take (?l - 8) tmp = take (?l - 8) ?ds"
    by (simp add: tmp_def length_decimal)
  have "?l - 9 + 1 = ?l - 8" using assms by simp
  then obtain str' where str': "point_digits 0 (?l - 9) ?l tmp str = Some str'"
      "length str' = length str" "take (?l + 1) str' = full" "drop (?l + 1) str' = drop (?l + 1) str"
    using point_digits_eq [of "?l - 9" tmp ?ds full ?l 0 ?l str] assms tk
    by (auto simp: full_def tmp_def length_decimal)
  have "str'[?l + 1 := 0] = take (?l + 1) str' @ 0 # drop (Suc (?l + 1)) str'"
    using str'(2) assms by (simp add: upd_conv_take_nth_drop)
  also have "drop (Suc (?l + 1)) str' = drop (?l + 2) str"
    using str'(4) by (metis add_2_eq_Suc' add_Suc_right drop_drop plus_1_eq_Suc Suc_eq_plus1)
  finally have "str'[?l + 1 := 0] = koinu_text n @ 0 # drop (?l + 2) str"
    using str'(3) full by simp
  with assms s1 str'(1,2) show ?thesis
    by (simp add: koinu_to_coins_str_def validate_conversion_iff mem_simps)
qed

section \<open>From coins to koinu: the text of an amount is read back\<close>

lemma zero_run_eq:
  "j + n \<le> length s \<Longrightarrow> zero_run j n s = Some (take j s @ replicate n 48 @ drop (j + n) s)"
  by (induction n arbitrary: j s) (simp_all add: mem_simps)

lemma split_coins_point:
  assumes "coins = ip @ 46 # fp" "46 \<notin> set ip" "length ip + 8 \<le> length ds"
    and "i \<le> length ip" "take i ds = take i ip" "length ip < i + n"
  shows "\<exists>r. split_coins i n coins ds = Some (ip @ 0 # r, length ip + 1)"
  using assms
proof (induction n arbitrary: i ds)
  case 0
  then show ?case by simp
next
  case (Suc n)
  have get: "mem_get coins i = Some (coins ! i)" "i < length ds"
    using Suc.prems by (simp_all add: mem_simps)
  show ?case
  proof (cases "i = length ip")
    case True
    then have "coins ! i = 46" using Suc.prems(1) by simp
    moreover have "zero_run i 8 (ds[i := 46]) = Some (ip @ replicate 8 48 @ drop (i + 8) ds)"
      using Suc.prems True by (simp add: zero_run_eq)
    moreover have "(ip @ replicate 8 48 @ drop (i + 8) ds)[i := 0]
        = ip @ 0 # (replicate 7 48 @ drop (i + 8) ds)"
      using True by (simp add: list_update_append numeral_eq_Suc)
    ultimately show ?thesis
      using get True by (auto simp: mem_simps)
  next
    case False
    then have lt: "i < length ip" using Suc.prems by simp
    then have "coins ! i = ip ! i" using Suc.prems(1) by (simp add: nth_append)
    moreover have "ip ! i \<noteq> 46" using lt Suc.prems(2) nth_mem by fastforce
    moreover have "take (Suc i) (ds[i := ip ! i]) = take (Suc i) ip"
      using Suc.prems lt get by (simp add: take_Suc_conv_app_nth)
    ultimately show ?thesis
      using Suc.IH [where i = "Suc i" and ds = "ds[i := ip ! i]"] Suc.prems lt get by (simp add: mem_simps)
  qed
qed

lemma koinu_int_bound: "dec_val 0 (koinu_int n) * 100000000 \<le> unat n"
  using koinu_text_value [of n] by linarith

lemma coins_to_koinu_text:
  assumes "koinu_valid n"
  shows "coins_to_koinu_str (koinu_text n @ 0 # rest) = Some n"
proof -
  let ?ip = "koinu_int n" let ?fp = "koinu_frac n" let ?coins = "koinu_text n @ 0 # rest"
  have li: "0 < length ?ip" "length ?ip \<le> 12" using length_koinu_int [of n] by auto
  have len: "length (koinu_text n) = length ?ip + 9" by (simp add: koinu_text_def)
  have un: "unat n < 18446744073709551616" using unat_bound [of n] by simp
  obtain b bs where ip: "?ip = b # bs" using li(1) by (cases ?ip) auto
  then have "is_digit b" using koinu_int_digits [of n] by simp
  then have c0: "mem_get ?coins 0 = Some b" "b \<noteq> 45"
    using ip digit_nonzero by (auto simp: koinu_text_def mem_get_def)
  have cl: "check_length ?coins = Some (length ?ip + 9)"
    using koinu_text_chars [of n] li len by (simp add: check_length_def c_strlen_append)
  obtain r where sp: "split_coins 0 (length ?ip + 9) ?coins (replicate 21 0)
      = Some (?ip @ 0 # r, length ?ip + 1)"
    using split_coins_point [of ?coins ?ip "?fp @ 0 # rest" "replicate 21 0" 0 "length ?ip + 9"]
      koinu_text_chars [of n] li by (auto simp: koinu_text_def)
  have mant: "mem_read ?coins (length ?ip + 1) 8 = Some ?fp"
    by (simp add: koinu_text_def mem_read_def)
  let ?d = "dec_val 0 ?ip" let ?f = "dec_val 0 ?fp"
  have db: "?d * 100000000 \<le> unat n" by (rule koinu_int_bound)
  have fb: "?f < 100000000" using dec_val_bound [OF koinu_frac_digits, of n] by simp
  have st1: "strtoull (?ip @ 0 # r) = (of_nat ?d, length ?ip, False)"
    using koinu_int_digits [of n] li db un by (intro strtoull_digits) auto
  have st2: "strtoull (?fp @ [0]) = (of_nat ?f, 8, False)"
  proof -
    have "?fp \<noteq> []" using length_koinu_frac [of n] by force
    moreover have "?f < 2 ^ 64" using fb by simp
    ultimately show ?thesis
      using strtoull_digits [OF koinu_frac_digits, of n "[]"] by simp
  qed
  have dl: "c_strlen (?ip @ 0 # r) = Some (length ?ip)"
    using koinu_text_chars [of n] by (simp add: koinu_text_def c_strlen_append)
  have dv: "koinu_valid (of_nat ?d)"
  proof -
    have "?d < 18446744073709551616" "?d \<le> 184467440738" using db un by auto
    then have "unat (of_nat ?d :: u64) \<le> 184467440738" by (simp add: unat_of_nat)
    then show ?thesis
      by (auto simp: koinu_valid_def UINT64_MAX_def UNDERFLOW_VALUE_def)
  qed
  have sum: "of_nat ?f + of_nat ?d * 100000000 = n"
  proof -
    have "of_nat ?f + of_nat ?d * 100000000 = (of_nat (?d * 100000000 + ?f) :: u64)" by simp
    also have "\<dots> = n" using koinu_text_value [of n] by (simp only:) simp
    finally show ?thesis .
  qed
  have "validate_conversion (of_nat ?d) (Some (?ip @ 0 # r, length ?ip)) False = CONVERSION_SUCCESS"
    using dv li by (simp add: validate_conversion_iff)
  moreover have "validate_conversion n (Some (?fp @ [0], 8)) False = CONVERSION_SUCCESS"
    using assms length_koinu_frac [of n] nth_append_length [of ?fp 0 "[]"]
    by (simp add: validate_conversion_iff)
  ultimately show ?thesis
    using c0 cl sp mant st1 st2 dl li sum
    by (simp add: coins_to_koinu_str_def Let_def)
qed


lemma calc_length_less_9: "calc_length m < 9 \<longleftrightarrow> m < 100000000"
proof
  assume "calc_length m < 9"
  then have "(10::nat) ^ length (decimal m) \<le> 10 ^ 8"
    by (intro power_increasing) (simp_all add: length_decimal)
  with dec_val_bound [OF decimal_all_digits, of m] show "m < 100000000"
    by (simp add: dec_val_decimal)
next
  assume "m < 100000000"
  then show "calc_length m < 9" using calc_length_bound [of m 8] by simp
qed

lemma koinu_buffer_overrun:
  assumes "koinu_valid n" "10 ^ 19 \<le> unat n" "length str < 22"
  shows "koinu_to_coins_str n str = None"
proof -
  let ?l = "calc_length (unat n)"
  have l: "?l = 20"
  proof (rule ccontr)
    assume "?l \<noteq> 20"
    then have "(10::nat) ^ ?l \<le> 10 ^ 19"
      using calc_length_u64 [of n] by (intro power_increasing) auto
    with dec_val_bound [OF decimal_all_digits, of "unat n"] assms(2) show False
      by (simp add: dec_val_decimal length_decimal)
  qed
  have len: "point_digits i t k tmp s = Some s' \<Longrightarrow> length s' = length s" for i t k tmp s s'
    by (induction k arbitrary: i s)
      (auto simp: mem_set_def bind_eq_Some_conv split: if_splits)
  obtain tmp where "string_of n (replicate 21 0) = Some tmp"
    using l by (simp add: string_of_decimal)
  then show ?thesis
    using assms l
    by (auto simp: koinu_to_coins_str_def validate_conversion_iff mem_set_def dest: len
        split: Option.bind_splits)
qed

lemma unterminated_amount:
  assumes "unat n < 100000000" "0 \<notin> set rest"
  shows "coins_to_koinu_str (koinu_text n @ rest) = None"
proof -
  have "check_length (koinu_text n @ rest) = None"
    using koinu_text_chars [of n] assms(2) by (simp add: check_length_def c_strlen_None)
  moreover obtain t where "koinu_text n = 48 # t"
    using assms(1) calc_length_less_9 [of "unat n"] by (simp add: koinu_text_def koinu_int_def length_decimal)
  ultimately show ?thesis by (simp add: coins_to_koinu_str_def mem_get_def)
qed

text \<open>C31:
  Amounts survive the conversion to text and back, as far as the buffer allows. For every amount in koinu except the
  two values the code rejects and every buffer of at least 21 bytes: from one coin on, writing the amount with
  \<open>koinu_to_coins_str\<close> and reading the buffer with \<open>coins_to_koinu_str\<close> gives the amount again, except that 20 digits
  overrun a buffer of 21 bytes. Below one coin the code writes no terminator: the amount is read back when the buffer
  held a NUL at index 10 beforehand, and when it held none from there on the reader runs past its end.
\<close>

theorem koinu_round_trip:
  assumes "koinu_valid n" "21 \<le> length str"
  defines "read_back \<equiv> (\<exists>s. koinu_to_coins_str n str = Some (True, s) \<and> coins_to_koinu_str s = Some n)"
  shows "if 100000000 \<le> unat n
    then if 10 ^ 19 \<le> unat n \<and> length str = 21 then koinu_to_coins_str n str = None else read_back
    else (str ! 10 = 0 \<longrightarrow> read_back)
      \<and> (0 \<notin> set (drop 10 str) \<longrightarrow> (\<exists>s. koinu_to_coins_str n str = Some (True, s) \<and> coins_to_koinu_str s = None))"
proof (cases "100000000 \<le> unat n")
  case True
  have "read_back" if "unat n < 10 ^ 19 \<or> length str \<noteq> 21"
  proof -
    have "calc_length (unat n) + 2 \<le> length str"
      using that assms(2) calc_length_bound [of "unat n" 19] calc_length_u64 [of n] by auto
    then show ?thesis
      using True assms(1) koinu_to_coins_large [of n str] coins_to_koinu_text [of n] by (simp add: calc_length_less_9 read_back_def)
  qed
  moreover have "koinu_to_coins_str n str = None" if "10 ^ 19 \<le> unat n" "length str = 21"
    using koinu_buffer_overrun [OF assms(1) that(1)] that(2) by simp
  ultimately show ?thesis using True by auto
next
  case False
  then have w: "koinu_to_coins_str n str = Some (True, koinu_text n @ drop 10 str)"
    using assms(1,2) koinu_to_coins_small [of n str] by (simp add: calc_length_less_9)
  moreover have "coins_to_koinu_str (koinu_text n @ drop 10 str) = Some n" if "str ! 10 = 0"
  proof -
    have "drop 10 str = 0 # drop 11 str" using that assms(2) by (simp add: Cons_nth_drop_Suc [symmetric])
    then show ?thesis using coins_to_koinu_text [OF assms(1)] by simp
  qed
  ultimately show ?thesis using False unterminated_amount [of n "drop 10 str"] by (simp add: read_back_def)
qed

theorem koinu_round_trip_witness:
  "(\<exists>s. koinu_to_coins_str 150000000 (replicate 21 7) = Some (True, s) \<and> coins_to_koinu_str s = Some 150000000)
     \<and> koinu_to_coins_str 10000000000000000000 (replicate 21 7) = None
     \<and> (\<exists>s. koinu_to_coins_str 5 (replicate 21 7) = Some (True, s) \<and> coins_to_koinu_str s = None)"
  using koinu_round_trip [of 150000000 "replicate 21 7"] koinu_round_trip [of 10000000000000000000 "replicate 21 7"]
    koinu_round_trip [of 5 "replicate 21 7"]
  by (simp add: koinu_valid_def UINT64_MAX_def UNDERFLOW_VALUE_def)

text \<open>What \<open>koinu_to_coins_str\<close> leaves in its buffer. For an amount below one coin it stores exactly ten
  characters and no terminator: every byte from index 10 on keeps its old value, so in a buffer that
  was not cleared the string goes on with what was there. For an amount of 20 digits it needs 22
  bytes, one more than the 21 of \<open>KOINU_STRINGLEN\<close>: in a smaller buffer it writes past the end.
\<close>

theorem koinu_to_coins_buffer:
  assumes "koinu_valid n"
  shows "(unat n < 100000000 \<longrightarrow> 10 \<le> length str \<longrightarrow>
            koinu_to_coins_str n str = Some (True, koinu_text n @ drop 10 str)
            \<and> length (koinu_text n) = 10)
       \<and> (10 ^ 19 \<le> unat n \<longrightarrow> length str = 21 \<longrightarrow> koinu_to_coins_str n str = None)"
proof (intro conjI impI)
  assume a: "unat n < 100000000" "10 \<le> length str"
  show "koinu_to_coins_str n str = Some (True, koinu_text n @ drop 10 str)"
    using koinu_to_coins_small [of n str] assms a by (simp add: calc_length_less_9)
  show "length (koinu_text n) = 10"
    using a calc_length_less_9 [of "unat n"] by (simp add: koinu_text_def koinu_int_def length_decimal)
next
  assume "10 ^ 19 \<le> unat n" "length str = 21"
  then show "koinu_to_coins_str n str = None"
    using koinu_buffer_overrun [OF assms] by simp
qed

theorem koinu_to_coins_buffer_witness:
  "koinu_to_coins_str 5 (replicate 12 66) = Some (True, koinu_text 5 @ replicate 2 66)
   \<and> koinu_to_coins_str 10000000000000000000 (replicate 21 0) = None"
  using koinu_to_coins_buffer [of 5 "replicate 12 66"]
    koinu_to_coins_buffer [of 10000000000000000000 "replicate 21 0"]
  by (simp add: koinu_valid_def UINT64_MAX_def UNDERFLOW_VALUE_def)

lemma split_coins_no_point:
  assumes "46 \<notin> set (take (i + n) coins)" "i + n \<le> length coins" "i + n \<le> length ds"
    and "take i ds = take i coins"
  shows "split_coins i n coins ds = Some (take (i + n) coins @ drop (i + n) ds, i + n)"
  using assms
proof (induction n arbitrary: i ds)
  case 0
  then show ?case by (metis add_0_right append_take_drop_id split_coins.simps(1))
next
  case (Suc n)
  have "coins ! i \<in> set (take (i + Suc n) coins)"
    using Suc.prems by (auto simp: in_set_conv_nth intro!: exI [of _ i])
  then have "coins ! i \<noteq> 46" using Suc.prems(1) by metis
  moreover have "take (Suc i) (ds[i := coins ! i]) = take (Suc i) coins"
    using Suc.prems by (simp add: take_Suc_conv_app_nth)
  ultimately show ?case
    using Suc.IH [where i = "Suc i" and ds = "ds[i := coins ! i]"] Suc.prems
    by (simp add: mem_simps)
qed

lemma coins_to_koinu_digits:
  assumes "list_all is_digit ds" "ds \<noteq> []" "length ds \<le> 12"
  shows "coins_to_koinu_str (ds @ 0 # rest) =
    (let k = of_nat (dec_val 0 ds * 100000000)
     in Some (if koinu_valid k then k else 0))"
proof -
  let ?coins = "ds @ 0 # rest" let ?d = "dec_val 0 ds"
  have nz: "0 \<notin> set ds" "46 \<notin> set ds"
    using assms(1) digit_nonzero by (auto simp: list_all_iff)
  have lt: "?d < 10 ^ 12"
    using dec_val_bound [OF assms(1)] assms(3)
    by (meson order_less_le_trans one_le_numeral power_increasing)
  obtain b bs where ds: "ds = b # bs" using assms(2) by (cases ds) auto
  then have c0: "mem_get ?coins 0 = Some b" "b \<noteq> 45"
    using assms(1) digit_nonzero by (auto simp: mem_get_def)
  have cl: "check_length ?coins = Some (length ds)"
    using nz assms(3) by (simp add: check_length_def c_strlen_append)
  have sp: "split_coins 0 (length ds) ?coins (replicate 21 0)
      = Some (ds @ 0 # replicate (20 - length ds) 0, length ds)"
  proof -
    have "21 - length ds = Suc (20 - length ds)" using assms(3) by simp
    then show ?thesis
      using split_coins_no_point [of 0 "length ds" ?coins "replicate 21 0"] nz assms(3) by simp
  qed
  have st1: "strtoull (ds @ 0 # r) = (of_nat ?d, length ds, False)" for r
    using assms lt by (intro strtoull_digits) auto
  have st2: "strtoull (replicate 8 48 @ [0]) = (0, 8, False)"
    using strtoull_digits [of "replicate 8 48" "[]"] by (simp add: dec_val_zeros list_all_iff)
  have dl: "c_strlen (ds @ 0 # r) = Some (length ds)" for r
    using nz by (simp add: c_strlen_append)
  have dv: "koinu_valid (of_nat ?d)"
  proof -
    have "unat (of_nat ?d :: u64) < 10 ^ 12" using lt by (simp add: unat_of_nat)
    then show ?thesis by (auto simp: koinu_valid_def UINT64_MAX_def UNDERFLOW_VALUE_def)
  qed
  have v1: "validate_conversion (of_nat ?d) (Some (ds @ 0 # r, length ds)) False = CONVERSION_SUCCESS"
    for r using dv assms(2) by (simp add: validate_conversion_iff)
  have v2: "validate_conversion k (Some (replicate 8 48 @ [0], 8)) False = CONVERSION_SUCCESS
      \<longleftrightarrow> koinu_valid k" for k
    by (simp add: validate_conversion_iff nth_append)
  have "mem_read ?coins (length ds) 0 = Some []"
    by (simp add: mem_read_def)
  with c0 cl sp st1 st2 dl v1 v2 assms(2,3) show ?thesis
    by (simp add: coins_to_koinu_str_def Let_def)
qed

text \<open>
  Text of whole coins. A string of one to twelve digits is read as that many coins, times 100000000
  in 64-bit arithmetic, and the two rejected values give 0. No check notices an amount beyond
  \<open>uint64_t\<close>: the product wraps, so 184467440738 coins are read as less than one coin.
\<close>

theorem coins_to_koinu_whole:
  assumes "list_all is_digit ds" "ds \<noteq> []" "length ds \<le> 12"
  shows "coins_to_koinu_str (ds @ 0 # rest) =
    (let k = of_nat (dec_val 0 ds * 100000000)
     in Some (if koinu_valid k then k else 0))"
  using assms by (rule coins_to_koinu_digits)

theorem coins_to_koinu_whole_witness:
  "coins_to_koinu_str ([49, 56, 52, 52, 54, 55, 52, 52, 48, 55, 51, 56] @ 0 # []) = Some 90448384"
proof -
  let ?ds = "[49, 56, 52, 52, 54, 55, 52, 52, 48, 55, 51, 56] :: bytes"
  have "dec_val 0 ?ds = 184467440738" by simp
  moreover have "list_all is_digit ?ds" by (simp add: is_digit_def)
  ultimately show ?thesis
    using coins_to_koinu_whole [of ?ds "[]"]
    by (simp add: koinu_valid_def UINT64_MAX_def UNDERFLOW_VALUE_def)
qed

end
