(* ===== verification/Transaction.thy ===== *)
theory Transaction
  imports Address Koinu
begin

text \<open>
  The working transactions of \<open>src/transaction.c\<close>: a table of transactions under construction, keyed by an
  index, with the operations a wallet calls. The table is the list of its entries in the order the
  hash table keeps them; every operation takes the table and returns it. \<open>None\<close> is an access outside an
  object, which includes following the null pointer of an entry that is not there. Signing is in
  \<open>Signing\<close>; the prompts are left out.
\<close>

section \<open>The table\<close>

record working_transaction =
  idx :: int
  transaction :: dogecoin_tx

type_synonym transactions = "working_transaction list"

definition find_transaction :: "int \<Rightarrow> transactions \<Rightarrow> working_transaction option" where
  "find_transaction i txs = find (\<lambda>w. idx w = i) txs"

definition new_transaction :: "transactions \<Rightarrow> working_transaction option" where
  "new_transaction txs = do {
     t \<leftarrow> dogecoin_tx_new;
     Some \<lparr>idx = int (length txs) + 1, transaction = t\<rparr>
   }"

text \<open>\<open>HASH_DEL\<close> of an entry, and \<open>HASH_REPLACE_INT\<close>, which deletes an entry of the same index and adds the new one.\<close>

definition remove_transaction :: "working_transaction \<Rightarrow> transactions \<Rightarrow> transactions" where
  "remove_transaction working_tx txs = filter (\<lambda>w. idx w \<noteq> idx working_tx) txs"

definition add_transaction :: "working_transaction \<Rightarrow> transactions \<Rightarrow> transactions" where
  "add_transaction working_tx txs =
     (case find_transaction (idx working_tx) txs of
        None \<Rightarrow> txs @ [working_tx]
      | Some tx \<Rightarrow> filter (\<lambda>w. idx w \<noteq> idx tx) txs @ [working_tx])"

definition remove_all :: "transactions \<Rightarrow> transactions" where
  "remove_all txs = fold remove_transaction txs txs"

definition by_id :: "working_transaction \<Rightarrow> working_transaction \<Rightarrow> int" where
  "by_id a b = idx a - idx b"

definition start_transaction :: "transactions \<Rightarrow> (int \<times> transactions) option" where
  "start_transaction txs = do {
     w \<leftarrow> new_transaction txs;
     Some (idx w, add_transaction w txs)
   }"

text \<open>A write through the pointer of an entry.\<close>

definition set_transaction :: "int \<Rightarrow> dogecoin_tx \<Rightarrow> transactions \<Rightarrow> transactions" where
  "set_transaction i tx txs = map (\<lambda>w. if idx w = i then w\<lparr>transaction := tx\<rparr> else w) txs"

definition clear_transaction :: "int \<Rightarrow> transactions \<Rightarrow> transactions option" where
  "clear_transaction txindex txs = do {
     w \<leftarrow> find_transaction txindex txs;
     Some (remove_transaction w txs)
   }"

section \<open>Building a transaction\<close>

definition add_utxo :: "int \<Rightarrow> bytes \<Rightarrow> int \<Rightarrow> transactions \<Rightarrow> (bool \<times> transactions) option" where
  "add_utxo txindex hex_utxo_txid n txs =
     (case find_transaction txindex txs of
        None \<Rightarrow> Some (False, txs)
      | Some w \<Rightarrow> do {
          let tx = transaction w;
          ins \<leftarrow> vin tx;
          h \<leftarrow> utils_uint256_sethex hex_utxo_txid;
          let tx_in = dogecoin_tx_in_new\<lparr>prevout := \<lparr>prev_hash = h, prev_n = of_int n\<rparr>\<rparr>;
          ins' \<leftarrow> vector_add ins (Some tx_in);
          Some (vlen ins + 1 = vlen ins', set_transaction txindex (tx\<lparr>vin := Some ins'\<rparr>) txs)
        })"

text \<open>The network is the main one when the address starts with \<open>D\<close>.\<close>

definition chain_of :: "bytes \<Rightarrow> dogecoin_chainparams option" where
  "chain_of address = do {
     c \<leftarrow> mem_get address 0;
     Some (if c = 68 then dogecoin_chainparams_main else dogecoin_chainparams_test)
   }"

definition add_output :: "int \<Rightarrow> bytes \<Rightarrow> bytes \<Rightarrow> transactions \<Rightarrow> (bool \<times> transactions) option" where
  "add_output txindex destinationaddress amount txs =
     (case find_transaction txindex txs of
        None \<Rightarrow> Some (False, txs)
      | Some w \<Rightarrow> do {
          chain \<leftarrow> chain_of destinationaddress;
          koinu \<leftarrow> coins_to_koinu_str amount;
          (r, tx) \<leftarrow> dogecoin_tx_add_address_out (transaction w) chain koinu destinationaddress;
          Some (r, set_transaction txindex tx txs)
        })"

definition make_change :: "int \<Rightarrow> bytes \<Rightarrow> u64 \<Rightarrow> u64 \<Rightarrow> transactions \<Rightarrow> (bool \<times> transactions) option" where
  "make_change txindex public_key subtractedfee amount txs =
     (if amount = subtractedfee then Some (False, txs)
      else case find_transaction txindex txs of
        None \<Rightarrow> Some (False, txs)
      | Some w \<Rightarrow> do {
          chain \<leftarrow> chain_of public_key;
          let total_change_back = amount - subtractedfee;
          (r, tx) \<leftarrow> dogecoin_tx_add_address_out (transaction w) chain total_change_back public_key;
          Some (r, set_transaction txindex tx txs)
        })"

text \<open>The inner option is a null pointer.\<close>

definition get_raw_transaction :: "int \<Rightarrow> transactions \<Rightarrow> bytes option option" where
  "get_raw_transaction txindex txs =
     (case find_transaction txindex txs of
        None \<Rightarrow> Some None
      | Some w \<Rightarrow> do {
          s \<leftarrow> cstr_new_sz 1024;
          s \<leftarrow> dogecoin_tx_serialize (transaction w) s;
          b \<leftarrow> contents s;
          utils_uint8_to_hex b (len s)
        })"

text \<open>
  The loop of \<open>finalize_transaction\<close> from output \<open>i\<close> with \<open>n\<close> outputs left: \<open>p2pkh_count\<close>, \<open>tx_out_total\<close> and
  the table. Change is made on the last output, when there is an address for it.
\<close>

fun finalize_loop :: "int \<Rightarrow> bool \<Rightarrow> u64 \<Rightarrow> u64 \<Rightarrow> bytes option \<Rightarrow> nat \<Rightarrow> nat \<Rightarrow> int \<Rightarrow> u64 \<Rightarrow> transactions
    \<Rightarrow> (int \<times> u64 \<times> transactions) option" where
  "finalize_loop txindex is_main fee total_in change i 0 count tot txs = Some (count, tot, txs)"
| "finalize_loop txindex is_main fee total_in change i (Suc n) count tot txs = do {
     w \<leftarrow> find_transaction txindex txs;
     outs \<leftarrow> vout (transaction w);
     p \<leftarrow> vector_idx outs i;
     out \<leftarrow> p;
     let tot = tot + tx_value out;
     (ok, _) \<leftarrow> dogecoin_tx_out_pubkey_hash_to_p2pkh_address out (replicate 36 0) is_main;
     let count = (if ok then 1 else 0);
     (case change of
        Some changeaddress \<Rightarrow>
          if n = 0 then do {
            (r, txs) \<leftarrow> make_change txindex changeaddress fee (total_in - tot) txs;
            (if r then do {
               w \<leftarrow> find_transaction txindex txs;
               outs \<leftarrow> vout (transaction w);
               p \<leftarrow> vector_idx outs (vlen outs - 1);
               out \<leftarrow> p;
               Some (count + 1, tot + tx_value out, txs)
             }
             else Some (count, tot, txs))
          }
          else finalize_loop txindex is_main fee total_in change (i + 1) n count tot txs
      | None \<Rightarrow> finalize_loop txindex is_main fee total_in change (i + 1) n count tot txs)
   }"

definition finalize_transaction :: "int \<Rightarrow> bytes \<Rightarrow> bytes \<Rightarrow> bytes \<Rightarrow> bytes option \<Rightarrow> transactions
    \<Rightarrow> (bytes option \<times> transactions) option" where
  "finalize_transaction txindex destinationaddress subtractedfee out_dogeamount_for_verification changeaddress txs =
     (case find_transaction txindex txs of
        None \<Rightarrow> Some (None, txs)
      | Some w \<Rightarrow> do {
          is_main \<leftarrow> chain_from_b58_prefix_bool destinationaddress;
          fee \<leftarrow> coins_to_koinu_str subtractedfee;
          out_koinu \<leftarrow> coins_to_koinu_str out_dogeamount_for_verification;
          let tot = out_koinu - fee;
          outs \<leftarrow> vout (transaction w);
          (count, out_total, txs) \<leftarrow> finalize_loop txindex is_main fee out_koinu changeaddress 0 (vlen outs) 0 0 txs;
          (if count < 1 then Some (None, txs)
           else if out_total = tot then do { r \<leftarrow> get_raw_transaction txindex txs; Some (r, txs) }
           else Some (None, txs))
        })"

section \<open>Raw transactions\<close>

definition save_raw_transaction :: "int \<Rightarrow> bytes \<Rightarrow> transactions \<Rightarrow> (bool \<times> transactions) option" where
  "save_raw_transaction txindex hexadecimal_transaction txs = do {
     n \<leftarrow> c_strlen hexadecimal_transaction;
     (if n > 1024 * 100 then Some (False, txs)
      else do {
        txtmp \<leftarrow> dogecoin_tx_new;
        (data_bin, outlength) \<leftarrow> utils_hex_to_bin hexadecimal_transaction (replicate n 0) n;
        (ok, txtmp, _) \<leftarrow> dogecoin_tx_deserialize (take outlength data_bin) txtmp;
        (if \<not> ok then Some (False, txs)
         else do {
           w \<leftarrow> find_transaction txindex txs;
           t \<leftarrow> dogecoin_tx_copy (transaction w) txtmp;
           Some (True, set_transaction txindex t txs)
         })
      })
   }"

text \<open>The index, or 0; a transaction that cannot be read leaves the new entry in the table.\<close>

definition store_raw_transaction :: "bytes \<Rightarrow> transactions \<Rightarrow> (int \<times> transactions) option" where
  "store_raw_transaction incomingrawtx txs = do {
     n \<leftarrow> c_strlen incomingrawtx;
     (if n > 1024 * 100 then Some (0, txs)
      else do {
        txtmp \<leftarrow> dogecoin_tx_new;
        (txindex, txs) \<leftarrow> start_transaction txs;
        w \<leftarrow> find_transaction txindex txs;
        (data_bin, outlength) \<leftarrow> utils_hex_to_bin incomingrawtx (replicate n 0) n;
        (ok, txtmp, _) \<leftarrow> dogecoin_tx_deserialize (take outlength data_bin) txtmp;
        (if \<not> ok then Some (0, txs)
         else do {
           t \<leftarrow> dogecoin_tx_copy (transaction w) txtmp;
           Some (txindex, set_transaction txindex t txs)
         })
      })
   }"

section \<open>The table as a map\<close>

text \<open>The table stands for a map from indices to the transactions the entries hold.\<close>

definition table_holds :: "transactions \<Rightarrow> (int \<Rightarrow> tx_view option) \<Rightarrow> bool" where
  "table_holds txs m \<longleftrightarrow> distinct (map idx txs) \<and> dom m = idx ` set txs
     \<and> (\<forall>w\<in>set txs. \<exists>a. m (idx w) = Some a \<and> tx_holds (transaction w) a)"

lemma find_transaction_iff:
  "distinct (map idx txs) \<Longrightarrow> find_transaction i txs = Some w \<longleftrightarrow> w \<in> set txs \<and> idx w = i"
  by (induction txs) (auto simp: find_transaction_def)

lemma find_transaction_None: "find_transaction i txs = None \<longleftrightarrow> i \<notin> idx ` set txs"
  by (auto simp: find_transaction_def find_None_iff)

lemma find_transaction_idx: "find_transaction i txs = Some w \<Longrightarrow> idx w = i \<and> w \<in> set txs"
  by (auto simp: find_transaction_def find_Some_iff)

lemma find_set_transaction:
  "find_transaction j (set_transaction i t txs)
   = (if j = i then map_option (\<lambda>w. w\<lparr>transaction := t\<rparr>) (find_transaction i txs) else find_transaction j txs)"
  by (induction txs) (auto simp: find_transaction_def set_transaction_def)

lemma map_idx_set_transaction [simp]: "map idx (set_transaction i t txs) = map idx txs"
  by (simp add: set_transaction_def)

lemma table_holds_find:
  assumes "table_holds txs m" "m i = Some a"
  shows "\<exists>w. find_transaction i txs = Some w \<and> tx_holds (transaction w) a"
proof -
  have "i \<in> idx ` set txs" using assms by (auto simp: table_holds_def)
  then obtain w where w: "w \<in> set txs" "idx w = i" by auto
  then have "find_transaction i txs = Some w" using assms(1) by (simp add: find_transaction_iff table_holds_def)
  moreover have "tx_holds (transaction w) a" using assms w by (auto simp: table_holds_def)
  ultimately show ?thesis by blast
qed

lemma table_holds_missing: "table_holds txs m \<Longrightarrow> m i = None \<Longrightarrow> find_transaction i txs = None"
  by (auto simp: table_holds_def find_transaction_None)

lemma idx_set_transaction [simp]: "idx ` set (set_transaction i t txs) = idx ` set txs"
  by (metis list.set_map map_idx_set_transaction)

lemma set_transaction_mem:
  "w \<in> set (set_transaction i t txs) \<Longrightarrow> (idx w \<noteq> i \<and> w \<in> set txs) \<or> (idx w = i \<and> transaction w = t)"
  by (auto simp: set_transaction_def split: if_splits)

lemma table_holds_set:
  assumes "table_holds txs m" "i \<in> dom m" "tx_holds t b"
  shows "table_holds (set_transaction i t txs) (m(i \<mapsto> b))"
proof -
  have "dom (m(i \<mapsto> b)) = idx ` set (set_transaction i t txs)" using assms(1,2) by (auto simp: table_holds_def)
  then show ?thesis using assms unfolding table_holds_def by (auto dest!: set_transaction_mem)
qed

lemma table_holds_filter:
  assumes "table_holds txs m"
  shows "table_holds (filter (\<lambda>w. idx w \<noteq> i) txs) (m(i := None))"
proof -
  have "distinct (map idx (filter (\<lambda>w. idx w \<noteq> i) txs))"
    using assms by (auto simp: table_holds_def distinct_map_filter)
  moreover have "dom (m(i := None)) = idx ` set (filter (\<lambda>w. idx w \<noteq> i) txs)"
    using assms by (auto simp: table_holds_def)
  ultimately show ?thesis using assms by (auto simp: table_holds_def)
qed

lemma table_holds_snoc:
  assumes "table_holds txs m" "m (idx w) = None" "tx_holds (transaction w) a"
  shows "table_holds (txs @ [w]) (m(idx w \<mapsto> a))"
proof -
  have "idx w \<notin> idx ` set txs" using assms by (auto simp: table_holds_def)
  then show ?thesis using assms by (auto simp: table_holds_def)
qed

lemma table_holds_add:
  assumes "table_holds txs m" "tx_holds (transaction w) a"
  shows "table_holds (add_transaction w txs) (m(idx w \<mapsto> a))"
proof (cases "find_transaction (idx w) txs")
  case None
  then have "m (idx w) = None" using assms(1) by (auto simp: find_transaction_None table_holds_def)
  with None show ?thesis using table_holds_snoc [OF assms(1) _ assms(2)] by (simp add: add_transaction_def)
next
  case (Some x)
  then have "idx x = idx w" by (auto dest: find_transaction_idx)
  with Some table_holds_snoc [OF table_holds_filter [OF assms(1), of "idx w"] _ assms(2)]
  show ?thesis by (simp add: add_transaction_def)
qed

lemma table_length: "table_holds txs m \<Longrightarrow> card (dom m) = length txs"
  using distinct_card [of "map idx txs"] by (auto simp: table_holds_def)

section \<open>The operations on the map\<close>

definition empty_view :: tx_view where
  "empty_view = \<lparr>v_version = 1, v_ins = [], v_outs = [], v_locktime = 0\<rparr>"

definition with_input :: "tx_view \<Rightarrow> bytes \<Rightarrow> u32 \<Rightarrow> tx_view" where
  "with_input a h n = a\<lparr>v_ins := v_ins a @ [\<lparr>in_hash = h, in_n = n, in_script = [], in_seq = 0xffffffff\<rparr>]\<rparr>"

lemma start_holds:
  assumes "table_holds txs m"
  shows "\<exists>txs'. start_transaction txs = Some (int (card (dom m)) + 1, txs')
    \<and> table_holds txs' (m(int (card (dom m)) + 1 \<mapsto> empty_view))"
proof -
  obtain t where t: "dogecoin_tx_new = Some t" "tx_holds t empty_view" unfolding empty_view_def using tx_new_holds by blast
  have "start_transaction txs = Some (int (card (dom m)) + 1,
      add_transaction \<lparr>idx = int (card (dom m)) + 1, transaction = t\<rparr> txs)"
    unfolding start_transaction_def new_transaction_def t(1) by (simp add: table_length [OF assms])
  moreover have "table_holds (add_transaction \<lparr>idx = int (card (dom m)) + 1, transaction = t\<rparr> txs)
      (m(int (card (dom m)) + 1 \<mapsto> empty_view))"
    using table_holds_add [OF assms, of "\<lparr>idx = int (card (dom m)) + 1, transaction = t\<rparr>" empty_view] t(2) by simp
  ultimately show ?thesis by blast
qed

lemma clear_holds:
  assumes "table_holds txs m" "i \<in> dom m"
  shows "\<exists>txs'. clear_transaction i txs = Some txs' \<and> table_holds txs' (m(i := None))"
proof -
  obtain w where w: "find_transaction i txs = Some w" using table_holds_find [OF assms(1), of i] assms(2) by auto
  then have "idx w = i" by (auto dest: find_transaction_idx)
  then show ?thesis
    using table_holds_filter [OF assms(1), of i] by (simp add: clear_transaction_def remove_transaction_def w)
qed

lemma add_input_holds:
  assumes "tx_holds tx a" "length (v_ins a) + 1 < 2 ^ 32" "length h = 32"
  shows "\<exists>v v'. vin tx = Some v \<and> vector_add v (Some (dogecoin_tx_in_new\<lparr>prevout := \<lparr>prev_hash = h, prev_n = n\<rparr>\<rparr>)) = Some v'
    \<and> vlen v' = vlen v + 1 \<and> tx_holds (tx\<lparr>vin := Some v'\<rparr>) (with_input a h n)"
proof -
  let ?in = "dogecoin_tx_in_new\<lparr>prevout := \<lparr>prev_hash = h, prev_n = n\<rparr>\<rparr>"
  obtain v xs where v: "vin tx = Some v" "vec_holds v (map Some xs)" "list_all2 in_holds xs (v_ins a)"
    using assms(1) by (auto simp: tx_holds_def vec_views_def)
  then have "length (map Some xs) < 2 ^ 63" using assms(2) by (simp add: list_all2_lengthD)
  then obtain w where w: "vector_add v (Some ?in) = Some w" "vec_holds w (map Some (xs @ [?in]))"
    using vec_add [OF v(2), of "Some ?in"] by auto
  have "in_holds ?in \<lparr>in_hash = h, in_n = n, in_script = [], in_seq = 0xffffffff\<rparr>"
    using assms(3) by (simp add: in_holds_def dogecoin_tx_in_new_def script_holds_def)
  then have "vec_views in_holds w (v_ins (with_input a h n))"
    using w(2) v(3) unfolding vec_views_def with_input_def
    by (intro exI [of _ "xs @ [?in]"]) (auto intro: list_all2_appendI)
  moreover have "vlen w = vlen v + 1" using w(2) v(2) by (simp add: vec_holds_def)
  ultimately show ?thesis using v(1) w(1) assms(1,2) by (auto simp: tx_holds_def with_input_def)
qed

lemma add_utxo_holds:
  assumes "table_holds txs m" "m i = Some a" "length (v_ins a) + 1 < 2 ^ 32" "length h = 32"
  shows "\<exists>txs'. add_utxo i (hex_chars (rev h) @ 0 # rest) n txs = Some (True, txs')
    \<and> table_holds txs' (m(i \<mapsto> with_input a h (of_int n)))"
proof -
  obtain w where w: "find_transaction i txs = Some w" "tx_holds (transaction w) a"
    using table_holds_find [OF assms(1,2)] by blast
  obtain v v' where v: "vin (transaction w) = Some v"
    "vector_add v (Some (dogecoin_tx_in_new\<lparr>prevout := \<lparr>prev_hash = h, prev_n = of_int n\<rparr>\<rparr>)) = Some v'"
    "vlen v' = vlen v + 1" "tx_holds (transaction w\<lparr>vin := Some v'\<rparr>) (with_input a h (of_int n))"
    using add_input_holds [OF w(2) assms(3,4), of "of_int n"] by blast
  have "utils_uint256_sethex (hex_chars (rev h) @ 0 # rest) = Some h"
    using sethex_hex [of "rev h" rest] assms(4) by simp
  with w v table_holds_set [OF assms(1) _ v(4), of i] assms(2) show ?thesis
    by (auto simp: add_utxo_def Let_def)
qed

section \<open>The address of an output\<close>

lemma strip_ops_eq:
  assumes "n \<le> length s" "\<forall>j<n. s ! j \<noteq> None" "mem_read s 3 23 = Some b" "23 \<le> length stripped"
  shows "strip_ops s n i stripped = Some (if \<exists>j\<in>{i..<n}. the (s ! j) \<notin> {OP_DUP, OP_HASH160, OP_EQUALVERIFY, OP_CHECKSIG}
    then b @ drop 23 stripped else stripped)"
  using assms
proof (induction s n i stripped rule: strip_ops.induct)
  case (1 s n i stripped)
  have lb: "length b = 23" using "1.prems"(3) by (auto simp: mem_read_def split: if_splits)
  show ?case
  proof (cases "i < n")
    case True
    then obtain c where c: "mem_get s i = Some (Some c)" "s ! i = Some c" using "1.prems"(1,2) by (auto simp: mem_get_def)
    have r: "{i..<n} = insert i {i + 1..<n}" using True by auto
    show ?thesis
    proof (cases "c \<in> {OP_DUP, OP_HASH160, OP_EQUALVERIFY, OP_CHECKSIG}")
      case op: True
      then show ?thesis using "1.IH"(1) [OF True c(1) refl op] "1.prems" True c unfolding r by (subst strip_ops.simps) auto
    next
      case op: False
      have w: "mem_write stripped 0 b = Some (b @ drop 23 stripped)" using "1.prems"(4) lb by (simp add: mem_write_def)
      have "strip_ops s n (i + 1) (b @ drop 23 stripped) = Some (b @ drop 23 stripped)"
        using "1.IH"(2) [OF True c(1) refl op "1.prems"(3) w] "1.prems" lb by simp
      moreover have "\<exists>j\<in>{i..<n}. the (s ! j) \<notin> {OP_DUP, OP_HASH160, OP_EQUALVERIFY, OP_CHECKSIG}"
        using op c(2) True by (intro bexI [of _ i]) auto
      ultimately show ?thesis using True c op w "1.prems"(3) by (subst strip_ops.simps) auto
    qed
  qed (simp add: strip_ops.simps)
qed

lemma strip_p2pkh:
  assumes "cstr_holds c (p2pkh_script h)" "length h = 20"
  shows "\<exists>st. strip_ops (str c) (strip_bound (len c)) 2 (replicate 25 (Some 0)) = Some st \<and> read_cells (take 20 st) = Some h"
proof -
  let ?sc = "p2pkh_script h"
  have l: "length ?sc = 25" using assms(2) by (simp add: p2pkh_script_bytes)
  have c: "len c = 25" "take 25 (str c) = map Some ?sc" "str c ! 25 = Some 0" "25 < length (str c)"
    using assms(1) l by (auto simp: cstr_holds_def)
  have nth: "str c ! j = Some (?sc ! j)" if "j < 25" for j
    using that c(2) l by (metis length_map nth_map nth_take)
  have "take 23 (drop 3 (str c)) = take 22 (drop 3 (str c)) @ [Some 0]"
    using c(3,4) take_Suc_conv_app_nth [of 22 "drop 3 (str c)"] by simp
  also have "take 22 (drop 3 (str c)) = drop 3 (take 25 (str c))" by (simp add: drop_take)
  finally have rd: "mem_read (str c) 3 23 = Some (map Some (drop 3 ?sc) @ [Some 0])"
    using c(2,4) by (simp add: mem_read_def drop_map)
  have "the (str c ! 2) = 20" using nth [of 2] assms(2) by (simp add: p2pkh_script_bytes)
  then have e: "\<exists>j\<in>{2..<21}. the (str c ! j) \<notin> {OP_DUP, OP_HASH160, OP_EQUALVERIFY, OP_CHECKSIG}"
    by (intro bexI [of _ 2]) (auto simp: code_values)
  have "strip_ops (str c) 21 2 (replicate 25 (Some 0)) = Some ((map Some (drop 3 ?sc) @ [Some 0]) @ replicate 2 (Some 0))"
    using strip_ops_eq [OF _ _ rd, of 21 "replicate 25 (Some 0)" 2] e nth c(4) by simp
  moreover have "take 20 (map Some (drop 3 ?sc)) = map Some h" using assms(2) by (simp add: p2pkh_script_bytes take_map [symmetric])
  moreover have "read_cells (map Some h) = Some h" by simp
  ultimately show ?thesis using l c(1) by (simp add: strip_bound_def)
qed

lemma out_address:
  assumes "out_holds out \<lparr>out_value = n, out_script = p2pkh_script h\<rparr>" "length h = 20" "36 \<le> length s"
  shows "\<exists>t. check_text (b58prefix_pubkey_address (if is_main then dogecoin_chainparams_main else dogecoin_chainparams_test) # h) t
    \<and> dogecoin_tx_out_pubkey_hash_to_p2pkh_address out s is_main = Some (True, t @ 0 # drop (length t + 1) s)"
proof -
  let ?chain = "if is_main then dogecoin_chainparams_main else dogecoin_chainparams_test"
  have l: "length (p2pkh_script h) = 25" using assms(2) by (simp add: p2pkh_script_bytes)
  obtain c where c: "script_pubkey out = Some c" "cstr_holds c (p2pkh_script h)"
    using assms(1) l by (auto simp: out_holds_def script_holds_def split: option.splits)
  obtain copy d where d: "dogecoin_tx_out_copy out = Some copy" "script_pubkey copy = Some d" "cstr_holds d (p2pkh_script h)"
    using out_copy_holds [OF assms(1)] l by (auto simp: out_holds_def script_holds_def split: option.splits)
  have nw: "?chain \<in> networks" by (simp add: networks_def)
  have "len c = 25" using c(2) l by (simp add: cstr_holds_def)
  obtain st where st: "strip_ops (str d) (strip_bound (len d)) 2 (replicate 25 (Some 0)) = Some st" "read_cells (take 20 st) = Some h"
    using strip_p2pkh [OF d(3) assms(2)] by blast
  obtain t where t: "check_text (b58prefix_pubkey_address ?chain # h) t" "length t \<le> 34"
    using pubkey_text [OF nw assms(2)] by blast
  show ?thesis
    using p2pkh_addr_text [OF t(1) assms(2), of 35 s "[]"] t assms(3) c(1) d(1,2) st \<open>len c = 25\<close>
    by (intro exI [of _ t]) (simp add: dogecoin_tx_out_pubkey_hash_to_p2pkh_address_def)
qed

section \<open>The first character of an address\<close>

lemma check_text_first_value:
  assumes "check_text q t" "q \<noteq> []" "hd q \<noteq> 0" "0 < lo" "hi \<le> 58"
    and N: "lo * 58 ^ k \<le> radix 256 (nats (checked q))" "radix 256 (nats (checked q)) < hi * 58 ^ k"
  shows "\<exists>d t'. lo \<le> d \<and> d < hi \<and> t = b58digits_ordered ! d # t' \<and> length t' = k"
proof -
  let ?N = "radix 256 (nats (checked q))"
  obtain ds where ds: "t = b58_text ds" "b58_digits (checked q) ds" using assms(1) by (auto simp: check_text_def)
  obtain v p where q: "q = v # p" "v \<noteq> 0" using assms(2,3) by (cases q) auto
  have "58 ^ k \<le> lo * 58 ^ k" "hi * 58 ^ k \<le> 58 ^ (k + 1)" using assms(4,5) by simp_all
  then have "58 ^ k \<le> ?N" "?N < 58 ^ (k + 1)" using N by linarith+
  then have l: "length ds = k + 1"
    using b58_digits_at_least [OF ds(2)] b58_digits_at_most [OF ds(2)] q by (fastforce simp: checked_def)
  then obtain d ds' where d: "ds = d # ds'" "length ds' = k" by (cases ds) auto
  have r: "radix 58 ds = ?N" "\<forall>d\<in>set ds. d < 58" using ds(2) q by (auto simp: b58_digits_def checked_def Let_def)
  then have e: "d * 58 ^ k + radix 58 ds' = ?N" "radix 58 ds' < 58 ^ k"
    using d radix_less [of ds' 58] by (auto simp: radix_Cons)
  have "d * 58 ^ k < hi * 58 ^ k" using e N(2) by linarith
  moreover have "lo * 58 ^ k < (d + 1) * 58 ^ k" unfolding add_mult_distrib using e N(1) by linarith
  ultimately have "d < hi" "lo < d + 1" using mult_less_cancel2 by blast+
  then show ?thesis using ds(1) d
    by (intro exI [of _ d] exI [of _ "map ((!) b58digits_ordered) ds'"]) (simp add: b58_text_def)
qed

lemma check_text_first:
  assumes "check_text (v # p) t" "v \<noteq> 0" "0 < lo" "hi \<le> 58"
    and "lo * 58 ^ k \<le> unat v * 256 ^ (length p + 4)" "(unat v + 1) * 256 ^ (length p + 4) \<le> hi * 58 ^ k"
  shows "\<exists>d t'. lo \<le> d \<and> d < hi \<and> t = b58digits_ordered ! d # t'"
proof -
  have "lo * 58 ^ k \<le> radix 256 (nats (checked (v # p)))" "radix 256 (nats (checked (v # p))) < hi * 58 ^ k"
    using radix_leading [of v "p @ take 4 (sha256d (v # p))"] assms(5,6) by (simp_all add: checked_def)
  then show ?thesis using check_text_first_value [OF assms(1) _ _ assms(3,4)] assms(2) by fastforce
qed

lemma main_address_first:
  assumes "check_text (b58prefix_pubkey_address dogecoin_chainparams_main # h) t" "length h = 20"
  shows "\<exists>t'. t = 68 # t'"
proof -
  have "\<exists>d t'. 12 \<le> d \<and> d < 13 \<and> t = b58digits_ordered ! d # t'"
    by (rule check_text_first [OF assms(1), of 12 13 33])
      (use assms(2) in \<open>simp_all add: dogecoin_chainparams_main_def\<close>)
  then obtain d t' where d: "12 \<le> d" "d < 13" "t = b58digits_ordered ! d # t'" by blast
  then have "d = 12" by linarith
  with d(3) show ?thesis by (simp add: b58digits_ordered_def upt_rec)
qed

lemma main_script_first:
  assumes "check_text (b58prefix_script_address dogecoin_chainparams_main # h) t" "length h = 20"
  shows "\<exists>c t'. t = c # t' \<and> c \<in> {57, 65}"
proof -
  have "\<exists>d t'. 8 \<le> d \<and> d < 10 \<and> t = b58digits_ordered ! d # t'"
    by (rule check_text_first [OF assms(1), of 8 10 33])
      (use assms(2) in \<open>simp_all add: dogecoin_chainparams_main_def\<close>)
  then obtain d t' where d: "8 \<le> d" "d < 10" "t = b58digits_ordered ! d # t'" by blast
  then have "d = 8 \<or> d = 9" by linarith
  with d(3) show ?thesis by (auto simp: b58digits_ordered_def upt_rec)
qed

lemma test_address_first:
  assumes "check_text (b58prefix_pubkey_address dogecoin_chainparams_test # h) t" "length h = 20"
  shows "\<exists>t'. t = 110 # t'"
proof -
  have "\<exists>d t'. 45 \<le> d \<and> d < 46 \<and> t = b58digits_ordered ! d # t'"
    by (rule check_text_first [OF assms(1), of 45 46 33])
      (use assms(2) in \<open>simp_all add: dogecoin_chainparams_test_def\<close>)
  then obtain d t' where d: "45 \<le> d" "d < 46" "t = b58digits_ordered ! d # t'" by blast
  then have "d = 45" by linarith
  with d(3) show ?thesis by (simp add: b58digits_ordered_def upt_rec)
qed

lemma test_script_first:
  assumes "check_text (b58prefix_script_address dogecoin_chainparams_test # h) t" "length h = 20"
  shows "\<exists>t'. t = 50 # t'"
proof -
  have "\<exists>d t'. 1 \<le> d \<and> d < 2 \<and> t = b58digits_ordered ! d # t'"
    by (rule check_text_first [OF assms(1), of 1 2 34])
      (use assms(2) in \<open>simp_all add: dogecoin_chainparams_test_def\<close>)
  then obtain d t' where d: "1 \<le> d" "d < 2" "t = b58digits_ordered ! d # t'" by blast
  then have "d = 1" by linarith
  with d(3) show ?thesis by (simp add: b58digits_ordered_def upt_rec)
qed

lemma chain_of_text: "chain_of (c # t @ rest) = Some (if c = 68 then dogecoin_chainparams_main else dogecoin_chainparams_test)"
  by (simp add: chain_of_def mem_get_def)

section \<open>Adding outputs\<close>

text \<open>The texts a caller passes: an address as the code writes it into 35 bytes, an amount into 22.\<close>

definition address_text :: "dogecoin_chainparams \<Rightarrow> bytes \<Rightarrow> bytes" where
  "address_text chain h = (case dogecoin_p2pkh_addr_from_hash160 h chain (replicate 35 0) 35 of Some (True, s) \<Rightarrow> s | _ \<Rightarrow> [])"

definition script_address_text :: "dogecoin_chainparams \<Rightarrow> bytes \<Rightarrow> bytes" where
  "script_address_text chain h = (case dogecoin_p2sh_addr_from_hash160 h chain (replicate 35 0) 35 of Some (True, s) \<Rightarrow> s | _ \<Rightarrow> [])"

definition amount_text :: "u64 \<Rightarrow> bytes" where
  "amount_text n = (case koinu_to_coins_str n (replicate 22 0) of Some (True, s) \<Rightarrow> s | _ \<Rightarrow> [])"

definition txid_text :: "bytes \<Rightarrow> bytes" where
  "txid_text h = hex_chars (rev h) @ [0]"

text \<open>The networks \<open>add_output\<close> knows.\<close>

definition chains :: "dogecoin_chainparams set" where
  "chains = {dogecoin_chainparams_main, dogecoin_chainparams_test}"

lemma chains_networks: "chain \<in> chains \<Longrightarrow> chain \<in> networks"
  by (auto simp: chains_def networks_def)

lemma address_text_eq:
  assumes "chain \<in> chains" "length h = 20"
  shows "\<exists>t rest. address_text chain h = t @ 0 # rest \<and> check_text (b58prefix_pubkey_address chain # h) t
    \<and> length t \<le> 34 \<and> chain_of (address_text chain h) = Some chain"
proof -
  obtain t where t: "check_text (b58prefix_pubkey_address chain # h) t" "length t \<le> 34"
    using pubkey_text [OF chains_networks [OF assms(1)] assms(2)] by blast
  have a: "address_text chain h = t @ 0 # drop (length t + 1) (replicate 35 0)"
    using p2pkh_addr_text [OF t(1) assms(2), of 35 "replicate 35 0" "[]"] t(2) by (simp add: address_text_def)
  have ne: "dogecoin_chainparams_main \<noteq> dogecoin_chainparams_test"
    by (simp add: dogecoin_chainparams_main_def dogecoin_chainparams_test_def)
  have "chain_of (address_text chain h) = Some chain"
  proof (cases "chain = dogecoin_chainparams_main")
    case True
    then obtain t' where "t = 68 # t'" using main_address_first t(1) assms(2) by blast
    with True a show ?thesis by (simp add: chain_of_def mem_get_def)
  next
    case False
    then have c: "chain = dogecoin_chainparams_test" using assms(1) by (simp add: chains_def)
    then obtain t' where "t = 110 # t'" using test_address_first t(1) assms(2) by blast
    with c a show ?thesis by (simp add: chain_of_def mem_get_def)
  qed
  with a t show ?thesis by blast
qed

lemma address_text_pays:
  assumes "chain \<in> chains" "length h = 20" "tx_holds tx a" "length (v_outs a) + 1 < 2 ^ 32"
  shows "\<exists>tx'. dogecoin_tx_add_address_out tx chain n (address_text chain h) = Some (True, tx')
    \<and> tx_holds tx' (with_output a n (p2pkh_script h))"
proof -
  obtain t rest where t: "address_text chain h = t @ 0 # rest" "check_text (b58prefix_pubkey_address chain # h) t" "length t \<le> 34"
    using address_text_eq [OF assms(1,2)] by blast
  show ?thesis
    using address_out_text [OF t(2) assms(2) network_prefixes(1) [OF chains_networks [OF assms(1)]], of tx chain n rest] t(1,3)
      hash160_out_holds(1) [OF assms(3,4,2), of n "take 4 (sha256d (b58prefix_pubkey_address chain # h)) @ replicate (length t * 2 - 25) 0"]
    by auto
qed

text \<open>The address of a script on the main network is taken for one of the test network, and dropped.\<close>

lemma script_address_dropped:
  assumes "length h = 20"
  shows "chain_of (script_address_text dogecoin_chainparams_main h) = Some dogecoin_chainparams_test
    \<and> dogecoin_tx_add_address_out tx dogecoin_chainparams_test n (script_address_text dogecoin_chainparams_main h) = Some (True, tx)"
proof -
  let ?c = dogecoin_chainparams_main
  have nw: "?c \<in> networks" by (simp add: networks_def)
  obtain t where t: "check_text (b58prefix_script_address ?c # h) t" using script_text [OF nw assms] by blast
  have "length t \<le> 34"
    by (rule check_text_fits [OF t]) (use assms in \<open>simp_all add: dogecoin_chainparams_main_def\<close>)
  with t have t: "check_text (b58prefix_script_address ?c # h) t" "length t \<le> 34" by simp_all
  have a: "script_address_text ?c h = t @ 0 # drop (length t + 1) (replicate 35 0)"
    using p2sh_addr_text [OF t(1) assms, of 35 "replicate 35 0" "[]"] t(2) by (simp add: script_address_text_def)
  obtain c t' where c: "t = c # t'" "c \<in> {57, 65}" using main_script_first [OF t(1) assms] by blast
  then have "chain_of (script_address_text ?c h) = Some dogecoin_chainparams_test"
    unfolding a by (auto simp: chain_of_def mem_get_def)
  moreover have "dogecoin_tx_add_address_out tx dogecoin_chainparams_test n (script_address_text ?c h) = Some (True, tx)"
    using address_out_text [OF t(1) assms network_prefixes(2) [OF nw], of tx dogecoin_chainparams_test n] t(2) unfolding a
    by (simp add: dogecoin_chainparams_main_def dogecoin_chainparams_test_def)
  ultimately show ?thesis by blast
qed

lemma amount_text_read: "koinu_valid n \<Longrightarrow> coins_to_koinu_str (amount_text n) = Some n"
  using koinu_to_coins_small [of n "replicate 22 0"] koinu_to_coins_large [of n "replicate 22 0"]
    coins_to_koinu_text [of n] calc_length_u64 [of n] replicate_Suc [of 11 "0 :: u8"]
  by (cases "calc_length (unat n) < 9") (simp_all add: amount_text_def)

lemma add_output_text:
  assumes "table_holds txs m" "m i = Some a" "chain \<in> chains" "length h = 20" "coins_to_koinu_str amt = Some n" "length (v_outs a) + 1 < 2 ^ 32"
  shows "\<exists>txs'. add_output i (address_text chain h) amt txs = Some (True, txs')
    \<and> table_holds txs' (m(i \<mapsto> with_output a n (p2pkh_script h)))"
proof -
  obtain w where w: "find_transaction i txs = Some w" "tx_holds (transaction w) a"
    using table_holds_find [OF assms(1,2)] by blast
  have "chain_of (address_text chain h) = Some chain" using address_text_eq [OF assms(3,4)] by blast
  moreover obtain t where t: "dogecoin_tx_add_address_out (transaction w) chain n (address_text chain h) = Some (True, t)"
    "tx_holds t (with_output a n (p2pkh_script h))"
    using address_text_pays [OF assms(3,4) w(2) assms(6)] by blast
  ultimately show ?thesis
    using w(1) assms(5) table_holds_set [OF assms(1) _ t(2), of i] assms(2)
    by (auto simp: add_output_def)
qed

lemma add_output_holds:
  assumes "table_holds txs m" "m i = Some a" "chain \<in> chains" "length h = 20" "koinu_valid n" "length (v_outs a) + 1 < 2 ^ 32"
  shows "\<exists>txs'. add_output i (address_text chain h) (amount_text n) txs = Some (True, txs')
    \<and> table_holds txs' (m(i \<mapsto> with_output a n (p2pkh_script h)))"
  by (rule add_output_text [OF assms(1-4) amount_text_read [OF assms(5)] assms(6)])

lemma change_holds:
  assumes "table_holds txs m" "m i = Some a" "chain \<in> chains" "length h = 20" "length (v_outs a) + 1 < 2 ^ 32" "n \<noteq> fee"
  shows "\<exists>txs'. make_change i (address_text chain h) fee n txs = Some (True, txs')
    \<and> table_holds txs' (m(i \<mapsto> with_output a (n - fee) (p2pkh_script h)))"
proof -
  obtain w where w: "find_transaction i txs = Some w" "tx_holds (transaction w) a"
    using table_holds_find [OF assms(1,2)] by blast
  have "chain_of (address_text chain h) = Some chain" using address_text_eq [OF assms(3,4)] by blast
  moreover obtain t where t: "dogecoin_tx_add_address_out (transaction w) chain (n - fee) (address_text chain h) = Some (True, t)"
    "tx_holds t (with_output a (n - fee) (p2pkh_script h))"
    using address_text_pays [OF assms(3,4) w(2) assms(5)] by blast
  ultimately show ?thesis
    using w(1) table_holds_set [OF assms(1) _ t(2), of i] assms(2,6)
    by (auto simp: make_change_def)
qed

text \<open>The hexadecimal text of a table entry, in the static buffer of 2048 bytes, or a null pointer.\<close>

definition raw_text :: "tx_view \<Rightarrow> bytes option" where
  "raw_text a = (if length (tx_bytes a) \<le> 1023
     then Some (hex_chars (tx_bytes a) @ replicate (2048 - 2 * length (tx_bytes a)) 0) else None)"

lemma get_raw_entry:
  assumes "find_transaction i txs = Some w" "tx_holds (transaction w) a" "length (tx_bytes a) < 2 ^ 30"
  shows "get_raw_transaction i txs = Some (raw_text a)"
proof -
  obtain s0 where s0: "cstr_new_sz 1024 = Some s0" "cstr_holds s0 []" using cstr_new_sz_ok [of 1024] by auto
  obtain s where s: "dogecoin_tx_serialize (transaction w) s0 = Some s" "cstr_holds s (tx_bytes a)"
    using sink.appendsD [OF tx_serialize_appends [OF assms(2)] s0(2)] assms(3) by auto
  have "contents s = Some (tx_bytes a)" "len s = length (tx_bytes a)"
    using read_contents [OF s(2)] s(2) by (simp_all add: contents_def cstr_holds_def)
  then show ?thesis
    using assms(1) s0(1) s(1)
    by (simp add: get_raw_transaction_def raw_text_def utils_uint8_to_hex_def TO_UINT8_HEX_BUF_LEN_def mem_simps)
qed

lemma get_raw_holds:
  assumes "table_holds txs m" "m i = Some a" "length (tx_bytes a) < 2 ^ 30"
  shows "get_raw_transaction i txs = Some (raw_text a)"
  using table_holds_find [OF assms(1,2)] get_raw_entry assms(3) by blast

section \<open>Finalising\<close>

text \<open>Every output pays to a key.\<close>

definition pays_keys :: "tx_view \<Rightarrow> bool" where
  "pays_keys a \<longleftrightarrow> list_all (\<lambda>out. \<exists>h. length h = 20 \<and> out_script out = p2pkh_script h) (v_outs a)"

definition outs_total :: "tx_view \<Rightarrow> u64" where
  "outs_total a = sum_list (map out_value (v_outs a))"

lemma vec_views_idx:
  assumes "vec_views r v as" "i < length as"
  shows "\<exists>x. vector_idx v i = Some (Some x) \<and> r x (as ! i)"
proof -
  obtain xs where xs: "vec_holds v (map Some xs)" "list_all2 r xs as" using assms(1) by (auto simp: vec_views_def)
  then have "length xs = length as" by (simp add: list_all2_lengthD)
  then show ?thesis using vec_idx [OF xs(1), of i] xs(2) assms(2) by (auto simp: list_all2_conv_all_nth)
qed

lemma finalize_output:
  assumes "table_holds txs m" "m ti = Some a" "pays_keys a" "i < length (v_outs a)"
  shows "\<exists>w v x s. find_transaction ti txs = Some w \<and> vout (transaction w) = Some v \<and> vector_idx v i = Some (Some x)
    \<and> tx_value x = out_value (v_outs a ! i)
    \<and> dogecoin_tx_out_pubkey_hash_to_p2pkh_address x (replicate 36 0) is_main = Some (True, s)"
proof -
  obtain w where w: "find_transaction ti txs = Some w" "tx_holds (transaction w) a"
    using table_holds_find [OF assms(1,2)] by blast
  obtain v where v: "vout (transaction w) = Some v" "vec_views out_holds v (v_outs a)"
    using w(2) by (auto simp: tx_holds_def)
  obtain x where x: "vector_idx v i = Some (Some x)" "out_holds x (v_outs a ! i)" using vec_views_idx [OF v(2) assms(4)] by blast
  obtain h where h: "length h = 20" "out_script (v_outs a ! i) = p2pkh_script h"
    using assms(3,4) by (auto simp: pays_keys_def list_all_length)
  then have "out_holds x \<lparr>out_value = tx_value x, out_script = p2pkh_script h\<rparr>" using x(2) by (simp add: out_holds_def)
  from out_address [OF this h(1), of "replicate 36 0" is_main] w(1) v(1) x show ?thesis by (auto simp: out_holds_def)
qed

text \<open>The loop up to the last output, and the whole loop when no change is wanted.\<close>

lemma finalize_loop_prefix:
  assumes "table_holds txs m" "m ti = Some a" "pays_keys a" "i + k + n = length (v_outs a)" "change = None \<or> 0 < n"
  shows "finalize_loop ti is_main fee total_in change i (k + n) count tot txs
    = finalize_loop ti is_main fee total_in change (i + k) n (if k = 0 then count else 1)
        (tot + sum_list (map out_value (take k (drop i (v_outs a))))) txs"
  using assms(4)
proof (induction k arbitrary: i count tot)
  case (Suc k)
  have i: "i < length (v_outs a)" using Suc.prems by simp
  obtain w v x s where w: "find_transaction ti txs = Some w" "vout (transaction w) = Some v" "vector_idx v i = Some (Some x)"
    "tx_value x = out_value (v_outs a ! i)" "dogecoin_tx_out_pubkey_hash_to_p2pkh_address x (replicate 36 0) is_main = Some (True, s)"
    using finalize_output [OF assms(1-3) i] by blast
  have d: "drop i (v_outs a) = v_outs a ! i # drop (i + 1) (v_outs a)" using i by (simp add: Cons_nth_drop_Suc)
  have "finalize_loop ti is_main fee total_in change i (Suc k + n) count tot txs
      = finalize_loop ti is_main fee total_in change (i + 1) (k + n) 1 (tot + out_value (v_outs a ! i)) txs"
    using w assms(5) by (auto simp: Let_def split: option.splits)
  also have "\<dots> = finalize_loop ti is_main fee total_in change (i + 1 + k) n 1
      (tot + out_value (v_outs a ! i) + sum_list (map out_value (take k (drop (i + 1) (v_outs a))))) txs"
    using Suc.IH [of "i + 1" 1] Suc.prems by simp
  finally show ?case unfolding d by (simp add: add.assoc)
qed simp

lemma finalize_loop_no_change:
  assumes "table_holds txs m" "m ti = Some a" "pays_keys a"
  shows "finalize_loop ti is_main fee total_in None 0 (length (v_outs a)) 0 0 txs
    = Some (if v_outs a = [] then 0 else 1, outs_total a, txs)"
  using finalize_loop_prefix [OF assms, of 0 "length (v_outs a)" 0 None is_main fee total_in 0 0]
  by (simp add: outs_total_def)

lemma finalize_loop_change:
  assumes "table_holds txs m" "m ti = Some a" "pays_keys a" "v_outs a \<noteq> []"
  shows "finalize_loop ti is_main fee total_in (Some change) 0 (length (v_outs a)) 0 0 txs
    = do {
        (r, txs') \<leftarrow> make_change ti change fee (total_in - outs_total a) txs;
        (if r then do {
           w \<leftarrow> find_transaction ti txs';
           outs \<leftarrow> vout (transaction w);
           p \<leftarrow> vector_idx outs (vlen outs - 1);
           out \<leftarrow> p;
           Some (1 + 1, outs_total a + tx_value out, txs')
         }
         else Some (1, outs_total a, txs'))
      }"
proof -
  define k where "k = length (v_outs a) - 1"
  have k: "length (v_outs a) = k + 1" "k < length (v_outs a)" using assms(4) by (simp_all add: k_def)
  obtain w v x s where w: "find_transaction ti txs = Some w" "vout (transaction w) = Some v" "vector_idx v k = Some (Some x)"
    "tx_value x = out_value (v_outs a ! k)" "dogecoin_tx_out_pubkey_hash_to_p2pkh_address x (replicate 36 0) is_main = Some (True, s)"
    using finalize_output [OF assms(1-3) k(2)] by blast
  have "take (k + 1) (v_outs a) = take k (v_outs a) @ [v_outs a ! k]" using k(2) by (simp add: take_Suc_conv_app_nth)
  moreover have "take (k + 1) (v_outs a) = v_outs a" using k(1) by simp
  ultimately have "map out_value (v_outs a) = map out_value (take k (v_outs a) @ [v_outs a ! k])" by metis
  then have t: "outs_total a = sum_list (map out_value (take k (v_outs a))) + out_value (v_outs a ! k)"
    unfolding outs_total_def by (simp only: map_append list.map sum_list.append sum_list.Cons sum_list.Nil add_0_right)
  have pre: "finalize_loop ti is_main fee total_in (Some change) 0 (k + 1) 0 0 txs
      = finalize_loop ti is_main fee total_in (Some change) k 1 (if k = 0 then 0 else 1)
          (sum_list (map out_value (take k (v_outs a)))) txs"
    using finalize_loop_prefix [OF assms(1-3), of 0 k 1 "Some change" is_main fee total_in 0 0] k by simp
  show ?thesis unfolding t k(1) pre w(4) [symmetric] using w(1-3,5) by (simp add: Let_def)
qed


text \<open>What \<open>finalize_transaction\<close> gives for outputs that pay to keys.\<close>

lemma finalize_plain:
  assumes "table_holds txs m" "m i = Some a" "pays_keys a" "length (tx_bytes a) < 2 ^ 30"
    and "coins_to_koinu_str feetext = Some fee" "coins_to_koinu_str verify = Some v"
  shows "finalize_transaction i (c # dest) feetext verify None txs
    = Some (if v_outs a \<noteq> [] \<and> outs_total a = v - fee then raw_text a else None, txs)"
proof -
  obtain w where w: "find_transaction i txs = Some w" "tx_holds (transaction w) a"
    using table_holds_find [OF assms(1,2)] by blast
  obtain vo where vo: "vout (transaction w) = Some vo" "vlen vo = length (v_outs a)"
    using w(2) views_length by (auto simp: tx_holds_def)
  show ?thesis
    using w(1) vo assms(5,6) finalize_loop_no_change [OF assms(1-3)] get_raw_holds [OF assms(1,2,4)]
    by (simp add: finalize_transaction_def chain_from_b58_prefix_bool_def mem_get_def Let_def)
qed

lemma finalize_with_change:
  assumes "table_holds txs m" "m i = Some a" "pays_keys a" "v_outs a \<noteq> []" "length (v_outs a) + 1 < 2 ^ 32"
    and "coins_to_koinu_str feetext = Some fee" "coins_to_koinu_str verify = Some v" "chain \<in> chains" "length h = 20"
  defines "b \<equiv> (if v - outs_total a = fee then a else with_output a (v - outs_total a - fee) (p2pkh_script h))"
  assumes "length (tx_bytes b) < 2 ^ 30"
  shows "\<exists>txs'. finalize_transaction i (c # dest) feetext verify (Some (address_text chain h)) txs = Some (raw_text b, txs')
    \<and> table_holds txs' (m(i \<mapsto> b))"
proof -
  obtain w where w: "find_transaction i txs = Some w" "tx_holds (transaction w) a"
    using table_holds_find [OF assms(1,2)] by blast
  obtain vo where vo: "vout (transaction w) = Some vo" "vlen vo = length (v_outs a)"
    using w(2) views_length by (auto simp: tx_holds_def)
  note loop = finalize_loop_change [OF assms(1-4), of _ fee v "address_text chain h"]
  show ?thesis
  proof (cases "v - outs_total a = fee")
    case True
    then have b: "b = a" "m(i \<mapsto> b) = m" using assms(2) by (auto simp: b_def)
    moreover have "outs_total a = v - fee" using True by (metis add_diff_cancel_left' diff_add_cancel)
    ultimately show ?thesis
      using w(1) vo assms(1,6,7) loop True get_raw_holds [OF assms(1,2)] assms(11)
      by (simp add: finalize_transaction_def chain_from_b58_prefix_bool_def mem_get_def Let_def make_change_def)
  next
    case False
    then have b: "b = with_output a (v - outs_total a - fee) (p2pkh_script h)" by (simp add: b_def)
    obtain txs' where t: "make_change i (address_text chain h) fee (v - outs_total a) txs = Some (True, txs')"
      "table_holds txs' (m(i \<mapsto> b))"
      using change_holds [OF assms(1,2,8,9,5) False] unfolding b by blast
    obtain w' where w': "find_transaction i txs' = Some w'" "tx_holds (transaction w') b"
      using table_holds_find [OF t(2), of i b] by auto
    obtain vo' where vo': "vout (transaction w') = Some vo'" "vec_views out_holds vo' (v_outs b)"
      using w'(2) by (auto simp: tx_holds_def)
    have lb: "v_outs b = v_outs a @ [\<lparr>out_value = v - outs_total a - fee, out_script = p2pkh_script h\<rparr>]"
      by (simp add: b with_output_def)
    obtain x where x: "vector_idx vo' (vlen vo' - 1) = Some (Some x)" "out_holds x (v_outs b ! length (v_outs a))"
      using vec_views_idx [OF vo'(2), of "length (v_outs a)"] lb views_length [OF vo'(2)] by auto
    then have "tx_value x = v - outs_total a - fee" by (simp add: lb out_holds_def)
    then show ?thesis
      using w(1) vo vo'(1) w'(1) x(1) assms(6,7) loop t get_raw_holds [OF t(2), of i b] assms(11)
      by (simp add: finalize_transaction_def chain_from_b58_prefix_bool_def mem_get_def Let_def)
  qed
qed

end
