(* ===== verification/Rmd160.thy ===== *)
theory Rmd160
  imports BlockHash
begin

text \<open>
  RIPEMD-160, \<open>src/rmd160.c\<close>: the ten step macros, \<open>compress\<close> with its 160 steps, and \<open>rmd160\<close>, which pads as it
  goes. They are shown to compute the hash as its standard describes it: two lines of 80 steps, given by tables
  of word selections and rotations, over the blocks of the padded message.
\<close>

section \<open>The macros\<close>

definition ROL :: "u32 \<Rightarrow> nat \<Rightarrow> u32" where
  "ROL x n = push_bit n x OR drop_bit (32 - n) x"

definition rmd_F :: "u32 \<Rightarrow> u32 \<Rightarrow> u32 \<Rightarrow> u32" where "rmd_F x y z = x XOR y XOR z"
definition rmd_G :: "u32 \<Rightarrow> u32 \<Rightarrow> u32 \<Rightarrow> u32" where "rmd_G x y z = (x AND y) OR (NOT x AND z)"
definition rmd_H :: "u32 \<Rightarrow> u32 \<Rightarrow> u32 \<Rightarrow> u32" where "rmd_H x y z = (x OR NOT y) XOR z"
definition rmd_IQ :: "u32 \<Rightarrow> u32 \<Rightarrow> u32 \<Rightarrow> u32" where "rmd_IQ x y z = (x AND z) OR (y AND NOT z)"
definition rmd_J :: "u32 \<Rightarrow> u32 \<Rightarrow> u32 \<Rightarrow> u32" where "rmd_J x y z = x XOR (y OR NOT z)"

text \<open>
  The body of a step macro. Its five variables are always five that follow one another in the circle
  \<open>aa bb cc dd ee\<close>, so a call is given by the position of the first among the values \<open>v\<close> of the five.
\<close>

definition rmd_line :: "(u32 \<Rightarrow> u32 \<Rightarrow> u32 \<Rightarrow> u32) \<Rightarrow> u32 \<Rightarrow> nat \<Rightarrow> u32 \<Rightarrow> nat \<Rightarrow> u32 list \<Rightarrow> u32 list" where
  "rmd_line f const a x s v =
     (let b = (a + 1) mod 5; c = (a + 2) mod 5; d = (a + 3) mod 5; e = (a + 4) mod 5;
          v = v[a := v ! a + (f (v ! b) (v ! c) (v ! d) + x + const)];
          v = v[a := ROL (v ! a) s + v ! e]
      in v[c := ROL (v ! c) 10])"

type_synonym rmd_macro = "nat \<Rightarrow> u32 \<Rightarrow> nat \<Rightarrow> u32 list \<Rightarrow> u32 list"

definition FF :: rmd_macro where "FF = rmd_line rmd_F 0"
definition GG :: rmd_macro where "GG = rmd_line rmd_G 0x5a827999"
definition HH :: rmd_macro where "HH = rmd_line rmd_H 0x6ed9eba1"
definition II :: rmd_macro where "II = rmd_line rmd_IQ 0x8f1bbcdc"
definition JJ :: rmd_macro where "JJ = rmd_line rmd_J 0xa953fd4e"
definition FFF :: rmd_macro where "FFF = rmd_line rmd_F 0"
definition GGG :: rmd_macro where "GGG = rmd_line rmd_G 0x7a6d76e9"
definition HHH :: rmd_macro where "HHH = rmd_line rmd_H 0x6d703ef3"
definition III :: rmd_macro where "III = rmd_line rmd_IQ 0x5c4dd124"
definition JJJ :: rmd_macro where "JJJ = rmd_line rmd_J 0x50a28be6"

section \<open>The compression function\<close>

text \<open>The calls in their order: macro, position of the first variable, index of the word, rotation.\<close>

definition compress_left :: "(rmd_macro \<times> nat \<times> nat \<times> nat) list" where
  "compress_left = [
     (FF, 0, 0, 11), (FF, 4, 1, 14), (FF, 3, 2, 15), (FF, 2, 3, 12), (FF, 1, 4, 5), (FF, 0, 5, 8), (FF, 4, 6, 7), (FF, 3, 7, 9),
     (FF, 2, 8, 11), (FF, 1, 9, 13), (FF, 0, 10, 14), (FF, 4, 11, 15), (FF, 3, 12, 6), (FF, 2, 13, 7), (FF, 1, 14, 9), (FF, 0, 15, 8),
     (GG, 4, 7, 7), (GG, 3, 4, 6), (GG, 2, 13, 8), (GG, 1, 1, 13), (GG, 0, 10, 11), (GG, 4, 6, 9), (GG, 3, 15, 7), (GG, 2, 3, 15),
     (GG, 1, 12, 7), (GG, 0, 0, 12), (GG, 4, 9, 15), (GG, 3, 5, 9), (GG, 2, 2, 11), (GG, 1, 14, 7), (GG, 0, 11, 13), (GG, 4, 8, 12),
     (HH, 3, 3, 11), (HH, 2, 10, 13), (HH, 1, 14, 6), (HH, 0, 4, 7), (HH, 4, 9, 14), (HH, 3, 15, 9), (HH, 2, 8, 13), (HH, 1, 1, 15),
     (HH, 0, 2, 14), (HH, 4, 7, 8), (HH, 3, 0, 13), (HH, 2, 6, 6), (HH, 1, 13, 5), (HH, 0, 11, 12), (HH, 4, 5, 7), (HH, 3, 12, 5),
     (II, 2, 1, 11), (II, 1, 9, 12), (II, 0, 11, 14), (II, 4, 10, 15), (II, 3, 0, 14), (II, 2, 8, 15), (II, 1, 12, 9), (II, 0, 4, 8),
     (II, 4, 13, 9), (II, 3, 3, 14), (II, 2, 7, 5), (II, 1, 15, 6), (II, 0, 14, 8), (II, 4, 5, 6), (II, 3, 6, 5), (II, 2, 2, 12),
     (JJ, 1, 4, 9), (JJ, 0, 0, 15), (JJ, 4, 5, 5), (JJ, 3, 9, 11), (JJ, 2, 7, 6), (JJ, 1, 12, 8), (JJ, 0, 2, 13), (JJ, 4, 10, 12),
     (JJ, 3, 14, 5), (JJ, 2, 1, 12), (JJ, 1, 3, 13), (JJ, 0, 8, 14), (JJ, 4, 11, 11), (JJ, 3, 6, 8), (JJ, 2, 15, 5), (JJ, 1, 13, 6)]"

definition compress_right :: "(rmd_macro \<times> nat \<times> nat \<times> nat) list" where
  "compress_right = [
     (JJJ, 0, 5, 8), (JJJ, 4, 14, 9), (JJJ, 3, 7, 9), (JJJ, 2, 0, 11), (JJJ, 1, 9, 13), (JJJ, 0, 2, 15), (JJJ, 4, 11, 15), (JJJ, 3, 4, 5),
     (JJJ, 2, 13, 7), (JJJ, 1, 6, 7), (JJJ, 0, 15, 8), (JJJ, 4, 8, 11), (JJJ, 3, 1, 14), (JJJ, 2, 10, 14), (JJJ, 1, 3, 12), (JJJ, 0, 12, 6),
     (III, 4, 6, 9), (III, 3, 11, 13), (III, 2, 3, 15), (III, 1, 7, 7), (III, 0, 0, 12), (III, 4, 13, 8), (III, 3, 5, 9), (III, 2, 10, 11),
     (III, 1, 14, 7), (III, 0, 15, 7), (III, 4, 8, 12), (III, 3, 12, 7), (III, 2, 4, 6), (III, 1, 9, 15), (III, 0, 1, 13), (III, 4, 2, 11),
     (HHH, 3, 15, 9), (HHH, 2, 5, 7), (HHH, 1, 1, 15), (HHH, 0, 3, 11), (HHH, 4, 7, 8), (HHH, 3, 14, 6), (HHH, 2, 6, 6), (HHH, 1, 9, 14),
     (HHH, 0, 11, 12), (HHH, 4, 8, 13), (HHH, 3, 12, 5), (HHH, 2, 2, 14), (HHH, 1, 10, 13), (HHH, 0, 0, 13), (HHH, 4, 4, 7), (HHH, 3, 13, 5),
     (GGG, 2, 8, 15), (GGG, 1, 6, 5), (GGG, 0, 4, 8), (GGG, 4, 1, 11), (GGG, 3, 3, 14), (GGG, 2, 11, 14), (GGG, 1, 15, 6), (GGG, 0, 0, 14),
     (GGG, 4, 5, 6), (GGG, 3, 12, 9), (GGG, 2, 2, 12), (GGG, 1, 13, 9), (GGG, 0, 9, 12), (GGG, 4, 7, 5), (GGG, 3, 10, 15), (GGG, 2, 14, 8),
     (FFF, 1, 12, 8), (FFF, 0, 15, 5), (FFF, 4, 10, 12), (FFF, 3, 4, 9), (FFF, 2, 1, 12), (FFF, 1, 5, 5), (FFF, 0, 8, 14), (FFF, 4, 7, 6),
     (FFF, 3, 6, 8), (FFF, 2, 2, 13), (FFF, 1, 13, 6), (FFF, 0, 14, 5), (FFF, 4, 0, 15), (FFF, 3, 3, 13), (FFF, 2, 9, 11), (FFF, 1, 11, 11)]"

definition run_calls :: "(rmd_macro \<times> nat \<times> nat \<times> nat) list \<Rightarrow> u32 list \<Rightarrow> u32 list \<Rightarrow> u32 list" where
  "run_calls calls X v = fold (\<lambda>(m, k, i, s). m k (X ! i) s) calls v"

definition compress :: "u32 list \<Rightarrow> u32 list \<Rightarrow> u32 list" where
  "compress MDbuf X =
     (let l = run_calls compress_left X MDbuf;
          r = run_calls compress_right X MDbuf;
          ddd = r ! 3 + (l ! 2 + MDbuf ! 1)
      in [ddd, MDbuf ! 2 + l ! 3 + r ! 4, MDbuf ! 3 + l ! 4 + r ! 0,
          MDbuf ! 4 + l ! 0 + r ! 1, MDbuf ! 0 + l ! 1 + r ! 2])"

section \<open>The hash\<close>

definition load_chunk :: "bytes \<Rightarrow> u32 list" where
  "load_chunk b = map (\<lambda>j. ucast (b ! (4 * j)) OR push_bit 8 (ucast (b ! (4 * j + 1)))
     OR push_bit 16 (ucast (b ! (4 * j + 2))) OR push_bit 24 (ucast (b ! (4 * j + 3)))) [0..<16]"

text \<open>The loop over whole chunks from offset \<open>off\<close>, with \<open>n\<close> left.\<close>

fun rmd_chunks :: "bytes \<Rightarrow> nat \<Rightarrow> nat \<Rightarrow> u32 list \<Rightarrow> u32 list option" where
  "rmd_chunks msg off 0 digest = Some digest"
| "rmd_chunks msg off (Suc n) digest = do {
     b \<leftarrow> mem_read msg off 64;
     rmd_chunks msg (off + 64) n (compress digest (load_chunk b))
   }"

text \<open>The rest of the message, from byte \<open>i\<close> of the last chunk, with \<open>n\<close> bytes left.\<close>

fun last_bytes :: "bytes \<Rightarrow> nat \<Rightarrow> nat \<Rightarrow> nat \<Rightarrow> u32 list \<Rightarrow> u32 list option" where
  "last_bytes msg off i 0 chunk = Some chunk"
| "last_bytes msg off i (Suc n) chunk = do {
     b \<leftarrow> mem_get msg (off + i);
     last_bytes msg off (Suc i) n
       (chunk[i div 4 := chunk ! (i div 4) XOR push_bit (8 * (i mod 4)) (ucast b)])
   }"

definition rmd160 :: "bytes \<Rightarrow> u32 \<Rightarrow> bytes \<Rightarrow> bytes option" where
  "rmd160 msg msg_len hash = do {
     let digest = [0x67452301, 0xefcdab89, 0x98badcfe, 0x10325476, 0xc3d2e1f0];
     let n = unat (drop_bit 6 msg_len);
     digest \<leftarrow> rmd_chunks msg 0 n digest;
     chunk \<leftarrow> last_bytes msg (64 * n) 0 (unat (msg_len AND 63)) (replicate 16 0);
     let k = unat (drop_bit 2 msg_len AND 15);
     let chunk = chunk[k := chunk ! k XOR push_bit (8 * unat (msg_len AND 3) + 7) 1];
     let (digest, chunk) = (if msg_len AND 63 > 55 then (compress digest chunk, replicate 16 0) else (digest, chunk));
     let chunk = chunk[14 := push_bit 3 msg_len];
     let chunk = chunk[15 := drop_bit 29 msg_len];
     let digest = compress digest chunk;
     mem_write hash 0 (concat (map (\<lambda>d. [ucast d, ucast (drop_bit 8 d), ucast (drop_bit 16 d), ucast (drop_bit 24 d)]) digest))
   }"

section \<open>The standard\<close>

text \<open>
  In round \<open>k\<close> the left line takes the words in the order \<open>rho ^^ k\<close> and the right line in the order
  \<open>rho ^^ k o pi\<close>. The rotation depends on the round and on the word only, for both lines alike. The functions
  of the five rounds are used in one order by the left line and in the opposite one by the right.
\<close>

definition rho :: "nat \<Rightarrow> nat" where
  "rho i = [7, 4, 13, 1, 10, 6, 15, 3, 12, 0, 9, 5, 2, 14, 11, 8] ! i"

definition word_left :: "nat \<Rightarrow> nat" where
  "word_left j = (rho ^^ (j div 16)) (j mod 16)"

definition word_right :: "nat \<Rightarrow> nat" where
  "word_right j = (rho ^^ (j div 16)) ((9 * (j mod 16) + 5) mod 16)"

definition rotations :: "nat list list" where
  "rotations =
    [[11, 14, 15, 12, 5, 8, 7, 9, 11, 13, 14, 15, 6, 7, 9, 8],
     [12, 13, 11, 15, 6, 9, 9, 7, 12, 15, 11, 13, 7, 8, 7, 7],
     [13, 15, 14, 11, 7, 7, 6, 8, 13, 14, 13, 12, 5, 5, 6, 9],
     [14, 11, 12, 14, 8, 6, 5, 5, 15, 12, 15, 14, 9, 9, 8, 6],
     [15, 12, 13, 13, 9, 5, 8, 6, 14, 11, 12, 11, 8, 6, 5, 5]]"

definition round_functions :: "(u32 \<Rightarrow> u32 \<Rightarrow> u32 \<Rightarrow> u32) list" where
  "round_functions = [\<lambda>x y z. x XOR y XOR z, \<lambda>x y z. (x AND y) OR (NOT x AND z), \<lambda>x y z. (x OR NOT y) XOR z,
     \<lambda>x y z. (x AND z) OR (y AND NOT z), \<lambda>x y z. x XOR (y OR NOT z)]"

definition constants_left :: "u32 list" where
  "constants_left = [0, 0x5a827999, 0x6ed9eba1, 0x8f1bbcdc, 0xa953fd4e]"

definition constants_right :: "u32 list" where
  "constants_right = [0x50a28be6, 0x5c4dd124, 0x6d703ef3, 0x7a6d76e9, 0]"

type_synonym chain5 = "u32 \<times> u32 \<times> u32 \<times> u32 \<times> u32"

fun standard_step :: "(u32 \<Rightarrow> u32 \<Rightarrow> u32 \<Rightarrow> u32) \<Rightarrow> u32 \<Rightarrow> u32 \<Rightarrow> nat \<Rightarrow> chain5 \<Rightarrow> chain5" where
  "standard_step f k x s (a, b, c, d, e) = (e, ROL (a + f b c d + x + k) s + e, b, ROL c 10, d)"

definition standard_line :: "(u32 \<Rightarrow> u32 \<Rightarrow> u32 \<Rightarrow> u32) list \<Rightarrow> u32 list \<Rightarrow> (nat \<Rightarrow> nat) \<Rightarrow> u32 list \<Rightarrow> nat \<Rightarrow> chain5 \<Rightarrow> chain5" where
  "standard_line fs ks sel X n =
     fold (\<lambda>j. standard_step (fs ! (j div 16)) (ks ! (j div 16)) (X ! sel j) (rotations ! (j div 16) ! sel j)) [0..<n]"

fun standard_block :: "chain5 \<Rightarrow> u32 list \<Rightarrow> chain5" where
  "standard_block (h0, h1, h2, h3, h4) X =
     (let (a, b, c, d, e) = standard_line round_functions constants_left word_left X 80 (h0, h1, h2, h3, h4);
          (a', b', c', d', e') = standard_line (rev round_functions) constants_right word_right X 80 (h0, h1, h2, h3, h4)
      in (h1 + c + d', h2 + d + e', h3 + e + a', h4 + a + b', h0 + b + c'))"

text \<open>The padded message: a one bit, zeros, and the length in bits, to a multiple of 64 bytes.\<close>

definition rmd_padded :: "bytes \<Rightarrow> bytes" where
  "rmd_padded m = m @ [0x80] @ replicate ((119 - length m mod 64) mod 64) 0 @ le_bytes 8 (8 * length m)"

definition words16 :: "bytes \<Rightarrow> u32 list" where
  "words16 b = map (\<lambda>j. le_word (take 4 (drop (4 * j) b))) [0..<16]"

definition rmd160_reference :: "bytes \<Rightarrow> bytes" where
  "rmd160_reference m =
     (let (h0, h1, h2, h3, h4) = foldl standard_block (0x67452301, 0xefcdab89, 0x98badcfe, 0x10325476, 0xc3d2e1f0)
        (map words16 (chunks 64 (rmd_padded m)))
      in concat (map (\<lambda>h. le_bytes 4 (unat h)) [h0, h1, h2, h3, h4]))"

section \<open>The steps\<close>

text \<open>The chaining values as a step sees them whose first variable is at position \<open>k\<close>.\<close>

definition regs_from :: "nat \<Rightarrow> u32 list \<Rightarrow> chain5" where
  "regs_from k v = (v ! k, v ! ((k + 1) mod 5), v ! ((k + 2) mod 5), v ! ((k + 3) mod 5), v ! ((k + 4) mod 5))"

lemma length_rmd_line [simp]: "length (rmd_line f c k x s v) = length v"
  by (simp add: rmd_line_def Let_def)

lemma rmd_line_step:
  assumes "length v = 5" "k < 5"
  shows "regs_from ((k + 4) mod 5) (rmd_line f c k x s v) = standard_step f c x s (regs_from k v)"
proof -
  obtain a b c' d e where v: "v = [a, b, c', d, e]" using assms(1) by (auto simp: length_Suc_conv eval_nat_numeral)
  from assms(2) consider "k = 0" | "k = 1" | "k = 2" | "k = 3" | "k = 4" by linarith
  then show ?thesis
    by cases (simp_all add: v regs_from_def rmd_line_def Let_def numeral_2_eq_2 [symmetric] numeral_3_eq_3 [symmetric] add.assoc)
qed

text \<open>A line of the code, as calls of the common macro body.\<close>

definition calls_of :: "(u32 \<Rightarrow> u32 \<Rightarrow> u32 \<Rightarrow> u32) list \<Rightarrow> u32 list \<Rightarrow> (nat \<Rightarrow> nat) \<Rightarrow> nat \<Rightarrow> (rmd_macro \<times> nat \<times> nat \<times> nat) list" where
  "calls_of fs ks sel n = map (\<lambda>j. (rmd_line (fs ! (j div 16)) (ks ! (j div 16)), (5 - j mod 5) mod 5, sel j,
     rotations ! (j div 16) ! sel j)) [0..<n]"

lemma run_calls_line:
  assumes "length v = 5"
  shows "length (run_calls (calls_of fs ks sel n) X v) = 5
    \<and> regs_from ((5 - n mod 5) mod 5) (run_calls (calls_of fs ks sel n) X v) = standard_line fs ks sel X n (regs_from 0 v)"
proof (induction n)
  case 0
  then show ?case using assms by (simp add: run_calls_def calls_of_def standard_line_def)
next
  case (Suc n)
  let ?w = "run_calls (calls_of fs ks sel n) X v" and ?k = "(5 - n mod 5) mod 5"
  have w: "length ?w = 5" "regs_from ?k ?w = standard_line fs ks sel X n (regs_from 0 v)" using Suc by simp_all
  have r: "run_calls (calls_of fs ks sel (Suc n)) X v
      = rmd_line (fs ! (n div 16)) (ks ! (n div 16)) ?k (X ! sel n) (rotations ! (n div 16) ! sel n) ?w"
    by (simp add: run_calls_def calls_of_def)
  have k: "?k < 5" "(5 - Suc n mod 5) mod 5 = (?k + 4) mod 5"
  proof -
    have "n mod 5 < 5" by simp
    then consider "n mod 5 = 0" | "n mod 5 = 1" | "n mod 5 = 2" | "n mod 5 = 3" | "n mod 5 = 4" by linarith
    then show "(5 - Suc n mod 5) mod 5 = (?k + 4) mod 5" by cases (simp_all add: mod_Suc)
  qed simp
  show ?case
    using rmd_line_step [OF w(1) k(1)] w unfolding r k(2) by (simp add: standard_line_def)
qed

definition call_shape :: "(nat \<Rightarrow> nat) \<Rightarrow> (nat \<times> nat \<times> nat \<times> nat) list" where
  "call_shape sel = map (\<lambda>j. (j div 16, (5 - j mod 5) mod 5, sel j, rotations ! (j div 16) ! sel j)) [0..<80]"

lemma calls_of_shape: "calls_of fs ks sel 80 = map (\<lambda>(q, k, i, s). (rmd_line (fs ! q) (ks ! q), k, i, s)) (call_shape sel)"
  by (simp only: calls_of_def call_shape_def list.map_comp comp_def prod.case)

lemma call_shapes:
  "call_shape word_left = [
      (0, 0, 0, 11), (0, 4, 1, 14), (0, 3, 2, 15), (0, 2, 3, 12), (0, 1, 4, 5), (0, 0, 5, 8), (0, 4, 6, 7), (0, 3, 7, 9),
      (0, 2, 8, 11), (0, 1, 9, 13), (0, 0, 10, 14), (0, 4, 11, 15), (0, 3, 12, 6), (0, 2, 13, 7), (0, 1, 14, 9), (0, 0, 15, 8),
      (1, 4, 7, 7), (1, 3, 4, 6), (1, 2, 13, 8), (1, 1, 1, 13), (1, 0, 10, 11), (1, 4, 6, 9), (1, 3, 15, 7), (1, 2, 3, 15),
      (1, 1, 12, 7), (1, 0, 0, 12), (1, 4, 9, 15), (1, 3, 5, 9), (1, 2, 2, 11), (1, 1, 14, 7), (1, 0, 11, 13), (1, 4, 8, 12),
      (2, 3, 3, 11), (2, 2, 10, 13), (2, 1, 14, 6), (2, 0, 4, 7), (2, 4, 9, 14), (2, 3, 15, 9), (2, 2, 8, 13), (2, 1, 1, 15),
      (2, 0, 2, 14), (2, 4, 7, 8), (2, 3, 0, 13), (2, 2, 6, 6), (2, 1, 13, 5), (2, 0, 11, 12), (2, 4, 5, 7), (2, 3, 12, 5),
      (3, 2, 1, 11), (3, 1, 9, 12), (3, 0, 11, 14), (3, 4, 10, 15), (3, 3, 0, 14), (3, 2, 8, 15), (3, 1, 12, 9), (3, 0, 4, 8),
      (3, 4, 13, 9), (3, 3, 3, 14), (3, 2, 7, 5), (3, 1, 15, 6), (3, 0, 14, 8), (3, 4, 5, 6), (3, 3, 6, 5), (3, 2, 2, 12),
      (4, 1, 4, 9), (4, 0, 0, 15), (4, 4, 5, 5), (4, 3, 9, 11), (4, 2, 7, 6), (4, 1, 12, 8), (4, 0, 2, 13), (4, 4, 10, 12),
      (4, 3, 14, 5), (4, 2, 1, 12), (4, 1, 3, 13), (4, 0, 8, 14), (4, 4, 11, 11), (4, 3, 6, 8), (4, 2, 15, 5), (4, 1, 13, 6)]"
  "call_shape word_right = [
      (0, 0, 5, 8), (0, 4, 14, 9), (0, 3, 7, 9), (0, 2, 0, 11), (0, 1, 9, 13), (0, 0, 2, 15), (0, 4, 11, 15), (0, 3, 4, 5),
      (0, 2, 13, 7), (0, 1, 6, 7), (0, 0, 15, 8), (0, 4, 8, 11), (0, 3, 1, 14), (0, 2, 10, 14), (0, 1, 3, 12), (0, 0, 12, 6),
      (1, 4, 6, 9), (1, 3, 11, 13), (1, 2, 3, 15), (1, 1, 7, 7), (1, 0, 0, 12), (1, 4, 13, 8), (1, 3, 5, 9), (1, 2, 10, 11),
      (1, 1, 14, 7), (1, 0, 15, 7), (1, 4, 8, 12), (1, 3, 12, 7), (1, 2, 4, 6), (1, 1, 9, 15), (1, 0, 1, 13), (1, 4, 2, 11),
      (2, 3, 15, 9), (2, 2, 5, 7), (2, 1, 1, 15), (2, 0, 3, 11), (2, 4, 7, 8), (2, 3, 14, 6), (2, 2, 6, 6), (2, 1, 9, 14),
      (2, 0, 11, 12), (2, 4, 8, 13), (2, 3, 12, 5), (2, 2, 2, 14), (2, 1, 10, 13), (2, 0, 0, 13), (2, 4, 4, 7), (2, 3, 13, 5),
      (3, 2, 8, 15), (3, 1, 6, 5), (3, 0, 4, 8), (3, 4, 1, 11), (3, 3, 3, 14), (3, 2, 11, 14), (3, 1, 15, 6), (3, 0, 0, 14),
      (3, 4, 5, 6), (3, 3, 12, 9), (3, 2, 2, 12), (3, 1, 13, 9), (3, 0, 9, 12), (3, 4, 7, 5), (3, 3, 10, 15), (3, 2, 14, 8),
      (4, 1, 12, 8), (4, 0, 15, 5), (4, 4, 10, 12), (4, 3, 4, 9), (4, 2, 1, 12), (4, 1, 5, 5), (4, 0, 8, 14), (4, 4, 7, 6),
      (4, 3, 6, 8), (4, 2, 2, 13), (4, 1, 13, 6), (4, 0, 14, 5), (4, 4, 0, 15), (4, 3, 3, 13), (4, 2, 9, 11), (4, 1, 11, 11)]"
  by code_simp+

lemma round_functions_eq: "round_functions = [rmd_F, rmd_G, rmd_H, rmd_IQ, rmd_J]"
  by (simp add: round_functions_def fun_eq_iff rmd_F_def rmd_G_def rmd_H_def rmd_IQ_def rmd_J_def)

lemma compress_calls:
  "compress_left = calls_of round_functions constants_left word_left 80"
  "compress_right = calls_of (rev round_functions) constants_right word_right 80"
  unfolding calls_of_shape call_shapes
  by (simp_all add: compress_left_def compress_right_def round_functions_eq constants_left_def constants_right_def
      FF_def GG_def HH_def II_def JJ_def FFF_def GGG_def HHH_def III_def JJJ_def)

fun chain_list :: "chain5 \<Rightarrow> u32 list" where
  "chain_list (a, b, c, d, e) = [a, b, c, d, e]"

lemma regs_from_chain [simp]: "regs_from 0 (chain_list h) = h"
  by (cases h) (simp add: regs_from_def)

lemma compress_standard: "compress (chain_list h) X = chain_list (standard_block h X)"
proof -
  define l where "l = run_calls compress_left X (chain_list h)"
  define r where "r = run_calls compress_right X (chain_list h)"
  have len: "length (chain_list h) = 5" by (cases h) simp
  have l: "length l = 5" "regs_from 0 l = standard_line round_functions constants_left word_left X 80 h"
    using run_calls_line [OF len, of round_functions constants_left word_left 80 X] by (simp_all add: l_def compress_calls)
  have r: "length r = 5" "regs_from 0 r = standard_line (rev round_functions) constants_right word_right X 80 h"
    using run_calls_line [OF len, of "rev round_functions" constants_right word_right 80 X] by (simp_all add: r_def compress_calls)
  have c: "compress (chain_list h) X = (let ddd = r ! 3 + (l ! 2 + chain_list h ! 1)
      in [ddd, chain_list h ! 2 + l ! 3 + r ! 4, chain_list h ! 3 + l ! 4 + r ! 0,
          chain_list h ! 4 + l ! 0 + r ! 1, chain_list h ! 0 + l ! 1 + r ! 2])"
    unfolding compress_def l_def r_def Let_def ..
  obtain h0 h1 h2 h3 h4 where h: "h = (h0, h1, h2, h3, h4)" by (cases h) auto
  have "standard_block h X = (h1 + l ! 2 + r ! 3, h2 + l ! 3 + r ! 4, h3 + l ! 4 + r ! 0, h4 + l ! 0 + r ! 1, h0 + l ! 1 + r ! 2)"
    unfolding h standard_block.simps l(2) [unfolded h, symmetric] r(2) [unfolded h, symmetric]
    by (simp add: regs_from_def numeral_2_eq_2)
  then show ?thesis unfolding c by (simp add: h Let_def ac_simps)
qed

section \<open>Words and padding\<close>

lemma length_words16 [simp]: "length (words16 b) = 16"
  by (simp add: words16_def)

lemma nth_words16 [simp]: "w < 16 \<Longrightarrow> words16 b ! w = le_word (take 4 (drop (4 * w) b))"
  by (simp add: words16_def)

lemma words16_bit:
  assumes "length b = 64" "w < 16" "q < 32"
  shows "bit (words16 b ! w) q = bit (b ! (4 * w + q div 8)) (q mod 8)"
  using assms by (auto simp: le_word_bit nth_append less_mult_imp_div_less)

lemma le_word4: "le_word [a, b, c, d] = (ucast a OR push_bit 8 (ucast b) OR push_bit 16 (ucast c) OR push_bit 24 (ucast d) :: u32)"
proof (rule bit_word_eqI)
  fix n
  assume "n < LENGTH(32)"
  then have n: "n < 32" by simp
  have hi: "\<not> bit (x :: u8) i" if "8 \<le> i" for x i using bit_imp_le_length [of x i] that by auto
  from n consider "n < 8" | "8 \<le> n" "n < 16" | "16 \<le> n" "n < 24" | "24 \<le> n" by linarith
  then show "bit (le_word [a, b, c, d] :: u32) n
      = bit (ucast a OR push_bit 8 (ucast b) OR push_bit 16 (ucast c) OR push_bit 24 (ucast d) :: u32) n"
  proof cases
    case 1
    then show ?thesis by (simp add: le_word_bit bit_simps)
  next
    case 2
    then have d: "n div 8 = 1" by (intro div_nat_eqI) simp_all
    then have "n mod 8 = n - 8" using mult_div_mod_eq [of 8 n] by linarith
    with d show ?thesis using 2 hi by (auto simp: le_word_bit bit_simps)
  next
    case 3
    then have d: "n div 8 = 2" by (intro div_nat_eqI) simp_all
    then have "n mod 8 = n - 16" using mult_div_mod_eq [of 8 n] by linarith
    with d show ?thesis using 3 hi by (auto simp: le_word_bit bit_simps)
  next
    case 4
    then have d: "n div 8 = 3" using n by (intro div_nat_eqI) simp_all
    then have "n mod 8 = n - 24" using mult_div_mod_eq [of 8 n] by linarith
    with d show ?thesis using 4 n hi by (auto simp: le_word_bit bit_simps)
  qed
qed

lemma load_chunk_words:
  assumes "length b = 64"
  shows "load_chunk b = words16 b"
proof (rule nth_equalityI)
  show "length (load_chunk b) = length (words16 b)" by (simp add: load_chunk_def)
next
  fix j
  assume "j < length (load_chunk b)"
  then have j: "j < 16" by (simp add: load_chunk_def)
  then have "take 4 (drop (4 * j) b) = [b ! (4 * j), b ! (4 * j + 1), b ! (4 * j + 2), b ! (4 * j + 3)]"
    using assms by (intro nth_equalityI) (auto simp: nth_Cons' numeral_eq_Suc less_Suc_eq)
  with j show "load_chunk b ! j = words16 b ! j" by (simp add: load_chunk_def le_word4)
qed

lemma words16_xor:
  assumes "length B = 64" "i < 64"
  shows "(words16 B)[i div 4 := words16 B ! (i div 4) XOR push_bit (8 * (i mod 4)) (ucast (b :: u8))] = words16 (B[i := B ! i XOR b])"
proof (rule nth_equalityI)
  fix w
  assume "w < length ((words16 B)[i div 4 := words16 B ! (i div 4) XOR push_bit (8 * (i mod 4)) (ucast b)])"
  then have w: "w < 16" by simp
  show "(words16 B)[i div 4 := words16 B ! (i div 4) XOR push_bit (8 * (i mod 4)) (ucast b)] ! w = words16 (B[i := B ! i XOR b]) ! w"
  proof (rule bit_word_eqI)
    fix q
    assume "q < LENGTH(32)"
    then have q: "q < 32" by simp
    have hi: "\<not> bit b k" if "8 \<le> k" for k using bit_imp_le_length [of b k] that by auto
    have r: "bit (words16 (B[i := B ! i XOR b]) ! w) q = bit (B[i := B ! i XOR b] ! (4 * w + q div 8)) (q mod 8)"
      using words16_bit [of "B[i := B ! i XOR b]" w q] assms(1) w q by simp
    have l: "bit (words16 B ! w) q = bit (B ! (4 * w + q div 8)) (q mod 8)" by (rule words16_bit [OF assms(1) w q])
    have m: "4 * w + q div 8 = i \<longleftrightarrow> w = i div 4 \<and> q div 8 = i mod 4"
    proof -
      have "q div 8 < 4" using q by auto
      then show ?thesis by (metis div_mult_self4 mod_mult_self4 mult.commute mult_div_mod_eq
          div_less mod_less add.commute add_cancel_right_left zero_neq_numeral)
    qed
    have p: "bit (push_bit (8 * (i mod 4)) (ucast b) :: u32) q \<longleftrightarrow> q div 8 = i mod 4 \<and> bit b (q mod 8)"
    proof -
      have e: "q = 8 * (q div 8) + q mod 8" by simp
      consider "q div 8 < i mod 4" | "q div 8 = i mod 4" | "i mod 4 < q div 8" by linarith
      then show ?thesis
      proof cases
        case 1
        moreover have "q mod 8 < 8" by simp
        ultimately have "q < 8 * (i mod 4)" using e by linarith
        with 1 show ?thesis by (simp add: bit_simps)
      next
        case 2
        then have "8 * (i mod 4) \<le> q" "q - 8 * (i mod 4) = q mod 8" using e by linarith+
        with 2 q show ?thesis by (auto simp: bit_simps)
      next
        case 3
        then have "8 \<le> q - 8 * (i mod 4)" using e by linarith
        with 3 hi show ?thesis by (auto simp: bit_simps)
      qed
    qed
    show "bit ((words16 B)[i div 4 := words16 B ! (i div 4) XOR push_bit (8 * (i mod 4)) (ucast b)] ! w) q
        = bit (words16 (B[i := B ! i XOR b]) ! w) q"
    proof (cases "w = i div 4")
      case True
      then have "bit ((words16 B)[i div 4 := words16 B ! (i div 4) XOR push_bit (8 * (i mod 4)) (ucast b)] ! w) q
          = (bit (words16 B ! w) q \<noteq> bit (push_bit (8 * (i mod 4)) (ucast b) :: u32) q)"
        using w by (simp add: bit_xor_iff del: nth_words16)
      then show ?thesis using r l m p True assms by (cases "q div 8 = i mod 4") (auto simp: bit_xor_iff nth_list_update)
    next
      case False
      then show ?thesis using r l m assms w by (simp add: nth_list_update del: nth_words16)
    qed
  qed
qed simp

lemma last_bytes_words:
  assumes "off + i + n \<le> length msg" "i + n \<le> 64"
  shows "last_bytes msg off i n (words16 (take i (drop off msg) @ replicate (64 - i) 0))
    = Some (words16 (take (i + n) (drop off msg) @ replicate (64 - (i + n)) 0))"
  using assms
proof (induction n arbitrary: i)
  case (Suc n)
  let ?B = "take i (drop off msg) @ replicate (64 - i) 0"
  have l: "length ?B = 64" "i < 64" "?B ! i = 0" "length (take i (drop off msg)) = i" using Suc.prems by (simp_all add: nth_append)
  have "replicate (64 - i) (0 :: u8) = 0 # replicate (64 - Suc i) 0" using l(2) by (metis Suc_diff_Suc replicate_Suc)
  then have "?B[i := msg ! (off + i)] = take i (drop off msg) @ msg ! (off + i) # replicate (64 - Suc i) 0"
    using l(4) by (simp add: list_update_append)
  also have "\<dots> = take (Suc i) (drop off msg) @ replicate (64 - Suc i) 0"
    using Suc.prems by (simp add: take_Suc_conv_app_nth)
  finally have b: "?B[i := ?B ! i XOR msg ! (off + i)] = take (Suc i) (drop off msg) @ replicate (64 - Suc i) 0"
    using l(3) by simp
  have "mem_get msg (off + i) = Some (msg ! (off + i))" using Suc.prems by (simp add: mem_get_def)
  then show ?case
    using Suc.IH [of "Suc i"] Suc.prems words16_xor [OF l(1,2), of "msg ! (off + i)"] unfolding b by simp
qed simp

lemma rmd_chunks_standard:
  assumes "off + 64 * n \<le> length msg"
  shows "rmd_chunks msg off n (chain_list h)
    = Some (chain_list (foldl standard_block h (map words16 (chunks 64 (take (64 * n) (drop off msg))))))"
  using assms
proof (induction n arbitrary: off h)
  case (Suc n)
  let ?b = "take 64 (drop off msg)"
  have r: "mem_read msg off 64 = Some ?b" "length ?b = 64" using Suc.prems by (simp_all add: mem_read_def)
  have "take (64 * Suc n) (drop off msg) = ?b @ take (64 * n) (drop (off + 64) msg)"
    by (simp add: take_add add.commute)
  moreover have "chunks 64 (?b @ take (64 * n) (drop (off + 64) msg)) = ?b # chunks 64 (take (64 * n) (drop (off + 64) msg))"
    using r(2) by (subst chunks.simps) auto
  ultimately show ?case
    using Suc.IH [of "off + 64" "standard_block h (words16 ?b)"] Suc.prems r load_chunk_words [OF r(2)] compress_standard by simp
qed simp

lemma chunks_append: "length xs = 64 * n \<Longrightarrow> chunks 64 (xs @ ys) = chunks 64 xs @ chunks 64 ys"
proof (induction n arbitrary: xs)
  case (Suc n)
  then have "chunks 64 (drop 64 xs @ ys) = chunks 64 (drop 64 xs) @ chunks 64 ys" by simp
  moreover have "chunks 64 (xs @ ys) = take 64 xs # chunks 64 (drop 64 xs @ ys)" "chunks 64 xs = take 64 xs # chunks 64 (drop 64 xs)"
    using Suc.prems by (subst chunks.simps; auto)+
  ultimately show ?case by simp
qed simp

lemma chunks_one: "length x = 64 \<Longrightarrow> chunks 64 x = [x]"
  by (subst chunks.simps) auto

text \<open>The last words of the last chunk are the length in bits.\<close>

lemma words16_length:
  assumes "length B = 56" "length Z = 8"
  shows "(words16 (B @ Z))[14 := of_nat k, 15 := of_nat (k div 2 ^ 32)] = words16 (B @ le_bytes 8 k)"
proof (rule nth_equalityI)
  fix w
  assume "w < length ((words16 (B @ Z))[14 := of_nat k, 15 := of_nat (k div 2 ^ 32)])"
  then have "w < 16" by simp
  have le: "le_bytes 8 k = le_bytes 4 k @ le_bytes 4 (k div 2 ^ 32)" using le_bytes_add [of 4 4 k] by simp
  have lw: "(le_word (le_bytes 4 x) :: u32) = of_nat x" for x
    unfolding le_word_def le_nat_le_bytes by (simp add: word_of_nat_eq_iff take_bit_eq_mod)
  from \<open>w < 16\<close> consider "w < 14" | "w = 14" | "w = 15" by linarith
  then show "(words16 (B @ Z))[14 := of_nat k, 15 := of_nat (k div 2 ^ 32)] ! w = words16 (B @ le_bytes 8 k) ! w"
    by cases (use assms in \<open>simp_all add: le lw del: le_bytes_numeral\<close>)
qed simp

lemma msg_len_words:
  fixes n :: u32
  shows "push_bit 3 n = of_nat (8 * unat n)" "drop_bit 29 n = of_nat (8 * unat n div 2 ^ 32)"
    "unat (n AND 63) = unat n mod 64" "unat (n AND 3) = unat n mod 4" "unat (drop_bit 2 n AND 15) = unat n div 4 mod 16"
    "unat (drop_bit 6 n) = unat n div 64" "n AND 63 > 55 \<longleftrightarrow> 55 < unat n mod 64"
proof -
  show "push_bit 3 n = of_nat (8 * unat n)" by (simp add: push_bit_eq_mult)
  have m: "63 = (mask 6 :: u32)" "3 = (mask 2 :: u32)" "15 = (mask 4 :: u32)" by (simp_all add: mask_eq_exp_minus_1)
  show a: "unat (n AND 63) = unat n mod 64"
    unfolding m take_bit_eq_mask [symmetric] by (simp only: unsigned_take_bit_eq, simp only: take_bit_eq_mod, simp)
  show "unat (n AND 3) = unat n mod 4"
    unfolding m take_bit_eq_mask [symmetric] by (simp only: unsigned_take_bit_eq, simp only: take_bit_eq_mod, simp)
  show "unat (drop_bit 2 n AND 15) = unat n div 4 mod 16"
    unfolding m take_bit_eq_mask [symmetric] using unat_bound [of n] by (simp only: unsigned_take_bit_eq unsigned_drop_bit_eq, simp only: take_bit_eq_mod drop_bit_eq_div, simp)
  show "unat (drop_bit 6 n) = unat n div 64" using unat_bound [of n] by (simp only: unsigned_drop_bit_eq, simp only: drop_bit_eq_div take_bit_eq_mod, simp)
  show "n AND 63 > 55 \<longleftrightarrow> 55 < unat n mod 64" unfolding word_less_nat_alt a by simp
  have "unat (drop_bit 29 n) = 8 * unat n div 2 ^ 32" using unat_bound [of n] by (simp only: unsigned_drop_bit_eq, simp only: drop_bit_eq_div take_bit_eq_mod, simp)
  then show "drop_bit 29 n = of_nat (8 * unat n div 2 ^ 32)" by (metis of_nat_unat ucast_id)
qed

text \<open>The digest as bytes.\<close>

lemma mem_write_front: "length x = n \<Longrightarrow> n \<le> length buf \<Longrightarrow> mem_write buf 0 x = Some (x @ drop n buf)"
  by (simp add: mem_write_def)

lemma le_nat_zeros: "le_nat (replicate n 0) = 0"
  by (induction n) simp_all

lemma digest_bytes: "[ucast d, ucast (drop_bit 8 d), ucast (drop_bit 16 d), ucast (drop_bit 24 d)] = le_bytes 4 (unat (d :: u32))"
proof -
  have u: "ucast (drop_bit k d) = (of_nat (unat d div 2 ^ k) :: u8)" for k
  proof -
    have "unat (drop_bit k d) = unat d div 2 ^ k"
      using unat_bound [of d] by (simp only: unsigned_drop_bit_eq, simp only: drop_bit_eq_div take_bit_eq_mod, simp)
    then show ?thesis by (metis of_nat_unat)
  qed
  have b: "(of_nat (x mod 256) :: u8) = of_nat x" for x by (simp add: word_of_nat_eq_iff take_bit_eq_mod)
  show ?thesis
    using u [of 0] u [of 8] u [of 16] u [of 24] by (simp add: b div_mult2_eq [symmetric])
qed

lemma rmd_padded_chunks:
  fixes m :: bytes
  defines "n \<equiv> length m div 64" and "r \<equiv> length m mod 64"
  defines "t \<equiv> drop (64 * n) m"
  shows "chunks 64 (rmd_padded m) = chunks 64 (take (64 * n) m)
    @ (if r \<le> 55 then [t @ [0x80] @ replicate (55 - r) 0 @ le_bytes 8 (8 * length m)]
       else [t @ [0x80] @ replicate (63 - r) 0, replicate 56 0 @ le_bytes 8 (8 * length m)])"
proof -
  have l: "length m = 64 * n + r" "r < 64" "length t = r" "length (take (64 * n) m) = 64 * n" by (simp_all add: n_def r_def t_def minus_mult_div_eq_mod)
  have p: "rmd_padded m = take (64 * n) m @ (t @ [0x80] @ replicate ((119 - r) mod 64) 0 @ le_bytes 8 (8 * length m))"
    unfolding rmd_padded_def r_def [symmetric] t_def by simp
  show ?thesis
  proof (cases "r \<le> 55")
    case True
    then have z: "(119 - r) mod 64 = 55 - r" by (simp add: le_mod_geq)
    show ?thesis unfolding p chunks_append [OF l(4)] z using True l(3)
      by (simp add: chunks_one del: le_bytes_numeral)
  next
    case False
    then have z: "(119 - r) mod 64 = (63 - r) + 56" using l(2) by simp
    have "chunks 64 ((t @ [0x80] @ replicate (63 - r) 0) @ (replicate 56 0 @ le_bytes 8 (8 * length m)))
        = [t @ [0x80] @ replicate (63 - r) 0, replicate 56 0 @ le_bytes 8 (8 * length m)]"
      using False l(2,3) by (subst chunks_append [of _ 1]) (simp_all add: chunks_one del: le_bytes_numeral)
    then show ?thesis unfolding p chunks_append [OF l(4)] z replicate_add using False by simp
  qed
qed

text \<open>The 16 words of the last block: the bytes that are left, the mark 0x80 after them, then zeros.\<close>

lemma rmd160_marked:
  fixes m :: "u8 list"
  defines "n \<equiv> length m div 64" and "r \<equiv> length m mod 64"
  shows "length m div 4 mod 16 = r div 4"
    and "last_bytes m (64 * n) 0 r (replicate 16 0) = Some (words16 (drop (64 * n) m @ replicate (64 - r) 0))"
    and "(words16 (drop (64 * n) m @ replicate (64 - r) 0))[r div 4 :=
        words16 (drop (64 * n) m @ replicate (64 - r) 0) ! (r div 4) XOR push_bit (8 * (length m mod 4) + 7) 1]
      = words16 (drop (64 * n) m @ [0x80] @ replicate (63 - r) 0)"
proof -
  let ?B = "drop (64 * n) m @ replicate (64 - r) 0"
  have l: "length m = 64 * n + r" "r < 64" "length (drop (64 * n) m) = r"
    by (simp_all add: n_def r_def minus_mult_div_eq_mod)
  have "length m div 4 = r div 4 + 16 * n" using l(1) by simp
  moreover have "r div 4 < 16" using l(2) by simp
  ultimately show "length m div 4 mod 16 = r div 4" by simp
  have "words16 (replicate 64 0) = replicate 16 0"
    by (rule nth_equalityI) (simp_all add: le_word_def min_def le_nat_zeros)
  then show "last_bytes m (64 * n) 0 r (replicate 16 0) = Some (words16 ?B)"
    using last_bytes_words [of "64 * n" 0 r m] l by simp
  have "64 - r = Suc (63 - r)" using l(2) by simp
  then have "?B = drop (64 * n) m @ 0 # replicate (63 - r) 0" by simp
  then have B: "?B[r := ?B ! r XOR 0x80] = drop (64 * n) m @ [0x80] @ replicate (63 - r) 0"
    using l(2,3) by (simp add: nth_append list_update_append)
  have "length m mod 4 = r mod 4" unfolding r_def by (simp add: mod_mod_cancel)
  then have "(push_bit (8 * (length m mod 4) + 7) 1 :: u32) = push_bit (8 * (r mod 4)) (ucast (0x80 :: u8))"
    using push_bit_push_bit [of "8 * (r mod 4)" 7 "1 :: u32"] by simp
  then show "(words16 ?B)[r div 4 := words16 ?B ! (r div 4) XOR push_bit (8 * (length m mod 4) + 7) 1]
      = words16 (drop (64 * n) m @ [0x80] @ replicate (63 - r) 0)"
    using words16_xor [of ?B r "0x80"] l(2,3) B by simp
qed

text \<open>The function is the standard's function on one last block, or on two where the mark leaves no room for the length.\<close>

lemma rmd160_blocks:
  fixes m :: "u8 list"
  defines "n \<equiv> length m div 64" and "r \<equiv> length m mod 64"
  defines "h1 \<equiv> foldl standard_block (0x67452301, 0xefcdab89, 0x98badcfe, 0x10325476, 0xc3d2e1f0)
      (map words16 (chunks 64 (take (64 * n) m)))"
  assumes "length m < 2 ^ 32"
  shows "rmd160 m (of_nat (length m)) hash = mem_write hash 0 (concat (map (\<lambda>d. le_bytes 4 (unat d)) (chain_list (
      if 55 < r then standard_block (standard_block h1 (words16 (drop (64 * n) m @ [0x80] @ replicate (63 - r) 0)))
        ((replicate 16 0)[14 := of_nat (8 * length m), 15 := of_nat (8 * length m div 2 ^ 32)])
      else standard_block h1 ((words16 (drop (64 * n) m @ [0x80] @ replicate (63 - r) 0))
        [14 := of_nat (8 * length m), 15 := of_nat (8 * length m div 2 ^ 32)])))))"
proof -
  let ?len = "of_nat (length m) :: u32"
  have u: "unat ?len = length m" using assms(4) by (simp add: unat_of_nat)
  have full: "rmd_chunks m 0 n [0x67452301, 0xefcdab89, 0x98badcfe, 0x10325476, 0xc3d2e1f0] = Some (chain_list h1)"
    using rmd_chunks_standard [of 0 n m "(0x67452301, 0xefcdab89, 0x98badcfe, 0x10325476, 0xc3d2e1f0)"] by (simp add: h1_def n_def)
  note marked = rmd160_marked [of m, folded n_def r_def]
  note w = msg_len_words [of ?len, unfolded u, folded n_def r_def, unfolded marked(1)]
  show ?thesis
    unfolding rmd160_def Let_def w full Option.bind.bind_lunit marked(2,3)
    by (cases "55 < r") (simp_all add: compress_standard digest_bytes)
qed

lemma rmd160_correct:
  assumes "length m < 2 ^ 32" "20 \<le> length hash"
  shows "rmd160 m (of_nat (length m)) hash = Some (rmd160_reference m @ drop 20 hash)"
proof -
  define n where "n = length m div 64"
  define r where "r = length m mod 64"
  define t where "t = drop (64 * n) m"
  define h0 :: chain5 where "h0 = (0x67452301, 0xefcdab89, 0x98badcfe, 0x10325476, 0xc3d2e1f0)"
  let ?hash = "\<lambda>h. concat (map (\<lambda>d. le_bytes 4 (unat d)) (chain_list h))"
  have t: "length t = r" by (simp add: n_def r_def t_def minus_mult_div_eq_mod)
  have zeros: "replicate 16 0 = words16 (replicate 56 0 @ replicate 8 0)"
    by (rule nth_equalityI) (simp_all add: le_word_def min_def le_nat_zeros flip: replicate_add)
  have blocks: "rmd160_reference m = ?hash (foldl standard_block h0 (map words16 (chunks 64 (rmd_padded m))))"
    unfolding rmd160_reference_def h0_def by (simp only: Let_def chain_list.simps split: prod.split) simp
  have written: "mem_write hash 0 (?hash h) = Some (?hash h @ drop 20 hash)" for h
    by (rule mem_write_front [OF _ assms(2)]) (cases h, simp)
  note code = rmd160_blocks [OF assms(1), folded n_def r_def, folded t_def h0_def] rmd_padded_chunks [of m, folded n_def r_def, folded t_def]
  show ?thesis
  proof (cases "55 < r")
    case True
    show ?thesis
      unfolding code blocks written zeros
      using True words16_length [of "replicate 56 0" "replicate 8 0" "8 * length m"] by simp
  next
    case False
    have "t @ [0x80] @ replicate (63 - r) 0 = (t @ [0x80] @ replicate (55 - r) 0) @ replicate 8 0"
      using False by (simp flip: replicate_add)
    then show ?thesis
      unfolding code blocks written
      using False t words16_length [of "t @ [0x80] @ replicate (55 - r) 0" "replicate 8 0" "8 * length m"] by simp
  qed
qed

text \<open>C36: RIPEMD-160. For a message whose length is passed with it, \<open>rmd160\<close> with its 160 unrolled steps over
  rotating variables, its padding on the fly and its byte order writes the 20 bytes of the standard's hash
  and leaves what follows in the buffer.\<close>

theorem rmd160_standard:
  assumes "length m < 2 ^ 32" "20 \<le> length hash"
  shows "rmd160 m (of_nat (length m)) hash = Some (rmd160_reference m @ drop 20 hash)"
  using assms by (rule rmd160_correct)

lemma rmd160_standard_witness:
  "rmd160 [97, 98, 99] 3 (replicate 20 0) = Some (rmd160_reference [97, 98, 99])"
  using rmd160_standard [of "[97, 98, 99]" "replicate 20 0"] by simp

end
