(* ===== verification/RadioTypes.thy ===== *)
theory RadioTypes
  imports Prelude
begin

text \<open>
  The vocabulary of the radio protocol: the enumerations of \<open>serdog/radioDogeTypes.h\<close> as datatypes
  with the function that gives each enumerator its wire value, and the size constants of
  \<open>serdog/serdog.h\<close> and \<open>serdog/include/constants.h\<close>. A byte that arrives from the wire need not
  be an enumerator, so received bytes stay bytes and are compared with these values, as the
  \<open>switch\<close> statements of the code do.
\<close>

section \<open>Enumerations\<close>

datatype serialCommand =
    NONE | NODE_ADDRESS_GET | NODE_ADDRESS_SET | PING_REQUEST | MESSAGE_REQUEST
  | HARDWARE_INFO | BROADCAST_MESSAGE | DISPLAY_CONTROL | HOST_FORMED_PACKET
  | MULTIPART_PACKET | RESULT_CODE

fun cmd_code :: "serialCommand \<Rightarrow> u8" where
  "cmd_code NONE = 0"
| "cmd_code NODE_ADDRESS_GET = 1"
| "cmd_code NODE_ADDRESS_SET = 2"
| "cmd_code PING_REQUEST = 3"
| "cmd_code MESSAGE_REQUEST = 4"
| "cmd_code HARDWARE_INFO = 63"
| "cmd_code BROADCAST_MESSAGE = 98"
| "cmd_code DISPLAY_CONTROL = 100"
| "cmd_code HOST_FORMED_PACKET = 104"
| "cmd_code MULTIPART_PACKET = 109"
| "cmd_code RESULT_CODE = 254"

datatype displayType =
    STRING_DISPLAY | RADIO_DOGE_LOGO | DOGE_ANIMATION | COIN_ANIMATION
  | RECEIVING_DISPLAY | SENDING_DISPLAY

fun display_code :: "displayType \<Rightarrow> u8" where
  "display_code STRING_DISPLAY = 0"
| "display_code RADIO_DOGE_LOGO = 1"
| "display_code DOGE_ANIMATION = 2"
| "display_code COIN_ANIMATION = 3"
| "display_code RECEIVING_DISPLAY = 4"
| "display_code SENDING_DISPLAY = 5"

datatype broadcastType = HUB_ANNOUNCEMENT | NODE_ANNOUNCEMENT

fun broadcast_code :: "broadcastType \<Rightarrow> u8" where
  "broadcast_code HUB_ANNOUNCEMENT = 0"
| "broadcast_code NODE_ANNOUNCEMENT = 1"

datatype resultCode = RESULT_ACK | RESULT_NACK

fun result_code :: "resultCode \<Rightarrow> u8" where
  "result_code RESULT_ACK = 6"
| "result_code RESULT_NACK = 21"

datatype dogeCommand =
    DISPLAY_QR | REGISTRATION | GET_DOGE_ADDRESS | SEND_DOGE_ADDRESS | REQUEST_UTXOS
  | UTXOS_RECEIVED | REQUEST_BALANCE | BALANCE_RECEIVED | DOGE_COMMAND_SUCCESS
  | DOGE_COMMAND_FAILURE | TRANSACTION_REQUEST | TRANSACTION_RESULT

fun doge_code :: "dogeCommand \<Rightarrow> u8" where
  "doge_code DISPLAY_QR = 1"
| "doge_code REGISTRATION = 15"
| "doge_code GET_DOGE_ADDRESS = 120"
| "doge_code SEND_DOGE_ADDRESS = 240"
| "doge_code REQUEST_UTXOS = 111"
| "doge_code UTXOS_RECEIVED = 112"
| "doge_code REQUEST_BALANCE = 101"
| "doge_code BALANCE_RECEIVED = 202"
| "doge_code DOGE_COMMAND_SUCCESS = 1"
| "doge_code DOGE_COMMAND_FAILURE = 254"
| "doge_code TRANSACTION_REQUEST = 170"
| "doge_code TRANSACTION_RESULT = 171"

datatype dogeResponseCode =
    HUB_RESPONSE_SUCCESS | INVALID_ADDRESS | ALREADY_REGISTERED | NOT_REGISTERED
  | INVALID_PIN | NO_STORED_UTXOS | WATCHLIST_FAILURE

fun response_code :: "dogeResponseCode \<Rightarrow> u8" where
  "response_code HUB_RESPONSE_SUCCESS = 0"
| "response_code INVALID_ADDRESS = 1"
| "response_code ALREADY_REGISTERED = 2"
| "response_code NOT_REGISTERED = 3"
| "response_code INVALID_PIN = 4"
| "response_code NO_STORED_UTXOS = 5"
| "response_code WATCHLIST_FAILURE = 6"

datatype registrationFunctions = ADD_REGISTRATION | REMOVE_REGISTRATION | UPDATE_PIN

fun registration_code :: "registrationFunctions \<Rightarrow> u8" where
  "registration_code ADD_REGISTRATION = 10"
| "registration_code REMOVE_REGISTRATION = 20"
| "registration_code UPDATE_PIN = 30"

section \<open>Sizes\<close>

definition HDR_LEN :: nat where [code_values]: "HDR_LEN = 2"
definition ADDR_LEN :: nat where [code_values]: "ADDR_LEN = 3"
definition PIN_LENGTH :: nat where [code_values]: "PIN_LENGTH = 4"
definition SERIALIZED_VOUT_LENGTH :: nat where [code_values]: "SERIALIZED_VOUT_LENGTH = 4"
definition SERIALIZED_BALANCE_LENGTH :: nat where [code_values]: "SERIALIZED_BALANCE_LENGTH = 8"
definition SERIALIZED_NUM_UTXO_LENGTH :: nat where [code_values]: "SERIALIZED_NUM_UTXO_LENGTH = 4"
definition MAX_DOGECOIN_AMOUNT_STRING_LENGTH :: nat
  where [code_values]: "MAX_DOGECOIN_AMOUNT_STRING_LENGTH = 21"
definition TXID_STRING_LENGTH :: nat where [code_values]: "TXID_STRING_LENGTH = 64"
definition MAX_PAYLOAD_LEN :: nat where [code_values]: "MAX_PAYLOAD_LEN = 192"
definition SINGLE_PACKET_HDR_LEN :: nat where [code_values]: "SINGLE_PACKET_HDR_LEN = 8"
definition MULTIPART_HDR_LEN :: nat where [code_values]: "MULTIPART_HDR_LEN = 12"
definition MULTIPART_PIECE_INFO_LEN :: nat where [code_values]: "MULTIPART_PIECE_INFO_LEN = 4"
definition MAX_NUM_UTXOS :: nat where [code_values]: "MAX_NUM_UTXOS = 64"
definition P2PKH_ADDR_STRINGLEN :: nat where [code_values]: "P2PKH_ADDR_STRINGLEN = 35"
definition WIF_UNCOMPRESSED_PRIVKEY_STRINGLEN :: nat
  where [code_values]: "WIF_UNCOMPRESSED_PRIVKEY_STRINGLEN = 53"

text \<open>The node addresses a host starts with, and the broadcast address.\<close>

definition myaddr0 :: bytes where [code_values]: "myaddr0 = [10, 0, 2]"
definition rmaddr0 :: bytes where [code_values]: "rmaddr0 = [10, 0, 1]"
definition broadcastAddress :: bytes where [code_values]: "broadcastAddress = [255, 255, 255]"

text \<open>
  Command values are pairwise distinct, so a received command byte names at most one command.
  The application-level values are not: the header gives \<open>DISPLAY_QR\<close> and
  \<open>DOGE_COMMAND_SUCCESS\<close> the same value.
\<close>

lemma cmd_code_inj: "cmd_code c = cmd_code d \<Longrightarrow> c = d"
  by (cases c; cases d) simp_all

lemma doge_code_clash: "doge_code DISPLAY_QR = doge_code DOGE_COMMAND_SUCCESS"
  by simp

end
