(* ===== verification/Keys.thy ===== *)
theory Keys
  imports Transaction Rmd160 RadioTypes
begin

text \<open>
  Keys: the layer over the elliptic curve (\<open>src/ecc.c\<close>), private and public keys (\<open>src/key.c\<close>), and the key pairs of
  \<open>src/address.c\<close>. The curve itself is the vendored library secp256k1; the functions of it that are called are the
  fields of a record \<open>secp256k1\<close>, a parameter of every definition that uses them. Recoverable signatures and
  derived keys are left out. The library has been started, so its context is not null.
\<close>

section \<open>The curve\<close>

text \<open>
  Keys and signatures of the library are opaque. \<open>None\<close> is the result 0; adding a tweak to a private key gives the
  result and the key, which is unspecified when the result is 0. A private key and a hash are 32 bytes, a compact
  signature 64.
\<close>

record ('pk, 'sig) secp256k1 =
  ec_seckey_verify :: "bytes \<Rightarrow> bool"
  ec_pubkey_create :: "bytes \<Rightarrow> 'pk option"
  ec_pubkey_serialize :: "'pk \<Rightarrow> bool \<Rightarrow> bytes"
  ec_pubkey_parse :: "bytes \<Rightarrow> 'pk option"
  ec_privkey_tweak_add :: "bytes \<Rightarrow> bytes \<Rightarrow> bool \<times> bytes"
  ec_pubkey_tweak_add :: "'pk \<Rightarrow> bytes \<Rightarrow> 'pk option"
  ecdsa_sign :: "bytes \<Rightarrow> bytes \<Rightarrow> 'sig option"
  ecdsa_verify :: "'sig \<Rightarrow> bytes \<Rightarrow> 'pk \<Rightarrow> bool"
  ecdsa_signature_normalize :: "'sig \<Rightarrow> 'sig"
  ecdsa_signature_serialize_der :: "'sig \<Rightarrow> bytes"
  ecdsa_signature_parse_der :: "bytes \<Rightarrow> 'sig option"
  ecdsa_signature_serialize_compact :: "'sig \<Rightarrow> bytes"
  ecdsa_signature_parse_compact :: "bytes \<Rightarrow> 'sig option"

definition serialized_key_length :: "bool \<Rightarrow> nat" where
  "serialized_key_length c = (if c then DOGECOIN_ECKEY_COMPRESSED_LENGTH else DOGECOIN_ECKEY_UNCOMPRESSED_LENGTH)"

text \<open>The buffer and \<open>in_outlen\<close>; an \<open>assert\<close> that fails is \<open>None\<close>.\<close>

definition dogecoin_ecc_get_pubkey ::
    "('pk, 'sig) secp256k1 \<Rightarrow> bytes \<Rightarrow> bytes \<Rightarrow> nat \<Rightarrow> bool \<Rightarrow> (bytes \<times> nat) option" where
  "dogecoin_ecc_get_pubkey secp private_key public_key in_outlen c =
     (if in_outlen \<noteq> serialized_key_length c then None
      else do {
        public_key \<leftarrow> mem_write public_key 0 (replicate in_outlen 0);
        k \<leftarrow> mem_read private_key 0 32;
        (case ec_pubkey_create secp k of
           None \<Rightarrow> Some (public_key, in_outlen)
         | Some pk \<Rightarrow> do {
             public_key \<leftarrow> mem_write public_key 0 (ec_pubkey_serialize secp pk c);
             Some (public_key, length (ec_pubkey_serialize secp pk c))
           })
      })"

definition dogecoin_ecc_private_key_tweak_add :: "('pk, 'sig) secp256k1 \<Rightarrow> bytes \<Rightarrow> bytes \<Rightarrow> (bool \<times> bytes) option" where
  "dogecoin_ecc_private_key_tweak_add secp private_key tweak = do {
     k \<leftarrow> mem_read private_key 0 32;
     t \<leftarrow> mem_read tweak 0 32;
     let (ok, k) = ec_privkey_tweak_add secp k t;
     b \<leftarrow> mem_write private_key 0 k;
     Some (ok, b)
   }"

definition dogecoin_ecc_public_key_tweak_add :: "('pk, 'sig) secp256k1 \<Rightarrow> bytes \<Rightarrow> bytes \<Rightarrow> (bool \<times> bytes) option" where
  "dogecoin_ecc_public_key_tweak_add secp public_key_inout tweak = do {
     b \<leftarrow> mem_read public_key_inout 0 33;
     t \<leftarrow> mem_read tweak 0 32;
     (case ec_pubkey_parse secp b of
        None \<Rightarrow> Some (False, public_key_inout)
      | Some pk \<Rightarrow>
          (case ec_pubkey_tweak_add secp pk t of
             None \<Rightarrow> Some (False, public_key_inout)
           | Some pk' \<Rightarrow> do {
               b \<leftarrow> mem_write public_key_inout 0 (ec_pubkey_serialize secp pk' True);
               Some (True, b)
             }))
   }"

definition dogecoin_ecc_verify_privatekey :: "('pk, 'sig) secp256k1 \<Rightarrow> bytes \<Rightarrow> bool option" where
  "dogecoin_ecc_verify_privatekey secp private_key = do {
     k \<leftarrow> mem_read private_key 0 32;
     Some (ec_seckey_verify secp k)
   }"

definition dogecoin_ecc_verify_pubkey :: "('pk, 'sig) secp256k1 \<Rightarrow> bytes \<Rightarrow> bool \<Rightarrow> bool option" where
  "dogecoin_ecc_verify_pubkey secp public_key c = do {
     b \<leftarrow> mem_read public_key 0 (serialized_key_length c);
     Some (ec_pubkey_parse secp b \<noteq> None)
   }"

text \<open>The result, the buffer and its length. A signature that is longer than the length given is not written.\<close>

definition write_der :: "('pk, 'sig) secp256k1 \<Rightarrow> 'sig \<Rightarrow> bytes \<Rightarrow> nat \<Rightarrow> (bool \<times> bytes \<times> nat) option" where
  "write_der secp s sigder outlen =
     (let d = ecdsa_signature_serialize_der secp s
      in if outlen < length d then Some (False, sigder, length d)
         else do { b \<leftarrow> mem_write sigder 0 d; Some (True, b, length d) })"

definition dogecoin_ecc_sign :: "('pk, 'sig) secp256k1 \<Rightarrow> bytes \<Rightarrow> bytes \<Rightarrow> bytes \<Rightarrow> nat \<Rightarrow> (bool \<times> bytes \<times> nat) option" where
  "dogecoin_ecc_sign secp private_key hash sigder outlen = do {
     k \<leftarrow> mem_read private_key 0 32;
     h \<leftarrow> mem_read hash 0 32;
     (case ecdsa_sign secp h k of
        None \<Rightarrow> Some (False, sigder, outlen)
      | Some s \<Rightarrow> write_der secp s sigder outlen)
   }"

definition dogecoin_ecc_sign_compact ::
    "('pk, 'sig) secp256k1 \<Rightarrow> bytes \<Rightarrow> bytes \<Rightarrow> bytes \<Rightarrow> nat \<Rightarrow> (bool \<times> bytes \<times> nat) option" where
  "dogecoin_ecc_sign_compact secp private_key hash sigcomp outlen = do {
     k \<leftarrow> mem_read private_key 0 32;
     h \<leftarrow> mem_read hash 0 32;
     (case ecdsa_sign secp h k of
        None \<Rightarrow> Some (False, sigcomp, outlen)
      | Some s \<Rightarrow> do {
          b \<leftarrow> mem_write sigcomp 0 (ecdsa_signature_serialize_compact secp s);
          Some (True, b, 64)
        })
   }"

definition dogecoin_ecc_verify_sig :: "('pk, 'sig) secp256k1 \<Rightarrow> bytes \<Rightarrow> bool \<Rightarrow> bytes \<Rightarrow> bytes \<Rightarrow> nat \<Rightarrow> bool option" where
  "dogecoin_ecc_verify_sig secp public_key c hash sigder siglen = do {
     b \<leftarrow> mem_read public_key 0 (serialized_key_length c);
     h \<leftarrow> mem_read hash 0 32;
     d \<leftarrow> mem_read sigder 0 siglen;
     (case (ec_pubkey_parse secp b, ecdsa_signature_parse_der secp d) of
        (Some pk, Some s) \<Rightarrow> Some (ecdsa_verify secp s h pk)
      | _ \<Rightarrow> Some False)
   }"

text \<open>The compact signature is preceded by one byte.\<close>

definition dogecoin_ecc_verify_sigcmp :: "('pk, 'sig) secp256k1 \<Rightarrow> bytes \<Rightarrow> bool \<Rightarrow> bytes \<Rightarrow> bytes \<Rightarrow> bool option" where
  "dogecoin_ecc_verify_sigcmp secp public_key c hash sigcmp = do {
     b \<leftarrow> mem_read public_key 0 (serialized_key_length c);
     h \<leftarrow> mem_read hash 0 32;
     d \<leftarrow> mem_read sigcmp 1 64;
     (case (ec_pubkey_parse secp b, ecdsa_signature_parse_compact secp d) of
        (Some pk, Some s) \<Rightarrow> Some (ecdsa_verify secp s h pk)
      | _ \<Rightarrow> Some False)
   }"

definition dogecoin_ecc_compact_to_der_normalized ::
    "('pk, 'sig) secp256k1 \<Rightarrow> bytes \<Rightarrow> bytes \<Rightarrow> nat \<Rightarrow> (bool \<times> bytes \<times> nat) option" where
  "dogecoin_ecc_compact_to_der_normalized secp sigcomp_in sigder_out sigder_len_out = do {
     c \<leftarrow> mem_read sigcomp_in 0 64;
     (case ecdsa_signature_parse_compact secp c of
        None \<Rightarrow> Some (False, sigder_out, sigder_len_out)
      | Some s \<Rightarrow> write_der secp (ecdsa_signature_normalize secp s) sigder_out sigder_len_out)
   }"

definition dogecoin_ecc_der_to_compact :: "('pk, 'sig) secp256k1 \<Rightarrow> bytes \<Rightarrow> nat \<Rightarrow> bytes \<Rightarrow> (bool \<times> bytes) option" where
  "dogecoin_ecc_der_to_compact secp sigder_in sigder_len sigcomp_out = do {
     d \<leftarrow> mem_read sigder_in 0 sigder_len;
     (case ecdsa_signature_parse_der secp d of
        None \<Rightarrow> Some (False, sigcomp_out)
      | Some s \<Rightarrow> do {
          b \<leftarrow> mem_write sigcomp_out 0 (ecdsa_signature_serialize_compact secp s);
          Some (True, b)
        })
   }"

section \<open>Keys\<close>

definition dogecoin_privkey_is_valid :: "('pk, 'sig) secp256k1 \<Rightarrow> dogecoin_key \<Rightarrow> bool option" where
  "dogecoin_privkey_is_valid secp key = dogecoin_ecc_verify_privatekey secp (privkey key)"

definition dogecoin_pubkey_init :: "dogecoin_pubkey \<Rightarrow> dogecoin_pubkey" where
  "dogecoin_pubkey_init k = k\<lparr>pubkey := replicate DOGECOIN_ECKEY_UNCOMPRESSED_LENGTH 0, compressed := False\<rparr>"

definition dogecoin_pubkey_is_valid :: "('pk, 'sig) secp256k1 \<Rightarrow> dogecoin_pubkey \<Rightarrow> bool option" where
  "dogecoin_pubkey_is_valid secp k = dogecoin_ecc_verify_pubkey secp (pubkey k) (compressed k)"

definition dogecoin_pubkey_cleanse :: "dogecoin_pubkey \<Rightarrow> dogecoin_pubkey" where
  "dogecoin_pubkey_cleanse k = k\<lparr>pubkey := replicate DOGECOIN_ECKEY_UNCOMPRESSED_LENGTH 0\<rparr>"

definition dogecoin_hash_sngl_sha256 :: "bytes \<Rightarrow> bytes \<Rightarrow> bytes option" where
  "dogecoin_hash_sngl_sha256 datain hashout = sha256_raw datain hashout"

text \<open>\<open>hash160\<close> is the buffer of 20 bytes.\<close>

definition dogecoin_pubkey_get_hash160 :: "dogecoin_pubkey \<Rightarrow> bytes \<Rightarrow> bytes option" where
  "dogecoin_pubkey_get_hash160 k hash160 = do {
     b \<leftarrow> mem_read (pubkey k) 0 (serialized_key_length (compressed k));
     hashout \<leftarrow> dogecoin_hash_sngl_sha256 b (replicate 32 0);
     rmd160 hashout 32 hash160
   }"

definition dogecoin_pubkey_get_hex :: "dogecoin_pubkey \<Rightarrow> bytes \<Rightarrow> nat \<Rightarrow> (bool \<times> bytes \<times> nat) option" where
  "dogecoin_pubkey_get_hex k s strsize =
     (if strsize < DOGECOIN_ECKEY_COMPRESSED_LENGTH * 2 + 1 then Some (False, s, strsize)
      else do {
        s \<leftarrow> utils_bin_to_hex (pubkey k) DOGECOIN_ECKEY_COMPRESSED_LENGTH s;
        Some (True, s, DOGECOIN_ECKEY_COMPRESSED_LENGTH * 2)
      })"

definition dogecoin_pubkey_from_key :: "('pk, 'sig) secp256k1 \<Rightarrow> dogecoin_key \<Rightarrow> dogecoin_pubkey \<Rightarrow> dogecoin_pubkey option" where
  "dogecoin_pubkey_from_key secp key k = do {
     (b, _) \<leftarrow> dogecoin_ecc_get_pubkey secp (privkey key) (pubkey k) DOGECOIN_ECKEY_COMPRESSED_LENGTH True;
     Some (k\<lparr>pubkey := b, compressed := True\<rparr>)
   }"

definition dogecoin_key_sign_hash ::
    "('pk, 'sig) secp256k1 \<Rightarrow> dogecoin_key \<Rightarrow> bytes \<Rightarrow> bytes \<Rightarrow> nat \<Rightarrow> (bool \<times> bytes \<times> nat) option" where
  "dogecoin_key_sign_hash secp key hash sigout outlen = dogecoin_ecc_sign secp (privkey key) hash sigout outlen"

definition dogecoin_key_sign_hash_compact ::
    "('pk, 'sig) secp256k1 \<Rightarrow> dogecoin_key \<Rightarrow> bytes \<Rightarrow> bytes \<Rightarrow> nat \<Rightarrow> (bool \<times> bytes \<times> nat) option" where
  "dogecoin_key_sign_hash_compact secp key hash sigout outlen = dogecoin_ecc_sign_compact secp (privkey key) hash sigout outlen"

definition dogecoin_pubkey_verify_sig :: "('pk, 'sig) secp256k1 \<Rightarrow> dogecoin_pubkey \<Rightarrow> bytes \<Rightarrow> bytes \<Rightarrow> nat \<Rightarrow> bool option" where
  "dogecoin_pubkey_verify_sig secp k hash sigder n = dogecoin_ecc_verify_sig secp (pubkey k) (compressed k) hash sigder n"

definition dogecoin_pubkey_verify_sigcmp :: "('pk, 'sig) secp256k1 \<Rightarrow> dogecoin_pubkey \<Rightarrow> bytes \<Rightarrow> bytes \<Rightarrow> bool option" where
  "dogecoin_pubkey_verify_sigcmp secp k hash sigcmp = dogecoin_ecc_verify_sigcmp secp (pubkey k) (compressed k) hash sigcmp"

text \<open>
  A new key from the draws of \<open>dogecoin_random_bytes\<close>, one after the other: a draw that fails is \<open>None\<close>. When the
  draws end the loop has not returned.
\<close>

fun dogecoin_privkey_gen :: "('pk, 'sig) secp256k1 \<Rightarrow> bytes option list \<Rightarrow> dogecoin_key \<Rightarrow> (bool \<times> dogecoin_key) option" where
  "dogecoin_privkey_gen secp [] key = None"
| "dogecoin_privkey_gen secp (None # draws) key = Some (False, key)"
| "dogecoin_privkey_gen secp (Some r # draws) key = do {
     let key = key\<lparr>privkey := r\<rparr>;
     v \<leftarrow> dogecoin_ecc_verify_privatekey secp (privkey key);
     (if v then Some (True, key) else dogecoin_privkey_gen secp draws key)
   }"

text \<open>The draw that is signed to try a pair.\<close>

definition dogecoin_privkey_verify_pubkey ::
    "('pk, 'sig) secp256k1 \<Rightarrow> bytes option \<Rightarrow> dogecoin_key \<Rightarrow> dogecoin_pubkey \<Rightarrow> bool option" where
  "dogecoin_privkey_verify_pubkey secp draw key k =
     (case draw of
        None \<Rightarrow> Some False
      | Some rnddata \<Rightarrow> do {
          hash \<leftarrow> dogecoin_hash rnddata (replicate 32 0);
          (ok, sig, siglen) \<leftarrow> dogecoin_key_sign_hash secp key hash (replicate 74 0) 74;
          (if \<not> ok then Some False else dogecoin_pubkey_verify_sig secp k hash sig siglen)
        })"

definition init_keypair ::
    "('pk, 'sig) secp256k1 \<Rightarrow> bytes option \<Rightarrow> bytes \<Rightarrow> dogecoin_key \<Rightarrow> dogecoin_pubkey
      \<Rightarrow> (bool \<times> dogecoin_key \<times> dogecoin_pubkey) option" where
  "init_keypair secp draw privkeywif key k = do {
     let key = dogecoin_privkey_init key;
     v \<leftarrow> dogecoin_privkey_is_valid secp key;
     _ \<leftarrow> (if v then None else Some ());
     chain \<leftarrow> chain_from_b58_prefix privkeywif;
     (ok, key) \<leftarrow> dogecoin_privkey_decode_wif privkeywif chain key;
     (if \<not> ok then Some (False, key, k)
      else do {
        v \<leftarrow> dogecoin_privkey_is_valid secp key;
        _ \<leftarrow> (if v then Some () else None);
        let k = (dogecoin_pubkey_init k)\<lparr>compressed := False\<rparr>;
        v \<leftarrow> dogecoin_pubkey_is_valid secp k;
        _ \<leftarrow> (if v then None else Some ());
        k \<leftarrow> dogecoin_pubkey_from_key secp key k;
        v \<leftarrow> dogecoin_pubkey_is_valid secp k;
        (if \<not> v then Some (False, key, k)
         else do {
           v \<leftarrow> dogecoin_privkey_verify_pubkey secp draw key k;
           Some (v, key, k)
         })
      })
   }"

text \<open>The address of a key. The length given for \<open>addrout\<close> is 100, whatever its object holds.\<close>

definition dogecoin_pubkey_getaddr_p2pkh :: "dogecoin_pubkey \<Rightarrow> dogecoin_chainparams \<Rightarrow> bytes \<Rightarrow> (bool \<times> bytes) option" where
  "dogecoin_pubkey_getaddr_p2pkh k chain addrout = do {
     h \<leftarrow> dogecoin_pubkey_get_hash160 k (replicate 20 0);
     (_, addrout) \<leftarrow> dogecoin_base58_encode_check (b58prefix_pubkey_address chain # h) 21 addrout 100;
     Some (True, addrout)
   }"

section \<open>Key pairs\<close>

definition chain_for :: "bool \<Rightarrow> dogecoin_chainparams" where
  "chain_for is_testnet = (if is_testnet then dogecoin_chainparams_test else dogecoin_chainparams_main)"

text \<open>
  Both texts and their buffers; a null pointer is \<open>None\<close>. The internal buffers are written before they are read,
  as far as they are read.
\<close>

definition generatePrivPubKeypair ::
    "('pk, 'sig) secp256k1 \<Rightarrow> bytes option list \<Rightarrow> bytes option \<Rightarrow> bytes option \<Rightarrow> bool \<Rightarrow> (bool \<times> bytes option \<times> bytes option) option" where
  "generatePrivPubKeypair secp draws wif_privkey p2pkh_pubkey is_testnet = do {
     w \<leftarrow> (case wif_privkey of None \<Rightarrow> Some (replicate WIF_UNCOMPRESSED_PRIVKEY_STRINGLEN 0)
         | Some b \<Rightarrow> mem_read b 0 WIF_UNCOMPRESSED_PRIVKEY_STRINGLEN);
     p \<leftarrow> (case p2pkh_pubkey of None \<Rightarrow> Some (replicate P2PKH_ADDR_STRINGLEN 0)
         | Some b \<Rightarrow> mem_read b 0 P2PKH_ADDR_STRINGLEN);
     let chain = chain_for is_testnet;
     let key = dogecoin_privkey_init \<lparr>privkey = replicate 32 0\<rparr>;
     (_, key) \<leftarrow> dogecoin_privkey_gen secp draws key;
     w \<leftarrow> dogecoin_privkey_encode_wif key chain w WIF_UNCOMPRESSED_PRIVKEY_STRINGLEN;
     let k = dogecoin_pubkey_init \<lparr>compressed = False, pubkey = replicate 65 0\<rparr>;
     v \<leftarrow> dogecoin_pubkey_is_valid secp k;
     _ \<leftarrow> (if v then None else Some ());
     k \<leftarrow> dogecoin_pubkey_from_key secp key k;
     (_, p) \<leftarrow> dogecoin_pubkey_getaddr_p2pkh k chain p;
     w' \<leftarrow> (case wif_privkey of None \<Rightarrow> Some None | Some b \<Rightarrow> map_option Some (mem_write b 0 w));
     p' \<leftarrow> (case p2pkh_pubkey of None \<Rightarrow> Some None | Some b \<Rightarrow> map_option Some (mem_write b 0 p));
     _ \<leftarrow> c_strlen w;
     _ \<leftarrow> c_strlen p;
     Some (True, w', p')
   }"

text \<open>Whether two strings are equal, by \<open>strcmp\<close>.\<close>

fun same_string :: "bytes \<Rightarrow> bytes \<Rightarrow> bool option" where
  "same_string (a # as) (b # bs) = (if a \<noteq> b then Some False else if a = 0 then Some True else same_string as bs)"
| "same_string _ _ = None"

definition verifyPrivPubKeypair :: "('pk, 'sig) secp256k1 \<Rightarrow> bytes \<Rightarrow> bytes \<Rightarrow> bool \<Rightarrow> bool option" where
  "verifyPrivPubKeypair secp wif_privkey p2pkh_pubkey is_testnet = do {
     let chain = chain_for is_testnet;
     let key = dogecoin_privkey_init \<lparr>privkey = replicate 32 0\<rparr>;
     (_, key) \<leftarrow> dogecoin_privkey_decode_wif wif_privkey chain key;
     v \<leftarrow> dogecoin_privkey_is_valid secp key;
     (if \<not> v then Some False
      else do {
        let sizeout = WIF_UNCOMPRESSED_PRIVKEY_STRINGLEN;
        _ \<leftarrow> dogecoin_privkey_encode_wif key chain (replicate sizeout 0) sizeout;
        let k = dogecoin_pubkey_init \<lparr>compressed = False, pubkey = replicate 65 0\<rparr>;
        k \<leftarrow> dogecoin_pubkey_from_key secp key k;
        v \<leftarrow> dogecoin_pubkey_is_valid secp k;
        (if \<not> v then Some False
         else do {
           (_, a) \<leftarrow> dogecoin_pubkey_getaddr_p2pkh k chain (replicate sizeout 0);
           same_string p2pkh_pubkey a
         })
      })
   }"

text \<open>The script that pays to the key of a private key, in hexadecimal, or a null pointer.\<close>

definition dogecoin_private_key_wif_to_pubkey_hash :: "('pk, 'sig) secp256k1 \<Rightarrow> bytes \<Rightarrow> bytes option option" where
  "dogecoin_private_key_wif_to_pubkey_hash secp private_key_wif = do {
     c \<leftarrow> mem_get private_key_wif 0;
     let chain = (if c = 99 then dogecoin_chainparams_test else dogecoin_chainparams_main);
     let key = dogecoin_privkey_init \<lparr>privkey = replicate 32 0\<rparr>;
     (_, key) \<leftarrow> dogecoin_privkey_decode_wif private_key_wif chain key;
     v \<leftarrow> dogecoin_privkey_is_valid secp key;
     (if \<not> v then Some None
      else do {
        let sizeout = 53;
        _ \<leftarrow> dogecoin_privkey_encode_wif key chain (replicate sizeout 0) sizeout;
        let k = dogecoin_pubkey_init \<lparr>compressed = False, pubkey = replicate 65 0\<rparr>;
        k \<leftarrow> dogecoin_pubkey_from_key secp key k;
        v \<leftarrow> dogecoin_pubkey_is_valid secp k;
        (if \<not> v then Some None
         else do {
           (_, a) \<leftarrow> dogecoin_pubkey_getaddr_p2pkh k chain (replicate sizeout 0);
           (ok, script_hash) \<leftarrow> dogecoin_p2pkh_address_to_pubkey_hash a (replicate 51 0);
           Some (if ok then Some script_hash else None)
         })
      })
   }"

section \<open>What is relied on\<close>

text \<open>
  The documented behaviour of the curve library: keys and signatures it makes are read back, a signature verifies
  under the public key of the key that made it and is already in the normal form. The key of 32 zeros and the
  public key of 65 zeros are not valid.
\<close>

definition secp256k1_laws :: "('pk, 'sig) secp256k1 \<Rightarrow> bool" where
  "secp256k1_laws secp \<longleftrightarrow>
     \<not> ec_seckey_verify secp (replicate 32 0) \<and> ec_pubkey_parse secp (replicate 65 0) = None
     \<and> (\<forall>k. length k = 32 \<longrightarrow> ec_seckey_verify secp k \<longrightarrow>
          (\<exists>pk. ec_pubkey_create secp k = Some pk \<and> length (ec_pubkey_serialize secp pk True) = 33
             \<and> ec_pubkey_parse secp (ec_pubkey_serialize secp pk True) = Some pk
             \<and> (\<forall>h. length h = 32 \<longrightarrow> (\<exists>s. ecdsa_sign secp h k = Some s \<and> ecdsa_verify secp s h pk
                  \<and> ecdsa_signature_normalize secp s = s
                  \<and> length (ecdsa_signature_serialize_compact secp s) = 64
                  \<and> ecdsa_signature_parse_compact secp (ecdsa_signature_serialize_compact secp s) = Some s
                  \<and> length (ecdsa_signature_serialize_der secp s) \<le> 72
                  \<and> ecdsa_signature_parse_der secp (ecdsa_signature_serialize_der secp s) = Some s))))"

text \<open>A private key of 32 bytes that is in range, its compressed public key, and the hash of that.\<close>

definition valid_key :: "('pk, 'sig) secp256k1 \<Rightarrow> bytes \<Rightarrow> bool" where
  "valid_key secp k \<longleftrightarrow> length k = 32 \<and> ec_seckey_verify secp k"

definition public_key :: "('pk, 'sig) secp256k1 \<Rightarrow> bytes \<Rightarrow> bytes" where
  "public_key secp k = (case ec_pubkey_create secp k of Some pk \<Rightarrow> ec_pubkey_serialize secp pk True | None \<Rightarrow> [])"

definition key_hash :: "bytes \<Rightarrow> bytes" where
  "key_hash b = rmd160_reference (sha256_reference b)"

lemma valid_key_public:
  assumes "secp256k1_laws secp" "valid_key secp k"
  shows "\<exists>pk. ec_pubkey_create secp k = Some pk \<and> ec_pubkey_serialize secp pk True = public_key secp k
    \<and> length (public_key secp k) = 33 \<and> ec_pubkey_parse secp (public_key secp k) = Some pk"
proof -
  from assms obtain pk where "ec_pubkey_create secp k = Some pk" "length (ec_pubkey_serialize secp pk True) = 33"
    "ec_pubkey_parse secp (ec_pubkey_serialize secp pk True) = Some pk"
    unfolding secp256k1_laws_def valid_key_def by blast
  then show ?thesis by (simp add: public_key_def)
qed

lemma length_public_key: "secp256k1_laws secp \<Longrightarrow> valid_key secp k \<Longrightarrow> length (public_key secp k) = 33"
  using valid_key_public by blast

lemma zero_keys:
  assumes "secp256k1_laws secp"
  shows "\<not> valid_key secp (replicate 32 0)"
    "dogecoin_privkey_is_valid secp \<lparr>privkey = replicate 32 0\<rparr> = Some False"
    "dogecoin_pubkey_is_valid secp \<lparr>compressed = False, pubkey = replicate 65 0\<rparr> = Some False"
  using assms unfolding secp256k1_laws_def valid_key_def
  by (simp_all add: dogecoin_privkey_is_valid_def dogecoin_ecc_verify_privatekey_def dogecoin_pubkey_is_valid_def
      dogecoin_ecc_verify_pubkey_def serialized_key_length_def DOGECOIN_ECKEY_UNCOMPRESSED_LENGTH_def mem_simps)

lemma privkey_valid:
  "length k = 32 \<Longrightarrow> dogecoin_privkey_is_valid secp \<lparr>privkey = k\<rparr> = Some (ec_seckey_verify secp k)"
  by (simp add: dogecoin_privkey_is_valid_def dogecoin_ecc_verify_privatekey_def mem_simps)

lemma pubkey_from_key_valid:
  assumes "secp256k1_laws secp" "valid_key secp k" "length (pubkey p) = 65"
  shows "dogecoin_pubkey_from_key secp \<lparr>privkey = k\<rparr> p
    = Some (p\<lparr>compressed := True, pubkey := public_key secp k @ drop 33 (pubkey p)\<rparr>)"
proof -
  obtain pk where pk: "ec_pubkey_create secp k = Some pk" "ec_pubkey_serialize secp pk True = public_key secp k"
    "length (public_key secp k) = 33" using valid_key_public [OF assms(1,2)] by blast
  then show ?thesis using assms(2,3)
    by (simp add: dogecoin_pubkey_from_key_def dogecoin_ecc_get_pubkey_def serialized_key_length_def
        DOGECOIN_ECKEY_COMPRESSED_LENGTH_def valid_key_def mem_simps)
qed

lemma fresh_pubkey_from_key:
  assumes "secp256k1_laws secp" "valid_key secp k"
  shows "dogecoin_pubkey_from_key secp \<lparr>privkey = k\<rparr> \<lparr>compressed = False, pubkey = replicate 65 0\<rparr>
    = Some \<lparr>compressed = True, pubkey = public_key secp k @ replicate 32 0\<rparr>"
  using pubkey_from_key_valid [OF assms, of "\<lparr>compressed = False, pubkey = replicate 65 0\<rparr>"] by simp

lemma pubkey_valid:
  assumes "secp256k1_laws secp" "valid_key secp k"
  shows "dogecoin_pubkey_is_valid secp \<lparr>compressed = True, pubkey = public_key secp k @ r\<rparr> = Some True"
  using valid_key_public [OF assms]
  by (auto simp: dogecoin_pubkey_is_valid_def dogecoin_ecc_verify_pubkey_def serialized_key_length_def
      DOGECOIN_ECKEY_COMPRESSED_LENGTH_def mem_simps)

lemma length_key_hash [simp]: "length (key_hash b) = 20"
  by (simp add: key_hash_def rmd160_reference_def Let_def split: prod.split)

lemma get_hash160_key:
  assumes "length pub = 33"
  shows "dogecoin_pubkey_get_hash160 \<lparr>compressed = True, pubkey = pub @ r\<rparr> (replicate 20 0) = Some (key_hash pub)"
  using assms rmd160_correct [of "sha256_reference pub" "replicate 20 0"]
  by (simp add: dogecoin_pubkey_get_hash160_def dogecoin_hash_sngl_sha256_def serialized_key_length_def
      DOGECOIN_ECKEY_COMPRESSED_LENGTH_def sha256_raw_reference mem_simps key_hash_def)

section \<open>Texts of keys\<close>

lemma check_text_write:
  assumes "check_text p t" "length t < n" "length t < length s"
  shows "dogecoin_base58_encode_check p (length p) s n = Some (length t + 1, t @ 0 # drop (length t + 1) s)"
proof -
  have "dogecoin_base58_encode_check (p @ []) (length p) s n =
      (if n \<le> length t then Some (0, s) else map_option (\<lambda>b. (length t + 1, b)) (mem_write s 0 (t @ [0])))"
    using assms(1) unfolding check_text_def by blast
  then show ?thesis using assms(2,3) by (simp add: mem_write_def)
qed

lemma getaddr_text:
  assumes "length pub = 33" "check_text (b58prefix_pubkey_address chain # key_hash pub) t" "length t \<le> 34" "35 \<le> length s"
  shows "dogecoin_pubkey_getaddr_p2pkh \<lparr>compressed = True, pubkey = pub @ r\<rparr> chain s
    = Some (True, t @ 0 # drop (length t + 1) s)"
  using check_text_write [OF assms(2), of 100 s] assms(3,4)
  by (simp add: dogecoin_pubkey_getaddr_p2pkh_def get_hash160_key [OF assms(1)])

lemma same_string_compare:
  "0 \<notin> set a \<Longrightarrow> 0 \<notin> set b \<Longrightarrow> same_string (a @ 0 # r) (b @ 0 # r') = Some (a = b)"
proof (induction a arbitrary: b)
  case Nil
  then show ?case by (cases b) auto
next
  case (Cons x a)
  then show ?case by (cases b) auto
qed

lemma privkey_gen_valid:
  assumes "valid_key secp k" "\<forall>b\<in>set bad. length b = 32 \<and> \<not> ec_seckey_verify secp b"
  shows "dogecoin_privkey_gen secp (map Some bad @ Some k # draws) key = Some (True, key\<lparr>privkey := k\<rparr>)"
  using assms(2)
proof (induction bad arbitrary: key)
  case Nil
  then show ?case using assms(1) by (simp add: valid_key_def dogecoin_ecc_verify_privatekey_def mem_simps)
next
  case (Cons b bad)
  then show ?case by (simp add: dogecoin_ecc_verify_privatekey_def mem_simps)
qed

lemma chain_for_network: "chain_for tn \<in> chains" "chain_for tn \<in> networks"
  by (auto simp: chain_for_def chains_def networks_def)

lemma other_secret: "b58prefix_secret_address (chain_for (\<not> tn)) \<noteq> b58prefix_secret_address (chain_for tn)"
  by (simp add: chain_for_def dogecoin_chainparams_main_def dogecoin_chainparams_test_def)

text \<open>What the functions compute for a valid key, from its text.\<close>

lemma verify_pair_text:
  assumes "secp256k1_laws secp" "valid_key secp k"
    and t: "check_text (b58prefix_secret_address (chain_for tn) # k @ [1]) t" "50 < length t" "length t \<le> 52"
    and a: "check_text (b58prefix_pubkey_address (chain_for tn) # key_hash (public_key secp k)) a" "length a \<le> 34"
    and q: "0 \<notin> set q"
  shows "verifyPrivPubKeypair secp (t @ 0 # r) (q @ 0 # r') tn = Some (q = a)"
    and "verifyPrivPubKeypair secp (t @ 0 # r) (q @ 0 # r') (\<not> tn) = Some False"
proof -
  have k: "length k = 32" "ec_seckey_verify secp k" using assms(2) by (simp_all add: valid_key_def)
  have d: "dogecoin_privkey_decode_wif (t @ 0 # r) chain key
      = Some (if b58prefix_secret_address chain = b58prefix_secret_address (chain_for tn) then (True, key\<lparr>privkey := k\<rparr>) else (False, key))"
    for chain key
    using decode_wif_text [OF t(1) k(1) t(2,3) network_prefixes(3) [OF chain_for_network(2)], of r chain key] by (simp only: eq_commute)
  have e: "dogecoin_privkey_encode_wif \<lparr>privkey = k\<rparr> (chain_for tn) (replicate 53 0) 53 = Some (t @ 0 # drop (length t + 1) (replicate 53 0))"
    by (rule encode_wif_text [OF t(1) k(1) t(3)]) simp
  note p = fresh_pubkey_from_key [OF assms(1,2)]
  have g: "dogecoin_pubkey_getaddr_p2pkh \<lparr>compressed = True, pubkey = public_key secp k @ replicate 32 0\<rparr> (chain_for tn) (replicate 53 0)
      = Some (True, a @ 0 # drop (length a + 1) (replicate 53 0))"
    by (rule getaddr_text [OF length_public_key [OF assms(1,2)] a]) simp
  note computed = d e p g privkey_valid [OF k(1)] pubkey_valid [OF assms(1,2)] zero_keys(2) [OF assms(1)]
    same_string_compare [OF q check_text_no_nul [OF a(1)]]
  show "verifyPrivPubKeypair secp (t @ 0 # r) (q @ 0 # r') tn = Some (q = a)"
    using k(2) by (simp add: verifyPrivPubKeypair_def Let_def computed dogecoin_privkey_init_def dogecoin_pubkey_init_def
        DOGECOIN_ECKEY_PKEY_LENGTH_def DOGECOIN_ECKEY_UNCOMPRESSED_LENGTH_def WIF_UNCOMPRESSED_PRIVKEY_STRINGLEN_def)
  show "verifyPrivPubKeypair secp (t @ 0 # r) (q @ 0 # r') (\<not> tn) = Some False"
    by (simp add: verifyPrivPubKeypair_def Let_def computed other_secret dogecoin_privkey_init_def DOGECOIN_ECKEY_PKEY_LENGTH_def)
qed

lemma drop_take_join: "i \<le> n \<Longrightarrow> drop i (take n w) @ drop n w = drop i w"
  by (metis append_take_drop_id diff_is_0_eq drop0 drop_append drop_eq_Nil length_take min.bounded_iff nle_le self_append_conv)

lemma generate_pair_text:
  assumes "secp256k1_laws secp" "valid_key secp k" "\<forall>b\<in>set bad. length b = 32 \<and> \<not> ec_seckey_verify secp b"
    and t: "check_text (b58prefix_secret_address (chain_for tn) # k @ [1]) t" "length t \<le> 52"
    and a: "check_text (b58prefix_pubkey_address (chain_for tn) # key_hash (public_key secp k)) a" "length a \<le> 34"
    and s: "53 \<le> length w" "35 \<le> length p"
  shows "generatePrivPubKeypair secp (map Some bad @ Some k # draws) (Some w) (Some p) tn
    = Some (True, Some (t @ 0 # drop (length t + 1) w), Some (a @ 0 # drop (length a + 1) p))"
proof -
  have k: "length k = 32" using assms(2) by (simp add: valid_key_def)
  have e: "dogecoin_privkey_encode_wif \<lparr>privkey = k\<rparr> (chain_for tn) (take 53 w) 53 = Some (t @ 0 # drop (length t + 1) (take 53 w))"
    by (rule encode_wif_text [OF t(1) k t(2)]) (use s in simp)
  note f = fresh_pubkey_from_key [OF assms(1,2)]
  have g: "dogecoin_pubkey_getaddr_p2pkh \<lparr>compressed = True, pubkey = public_key secp k @ replicate 32 0\<rparr> (chain_for tn) (take 35 p)
      = Some (True, a @ 0 # drop (length a + 1) (take 35 p))"
    by (rule getaddr_text [OF length_public_key [OF assms(1,2)] a]) (use s in simp)
  have w: "mem_write w 0 (t @ 0 # drop (Suc (length t)) (take 53 w)) = Some (t @ 0 # drop (Suc (length t)) w)"
    using s(1) t(2) drop_take_join [of "length t + 1" 53 w] by (simp add: mem_write_def)
  have q: "mem_write p 0 (a @ 0 # drop (Suc (length a)) (take 35 p)) = Some (a @ 0 # drop (Suc (length a)) p)"
    using s(2) a(2) drop_take_join [of "length a + 1" 35 p] by (simp add: mem_write_def)
  note computed = e f g w q privkey_gen_valid [OF assms(2,3)] zero_keys(3) [OF assms(1)]
    c_strlen_append [OF check_text_no_nul [OF t(1)]] c_strlen_append [OF check_text_no_nul [OF a(1)]]
  show ?thesis
    using s by (simp add: generatePrivPubKeypair_def Let_def computed dogecoin_privkey_init_def dogecoin_pubkey_init_def mem_read_def
        DOGECOIN_ECKEY_PKEY_LENGTH_def DOGECOIN_ECKEY_UNCOMPRESSED_LENGTH_def WIF_UNCOMPRESSED_PRIVKEY_STRINGLEN_def P2PKH_ADDR_STRINGLEN_def)
qed

lemma check_text_unique:
  assumes "check_text p t" "check_text p u"
  shows "t = u"
proof -
  let ?n = "length t + length u + 1"
  have "dogecoin_base58_encode_check p (length p) (replicate ?n 0) ?n = Some (length t + 1, t @ 0 # drop (length t + 1) (replicate ?n 0))"
    by (rule check_text_encode(2) [OF assms(1)]) simp_all
  moreover have "dogecoin_base58_encode_check p (length p) (replicate ?n 0) ?n = Some (length u + 1, u @ 0 # drop (length u + 1) (replicate ?n 0))"
    by (rule check_text_encode(2) [OF assms(2)]) simp_all
  ultimately have e: "length t = length u" "t @ 0 # drop (length t + 1) (replicate ?n 0) = u @ 0 # drop (length u + 1) (replicate ?n 0)"
    by simp_all
  from arg_cong [OF e(2), of "take (length t)"] e(1) show ?thesis by simp
qed

lemma address_of_text:
  assumes "check_text (b58prefix_pubkey_address chain # h) a" "chain \<in> chains" "length h = 20"
  shows "c_string (address_text chain h) = Some a"
proof -
  obtain t rest where t: "address_text chain h = t @ 0 # rest" "check_text (b58prefix_pubkey_address chain # h) t"
    using address_text_eq [OF assms(2,3)] by blast
  then show ?thesis using check_text_unique [OF t(2) assms(1)] c_string_append [OF check_text_no_nul [OF t(2)]] by simp
qed

text \<open>The first character of the text of a private key: \<open>c\<close> on the test network, \<open>Q\<close> on the main one.\<close>

lemma wif_first:
  assumes "check_text (b58prefix_secret_address (chain_for tn) # k @ [1]) t" "length k = 32"
  shows "\<exists>t'. t = (if tn then 99 else 81) # t'"
proof (cases tn)
  case True
  have "\<exists>d t'. 35 \<le> d \<and> d < 36 \<and> t = b58digits_ordered ! d # t'"
    by (rule check_text_first [OF assms(1), of 35 36 51])
      (use assms(2) True in \<open>simp_all add: chain_for_def dogecoin_chainparams_test_def\<close>)
  then obtain d t' where d: "35 \<le> d" "d < 36" "t = b58digits_ordered ! d # t'" by blast
  then have "d = 35" by linarith
  with d(3) True show ?thesis by (simp add: b58digits_ordered_def upt_rec)
next
  case False
  have "\<exists>d t'. 23 \<le> d \<and> d < 24 \<and> t = b58digits_ordered ! d # t'"
    by (rule check_text_first [OF assms(1), of 23 24 51])
      (use assms(2) False in \<open>simp_all add: chain_for_def dogecoin_chainparams_main_def\<close>)
  then obtain d t' where d: "23 \<le> d" "d < 24" "t = b58digits_ordered ! d # t'" by blast
  then have "d = 23" by linarith
  with d(3) False show ?thesis by (simp add: b58digits_ordered_def upt_rec)
qed

lemma own_script:
  assumes "secp256k1_laws secp" "valid_key secp k"
    and t: "check_text (b58prefix_secret_address (chain_for tn) # k @ [1]) t" "50 < length t" "length t \<le> 52"
  shows "dogecoin_private_key_wif_to_pubkey_hash secp (t @ 0 # r)
    = Some (Some (hex_chars (p2pkh_script (key_hash (public_key secp k))) @ [0]))"
proof -
  let ?h = "key_hash (public_key secp k)"
  have k: "length k = 32" "ec_seckey_verify secp k" using assms(2) by (simp_all add: valid_key_def)
  obtain t' where "t = (if tn then 99 else 81) # t'" using wif_first [OF t(1) k(1)] by blast
  then have c: "mem_get (t @ 0 # r) 0 = Some (if tn then 99 else 81)" by (simp add: mem_get_def)
  have n: "(if (if tn then 99 else 81) = (99 :: u8) then dogecoin_chainparams_test else dogecoin_chainparams_main) = chain_for tn"
    by (simp add: chain_for_def)
  have d: "dogecoin_privkey_decode_wif (t @ 0 # r) (chain_for tn) key = Some (True, key\<lparr>privkey := k\<rparr>)" for key
    using decode_wif_text [OF t(1) k(1) t(2,3) network_prefixes(3) [OF chain_for_network(2)], of r "chain_for tn" key] by simp
  have e: "dogecoin_privkey_encode_wif \<lparr>privkey = k\<rparr> (chain_for tn) (replicate 53 0) 53 = Some (t @ 0 # drop (length t + 1) (replicate 53 0))"
    by (rule encode_wif_text [OF t(1) k(1) t(3)]) simp
  note p = fresh_pubkey_from_key [OF assms(1,2)]
  obtain a where a: "check_text (b58prefix_pubkey_address (chain_for tn) # ?h) a" "length a \<le> 34"
    using pubkey_text [OF chain_for_network(2), of ?h] by auto
  have g: "dogecoin_pubkey_getaddr_p2pkh \<lparr>compressed = True, pubkey = public_key secp k @ replicate 32 0\<rparr> (chain_for tn) (replicate 53 0)
      = Some (True, a @ 0 # drop (length a + 1) (replicate 53 0))"
    by (rule getaddr_text [OF length_public_key [OF assms(1,2)] a]) simp
  have s: "dogecoin_p2pkh_address_to_pubkey_hash (a @ 0 # rest) (replicate 51 0) = Some (True, hex_chars (p2pkh_script ?h) @ [0])" for rest
    using address_script_text [OF a(1) _ network_prefixes(1) [OF chain_for_network(2)], of "replicate 51 0" rest] a(2) by simp
  note computed = d e p g s privkey_valid [OF k(1)] pubkey_valid [OF assms(1,2)]
  show ?thesis
    unfolding dogecoin_private_key_wif_to_pubkey_hash_def c Option.bind.bind_lunit Let_def n
    using k(2) by (simp add: computed dogecoin_privkey_init_def dogecoin_pubkey_init_def
        DOGECOIN_ECKEY_PKEY_LENGTH_def DOGECOIN_ECKEY_UNCOMPRESSED_LENGTH_def)
qed

section \<open>A curve to compute with\<close>

text \<open>A function in place of the curve that satisfies what is relied on: the public key of a key is the key.\<close>

definition sample_curve :: "(bytes, bytes) secp256k1" where
  "sample_curve = \<lparr>
     ec_seckey_verify = (\<lambda>k. k \<noteq> replicate 32 0),
     ec_pubkey_create = (\<lambda>k. if k \<noteq> replicate 32 0 then Some k else None),
     ec_pubkey_serialize = (\<lambda>pk c. if c then 2 # pk else 4 # pk @ pk),
     ec_pubkey_parse = (\<lambda>b. case b of [] \<Rightarrow> None | c # pk \<Rightarrow> if c = 2 then Some pk else None),
     ec_privkey_tweak_add = (\<lambda>k t. (map2 (XOR) k t \<noteq> replicate 32 0, map2 (XOR) k t)),
     ec_pubkey_tweak_add = (\<lambda>pk t. if map2 (XOR) pk t \<noteq> replicate 32 0 then Some (map2 (XOR) pk t) else None),
     ecdsa_sign = (\<lambda>h k. Some (h @ k)),
     ecdsa_verify = (\<lambda>s h pk. s = h @ pk),
     ecdsa_signature_normalize = (\<lambda>s. s),
     ecdsa_signature_serialize_der = (\<lambda>s. replicate 6 48 @ s),
     ecdsa_signature_parse_der = (\<lambda>d. Some (drop 6 d)),
     ecdsa_signature_serialize_compact = (\<lambda>s. s),
     ecdsa_signature_parse_compact = Some\<rparr>"

lemma sample_curve_laws: "secp256k1_laws sample_curve"
proof -
  have "replicate 65 (0 :: u8) = 0 # replicate 64 0" by (simp flip: replicate_Suc)
  then show ?thesis by (simp add: secp256k1_laws_def sample_curve_def)
qed

lemma sample_key: "valid_key sample_curve (replicate 32 7)"
  by (simp add: valid_key_def sample_curve_def)

section \<open>Pairs that are made are accepted\<close>

text \<open>C14: A generated key pair is accepted, and only with its own address. When the draws of random bytes come to
  a key in range, \<open>generatePrivPubKeypair\<close> writes the import text of that key, which is read back, and the
  address of the hash of its public key. \<open>verifyPrivPubKeypair\<close> accepts the text with an address string exactly
  when it is that address, and accepts nothing for the other network.\<close>

theorem keypair_verified:
  assumes "secp256k1_laws secp" "valid_key secp k" "\<forall>b\<in>set bad. length b = 32 \<and> \<not> ec_seckey_verify secp b"
    and "53 \<le> length w" "35 \<le> length p"
  shows "\<exists>w' p'. generatePrivPubKeypair secp (map Some bad @ Some k # draws) (Some w) (Some p) tn = Some (True, Some w', Some p')
    \<and> (\<forall>key. dogecoin_privkey_decode_wif w' (chain_for tn) key = Some (True, key\<lparr>privkey := k\<rparr>))
    \<and> c_string p' = c_string (address_text (chain_for tn) (key_hash (public_key secp k)))
    \<and> (\<forall>q r. 0 \<notin> set q \<longrightarrow> verifyPrivPubKeypair secp w' (q @ 0 # r) tn = Some (c_string p' = Some q)
        \<and> verifyPrivPubKeypair secp w' (q @ 0 # r) (\<not> tn) = Some False)"
proof -
  have k: "length k = 32" using assms(2) by (simp add: valid_key_def)
  obtain t where t: "check_text (b58prefix_secret_address (chain_for tn) # k @ [1]) t" "50 < length t" "length t \<le> 52"
    using wif_text [OF chain_for_network(2) k] by blast
  obtain a where a: "check_text (b58prefix_pubkey_address (chain_for tn) # key_hash (public_key secp k)) a" "length a \<le> 34"
    using pubkey_text [OF chain_for_network(2), of "key_hash (public_key secp k)"] by auto
  let ?w = "t @ 0 # drop (length t + 1) w"
  let ?p = "a @ 0 # drop (length a + 1) p"
  have "\<forall>key. dogecoin_privkey_decode_wif ?w (chain_for tn) key = Some (True, key\<lparr>privkey := k\<rparr>)"
    using decode_wif_text [OF t(1) k t(2,3) network_prefixes(3) [OF chain_for_network(2)]] by simp
  moreover have c: "c_string ?p = Some a" by (rule c_string_append [OF check_text_no_nul [OF a(1)]])
  moreover have "c_string (address_text (chain_for tn) (key_hash (public_key secp k))) = Some a"
    by (rule address_of_text [OF a(1) chain_for_network(1)]) simp
  ultimately show ?thesis
    using generate_pair_text [OF assms(1-3) t(1,3) a assms(4,5), of draws] verify_pair_text [OF assms(1,2) t a]
    by (intro exI [of _ ?w] exI [of _ ?p]) (auto simp del: drop_drop)
qed

lemma keypair_verified_witness:
  "\<exists>w' p'. generatePrivPubKeypair sample_curve [Some (replicate 32 0), Some (replicate 32 7)] (Some (replicate 53 0)) (Some (replicate 35 0)) False
      = Some (True, Some w', Some p')
    \<and> (\<forall>q r. 0 \<notin> set q \<longrightarrow> verifyPrivPubKeypair sample_curve w' (q @ 0 # r) False = Some (c_string p' = Some q))"
proof -
  have "\<forall>b\<in>set [replicate 32 0]. length b = 32 \<and> \<not> ec_seckey_verify sample_curve b" by (simp add: sample_curve_def)
  moreover have "53 \<le> length (replicate 53 (0 :: u8))" "35 \<le> length (replicate 35 (0 :: u8))" by simp_all
  ultimately show ?thesis
    using keypair_verified [OF sample_curve_laws sample_key, of "[replicate 32 0]" "replicate 53 0" "replicate 35 0" "[]" False]
    unfolding list.map append_Cons append_Nil by blast
qed

section \<open>Generating keys returns\<close>

text \<open>C40: When generating a key returns. The loop of \<open>dogecoin_privkey_gen\<close> has no bound: it is still running exactly
  when every draw of random bytes so far was out of range. Otherwise it has returned, with a key in range, or
  with false after a draw that failed.\<close>

theorem key_generation_returns:
  assumes "\<forall>r. Some r \<in> set draws \<longrightarrow> length r = 32"
  shows "(dogecoin_privkey_gen secp draws key = None \<longleftrightarrow> (\<forall>d\<in>set draws. \<exists>r. d = Some r \<and> \<not> ec_seckey_verify secp r))
    \<and> (\<forall>ok key'. dogecoin_privkey_gen secp draws key = Some (ok, key')
        \<longrightarrow> (if ok then valid_key secp (privkey key') \<and> Some (privkey key') \<in> set draws else None \<in> set draws))"
  using assms
proof (induction secp draws key rule: dogecoin_privkey_gen.induct)
  case (3 secp r draws key)
  have l: "length r = 32" "\<forall>r. Some r \<in> set draws \<longrightarrow> length r = 32" using "3.prems" by simp_all
  have v: "dogecoin_ecc_verify_privatekey secp (privkey (key\<lparr>privkey := r\<rparr>)) = Some (ec_seckey_verify secp r)"
    using l(1) by (simp add: dogecoin_ecc_verify_privatekey_def mem_simps)
  show ?case
  proof (cases "ec_seckey_verify secp r")
    case True
    then show ?thesis using v l(1) by (simp add: valid_key_def)
  next
    case False
    then show ?thesis using v "3.IH" [OF refl v _ l(2)] by auto
  qed
qed simp_all

lemma key_generation_returns_witness:
  "dogecoin_privkey_gen sample_curve [Some (replicate 32 0)] \<lparr>privkey = []\<rparr> = None
    \<and> dogecoin_privkey_gen sample_curve [Some (replicate 32 0), Some (replicate 32 7)] \<lparr>privkey = []\<rparr> \<noteq> None"
  using key_generation_returns [of "[Some (replicate 32 0)]" sample_curve "\<lparr>privkey = []\<rparr>"]
    key_generation_returns [of "[Some (replicate 32 0), Some (replicate 32 7)]" sample_curve "\<lparr>privkey = []\<rparr>"]
  by (simp add: sample_curve_def)

end
