(* ===== verification/TransactionTable.thy ===== *)
theory TransactionTable
  imports Transaction
begin

text \<open>
  What holds of the table of working transactions (\<open>src/transaction.c\<close>) as a whole: every table the library
  reaches is well formed, whatever the arguments of its calls; the table is a store of transactions (the
  locale \<open>transaction_store\<close>), which gives what a wallet relies on; what finalising does to fees and change;
  and when an index is used twice.
\<close>

section \<open>Every reachable table is well formed\<close>

definition table_ok :: "transactions \<Rightarrow> bool" where
  "table_ok txs \<longleftrightarrow> distinct (map idx txs) \<and> (\<forall>w\<in>set txs. 1 \<le> idx w \<and> (\<exists>a. tx_holds (transaction w) a))"

lemma table_ok_Nil [simp]: "table_ok []"
  by (simp add: table_ok_def)

lemma table_ok_find: "table_ok txs \<Longrightarrow> find_transaction i txs = Some w \<Longrightarrow> \<exists>a. tx_holds (transaction w) a"
  by (auto simp: table_ok_def dest!: find_transaction_idx)

lemma table_ok_set: "table_ok txs \<Longrightarrow> tx_holds t a \<Longrightarrow> table_ok (set_transaction i t txs)"
  unfolding table_ok_def by (auto simp: set_transaction_def comp_def if_distrib cong: if_cong)

lemma table_ok_filter: "table_ok txs \<Longrightarrow> table_ok (filter P txs)"
  by (auto simp: table_ok_def distinct_map_filter)

lemma table_ok_snoc:
  "table_ok txs \<Longrightarrow> idx w \<notin> idx ` set txs \<Longrightarrow> 1 \<le> idx w \<Longrightarrow> tx_holds (transaction w) a \<Longrightarrow> table_ok (txs @ [w])"
  by (auto simp: table_ok_def)

lemma table_ok_add:
  assumes "table_ok txs" "1 \<le> idx w" "tx_holds (transaction w) a"
  shows "table_ok (add_transaction w txs)"
proof (cases "find_transaction (idx w) txs")
  case None
  then have "table_ok (txs @ [w])" using table_ok_snoc [OF assms(1) _ assms(2,3)] by (simp add: find_transaction_None)
  then show ?thesis by (simp add: add_transaction_def None)
next
  case (Some x)
  then have "idx x = idx w" by (auto dest: find_transaction_idx)
  with Some assms show ?thesis
    by (auto simp: add_transaction_def intro!: table_ok_snoc table_ok_filter)
qed

lemma table_ok_start:
  assumes "table_ok txs" "start_transaction txs = Some (i, txs')"
  shows "table_ok txs'"
proof -
  obtain t where t: "dogecoin_tx_new = Some t" "txs' = add_transaction \<lparr>idx = int (length txs) + 1, transaction = t\<rparr> txs"
    using assms(2) by (auto simp: start_transaction_def new_transaction_def bind_eq_Some_conv)
  show ?thesis unfolding t(2) by (rule table_ok_add [OF assms(1)]) (use tx_new_view [OF t(1)] in simp_all)
qed

text \<open>Room for one more input and output in every entry.\<close>

definition tx_room :: "dogecoin_tx \<Rightarrow> bool" where
  "tx_room tx \<longleftrightarrow> (\<forall>v. vin tx = Some v \<longrightarrow> vlen v + 1 < 2 ^ 32) \<and> (\<forall>v. vout tx = Some v \<longrightarrow> vlen v + 1 < 2 ^ 32)"

lemma tx_room_views:
  "tx_holds tx a \<Longrightarrow> tx_room tx \<Longrightarrow> length (v_ins a) + 1 < 2 ^ 32 \<and> length (v_outs a) + 1 < 2 ^ 32"
  by (auto simp: tx_holds_def tx_room_def dest!: views_length)

lemma sethex_length: "utils_uint256_sethex t = Some h \<Longrightarrow> length h = 32"
proof -
  have "length (sethex_bytes ds n) \<le> n" for ds n by (induction ds n rule: sethex_bytes.induct) auto
  then show "utils_uint256_sethex t = Some h \<Longrightarrow> length h = 32"
    by (auto simp: utils_uint256_sethex_def Let_def bind_eq_Some_conv split: if_splits)
qed

lemma table_ok_utxo:
  assumes "table_ok txs" "add_utxo i t n txs = Some (r, txs')" "list_all (\<lambda>w. tx_room (transaction w)) txs"
  shows "table_ok txs'"
proof (cases "find_transaction i txs")
  case None
  with assms show ?thesis by (simp add: add_utxo_def)
next
  case (Some w)
  obtain a where a: "tx_holds (transaction w) a" using table_ok_find [OF assms(1) Some] by blast
  have room: "tx_room (transaction w)" using Some assms(3) by (auto simp: list_all_iff dest: find_transaction_idx)
  obtain h where h: "utils_uint256_sethex t = Some h" "length h = 32"
    using assms(2) Some sethex_length by (auto simp: add_utxo_def Let_def bind_eq_Some_conv)
  show ?thesis
    using add_input_holds [OF a _ h(2), of "of_int n"] tx_room_views [OF a room] table_ok_set [OF assms(1)] assms(2) Some h(1)
    by (auto simp: add_utxo_def Let_def)
qed

lemma pushdata_short: "length h < 20 \<Longrightarrow> dogecoin_script_append_pushdata s h 20 = None"
  by (simp add: dogecoin_script_append_pushdata_def cstr_append_buf_def memcpy_safe_def mem_simps)

lemma hash160_out_short:
  assumes "length h < 20"
  shows "dogecoin_tx_add_p2pkh_hash160_out tx n h = None" "dogecoin_tx_add_p2sh_hash160_out tx n h = None"
  by (simp_all add: dogecoin_tx_add_p2pkh_hash160_out_def dogecoin_tx_add_p2sh_hash160_out_def add_out_def
      dogecoin_script_build_p2pkh_def dogecoin_script_build_p2sh_def pushdata_short [OF assms])

lemma hash160_out_inv:
  assumes "tx_holds tx a" "length (v_outs a) + 1 < 2 ^ 32"
  shows "dogecoin_tx_add_p2pkh_hash160_out tx n h = Some (r, tx') \<Longrightarrow> \<exists>b. tx_holds tx' b"
    "dogecoin_tx_add_p2sh_hash160_out tx n h = Some (r, tx') \<Longrightarrow> \<exists>b. tx_holds tx' b"
proof -
  have l: "length (take 20 h) = 20" if "\<not> length h < 20" using that by simp
  show "dogecoin_tx_add_p2pkh_hash160_out tx n h = Some (r, tx') \<Longrightarrow> \<exists>b. tx_holds tx' b"
    using hash160_out_short(1) [of h tx n] hash160_out_holds(1) [OF assms l, of n "drop 20 h"] by (cases "length h < 20") auto
  show "dogecoin_tx_add_p2sh_hash160_out tx n h = Some (r, tx') \<Longrightarrow> \<exists>b. tx_holds tx' b"
    using hash160_out_short(2) [of h tx n] hash160_out_holds(2) [OF assms l, of n "drop 20 h"] by (cases "length h < 20") auto
qed

lemma address_out_inv:
  assumes "tx_holds tx a" "length (v_outs a) + 1 < 2 ^ 32" "dogecoin_tx_add_address_out tx chain n addr = Some (r, tx')"
  shows "\<exists>b. tx_holds tx' b"
  using assms(3) hash160_out_inv [OF assms(1,2)] assms(1)
  by (auto simp: dogecoin_tx_add_address_out_def bind_eq_Some_conv split: if_splits)

lemma table_ok_output:
  assumes "table_ok txs" "list_all (\<lambda>w. tx_room (transaction w)) txs"
  shows "add_output i addr amt txs = Some (r, txs') \<Longrightarrow> table_ok txs'"
    "make_change i addr fee n txs = Some (r, txs') \<Longrightarrow> table_ok txs'"
proof -
  have w: "table_ok (set_transaction i tx txs)"
    if f: "find_transaction i txs = Some w" "dogecoin_tx_add_address_out (transaction w) chain k addr = Some (q, tx)" for w chain k q tx
  proof -
    obtain a where a: "tx_holds (transaction w) a" using table_ok_find [OF assms(1) f(1)] by blast
    have "tx_room (transaction w)" using f(1) assms(2) by (auto simp: list_all_iff dest: find_transaction_idx)
    then show ?thesis using address_out_inv [OF a _ f(2)] tx_room_views [OF a] table_ok_set [OF assms(1)] by blast
  qed
  show "add_output i addr amt txs = Some (r, txs') \<Longrightarrow> table_ok txs'"
    using w assms(1) by (auto simp: add_output_def bind_eq_Some_conv split: option.splits)
  show "make_change i addr fee n txs = Some (r, txs') \<Longrightarrow> table_ok txs'"
    using w assms(1) by (auto simp: make_change_def bind_eq_Some_conv Let_def split: option.splits if_splits)
qed

lemma finalize_loop_table:
  assumes "finalize_loop i is_main fee total_in change k n c tot txs = Some (c', tot', txs')"
  shows "txs' = txs \<or> (\<exists>addr amt r. make_change i addr fee amt txs = Some (r, txs'))"
  using assms
proof (induction n arbitrary: k c tot)
  case (Suc n)
  from Suc.prems obtain w outs out ok s where e: "find_transaction i txs = Some w" "vout (transaction w) = Some outs"
    "vector_idx outs k = Some (Some out)" "dogecoin_tx_out_pubkey_hash_to_p2pkh_address out (replicate 36 0) is_main = Some (ok, s)"
    by (auto simp: bind_eq_Some_conv Let_def)
  show ?case
  proof (cases change)
    case None
    then show ?thesis using Suc.prems Suc.IH e by (simp add: Let_def)
  next
    case (Some addr)
    show ?thesis
    proof (cases "n = 0")
      case True
      then show ?thesis using Suc.prems e Some by (auto simp: Let_def bind_eq_Some_conv split: if_splits)
    next
      case False
      then show ?thesis using Suc.prems Suc.IH e Some by (simp add: Let_def)
    qed
  qed
qed simp

lemma table_ok_finalize:
  assumes "table_ok txs" "list_all (\<lambda>w. tx_room (transaction w)) txs" "finalize_transaction i dest fee amt change txs = Some (r, txs')"
  shows "table_ok txs'"
proof (cases "txs' = txs")
  case True
  with assms(1) show ?thesis by simp
next
  case False
  then obtain b f t n c x where "finalize_loop i b f t change 0 n 0 0 txs = Some (c, x, txs')"
    using assms(3) by (auto simp: finalize_transaction_def Let_def bind_eq_Some_conv split: option.splits if_splits)
  then show ?thesis using finalize_loop_table False table_ok_output(2) [OF assms(1,2)] by blast
qed

lemma table_ok_clear: "table_ok txs \<Longrightarrow> clear_transaction i txs = Some txs' \<Longrightarrow> table_ok txs'"
  by (auto simp: clear_transaction_def remove_transaction_def bind_eq_Some_conv intro: table_ok_filter)

lemma deser_bytes_Some: "deser_bytes n buf = Some (x, rest) \<longleftrightarrow> n \<le> length buf \<and> x = take n buf \<and> rest = drop n buf"
  by (auto simp: deser_bytes_def)

lemma deser_ints_length:
  "deser_u32 buf = Some (x, rest) \<Longrightarrow> length rest \<le> length buf"
  "deser_s32 buf = Some (x, rest) \<Longrightarrow> length rest \<le> length buf"
  "deser_s64 buf = Some (y, rest) \<Longrightarrow> length rest \<le> length buf"
  "deser_varlen buf = Some (x, rest) \<Longrightarrow> length rest \<le> length buf"
  by (auto simp: deser_u32_def deser_s32_def deser_s64_def deser_u64_def deser_u16_def deser_varlen_def deser_bytes_Some
      bind_eq_Some_conv Let_def split: if_splits)

lemma deser_u256_Some: "deser_u256 buf = Some (h, rest) \<Longrightarrow> length h = 32 \<and> length rest \<le> length buf"
  by (auto simp: deser_u256_def deser_bytes_Some)

lemma deser_varstr_holds:
  assumes "deser_varstr buf = Some (Some (s, rest))" "length buf < 2 ^ 30"
  shows "\<exists>bs. cstr_holds s bs \<and> length rest \<le> length buf"
proof -
  obtain n b where n: "deser_varlen buf = Some (n, b)" "unat n \<le> length b" "rest = drop (unat n) b"
    using assms(1) by (auto simp: deser_varstr_def bind_eq_Some_conv split: option.splits if_splits)
  have l: "length b \<le> length buf" using n(1) by (rule deser_ints_length)
  then have u: "unat n < 2 ^ 30" using n(2) assms(2) by linarith
  obtain t where t: "cstr_new_sz (unat n) = Some t" "cstr_holds t []" using cstr_new_sz_ok [OF u] by blast
  have "cstr_append_buf t (Some b) (unat n) = cstr_append_buf t (Some (take (unat n) b)) (unat n)"
    using n(2) by (simp add: cstr_append_buf_def memcpy_safe_def mem_read_def)
  moreover obtain s' where "cstr_append_buf t (Some (take (unat n) b)) (unat n) = Some s'" "cstr_holds s' (take (unat n) b)"
    using cstr_append_ok [OF t(2), of "take (unat n) b"] n(2) u by auto
  ultimately show ?thesis using assms(1) n t(1) l by (auto simp: deser_varstr_def)
qed

lemma in_deserialize_holds:
  assumes "dogecoin_tx_in_deserialize dogecoin_tx_in_new buf = Some (Some (i, rest))" "length buf < 2 ^ 30"
  shows "\<exists>a. in_holds i a \<and> length rest \<le> length buf"
proof -
  obtain h b where h: "(case deser_u256 buf of Some (h, buf) \<Rightarrow> (dogecoin_tx_in_new\<lparr>prevout := (prevout dogecoin_tx_in_new)\<lparr>prev_hash := h\<rparr>\<rparr>, buf)
      | None \<Rightarrow> (dogecoin_tx_in_new, buf)) = (dogecoin_tx_in_new\<lparr>prevout := (prevout dogecoin_tx_in_new)\<lparr>prev_hash := h\<rparr>\<rparr>, b)"
    "length h = 32" "length b \<le> length buf"
  proof (cases "deser_u256 buf")
    case None
    then show ?thesis using that [of "replicate 32 0" buf] by (simp add: dogecoin_tx_in_new_def)
  next
    case (Some p)
    then show ?thesis using that [of "fst p" "snd p"] deser_u256_Some [of buf "fst p" "snd p"] by (simp add: case_prod_beta)
  qed
  note d = assms(1) [unfolded dogecoin_tx_in_deserialize_def h(1)]
  obtain n b1 where e1: "deser_u32 b = Some (n, b1)" using d by (cases "deser_u32 b") (auto simp: Let_def)
  obtain s b2 where e2: "deser_varstr b1 = Some (Some (s, b2))"
    using d e1 by (cases "deser_varstr b1") (auto simp: Let_def split: option.splits)
  obtain q b3 where e3: "deser_u32 b2 = Some (q, b3)"
    using d e1 e2 by (cases "deser_u32 b2") (auto simp: Let_def)
  have e: "deser_u32 b = Some (n, b1)" "deser_varstr b1 = Some (Some (s, b2))" "deser_u32 b2 = Some (q, rest)"
    "i = dogecoin_tx_in_new\<lparr>prevout := \<lparr>prev_hash = h, prev_n = n\<rparr>, script_sig := Some s, sequence := q\<rparr>"
    using d e1 e2 e3 by (auto simp: Let_def dogecoin_tx_in_new_def)
  note l = deser_ints_length(1) [OF e(1)] deser_ints_length(1) [OF e(3)]
  obtain bs where bs: "cstr_holds s bs" "length b2 \<le> length b1"
    using deser_varstr_holds [OF e(2)] l(1) h(3) assms(2) by auto
  show ?thesis
    using bs(1) bs(2) l h(2,3) e(4)
    by (intro exI [of _ "\<lparr>in_hash = h, in_n = n, in_script = bs, in_seq = q\<rparr>"]) (auto simp: in_holds_def script_holds_def)
qed

lemma out_deserialize_holds:
  assumes "dogecoin_tx_out_deserialize x buf = Some (Some (out, rest))" "length buf < 2 ^ 30"
  shows "\<exists>a. out_holds out a \<and> length rest \<le> length buf"
proof -
  obtain v b1 s where e: "deser_s64 buf = Some (v, b1)" "deser_varstr b1 = Some (Some (s, rest))"
    "out = x\<lparr>tx_value := v, script_pubkey := Some s\<rparr>"
    using assms(1) by (auto simp: dogecoin_tx_out_deserialize_def bind_eq_Some_conv split: option.splits)
  note l = deser_ints_length(3) [OF e(1)]
  obtain bs where "cstr_holds s bs" "length rest \<le> length b1" using deser_varstr_holds [OF e(2)] l assms(2) by auto
  then show ?thesis
    using e(3) l by (intro exI [of _ "\<lparr>out_value = v, out_script = bs\<rparr>"]) (auto simp: out_holds_def script_holds_def)
qed

lemma deser_elements_holds:
  assumes "deser_elements f n v buf = Some (True, v', rest)" "vec_views r v as" "length as + n < 2 ^ 63" "length buf < 2 ^ 30"
    and "\<And>buf x rest. f buf = Some (Some (x, rest)) \<Longrightarrow> length buf < 2 ^ 30 \<Longrightarrow> \<exists>a. r x a \<and> length rest \<le> length buf"
  shows "\<exists>bs. vec_views r v' (as @ bs) \<and> length bs = n \<and> length rest \<le> length buf"
  using assms(1-4)
proof (induction n arbitrary: v buf as)
  case (Suc n)
  obtain x b w where e: "f buf = Some (Some (x, b))" "vector_add v (Some x) = Some w" "deser_elements f n w b = Some (True, v', rest)"
    using Suc.prems(1) by (auto simp: bind_eq_Some_conv split: option.splits)
  obtain a where a: "r x a" "length b \<le> length buf" using assms(5) [OF e(1) Suc.prems(4)] by blast
  obtain xs where xs: "vec_holds v (map Some xs)" "list_all2 r xs as" using Suc.prems(2) by (auto simp: vec_views_def)
  then have "length (map Some xs) < 2 ^ 63" using Suc.prems(3) by (simp add: list_all2_lengthD)
  then have "vec_holds w (map Some (xs @ [x]))" using vec_add [OF xs(1), of "Some x"] e(2) by auto
  then have "vec_views r w (as @ [a])"
    using xs(2) a(1) unfolding vec_views_def by (intro exI [of _ "xs @ [x]"]) (auto intro: list_all2_appendI)
  from Suc.IH [OF e(3) this] Suc.prems(3,4) a(2) obtain bs where
    "vec_views r v' ((as @ [a]) @ bs)" "length bs = n" "length rest \<le> length b" by auto
  then show ?case using a(2) by (intro exI [of _ "a # bs"]) auto
qed auto

lemma tx_deserialize_holds:
  assumes "dogecoin_tx_deserialize buf tx = Some (True, tx', k)" "dogecoin_tx_new = Some tx" "length buf < 2 ^ 30"
  shows "\<exists>a. tx_holds tx' a"
proof -
  obtain i0 o0 where t: "vin tx = Some i0" "vec_views in_holds i0 []" "vout tx = Some o0" "vec_views out_holds o0 []"
    using tx_new_view [OF assms(2)] by (auto simp: tx_holds_def)
  note d = assms(1) [unfolded dogecoin_tx_deserialize_def Let_def]
  obtain v b1 where e1: "deser_s32 buf = Some (v, b1)" using d by (cases "deser_s32 buf") auto
  obtain n b2 where e2: "deser_varlen b1 = Some (n, b2)" using d e1 by (cases "deser_varlen b1") auto
  obtain ins b3 where e3: "deser_elements (dogecoin_tx_in_deserialize dogecoin_tx_in_new) (unat n) i0 b2 = Some (True, ins, b3)"
    using d e1 e2 t(1) by (cases "deser_elements (dogecoin_tx_in_deserialize dogecoin_tx_in_new) (unat n) i0 b2")
      (auto split: if_splits)
  obtain n' b4 where e4: "deser_varlen b3 = Some (n', b4)" using d e1 e2 e3 t(1) by (cases "deser_varlen b3") auto
  obtain outs b5 where e5: "deser_elements (dogecoin_tx_out_deserialize dogecoin_tx_out_new) (unat n') o0 b4 = Some (True, outs, b5)"
    using d e1 e2 e3 e4 t(1,3) by (cases "deser_elements (dogecoin_tx_out_deserialize dogecoin_tx_out_new) (unat n') o0 b4")
      (auto split: if_splits)
  obtain l b6 where e6: "deser_u32 b5 = Some (l, b6)" using d e1 e2 e3 e4 e5 t(1,3) by (cases "deser_u32 b5") auto
  have e7: "tx' = tx\<lparr>tx_version := v, vin := Some ins, vout := Some outs, tx_locktime := l\<rparr>"
    using d e1 e2 e3 e4 e5 e6 t(1,3) by auto
  note e = e1 e2 e3 e4 e5 e6 e7
  have u: "unat n < 2 ^ 32" "unat n' < 2 ^ 32" using unat_bound [of n] unat_bound [of n'] by simp_all
  have l: "length b2 \<le> length buf" using deser_ints_length(2) [OF e(1)] deser_ints_length(4) [OF e(2)] by simp
  obtain as where as: "vec_views in_holds ins as" "length as = unat n" "length b3 \<le> length b2"
    using deser_elements_holds [OF e(3) t(2) _ _ in_deserialize_holds] u(1) l assms(3) by auto
  have l4: "length b4 \<le> length buf" using deser_ints_length(4) [OF e(4)] as(3) l by simp
  obtain bs where bs: "vec_views out_holds outs bs" "length bs = unat n'"
    using deser_elements_holds [OF e(5) t(4) _ _ out_deserialize_holds [where x = dogecoin_tx_out_new]] u(2) l4 assms(3) by auto
  show ?thesis
    using e(7) as bs u by (intro exI [of _ "\<lparr>v_version = v, v_ins = as, v_outs = bs, v_locktime = l\<rparr>"]) (simp add: tx_holds_def)
qed

lemma tx_copy_holds:
  assumes "tx_holds dest b" "tx_holds src a"
  shows "\<exists>d. dogecoin_tx_copy dest src = Some d \<and> tx_holds d a"
proof -
  obtain i out where v: "vin src = Some i" "vec_views in_holds i (v_ins a)" "vout src = Some out" "vec_views out_holds out (v_outs a)"
    using assms(2) by (auto simp: tx_holds_def)
  then show ?thesis
    using tx_copy_views [of in_holds src i "v_ins a" out "v_outs a" dest b] in_copy_holds(1) assms by (auto simp: tx_holds_def)
qed

lemma hex_to_bin_length: "utils_hex_to_bin text d n = Some (d', k) \<Longrightarrow> length d' = length d"
  by (auto simp: utils_hex_to_bin_def Let_def bind_eq_Some_conv dest: mem_write_length)

lemma read_raw_holds:
  assumes "\<not> n > 1024 * 100" "dogecoin_tx_new = Some t" "utils_hex_to_bin text (replicate n 0) n = Some (d, k)"
    "dogecoin_tx_deserialize (take k d) t = Some (True, t', q)" "dogecoin_tx_copy dest t' = Some c" "tx_holds dest b"
  shows "\<exists>a. tx_holds c a"
proof -
  have "length (take k d) < 2 ^ 30" using hex_to_bin_length [OF assms(3)] assms(1) by simp
  then obtain a where "tx_holds t' a" using tx_deserialize_holds [OF assms(4,2)] by blast
  then show ?thesis using tx_copy_holds [OF assms(6)] assms(5) by fastforce
qed

lemma table_ok_save:
  assumes "table_ok txs" "save_raw_transaction i text txs = Some (r, txs')"
  shows "table_ok txs'"
proof (cases "txs' = txs")
  case False
  then obtain n t d k t' q w c where e: "\<not> n > 1024 * 100" "dogecoin_tx_new = Some t"
    "utils_hex_to_bin text (replicate n 0) n = Some (d, k)" "dogecoin_tx_deserialize (take k d) t = Some (True, t', q)"
    "find_transaction i txs = Some w" "dogecoin_tx_copy (transaction w) t' = Some c" "txs' = set_transaction i c txs"
    using assms(2) by (auto simp: save_raw_transaction_def bind_eq_Some_conv split: if_splits)
  obtain b where "tx_holds (transaction w) b" using table_ok_find [OF assms(1) e(5)] by blast
  then show ?thesis using read_raw_holds [OF e(1-4,6)] table_ok_set [OF assms(1)] e(7) by blast
qed (use assms in simp)

lemma table_ok_store:
  assumes "table_ok txs" "store_raw_transaction text txs = Some (r, txs')"
  shows "table_ok txs'"
proof (cases "txs' = txs")
  case False
  note d = assms(2) [unfolded store_raw_transaction_def fresh_tx_new]
  obtain n where n: "c_strlen text = Some n" using d by (cases "c_strlen text") auto
  have small: "\<not> n > 1024 * 100" using d n False by auto
  obtain i txs1 where st: "start_transaction txs = Some (i, txs1)"
    using d n small by (cases "start_transaction txs") auto
  obtain w where w: "find_transaction i txs1 = Some w"
    using d n small st by (cases "find_transaction i txs1") auto
  obtain dat k where h: "utils_hex_to_bin text (replicate n 0) n = Some (dat, k)"
    using d n small st w by (cases "utils_hex_to_bin text (replicate n 0) n") auto
  obtain ok t' q where r: "dogecoin_tx_deserialize (take k dat) fresh_tx = Some (ok, t', q)"
    using d n small st w h by (cases "dogecoin_tx_deserialize (take k dat) fresh_tx") auto
  have c: "\<exists>c. dogecoin_tx_copy (transaction w) t' = Some c \<and> txs' = set_transaction i c txs1" if ok
    using d n small st w h r that by (cases "dogecoin_tx_copy (transaction w) t'") auto
  have no: "txs' = txs1" if "\<not> ok" using d n small st w h r that by auto
  note e = small fresh_tx_new st w h r c no
  have ok1: "table_ok txs1" using table_ok_start [OF assms(1) e(3)] .
  obtain b where b: "tx_holds (transaction w) b" using table_ok_find [OF ok1 e(4)] by blast
  show ?thesis
  proof (cases ok)
    case True
    with e(7) obtain c where c: "dogecoin_tx_copy (transaction w) t' = Some c" "txs' = set_transaction i c txs1" by blast
    have "dogecoin_tx_deserialize (take k dat) fresh_tx = Some (True, t', q)" using e(6) True by simp
    from read_raw_holds [OF e(1,2,5) this c(1) b] obtain a' where "tx_holds c a'" by blast
    then show ?thesis using table_ok_set [OF ok1] c(2) by simp
  qed (use ok1 e(8) in simp)
qed (use assms in simp)

text \<open>
  A call of the library that returns. Before an input or an output is added no transaction has \<open>2^32 - 1\<close> of
  them already.
\<close>

inductive table_step :: "transactions \<Rightarrow> transactions \<Rightarrow> bool" where
  started: "start_transaction txs = Some (i, txs') \<Longrightarrow> table_step txs txs'"
| utxo_added: "add_utxo i t n txs = Some (r, txs') \<Longrightarrow> list_all (\<lambda>w. tx_room (transaction w)) txs \<Longrightarrow> table_step txs txs'"
| output_added: "add_output i addr amt txs = Some (r, txs') \<Longrightarrow> list_all (\<lambda>w. tx_room (transaction w)) txs \<Longrightarrow> table_step txs txs'"
| change_made: "make_change i addr fee n txs = Some (r, txs') \<Longrightarrow> list_all (\<lambda>w. tx_room (transaction w)) txs \<Longrightarrow> table_step txs txs'"
| finalized: "finalize_transaction i dest feetext verify change txs = Some (hex, txs')
    \<Longrightarrow> list_all (\<lambda>w. tx_room (transaction w)) txs \<Longrightarrow> table_step txs txs'"
| saved: "save_raw_transaction i raw txs = Some (r, txs') \<Longrightarrow> table_step txs txs'"
| stored: "store_raw_transaction raw txs = Some (i, txs') \<Longrightarrow> table_step txs txs'"
| cleared: "clear_transaction i txs = Some txs' \<Longrightarrow> table_step txs txs'"
| removed_all: "table_step txs (remove_all txs)"

inductive_cases table_stepE: "table_step txs txs'"

lemma table_ok_remove_all: "table_ok txs \<Longrightarrow> table_ok (remove_all txs)"
proof -
  have "table_ok (fold remove_transaction ws txs)" if "table_ok txs" for ws
    using that by (induction ws arbitrary: txs) (simp_all add: remove_transaction_def table_ok_filter)
  then show "table_ok txs \<Longrightarrow> table_ok (remove_all txs)" by (simp add: remove_all_def)
qed

lemma remove_all_empty: "remove_all txs = []"
proof -
  have "set (fold remove_transaction ws txs) = {w \<in> set txs. idx w \<notin> idx ` set ws}" for ws
    by (induction ws arbitrary: txs) (auto simp: remove_transaction_def)
  then have "set (remove_all txs) = {}" by (auto simp: remove_all_def)
  then show ?thesis by simp
qed

lemma table_step_ok: "table_step txs txs' \<Longrightarrow> table_ok txs \<Longrightarrow> table_ok txs'"
  by (erule table_stepE)
    (auto intro: table_ok_start table_ok_utxo table_ok_output table_ok_finalize table_ok_save table_ok_store table_ok_clear
      table_ok_remove_all)

text \<open>C7: The table of working transactions is always well formed. In every table that calls of the library
  reach from the empty one, with any arguments, the indices are distinct and positive, and every entry
  holds a transaction: its vectors and scripts are proper objects, so that it serialises, and
  \<open>get_raw_transaction\<close> gives the hexadecimal of the wire format or a null pointer.\<close>

theorem table_well_formed:
  assumes "table_step\<^sup>*\<^sup>* [] txs"
  shows "distinct (map idx txs)
    \<and> (\<forall>w\<in>set txs. 1 \<le> idx w \<and> find_transaction (idx w) txs = Some w
        \<and> (\<exists>a. tx_holds (transaction w) a
            \<and> (length (tx_bytes a) < 2 ^ 30 \<longrightarrow> get_raw_transaction (idx w) txs = Some (raw_text a))))"
proof -
  have ok: "table_ok txs" using assms by (induction rule: rtranclp_induct) (auto intro: table_step_ok)
  have "get_raw_transaction (idx w) txs = Some (raw_text a)"
    if "w \<in> set txs" "tx_holds (transaction w) a" "length (tx_bytes a) < 2 ^ 30" for w a
    using get_raw_entry that ok by (simp add: table_ok_def find_transaction_iff)
  moreover have "find_transaction (idx w) txs = Some w \<and> 1 \<le> idx w \<and> (\<exists>a. tx_holds (transaction w) a)" if "w \<in> set txs" for w
    using that ok by (auto simp: table_ok_def find_transaction_iff)
  moreover have "distinct (map idx txs)" using ok by (simp add: table_ok_def)
  ultimately show ?thesis by blast
qed

lemma table_well_formed_witness:
  "\<exists>txs. table_step\<^sup>*\<^sup>* [] txs \<and> length txs = 1 \<and> (\<forall>w\<in>set txs. find_transaction (idx w) txs = Some w)"
proof -
  obtain t where t: "start_transaction [] = Some (1, [\<lparr>idx = 1, transaction = t\<rparr>])"
    by (auto simp: start_transaction_def new_transaction_def fresh_tx_new add_transaction_def find_transaction_def)
  then have r: "table_step\<^sup>*\<^sup>* [] [\<lparr>idx = 1, transaction = t\<rparr>]" by (blast intro: started)
  from table_well_formed [OF r] r show ?thesis by (intro exI [of _ "[\<lparr>idx = 1, transaction = t\<rparr>]"]) simp
qed

section \<open>What a wallet relies on\<close>

definition succeeds :: "(bool \<times> 's) option \<Rightarrow> 's option" where
  "succeeds r = do { (ok, s) \<leftarrow> r; (if ok then Some s else None) }"

lemma succeeds_True [simp]: "succeeds (Some (True, s)) = Some s"
  by (simp add: succeeds_def)

definition payment :: "(bytes \<times> int) list \<Rightarrow> (bytes \<times> u64) list \<Rightarrow> tx_view" where
  "payment us os = empty_view\<lparr>v_ins := map (\<lambda>(h, n). \<lparr>in_hash = h, in_n = of_int n, in_script = [], in_seq = 0xffffffff\<rparr>) us,
     v_outs := map (\<lambda>(h, n). \<lparr>out_value = n, out_script = p2pkh_script h\<rparr>) os\<rparr>"

lemma fold_inputs:
  "fold (\<lambda>(h, n) a. with_input a h (of_int n)) us a
   = a\<lparr>v_ins := v_ins a @ map (\<lambda>(h, n). \<lparr>in_hash = h, in_n = of_int n, in_script = [], in_seq = 0xffffffff\<rparr>) us\<rparr>"
  by (induction us arbitrary: a) (auto simp: with_input_def)

lemma fold_outputs:
  "fold (\<lambda>(h, n) a. with_output a n (p2pkh_script h)) os a
   = a\<lparr>v_outs := v_outs a @ map (\<lambda>(h, n). \<lparr>out_value = n, out_script = p2pkh_script h\<rparr>) os\<rparr>"
  by (induction os arbitrary: a) (auto simp: with_output_def)

text \<open>
  A store of transactions under construction: starting one, spending an output of a transaction, paying to
  the address of a key, and reading the result.
\<close>

locale transaction_store =
  fixes holds :: "'s \<Rightarrow> (int \<Rightarrow> tx_view option) \<Rightarrow> bool"
    and start :: "'s \<Rightarrow> (int \<times> 's) option"
    and spend :: "int \<Rightarrow> bytes \<Rightarrow> int \<Rightarrow> 's \<Rightarrow> (bool \<times> 's) option"
    and pay :: "int \<Rightarrow> bytes \<Rightarrow> bytes \<Rightarrow> 's \<Rightarrow> (bool \<times> 's) option"
    and raw :: "int \<Rightarrow> 's \<Rightarrow> bytes option option"
  assumes start_law: "holds s m \<Longrightarrow> \<exists>s'. start s = Some (int (card (dom m)) + 1, s') \<and> holds s' (m(int (card (dom m)) + 1 \<mapsto> empty_view))"
    and spend_law: "holds s m \<Longrightarrow> m i = Some a \<Longrightarrow> length (v_ins a) + 1 < 2 ^ 32 \<Longrightarrow> length h = 32 \<Longrightarrow>
      \<exists>s'. spend i (txid_text h) pos s = Some (True, s') \<and> holds s' (m(i \<mapsto> with_input a h (of_int pos)))"
    and pay_law: "holds s m \<Longrightarrow> m i = Some a \<Longrightarrow> chain \<in> chains \<Longrightarrow> length h = 20 \<Longrightarrow> koinu_valid n \<Longrightarrow> length (v_outs a) + 1 < 2 ^ 32 \<Longrightarrow>
      \<exists>s'. pay i (address_text chain h) (amount_text n) s = Some (True, s') \<and> holds s' (m(i \<mapsto> with_output a n (p2pkh_script h)))"
    and raw_law: "holds s m \<Longrightarrow> m i = Some a \<Longrightarrow> length (tx_bytes a) < 2 ^ 30 \<Longrightarrow> raw i s = Some (raw_text a)"
begin

definition spend_all :: "int \<Rightarrow> (bytes \<times> int) list \<Rightarrow> 's \<Rightarrow> 's option" where
  "spend_all i = each_of (\<lambda>(h, n) s. succeeds (spend i (txid_text h) n s))"

definition pay_all :: "int \<Rightarrow> dogecoin_chainparams \<Rightarrow> (bytes \<times> u64) list \<Rightarrow> 's \<Rightarrow> 's option" where
  "pay_all i chain = each_of (\<lambda>(h, n) s. succeeds (pay i (address_text chain h) (amount_text n) s))"

lemma spend_all_holds:
  assumes "holds s m" "m i = Some a" "length (v_ins a) + length us < 2 ^ 32" "\<forall>(h, n)\<in>set us. length h = 32"
  shows "\<exists>s'. spend_all i us s = Some s' \<and> holds s' (m(i \<mapsto> fold (\<lambda>(h, n) a. with_input a h (of_int n)) us a))"
  using assms
proof (induction us arbitrary: s m a)
  case Nil
  then have "m(i \<mapsto> a) = m" by auto
  then show ?case using Nil by (simp add: spend_all_def)
next
  case (Cons u us)
  obtain h n where u: "u = (h, n)" by fastforce
  obtain s1 where s1: "spend i (txid_text h) n s = Some (True, s1)" "holds s1 (m(i \<mapsto> with_input a h (of_int n)))"
    using spend_law [OF Cons.prems(1,2), of h n] Cons.prems(3,4) u by auto
  have "\<exists>s'. spend_all i us s1 = Some s' \<and> holds s' ((m(i \<mapsto> with_input a h (of_int n)))
      (i \<mapsto> fold (\<lambda>(h, n) a. with_input a h (of_int n)) us (with_input a h (of_int n))))"
    by (rule Cons.IH [OF s1(2)]) (use Cons.prems(3,4) in \<open>simp_all add: with_input_def\<close>)
  then show ?case using s1(1) u by (simp add: spend_all_def del: fun_upd_apply)
qed

lemma pay_all_holds:
  assumes "holds s m" "m i = Some a" "chain \<in> chains" "length (v_outs a) + length us < 2 ^ 32"
    and "\<forall>(h, n)\<in>set us. length h = 20 \<and> koinu_valid n"
  shows "\<exists>s'. pay_all i chain us s = Some s' \<and> holds s' (m(i \<mapsto> fold (\<lambda>(h, n) a. with_output a n (p2pkh_script h)) us a))"
  using assms
proof (induction us arbitrary: s m a)
  case Nil
  then have "m(i \<mapsto> a) = m" by auto
  then show ?case using Nil by (simp add: pay_all_def)
next
  case (Cons u us)
  obtain h n where u: "u = (h, n)" by fastforce
  obtain s1 where s1: "pay i (address_text chain h) (amount_text n) s = Some (True, s1)" "holds s1 (m(i \<mapsto> with_output a n (p2pkh_script h)))"
    using pay_law [OF Cons.prems(1-3), of h n] Cons.prems(4,5) u by auto
  have "\<exists>s'. pay_all i chain us s1 = Some s' \<and> holds s' ((m(i \<mapsto> with_output a n (p2pkh_script h)))
      (i \<mapsto> fold (\<lambda>(h, n) a. with_output a n (p2pkh_script h)) us (with_output a n (p2pkh_script h))))"
    by (rule Cons.IH [OF s1(2)]) (use Cons.prems(3-5) in \<open>simp_all add: with_output_def\<close>)
  then show ?case using s1(1) u by (simp add: pay_all_def del: fun_upd_apply)
qed

lemma payment_built:
  assumes "holds s m" "chain \<in> chains" "length us < 2 ^ 32" "length os < 2 ^ 32" "\<forall>(h, n)\<in>set us. length h = 32"
    and "\<forall>(h, n)\<in>set os. length h = 20 \<and> koinu_valid n" "length (tx_bytes (payment us os)) < 2 ^ 30"
  defines "i \<equiv> int (card (dom m)) + 1"
  shows "\<exists>s1 s2 s3. start s = Some (i, s1) \<and> spend_all i us s1 = Some s2 \<and> pay_all i chain os s2 = Some s3
    \<and> raw i s3 = Some (raw_text (payment us os)) \<and> holds s3 (m(i \<mapsto> payment us os))"
proof -
  obtain s1 where s1: "start s = Some (i, s1)" "holds s1 (m(i \<mapsto> empty_view))" using start_law [OF assms(1)] by (auto simp: i_def)
  obtain s2 where s2: "spend_all i us s1 = Some s2"
    "holds s2 (m(i \<mapsto> fold (\<lambda>(h, n) a. with_input a h (of_int n)) us empty_view))"
    using spend_all_holds [OF s1(2), of i empty_view us] assms(3,5) by (auto simp: empty_view_def)
  obtain s3 where s3: "pay_all i chain os s2 = Some s3" "holds s3 (m(i \<mapsto> payment us os))"
    using pay_all_holds [OF s2(2), of i _ chain os] assms(2,4,6)
    by (auto simp: fold_inputs fold_outputs empty_view_def payment_def)
  have "raw i s3 = Some (raw_text (payment us os))" using raw_law [OF s3(2)] assms(7) by simp
  with s1(1) s2(1) s3 show ?thesis by blast
qed

end

interpretation wallet: transaction_store table_holds start_transaction add_utxo add_output get_raw_transaction
proof unfold_locales
  fix txs m i a h pos
  assume "table_holds txs m" "m i = Some a" "length (v_ins a) + 1 < 2 ^ 32" "length (h :: bytes) = 32"
  then show "\<exists>s'. add_utxo i (txid_text h) pos txs = Some (True, s') \<and> table_holds s' (m(i \<mapsto> with_input a h (of_int pos)))"
    unfolding txid_text_def by (rule add_utxo_holds)
qed (auto intro: start_holds add_output_holds get_raw_holds)

text \<open>C6: The library builds the transaction it is asked for, for payments to keys. In any table with well-formed entries:
  starting a transaction gives the next index, adding any inputs with ids of 32 bytes and then outputs to the addresses of key
  hashes of one network, main or test, with amounts that have a text, succeeds, and \<open>get_raw_transaction\<close> gives the
  hexadecimal text of exactly the transaction with these inputs and outputs in this order, or a null pointer when that
  transaction has more than 1023 bytes. The other entries do not change. (Outputs to addresses of scripts are not covered.)\<close>

theorem transaction_built:
  assumes "table_holds txs m" "chain \<in> chains" "length us < 2 ^ 32" "length os < 2 ^ 32" "\<forall>(h, n)\<in>set us. length h = 32"
    and "\<forall>(h, n)\<in>set os. length h = 20 \<and> koinu_valid n" "length (tx_bytes (payment us os)) < 2 ^ 30"
  defines "i \<equiv> int (card (dom m)) + 1"
  shows "\<exists>txs1 txs2 txs3. start_transaction txs = Some (i, txs1)
    \<and> each_of (\<lambda>(h, n) s. succeeds (add_utxo i (txid_text h) n s)) us txs1 = Some txs2
    \<and> each_of (\<lambda>(h, n) s. succeeds (add_output i (address_text chain h) (amount_text n) s)) os txs2 = Some txs3
    \<and> get_raw_transaction i txs3 = Some (raw_text (payment us os)) \<and> table_holds txs3 (m(i \<mapsto> payment us os))"
  using wallet.payment_built [OF assms(1-7)] unfolding wallet.spend_all_def wallet.pay_all_def i_def .

lemma transaction_built_witness:
  "\<exists>txs1 txs2 txs3. start_transaction [] = Some (1, txs1)
    \<and> succeeds (add_utxo 1 (txid_text (replicate 32 7)) 2 txs1) = Some txs2
    \<and> succeeds (add_output 1 (address_text dogecoin_chainparams_main (replicate 20 9)) (amount_text 5) txs2) = Some txs3
    \<and> get_raw_transaction 1 txs3 = Some (raw_text (payment [(replicate 32 7, 2)] [(replicate 20 9, 5)]))"
proof -
  have l: "length (tx_bytes (payment [(replicate 32 7, 2)] [(replicate 20 9, 5)])) < 2 ^ 30"
    by (simp add: payment_def empty_view_def tx_bytes_def in_bytes_def out_bytes_def varstr_bytes_def p2pkh_script_bytes
        varlen_bytes_def del: le_bytes_numeral)
  have e: "table_holds [] Map.empty" by (simp add: table_holds_def)
  show ?thesis
    using transaction_built [OF e _ _ _ _ _ l, of dogecoin_chainparams_main] unfolding chains_def
    by (simp add: koinu_valid_def UINT64_MAX_def UNDERFLOW_VALUE_def bind_eq_Some_conv) blast
qed

section \<open>Fees and change\<close>

lemma unat_change:
  fixes v t f :: u64
  shows "unat t + unat f \<le> unat v \<Longrightarrow> unat (v - t - f) + unat t + unat f = unat v"
    "unat v < unat t + unat f \<Longrightarrow> unat t + unat f < 2 ^ 64 \<Longrightarrow> unat (v - t - f) + unat t + unat f = unat v + 2 ^ 64"
  using unat_bound [of v] by (auto simp: unat_sub_if')

lemma outs_total_output: "outs_total (with_output a n sc) = outs_total a + n"
  by (simp add: outs_total_def with_output_def)

text \<open>What finalising does to fees and change. For a transaction whose outputs pay to keys: without a change
  address \<open>finalize_transaction\<close> gives its text exactly when the outputs sum to the amount less the fee. With
  one it always gives the text: it first adds an output with the amount less outputs and fee, unless that
  is zero. When the amount covers outputs and fee this makes amount, fee and outputs balance; when it does
  not, the subtraction wraps around and the transaction that is handed out pays almost \<open>2^64\<close> koinu of change.\<close>

theorem finalize_outcome:
  assumes "table_holds txs m" "m i = Some a" "pays_keys a" "v_outs a \<noteq> []" "length (v_outs a) + 1 < 2 ^ 32"
    and "koinu_valid fee" "koinu_valid v" "chain \<in> chains" "length h = 20" "length (tx_bytes a) < 2 ^ 20"
  shows "finalize_transaction i (c # dest) (amount_text fee) (amount_text v) None txs
      = Some (if outs_total a = v - fee then raw_text a else None, txs)
    \<and> (\<exists>b txs'. finalize_transaction i (c # dest) (amount_text fee) (amount_text v) (Some (address_text chain h)) txs
          = Some (raw_text b, txs')
        \<and> table_holds txs' (m(i \<mapsto> b))
        \<and> b = (if v - outs_total a = fee then a else with_output a (v - outs_total a - fee) (p2pkh_script h))
        \<and> outs_total b + fee = v)
    \<and> (unat (outs_total a) + unat fee \<le> unat v \<longrightarrow> unat (v - outs_total a - fee) + unat (outs_total a) + unat fee = unat v)
    \<and> (unat v < unat (outs_total a) + unat fee \<and> unat (outs_total a) + unat fee < 2 ^ 64
        \<longrightarrow> unat (v - outs_total a - fee) + unat (outs_total a) + unat fee = unat v + 2 ^ 64)"
proof -
  let ?b = "if v - outs_total a = fee then a else with_output a (v - outs_total a - fee) (p2pkh_script h)"
  note texts = amount_text_read [OF assms(6)] amount_text_read [OF assms(7)]
  have "length (tx_bytes (with_output a n (p2pkh_script h))) < 2 ^ 30" for n
  proof -
    have "length (tx_bytes (with_output a n (p2pkh_script h))) \<le> length (tx_bytes a) + 100"
      using assms(9) by (auto simp: tx_bytes_def with_output_def out_bytes_def varstr_bytes_def varlen_bytes_def
          p2pkh_script_bytes simp del: le_bytes_numeral)
    then show ?thesis using assms(10) by simp
  qed
  then have lb: "length (tx_bytes ?b) < 2 ^ 30" using assms(10) by simp
  have "outs_total ?b + fee = v" by (auto simp: outs_total_output)
  moreover have "length (tx_bytes a) < 2 ^ 30" using assms(10) by simp
  ultimately show ?thesis
    using finalize_plain [OF assms(1-3) _ texts, of c dest] finalize_with_change [OF assms(1-5) texts assms(8,9) lb, of c dest]
      assms(4) unat_change [where t = "outs_total a" and f = fee and v = v] by auto
qed

lemma finalize_outcome_witness:
  "\<exists>txs m a b txs'. table_holds txs m \<and> m 1 = Some a
    \<and> finalize_transaction 1 [68] (amount_text 100000000) (amount_text 5) (Some (address_text dogecoin_chainparams_main (replicate 20 1))) txs
      = Some (raw_text b, txs')
    \<and> table_holds txs' (m(1 \<mapsto> b)) \<and> v_outs b \<noteq> v_outs a"
proof -
  let ?a = "payment [] [(replicate 20 9, 7)]"
  obtain txs where t: "table_holds txs [1 \<mapsto> ?a]"
    using wallet.payment_built [of "[]" Map.empty dogecoin_chainparams_main "[]" "[(replicate 20 9, 7)]"]
    by (auto simp: table_holds_def chains_def koinu_valid_def UINT64_MAX_def UNDERFLOW_VALUE_def
        payment_def empty_view_def tx_bytes_def out_bytes_def varstr_bytes_def p2pkh_script_bytes
        varlen_bytes_def simp del: le_bytes_numeral)
  have a: "v_outs ?a = [\<lparr>out_value = 7, out_script = p2pkh_script (replicate 20 9)\<rparr>]" by (simp add: payment_def)
  have "length (tx_bytes ?a) < 2 ^ 20"
    by (simp add: payment_def empty_view_def tx_bytes_def out_bytes_def varstr_bytes_def p2pkh_script_bytes
        varlen_bytes_def del: le_bytes_numeral)
  moreover have "pays_keys ?a" by (auto simp: pays_keys_def a intro: exI [of _ "replicate 20 9"])
  ultimately obtain b txs' where b: "finalize_transaction 1 [68] (amount_text 100000000) (amount_text 5)
      (Some (address_text dogecoin_chainparams_main (replicate 20 1))) txs = Some (raw_text b, txs')"
    "table_holds txs' ([1 \<mapsto> ?a](1 \<mapsto> b))"
    "b = (if 5 - outs_total ?a = 100000000 then ?a else with_output ?a (5 - outs_total ?a - 100000000) (p2pkh_script (replicate 20 1)))"
    using finalize_outcome [OF t, of 1 ?a 100000000 5 dogecoin_chainparams_main "replicate 20 1" 68 "[]"] a
    by (auto simp: chains_def koinu_valid_def UINT64_MAX_def UNDERFLOW_VALUE_def)
  have "5 - outs_total ?a \<noteq> 100000000" by (simp add: outs_total_def a)
  then have "v_outs b \<noteq> v_outs ?a" using b(3) by (simp add: with_output_def)
  with t b(1,2) show ?thesis by (intro exI [of _ txs] exI [of _ "[1 \<mapsto> ?a]"] exI [of _ ?a] exI [of _ b] exI [of _ txs']) simp
qed

section \<open>Indices that are used again\<close>

text \<open>An index is the number of entries plus one, so clearing a transaction makes a later one take the place
  of a live one. With the entries 1 to \<open>n\<close>, after \<open>clear_transaction\<close> of another than the last,
  \<open>start_transaction\<close> gives the index \<open>n\<close> and the transaction that was there is gone: the entry is empty.\<close>

theorem start_after_clear:
  assumes "table_holds txs m" "dom m = {1..int n}" "1 \<le> i" "i < int n"
  shows "\<exists>txs1 txs2. clear_transaction i txs = Some txs1 \<and> start_transaction txs1 = Some (int n, txs2)
    \<and> table_holds txs2 ((m(i := None))(int n \<mapsto> empty_view))"
proof -
  obtain txs1 where c: "clear_transaction i txs = Some txs1" "table_holds txs1 (m(i := None))"
    using clear_holds [OF assms(1), of i] assms(2-4) by auto
  have "dom (m(i := None)) = {1..int n} - {i}" using assms(2) by simp
  then have "card (dom (m(i := None))) = n - 1" using assms(3,4) by simp
  then have "int (card (dom (m(i := None)))) + 1 = int n" using assms(3,4) by simp
  then show ?thesis using start_holds [OF c(2)] c(1) by auto
qed

lemma start_after_clear_witness:
  "\<exists>txs a txs1 txs2. table_holds txs [1 \<mapsto> empty_view, 2 \<mapsto> a] \<and> a \<noteq> empty_view
    \<and> clear_transaction 1 txs = Some txs1 \<and> start_transaction txs1 = Some (2, txs2) \<and> table_holds txs2 [2 \<mapsto> empty_view]"
proof -
  have e: "table_holds [] Map.empty" by (simp add: table_holds_def)
  obtain t1 where t1: "table_holds t1 [1 \<mapsto> empty_view]" using start_holds [OF e] by auto
  obtain t2 where t2: "table_holds t2 [1 \<mapsto> empty_view, 2 \<mapsto> empty_view]" using start_holds [OF t1] by auto
  obtain txs where t: "table_holds txs [1 \<mapsto> empty_view, 2 \<mapsto> with_input empty_view (replicate 32 7) 0]"
    using add_utxo_holds [OF t2, of 2 empty_view "replicate 32 7" "[]" 0] by (auto simp: empty_view_def)
  have "dom [1 \<mapsto> empty_view, 2 \<mapsto> with_input empty_view (replicate 32 7) 0] = {1..int 2}" by auto
  from start_after_clear [OF t this, of 1]
  obtain txs1 txs2 where s: "clear_transaction 1 txs = Some txs1" "start_transaction txs1 = Some (2, txs2)"
    "table_holds txs2 ([1 \<mapsto> empty_view, 2 \<mapsto> with_input empty_view (replicate 32 7) 0](1 := None, 2 \<mapsto> empty_view))"
    by auto
  have "[1 \<mapsto> empty_view, 2 \<mapsto> with_input empty_view (replicate 32 7) 0](1 := None, 2 \<mapsto> empty_view) = [2 \<mapsto> empty_view]"
    by auto
  moreover have "with_input empty_view (replicate 32 7) 0 \<noteq> empty_view" by (simp add: with_input_def empty_view_def)
  ultimately show ?thesis using t s by metis
qed

end
