(* ===== verification/Signing.thy ===== *)
theory Signing
  imports Keys TransactionTable
begin

unbundle bit_operations_syntax

text \<open>
  Signing: \<open>dogecoin_tx_sign_input\<close> of \<open>src/tx.c\<close> and the functions of \<open>src/transaction.c\<close> that sign the text of a
  transaction and the entries of the table. A private key in its import format signs one input of an entry with the
  script that pays to its own key; the table then holds the same transaction with that script appended to.
\<close>

section \<open>Signing an input\<close>

text \<open>
  The signature of a hash: the compact form, the buffer with the normalised DER form followed by the hash type, and
  the length of that. The buffers are written before they are read. A DER form of fewer than 70 bytes is an
  assertion that fails.
\<close>

definition sign_digest :: "('pk, 'sig) secp256k1 \<Rightarrow> dogecoin_key \<Rightarrow> bytes \<Rightarrow> int \<Rightarrow> (bytes \<times> bytes \<times> nat) option" where
  "sign_digest secp key sighash sighashtype = do {
     (_, sig, siglen) \<leftarrow> dogecoin_key_sign_hash_compact secp key sighash (replicate 64 0) 0;
     _ \<leftarrow> (if siglen = 64 then Some () else None);
     (_, d, n) \<leftarrow> dogecoin_ecc_compact_to_der_normalized secp sig (replicate 75 0) 75;
     _ \<leftarrow> (if n \<le> 74 \<and> n \<ge> 70 then Some () else None);
     d \<leftarrow> mem_set d n (of_int sighashtype);
     Some (sig, d, n + 1)
   }"

text \<open>Whether the key matches the script.\<close>

definition sign_match :: "dogecoin_tx_out_type \<Rightarrow> bytes list \<Rightarrow> dogecoin_pubkey \<Rightarrow> dogecoin_tx_sign_result option" where
  "sign_match t pushes k =
     (if t = DOGECOIN_TX_PUBKEYHASH \<and> length pushes = 1 then do {
        h \<leftarrow> dogecoin_pubkey_get_hash160 k (replicate 20 0);
        p \<leftarrow> mem_read (pushes ! 0) 0 20;
        Some (if p \<noteq> h then DOGECOIN_SIGN_NO_KEY_MATCH else DOGECOIN_SIGN_OK)
      }
      else Some DOGECOIN_SIGN_UNKNOWN_SCRIPT_TYPE)"

text \<open>What is appended to the script of the input.\<close>

definition apply_signature :: "bytes \<Rightarrow> nat \<Rightarrow> dogecoin_pubkey \<Rightarrow> dogecoin_tx_in \<Rightarrow> dogecoin_tx_in option" where
  "apply_signature d n k tx_in = do {
     s \<leftarrow> script_sig tx_in;
     s \<leftarrow> ser_varlen s (of_nat n);
     s \<leftarrow> ser_bytes s (Some d) n;
     s \<leftarrow> ser_varlen s (of_nat (serialized_key_length (compressed k)));
     s \<leftarrow> ser_bytes s (Some (pubkey k)) (serialized_key_length (compressed k));
     Some (tx_in\<lparr>script_sig := Some s\<rparr>)
   }"

definition hand_out :: "bytes option \<Rightarrow> bytes \<Rightarrow> nat \<Rightarrow> bytes option option" where
  "hand_out dst src n =
     (case dst of
        None \<Rightarrow> Some None
      | Some b \<Rightarrow> do { x \<leftarrow> mem_read src 0 n; b \<leftarrow> mem_write b 0 x; Some (Some b) })"

text \<open>
  The result, the transaction, and the three objects written through pointers, which may be null: the compact
  signature, the DER signature and its length. The DER signature is copied when the pointer of the compact one is
  not null.
\<close>

type_synonym sign_outs = "bytes option \<times> bytes option \<times> nat option"

definition dogecoin_tx_sign_input ::
    "('pk, 'sig) secp256k1 \<Rightarrow> dogecoin_tx option \<Rightarrow> cstring option \<Rightarrow> dogecoin_key \<Rightarrow> nat \<Rightarrow> int \<Rightarrow> sign_outs
      \<Rightarrow> (dogecoin_tx_sign_result \<times> dogecoin_tx option \<times> sign_outs) option" where
  "dogecoin_tx_sign_input secp tx_in_out script key inputindex sighashtype outs =
     (case (tx_in_out, script) of
        (Some tx, Some script) \<Rightarrow> do {
          ins \<leftarrow> vin tx;
          (if inputindex \<ge> vlen ins then Some (DOGECOIN_SIGN_INPUTINDEX_OUT_OF_RANGE, Some tx, outs)
           else do {
             v \<leftarrow> dogecoin_privkey_is_valid secp key;
             (if \<not> v then Some (DOGECOIN_SIGN_INVALID_KEY, Some tx, outs)
              else do {
                k \<leftarrow> dogecoin_pubkey_from_key secp key (dogecoin_pubkey_init \<lparr>compressed = False, pubkey = replicate 65 0\<rparr>);
                v \<leftarrow> dogecoin_pubkey_is_valid secp k;
                (if \<not> v then Some (DOGECOIN_SIGN_INVALID_KEY, Some tx, outs)
                 else do {
                   script_sign \<leftarrow> cstr_new_cstr script;
                   b \<leftarrow> contents script;
                   let (t, pushes) = dogecoin_script_classify b (Some []);
                   pushes \<leftarrow> pushes;
                   res \<leftarrow> sign_match t pushes k;
                   (ok, sighash) \<leftarrow> dogecoin_tx_sighash tx script_sign inputindex (of_int sighashtype) (replicate 32 0);
                   (if \<not> ok then Some (DOGECOIN_SIGN_SIGHASH_FAILED, Some tx, outs)
                    else do {
                      (sig, d, n) \<leftarrow> sign_digest secp key sighash sighashtype;
                      let (sigcompact_out, sigder_out, sigder_len_out) = outs;
                      sigder_out \<leftarrow> (if sigcompact_out \<noteq> None then hand_out sigder_out d n else Some sigder_out);
                      sigcompact_out \<leftarrow> hand_out sigcompact_out sig 64;
                      let outs = (sigcompact_out, sigder_out, map_option (\<lambda>_. n) sigder_len_out);
                      (if t = DOGECOIN_TX_PUBKEYHASH then do {
                         ins \<leftarrow> vec_modify (\<lambda>_. apply_signature d n k) inputindex 1 ins;
                         Some (res, Some (tx\<lparr>vin := Some ins\<rparr>), outs)
                       }
                       else Some (DOGECOIN_SIGN_UNKNOWN_SCRIPT_TYPE, Some tx, outs))
                    })
                 })
              })
           })
        }
      | _ \<Rightarrow> Some (DOGECOIN_SIGN_INVALID_TX_OR_SCRIPT, tx_in_out, outs))"

section \<open>Signing the text of a transaction\<close>

definition read_raw :: "bytes \<Rightarrow> nat \<Rightarrow> (bool \<times> dogecoin_tx) option" where
  "read_raw raw n = do {
     txtmp \<leftarrow> dogecoin_tx_new;
     (data_bin, outlength) \<leftarrow> utils_hex_to_bin raw (replicate (n div 2) 0) n;
     (ok, txtmp, _) \<leftarrow> dogecoin_tx_deserialize (take outlength data_bin) txtmp;
     Some (ok, txtmp)
   }"

text \<open>
  The text is changed in place. When it is the static buffer of \<open>utils_uint8_to_hex\<close>, as it is for the callers below,
  \<open>shared\<close>, the text of the hash that is signed overwrites it. A private key of at most 50 characters that cannot be
  read leaves the text without a signature, and the result is true.
\<close>

definition sign_raw_text ::
    "('pk, 'sig) secp256k1 \<Rightarrow> bool \<Rightarrow> int \<Rightarrow> bytes \<Rightarrow> bytes \<Rightarrow> int \<Rightarrow> bytes \<Rightarrow> (bool \<times> bytes) option" where
  "sign_raw_text secp shared inputindex raw scripthex sighashtype wif = do {
     n \<leftarrow> c_strlen raw;
     (if n > 1024 * 100 then Some (False, raw)
      else do {
        c \<leftarrow> mem_get wif 0;
        let chain = (if c = 99 then dogecoin_chainparams_test else dogecoin_chainparams_main);
        (ok, txtmp) \<leftarrow> read_raw raw n;
        (if \<not> ok then Some (False, raw)
         else do {
           ins \<leftarrow> vin txtmp;
           (if inputindex < 0 \<or> nat inputindex \<ge> vlen ins then Some (False, raw)
            else do {
              m \<leftarrow> c_strlen scripthex;
              (script_data, outlength) \<leftarrow> utils_hex_to_bin scripthex (replicate m 0) m;
              script \<leftarrow> cstr_new_buf (Some script_data) outlength;
              (_, sighash) \<leftarrow> dogecoin_tx_sighash txtmp script (nat inputindex) (of_int sighashtype) (replicate 32 0);
              hex \<leftarrow> utils_uint8_to_hex sighash 32;
              hex \<leftarrow> hex;
              hex \<leftarrow> utils_reverse_hex hex 64;
              let raw = (if shared then hex else raw);
              (sign, key) \<leftarrow> dogecoin_privkey_decode_wif wif chain (dogecoin_privkey_init \<lparr>privkey = replicate 32 0\<rparr>);
              (if \<not> sign then do { l \<leftarrow> c_strlen wif; Some (\<not> l > 50, raw) }
               else do {
                 (res, txtmp, sigcompact, sigder, sigderlen) \<leftarrow> dogecoin_tx_sign_input secp (Some txtmp) (Some script) key
                   (nat inputindex) sighashtype (Some (replicate 64 0), Some (replicate 75 0), Some 75);
                 (if res \<noteq> DOGECOIN_SIGN_OK then Some (False, raw)
                  else do {
                    signed_tx \<leftarrow> cstr_new_sz 1024;
                    txtmp \<leftarrow> txtmp;
                    signed_tx \<leftarrow> dogecoin_tx_serialize txtmp signed_tx;
                    b \<leftarrow> contents signed_tx;
                    signed_tx_hex \<leftarrow> utils_bin_to_hex b (len signed_tx) (replicate (len signed_tx * 2 + 1) 0);
                    l \<leftarrow> c_strlen signed_tx_hex;
                    h \<leftarrow> mem_read signed_tx_hex 0 l;
                    raw \<leftarrow> mem_write raw 0 h;
                    Some (True, raw)
                  })
               })
            })
         })
      })
   }"

definition sign_raw_transaction ::
    "('pk, 'sig) secp256k1 \<Rightarrow> bool \<Rightarrow> int \<Rightarrow> bytes option \<Rightarrow> bytes option \<Rightarrow> int \<Rightarrow> bytes \<Rightarrow> (bool \<times> bytes option) option" where
  "sign_raw_transaction secp shared inputindex incomingrawtx scripthex sighashtype wif =
     (case (incomingrawtx, scripthex) of
        (Some raw, Some sc) \<Rightarrow> do {
          (r, raw) \<leftarrow> sign_raw_text secp shared inputindex raw sc sighashtype wif;
          Some (r, Some raw)
        }
      | _ \<Rightarrow> Some (False, incomingrawtx))"

text \<open>Signing an entry of the table; the text and the table are returned.\<close>

definition sign_indexed_raw_transaction ::
    "('pk, 'sig) secp256k1 \<Rightarrow> bool \<Rightarrow> int \<Rightarrow> int \<Rightarrow> bytes option \<Rightarrow> bytes option \<Rightarrow> int \<Rightarrow> bytes \<Rightarrow> transactions
      \<Rightarrow> (bool \<times> bytes option \<times> transactions) option" where
  "sign_indexed_raw_transaction secp shared txindex inputindex incomingrawtx scripthex sighashtype wif txs =
     (if txindex = 0 then Some (False, incomingrawtx, txs)
      else do {
        (r, raw) \<leftarrow> sign_raw_transaction secp shared inputindex incomingrawtx scripthex sighashtype wif;
        (if \<not> r then Some (False, raw, txs)
         else do {
           b \<leftarrow> raw;
           (r, txs) \<leftarrow> save_raw_transaction txindex b txs;
           Some (r, raw, txs)
         })
      })"

fun sign_inputs :: "('pk, 'sig) secp256k1 \<Rightarrow> bytes option \<Rightarrow> bytes \<Rightarrow> nat \<Rightarrow> nat \<Rightarrow> bytes option \<Rightarrow> (bool \<times> bytes option) option" where
  "sign_inputs secp script wif i 0 raw = Some (True, raw)"
| "sign_inputs secp script wif i (Suc n) raw = do {
     (r, raw) \<leftarrow> sign_raw_transaction secp True (int i) raw script 1 wif;
     (if \<not> r then Some (False, raw) else sign_inputs secp script wif (i + 1) n raw)
   }"

definition sign_transaction ::
    "('pk, 'sig) secp256k1 \<Rightarrow> int \<Rightarrow> bytes option \<Rightarrow> bytes \<Rightarrow> transactions \<Rightarrow> (bool \<times> transactions) option" where
  "sign_transaction secp txindex script wif txs = do {
     raw \<leftarrow> get_raw_transaction txindex txs;
     raw \<leftarrow> raw;
     n \<leftarrow> c_strlen raw;
     (ok, txtmp) \<leftarrow> read_raw raw n;
     (if \<not> ok then Some (False, txs)
      else do {
        ins \<leftarrow> vin txtmp;
        (r, raw) \<leftarrow> sign_inputs secp script wif 0 (vlen ins) (Some raw);
        (if \<not> r then Some (False, txs)
         else do {
           raw \<leftarrow> raw;
           (_, txs) \<leftarrow> save_raw_transaction txindex raw txs;
           Some (True, txs)
         })
      })
   }"

definition sign_transaction_w_privkey ::
    "('pk, 'sig) secp256k1 \<Rightarrow> int \<Rightarrow> int \<Rightarrow> bytes \<Rightarrow> transactions \<Rightarrow> (bool \<times> transactions) option" where
  "sign_transaction_w_privkey secp txindex vout_index wif txs = do {
     script \<leftarrow> dogecoin_private_key_wif_to_pubkey_hash secp wif;
     raw \<leftarrow> get_raw_transaction txindex txs;
     raw \<leftarrow> raw;
     n \<leftarrow> c_strlen raw;
     (ok, txtmp) \<leftarrow> read_raw raw n;
     (if \<not> ok then Some (False, txs)
      else do {
        (r, raw, txs) \<leftarrow> sign_indexed_raw_transaction secp True txindex vout_index (Some raw) script 1 wif txs;
        (if \<not> r then Some (False, txs)
         else do {
           raw \<leftarrow> raw;
           (_, txs) \<leftarrow> save_raw_transaction txindex raw txs;
           Some (True, txs)
         })
      })
   }"

section \<open>What signing does to a transaction\<close>

text \<open>The DER form of the signature of a hash, and the script that unlocks an output: signature and public key.\<close>

definition der_signature :: "('pk, 'sig) secp256k1 \<Rightarrow> bytes \<Rightarrow> bytes \<Rightarrow> bytes" where
  "der_signature secp k h = (case ecdsa_sign secp h k of Some s \<Rightarrow> ecdsa_signature_serialize_der secp s | None \<Rightarrow> [])"

definition unlock_script :: "('pk, 'sig) secp256k1 \<Rightarrow> bytes \<Rightarrow> bytes \<Rightarrow> u8 \<Rightarrow> bytes" where
  "unlock_script secp k h ht =
     [of_nat (length (der_signature secp k h) + 1)] @ der_signature secp k h @ [ht] @ [33] @ public_key secp k"

text \<open>The hash that is signed for input \<open>i\<close> with all inputs and outputs.\<close>

definition sign_hash :: "nat \<Rightarrow> bytes \<Rightarrow> tx_view \<Rightarrow> bytes" where
  "sign_hash i script a = sha256d (tx_bytes (a\<lparr>v_ins := signed_ins i script (v_ins a)\<rparr>) @ le_bytes 4 1)"

text \<open>The script is appended to that of the input.\<close>

definition with_signature :: "('pk, 'sig) secp256k1 \<Rightarrow> bytes \<Rightarrow> bytes \<Rightarrow> nat \<Rightarrow> tx_view \<Rightarrow> tx_view" where
  "with_signature secp k script i a = a\<lparr>v_ins := (v_ins a)[i := (v_ins a ! i)\<lparr>in_script :=
     in_script (v_ins a ! i) @ unlock_script secp k (sign_hash i script a) 1\<rparr>]\<rparr>"

lemma sign_digest_ok:
  assumes "secp256k1_laws secp" "valid_key secp k" "length h = 32" "70 \<le> length (der_signature secp k h)"
  shows "\<exists>c r. length c = 64 \<and> length r = 74 - length (der_signature secp k h)
    \<and> length (der_signature secp k h) \<le> 72
    \<and> sign_digest secp \<lparr>privkey = k\<rparr> h ht
      = Some (c, der_signature secp k h @ [of_int ht] @ r, length (der_signature secp k h) + 1)"
proof -
  have k: "length k = 32" "ec_seckey_verify secp k" using assms(2) by (simp_all add: valid_key_def)
  from assms(1) [unfolded secp256k1_laws_def] k assms(3) obtain s where s: "ecdsa_sign secp h k = Some s"
    "ecdsa_signature_normalize secp s = s" "length (ecdsa_signature_serialize_compact secp s) = 64"
    "ecdsa_signature_parse_compact secp (ecdsa_signature_serialize_compact secp s) = Some s"
    "length (ecdsa_signature_serialize_der secp s) \<le> 72" by blast
  define d where "d = ecdsa_signature_serialize_der secp s"
  have d: "der_signature secp k h = d" "length d \<le> 72" "70 \<le> length d"
    using s(1,5) assms(4) by (simp_all add: der_signature_def d_def)
  have c: "dogecoin_key_sign_hash_compact secp \<lparr>privkey = k\<rparr> h (replicate 64 0) 0
      = Some (True, ecdsa_signature_serialize_compact secp s, 64)"
    using k(1) assms(3) s(1,3)
    by (simp add: dogecoin_key_sign_hash_compact_def dogecoin_ecc_sign_compact_def mem_simps)
  have n: "dogecoin_ecc_compact_to_der_normalized secp (ecdsa_signature_serialize_compact secp s) (replicate 75 0) 75
      = Some (True, d @ replicate (75 - length d) 0, length d)"
    using s(2-4) d(2) by (simp add: dogecoin_ecc_compact_to_der_normalized_def write_der_def Let_def d_def mem_simps)
  have "75 - length d = Suc (74 - length d)" using d(2) by simp
  then have "replicate (75 - length d) (0 :: u8) = 0 # replicate (74 - length d) 0" by simp
  then have m: "mem_set (d @ replicate (75 - length d) 0) (length d) (of_int ht) = Some (d @ [of_int ht] @ replicate (74 - length d) 0)"
    using d(2) by (simp add: mem_set_def list_update_append)
  show ?thesis
    unfolding d(1) using d(2,3) s(3) c n m
    by (intro exI [of _ "ecdsa_signature_serialize_compact secp s"] exI [of _ "replicate (74 - length d) 0"]) (simp add: sign_digest_def)
qed

lemma ser_bytes_take:
  assumes "n \<le> length d"
  shows "ser_bytes s (Some d) n = ser_bytes s (Some (take n d)) n"
proof -
  have "memcpy_safe dst off (Some d) n = memcpy_safe dst off (Some (take n d)) n" for dst off
    using assms by (simp add: memcpy_safe_def mem_read_def)
  then show ?thesis by (simp only: ser_bytes_def cstr_append_buf_def)
qed

lemma ser_short_varlen: "n < 253 \<Longrightarrow> sink.appends (\<lambda>s. ser_varlen s (of_nat n)) [of_nat n]"
  using ser_varlen_appends [of "of_nat n"] by (simp add: varlen_bytes_def unat_of_nat)

lemma apply_signature_holds:
  assumes "in_holds_script i a" "length d = n" "n < 253" "length pub = 33" "length (in_script a) + n + 35 < 2 ^ 30"
  shows "\<exists>i'. apply_signature (d @ r) n \<lparr>compressed = True, pubkey = pub @ q\<rparr> i = Some i'
    \<and> in_holds_script i' (a\<lparr>in_script := in_script a @ [of_nat n] @ d @ [33] @ pub\<rparr>)"
proof -
  obtain s where s: "script_sig i = Some s" "cstr_holds s (in_script a)"
    using assms(1) by (auto simp: in_holds_script_def in_holds_def script_holds_def)
  have "sink.appends (\<lambda>s. do { s \<leftarrow> ser_varlen s (of_nat n); s \<leftarrow> ser_bytes s (Some d) n;
      s \<leftarrow> ser_varlen s (of_nat 33); ser_bytes s (Some pub) 33 }) ([of_nat n] @ d @ [of_nat 33] @ pub)"
    by (intro sink.appends_comp ser_short_varlen ser_bytes_appends) (use assms in simp_all)
  then obtain s' where "do { s \<leftarrow> ser_varlen s (of_nat n); s \<leftarrow> ser_bytes s (Some d) n;
      s \<leftarrow> ser_varlen s (of_nat 33); ser_bytes s (Some pub) 33 } = Some s'" "cstr_holds s' (in_script a @ [of_nat n] @ d @ [33] @ pub)"
    using sink.appendsD [OF _ s(2)] assms(2,4,5) by fastforce
  then have "apply_signature (d @ r) n \<lparr>compressed = True, pubkey = pub @ q\<rparr> i = Some (i\<lparr>script_sig := Some s'\<rparr>)"
    using s(1) assms(2,4) ser_bytes_take [of n "d @ r"] ser_bytes_take [of 33 "pub @ q"]
    by (simp add: apply_signature_def serialized_key_length_def DOGECOIN_ECKEY_COMPRESSED_LENGTH_def bind_eq_Some_conv) blast
  moreover have "in_holds_script (i\<lparr>script_sig := Some s'\<rparr>) (a\<lparr>in_script := in_script a @ [of_nat n] @ d @ [33] @ pub\<rparr>)"
    using assms(1) \<open>cstr_holds s' _\<close> by (simp add: in_holds_script_def in_holds_def script_holds_def)
  ultimately show ?thesis by blast
qed

lemma modify_one:
  assumes "vec_views r v as" "i < length as" "\<And>x. r x (as ! i) \<Longrightarrow> \<exists>y. f i x = Some y \<and> r y b"
  shows "\<exists>v'. vec_modify f i 1 v = Some v' \<and> vec_views r v' (as[i := b])"
proof -
  obtain xs where xs: "vec_holds v (map Some xs)" "list_all2 r xs as" using assms(1) by (auto simp: vec_views_def)
  have l: "length xs = length as" using xs(2) by (rule list_all2_lengthD)
  have "r (xs ! i) (as ! i)" using xs(2) assms(2) l by (simp add: list_all2_conv_all_nth)
  from assms(3) [OF this] obtain y where y: "f i (xs ! i) = Some y" "r y b" by blast
  have "xs = take i xs @ [xs ! i] @ drop (Suc i) xs" using assms(2) l by (simp add: id_take_nth_drop)
  with xs(1) have v: "vec_holds v (map Some (take i xs @ [xs ! i] @ drop (Suc i) xs))" by simp
  obtain v' where "vec_modify f i 1 v = Some v'" "vec_holds v' (map Some (take i xs @ [y] @ drop (Suc i) xs))"
    using modify_list [OF v, of i "[y]" f] y(1) assms(2) l by auto
  moreover have "take i xs @ [y] @ drop (Suc i) xs = xs[i := y]" using assms(2) l by (simp add: upd_conv_take_nth_drop)
  moreover have "list_all2 r (xs[i := y]) (as[i := b])" using xs(2) y(2) by (rule list_all2_update_cong)
  ultimately show ?thesis unfolding vec_views_def by metis
qed

section \<open>The size of a signed transaction\<close>

lemma sum_nth_le:
  fixes f g :: "nat \<Rightarrow> nat"
  assumes "\<And>j. j < n \<Longrightarrow> f j \<le> g j + (if j = i then c else 0)"
  shows "(\<Sum>j<n. f j) \<le> (\<Sum>j<n. g j) + c"
proof -
  have "(\<Sum>j<n. f j) \<le> (\<Sum>j<n. g j + (if j = i then c else 0))" using assms by (intro sum_mono) auto
  also have "\<dots> \<le> (\<Sum>j<n. g j) + c" by (simp add: sum.distrib)
  finally show ?thesis .
qed

lemma length_concat_sum: "length (concat (map f xs)) = (\<Sum>j<length xs. length (f (xs ! j)))"
  by (simp add: length_concat sum_list_sum_nth atLeast0LessThan)

lemma tx_bytes_ins_le:
  assumes "length ins = length (v_ins a)"
    and "\<And>j. j < length ins \<Longrightarrow> length (in_bytes (ins ! j)) \<le> length (in_bytes (v_ins a ! j)) + (if j = i then c else 0)"
  shows "length (tx_bytes (a\<lparr>v_ins := ins\<rparr>)) \<le> length (tx_bytes a) + c"
proof -
  have "length (concat (map in_bytes ins)) \<le> length (concat (map in_bytes (v_ins a))) + c"
    using sum_nth_le [of "length ins" "\<lambda>j. length (in_bytes (ins ! j))" "\<lambda>j. length (in_bytes (v_ins a ! j))" i c] assms
    by (simp add: length_concat_sum)
  then show ?thesis using assms(1) by (simp add: tx_bytes_def del: le_bytes_numeral)
qed

lemma length_in_bytes: "length (in_bytes x) = length (in_hash x) + 8 + length (varlen_bytes (length (in_script x))) + length (in_script x)"
  by (simp add: in_bytes_def varstr_bytes_def del: le_bytes_numeral)

lemma length_varlen: "0 < length (varlen_bytes n)" "length (varlen_bytes n) \<le> 5" "m \<le> n \<Longrightarrow> length (varlen_bytes m) \<le> length (varlen_bytes n)"
  by (auto simp: varlen_bytes_def simp del: le_bytes_numeral)

lemma signed_ins_length:
  "length (tx_bytes (a\<lparr>v_ins := signed_ins i sc (v_ins a)\<rparr>)) \<le> length (tx_bytes a) + (length sc + 5)"
proof (rule tx_bytes_ins_le [where i = i])
  show "length (signed_ins i sc (v_ins a)) = length (v_ins a)" by (simp add: signed_ins_def)
  show "length (in_bytes (signed_ins i sc (v_ins a) ! j)) \<le> length (in_bytes (v_ins a ! j)) + (if j = i then length sc + 5 else 0)"
    if "j < length (signed_ins i sc (v_ins a))" for j
    using that length_varlen(2) [of "length sc"] length_varlen(3) [of 0 "length (in_script (v_ins a ! j))"]
    by (auto simp: signed_ins_def length_in_bytes)
qed

lemma with_signature_length:
  assumes "i < length (v_ins a)"
  shows "length (tx_bytes a) \<le> length (tx_bytes (with_signature secp k sc i a))"
    and "length (tx_bytes (with_signature secp k sc i a))
      \<le> length (tx_bytes a) + (length (unlock_script secp k (sign_hash i sc a) 1) + 5)"
proof -
  let ?b = "with_signature secp k sc i a"
  have "length (tx_bytes (?b\<lparr>v_ins := v_ins a\<rparr>)) \<le> length (tx_bytes ?b) + 0"
  proof (rule tx_bytes_ins_le [where i = i])
    show "length (v_ins a) = length (v_ins ?b)" by (simp add: with_signature_def)
    show "length (in_bytes (v_ins a ! j)) \<le> length (in_bytes (v_ins ?b ! j)) + (if j = i then 0 else 0)" if "j < length (v_ins a)" for j
      using that assms length_varlen(3) [of "length (in_script (v_ins a ! i))"
          "length (in_script (v_ins a ! i)) + length (unlock_script secp k (sign_hash i sc a) 1)"]
      by (auto simp: with_signature_def nth_list_update length_in_bytes)
  qed
  then show "length (tx_bytes a) \<le> length (tx_bytes ?b)" by (simp add: with_signature_def)
  show "length (tx_bytes ?b) \<le> length (tx_bytes a) + (length (unlock_script secp k (sign_hash i sc a) 1) + 5)"
    unfolding with_signature_def
  proof (rule tx_bytes_ins_le [where i = i])
    let ?ins = "(v_ins a)[i := (v_ins a ! i)\<lparr>in_script := in_script (v_ins a ! i) @ unlock_script secp k (sign_hash i sc a) 1\<rparr>]"
    show "length ?ins = length (v_ins a)" by simp
    show "length (in_bytes (?ins ! j)) \<le> length (in_bytes (v_ins a ! j))
        + (if j = i then length (unlock_script secp k (sign_hash i sc a) 1) + 5 else 0)" if "j < length ?ins" for j
      using that length_varlen(2) [of "length (in_script (v_ins a ! i) @ unlock_script secp k (sign_hash i sc a) 1)"]
      by (auto simp: nth_list_update length_in_bytes)
  qed
qed

lemma in_script_length: "i < length (v_ins a) \<Longrightarrow> length (in_script (v_ins a ! i)) \<le> length (tx_bytes a)"
proof -
  assume "i < length (v_ins a)"
  then have "length (in_bytes (v_ins a ! i)) \<le> length (concat (map in_bytes (v_ins a)))"
    unfolding length_concat_sum by (intro member_le_sum) auto
  then show ?thesis by (simp add: tx_bytes_def length_in_bytes del: le_bytes_numeral)
qed

section \<open>Signing an input that pays to a key\<close>

lemma hash_type_all: "(1 :: u32) AND 0x1f = 1" "(1 :: u32) AND SIGHASH_ANYONECANPAY = 0"
  by (simp_all add: SIGHASH_ANYONECANPAY_def)

lemma sign_hash_reference:
  assumes "signable tx a" "i < length (v_ins a)" "cstr_holds s (p2pkh_script h)" "length h = 20" "length (tx_bytes a) < 2 ^ 20"
  shows "dogecoin_tx_sighash tx s i 1 (replicate 32 0) = Some (True, sign_hash i (p2pkh_script h) a)"
proof -
  have sc: "without_separators (p2pkh_items h) = p2pkh_script h"
    by (simp add: without_separators_def p2pkh_items_def p2pkh_script_def code_values OP_CODESEPARATOR_def)
  have ok: "\<forall>x\<in>set (p2pkh_items h). copy_ok x" "p2pkh_items h \<noteq> []"
    using assms(4) by (simp_all add: p2pkh_items_def code_values)
  have v: "sighash_view i 1 (p2pkh_script h) a = Some (a\<lparr>v_ins := signed_ins i (p2pkh_script h) (v_ins a)\<rparr>)"
    using assms(2) by (simp add: sighash_view_def outputs_view_def inputs_view_def hash_type_all SIGHASH_NONE_def SIGHASH_SINGLE_def)
  have "length (tx_bytes (a\<lparr>v_ins := signed_ins i (p2pkh_script h) (v_ins a)\<rparr>)) + 4 < 2 ^ 30"
    using signed_ins_length [where a = a and i = i and sc = "p2pkh_script h"] assms(4,5) by (simp add: p2pkh_script_bytes)
  then show ?thesis
    using sighash_reference [OF assms(1), where from_key = s and items = "p2pkh_items h" and hash = "replicate 32 0" and in_num = i and hashtype = 1] assms(3) ok
    by (simp add: sc v sign_hash_def flip: p2pkh_script_def del: le_bytes_numeral)
qed

lemma sign_match_key:
  assumes "length pub = 33" "length h = 20"
  shows "sign_match DOGECOIN_TX_PUBKEYHASH [h] \<lparr>compressed = True, pubkey = pub @ r\<rparr>
    = Some (if h = key_hash pub then DOGECOIN_SIGN_OK else DOGECOIN_SIGN_NO_KEY_MATCH)"
  using assms by (simp add: sign_match_def get_hash160_key mem_simps)

lemma copy_of_cstr:
  assumes "cstr_holds s bs"
  shows "\<exists>s'. cstr_new_cstr s = Some s' \<and> cstr_holds s' bs"
proof -
  have "len s = length bs" "length bs < 2 ^ 30" using assms by (simp_all add: cstr_holds_def)
  then show ?thesis using cstr_new_buf_ok [of bs] read_contents [OF assms] by (simp add: cstr_new_cstr_def)
qed

lemma modify_signature:
  assumes "signable tx a" "vin tx = Some v" "i < length (v_ins a)" "length (tx_bytes a) < 2 ^ 20"
    and "length pub = 33" "length d = n" "n < 253"
  shows "\<exists>v'. vec_modify (\<lambda>_. apply_signature (d @ r) n \<lparr>compressed = True, pubkey = pub @ q\<rparr>) i 1 v = Some v'
    \<and> signable (tx\<lparr>vin := Some v'\<rparr>) (a\<lparr>v_ins := (v_ins a)[i := (v_ins a ! i)\<lparr>in_script :=
        in_script (v_ins a ! i) @ [of_nat n] @ d @ [33] @ pub\<rparr>]\<rparr>)"
proof -
  let ?b = "(v_ins a ! i)\<lparr>in_script := in_script (v_ins a ! i) @ [of_nat n] @ d @ [33] @ pub\<rparr>"
  have v: "vec_views in_holds_script v (v_ins a)" using assms(1,2) by (auto simp: signable_def)
  have "\<exists>y. apply_signature (d @ r) n \<lparr>compressed = True, pubkey = pub @ q\<rparr> x = Some y \<and> in_holds_script y ?b"
    if "in_holds_script x (v_ins a ! i)" for x
    by (rule apply_signature_holds [OF that assms(6,7,5)]) (use in_script_length [OF assms(3)] assms(4,7) in simp)
  then obtain v' where v': "vec_modify (\<lambda>_. apply_signature (d @ r) n \<lparr>compressed = True, pubkey = pub @ q\<rparr>) i 1 v = Some v'"
    "vec_views in_holds_script v' ((v_ins a)[i := ?b])"
    using modify_one [OF v assms(3), of "\<lambda>_. apply_signature (d @ r) n \<lparr>compressed = True, pubkey = pub @ q\<rparr>" ?b] by blast
  with assms(1) show ?thesis by (intro exI [of _ v']) (simp add: signable_def)
qed

lemma sign_input_ok:
  assumes "secp256k1_laws secp" "valid_key secp k" "signable tx a" "i < length (v_ins a)"
    and "cstr_holds s (p2pkh_script h)" "length h = 20" "length (tx_bytes a) < 2 ^ 20"
  defines "g \<equiv> sign_hash i (p2pkh_script h) a"
  assumes "70 \<le> length (der_signature secp k g)"
  shows "\<exists>tx' c r. dogecoin_tx_sign_input secp (Some tx) (Some s) \<lparr>privkey = k\<rparr> i 1 (Some (replicate 64 0), Some (replicate 75 0), Some 75)
      = Some (if h = key_hash (public_key secp k) then DOGECOIN_SIGN_OK else DOGECOIN_SIGN_NO_KEY_MATCH, Some tx',
          Some c, Some (der_signature secp k g @ [1] @ r), Some (length (der_signature secp k g) + 1))
    \<and> signable tx' (with_signature secp k (p2pkh_script h) i a) \<and> length c = 64
    \<and> length (der_signature secp k g @ [1] @ r) = 75"
proof -
  let ?d = "der_signature secp k g"
  let ?k = "\<lparr>compressed = True, pubkey = public_key secp k @ replicate 32 0\<rparr>"
  have k: "length k = 32" "ec_seckey_verify secp k" using assms(2) by (simp_all add: valid_key_def)
  obtain v where v: "vin tx = Some v" "vlen v = length (v_ins a)" using assms(3) views_length by (auto simp: signable_def)
  obtain s' where s': "cstr_new_cstr s = Some s'" "cstr_holds s' (p2pkh_script h)" using copy_of_cstr [OF assms(5)] by blast
  have b: "contents s = Some (p2pkh_script h)" using read_contents [OF assms(5)] by (simp add: contents_def)
  have g: "dogecoin_tx_sighash tx s' i 1 (replicate 32 0) = Some (True, g)"
    unfolding g_def by (rule sign_hash_reference [OF assms(3,4) s'(2) assms(6,7)])
  have lg: "length g = 32" by (simp add: g_def sign_hash_def)
  obtain c r where d: "length c = 64" "length r = 74 - length ?d" "length ?d \<le> 72"
    "sign_digest secp \<lparr>privkey = k\<rparr> g 1 = Some (c, ?d @ [1] @ r, length ?d + 1)"
    using sign_digest_ok [OF assms(1,2) lg assms(9), of 1] by auto
  have l: "length (?d @ [1] @ r) = 75" using d(2,3) by simp
  have "length (?d @ [1 :: u8]) = length ?d + 1" "length ?d + 1 < 253" using d(3) by simp_all
  from modify_signature [OF assms(3) v(1) assms(4,7) length_public_key [OF assms(1,2)] this, of r "replicate 32 0"]
  obtain v' where v': "vec_modify (\<lambda>_. apply_signature (?d @ [1] @ r) (length ?d + 1) ?k) i 1 v = Some v'"
    "signable (tx\<lparr>vin := Some v'\<rparr>) (with_signature secp k (p2pkh_script h) i a)"
    by (auto simp: with_signature_def unlock_script_def g_def)
  have o1: "hand_out (Some (replicate 75 0)) (?d @ [1] @ r) (length ?d + 1) = Some (Some (?d @ [1] @ drop (length ?d + 1) (replicate 75 0)))"
    using d(3) by (simp add: hand_out_def mem_simps)
  have o2: "hand_out (Some (replicate 64 0)) c 64 = Some (Some c)" using d(1) by (simp add: hand_out_def mem_simps)
  note steps = v b s'(1) g d(4) o1 o2 v'(1) privkey_valid [OF k(1)] fresh_pubkey_from_key [OF assms(1,2)] pubkey_valid [OF assms(1,2)]
    p2pkh_classified [OF assms(6)] sign_match_key [OF length_public_key [OF assms(1,2)] assms(6)]
  have "dogecoin_tx_sign_input secp (Some tx) (Some s) \<lparr>privkey = k\<rparr> i 1 (Some (replicate 64 0), Some (replicate 75 0), Some 75)
      = Some (if h = key_hash (public_key secp k) then DOGECOIN_SIGN_OK else DOGECOIN_SIGN_NO_KEY_MATCH, Some (tx\<lparr>vin := Some v'\<rparr>),
          Some c, Some (?d @ [1] @ drop (length ?d + 1) (replicate 75 0)), Some (length ?d + 1))"
    using assms(4) k(2) unfolding dogecoin_tx_sign_input_def
    by (simp add: steps dogecoin_pubkey_init_def DOGECOIN_ECKEY_UNCOMPRESSED_LENGTH_def del: One_nat_def append.simps)
  then show ?thesis using v'(2) d(1,3) by (intro exI conjI) (assumption | simp)+
qed

section \<open>Signing a text\<close>

definition raw_buffer :: "tx_view \<Rightarrow> bytes" where
  "raw_buffer a = hex_chars (tx_bytes a) @ replicate (2048 - 2 * length (tx_bytes a)) 0"

lemma raw_buffer_text: "length (tx_bytes a) \<le> 1023 \<Longrightarrow> raw_text a = Some (raw_buffer a)"
  by (simp add: raw_text_def raw_buffer_def)

lemma raw_buffer_string:
  assumes "length (tx_bytes a) \<le> 1023"
  shows "\<exists>rest. raw_buffer a = hex_chars (tx_bytes a) @ 0 # rest"
proof -
  have "2048 - 2 * length (tx_bytes a) = Suc (2047 - 2 * length (tx_bytes a))" using assms by simp
  then show ?thesis by (simp add: raw_buffer_def)
qed

lemma hex_strlen: "c_strlen (hex_chars b @ 0 # rest) = Some (2 * length b)"
  using c_strlen_append [OF hex_chars_no_nul, of b rest] by simp

lemma hex_to_bin_text:
  "length b \<le> length buf \<Longrightarrow> utils_hex_to_bin (hex_chars b @ rest) buf (2 * length b) = Some (b @ drop (length b) buf, length b)"
  by (simp add: utils_hex_to_bin_def Let_def mem_simps)

lemma read_raw_ok:
  assumes "view_ok a"
  shows "\<exists>tx. read_raw (hex_chars (tx_bytes a) @ rest) (2 * length (tx_bytes a)) = Some (True, tx) \<and> signable tx a"
proof -
  obtain tx where tx: "dogecoin_tx_deserialize (tx_bytes a) fresh_tx = Some (True, tx, length (tx_bytes a))" "signable tx a"
    using tx_deserialize_bytes [OF assms fresh_tx_new, of "[]"] by auto
  have "utils_hex_to_bin (hex_chars (tx_bytes a) @ rest) (replicate (length (tx_bytes a)) 0) (2 * length (tx_bytes a))
      = Some (tx_bytes a, length (tx_bytes a))"
    using hex_to_bin_text [of "tx_bytes a" "replicate (length (tx_bytes a)) 0" rest] by simp
  with tx show ?thesis by (simp add: read_raw_def fresh_tx_new)
qed

lemma tx_bytes_input: "i < length (v_ins a) \<Longrightarrow> view_ok a \<Longrightarrow> 32 \<le> length (tx_bytes a)"
proof -
  assume i: "i < length (v_ins a)" "view_ok a"
  then have "length (in_bytes (v_ins a ! i)) \<le> length (concat (map in_bytes (v_ins a)))"
    unfolding length_concat_sum by (intro member_le_sum) auto
  moreover have "length (in_hash (v_ins a ! i)) = 32" using i by (simp add: view_ok_def)
  ultimately show ?thesis by (simp add: tx_bytes_def length_in_bytes del: le_bytes_numeral)
qed

lemma with_signature_ins: "length (v_ins (with_signature secp k sc i a)) = length (v_ins a)"
  "v_outs (with_signature secp k sc i a) = v_outs a"
  by (simp_all add: with_signature_def)

lemma serialized_text:
  assumes "signable tx b" "length (tx_bytes b) < 2 ^ 20"
  shows "\<exists>s0 s. cstr_new_sz 1024 = Some s0 \<and> dogecoin_tx_serialize tx s0 = Some s \<and> contents s = Some (tx_bytes b)
    \<and> len s = length (tx_bytes b)
    \<and> utils_bin_to_hex (tx_bytes b) (length (tx_bytes b)) (replicate (length (tx_bytes b) * 2 + 1) 0) = Some (hex_chars (tx_bytes b) @ [0])"
proof -
  obtain s0 where s0: "cstr_new_sz 1024 = Some s0" "cstr_holds s0 []" using cstr_new_sz_ok [of 1024] by auto
  obtain s where s: "dogecoin_tx_serialize tx s0 = Some s" "cstr_holds s (tx_bytes b)"
    using sink.appendsD [OF tx_serialize_appends [OF signable_holds [OF assms(1)]] s0(2)] assms(2) by auto
  have "contents s = Some (tx_bytes b)" "len s = length (tx_bytes b)"
    using read_contents [OF s(2)] s(2) by (simp_all add: contents_def cstr_holds_def)
  with s0(1) s(1) show ?thesis by (simp add: utils_bin_to_hex_def mem_simps)
qed

text \<open>The script in the text of the caller, and the hash of the signature in the static buffer.\<close>

lemma script_of_text:
  assumes "length h = 20"
  shows "\<exists>s. c_strlen (hex_chars (p2pkh_script h) @ 0 # r) = Some 50
    \<and> utils_hex_to_bin (hex_chars (p2pkh_script h) @ 0 # r) (replicate 50 0) 50 = Some (p2pkh_script h @ replicate 25 0, 25)
    \<and> cstr_new_buf (Some (p2pkh_script h @ replicate 25 0)) 25 = Some s \<and> cstr_holds s (p2pkh_script h)"
proof -
  have l: "length (p2pkh_script h) = 25" using assms by (simp add: p2pkh_script_bytes)
  obtain s where s: "cstr_new_buf (Some (p2pkh_script h)) 25 = Some s" "cstr_holds s (p2pkh_script h)"
    using cstr_new_buf_ok [of "p2pkh_script h"] l by auto
  have "cstr_new_buf (Some (p2pkh_script h @ replicate 25 0)) 25 = cstr_new_buf (Some (p2pkh_script h)) 25"
    using l by (simp add: cstr_new_buf_def memcpy_safe_def mem_read_def)
  with s show ?thesis
    using hex_strlen [of "p2pkh_script h" r] hex_to_bin_text [of "p2pkh_script h" "replicate 50 0" "0 # r"] l by simp
qed

lemma hash_text:
  assumes "length g = 32"
  shows "utils_uint8_to_hex g 32 = Some (Some (hex_chars g @ replicate 1984 0))"
    and "utils_reverse_hex (hex_chars g @ replicate 1984 0) 64 = Some (hex_chars (rev g) @ replicate 1984 0)"
proof -
  show "utils_uint8_to_hex g 32 = Some (Some (hex_chars g @ replicate 1984 0))"
    using assms by (simp add: utils_uint8_to_hex_def TO_UINT8_HEX_BUF_LEN_def mem_simps)
  have "g \<noteq> []" using assms by auto
  then show "utils_reverse_hex (hex_chars g @ replicate 1984 0) 64 = Some (hex_chars (rev g) @ replicate 1984 0)"
    using reverse_hex_rev [of g "replicate 1984 0"] assms by simp
qed

lemma wif_network:
  assumes "check_text (b58prefix_secret_address (chain_for tn) # k @ [1]) t" "length k = 32"
  shows "\<exists>c. mem_get (t @ 0 # r) 0 = Some c
    \<and> (if c = 99 then dogecoin_chainparams_test else dogecoin_chainparams_main) = chain_for tn"
  using wif_first [OF assms] by (auto simp: mem_get_def chain_for_def)

lemma sign_raw_shared:
  assumes "secp256k1_laws secp" "valid_key secp k" "view_ok a" "i < length (v_ins a)"
    and t: "check_text (b58prefix_secret_address (chain_for tn) # k @ [1]) t" "50 < length t" "length t \<le> 52"
  defines "sc \<equiv> p2pkh_script (key_hash (public_key secp k))"
  defines "b \<equiv> with_signature secp k sc i a"
  assumes "70 \<le> length (der_signature secp k (sign_hash i sc a))" "length (tx_bytes b) \<le> 1023"
  shows "sign_raw_text secp True (int i) (raw_buffer a) (hex_chars sc @ 0 # r') 1 (t @ 0 # r) = Some (True, raw_buffer b)"
proof -
  let ?h = "key_hash (public_key secp k)"
  let ?g = "sign_hash i sc a"
  have k: "length k = 32" using assms(2) by (simp add: valid_key_def)
  have la: "length (tx_bytes a) \<le> 1023" "length (tx_bytes a) < 2 ^ 20"
    using with_signature_length(1) [OF assms(4), of secp k sc] assms(11) by (simp_all add: b_def)
  obtain rest where raw: "raw_buffer a = hex_chars (tx_bytes a) @ 0 # rest" using raw_buffer_string [OF la(1)] by blast
  obtain tx where tx: "read_raw (raw_buffer a) (2 * length (tx_bytes a)) = Some (True, tx)" "signable tx a"
    unfolding raw using read_raw_ok [OF assms(3)] by blast
  obtain v where v: "vin tx = Some v" "vlen v = length (v_ins a)" using tx(2) views_length by (auto simp: signable_def)
  obtain s where s: "c_strlen (hex_chars sc @ 0 # r') = Some 50"
    "utils_hex_to_bin (hex_chars sc @ 0 # r') (replicate 50 0) 50 = Some (sc @ replicate 25 0, 25)"
    "cstr_new_buf (Some (sc @ replicate 25 0)) 25 = Some s" "cstr_holds s sc"
    unfolding sc_def using script_of_text [OF length_key_hash] by blast
  have g: "dogecoin_tx_sighash tx s i 1 (replicate 32 0) = Some (True, ?g)"
    unfolding sc_def by (rule sign_hash_reference [OF tx(2) assms(4) s(4) [unfolded sc_def] length_key_hash la(2)])
  have lg: "length ?g = 32" by (simp add: sign_hash_def)
  obtain tx' c q where sg: "dogecoin_tx_sign_input secp (Some tx) (Some s) \<lparr>privkey = k\<rparr> i 1 (Some (replicate 64 0), Some (replicate 75 0), Some 75)
      = Some (DOGECOIN_SIGN_OK, Some tx', c, q)" "signable tx' b"
    using sign_input_ok [OF assms(1,2) tx(2) assms(4) s(4) [unfolded sc_def] length_key_hash la(2)] assms(10)
    unfolding b_def sc_def by auto
  obtain s0 s1 where w: "cstr_new_sz 1024 = Some s0" "dogecoin_tx_serialize tx' s0 = Some s1" "contents s1 = Some (tx_bytes b)"
    "len s1 = length (tx_bytes b)"
    "utils_bin_to_hex (tx_bytes b) (length (tx_bytes b)) (replicate (length (tx_bytes b) * 2 + 1) 0) = Some (hex_chars (tx_bytes b) @ [0])"
    using serialized_text [OF sg(2)] assms(11) by auto
  obtain c0 where n: "mem_get (t @ 0 # r) 0 = Some c0"
    "(if c0 = 99 then dogecoin_chainparams_test else dogecoin_chainparams_main) = chain_for tn"
    using wif_network [OF t(1) k] by blast
  have d: "dogecoin_privkey_decode_wif (t @ 0 # r) (chain_for tn) key = Some (True, key\<lparr>privkey := k\<rparr>)" for key
    using decode_wif_text [OF t(1) k t(2,3) network_prefixes(3) [OF chain_for_network(2)], of r "chain_for tn" key] by simp
  have "32 \<le> length (tx_bytes b)"
    using tx_bytes_input [OF assms(4,3)] with_signature_length(1) [OF assms(4), of secp k sc] by (simp add: b_def)
  then have o: "mem_write (hex_chars (rev ?g) @ replicate 1984 0) 0 (hex_chars (tx_bytes b)) = Some (raw_buffer b)"
    using lg assms(11) by (simp add: mem_write_def raw_buffer_def)
  have st: "c_strlen (hex_chars (tx_bytes b) @ [0]) = Some (2 * length (tx_bytes b))" by (rule hex_strlen)
  have rd: "mem_read (hex_chars (tx_bytes b) @ [0]) 0 (2 * length (tx_bytes b)) = Some (hex_chars (tx_bytes b))"
    by (simp add: mem_read_def)
  have sa: "c_strlen (raw_buffer a) = Some (2 * length (tx_bytes a))" unfolding raw by (rule hex_strlen)
  note steps = sa n(1) tx(1) v s(1-3) g hash_text [OF lg] d sg(1) w(1-4) w(5) [simplified] st rd o
  show ?thesis
    unfolding sign_raw_text_def Let_def
    using la(1) assms(4) by (simp add: steps n(2) dogecoin_privkey_init_def del: hex_chars.simps)
qed

section \<open>Signing an entry of the table\<close>

lemma list_all2_right: "list_all2 P xs ys \<Longrightarrow> (\<And>x y. P x y \<Longrightarrow> Q y) \<Longrightarrow> \<forall>y\<in>set ys. Q y"
  by (induction rule: list_all2_induct) auto

lemma tx_holds_view_ok: "tx_holds tx a \<Longrightarrow> view_ok a"
proof -
  assume t: "tx_holds tx a"
  then obtain xs ys where l: "list_all2 in_holds xs (v_ins a)" "list_all2 out_holds ys (v_outs a)"
    by (auto simp: tx_holds_def vec_views_def)
  have sc: "script_holds c bs \<Longrightarrow> length bs < 2 ^ 30" for c bs
    by (auto simp: script_holds_def cstr_holds_def split: option.splits)
  have "in_holds x y \<Longrightarrow> length (in_hash y) = 32 \<and> length (in_script y) < 2 ^ 30" for x y
    using sc unfolding in_holds_def by blast
  then have "\<forall>i\<in>set (v_ins a). length (in_hash i) = 32 \<and> length (in_script i) < 2 ^ 30"
    by (rule list_all2_right [OF l(1)])
  moreover have "\<forall>out\<in>set (v_outs a). length (out_script out) < 2 ^ 30"
  proof (rule list_all2_right [OF l(2)])
    show "out_holds x y \<Longrightarrow> length (out_script y) < 2 ^ 30" for x y
      using sc unfolding out_holds_def by blast
  qed
  ultimately show ?thesis using t by (simp add: view_ok_def tx_holds_def)
qed

lemma table_view_ok: "table_holds txs m \<Longrightarrow> m i = Some a \<Longrightarrow> view_ok a"
  using table_holds_find tx_holds_view_ok by blast

lemma save_raw_holds:
  assumes "table_holds txs m" "j \<in> dom m" "view_ok b" "length (tx_bytes b) \<le> 51200"
  shows "\<exists>txs'. save_raw_transaction j (hex_chars (tx_bytes b) @ 0 # rest) txs = Some (True, txs')
    \<and> table_holds txs' (m(j \<mapsto> b))"
proof -
  let ?n = "length (tx_bytes b)"
  obtain x where x: "m j = Some x" using assms(2) by blast
  obtain w where w: "find_transaction j txs = Some w" "tx_holds (transaction w) x" using table_holds_find [OF assms(1) x] by blast
  obtain tx where tx: "dogecoin_tx_deserialize (tx_bytes b) fresh_tx = Some (True, tx, ?n)" "signable tx b"
    using tx_deserialize_bytes [OF assms(3) fresh_tx_new, of "[]"] by auto
  obtain d where d: "dogecoin_tx_copy (transaction w) tx = Some d" "tx_holds d b"
    using tx_copy_holds [OF w(2) signable_holds [OF tx(2)]] by blast
  have "utils_hex_to_bin (hex_chars (tx_bytes b) @ 0 # rest) (replicate (2 * ?n) 0) (2 * ?n)
      = Some (tx_bytes b @ drop ?n (replicate (2 * ?n) 0), ?n)"
    by (rule hex_to_bin_text) simp
  then have "save_raw_transaction j (hex_chars (tx_bytes b) @ 0 # rest) txs = Some (True, set_transaction j d txs)"
    using assms(4) hex_strlen [of "tx_bytes b" rest] w(1) tx(1) d(1) by (simp add: save_raw_transaction_def fresh_tx_new)
  with table_holds_set [OF assms(1,2) d(2)] show ?thesis by blast
qed

lemma view_ok_signature:
  assumes "view_ok a" "i < length (v_ins a)" "length (tx_bytes (with_signature secp k sc i a)) \<le> 1023"
  shows "view_ok (with_signature secp k sc i a)"
proof -
  have "length (in_script (v_ins (with_signature secp k sc i a) ! i)) \<le> 1023"
    using in_script_length [of i "with_signature secp k sc i a"] assms(2,3) by (simp add: with_signature_ins)
  then have "\<forall>x\<in>set (v_ins (with_signature secp k sc i a)). length (in_hash x) = 32 \<and> length (in_script x) < 2 ^ 30"
    using assms(1,2) by (auto simp: with_signature_def view_ok_def dest!: set_update_subset_insert [THEN subsetD])
  then show ?thesis using assms(1) by (simp add: view_ok_def with_signature_ins)
qed

text \<open>A call with the text of a valid key signs one input of an entry with the script of that key.\<close>

lemma sign_entry:
  assumes "secp256k1_laws secp" "valid_key secp k" "table_holds txs m" "m j = Some a" "j \<noteq> 0" "i < length (v_ins a)"
    and t: "check_text (b58prefix_secret_address (chain_for tn) # k @ [1]) t" "50 < length t" "length t \<le> 52"
  defines "sc \<equiv> p2pkh_script (key_hash (public_key secp k))"
  defines "b \<equiv> with_signature secp k sc i a"
  assumes "70 \<le> length (der_signature secp k (sign_hash i sc a))" "length (tx_bytes b) \<le> 1023"
  shows "\<exists>txs'. sign_transaction_w_privkey secp j (int i) (t @ 0 # r) txs = Some (True, txs') \<and> table_holds txs' (m(j \<mapsto> b))"
proof -
  have ok: "view_ok a" by (rule table_view_ok [OF assms(3,4)])
  have okb: "view_ok b" using view_ok_signature [OF ok assms(6)] assms(13) by (simp add: b_def)
  have la: "length (tx_bytes a) \<le> 1023" using with_signature_length(1) [OF assms(6), of secp k sc] assms(13) by (simp add: b_def)
  have g: "get_raw_transaction j txs = Some (Some (raw_buffer a))"
    using get_raw_holds [OF assms(3,4)] raw_buffer_text [OF la] la by simp
  obtain rest where raw: "raw_buffer a = hex_chars (tx_bytes a) @ 0 # rest" using raw_buffer_string [OF la] by blast
  obtain tx where tx: "read_raw (raw_buffer a) (2 * length (tx_bytes a)) = Some (True, tx)"
    unfolding raw using read_raw_ok [OF ok] by blast
  have n: "c_strlen (raw_buffer a) = Some (2 * length (tx_bytes a))" unfolding raw by (rule hex_strlen)
  have s: "sign_raw_text secp True (int i) (raw_buffer a) (hex_chars sc @ [0]) 1 (t @ 0 # r) = Some (True, raw_buffer b)"
    using sign_raw_shared [OF assms(1,2) ok assms(6) t] assms(12,13) unfolding b_def sc_def by blast
  obtain rest' where rawb: "raw_buffer b = hex_chars (tx_bytes b) @ 0 # rest'" using raw_buffer_string [OF assms(13)] by blast
  obtain txs1 where s1: "save_raw_transaction j (raw_buffer b) txs = Some (True, txs1)" "table_holds txs1 (m(j \<mapsto> b))"
    unfolding rawb using save_raw_holds [OF assms(3) _ okb] assms(4,13) by fastforce
  obtain txs2 where s2: "save_raw_transaction j (raw_buffer b) txs1 = Some (True, txs2)" "table_holds txs2 ((m(j \<mapsto> b))(j \<mapsto> b))"
    unfolding rawb using save_raw_holds [OF s1(2) _ okb] assms(13) by fastforce
  note steps = g n tx s s1(1) s2(1) own_script [OF assms(1,2) t, folded sc_def]
  have "sign_transaction_w_privkey secp j (int i) (t @ 0 # r) txs = Some (True, txs2)"
    using assms(5) by (simp add: sign_transaction_w_privkey_def sign_indexed_raw_transaction_def sign_raw_transaction_def steps)
  with s2(2) show ?thesis by simp
qed

section \<open>Signed inputs verify\<close>

text \<open>The hash that is signed does not depend on the scripts of the inputs.\<close>

lemma sign_hash_with_signature: "sign_hash j sc (with_signature secp k sc' i a) = sign_hash j sc a"
proof -
  have "((v_ins a)[i := (v_ins a ! i)\<lparr>in_script := x\<rparr>] ! l)\<lparr>in_script := y\<rparr> = (v_ins a ! l)\<lparr>in_script := y\<rparr>" for x y l
    by (cases "length (v_ins a) \<le> i"; cases "i = l") (simp_all add: list_update_beyond)
  then have "signed_ins j sc ((v_ins a)[i := (v_ins a ! i)\<lparr>in_script := x\<rparr>]) = signed_ins j sc (v_ins a)" for x
    by (simp add: signed_ins_def)
  then show ?thesis by (simp add: sign_hash_def with_signature_def)
qed

text \<open>C5: A signed input carries a signature that verifies. For a key in range and a transaction whose inputs have
  scripts, \<open>dogecoin_tx_sign_input\<close> with a script that pays to a key hash appends to the script of the input the
  signature, its hash type and the public key, and changes nothing else. The result is \<open>OK\<close> exactly when the
  hash is that of the public key. The DER signature it hands out is accepted by \<open>dogecoin_ecc_verify_sig\<close> for the
  hash of the transaction, before and after it is signed. An input that does not exist is reported.\<close>

theorem input_signed:
  assumes "secp256k1_laws secp" "valid_key secp k" "signable tx a" "i < length (v_ins a)"
    and "cstr_holds s (p2pkh_script h)" "length h = 20" "length (tx_bytes a) < 2 ^ 20"
    and "70 \<le> length (der_signature secp k (sign_hash i (p2pkh_script h) a))"
  shows "(\<exists>tx' c d n. dogecoin_tx_sign_input secp (Some tx) (Some s) \<lparr>privkey = k\<rparr> i 1 (Some (replicate 64 0), Some (replicate 75 0), Some 75)
        = Some (if h = key_hash (public_key secp k) then DOGECOIN_SIGN_OK else DOGECOIN_SIGN_NO_KEY_MATCH, Some tx', Some c, Some d, Some (n + 1))
      \<and> tx_holds tx' (with_signature secp k (p2pkh_script h) i a)
      \<and> dogecoin_ecc_verify_sig secp (public_key secp k) True (sign_hash i (p2pkh_script h) a) d n = Some True
      \<and> d ! n = 1 \<and> n \<le> 72)
    \<and> sign_hash i (p2pkh_script h) (with_signature secp k (p2pkh_script h) i a) = sign_hash i (p2pkh_script h) a
    \<and> dogecoin_tx_sign_input secp (Some tx) (Some s) \<lparr>privkey = k\<rparr> (length (v_ins a) + j) 1 q
        = Some (DOGECOIN_SIGN_INPUTINDEX_OUT_OF_RANGE, Some tx, q)"
proof -
  let ?g = "sign_hash i (p2pkh_script h) a" let ?d = "der_signature secp k ?g"
  have lg: "length ?g = 32" by (simp add: sign_hash_def)
  have k: "length k = 32" "ec_seckey_verify secp k" using assms(2) by (simp_all add: valid_key_def)
  obtain tx' c r where r: "dogecoin_tx_sign_input secp (Some tx) (Some s) \<lparr>privkey = k\<rparr> i 1 (Some (replicate 64 0), Some (replicate 75 0), Some 75)
        = Some (if h = key_hash (public_key secp k) then DOGECOIN_SIGN_OK else DOGECOIN_SIGN_NO_KEY_MATCH, Some tx',
            Some c, Some (?d @ [1] @ r), Some (length ?d + 1))"
      "signable tx' (with_signature secp k (p2pkh_script h) i a)"
    using sign_input_ok [OF assms] by blast
  from assms(1) [unfolded secp256k1_laws_def] k lg obtain pk sg where p: "ec_pubkey_create secp k = Some pk"
    "length (ec_pubkey_serialize secp pk True) = 33" "ec_pubkey_parse secp (ec_pubkey_serialize secp pk True) = Some pk"
    "ecdsa_sign secp ?g k = Some sg" "ecdsa_verify secp sg ?g pk" "length (ecdsa_signature_serialize_der secp sg) \<le> 72"
    "ecdsa_signature_parse_der secp (ecdsa_signature_serialize_der secp sg) = Some sg" by blast
  have "dogecoin_ecc_verify_sig secp (public_key secp k) True ?g (?d @ [1] @ r) (length ?d) = Some True" "length ?d \<le> 72"
    using p lg by (simp_all add: dogecoin_ecc_verify_sig_def serialized_key_length_def DOGECOIN_ECKEY_COMPRESSED_LENGTH_def
        public_key_def der_signature_def mem_simps)
  moreover have "dogecoin_tx_sign_input secp (Some tx) (Some s) \<lparr>privkey = k\<rparr> (length (v_ins a) + j) 1 q
      = Some (DOGECOIN_SIGN_INPUTINDEX_OUT_OF_RANGE, Some tx, q)"
    using assms(3) by (auto simp: dogecoin_tx_sign_input_def signable_def dest!: views_length)
  ultimately show ?thesis
    using r signable_holds [OF r(2)] sign_hash_with_signature
    by (intro conjI exI [of _ tx'] exI [of _ c] exI [of _ "?d @ [1] @ r"] exI [of _ "length ?d"]) simp_all
qed

lemma sample_der: "length h = 32 \<Longrightarrow> length k = 32 \<Longrightarrow> length (der_signature sample_curve k h) = 70"
  by (simp add: der_signature_def sample_curve_def)

lemma input_signed_witness:
  "\<exists>tx s r q. tx_holds tx (payment [(replicate 32 9, 0)] []) \<and> cstr_holds s (p2pkh_script (replicate 20 3))
    \<and> dogecoin_tx_sign_input sample_curve (Some tx) (Some s) \<lparr>privkey = replicate 32 7\<rparr> 0 1 (Some (replicate 64 0), Some (replicate 75 0), Some 75)
      = Some (r, q)
    \<and> dogecoin_tx_sign_input sample_curve (Some tx) (Some s) \<lparr>privkey = replicate 32 7\<rparr> 1 1 (None, None, None)
      = Some (DOGECOIN_SIGN_INPUTINDEX_OUT_OF_RANGE, Some tx, (None, None, None))"
proof -
  let ?a = "payment [(replicate 32 9, 0)] []"
  let ?sc = "p2pkh_script (replicate 20 3)"
  have "view_ok ?a" by (simp add: view_ok_def payment_def empty_view_def)
  then obtain tx where tx: "signable tx ?a" using read_raw_ok [of ?a "[]"] by blast
  obtain s where s: "cstr_holds s ?sc" using cstr_new_buf_ok [of ?sc] by (auto simp: p2pkh_script_bytes)
  have i: "0 < length (v_ins ?a)" by (simp add: payment_def)
  have l: "length (tx_bytes ?a) < 2 ^ 20"
    by (simp add: tx_bytes_def payment_def empty_view_def varlen_bytes_def in_bytes_def varstr_bytes_def del: le_bytes_numeral)
  have d: "70 \<le> length (der_signature sample_curve (replicate 32 7) (sign_hash 0 ?sc ?a))"
    by (simp add: sample_der sign_hash_def)
  have h: "length (replicate 20 (3 :: u8)) = 20" by simp
  have n: "length (v_ins ?a) + 0 = 1" by (simp add: payment_def)
  note r = input_signed [OF sample_curve_laws sample_key tx i s h l d, of 0 "(None, None, None)", unfolded n]
  from conjunct1 [OF r] obtain x q where
    "dogecoin_tx_sign_input sample_curve (Some tx) (Some s) \<lparr>privkey = replicate 32 7\<rparr> 0 1 (Some (replicate 64 0), Some (replicate 75 0), Some 75) = Some (x, q)"
    by blast
  with conjunct2 [OF conjunct2 [OF r]] signable_holds [OF tx] s show ?thesis by blast
qed

end
