(* ===== verification/Firmware.thy ===== *)
theory Firmware
  imports RadioTypes
begin

text \<open>
  The firmware of the LoRa module, \<open>heltec-firmware/heltec-firmware.ino\<close>: its globals as the record
  \<open>fw\<close>, the serial commands of the host (\<open>HostSerialRead\<close>), the packets of the air (\<open>OnRxDone\<close>), and
  one turn of the main loop with the radio interrupts it serves. The radio and the display are
  logs of the calls made to them. Serial input comes in bursts: \<open>Serial.readBytes\<close> waits within a
  burst, and the silence after a burst is longer than its timeout.
\<close>

section \<open>Types of the firmware\<close>

datatype messageType = UNKNOWN | ACK | PING | MESSAGE

fun message_code :: "messageType \<Rightarrow> u8" where
  "message_code UNKNOWN = 0"
| "message_code ACK = 1"
| "message_code PING = 2"
| "message_code MESSAGE = 3"

record nodeAddress =
  region :: u8
  community :: u8
  node :: u8

definition addr_bytes :: "nodeAddress \<Rightarrow> bytes" where
  "addr_bytes a = [region a, community a, node a]"

datatype radio_call = RadioSend bytes | RadioRx | RadioSleep

datatype screen_call =
    DisplayTXMessage bytes nodeAddress
  | DisplayRXMessage bytes nodeAddress
  | DisplayBroadcastMessage nodeAddress
  | DisplayCommandAndControl u8
  | DisplayLocalAddress nodeAddress
  | DisplayHardwareInfo
  | DisplayCustomStringMessage bytes u8
  | DrawRadioDogeLogo
  | DogeAnimation
  | CoinAnimation
  | DrawReceivingCoinsImage bytes  \<comment> \<open>the four bytes of the float\<close>
  | DrawSendingCoinsImage bytes

record fw =
  local_address :: nodeAddress
  dest :: nodeAddress
  sender :: nodeAddress
  rxPacket :: bytes
  rxSize :: nat
  controlPacket :: bytes
  serialBuf :: bytes
  hostCommandReply :: bytes
  isLoRaIdle :: bool
  needToSendACK :: bool
  serial_in :: "bytes list"
  serial_out :: bytes
  radio :: "radio_call list"
  screen :: "screen_call list"

definition fw_init :: fw where
  "fw_init = (let z = \<lparr>region = 0, community = 0, node = 0\<rparr> in
     \<lparr>local_address = z, dest = z, sender = z, rxPacket = replicate 256 0, rxSize = 0,
      controlPacket = replicate 8 0, serialBuf = replicate 256 0,
      hostCommandReply = replicate 256 0, isLoRaIdle = True, needToSendACK = False,
      serial_in = [], serial_out = [], radio = [], screen = []\<rparr>)"

definition CONTROL_SIZE :: nat where [code_values]: "CONTROL_SIZE = 8"
definition SERIAL_HEADER_SIZE :: nat where [code_values]: "SERIAL_HEADER_SIZE = 2"
definition SENDER_ADDRESS_OFFSET :: nat where [code_values]: "SENDER_ADDRESS_OFFSET = 2"
definition HELTEC_BOARD_VERSION :: u8 where [code_values]: "HELTEC_BOARD_VERSION = 2"
definition FIRMWARE_VERSION :: u8 where [code_values]: "FIRMWARE_VERSION = 1"

definition hostACK :: bytes where [code_values]: "hostACK = [254, 1, 6]"
definition hostNACK :: bytes where [code_values]: "hostNACK = [254, 1, 21]"

section \<open>Calls to the hardware\<close>

definition serial_write :: "bytes \<Rightarrow> fw \<Rightarrow> fw" where
  "serial_write bs f = f\<lparr>serial_out := serial_out f @ bs\<rparr>"

definition radio_call :: "radio_call \<Rightarrow> fw \<Rightarrow> fw" where
  "radio_call c f = f\<lparr>radio := radio f @ [c]\<rparr>"

definition show_screen :: "screen_call \<Rightarrow> fw \<Rightarrow> fw" where
  "show_screen c f = f\<lparr>screen := screen f @ [c]\<rparr>"

fun read_burst :: "nat \<Rightarrow> bytes list \<Rightarrow> bytes \<times> bytes list" where
  "read_burst n [] = ([], [])"
| "read_burst n (b # bs) =
     (if n \<le> length b then (take n b, drop n b # bs) else (b, bs))"

section \<open>Addresses and control packets\<close>

definition address_at :: "bytes \<Rightarrow> nat \<Rightarrow> nodeAddress option" where
  "address_at buf i = do {
     r \<leftarrow> mem_get buf i; c \<leftarrow> mem_get buf (i + 1); n \<leftarrow> mem_get buf (i + 2);
     Some \<lparr>region = r, community = c, node = n\<rparr>
   }"

definition InitControlMessages :: "fw \<Rightarrow> fw option" where
  "InitControlMessages f = do {
     c \<leftarrow> mem_write (controlPacket f) 0
       [message_code UNKNOWN, 6, region (local_address f), community (local_address f),
        node (local_address f)];
     Some (f\<lparr>controlPacket := c\<rparr>)
   }"

definition SetLocalAddressFromSerialBuffer :: "nat \<Rightarrow> fw \<Rightarrow> fw option" where
  "SetLocalAddressFromSerialBuffer offset f = do {
     a \<leftarrow> address_at (serialBuf f) offset; Some (f\<lparr>local_address := a\<rparr>)
   }"

definition SetDestinationFromSerialBuffer :: "nat \<Rightarrow> fw \<Rightarrow> fw option" where
  "SetDestinationFromSerialBuffer offset f = do {
     a \<leftarrow> address_at (serialBuf f) offset; Some (f\<lparr>dest := a\<rparr>)
   }"

definition SetSenderAddress :: "fw \<Rightarrow> fw option" where
  "SetSenderAddress f = do {
     a \<leftarrow> address_at (rxPacket f) SENDER_ADDRESS_OFFSET; Some (f\<lparr>sender := a\<rparr>)
   }"

definition GetLocalAddress :: "fw \<Rightarrow> fw option" where
  "GetLocalAddress f = do {
     r \<leftarrow> mem_write (hostCommandReply f) 1 (3 # addr_bytes (local_address f));
     out \<leftarrow> mem_read r 0 5;
     Some (serial_write out (f\<lparr>hostCommandReply := r\<rparr>))
   }"

text \<open>The two messages made from \<open>controlPacket\<close>.\<close>

definition control_message :: "messageType \<Rightarrow> nodeAddress \<Rightarrow> fw \<Rightarrow> fw option" where
  "control_message t destination f = do {
     c \<leftarrow> mem_set (controlPacket f) 0 (message_code t);
     c \<leftarrow> mem_write c 5 (addr_bytes destination);
     Some (f\<lparr>controlPacket := c, isLoRaIdle := False\<rparr>)
   }"

definition send_control :: "fw \<Rightarrow> fw option" where
  "send_control f = do {
     p \<leftarrow> mem_read (controlPacket f) 0 CONTROL_SIZE;
     Some (serial_write hostACK (radio_call (RadioSend p) f))
   }"

definition SendPing :: "nodeAddress \<Rightarrow> fw \<Rightarrow> fw option" where
  "SendPing destination f = do {
     f \<leftarrow> control_message PING destination f;
     send_control (show_screen (DisplayTXMessage (map of_char ''Ping'') destination) f)
   }"

definition SendACK :: "nodeAddress \<Rightarrow> fw \<Rightarrow> fw option" where
  "SendACK destination f = do {
     f \<leftarrow> control_message ACK destination f;
     send_control (show_screen (DisplayTXMessage (map of_char ''ACK'') destination) f)
   }"

section \<open>Messages\<close>

text \<open>
  \<open>ExtractStringMessageFromBuffer\<close> copies \<open>bufferSize - 6\<close> characters to the heap without a
  terminator, so a string without a NUL among them is read past its end.
\<close>

definition ExtractStringMessageFromBuffer :: "bytes \<Rightarrow> nat \<Rightarrow> bytes option" where
  "ExtractStringMessageFromBuffer buf bufferSize =
     (if bufferSize < 6 then None
      else do { m \<leftarrow> mem_read buf 7 (bufferSize - 6); c_string m })"

definition SendMessage :: "nat \<Rightarrow> fw \<Rightarrow> fw option" where
  "SendMessage messageLength f =
     (let messageLength = (if messageLength > 255 then 255 else messageLength)
      in do {
        messageString \<leftarrow> ExtractStringMessageFromBuffer (serialBuf f) messageLength;
        let f = show_screen (DisplayTXMessage messageString (dest f)) f;
        b \<leftarrow> mem_set (serialBuf f) 0 (message_code MESSAGE);
        p \<leftarrow> mem_read b 0 messageLength;
        Some (radio_call (RadioSend p) (f\<lparr>serialBuf := b\<rparr>))
      })"

section \<open>Display control\<close>

definition ProcessCoinDisplay :: "nat \<Rightarrow> fw \<Rightarrow> fw option" where
  "ProcessCoinDisplay payloadSize f =
     (if payloadSize < 5 then Some f
      else do {
        coinAmount \<leftarrow> mem_read (serialBuf f) 1 4;
        k \<leftarrow> mem_get (serialBuf f) 0;
        Some (if k = display_code RECEIVING_DISPLAY
                then show_screen (DrawReceivingCoinsImage coinAmount) f
              else if k = display_code SENDING_DISPLAY
                then show_screen (DrawSendingCoinsImage coinAmount) f
              else f)
      })"

definition ProcessDisplayControl :: "nat \<Rightarrow> fw \<Rightarrow> fw option" where
  "ProcessDisplayControl payloadSize f = do {
     k \<leftarrow> mem_get (serialBuf f) 0;
     (if k = display_code STRING_DISPLAY then
        (if payloadSize < 2 then None
         else do {
           yOffset \<leftarrow> mem_get (serialBuf f) 1;
           extractedString \<leftarrow> mem_read (serialBuf f) 2 (payloadSize - 2);
           displayString \<leftarrow> c_string (extractedString @ [0]);
           Some (show_screen (DisplayCustomStringMessage displayString yOffset) f)
         })
      else if k = display_code RADIO_DOGE_LOGO then Some (show_screen DrawRadioDogeLogo f)
      else if k = display_code DOGE_ANIMATION then Some (show_screen DogeAnimation f)
      else if k = display_code COIN_ANIMATION then Some (show_screen CoinAnimation f)
      else if k = display_code RECEIVING_DISPLAY \<or> k = display_code SENDING_DISPLAY
        then ProcessCoinDisplay payloadSize f
      else Some f)
   }"

definition SendHardwareInfoToHost :: "fw \<Rightarrow> fw" where
  "SendHardwareInfoToHost f =
     serial_write [cmd_code HARDWARE_INFO, 3, 104, HELTEC_BOARD_VERSION, FIRMWARE_VERSION] f"

section \<open>Commands of the host\<close>

definition ReadSerialHeader :: "fw \<Rightarrow> (u8 \<times> u8) option \<times> fw" where
  "ReadSerialHeader f =
     (let (bs, rest) = read_burst SERIAL_HEADER_SIZE (serial_in f); f = f\<lparr>serial_in := rest\<rparr>
      in case bs of [c, n] \<Rightarrow> (Some (c, n), f) | _ \<Rightarrow> (None, f))"

definition ReadSerialPayload :: "u8 \<Rightarrow> fw \<Rightarrow> (bool \<times> fw) option" where
  "ReadSerialPayload payloadSize f =
     (let (bs, rest) = read_burst (unat payloadSize) (serial_in f)
      in do {
        b \<leftarrow> mem_write (serialBuf f) 0 bs;
        Some (length bs = unat payloadSize, f\<lparr>serial_in := rest, serialBuf := b\<rparr>)
      })"

definition digits3 :: "u8 \<Rightarrow> bytes" where
  "digits3 b = (let n = unat b in
     (if n < 10 then [] else if n < 100 then [of_nat (48 + n div 10)]
      else [of_nat (48 + n div 100), of_nat (48 + n div 10 mod 10)]) @ [of_nat (48 + n mod 10)])"

definition send_packet :: "bytes \<Rightarrow> nat \<Rightarrow> fw \<Rightarrow> fw option" where
  "send_packet text payloadSize f = do {
     f \<leftarrow> SetDestinationFromSerialBuffer 5 f;
     let f = show_screen (DisplayTXMessage text (dest f)) f;
     p \<leftarrow> mem_read (serialBuf f) 0 payloadSize;
     Some (serial_write hostACK (radio_call (RadioSend p) f))
   }"

definition perform_command :: "u8 \<Rightarrow> nat \<Rightarrow> fw \<Rightarrow> fw option" where
  "perform_command c payloadSize f =
     (if c = cmd_code NODE_ADDRESS_GET then do {
        f \<leftarrow> GetLocalAddress f;
        Some (show_screen (DisplayLocalAddress (local_address f)) f)
      }
      else if c = cmd_code NODE_ADDRESS_SET then do {
        f \<leftarrow> SetLocalAddressFromSerialBuffer 0 f;
        f \<leftarrow> InitControlMessages f;
        Some (serial_write hostACK (show_screen (DisplayLocalAddress (local_address f)) f))
      }
      else if c = cmd_code PING_REQUEST then do {
        f \<leftarrow> SetDestinationFromSerialBuffer 0 f;
        SendPing (dest f) f
      }
      else if c = cmd_code MESSAGE_REQUEST then do {
        f \<leftarrow> SetDestinationFromSerialBuffer 4 f;
        SendMessage payloadSize f
      }
      else if c = cmd_code HARDWARE_INFO
        then Some (SendHardwareInfoToHost (show_screen DisplayHardwareInfo f))
      else if c = cmd_code DISPLAY_CONTROL then do {
        f \<leftarrow> ProcessDisplayControl payloadSize f;
        Some (serial_write hostACK f)
      }
      else if c = cmd_code HOST_FORMED_PACKET
        then send_packet (map of_char ''Custom Packet!'') payloadSize f
      else if c = cmd_code MULTIPART_PACKET then do {
        i \<leftarrow> mem_get (serialBuf f) 10; n \<leftarrow> mem_get (serialBuf f) 11;
        send_packet (map of_char ''Part '' @ digits3 i @ map of_char '' of '' @ digits3 n)
          payloadSize f
      }
      else Some (serial_write hostNACK f))"

definition HostSerialRead :: "fw \<Rightarrow> fw option" where
  "HostSerialRead f =
     (case ReadSerialHeader f of
        (None, f) \<Rightarrow> Some f
      | (Some (commandVal, payloadSize), f) \<Rightarrow> do {
          r \<leftarrow> mem_set (hostCommandReply f) 0 commandVal;
          (payloadSuccess, f) \<leftarrow> ReadSerialPayload payloadSize
             (show_screen (DisplayCommandAndControl commandVal) (f\<lparr>hostCommandReply := r\<rparr>));
          (if \<not> payloadSuccess then Some (serial_write hostNACK f)
           else perform_command commandVal (unat payloadSize) f)
        })"

section \<open>Packets of the air\<close>

definition CheckIfPacketForMe :: "fw \<Rightarrow> bool option" where
  "CheckIfPacketForMe f = do { a \<leftarrow> address_at (rxPacket f) 5; Some (local_address f = a) }"

definition CheckIfPacketIsGlobalBroadcast :: "fw \<Rightarrow> bool option" where
  "CheckIfPacketIsGlobalBroadcast f =
     do { a \<leftarrow> address_at (rxPacket f) 5; Some (addr_bytes a = [255, 255, 255]) }"

definition ReceivedACK :: "fw \<Rightarrow> fw option" where
  "ReceivedACK f = do {
     f \<leftarrow> SetSenderAddress f; Some (show_screen (DisplayRXMessage (map of_char ''ACK'') (sender f)) f)
   }"

definition ReceivedPing :: "fw \<Rightarrow> fw option" where
  "ReceivedPing f = do {
     f \<leftarrow> SetSenderAddress f; Some (show_screen (DisplayRXMessage (map of_char ''Ping!'') (sender f)) f)
   }"

definition forward_packet :: "bytes \<Rightarrow> fw \<Rightarrow> fw option" where
  "forward_packet text f = do {
     f \<leftarrow> SetSenderAddress f;
     p \<leftarrow> mem_read (rxPacket f) 0 (rxSize f);
     Some (serial_write p (show_screen (DisplayRXMessage text (sender f)) f))
   }"

definition ParseReceivedMessage :: "fw \<Rightarrow> fw option" where
  "ParseReceivedMessage f = do {
     forMe \<leftarrow> CheckIfPacketForMe f;
     forAll \<leftarrow> CheckIfPacketIsGlobalBroadcast f;
     (if forMe then do {
        mType \<leftarrow> mem_get (rxPacket f) 0;
        (if mType = message_code ACK then ReceivedACK f
         else if mType = message_code PING then do {
           f \<leftarrow> ReceivedPing f;
           a \<leftarrow> address_at (rxPacket f) 2;
           Some (f\<lparr>dest := a, needToSendACK := True\<rparr>)
         }
         else if mType = message_code MESSAGE then do {
           messageString \<leftarrow> ExtractStringMessageFromBuffer (rxPacket f) (rxSize f);
           f \<leftarrow> SetSenderAddress f;
           Some (show_screen (DisplayRXMessage messageString (sender f)) f)
         }
         else if mType = cmd_code HOST_FORMED_PACKET
           then forward_packet (map of_char ''Packet Received!'') f
         else if mType = cmd_code MULTIPART_PACKET then do {
           i \<leftarrow> mem_get (rxPacket f) 10; n \<leftarrow> mem_get (rxPacket f) 11;
           forward_packet
             (map of_char ''Packet part '' @ digits3 i @ map of_char '' of '' @ digits3 n) f
         }
         else Some f)
      }
      else if forAll then do {
        f \<leftarrow> SetSenderAddress f;
        p \<leftarrow> mem_read (rxPacket f) 0 (rxSize f);
        Some (serial_write p (show_screen (DisplayBroadcastMessage (sender f)) f))
      }
      else Some f)
   }"

definition OnTxDone :: "fw \<Rightarrow> fw" where
  "OnTxDone f = f\<lparr>isLoRaIdle := True\<rparr>"

definition OnTxTimeout :: "fw \<Rightarrow> fw" where
  "OnTxTimeout f = (radio_call RadioSleep f)\<lparr>isLoRaIdle := True\<rparr>"

definition OnRxTimeout :: "fw \<Rightarrow> fw" where
  "OnRxTimeout f = (radio_call RadioSleep f)\<lparr>isLoRaIdle := True\<rparr>"

definition OnRxDone :: "bytes \<Rightarrow> fw \<Rightarrow> fw option" where
  "OnRxDone payload f = do {
     r \<leftarrow> mem_write (rxPacket f) 0 payload;
     r \<leftarrow> mem_set r (length payload) 0;
     f \<leftarrow> ParseReceivedMessage (radio_call RadioSleep (f\<lparr>rxPacket := r, rxSize := length payload\<rparr>));
     Some (f\<lparr>isLoRaIdle := True\<rparr>)
   }"

section \<open>The main loop\<close>

datatype irq = TxDone | TxTimeout | RxTimeout | RxDone bytes

fun IrqProcess :: "irq list \<Rightarrow> fw \<Rightarrow> fw option" where
  "IrqProcess [] f = Some f"
| "IrqProcess (TxDone # qs) f = IrqProcess qs (OnTxDone f)"
| "IrqProcess (TxTimeout # qs) f = IrqProcess qs (OnTxTimeout f)"
| "IrqProcess (RxTimeout # qs) f = IrqProcess qs (OnRxTimeout f)"
| "IrqProcess (RxDone p # qs) f = do { f \<leftarrow> OnRxDone p f; IrqProcess qs f }"

text \<open>\<open>Serial.available() > 0\<close>: what is left of a burst that was read to its end is gone.\<close>

definition arrived :: "fw \<Rightarrow> fw" where
  "arrived f = f\<lparr>serial_in := dropWhile (\<lambda>b. b = []) (serial_in f)\<rparr>"

definition CommandAndControlLoop :: "irq list \<Rightarrow> fw \<Rightarrow> fw option" where
  "CommandAndControlLoop irqs f = do {
     f \<leftarrow> (if needToSendACK f
          then SendACK (dest f) (f\<lparr>isLoRaIdle := False, needToSendACK := False\<rparr>) else Some f);
     let f = (if isLoRaIdle f then radio_call RadioRx (f\<lparr>isLoRaIdle := False\<rparr>) else f);
     let f = arrived f;
     f \<leftarrow> (if serial_in f \<noteq> [] then HostSerialRead f else Some f);
     IrqProcess irqs f
   }"

end
