(* ===== verification/HostTx.thy ===== *)
theory HostTx
  imports RadioTypes
begin

text \<open>
  The sending side of the host program \<open>serdog/serdog.c\<close>: \<open>sendCommand\<close>, which frames a payload
  and writes it byte by byte to the serial port, and every \<open>cmd...\<close> function built on it. The port
  records what has reached the wire and the results the operating system still has to give to
  \<open>write\<close>; a function returns \<open>None\<close> where the code reads or writes outside an object.
\<close>

section \<open>The serial port\<close>

text \<open>\<open>write(USB, &b, 1)\<close> returns 1, 0 or -1; with no result left to give, it returns 1.\<close>

datatype write_result = Wrote | WroteNothing | WriteError

record port =
  wr_results :: "write_result list"
  sent :: bytes

definition usb_write :: "u8 \<Rightarrow> port \<Rightarrow> write_result \<times> port" where
  "usb_write b p =
     (case wr_results p of
        [] \<Rightarrow> (Wrote, p\<lparr>sent := sent p @ [b]\<rparr>)
      | Wrote # rs \<Rightarrow> (Wrote, p\<lparr>wr_results := rs, sent := sent p @ [b]\<rparr>)
      | r # rs \<Rightarrow> (r, p\<lparr>wr_results := rs\<rparr>))"

text \<open>The write loop of \<open>sendCommand\<close>: it stops at the first byte that is not written.\<close>

fun write_bytes :: "bytes \<Rightarrow> port \<Rightarrow> port" where
  "write_bytes [] p = p"
| "write_bytes (b # bs) p =
     (case usb_write b p of
        (Wrote, p') \<Rightarrow> write_bytes bs p'
      | (_, p') \<Rightarrow> p')"

section \<open>sendCommand\<close>

text \<open>
  The copy loop \<open>do { txbytes[idx + HDR_LEN] = payload[idx]; idx++; } while (idx != payloadlen);\<close>:
  the test comes after the first copy, so a payload length of 0 is not noticed.
\<close>

function copy_payload :: "bytes \<Rightarrow> bytes \<Rightarrow> nat \<Rightarrow> nat \<Rightarrow> bytes option" where
  "copy_payload tx payload idx payloadlen =
     (if idx < length payload
      then (case mem_set tx (idx + HDR_LEN) (payload ! idx) of
              None \<Rightarrow> None
            | Some tx' \<Rightarrow>
                if Suc idx = payloadlen then Some tx'
                else copy_payload tx' payload (Suc idx) payloadlen)
      else None)"
  by pat_completeness auto
termination
  by (relation "measure (\<lambda>(tx, payload, idx, n). length payload - idx)") auto

declare copy_payload.simps [simp del]

definition sendCommand :: "serialCommand \<Rightarrow> nat \<Rightarrow> bytes option \<Rightarrow> port \<Rightarrow> port option" where
  "sendCommand cmdtype payloadsize payload p =
     (let payloadlen = (case payload of None \<Rightarrow> 0 | Some _ \<Rightarrow> payloadsize mod 256);
          tx = (replicate (255 + HDR_LEN) 0)[0 := cmd_code cmdtype, 1 := of_nat payloadlen]
      in do {
        tx' \<leftarrow> (case payload of None \<Rightarrow> Some tx | Some pl \<Rightarrow> copy_payload tx pl 0 payloadlen);
        Some (write_bytes (take (payloadlen + HDR_LEN) tx') p)
      })"

section \<open>Commands to the local module\<close>

definition cmdSetLocalAddress :: "int \<Rightarrow> int \<Rightarrow> int \<Rightarrow> port \<Rightarrow> port option" where
  "cmdSetLocalAddress region community node p =
     sendCommand NODE_ADDRESS_SET 3
       (Some [word_of_int region, word_of_int community, word_of_int node]) p"

definition cmdGetLocalAddress :: "port \<Rightarrow> port option" where
  "cmdGetLocalAddress p = sendCommand NODE_ADDRESS_GET 0 None p"

definition cmdGetHardwareInfo :: "port \<Rightarrow> port option" where
  "cmdGetHardwareInfo p = sendCommand HARDWARE_INFO 0 None p"

definition cmdSendPing :: "bytes \<Rightarrow> port \<Rightarrow> port option" where
  "cmdSendPing inAddr p = do {
     a0 \<leftarrow> mem_get inAddr 0; a1 \<leftarrow> mem_get inAddr 1; a2 \<leftarrow> mem_get inAddr 2;
     sendCommand PING_REQUEST 3 (Some [a0, a1, a2]) p
   }"

definition cmdDisplayCustomStringOnOLED :: "bytes \<Rightarrow> nat \<Rightarrow> u8 \<Rightarrow> port \<Rightarrow> port option" where
  "cmdDisplayCustomStringOnOLED displayString displayStringLen yOffset p = do {
     s \<leftarrow> mem_read displayString 0 displayStringLen;
     sendCommand DISPLAY_CONTROL (displayStringLen + 2)
       (Some ([display_code STRING_DISPLAY, yOffset] @ s)) p
   }"

definition displayControlTest :: "port \<Rightarrow> port option" where
  "displayControlTest p = do {
     p \<leftarrow> cmdDisplayCustomStringOnOLED (map of_char ''Hello'') 5 0 p;
     p \<leftarrow> sendCommand DISPLAY_CONTROL 1 (Some [display_code RADIO_DOGE_LOGO]) p;
     p \<leftarrow> sendCommand DISPLAY_CONTROL 1 (Some [display_code DOGE_ANIMATION]) p;
     p \<leftarrow> sendCommand DISPLAY_CONTROL 1 (Some [display_code COIN_ANIMATION]) p;
     sendCommand DISPLAY_CONTROL 1 (Some [display_code RADIO_DOGE_LOGO]) p
   }"

section \<open>Messages to another node\<close>

definition cmdSendMessage :: "bytes \<Rightarrow> bytes \<Rightarrow> bytes \<Rightarrow> u8 \<Rightarrow> port \<Rightarrow> port option" where
  "cmdSendMessage inAddr destAddr customPayload customPayloadLen p =
     (let totalPayloadSize = unat customPayloadLen + HDR_LEN + ADDR_LEN + ADDR_LEN
      in do {
        a \<leftarrow> mem_read inAddr 0 ADDR_LEN;
        d \<leftarrow> mem_read destAddr 0 ADDR_LEN;
        c \<leftarrow> mem_read customPayload 0 (unat customPayloadLen);
        sendCommand HOST_FORMED_PACKET totalPayloadSize
          (Some ([cmd_code HOST_FORMED_PACKET, of_nat (totalPayloadSize - HDR_LEN)] @ a @ d @ c)) p
      })"

definition cmdSendBroadcast :: "bytes \<Rightarrow> port \<Rightarrow> port option" where
  "cmdSendBroadcast myaddr p =
     cmdSendMessage myaddr broadcastAddress
       [cmd_code BROADCAST_MESSAGE, broadcast_code NODE_ANNOUNCEMENT] 2 p"

definition cmdRequestDogeAddress :: "bytes \<Rightarrow> bytes \<Rightarrow> port \<Rightarrow> port option" where
  "cmdRequestDogeAddress inAddr destAddr p =
     cmdSendMessage inAddr destAddr [doge_code GET_DOGE_ADDRESS] 1 p"

definition cmdSendDogeAddress :: "bytes \<Rightarrow> bytes \<Rightarrow> bytes \<Rightarrow> port \<Rightarrow> port option" where
  "cmdSendDogeAddress inAddr destAddr dogeAddress p = do {
     a \<leftarrow> mem_read dogeAddress 0 P2PKH_ADDR_STRINGLEN;
     cmdSendMessage inAddr destAddr (doge_code SEND_DOGE_ADDRESS # a)
       (of_nat (P2PKH_ADDR_STRINGLEN + 1)) p
   }"

definition cmdRequestUTXOs :: "bytes \<Rightarrow> bytes \<Rightarrow> bytes \<Rightarrow> port \<Rightarrow> port option" where
  "cmdRequestUTXOs inAddr destAddr dogeAddress p = do {
     a \<leftarrow> mem_read dogeAddress 0 P2PKH_ADDR_STRINGLEN;
     cmdSendMessage inAddr destAddr (doge_code REQUEST_UTXOS # a)
       (of_nat (P2PKH_ADDR_STRINGLEN + 1)) p
   }"

definition cmdRequestBalance :: "bytes \<Rightarrow> bytes \<Rightarrow> bytes \<Rightarrow> port \<Rightarrow> port option" where
  "cmdRequestBalance inAddr destAddr dogeAddress p = do {
     a \<leftarrow> mem_read dogeAddress 0 P2PKH_ADDR_STRINGLEN;
     cmdSendMessage inAddr destAddr (doge_code REQUEST_BALANCE # a)
       (of_nat (P2PKH_ADDR_STRINGLEN + 1)) p
   }"

definition cmdRegisterDogeAddress ::
    "bytes \<Rightarrow> bytes \<Rightarrow> bytes \<Rightarrow> bytes \<Rightarrow> bool \<Rightarrow> port \<Rightarrow> port option" where
  "cmdRegisterDogeAddress inaddr destAddr dogeAddress pin removeAddress p =
     (let payloadLength = 2 + P2PKH_ADDR_STRINGLEN + PIN_LENGTH;
          fn = (if removeAddress then REMOVE_REGISTRATION else ADD_REGISTRATION)
      in do {
        a \<leftarrow> mem_read dogeAddress 0 P2PKH_ADDR_STRINGLEN;
        n \<leftarrow> mem_read pin 0 PIN_LENGTH;
        cmdSendMessage inaddr destAddr
          ([doge_code REGISTRATION, registration_code fn] @ a @ n) (of_nat payloadLength) p
      })"

definition cmdUpdateRegistrationPin ::
    "bytes \<Rightarrow> bytes \<Rightarrow> bytes \<Rightarrow> bytes \<Rightarrow> bytes \<Rightarrow> port \<Rightarrow> port option" where
  "cmdUpdateRegistrationPin inaddr destAddr dogeAddress oldPin updatedPin p =
     (let payloadLength = 2 + P2PKH_ADDR_STRINGLEN + 2 * PIN_LENGTH
      in do {
        a \<leftarrow> mem_read dogeAddress 0 P2PKH_ADDR_STRINGLEN;
        o4 \<leftarrow> mem_read oldPin 0 PIN_LENGTH;
        u4 \<leftarrow> mem_read updatedPin 0 PIN_LENGTH;
        cmdSendMessage inaddr destAddr
          ([doge_code REGISTRATION, registration_code UPDATE_PIN] @ a @ o4 @ u4)
          (of_nat payloadLength) p
      })"

section \<open>Multipart messages\<close>

definition totalNumParts :: "nat \<Rightarrow> nat" where
  "totalNumParts customPayloadLen =
     (if customPayloadLen mod MAX_PAYLOAD_LEN \<noteq> 0
      then customPayloadLen div MAX_PAYLOAD_LEN + 1
      else customPayloadLen div MAX_PAYLOAD_LEN)"

text \<open>The packet of part \<open>i\<close>, as it is laid out in \<open>currentPacket\<close>.\<close>

definition multipart_packet :: "bytes \<Rightarrow> bytes \<Rightarrow> u8 \<Rightarrow> nat \<Rightarrow> nat \<Rightarrow> bytes \<Rightarrow> bytes" where
  "multipart_packet a d messageID i nparts part =
     [cmd_code MULTIPART_PACKET, of_nat (length part + MULTIPART_HDR_LEN - HDR_LEN)]
     @ a @ d @ [messageID, 0, of_nat i, of_nat nparts] @ part"

function multipart_loop ::
    "bytes \<Rightarrow> bytes \<Rightarrow> bytes \<Rightarrow> u8 \<Rightarrow> nat \<Rightarrow> nat \<Rightarrow> nat \<Rightarrow> nat \<Rightarrow> port \<Rightarrow> port option" where
  "multipart_loop inAddr destAddr customPayload messageID nparts i payloadInd payloadLeft p =
     (if i < nparts + 1 then
        (let currPayloadLen = (if payloadLeft \<ge> MAX_PAYLOAD_LEN then MAX_PAYLOAD_LEN
                               else payloadLeft)
         in do {
           a \<leftarrow> mem_read inAddr 0 ADDR_LEN;
           d \<leftarrow> mem_read destAddr 0 ADDR_LEN;
           part \<leftarrow> mem_read customPayload payloadInd currPayloadLen;
           p \<leftarrow> sendCommand MULTIPART_PACKET (currPayloadLen + MULTIPART_HDR_LEN)
                 (Some (multipart_packet a d messageID i nparts part)) p;
           multipart_loop inAddr destAddr customPayload messageID nparts (i + 1)
             (payloadInd + currPayloadLen) (payloadLeft - currPayloadLen) p
         })
      else Some p)"
  by pat_completeness auto
termination
  by (relation "measure (\<lambda>(a, d, c, m, np, i, pi, pl, p). np + 1 - i)") auto

declare multipart_loop.simps [simp del]

definition cmdSendMultipartMessage ::
    "bytes \<Rightarrow> bytes \<Rightarrow> bytes \<Rightarrow> nat \<Rightarrow> u8 \<Rightarrow> port \<Rightarrow> port option" where
  "cmdSendMultipartMessage inAddr destAddr customPayload customPayloadLen messageID p =
     multipart_loop inAddr destAddr customPayload messageID (totalNumParts customPayloadLen)
       1 0 customPayloadLen p"

definition cmdSendTransaction :: "bytes \<Rightarrow> bytes \<Rightarrow> bytes \<Rightarrow> u8 \<Rightarrow> port \<Rightarrow> port option" where
  "cmdSendTransaction inaddr destAddr rawTransaction requestId p = do {
     transactionLength \<leftarrow> c_strlen rawTransaction;
     t \<leftarrow> mem_read rawTransaction 0 transactionLength;
     cmdSendMultipartMessage inaddr destAddr (doge_code TRANSACTION_REQUEST # t)
       (1 + transactionLength) requestId p
   }"

definition multipartCountTest :: "bytes \<Rightarrow> bytes \<Rightarrow> port \<Rightarrow> port option" where
  "multipartCountTest myaddr rmaddr p =
     cmdSendMultipartMessage myaddr rmaddr (map (\<lambda>i. of_nat (i mod 256)) [0..<1024]) 1024 123 p"

section \<open>What reaches the wire\<close>

text \<open>The serial frame of a command and its payload.\<close>

definition frame :: "serialCommand \<Rightarrow> bytes \<Rightarrow> bytes" where
  "frame c pl = [cmd_code c, of_nat (length pl)] @ pl"

lemma length_frame [simp]: "length (frame c pl) = length pl + 2"
  by (simp add: frame_def)

lemma write_bytes_working:
  "wr_results p = [] \<Longrightarrow> write_bytes bs p = p\<lparr>sent := sent p @ bs\<rparr>"
proof (induction bs arbitrary: p)
  case Nil
  then show ?case by simp
next
  case (Cons b bs)
  then have "usb_write b p = (Wrote, p\<lparr>sent := sent p @ [b]\<rparr>)"
    by (simp add: usb_write_def)
  with Cons show ?case by simp
qed

lemma write_bytes_prefix: "\<exists>k\<le>length bs. sent (write_bytes bs p) = sent p @ take k bs"
proof (induction bs arbitrary: p)
  case Nil
  then show ?case by simp
next
  case (Cons b bs)
  obtain r p' where w: "usb_write b p = (r, p')" by fastforce
  show ?case
  proof (cases r)
    case Wrote
    with w have "sent p' = sent p @ [b]"
      by (auto simp: usb_write_def split: list.splits write_result.splits)
    moreover obtain k where "k \<le> length bs" "sent (write_bytes bs p') = sent p' @ take k bs"
      using Cons by blast
    ultimately have "sent (write_bytes (b # bs) p) = sent p @ take (Suc k) (b # bs)"
      using w Wrote by simp
    with \<open>k \<le> length bs\<close> show ?thesis by (metis Suc_le_mono length_Cons)
  qed (use w in \<open>auto simp: usb_write_def split: list.splits write_result.splits\<close>)
qed

lemma copy_payload_ok:
  assumes "idx < n" "n \<le> length pl" "n + HDR_LEN \<le> length tx"
  shows "copy_payload tx pl idx n =
           Some (take (idx + HDR_LEN) tx @ drop idx (take n pl) @ drop (n + HDR_LEN) tx)"
  using assms
proof (induction tx pl idx n rule: copy_payload.induct)
  case (1 tx pl idx n)
  let ?tx = "tx[idx + HDR_LEN := pl ! idx]"
  have set: "mem_set tx (idx + HDR_LEN) (pl ! idx) = Some ?tx"
    using "1.prems" by (simp add: mem_simps)
  have tk: "take (Suc idx + HDR_LEN) ?tx = take (idx + HDR_LEN) tx @ [pl ! idx]"
    using "1.prems" by (simp add: take_Suc_conv_app_nth)
  have dr: "drop idx (take n pl) = pl ! idx # drop (Suc idx) (take n pl)"
    using "1.prems" by (metis Cons_nth_drop_Suc length_take min.absorb2 nth_take)
  show ?case
  proof (cases "Suc idx = n")
    case True
    have "?tx = take (n + HDR_LEN) ?tx @ drop (n + HDR_LEN) ?tx" by simp
    also have "take (n + HDR_LEN) ?tx = take (idx + HDR_LEN) tx @ [pl ! idx]"
      using tk True by simp
    finally have "?tx = take (idx + HDR_LEN) tx @ [pl ! idx] @ drop (n + HDR_LEN) tx"
      using True by simp
    moreover have "drop idx (take n pl) = [pl ! idx]" using dr True by simp
    ultimately show ?thesis
      using "1.prems" set True by (simp add: copy_payload.simps [of tx pl idx n])
  next
    case False
    then have "copy_payload ?tx pl (Suc idx) n =
        Some (take (Suc idx + HDR_LEN) ?tx @ drop (Suc idx) (take n pl) @ drop (n + HDR_LEN) ?tx)"
      using "1.IH" "1.prems" set by simp
    with False show ?thesis
      using "1.prems" set tk dr by (simp add: copy_payload.simps [of tx pl idx n])
  qed
qed

lemma copy_payload_overrun:
  "n = 0 \<or> length pl < n \<Longrightarrow> copy_payload tx pl idx n = None"
proof (induction tx pl idx n rule: copy_payload.induct)
  case (1 tx pl idx n)
  then show ?case
    by (auto simp: copy_payload.simps [of tx pl idx n] split: option.splits)
qed

lemma header_bytes:
  "(replicate (255 + HDR_LEN) 0)[0 := x, 1 := y] = x # y # replicate 255 (0 :: u8)"
proof -
  have "255 + HDR_LEN = Suc (Suc 255)" by (simp add: HDR_LEN_def)
  then show ?thesis by (simp only: replicate_Suc list_update.simps One_nat_def nat.case)
qed

lemma take_HDR_LEN [simp]: "take HDR_LEN (x # y # zs) = [x, y]"
  by (simp add: HDR_LEN_def)

lemma sendCommand_None:
  "sendCommand c n None p = Some (write_bytes (frame c []) p)"
  by (simp only: sendCommand_def header_bytes Let_def option.case bind.bind_lunit add_0
      take_HDR_LEN of_nat_0) (simp add: frame_def)

lemma sendCommand_Some:
  "sendCommand c n (Some pl) p =
     (let k = n mod 256 in
      if 0 < k \<and> k \<le> length pl then Some (write_bytes (frame c (take k pl)) p) else None)"
proof (cases "0 < n mod 256 \<and> n mod 256 \<le> length pl")
  case True
  let ?k = "n mod 256"
  let ?tx = "cmd_code c # of_nat ?k # replicate 255 0"
  have "?k < 256" by simp
  then have "copy_payload ?tx pl 0 ?k =
      Some ([cmd_code c, of_nat ?k] @ take ?k pl @ drop (?k + HDR_LEN) ?tx)"
    using True copy_payload_ok [of 0 ?k pl ?tx] by (simp add: HDR_LEN_def)
  then show ?thesis
    using True unfolding sendCommand_def header_bytes option.case Let_def
    by (simp add: frame_def HDR_LEN_def min_absorb2)
next
  case False
  then have "copy_payload tx pl 0 (n mod 256) = None" for tx
    by (intro copy_payload_overrun) auto
  with False show ?thesis by (simp add: sendCommand_def Let_def)
qed

lemma sendCommand_fits:
  "0 < length pl \<Longrightarrow> length pl < 256 \<Longrightarrow> n = length pl \<Longrightarrow>
   sendCommand c n (Some pl) p = Some (write_bytes (frame c pl) p)"
  by (simp add: sendCommand_Some)

section \<open>Single messages on the wire\<close>

text \<open>The packet that goes over the air for a single message: itself a frame.\<close>

definition host_packet :: "bytes \<Rightarrow> bytes \<Rightarrow> bytes \<Rightarrow> bytes" where
  "host_packet a d payload = frame HOST_FORMED_PACKET (a @ d @ payload)"

lemma length_host_packet: "length (host_packet a d pl) = length a + length d + length pl + 2"
  by (simp add: host_packet_def)

lemma cmdSendMessage_payload:
  assumes "length a = 3" "length d = 3" "unat n \<le> length pl"
  shows "cmdSendMessage a d pl n p =
           sendCommand HOST_FORMED_PACKET (unat n + 8)
             (Some (host_packet a d (take (unat n) pl))) p"
  using assms
  by (simp add: cmdSendMessage_def code_values mem_simps host_packet_def frame_def add.commute)

lemma cmdSendMessage_wire:
  assumes "length a = 3" "length d = 3" "unat n \<le> length pl" "unat n < 248"
  shows "cmdSendMessage a d pl n p =
           Some (write_bytes (frame HOST_FORMED_PACKET (host_packet a d (take (unat n) pl))) p)"
  using assms by (simp add: cmdSendMessage_payload sendCommand_fits length_host_packet)

text \<open>
  A payload of 248 bytes or more does not fit in the one-byte length of the serial frame. With
  exactly 248 the frame length becomes 0 and the copy loop runs off its buffers; above, the frame
  is cut to the excess.
\<close>

lemma cmdSendMessage_oversized:
  assumes "length a = 3" "length d = 3" "unat n \<le> length pl" "248 \<le> unat n"
  shows "cmdSendMessage a d pl n p =
     (if unat n = 248 then None
      else Some (write_bytes (frame HOST_FORMED_PACKET
                   (take (unat n - 248) (host_packet a d (take (unat n) pl)))) p))"
proof -
  have wrap: "(m + 8) mod 256 = m - 248" if "248 \<le> m" "m < 256" for m :: nat
    using that by (simp add: mod_if)
  have "(unat n + 8) mod 256 = unat n - 248"
    by (rule wrap [OF assms(4) unat_u8_less])
  moreover have "length (host_packet a d (take (unat n) pl)) = unat n + 8"
    using assms by (simp add: length_host_packet)
  ultimately show ?thesis
    unfolding cmdSendMessage_payload [OF assms(1-3)] sendCommand_Some Let_def
    using assms(4) by auto
qed

lemmas host_tx_commands = cmdSendBroadcast_def cmdRequestDogeAddress_def cmdSendDogeAddress_def
  cmdRequestUTXOs_def cmdRequestBalance_def cmdRegisterDogeAddress_def cmdUpdateRegistrationPin_def

text \<open>\<open>tx_message a d pl\<close> is the effect of sending the message \<open>pl\<close>.\<close>

definition tx_message :: "bytes \<Rightarrow> bytes \<Rightarrow> bytes \<Rightarrow> port \<Rightarrow> port option" where
  "tx_message a d pl p = Some (write_bytes (frame HOST_FORMED_PACKET (host_packet a d pl)) p)"

lemma cmdSendMessage_tx:
  assumes "length a = 3" "length d = 3" "length pl < 248" "n = of_nat (length pl)"
  shows "cmdSendMessage a d pl n p = tx_message a d pl p"
proof -
  have "unat n = length pl"
    using assms(3,4) by (simp add: unat_of_nat)
  with assms show ?thesis by (simp add: cmdSendMessage_wire tx_message_def)
qed

lemma address_message_wire:
  assumes "length a = 3" "length d = 3" "35 \<le> length addr"
  shows "cmdSendDogeAddress a d addr p = tx_message a d (doge_code SEND_DOGE_ADDRESS # take 35 addr) p"
    and "cmdRequestUTXOs a d addr p = tx_message a d (doge_code REQUEST_UTXOS # take 35 addr) p"
    and "cmdRequestBalance a d addr p = tx_message a d (doge_code REQUEST_BALANCE # take 35 addr) p"
  using assms
  by (simp_all add: host_tx_commands code_values mem_simps cmdSendMessage_tx min_absorb2)

lemma cmdRegisterDogeAddress_wire:
  assumes "length a = 3" "length d = 3" "35 \<le> length addr" "length pin = 4"
  shows "cmdRegisterDogeAddress a d addr pin rm p =
     tx_message a d ([doge_code REGISTRATION,
        registration_code (if rm then REMOVE_REGISTRATION else ADD_REGISTRATION)]
        @ take 35 addr @ pin) p"
  using assms
  by (simp add: host_tx_commands code_values mem_simps cmdSendMessage_tx min_absorb2)

lemma cmdUpdateRegistrationPin_wire:
  assumes "length a = 3" "length d = 3" "35 \<le> length addr" "length old = 4" "length new = 4"
  shows "cmdUpdateRegistrationPin a d addr old new p =
     tx_message a d ([doge_code REGISTRATION, registration_code UPDATE_PIN]
        @ take 35 addr @ old @ new) p"
  using assms
  by (simp add: host_tx_commands code_values mem_simps cmdSendMessage_tx min_absorb2)

lemma cmdRequestDogeAddress_wire:
  assumes "length a = 3" "length d = 3"
  shows "cmdRequestDogeAddress a d p = tx_message a d [doge_code GET_DOGE_ADDRESS] p"
  using assms by (simp add: host_tx_commands cmdSendMessage_tx)

lemma cmdSendBroadcast_wire:
  assumes "length a = 3"
  shows "cmdSendBroadcast a p =
     tx_message a broadcastAddress [cmd_code BROADCAST_MESSAGE, broadcast_code NODE_ANNOUNCEMENT] p"
  using assms by (simp add: host_tx_commands code_values cmdSendMessage_tx)

section \<open>Multipart messages on the wire\<close>

text \<open>The serial frames of the parts numbered from \<open>i\<close>.\<close>

fun mp_frames :: "bytes \<Rightarrow> bytes \<Rightarrow> u8 \<Rightarrow> nat \<Rightarrow> nat \<Rightarrow> bytes list \<Rightarrow> bytes list" where
  "mp_frames a d m n i [] = []"
| "mp_frames a d m n i (x # xs) =
     frame MULTIPART_PACKET (multipart_packet a d m i n x) # mp_frames a d m n (Suc i) xs"

lemma multipart_packet_frame:
  "length a = 3 \<Longrightarrow> length d = 3 \<Longrightarrow>
   multipart_packet a d m i n x = frame MULTIPART_PACKET (a @ d @ [m, 0, of_nat i, of_nat n] @ x)"
  by (simp add: multipart_packet_def frame_def code_values)

lemma totalNumParts_chunks: "totalNumParts (length xs) = length (chunks MAX_PAYLOAD_LEN xs)"
proof (induction "MAX_PAYLOAD_LEN" xs rule: chunks.induct)
  case (1 xs)
  show ?case
  proof (cases "xs = []")
    case True
    then show ?thesis by (simp add: totalNumParts_def)
  next
    case False
    then have IH: "totalNumParts (length xs - 192) = length (chunks 192 (drop 192 xs))"
      using 1 by (simp add: code_values)
    have "totalNumParts (length xs) = Suc (totalNumParts (length xs - 192))"
      using False
      by (cases "length xs < 192")
        (auto simp: totalNumParts_def code_values le_div_geq le_mod_geq not_less)
    with IH False show ?thesis
      by (simp add: chunks.simps [of 192 xs] code_values)
  qed
qed

lemma multipart_loop_fold:
  assumes "length a = 3" "length d = 3"
    and "payloadInd + payloadLeft = length pl" "nparts + 1 = i + totalNumParts payloadLeft"
  shows "multipart_loop a d pl m nparts i payloadInd payloadLeft p =
     Some (fold write_bytes
       (mp_frames a d m nparts i (chunks MAX_PAYLOAD_LEN (drop payloadInd pl))) p)"
  using assms
proof (induction a d pl m nparts i payloadInd payloadLeft p rule: multipart_loop.induct)
  case (1 a d pl m nparts i ind left p)
  note loop = multipart_loop.simps [of a d pl m nparts i ind left p]
  have left: "length (drop ind pl) = left" using "1.prems"(3) by simp
  show ?case
  proof (cases "left = 0")
    case True
    then have "drop ind pl = []" "nparts + 1 = i"
      using left "1.prems"(4) by (simp_all add: totalNumParts_def)
    then show ?thesis by (simp add: loop)
  next
    case False
    define k where "k = (if left \<ge> MAX_PAYLOAD_LEN then MAX_PAYLOAD_LEN else left)"
    let ?x = "take k (drop ind pl)"
    have k: "0 < k" "k \<le> 192" "k \<le> left"
      using False by (simp_all add: k_def code_values)
    have ne: "drop ind pl \<noteq> []" using left False by force
    have x: "?x = take 192 (drop ind pl)"
      using left by (auto simp: k_def code_values)
    have dr: "drop 192 (drop ind pl) = drop (ind + k) pl"
      using left by (auto simp: k_def code_values add.commute)
    have parts: "chunks MAX_PAYLOAD_LEN (drop ind pl) = ?x # chunks MAX_PAYLOAD_LEN (drop (ind + k) pl)"
      using ne x dr by (simp add: chunks.simps [of 192 "drop ind pl"] code_values)
    have np: "totalNumParts left = Suc (totalNumParts (left - k))"
      using parts totalNumParts_chunks [of "drop ind pl"] totalNumParts_chunks [of "drop (ind + k) pl"]
        "1.prems"(3) left by (metis diff_diff_left length_Cons length_drop)
    have lt: "i < nparts + 1" using np "1.prems"(4) by simp
    let ?f = "multipart_packet a d m i nparts ?x"
    have len: "length ?x = k" using k left by simp
    have send: "sendCommand MULTIPART_PACKET (k + MULTIPART_HDR_LEN) (Some ?f) p =
        Some (write_bytes (frame MULTIPART_PACKET ?f) p)"
      using "1.prems" k len
      by (intro sendCommand_fits) (simp_all add: multipart_packet_def code_values)
    have reads: "mem_read a 0 ADDR_LEN = Some a" "mem_read d 0 ADDR_LEN = Some d"
      "mem_read pl ind k = Some ?x"
      using "1.prems" k by (simp_all add: mem_simps code_values)
    have rec: "multipart_loop a d pl m nparts (i + 1) (ind + k) (left - k)
        (write_bytes (frame MULTIPART_PACKET ?f) p) =
      Some (fold write_bytes (mp_frames a d m nparts (i + 1)
        (chunks MAX_PAYLOAD_LEN (drop (ind + k) pl))) (write_bytes (frame MULTIPART_PACKET ?f) p))"
      using "1.prems" k np
      by (intro "1.IH" [OF lt k_def reads send]) simp_all
    show ?thesis
      using lt reads send rec parts
      by (simp add: loop k_def [symmetric])
  qed
qed

lemma cmdSendMultipartMessage_wire:
  assumes "length a = 3" "length d = 3" "n = length pl"
  shows "cmdSendMultipartMessage a d pl n m p =
     (let parts = chunks MAX_PAYLOAD_LEN pl in
      Some (fold write_bytes (mp_frames a d m (length parts) 1 parts) p))"
  using assms multipart_loop_fold [of a d 0 n pl "totalNumParts n" 1 m p]
  by (simp add: cmdSendMultipartMessage_def totalNumParts_chunks Let_def)

end
