(* ===== verification/FrameReceiver.thy ===== *)
theory FrameReceiver
  imports Prelude "HOL-Library.Sublist"
begin

text \<open>
  The contract of a receiver of frames: it is handed the bytes of a stream in pieces, collects the
  pieces of an incomplete frame, and acts once, on the piece that completes it. The client's
  lemmas: the way a frame is cut into pieces does not matter, and a sequence of frames is handled
  frame by frame.
\<close>

fun run_steps :: "('c \<Rightarrow> 's \<Rightarrow> 's option) \<Rightarrow> 'c list \<Rightarrow> 's \<Rightarrow> 's option" where
  "run_steps step [] s = Some s"
| "run_steps step (c # cs) s = do { s' \<leftarrow> step c s; run_steps step cs s' }"

lemma run_steps_Nil [simp]: "run_steps step [] = Some"
  by (rule ext) simp

lemma run_steps_append:
  "run_steps step (as @ bs) s = do { s' \<leftarrow> run_steps step as s; run_steps step bs s' }"
  by (induction as arbitrary: s) (auto split: Option.bind_splits)

locale frame_receiver =
  fixes step :: "'c \<Rightarrow> 's \<Rightarrow> 's option"
    and data :: "'c \<Rightarrow> bytes"
    and fits :: "'c \<Rightarrow> bool"
    and idle :: "'s \<Rightarrow> bool"
    and holds :: "bytes \<Rightarrow> 's \<Rightarrow> 's \<Rightarrow> bool"
    and is_frame :: "bytes \<Rightarrow> bool"
    and deliver :: "'c \<Rightarrow> bytes \<Rightarrow> 's \<Rightarrow> 's option"
  assumes idle_holds: "idle s \<Longrightarrow> holds [] s s"
    and collect: "idle s \<Longrightarrow> holds bs s t \<Longrightarrow> fits c \<Longrightarrow> is_frame f \<Longrightarrow> strict_prefix (bs @ data c) f
        \<Longrightarrow> \<exists>t'. step c t = Some t' \<and> holds (bs @ data c) s t'"
    and complete: "idle s \<Longrightarrow> holds bs s t \<Longrightarrow> fits c \<Longrightarrow> is_frame (bs @ data c)
        \<Longrightarrow> step c t = deliver c (bs @ data c) s"
    and deliver_idle: "idle s \<Longrightarrow> is_frame f \<Longrightarrow> deliver c f s = Some s' \<Longrightarrow> idle s'"
begin

lemma collect_all:
  assumes "idle s" "holds bs s t" "list_all fits cs" "is_frame f"
    and "strict_prefix (bs @ concat (map data cs)) f"
  shows "\<exists>t'. run_steps step cs t = Some t' \<and> holds (bs @ concat (map data cs)) s t'"
  using assms(2-5)
proof (induction cs arbitrary: bs t)
  case Nil
  then show ?case by simp
next
  case (Cons c cs)
  have "prefix (bs @ data c) ((bs @ data c) @ concat (map data cs))" by simp
  then have "strict_prefix (bs @ data c) f"
    using Cons.prems(4) by (metis append.assoc concat.simps(2) list.simps(9) prefix_order.le_less_trans)
  then obtain t' where "step c t = Some t'" "holds (bs @ data c) s t'"
    using collect assms(1) Cons.prems by fastforce
  with Cons.IH [of "bs @ data c" t'] Cons.prems show ?case by simp
qed

text \<open>However a frame is cut into pieces, it is delivered once, when its last piece arrives.\<close>

lemma fragmented:
  assumes "idle s" "list_all fits (cs @ [c])" "is_frame (concat (map data (cs @ [c])))"
    and "data c \<noteq> []"
  shows "run_steps step (cs @ [c]) s = deliver c (concat (map data (cs @ [c]))) s"
proof -
  have "strict_prefix ([] @ concat (map data cs)) (concat (map data (cs @ [c])))"
    using assms(4) by (auto simp: strict_prefix_def)
  then obtain t where "run_steps step cs s = Some t" "holds (concat (map data cs)) s t"
    using collect_all [of s "[]" s cs] idle_holds assms by fastforce
  with complete [of s "concat (map data cs)" t c] assms show ?thesis
    by (simp add: run_steps_append)
qed

text \<open>One frame after another, none of the pieces shared by two frames.\<close>

fun deliveries :: "'c list list \<Rightarrow> 's \<Rightarrow> 's option" where
  "deliveries [] s = Some s"
| "deliveries (cs # css) s = do {
     s' \<leftarrow> deliver (last cs) (concat (map data cs)) s;
     deliveries css s'
   }"

lemma deliveries_Nil [simp]: "deliveries [] = Some"
  by (rule ext) simp

definition well_cut :: "'c list \<Rightarrow> bool" where
  "well_cut cs \<longleftrightarrow> cs \<noteq> [] \<and> list_all fits cs \<and> is_frame (concat (map data cs))
     \<and> data (last cs) \<noteq> []"

lemma frame_by_frame:
  assumes "idle s" "list_all well_cut css"
  shows "run_steps step (concat css) s = deliveries css s"
  using assms
proof (induction css arbitrary: s)
  case Nil
  then show ?case by simp
next
  case (Cons cs css)
  then have cut: "well_cut cs" by simp
  then have "run_steps step cs s = deliver (last cs) (concat (map data cs)) s"
    using fragmented [of s "butlast cs" "last cs"] Cons.prems(1)
    by (simp add: well_cut_def)
  moreover have "idle s'" if "deliver (last cs) (concat (map data cs)) s = Some s'" for s'
    using that cut Cons.prems(1) deliver_idle by (auto simp: well_cut_def)
  ultimately show ?case
    using Cons by (auto simp: run_steps_append split: Option.bind_splits)
qed

end

end
