(* ===== verification/RadioModule.thy ===== *)
theory RadioModule
  imports Firmware HostTx FrameReceiver
begin

text \<open>
  What the radio module does for its host. The invariant of the firmware (\<open>fw_ok\<close>: the sizes of its
  buffers, and a control packet that carries the local address), its preservation by every turn of
  the main loop, the replies to the host's commands, the packets it sends and forwards, and the
  contract \<open>packet_module\<close> the two hosts rely on, interpreted on the firmware.
\<close>

section \<open>The invariant\<close>

definition fw_ok :: "fw \<Rightarrow> bool" where
  "fw_ok f \<longleftrightarrow> length (rxPacket f) = 256 \<and> length (serialBuf f) = 256
     \<and> length (hostCommandReply f) = 256 \<and> rxSize f \<le> 255
     \<and> (\<exists>t n d. controlPacket f = t # n # addr_bytes (local_address f) @ addr_bytes d)"

lemma length_addr_bytes [simp]: "length (addr_bytes a) = 3"
  by (simp add: addr_bytes_def)

lemma addr_bytes_inj: "addr_bytes a = addr_bytes b \<longleftrightarrow> a = b"
  by (cases a; cases b) (auto simp: addr_bytes_def)

lemma fw_init_ok: "fw_ok fw_init"
proof -
  let ?z = "\<lparr>region = 0, community = 0, node = 0\<rparr>"
  have "controlPacket fw_init = 0 # 0 # addr_bytes (local_address fw_init) @ addr_bytes ?z"
    by (simp add: fw_init_def addr_bytes_def Let_def eval_nat_numeral)
  then show ?thesis
    unfolding fw_ok_def by (intro conjI exI) (simp_all add: fw_init_def Let_def)
qed

lemma address_at_Some: "i + 3 \<le> length buf \<Longrightarrow>
    address_at buf i = Some \<lparr>region = buf ! i, community = buf ! (i + 1), node = buf ! (i + 2)\<rparr>"
  by (simp add: address_at_def mem_get_def)

lemma drop_three: "i + 3 \<le> length buf \<Longrightarrow>
    take 3 (drop i buf) = [buf ! i, buf ! (i + 1), buf ! (i + 2)]"
  by (simp add: numeral_3_eq_3 take_Suc_conv_app_nth)

lemma address_at_bytes:
  "i + 3 \<le> length buf \<Longrightarrow> address_at buf i = Some a \<longleftrightarrow> addr_bytes a = take 3 (drop i buf)"
  by (cases a) (auto simp: address_at_Some drop_three addr_bytes_def)

lemma log_ok [simp]:
  "fw_ok (serial_write bs f) = fw_ok f" "fw_ok (radio_call c f) = fw_ok f"
  "fw_ok (show_screen d f) = fw_ok f"
  by (simp_all add: fw_ok_def serial_write_def radio_call_def show_screen_def)

lemma log_fields [simp]:
  "serialBuf (serial_write bs f) = serialBuf f" "serialBuf (radio_call c f) = serialBuf f"
  "serialBuf (show_screen d f) = serialBuf f"
  "rxPacket (serial_write bs f) = rxPacket f" "rxPacket (radio_call c f) = rxPacket f"
  "rxPacket (show_screen d f) = rxPacket f"
  "rxSize (serial_write bs f) = rxSize f" "rxSize (radio_call c f) = rxSize f"
  "rxSize (show_screen d f) = rxSize f"
  "local_address (serial_write bs f) = local_address f" "local_address (radio_call c f) = local_address f"
  "local_address (show_screen d f) = local_address f"
  "serial_in (serial_write bs f) = serial_in f" "serial_in (radio_call c f) = serial_in f"
  "serial_in (show_screen d f) = serial_in f"
  "serial_out (serial_write bs f) = serial_out f @ bs" "serial_out (radio_call c f) = serial_out f"
  "serial_out (show_screen d f) = serial_out f"
  "radio (serial_write bs f) = radio f" "radio (radio_call c f) = radio f @ [c]"
  "radio (show_screen d f) = radio f"
  "hostCommandReply (serial_write bs f) = hostCommandReply f"
  "hostCommandReply (radio_call c f) = hostCommandReply f"
  "hostCommandReply (show_screen d f) = hostCommandReply f"
  "screen (serial_write bs f) = screen f" "screen (radio_call c f) = screen f"
  "screen (show_screen d f) = screen f @ [d]"
  "dest (serial_write bs f) = dest f" "dest (radio_call c f) = dest f" "dest (show_screen d f) = dest f"
  "sender (serial_write bs f) = sender f" "sender (radio_call c f) = sender f"
  "sender (show_screen d f) = sender f"
  "needToSendACK (serial_write bs f) = needToSendACK f" "needToSendACK (radio_call c f) = needToSendACK f"
  "needToSendACK (show_screen d f) = needToSendACK f"
  by (simp_all add: serial_write_def radio_call_def show_screen_def)

lemma flags_ok [simp]:
  "fw_ok (f\<lparr>isLoRaIdle := b\<rparr>) = fw_ok f" "fw_ok (f\<lparr>needToSendACK := b\<rparr>) = fw_ok f"
  "fw_ok (f\<lparr>dest := a\<rparr>) = fw_ok f" "fw_ok (f\<lparr>sender := a\<rparr>) = fw_ok f"
  "fw_ok (f\<lparr>serial_in := bs\<rparr>) = fw_ok f"
  by (simp_all add: fw_ok_def)

lemma control_message_local:
  assumes "fw_ok f"
  obtains n where "control_message t d f = Some (f\<lparr>
    controlPacket := message_code t # n # addr_bytes (local_address f) @ addr_bytes d,
    isLoRaIdle := False\<rparr>)"
proof -
  obtain t0 n d0 where c: "controlPacket f = t0 # n # addr_bytes (local_address f) @ addr_bytes d0"
    using assms by (auto simp: fw_ok_def)
  then have "control_message t d f = Some (f\<lparr>
    controlPacket := message_code t # n # addr_bytes (local_address f) @ addr_bytes d,
    isLoRaIdle := False\<rparr>)"
    by (simp add: control_message_def mem_set_def mem_write_def addr_bytes_def)
  then show thesis by (rule that)
qed

text \<open>Both control messages: the packet on the air, and the reply to the host.\<close>

lemma send_control_message:
  assumes "fw_ok f"
  shows "\<exists>n. do { f' \<leftarrow> control_message t d f; send_control (show_screen c f') } =
    (let pkt = message_code t # n # addr_bytes (local_address f) @ addr_bytes d
     in Some (serial_write hostACK (radio_call (RadioSend pkt)
          (show_screen c (f\<lparr>controlPacket := pkt, isLoRaIdle := False\<rparr>)))))"
proof -
  obtain n where n: "control_message t d f = Some (f\<lparr>
    controlPacket := message_code t # n # addr_bytes (local_address f) @ addr_bytes d,
    isLoRaIdle := False\<rparr>)"
    using control_message_local [OF assms] by blast
  let ?p = "message_code t # n # addr_bytes (local_address f) @ addr_bytes d"
  have "mem_read ?p 0 CONTROL_SIZE = Some ?p" by (simp add: mem_read_def CONTROL_SIZE_def)
  with n show ?thesis
    by (intro exI [of _ n]) (simp add: send_control_def show_screen_def Let_def)
qed

lemma control_packet_ok:
  "fw_ok f \<Longrightarrow> fw_ok (f\<lparr>controlPacket := a # b # addr_bytes (local_address f) @ addr_bytes d\<rparr>)"
  by (auto simp: fw_ok_def)

lemma SendPing_ok: "fw_ok f \<Longrightarrow> SendPing d f = Some f' \<Longrightarrow> fw_ok f'"
  using send_control_message [of f PING d "DisplayTXMessage (map of_char ''Ping'') d"]
  by (auto simp: SendPing_def Let_def control_packet_ok)

lemma SendACK_ok: "fw_ok f \<Longrightarrow> SendACK d f = Some f' \<Longrightarrow> fw_ok f'"
  using send_control_message [of f ACK d "DisplayTXMessage (map of_char ''ACK'') d"]
  by (auto simp: SendACK_def Let_def control_packet_ok)

lemma SendPing_air:
  assumes "fw_ok f"
  shows "\<exists>f' n. SendPing d f = Some f'
    \<and> radio f' = radio f @ [RadioSend (message_code PING # n # addr_bytes (local_address f) @ addr_bytes d)]"
  using send_control_message [OF assms, of PING d "DisplayTXMessage (map of_char ''Ping'') d"]
  by (auto simp: SendPing_def Let_def)

lemma SendACK_air:
  assumes "fw_ok f"
  shows "\<exists>f' n. SendACK d f = Some f'
    \<and> radio f' = radio f @ [RadioSend (message_code ACK # n # addr_bytes (local_address f) @ addr_bytes d)]"
  using send_control_message [OF assms, of ACK d "DisplayTXMessage (map of_char ''ACK'') d"]
  by (auto simp: SendACK_def Let_def)

lemma serialBuf_ok: "fw_ok f \<Longrightarrow> length b = 256 \<Longrightarrow> fw_ok (f\<lparr>serialBuf := b\<rparr>)"
  by (simp add: fw_ok_def)

lemma reply_ok: "fw_ok f \<Longrightarrow> length b = 256 \<Longrightarrow> fw_ok (f\<lparr>hostCommandReply := b\<rparr>)"
  by (simp add: fw_ok_def)

lemma packet_ok: "fw_ok f \<Longrightarrow> length b = 256 \<Longrightarrow> n \<le> 255 \<Longrightarrow> fw_ok (f\<lparr>rxPacket := b, rxSize := n\<rparr>)"
  by (simp add: fw_ok_def)

lemmas ok_intros = serialBuf_ok reply_ok packet_ok

lemma set_address_ok: "fw_ok f \<Longrightarrow> InitControlMessages (f\<lparr>local_address := a\<rparr>) = Some f' \<Longrightarrow> fw_ok f'"
proof -
  assume a: "fw_ok f" "InitControlMessages (f\<lparr>local_address := a\<rparr>) = Some f'"
  then obtain t n d where "controlPacket f = t # n # addr_bytes (local_address f) @ addr_bytes d"
    by (auto simp: fw_ok_def)
  with a(2) have "f' = f\<lparr>local_address := a, controlPacket := 0 # 6 # addr_bytes a @ addr_bytes d\<rparr>"
    by (simp add: InitControlMessages_def mem_write_def addr_bytes_def)
  with a(1) show ?thesis by (auto simp: fw_ok_def)
qed

lemma ProcessDisplayControl_ok: "fw_ok f \<Longrightarrow> ProcessDisplayControl n f = Some f' \<Longrightarrow> fw_ok f'"
  by (auto simp: ProcessDisplayControl_def ProcessCoinDisplay_def bind_eq_Some_conv split: if_splits)

lemma perform_command_ok: "fw_ok f \<Longrightarrow> perform_command c n f = Some f' \<Longrightarrow> fw_ok f'"
proof -
  assume ok: "fw_ok f" and run: "perform_command c n f = Some f'"
  have len: "length (hostCommandReply f) = 256" "length (serialBuf f) = 256"
    using ok by (simp_all add: fw_ok_def)
  show "fw_ok f'"
    using run ok len unfolding perform_command_def
    by (auto simp: bind_eq_Some_conv GetLocalAddress_def SetLocalAddressFromSerialBuffer_def
        SetDestinationFromSerialBuffer_def send_packet_def SendMessage_def SendHardwareInfoToHost_def
        Let_def mem_set_def intro!: ok_intros
        dest: set_address_ok SendPing_ok [rotated] ProcessDisplayControl_ok mem_write_length
        split: if_splits)
qed

lemma ReadSerialHeader_ok: "ReadSerialHeader f = (r, f') \<Longrightarrow> fw_ok f \<Longrightarrow> fw_ok f'"
  by (auto simp: ReadSerialHeader_def Let_def split: prod.splits list.splits)

lemma ReadSerialPayload_ok: "ReadSerialPayload n f = Some (b, f') \<Longrightarrow> fw_ok f \<Longrightarrow> fw_ok f'"
  by (auto simp: ReadSerialPayload_def bind_eq_Some_conv fw_ok_def split: prod.splits
      dest!: mem_write_length)

lemma HostSerialRead_ok:
  assumes "fw_ok f" "HostSerialRead f = Some f'"
  shows "fw_ok f'"
proof -
  obtain r g where h: "ReadSerialHeader f = (r, g)" by fastforce
  then have g: "fw_ok g" using assms(1) by (rule ReadSerialHeader_ok)
  show ?thesis
  proof (cases r)
    case None
    with h g assms(2) show ?thesis by (simp add: HostSerialRead_def)
  next
    case (Some p)
    obtain c n where p: "p = (c, n)" by fastforce
    have "length (hostCommandReply g) = 256" using g by (simp add: fw_ok_def)
    then have "fw_ok (show_screen (DisplayCommandAndControl c)
        (g\<lparr>hostCommandReply := (hostCommandReply g)[0 := c]\<rparr>))"
      using g by (simp add: reply_ok)
    with assms(2) h Some p show ?thesis
      by (auto simp: HostSerialRead_def bind_eq_Some_conv mem_set_def
          dest!: ReadSerialPayload_ok intro: perform_command_ok split: if_splits)
  qed
qed

lemma SetSenderAddress_ok: "SetSenderAddress f = Some f' \<Longrightarrow> fw_ok f' = fw_ok f"
  by (auto simp: SetSenderAddress_def bind_eq_Some_conv)

lemma forward_packet_ok: "forward_packet t f = Some f' \<Longrightarrow> fw_ok f' = fw_ok f"
  by (auto simp: forward_packet_def bind_eq_Some_conv dest: SetSenderAddress_ok)

lemma received_ok:
  "ReceivedACK f = Some f' \<Longrightarrow> fw_ok f' = fw_ok f"
  "ReceivedPing f = Some f' \<Longrightarrow> fw_ok f' = fw_ok f"
  by (auto simp: ReceivedACK_def ReceivedPing_def bind_eq_Some_conv dest: SetSenderAddress_ok)

lemma ParseReceivedMessage_ok: "ParseReceivedMessage f = Some f' \<Longrightarrow> fw_ok f' = fw_ok f"
  unfolding ParseReceivedMessage_def
  by (elim bind_eq_Some_conv [THEN iffD1, elim_format] exE conjE)
    (auto simp: bind_eq_Some_conv simp del: cmd_code.simps message_code.simps
      dest!: forward_packet_ok received_ok SetSenderAddress_ok split: if_splits)

lemma OnRxDone_ok:
  assumes "OnRxDone p f = Some f'" "fw_ok f"
  shows "fw_ok f'"
proof -
  have len: "length (rxPacket f) = 256" using assms(2) by (simp add: fw_ok_def)
  obtain r r' g where r: "mem_write (rxPacket f) 0 p = Some r" "mem_set r (length p) 0 = Some r'"
    and g: "ParseReceivedMessage (radio_call RadioSleep (f\<lparr>rxPacket := r', rxSize := length p\<rparr>)) = Some g"
    and f': "f' = g\<lparr>isLoRaIdle := True\<rparr>"
    using assms(1) by (auto simp: OnRxDone_def bind_eq_Some_conv)
  have "length r' = 256" "length p \<le> 255"
    using r len mem_write_length [OF r(1)] by (auto simp: mem_set_def split: if_splits)
  then show ?thesis
    using ParseReceivedMessage_ok [OF g] packet_ok [OF assms(2)] f' by simp
qed

lemma IrqProcess_ok: "IrqProcess qs f = Some f' \<Longrightarrow> fw_ok f \<Longrightarrow> fw_ok f'"
  by (induction qs f rule: IrqProcess.induct)
    (auto simp: bind_eq_Some_conv OnTxDone_def OnTxTimeout_def OnRxTimeout_def dest: OnRxDone_ok)

lemma CommandAndControlLoop_ok:
  assumes "CommandAndControlLoop qs f = Some f'" "fw_ok f"
  shows "fw_ok f'"
proof -
  obtain g where g: "(if needToSendACK f
          then SendACK (dest f) (f\<lparr>isLoRaIdle := False, needToSendACK := False\<rparr>) else Some f) = Some g"
    and rest: "(let f = (if isLoRaIdle g then radio_call RadioRx (g\<lparr>isLoRaIdle := False\<rparr>) else g);
                  f = arrived f
                in (if serial_in f \<noteq> [] then HostSerialRead f else Some f) \<bind> IrqProcess qs) = Some f'"
    using assms(1) by (auto simp: CommandAndControlLoop_def bind_eq_Some_conv Let_def)
  have "fw_ok g" using g assms(2) by (auto dest: SendACK_ok [rotated] split: if_splits)
  then have "fw_ok (arrived (if isLoRaIdle g then radio_call RadioRx (g\<lparr>isLoRaIdle := False\<rparr>) else g))"
    by (simp add: arrived_def)
  with rest show ?thesis
    by (auto simp: Let_def bind_eq_Some_conv intro: IrqProcess_ok HostSerialRead_ok split: if_splits)
qed

section \<open>Reachable states\<close>

text \<open>Between two turns of the loop the host may send more; a turn serves any interrupts.\<close>

inductive fw_reach :: "fw \<Rightarrow> bool" where
  start: "fw_reach fw_init"
| turn: "fw_reach f \<Longrightarrow> CommandAndControlLoop qs (f\<lparr>serial_in := serial_in f @ bursts\<rparr>) = Some f'
    \<Longrightarrow> fw_reach f'"

lemma fw_reach_ok: "fw_reach f \<Longrightarrow> fw_ok f"
  by (induction rule: fw_reach.induct) (auto simp: fw_init_ok dest: CommandAndControlLoop_ok)

text \<open>C35: The module keeps its state well-formed. Whatever its hosts and other modules send, in every state the
  main loop reaches the three buffers have their 256 bytes, a received packet fits them, and \<open>controlPacket\<close> carries its
  own address as the sender; so do the two packets the module forms itself, the ping and the ACK, whatever their
  destination. (Packets that its host formed are sent as they are, with the sender the host wrote.) A turn of the loop
  from such a state that returns gives such a state.\<close>

theorem module_well_formed:
  assumes "fw_reach f"
  shows "length (rxPacket f) = 256 \<and> length (serialBuf f) = 256 \<and> length (hostCommandReply f) = 256
    \<and> rxSize f < 256 \<and> length (controlPacket f) = 8
    \<and> take 3 (drop 2 (controlPacket f)) = addr_bytes (local_address f)
    \<and> (\<forall>qs bursts f'. CommandAndControlLoop qs (f\<lparr>serial_in := serial_in f @ bursts\<rparr>) = Some f'
        \<longrightarrow> fw_reach f' \<and> take 3 (drop 2 (controlPacket f')) = addr_bytes (local_address f'))
    \<and> (\<forall>d. (\<exists>f' n. SendPing d f = Some f'
           \<and> radio f' = radio f @ [RadioSend (message_code PING # n # addr_bytes (local_address f) @ addr_bytes d)])
        \<and> (\<exists>f' n. SendACK d f = Some f'
           \<and> radio f' = radio f @ [RadioSend (message_code ACK # n # addr_bytes (local_address f) @ addr_bytes d)]))"
proof -
  have h: "length (controlPacket g) = 8 \<and> take 3 (drop 2 (controlPacket g)) = addr_bytes (local_address g)" if "fw_ok g" for g
    using that by (auto simp: fw_ok_def)
  show ?thesis
    using fw_reach_ok [OF assms] h fw_reach_ok [OF fw_reach.turn [OF assms]] fw_reach.turn [OF assms]
      SendPing_air [OF fw_reach_ok [OF assms]] SendACK_air [OF fw_reach_ok [OF assms]]
    by (auto simp: fw_ok_def)
qed

lemma module_well_formed_witness:
  "length (rxPacket fw_init) = 256 \<and> rxSize fw_init < 256
    \<and> (\<exists>f' n. SendACK (local_address fw_init) fw_init = Some f'
       \<and> radio f' = radio fw_init @ [RadioSend (message_code ACK # n # addr_bytes (local_address fw_init) @ addr_bytes (local_address fw_init))])"
  using module_well_formed [OF fw_reach.start] by blast

section \<open>Commands of the host\<close>

text \<open>The state in which a command with payload \<open>pl\<close> is carried out.\<close>

definition command_state :: "u8 \<Rightarrow> bytes \<Rightarrow> bytes list \<Rightarrow> fw \<Rightarrow> fw" where
  "command_state c pl rest f = (show_screen (DisplayCommandAndControl c)
     (f\<lparr>hostCommandReply := (hostCommandReply f)[0 := c]\<rparr>))
     \<lparr>serial_in := rest, serialBuf := pl @ drop (length pl) (serialBuf f)\<rparr>"

lemma command_state_fields [simp]:
  "serial_in (command_state c pl rest f) = rest"
  "serialBuf (command_state c pl rest f) = pl @ drop (length pl) (serialBuf f)"
  "serial_out (command_state c pl rest f) = serial_out f"
  "radio (command_state c pl rest f) = radio f"
  "local_address (command_state c pl rest f) = local_address f"
  "hostCommandReply (command_state c pl rest f) = (hostCommandReply f)[0 := c]"
  by (simp_all add: command_state_def)

lemma command_state_ok: "fw_ok f \<Longrightarrow> length pl < 256 \<Longrightarrow> fw_ok (command_state c pl rest f)"
  unfolding command_state_def by (intro serialBuf_ok) (auto simp: fw_ok_def show_screen_def)

lemma HostSerialRead_frame:
  assumes "fw_ok f" "length pl < 256" "serial_in f = (c # of_nat (length pl) # pl @ left) # rest"
  shows "HostSerialRead f = perform_command c (length pl) (command_state c pl (left # rest) f)"
proof -
  have n: "unat (of_nat (length pl) :: u8) = length pl" using assms(2) by (simp add: unat_of_nat)
  have h: "ReadSerialHeader f = (Some (c, of_nat (length pl)), f\<lparr>serial_in := (pl @ left) # rest\<rparr>)"
    using assms(3) by (simp add: ReadSerialHeader_def SERIAL_HEADER_SIZE_def)
  have w: "mem_write (serialBuf f) 0 pl = Some (pl @ drop (length pl) (serialBuf f))"
    using assms(1,2) by (simp add: mem_write_def fw_ok_def)
  have s: "mem_set (hostCommandReply f) 0 c = Some ((hostCommandReply f)[0 := c])"
    using assms(1) by (intro mem_set_Some) (simp add: fw_ok_def)
  show ?thesis
    using h w s n
    by (simp add: HostSerialRead_def ReadSerialPayload_def command_state_def show_screen_def)
qed

lemma HostSerialRead_short:
  assumes "fw_ok f" "length pl < n" "n < 256" "serial_in f = (c # of_nat n # pl) # rest"
  shows "\<exists>f'. HostSerialRead f = Some f' \<and> serial_out f' = serial_out f @ hostNACK \<and> radio f' = radio f
     \<and> serial_in f' = rest \<and> fw_ok f'"
proof -
  have n: "unat (of_nat n :: u8) = n" using assms(3) by (simp add: unat_of_nat)
  have h: "ReadSerialHeader f = (Some (c, of_nat n), f\<lparr>serial_in := pl # rest\<rparr>)"
    using assms(4) by (simp add: ReadSerialHeader_def SERIAL_HEADER_SIZE_def)
  have w: "mem_write (serialBuf f) 0 pl = Some (pl @ drop (length pl) (serialBuf f))"
    using assms(1-3) by (simp add: mem_write_def fw_ok_def)
  have s: "mem_set (hostCommandReply f) 0 c = Some ((hostCommandReply f)[0 := c])"
    using assms(1) by (intro mem_set_Some) (simp add: fw_ok_def)
  let ?f = "(show_screen (DisplayCommandAndControl c) (f\<lparr>serial_in := pl # rest,
        hostCommandReply := (hostCommandReply f)[0 := c]\<rparr>))
        \<lparr>serial_in := rest, serialBuf := pl @ drop (length pl) (serialBuf f)\<rparr>"
  have run: "HostSerialRead f = Some (serial_write hostNACK ?f)"
    using h w s n assms(2)
    by (simp add: HostSerialRead_def ReadSerialPayload_def)
  then show ?thesis using HostSerialRead_ok [OF assms(1) run] by simp
qed

lemma HostSerialRead_packet:
  assumes "fw_ok f" "length pkt < 256" "c \<in> {cmd_code HOST_FORMED_PACKET, cmd_code MULTIPART_PACKET}"
    and "serial_in f = (c # of_nat (length pkt) # pkt @ left) # rest"
  shows "\<exists>f'. HostSerialRead f = Some f' \<and> serial_out f' = serial_out f @ hostACK
    \<and> radio f' = radio f @ [RadioSend pkt] \<and> serial_in f' = left # rest
    \<and> local_address f' = local_address f \<and> fw_ok f'"
proof -
  let ?g = "command_state c pkt (left # rest) f"
  have len: "length (serialBuf ?g) = 256" using assms(1,2) by (simp add: fw_ok_def)
  have rd: "mem_read (serialBuf ?g) 0 (length pkt) = Some pkt"
    using assms(2) len by (simp add: mem_read_def)
  have sp: "send_packet t (length pkt) ?g = Some (serial_write hostACK (radio_call (RadioSend pkt)
      (show_screen (DisplayTXMessage t a) (?g\<lparr>dest := a\<rparr>))))"
    if "address_at (serialBuf ?g) 5 = Some a" for t a
    using that rd by (simp add: send_packet_def SetDestinationFromSerialBuffer_def)
  obtain a where a: "address_at (serialBuf ?g) 5 = Some a"
    using len address_at_Some [of 5 "serialBuf ?g"] by fastforce
  obtain i n where "mem_get (serialBuf ?g) 10 = Some i" "mem_get (serialBuf ?g) 11 = Some n"
    using len by (simp add: mem_get_def del: command_state_fields)
  then obtain t where "perform_command c (length pkt) ?g = send_packet t (length pkt) ?g"
    using assms(3) by (auto simp: perform_command_def)
  then have run: "HostSerialRead f = Some (serial_write hostACK (radio_call (RadioSend pkt)
      (show_screen (DisplayTXMessage t a) (?g\<lparr>dest := a\<rparr>))))"
    using sp [OF a] HostSerialRead_frame [OF assms(1,2,4)] by simp
  then show ?thesis
    using HostSerialRead_ok [OF assms(1) run] by simp
qed

section \<open>Packets of the air\<close>

lemma OnRxDone_packet:
  assumes "fw_ok f" "8 \<le> length pkt" "length pkt \<le> 255"
  shows "\<exists>g. OnRxDone pkt f = map_option (\<lambda>f. f\<lparr>isLoRaIdle := True\<rparr>) (ParseReceivedMessage g)
    \<and> fw_ok g \<and> rxSize g = length pkt \<and> take (length pkt) (rxPacket g) = pkt
    \<and> local_address g = local_address f \<and> serial_out g = serial_out f \<and> serial_in g = serial_in f
    \<and> radio g = radio f @ [RadioSleep] \<and> screen g = screen f \<and> needToSendACK g = needToSendACK f
    \<and> controlPacket g = controlPacket f"
proof -
  let ?r = "(pkt @ drop (length pkt) (rxPacket f))[length pkt := 0]"
  let ?g = "radio_call RadioSleep (f\<lparr>rxPacket := ?r, rxSize := length pkt\<rparr>)"
  have len: "length (rxPacket f) = 256" using assms(1) by (simp add: fw_ok_def)
  then have "OnRxDone pkt f = do { f \<leftarrow> ParseReceivedMessage ?g; Some (f\<lparr>isLoRaIdle := True\<rparr>) }"
    using assms(3) by (simp add: OnRxDone_def mem_write_def mem_set_def)
  then show ?thesis
    using assms len
    by (intro exI [of _ ?g])
      (auto simp: packet_ok radio_call_def [of _ f] split: Option.bind_splits,
        simp_all add: radio_call_def)
qed

lemma take_drop_prefix:
  "take n xs = ys \<Longrightarrow> i + k \<le> n \<Longrightarrow> take k (drop i ys) = take k (drop i xs)"
  by (auto simp: drop_take min_absorb1)

lemma packet_address:
  assumes "fw_ok g" "take (length pkt) (rxPacket g) = pkt" "i + 3 \<le> length pkt" "length pkt \<le> 255"
  shows "address_at (rxPacket g) i = Some a \<longleftrightarrow> addr_bytes a = take 3 (drop i pkt)"
proof -
  have "length (rxPacket g) = 256" using assms(1) by (simp add: fw_ok_def)
  moreover have "take 3 (drop i pkt) = take 3 (drop i (rxPacket g))"
    by (rule take_drop_prefix [OF assms(2,3)])
  ultimately show ?thesis using assms(3,4) by (simp add: address_at_bytes)
qed

lemma forward_Some:
  assumes "fw_ok g" "rxSize g = length pkt" "take (length pkt) (rxPacket g) = pkt" "8 \<le> length pkt"
    and "addr_bytes a = take 3 (drop 2 pkt)"
  shows "forward_packet t g = Some (serial_write pkt (show_screen (DisplayRXMessage t a) (g\<lparr>sender := a\<rparr>)))"
proof -
  have n: "length pkt \<le> 255" using assms(1,2) by (simp add: fw_ok_def)
  have "length (rxPacket g) = 256" using assms(1) by (simp add: fw_ok_def)
  then have "mem_read (rxPacket g) 0 (rxSize g) = Some pkt"
    using assms(2,3) n by (simp add: mem_read_def)
  moreover have "address_at (rxPacket g) 2 = Some a"
    using packet_address [OF assms(1,3), of 2 a] assms(4,5) n by simp
  ultimately show ?thesis
    by (simp add: forward_packet_def SetSenderAddress_def SENDER_ADDRESS_OFFSET_def)
qed

lemma address_exists: "length bs = 3 \<Longrightarrow> \<exists>a. addr_bytes a = bs"
proof -
  assume "length bs = 3"
  then obtain x y z where "bs = [x, y, z]" by (auto simp: length_Suc_conv numeral_3_eq_3)
  then have "addr_bytes \<lparr>region = x, community = y, node = z\<rparr> = bs" by (simp add: addr_bytes_def)
  then show ?thesis by blast
qed

lemma OnRxDone_foreign:
  assumes "fw_ok f" "8 \<le> length pkt" "length pkt \<le> 255" "take 3 (drop 5 pkt) \<noteq> addr_bytes (local_address f)"
  shows "\<exists>f'. OnRxDone pkt f = Some f' \<and> fw_ok f' \<and> local_address f' = local_address f
    \<and> serial_in f' = serial_in f \<and> needToSendACK f' = needToSendACK f \<and> isLoRaIdle f'
    \<and> radio f' = radio f @ [RadioSleep]
    \<and> serial_out f' = serial_out f @ (if take 3 (drop 5 pkt) = [255, 255, 255] then pkt else [])"
proof -
  obtain g where g: "OnRxDone pkt f = map_option (\<lambda>f. f\<lparr>isLoRaIdle := True\<rparr>) (ParseReceivedMessage g)"
    "fw_ok g" "rxSize g = length pkt" "take (length pkt) (rxPacket g) = pkt"
    "local_address g = local_address f" "serial_out g = serial_out f" "serial_in g = serial_in f"
    "radio g = radio f @ [RadioSleep]" "needToSendACK g = needToSendACK f"
    using OnRxDone_packet [OF assms(1-3)] by blast
  obtain d where d: "addr_bytes d = take 3 (drop 5 pkt)"
    using address_exists [of "take 3 (drop 5 pkt)"] assms(2) by auto
  obtain a where a: "addr_bytes a = take 3 (drop 2 pkt)"
    using address_exists [of "take 3 (drop 2 pkt)"] assms(2) by auto
  have ad: "address_at (rxPacket g) 5 = Some d"
    using packet_address [OF g(2,4), of 5 d] d assms(2,3) by simp
  have as: "address_at (rxPacket g) 2 = Some a"
    using packet_address [OF g(2,4), of 2 a] a assms(2,3) by simp
  have "length (rxPacket g) = 256" using g(2) by (simp add: fw_ok_def)
  then have rd: "mem_read (rxPacket g) 0 (rxSize g) = Some pkt"
    using g(3,4) assms(3) by (simp add: mem_read_def)
  have nl: "d \<noteq> local_address f" using assms(4) d by auto
  note parse = ParseReceivedMessage_def CheckIfPacketForMe_def CheckIfPacketIsGlobalBroadcast_def
  show ?thesis
  proof (cases "addr_bytes d = [255, 255, 255]")
    case True
    then have "ParseReceivedMessage g = Some (serial_write pkt
        (show_screen (DisplayBroadcastMessage a) (g\<lparr>sender := a\<rparr>)))"
      using ad as rd nl g(5) by (simp add: parse SetSenderAddress_def SENDER_ADDRESS_OFFSET_def)
    with g True d show ?thesis by simp
  next
    case False
    then have "ParseReceivedMessage g = Some g" using ad nl g(5) by (simp add: parse)
    with g False d show ?thesis by simp
  qed
qed

lemma OnRxDone_cases:
  assumes "fw_ok f" "8 \<le> length pkt" "length pkt \<le> 255"
    and "hd pkt \<in> {cmd_code HOST_FORMED_PACKET, cmd_code MULTIPART_PACKET}"
  shows "\<exists>f'. OnRxDone pkt f = Some f' \<and> fw_ok f' \<and> local_address f' = local_address f
    \<and> serial_in f' = serial_in f \<and> needToSendACK f' = needToSendACK f
    \<and> radio f' = radio f @ [RadioSleep]
    \<and> serial_out f' = serial_out f @
        (if take 3 (drop 5 pkt) = addr_bytes (local_address f) \<or> take 3 (drop 5 pkt) = [255, 255, 255]
         then pkt else [])"
proof -
  obtain g where g: "OnRxDone pkt f = map_option (\<lambda>f. f\<lparr>isLoRaIdle := True\<rparr>) (ParseReceivedMessage g)"
    "fw_ok g" "rxSize g = length pkt" "take (length pkt) (rxPacket g) = pkt"
    "local_address g = local_address f" "serial_out g = serial_out f" "serial_in g = serial_in f"
    "radio g = radio f @ [RadioSleep]" "needToSendACK g = needToSendACK f"
    using OnRxDone_packet [OF assms(1-3)] by blast
  have n: "length (rxPacket g) = 256" using g(2) by (simp add: fw_ok_def)
  obtain d where d: "addr_bytes d = take 3 (drop 5 pkt)"
    using address_exists [of "take 3 (drop 5 pkt)"] assms(2) by auto
  obtain a where a: "addr_bytes a = take 3 (drop 2 pkt)"
    using address_exists [of "take 3 (drop 2 pkt)"] assms(2) by auto
  have ad: "address_at (rxPacket g) 5 = Some d"
    using packet_address [OF g(2,4), of 5 d] d assms(2,3) by simp
  have hd: "mem_get (rxPacket g) 0 = Some (hd pkt)"
    using g(4) n assms(2) by (metis hd_conv_nth hd_take le_zero_eq length_0_conv length_greater_0_conv
        mem_get_Some not_numeral_le_zero zero_less_numeral)
  obtain i j where ij: "mem_get (rxPacket g) 10 = Some i" "mem_get (rxPacket g) 11 = Some j"
    using n by (simp add: mem_get_def)
  have nm: "hd pkt \<noteq> message_code ACK" "hd pkt \<noteq> message_code PING" "hd pkt \<noteq> message_code MESSAGE"
    using assms(4) by auto
  note parse = ParseReceivedMessage_def CheckIfPacketForMe_def CheckIfPacketIsGlobalBroadcast_def
  show ?thesis
  proof (cases "d = local_address f")
    case me: True
    have fwd: "forward_packet t g = Some (serial_write pkt (show_screen (DisplayRXMessage t a) (g\<lparr>sender := a\<rparr>)))"
      for t using forward_Some [OF g(2-4) assms(2) a] .
    have "\<exists>t. ParseReceivedMessage g = forward_packet t g"
      using me ad hd ij nm assms(4) g(5) by (auto simp: parse)
    with fwd obtain t where
      "ParseReceivedMessage g = Some (serial_write pkt (show_screen (DisplayRXMessage t a) (g\<lparr>sender := a\<rparr>)))"
      by auto
    with g me d show ?thesis by simp
  next
    case False
    then have "take 3 (drop 5 pkt) \<noteq> addr_bytes (local_address f)" using d by (metis addr_bytes_inj)
    with OnRxDone_foreign [OF assms(1-3) this] show ?thesis by auto
  qed
qed

section \<open>The contract of a radio module\<close>

text \<open>
  \<open>xmit\<close> is the module reading one command of its host, \<open>recv\<close> the arrival of a packet; \<open>air\<close> and
  \<open>reply\<close> are what it has put on the air and on its serial line so far.
\<close>

locale packet_module =
  fixes xmit :: "bytes \<Rightarrow> 'f \<Rightarrow> 'f option"
    and recv :: "bytes \<Rightarrow> 'f \<Rightarrow> 'f option"
    and ok :: "'f \<Rightarrow> bool"
    and address :: "'f \<Rightarrow> bytes"
    and air :: "'f \<Rightarrow> bytes list"
    and reply :: "'f \<Rightarrow> bytes"
  assumes xmit_packet:
    "ok f \<Longrightarrow> length pkt < 256 \<Longrightarrow> c \<in> {HOST_FORMED_PACKET, MULTIPART_PACKET} \<Longrightarrow>
     \<exists>f'. xmit (frame c pkt) f = Some f' \<and> ok f' \<and> address f' = address f
          \<and> air f' = air f @ [pkt] \<and> reply f' = reply f @ hostACK"
    and recv_packet:
    "ok f \<Longrightarrow> 8 \<le> length pkt \<Longrightarrow> length pkt < 256 \<Longrightarrow>
     hd pkt \<in> {cmd_code HOST_FORMED_PACKET, cmd_code MULTIPART_PACKET} \<Longrightarrow>
     \<exists>f'. recv pkt f = Some f' \<and> ok f' \<and> address f' = address f \<and> air f' = air f
          \<and> reply f' = reply f @ (if take 3 (drop 5 pkt) = address f
               \<or> take 3 (drop 5 pkt) = broadcastAddress then pkt else [])"
begin

definition packet :: "bytes \<Rightarrow> bool" where
  "packet pkt \<longleftrightarrow> 8 \<le> length pkt \<and> length pkt < 256
     \<and> hd pkt \<in> {cmd_code HOST_FORMED_PACKET, cmd_code MULTIPART_PACKET}"

lemma xmit_packets:
  assumes "ok f" "c \<in> {HOST_FORMED_PACKET, MULTIPART_PACKET}" "list_all packet pkts"
  shows "\<exists>f'. run_steps xmit (map (frame c) pkts) f = Some f' \<and> ok f' \<and> address f' = address f
    \<and> air f' = air f @ pkts \<and> reply f' = reply f @ concat (replicate (length pkts) hostACK)"
  using assms(1,3)
proof (induction pkts arbitrary: f)
  case Nil
  then show ?case by simp
next
  case (Cons p pkts)
  from xmit_packet [OF Cons.prems(1) _ assms(2), of p] Cons.prems(2)
  obtain g where g: "xmit (frame c p) f = Some g" "ok g" "address g = address f"
    "air g = air f @ [p]" "reply g = reply f @ hostACK" by (auto simp: packet_def)
  with Cons.IH [OF g(2)] Cons.prems(2) show ?case by auto
qed

lemma recv_packets:
  assumes "ok f" "list_all packet pkts" "\<forall>p\<in>set pkts. take 3 (drop 5 p) = address f"
  shows "\<exists>f'. run_steps recv pkts f = Some f' \<and> ok f' \<and> address f' = address f \<and> air f' = air f
    \<and> reply f' = reply f @ concat pkts"
  using assms
proof (induction pkts arbitrary: f)
  case Nil
  then show ?case by simp
next
  case (Cons p pkts)
  from recv_packet [OF Cons.prems(1), of p] Cons.prems(2,3)
  obtain g where g: "recv p f = Some g" "ok g" "address g = address f" "air g = air f"
    "reply g = reply f @ p" by (auto simp: packet_def)
  with Cons.IH [OF g(2)] Cons.prems(2,3) show ?case by auto
qed

text \<open>A packet for another node leaves the host of this one undisturbed.\<close>

lemma recv_foreign:
  assumes "ok f" "packet pkt" "take 3 (drop 5 pkt) \<notin> {address f, broadcastAddress}"
  shows "\<exists>f'. recv pkt f = Some f' \<and> ok f' \<and> reply f' = reply f \<and> air f' = air f"
  using recv_packet [OF assms(1), of pkt] assms(2,3) by (auto simp: packet_def)

end

text \<open>The firmware provides it.\<close>

definition host_sends :: "bytes \<Rightarrow> fw \<Rightarrow> fw option" where
  "host_sends bs f = HostSerialRead (f\<lparr>serial_in := [bs]\<rparr>)"

fun sent_packets :: "radio_call list \<Rightarrow> bytes list" where
  "sent_packets [] = []"
| "sent_packets (RadioSend p # cs) = p # sent_packets cs"
| "sent_packets (_ # cs) = sent_packets cs"

lemma sent_packets_append [simp]: "sent_packets (as @ bs) = sent_packets as @ sent_packets bs"
  by (induction as rule: sent_packets.induct) simp_all

interpretation module: packet_module host_sends OnRxDone fw_ok "\<lambda>f. addr_bytes (local_address f)"
  "\<lambda>f. sent_packets (radio f)" serial_out
proof unfold_locales
  fix f c and pkt :: bytes
  assume a: "fw_ok f" "length pkt < 256" "c \<in> {HOST_FORMED_PACKET, MULTIPART_PACKET}"
  have "cmd_code c \<in> {cmd_code HOST_FORMED_PACKET, cmd_code MULTIPART_PACKET}" using a(3) by auto
  then show "\<exists>f'. host_sends (frame c pkt) f = Some f' \<and> fw_ok f'
      \<and> addr_bytes (local_address f') = addr_bytes (local_address f)
      \<and> sent_packets (radio f') = sent_packets (radio f) @ [pkt]
      \<and> serial_out f' = serial_out f @ hostACK"
    using HostSerialRead_packet [of "f\<lparr>serial_in := [frame c pkt]\<rparr>" pkt "cmd_code c" "[]" "[]"] a(1,2)
    by (auto simp: host_sends_def frame_def)
next
  fix f and pkt :: bytes
  assume a: "fw_ok f" "8 \<le> length pkt" "length pkt < 256"
    "hd pkt \<in> {cmd_code HOST_FORMED_PACKET, cmd_code MULTIPART_PACKET}"
  show "\<exists>f'. OnRxDone pkt f = Some f' \<and> fw_ok f'
      \<and> addr_bytes (local_address f') = addr_bytes (local_address f)
      \<and> sent_packets (radio f') = sent_packets (radio f)
      \<and> serial_out f' = serial_out f @ (if take 3 (drop 5 pkt) = addr_bytes (local_address f)
           \<or> take 3 (drop 5 pkt) = broadcastAddress then pkt else [])"
    using OnRxDone_cases [OF a(1,2) _ a(4)] a(3)
    by (auto simp: broadcastAddress_def)
qed

section \<open>Pings\<close>

lemma OnRxDone_control:
  assumes "fw_ok f" "t \<in> {PING, ACK}"
    and "pkt = message_code t # n # addr_bytes a @ addr_bytes (local_address f)"
  shows "\<exists>f'. OnRxDone pkt f = Some f' \<and> fw_ok f' \<and> local_address f' = local_address f
    \<and> serial_in f' = serial_in f \<and> serial_out f' = serial_out f
    \<and> radio f' = radio f @ [RadioSleep]
    \<and> (if t = PING then dest f' = a \<and> needToSendACK f'
          \<and> screen f' = screen f @ [DisplayRXMessage (map of_char ''Ping!'') a]
        else needToSendACK f' = needToSendACK f
          \<and> screen f' = screen f @ [DisplayRXMessage (map of_char ''ACK'') a])"
proof -
  have len: "length pkt = 8" by (simp add: assms(3))
  obtain g where g: "OnRxDone pkt f = map_option (\<lambda>f. f\<lparr>isLoRaIdle := True\<rparr>) (ParseReceivedMessage g)"
    "fw_ok g" "rxSize g = length pkt" "take (length pkt) (rxPacket g) = pkt"
    "local_address g = local_address f" "serial_out g = serial_out f" "serial_in g = serial_in f"
    "radio g = radio f @ [RadioSleep]" "needToSendACK g = needToSendACK f" "screen g = screen f"
    using OnRxDone_packet [OF assms(1), of pkt] len by auto
  have n: "length (rxPacket g) = 256" using g(2) by (simp add: fw_ok_def)
  have "take 3 (drop 5 pkt) = addr_bytes (local_address f)" "take 3 (drop 2 pkt) = addr_bytes a"
    by (simp_all add: assms(3))
  then have ad: "address_at (rxPacket g) 5 = Some (local_address f)" "address_at (rxPacket g) 2 = Some a"
    using packet_address [OF g(2,4), of 5] packet_address [OF g(2,4), of 2] len by simp_all
  have "rxPacket g ! 0 = pkt ! 0" by (rule nth_prefix [OF g(4)]) (simp add: len)
  then have hd: "mem_get (rxPacket g) 0 = Some (message_code t)"
    using n assms(3) by (simp add: mem_get_def)
  show ?thesis
    using assms(2) g ad hd
    by (auto simp: ParseReceivedMessage_def CheckIfPacketForMe_def CheckIfPacketIsGlobalBroadcast_def
        ReceivedPing_def ReceivedACK_def SetSenderAddress_def SENDER_ADDRESS_OFFSET_def)
qed

lemma HostSerialRead_ping:
  assumes "fw_ok f" "serial_in f = [frame PING_REQUEST (addr_bytes d)]"
  shows "\<exists>f' n. HostSerialRead f = Some f' \<and> fw_ok f' \<and> local_address f' = local_address f
    \<and> radio f' = radio f @ [RadioSend (message_code PING # n # addr_bytes (local_address f) @ addr_bytes d)]
    \<and> serial_out f' = serial_out f @ hostACK"
proof -
  let ?g = "command_state (cmd_code PING_REQUEST) (addr_bytes d) [[]] f"
  have g: "fw_ok ?g" using assms(1) by (simp add: command_state_ok)
  have "length (serialBuf ?g) = 256" using g by (simp add: fw_ok_def)
  then have ad: "address_at (serialBuf ?g) 0 = Some d"
    by (subst address_at_bytes) (simp_all del: command_state_fields, simp)
  have "HostSerialRead f = perform_command (cmd_code PING_REQUEST) 3 ?g"
    using HostSerialRead_frame [of f "addr_bytes d" "cmd_code PING_REQUEST" "[]" "[]"] assms
    by (simp add: frame_def)
  also have "\<dots> = SendPing d (?g\<lparr>dest := d\<rparr>)"
    using ad by (simp add: perform_command_def SetDestinationFromSerialBuffer_def)
  finally have run: "HostSerialRead f = SendPing d (?g\<lparr>dest := d\<rparr>)" .
  have "fw_ok f'" if "HostSerialRead f = Some f'" for f'
    using HostSerialRead_ok [OF assms(1) that] .
  then show ?thesis
    using send_control_message [of "?g\<lparr>dest := d\<rparr>" PING d "DisplayTXMessage (map of_char ''Ping'') d"]
      g run
    by (auto simp: SendPing_def Let_def)
qed

lemma loop_sends_ack:
  assumes "fw_ok f" "needToSendACK f" "serial_in f = []"
  shows "\<exists>f' n. CommandAndControlLoop [] f = Some f' \<and> fw_ok f' \<and> local_address f' = local_address f
    \<and> radio f' = radio f @ [RadioSend (message_code ACK # n # addr_bytes (local_address f) @ addr_bytes (dest f))]
    \<and> \<not> needToSendACK f'"
proof -
  let ?f = "f\<lparr>isLoRaIdle := False, needToSendACK := False\<rparr>"
  obtain n where n: "SendACK (dest f) ?f =
    (let pkt = message_code ACK # n # addr_bytes (local_address f) @ addr_bytes (dest f)
     in Some (serial_write hostACK (radio_call (RadioSend pkt)
          (show_screen (DisplayTXMessage (map of_char ''ACK'') (dest f))
             (?f\<lparr>controlPacket := pkt, isLoRaIdle := False\<rparr>)))))"
    using send_control_message [of ?f ACK "dest f" "DisplayTXMessage (map of_char ''ACK'') (dest f)"]
      assms(1) by (auto simp: SendACK_def)
  let ?p = "message_code ACK # n # addr_bytes (local_address f) @ addr_bytes (dest f)"
  let ?h = "serial_write hostACK (radio_call (RadioSend ?p)
          (show_screen (DisplayTXMessage (map of_char ''ACK'') (dest f))
             (?f\<lparr>controlPacket := ?p, isLoRaIdle := False\<rparr>)))"
  have idle: "\<not> isLoRaIdle ?h" by (simp add: serial_write_def radio_call_def show_screen_def)
  have run: "CommandAndControlLoop [] f = Some (arrived ?h)"
    using assms(2,3) n idle by (simp add: CommandAndControlLoop_def Let_def arrived_def)
  then show ?thesis
    using CommandAndControlLoop_ok [OF run assms(1)]
    by (intro exI [of _ "arrived ?h"] exI [of _ n]) (simp add: arrived_def)
qed

text \<open>A ping is answered. When the host of one node asks for a ping to another node, the module puts one
  ping packet on the air that carries its own address and the destination's; the addressed module
  that receives it shows it, and its next turn of the loop puts an ACK on the air, back to the
  sender of the ping; the first module shows that ACK, with the other's address.
\<close>

theorem ping_exchange:
  assumes "fw_reach fa" "fw_reach fb" "serial_in fb = []"
  shows "\<exists>fa' fa'' fb' fb'' ping ack.
    HostSerialRead (fa\<lparr>serial_in := [frame PING_REQUEST (addr_bytes (local_address fb))]\<rparr>) = Some fa'
    \<and> radio fa' = radio fa @ [RadioSend ping] \<and> serial_out fa' = serial_out fa @ hostACK
    \<and> OnRxDone ping fb = Some fb'
    \<and> screen fb' = screen fb @ [DisplayRXMessage (map of_char ''Ping!'') (local_address fa)]
    \<and> CommandAndControlLoop [] fb' = Some fb''
    \<and> radio fb'' = radio fb' @ [RadioSend ack] \<and> \<not> needToSendACK fb''
    \<and> OnRxDone ack fa' = Some fa''
    \<and> screen fa'' = screen fa' @ [DisplayRXMessage (map of_char ''ACK'') (local_address fb)]"
proof -
  note ok = fw_reach_ok [OF assms(1)] fw_reach_ok [OF assms(2)]
  let ?fa = "fa\<lparr>serial_in := [frame PING_REQUEST (addr_bytes (local_address fb))]\<rparr>"
  obtain fa' n where a: "HostSerialRead ?fa = Some fa'" "fw_ok fa'" "local_address fa' = local_address fa"
    "radio fa' = radio fa @ [RadioSend (message_code PING # n # addr_bytes (local_address fa)
        @ addr_bytes (local_address fb))]" "serial_out fa' = serial_out fa @ hostACK"
    using HostSerialRead_ping [of ?fa "local_address fb"] ok(1) by auto
  let ?ping = "message_code PING # n # addr_bytes (local_address fa) @ addr_bytes (local_address fb)"
  obtain fb' where b: "OnRxDone ?ping fb = Some fb'" "fw_ok fb'" "local_address fb' = local_address fb"
    "serial_in fb' = []" "dest fb' = local_address fa" "needToSendACK fb'"
    "screen fb' = screen fb @ [DisplayRXMessage (map of_char ''Ping!'') (local_address fa)]"
    using OnRxDone_control [OF ok(2), of PING ?ping n "local_address fa"] assms(3) by auto
  obtain fb'' k where c: "CommandAndControlLoop [] fb' = Some fb''" "\<not> needToSendACK fb''"
    "radio fb'' = radio fb' @ [RadioSend (message_code ACK # k # addr_bytes (local_address fb)
        @ addr_bytes (local_address fa))]"
    using loop_sends_ack [OF b(2,6,4)] b(3,5) by auto
  let ?ack = "message_code ACK # k # addr_bytes (local_address fb) @ addr_bytes (local_address fa)"
  obtain fa'' where "OnRxDone ?ack fa' = Some fa''"
    "screen fa'' = screen fa' @ [DisplayRXMessage (map of_char ''ACK'') (local_address fb)]"
    using OnRxDone_control [OF a(2), of ACK ?ack k "local_address fb"] a(3) by auto
  with a b c show ?thesis by blast
qed

lemma ping_exchange_witness:
  "\<exists>fa' fa'' fb' fb'' ping ack.
    HostSerialRead (fw_init\<lparr>serial_in := [frame PING_REQUEST (addr_bytes (local_address fw_init))]\<rparr>) = Some fa'
    \<and> radio fa' = radio fw_init @ [RadioSend ping] \<and> serial_out fa' = serial_out fw_init @ hostACK
    \<and> OnRxDone ping fw_init = Some fb'
    \<and> screen fb' = screen fw_init @ [DisplayRXMessage (map of_char ''Ping!'') (local_address fw_init)]
    \<and> CommandAndControlLoop [] fb' = Some fb''
    \<and> radio fb'' = radio fb' @ [RadioSend ack] \<and> \<not> needToSendACK fb''
    \<and> OnRxDone ack fa' = Some fa''
    \<and> screen fa'' = screen fa' @ [DisplayRXMessage (map of_char ''ACK'') (local_address fw_init)]"
  by (rule ping_exchange) (simp_all add: fw_reach.start, simp add: fw_init_def Let_def)

lemma reply_simps [simp]: "length hostACK = 3" "length hostNACK = 3"
  by (simp_all add: hostACK_def hostNACK_def)

text \<open>The replies of the module, each of them a well-formed command.\<close>

definition module_reply :: "u8 \<Rightarrow> bytes \<Rightarrow> fw \<Rightarrow> bytes" where
  "module_reply c pl f =
     (if c = cmd_code NODE_ADDRESS_GET then frame NODE_ADDRESS_GET (addr_bytes (local_address f))
      else if c = cmd_code HARDWARE_INFO
        then frame HARDWARE_INFO [104, HELTEC_BOARD_VERSION, FIRMWARE_VERSION]
      else if c \<in> {cmd_code NODE_ADDRESS_SET, cmd_code PING_REQUEST, cmd_code HOST_FORMED_PACKET,
                   cmd_code MULTIPART_PACKET, cmd_code DISPLAY_CONTROL}
        then frame RESULT_CODE [result_code RESULT_ACK]
      else frame RESULT_CODE [result_code RESULT_NACK])"

lemma ack_frames: "hostACK = frame RESULT_CODE [result_code RESULT_ACK]"
  "hostNACK = frame RESULT_CODE [result_code RESULT_NACK]"
  by (simp_all add: hostACK_def hostNACK_def frame_def)

lemma GetLocalAddress_reply:
  assumes "fw_ok f" "hostCommandReply f ! 0 = cmd_code NODE_ADDRESS_GET"
  shows "\<exists>r. GetLocalAddress f = Some (serial_write (frame NODE_ADDRESS_GET (addr_bytes (local_address f)))
     (f\<lparr>hostCommandReply := r\<rparr>))"
proof -
  obtain x xs where x: "hostCommandReply f = x # xs" "length xs = 255"
    using assms(1) by (cases "hostCommandReply f") (auto simp: fw_ok_def)
  then show ?thesis
    using assms(2)
    by (simp add: GetLocalAddress_def mem_write_def mem_read_def frame_def addr_bytes_def)
      (rule exI, rule refl)
qed

lemma SetLocal_reply:
  assumes "fw_ok f"
  shows "\<exists>g. do { f \<leftarrow> SetLocalAddressFromSerialBuffer 0 f; InitControlMessages f } = Some g
     \<and> serial_out g = serial_out f \<and> serial_in g = serial_in f"
proof -
  have "length (serialBuf f) = 256" "length (controlPacket f) = 8"
    using assms by (auto simp: fw_ok_def)
  then show ?thesis
    by (auto simp: SetLocalAddressFromSerialBuffer_def address_at_Some InitControlMessages_def
        mem_write_def)
qed

lemma display_runs:
  assumes "fw_ok f" "n < 256" "2 \<le> n"
  shows "\<exists>g. ProcessDisplayControl n f = Some g \<and> serial_out g = serial_out f \<and> serial_in g = serial_in f"
proof -
  have l: "length (serialBuf f) = 256" using assms(1) by (simp add: fw_ok_def)
  have "c_string (x @ [0]) \<noteq> None" for x :: bytes by (simp add: c_string_None)
  then obtain t where "c_string (take (n - 2) (drop 2 (serialBuf f)) @ [0]) = Some t" by blast
  then show ?thesis
    using l assms(2,3)
    by (auto simp: ProcessDisplayControl_def ProcessCoinDisplay_def mem_get_def mem_read_def)
qed

lemma message_silent:
  assumes "perform_command (cmd_code MESSAGE_REQUEST) n f = Some f'"
  shows "serial_out f' = serial_out f \<and> serial_in f' = serial_in f"
  using assms
  by (auto simp: perform_command_def SetDestinationFromSerialBuffer_def SendMessage_def Let_def bind_eq_Some_conv)

lemma perform_reply:
  assumes "fw_ok f" "n < 256" "hostCommandReply f ! 0 = c"
    and "c \<noteq> cmd_code MESSAGE_REQUEST" "c = cmd_code DISPLAY_CONTROL \<longrightarrow> 2 \<le> n"
  shows "\<exists>f'. perform_command c n f = Some f' \<and> serial_in f' = serial_in f
      \<and> serial_out f' = serial_out f @ module_reply c pl f"
proof -
  have len: "length (serialBuf f) = 256" using assms(1) by (simp add: fw_ok_def)
  then obtain a0 a5 i j where a: "address_at (serialBuf f) 0 = Some a0" "address_at (serialBuf f) 5 = Some a5"
    "mem_get (serialBuf f) 10 = Some i" "mem_get (serialBuf f) 11 = Some j"
    "mem_read (serialBuf f) 0 n = Some (take n (serialBuf f))"
    using assms(2) by (simp add: address_at_Some mem_get_def mem_read_def)
  show ?thesis
  proof (cases "c \<in> {cmd_code NODE_ADDRESS_GET, cmd_code NODE_ADDRESS_SET, cmd_code PING_REQUEST, cmd_code DISPLAY_CONTROL}")
    case True
    then consider "c = cmd_code NODE_ADDRESS_GET" | "c = cmd_code NODE_ADDRESS_SET"
      | "c = cmd_code PING_REQUEST" | "c = cmd_code DISPLAY_CONTROL" by blast
    then show ?thesis
    proof cases
      case 1
      with GetLocalAddress_reply [OF assms(1)] assms(3) show ?thesis
        by (auto simp: perform_command_def module_reply_def)
    next
      case 2
      with SetLocal_reply [OF assms(1)] show ?thesis
        by (auto simp: perform_command_def module_reply_def ack_frames bind_eq_Some_conv
            simp del: bind_assoc)
    next
      case 3
      have ok: "fw_ok (f\<lparr>dest := a0\<rparr>)" using assms(1) by simp
      obtain m where "SendPing a0 (f\<lparr>dest := a0\<rparr>) = (let pkt = message_code PING # m
          # addr_bytes (local_address f) @ addr_bytes a0
        in Some (serial_write hostACK (radio_call (RadioSend pkt)
          (show_screen (DisplayTXMessage (map of_char ''Ping'') a0)
             (f\<lparr>dest := a0, controlPacket := pkt, isLoRaIdle := False\<rparr>)))))"
        using send_control_message [OF ok, of PING a0 "DisplayTXMessage (map of_char ''Ping'') a0"]
        by (auto simp: SendPing_def)
      with 3 a show ?thesis
        by (simp add: perform_command_def module_reply_def SetDestinationFromSerialBuffer_def
            Let_def ack_frames)
    next
      case 4
      with display_runs [OF assms(1,2)] assms(5) show ?thesis
        by (auto simp: perform_command_def module_reply_def ack_frames)
    qed
  next
    case False
    with assms(4) a show ?thesis
      by (auto simp: perform_command_def module_reply_def send_packet_def ack_frames
          SendHardwareInfoToHost_def SetDestinationFromSerialBuffer_def frame_def)
  qed
qed

text \<open>C33:
  The module stays in step with its host. Of any command with a complete header and payload but a message request, and
  a display request of less than two bytes, it takes exactly the bytes of that command from the serial line, whatever
  follows, and gives exactly one reply: its address, its hardware version, an ACK, or a NACK for a type it does not know.
  A message request, when it returns, takes its bytes as well but is not answered at all. A command whose payload is
  cut short by the read timeout is refused with a NACK and nothing is transmitted; one cut short in its header is
  dropped without a reply.
\<close>

theorem module_answers:
  assumes "fw_reach f" "length pl < 256"
  shows "(c \<noteq> cmd_code MESSAGE_REQUEST \<and> (c = cmd_code DISPLAY_CONTROL \<longrightarrow> 2 \<le> length pl) \<longrightarrow>
         (\<exists>f'. HostSerialRead (f\<lparr>serial_in := [c # of_nat (length pl) # pl @ left]\<rparr>) = Some f'
            \<and> serial_in f' = [left] \<and> serial_out f' = serial_out f @ module_reply c pl f))
    \<and> (c = cmd_code MESSAGE_REQUEST \<longrightarrow>
         (\<forall>f'. HostSerialRead (f\<lparr>serial_in := [c # of_nat (length pl) # pl @ left]\<rparr>) = Some f'
            \<longrightarrow> serial_in f' = [left] \<and> serial_out f' = serial_out f))
    \<and> (\<forall>n. length pl < n \<and> n < 256 \<longrightarrow>
         (\<exists>f'. HostSerialRead (f\<lparr>serial_in := [c # of_nat n # pl]\<rparr>) = Some f'
            \<and> serial_in f' = [] \<and> serial_out f' = serial_out f @ hostNACK \<and> radio f' = radio f))
    \<and> HostSerialRead (f\<lparr>serial_in := [[c]]\<rparr>) = Some (f\<lparr>serial_in := []\<rparr>)"
proof (intro conjI allI impI)
  note ok = fw_reach_ok [OF assms(1)]
  let ?f = "f\<lparr>serial_in := [c # of_nat (length pl) # pl @ left]\<rparr>"
  let ?g = "command_state c pl [left] ?f"
  have run: "HostSerialRead ?f = perform_command c (length pl) ?g"
    using HostSerialRead_frame [of ?f pl c left "[]"] ok assms(2) by simp
  have g: "fw_ok ?g" using ok assms(2) by (simp add: command_state_ok)
  have hd: "hostCommandReply ?g ! 0 = c" using ok by (auto simp: fw_ok_def nth_list_update)
  have r: "module_reply c pl ?g = module_reply c pl f" by (simp add: module_reply_def)
  { assume "c \<noteq> cmd_code MESSAGE_REQUEST \<and> (c = cmd_code DISPLAY_CONTROL \<longrightarrow> 2 \<le> length pl)"
    with perform_reply [OF g assms(2) hd, of pl] run r
    show "\<exists>f'. HostSerialRead ?f = Some f' \<and> serial_in f' = [left]
        \<and> serial_out f' = serial_out f @ module_reply c pl f"
      by auto }
  fix f' assume "c = cmd_code MESSAGE_REQUEST" "HostSerialRead ?f = Some f'"
  with message_silent [of "length pl" ?g f'] run show "serial_in f' = [left]" "serial_out f' = serial_out f" by simp_all
next
  fix n assume "length pl < n \<and> n < 256"
  then show "\<exists>f'. HostSerialRead (f\<lparr>serial_in := [c # of_nat n # pl]\<rparr>) = Some f'
      \<and> serial_in f' = [] \<and> serial_out f' = serial_out f @ hostNACK \<and> radio f' = radio f"
    using HostSerialRead_short [of "f\<lparr>serial_in := [c # of_nat n # pl]\<rparr>" pl n c "[]"]
      fw_reach_ok [OF assms(1)] by auto
next
  show "HostSerialRead (f\<lparr>serial_in := [[c]]\<rparr>) = Some (f\<lparr>serial_in := []\<rparr>)"
    by (simp add: HostSerialRead_def ReadSerialHeader_def SERIAL_HEADER_SIZE_def)
qed

lemma module_answers_witness:
  "(\<exists>f'. HostSerialRead (fw_init\<lparr>serial_in := [77 # of_nat (length [5]) # [5] @ [9]]\<rparr>) = Some f'
            \<and> serial_in f' = [[9]] \<and> serial_out f' = serial_out fw_init @ module_reply 77 [5] fw_init)
    \<and> (\<exists>f'. HostSerialRead (fw_init\<lparr>serial_in := [77 # of_nat 2 # [5]]\<rparr>) = Some f'
            \<and> serial_in f' = [] \<and> serial_out f' = serial_out fw_init @ hostNACK \<and> radio f' = radio fw_init)"
  using module_answers [of fw_init "[5]" 77 "[9]"] by (simp add: fw_reach.start del: of_nat_numeral)

end
