(* ===== verification/HostRx.thy ===== *)
theory HostRx
  imports HostTx Koinu
begin

text \<open>
  The receiving side of \<open>serdog/serdog.c\<close>: the state the program keeps in its globals (\<open>host\<close>), the
  state of \<open>serialPollThread\<close> (\<open>poll\<close>), one turn of the thread's loop (\<open>poll_step\<close>), and the
  handlers it calls. What the program prints is a list of events, one per report. Buffers have their
  C size, a write or read outside them gives \<open>None\<close>.
\<close>

section \<open>State\<close>

text \<open>\<open>struct utxoInfo\<close>: \<open>char* txId[64]\<close> is an array of 64 pointers, used as 512 bytes.\<close>

record utxoInfo =
  vout :: u32
  txId :: bytes
  amount :: u64

datatype host_event =
    EvPacket bytes bytes bytes        \<comment> \<open>sender, destination and data of a single packet\<close>
  | EvReassembled bytes bytes         \<comment> \<open>sender and data of a multipart message\<close>
  | EvAddressRequest
  | EvAddressSent bytes
  | EvAddress bytes
  | EvBalance u64
  | EvUTXOCount u32
  | EvUTXO nat bytes u32 bytes u64    \<comment> \<open>index, TXID, vout, text of the amount, amount\<close>
  | EvNoUTXOs
  | EvSuccess u8
  | EvFailure u8
  | EvTxFailed u8
  | EvTxid bytes
  | EvTxUnknown
  | EvBroadcast u8 bytes
  | EvUnknownDoge
  | EvNodeAddress u8 u8 u8
  | EvHardware u8 u8
  | EvUnknownHardware
  | EvUnexpectedPacket
  | EvAck
  | EvNack
  | EvUnknownPayload

record host =
  myaddr :: bytes
  rmaddr :: bytes
  loadedDogeAddress :: bytes
  loadedPrivateKey :: bytes
  generatedPrivateKey :: bytes
  destinationDogeAddress :: bytes
  userPin :: bytes
  currUTXOs :: "utxoInfo list"
  numUTXOs :: u32
  usb :: port
  out :: "host_event list"

text \<open>
  What a call takes from outside the program: the key pair libdogecoin generates (private key and
  address, as the contents of the buffers they are stored to), and what the stack holds where a
  local array is not initialised.
\<close>

record env =
  gen_keys :: "bytes \<times> bytes"
  stack_junk :: bytes

text \<open>The state of a program that has just started, and an environment to run examples in.\<close>

definition host_init :: host where
  "host_init = \<lparr>myaddr = myaddr0, rmaddr = rmaddr0, loadedDogeAddress = replicate 35 0,
     loadedPrivateKey = replicate 53 0, generatedPrivateKey = replicate 53 0,
     destinationDogeAddress = replicate 35 0, userPin = replicate 4 0,
     currUTXOs = replicate 64 \<lparr>vout = 0, txId = replicate 512 0, amount = 0\<rparr>, numUTXOs = 0,
     usb = \<lparr>wr_results = [], sent = []\<rparr>, out = []\<rparr>"

lemma host_init_fields [simp]:
  "out host_init = []" "numUTXOs host_init = 0" "myaddr host_init = myaddr0"
  "rmaddr host_init = rmaddr0" "usb host_init = \<lparr>wr_results = [], sent = []\<rparr>"
  by (simp_all add: host_init_def)

definition env_zero :: env where
  "env_zero = \<lparr>gen_keys = (replicate 53 0, replicate 35 0), stack_junk = replicate 21 0\<rparr>"

definition emit :: "host_event \<Rightarrow> host \<Rightarrow> host" where
  "emit e h = h\<lparr>out := out h @ [e]\<rparr>"

section \<open>Recognising a complete command\<close>

definition isCmd :: "u8 \<Rightarrow> int" where
  "isCmd inByte =
     (if inByte = cmd_code NODE_ADDRESS_GET then uint (cmd_code NODE_ADDRESS_GET)
      else if inByte = cmd_code NODE_ADDRESS_SET then uint (cmd_code NODE_ADDRESS_SET)
      else if inByte = cmd_code PING_REQUEST then uint (cmd_code PING_REQUEST)
      else if inByte = cmd_code MESSAGE_REQUEST then uint (cmd_code MESSAGE_REQUEST)
      else if inByte = cmd_code HARDWARE_INFO then uint (cmd_code HARDWARE_INFO)
      else if inByte = cmd_code HOST_FORMED_PACKET then uint (cmd_code HOST_FORMED_PACKET)
      else if inByte = cmd_code MULTIPART_PACKET then uint (cmd_code MULTIPART_PACKET)
      else if inByte = cmd_code RESULT_CODE then uint (cmd_code RESULT_CODE)
      else 0)"

definition isCompleteCmd :: "bytes \<Rightarrow> nat \<Rightarrow> int" where
  "isCompleteCmd inBuf charsReceived =
     (if HDR_LEN \<le> charsReceived
      then (if isCmd (inBuf ! 0) \<noteq> 0 \<and> int (unat (inBuf ! 1)) = int charsReceived - int HDR_LEN
            then int (unat (inBuf ! 1)) else -1)
      else -1)"

section \<open>Balances\<close>

fun xor_pin :: "bytes \<Rightarrow> nat \<Rightarrow> nat \<Rightarrow> bytes \<Rightarrow> bytes option" where
  \<comment> \<open>\<open>serializedBalance[i] ^= pin[i % PIN_LENGTH]\<close>, \<open>n\<close> steps left\<close>
  "xor_pin pin i 0 s = Some s"
| "xor_pin pin i (Suc n) s = do {
     b \<leftarrow> mem_get s i;
     k \<leftarrow> mem_get pin (i mod PIN_LENGTH);
     s' \<leftarrow> mem_set s i (b XOR k);
     xor_pin pin (Suc i) n s'
   }"

text \<open>The balance, with the buffer the code has decoded in place.\<close>

definition deobfuscateReceivedBalance :: "bytes \<Rightarrow> bytes \<Rightarrow> (u64 \<times> bytes) option" where
  "deobfuscateReceivedBalance pin serializedBalance = do {
     s \<leftarrow> xor_pin pin 0 SERIALIZED_BALANCE_LENGTH serializedBalance;
     b \<leftarrow> mem_read s 0 8;
     Some (le_word b, s)
   }"

section \<open>UTXOs\<close>

text \<open>The loop of \<open>deserializeUTXOs\<close> from index \<open>i\<close>, with \<open>n\<close> steps left.\<close>

fun deserialize_loop :: "bytes \<Rightarrow> nat \<Rightarrow> nat \<Rightarrow> nat \<Rightarrow> utxoInfo list \<Rightarrow> utxoInfo list option" where
  "deserialize_loop ser currOffset i 0 us = Some us"
| "deserialize_loop ser currOffset i (Suc n) us = do {
     u \<leftarrow> mem_get us i;
     v \<leftarrow> mem_read ser currOffset SERIALIZED_VOUT_LENGTH;
     t \<leftarrow> mem_read ser (currOffset + SERIALIZED_VOUT_LENGTH) TXID_STRING_LENGTH;
     tx \<leftarrow> mem_write (txId u) 0 t;
     a \<leftarrow> mem_read ser (currOffset + SERIALIZED_VOUT_LENGTH + TXID_STRING_LENGTH)
            SERIALIZED_BALANCE_LENGTH;
     us' \<leftarrow> mem_set us i (u\<lparr>vout := le_word v, txId := tx, amount := le_word a\<rparr>);
     deserialize_loop ser
       (currOffset + SERIALIZED_VOUT_LENGTH + TXID_STRING_LENGTH + SERIALIZED_BALANCE_LENGTH)
       (Suc i) n us'
   }"

definition deserializeUTXOs :: "bytes \<Rightarrow> host \<Rightarrow> host option" where
  "deserializeUTXOs serializedUTXOs h = do {
     us \<leftarrow> deserialize_loop serializedUTXOs 0 0 (unat (numUTXOs h)) (currUTXOs h);
     Some (h\<lparr>currUTXOs := us\<rparr>)
   }"

fun print_utxos_loop :: "bytes \<Rightarrow> nat \<Rightarrow> nat \<Rightarrow> host \<Rightarrow> host option" where
  "print_utxos_loop junk i 0 h = Some h"
| "print_utxos_loop junk i (Suc n) h = do {
     u \<leftarrow> mem_get (currUTXOs h) i;
     t \<leftarrow> c_string (txId u);
     (ok, coinString) \<leftarrow> koinu_to_coins_str (amount u) junk;
     c \<leftarrow> c_string coinString;
     print_utxos_loop junk (Suc i) n (emit (EvUTXO i t (vout u) c (amount u)) h)
   }"

definition printAllUTXOs :: "env \<Rightarrow> host \<Rightarrow> host option" where
  "printAllUTXOs e h =
     (if unat (numUTXOs h) > 0
      then print_utxos_loop (take MAX_DOGECOIN_AMOUNT_STRING_LENGTH (stack_junk e)) 0
             (unat (numUTXOs h)) h
      else Some (emit EvNoUTXOs h))"

definition processReceivedUTXOs :: "env \<Rightarrow> bytes \<Rightarrow> host \<Rightarrow> host option" where
  "processReceivedUTXOs e payloadIn h = do {
     n \<leftarrow> mem_read payloadIn 0 4;
     let h = h\<lparr>numUTXOs := le_word n\<rparr>;
     let h = emit (EvUTXOCount (numUTXOs h)) h;
     h \<leftarrow> deserializeUTXOs (drop SERIALIZED_NUM_UTXO_LENGTH payloadIn) h;
     printAllUTXOs e h
   }"

section \<open>Transaction results, broadcasts, responses\<close>

definition processTransactionResult :: "bytes \<Rightarrow> nat \<Rightarrow> host \<Rightarrow> host option" where
  "processTransactionResult payloadIn payloadSize h =
     (if payloadSize = 2 then do {
        b \<leftarrow> mem_get payloadIn 0;
        Some (emit (EvTxFailed b) h)
      }
      else if payloadSize = 1 + TXID_STRING_LENGTH then do {
        t \<leftarrow> mem_read payloadIn 0 TXID_STRING_LENGTH;
        s \<leftarrow> c_string (t @ [0]);
        Some (emit (EvTxid s) h)
      }
      else Some (emit EvTxUnknown h))"

definition processBroadcastMessage :: "u8 \<Rightarrow> bytes \<Rightarrow> host \<Rightarrow> host" where
  "processBroadcastMessage broadcastType senderAddr h = emit (EvBroadcast broadcastType senderAddr) h"

text \<open>The text the two report functions print for a code, if any.\<close>

definition printResponseCommandInfo :: "u8 \<Rightarrow> string option" where
  "printResponseCommandInfo responseCommand =
     (if responseCommand = doge_code DISPLAY_QR then Some ''Display QR Code''
      else if responseCommand = doge_code REGISTRATION then Some ''Registration Function''
      else if responseCommand = doge_code GET_DOGE_ADDRESS then Some ''Get Address''
      else if responseCommand = doge_code SEND_DOGE_ADDRESS then Some ''Send Address''
      else if responseCommand = doge_code REQUEST_UTXOS then Some ''Request UTXOs''
      else if responseCommand = doge_code UTXOS_RECEIVED then Some ''UTXOs Received''
      else if responseCommand = doge_code REQUEST_BALANCE then Some ''Balance Request''
      else if responseCommand = doge_code BALANCE_RECEIVED then Some ''Balance Received''
      else if responseCommand = doge_code TRANSACTION_REQUEST then Some ''Transaction Request''
      else if responseCommand = doge_code TRANSACTION_RESULT then Some ''Transaction Result''
      else None)"

definition printDogeResponseCodeInfo :: "u8 \<Rightarrow> string option" where
  "printDogeResponseCodeInfo responseCode =
     (if responseCode = response_code HUB_RESPONSE_SUCCESS then Some ''Success''
      else if responseCode = response_code INVALID_ADDRESS then Some ''Invalid address supplied!''
      else if responseCode = response_code ALREADY_REGISTERED
        then Some ''Address already registered!''
      else if responseCode = response_code NOT_REGISTERED
        then Some ''Address was not registered yet!''
      else if responseCode = response_code INVALID_PIN then Some ''Invalid pin supplied!''
      else if responseCode = response_code NO_STORED_UTXOS
        then Some ''There are no UTXOs currently stored or available for the supplied address!''
      else if responseCode = response_code WATCHLIST_FAILURE
        then Some ''Issue with editing the address watchlist!''
      else None)"

text \<open>The reply to an address request: a fresh key pair, whose private key is kept.\<close>

definition sendDogeAddressTest :: "env \<Rightarrow> bytes \<Rightarrow> host \<Rightarrow> host option" where
  "sendDogeAddressTest e destAddr h =
     (let (wif, addrbuffer) = gen_keys e;
          h = emit (EvAddressSent addrbuffer) (h\<lparr>generatedPrivateKey := wif\<rparr>)
      in do {
        p \<leftarrow> cmdSendDogeAddress (myaddr h) destAddr addrbuffer (usb h);
        Some (h\<lparr>usb := p\<rparr>)
      })"

section \<open>Payloads\<close>

text \<open>
  \<open>processDogePayload\<close> gets a pointer to a buffer that may hold more than the message; the result
  holds the buffer, since a balance is decoded in it.
\<close>

definition processDogePayload ::
    "env \<Rightarrow> bytes \<Rightarrow> bytes \<Rightarrow> nat \<Rightarrow> host \<Rightarrow> (bytes \<times> host) option" where
  "processDogePayload e senderAddr payloadIn payloadSize h = do {
     c \<leftarrow> mem_get payloadIn 0;
     (if c = doge_code GET_DOGE_ADDRESS then do {
        h \<leftarrow> sendDogeAddressTest e senderAddr (emit EvAddressRequest h);
        Some (payloadIn, h)
      }
      else if c = doge_code SEND_DOGE_ADDRESS then do {
        a \<leftarrow> c_string (drop 1 payloadIn);
        Some (payloadIn, emit (EvAddress a) h)
      }
      else if c = doge_code BALANCE_RECEIVED then do {
        (balanceReceived, rest) \<leftarrow> deobfuscateReceivedBalance (userPin h) (drop 1 payloadIn);
        Some (c # rest, emit (EvBalance balanceReceived) h)
      }
      else if c = doge_code UTXOS_RECEIVED then do {
        h \<leftarrow> processReceivedUTXOs e (drop 1 payloadIn) h;
        Some (payloadIn, h)
      }
      else if c = doge_code DOGE_COMMAND_SUCCESS then do {
        r \<leftarrow> mem_get payloadIn 1;
        Some (payloadIn, emit (EvSuccess r) h)
      }
      else if c = doge_code DOGE_COMMAND_FAILURE then do {
        r \<leftarrow> mem_get payloadIn 2;
        Some (payloadIn, emit (EvFailure r) h)
      }
      else if c = doge_code TRANSACTION_RESULT then do {
        h \<leftarrow> processTransactionResult (drop 1 payloadIn) payloadSize h;
        Some (payloadIn, h)
      }
      else if c = cmd_code BROADCAST_MESSAGE then do {
        t \<leftarrow> mem_get payloadIn 1;
        Some (payloadIn, processBroadcastMessage t senderAddr h)
      }
      else Some (payloadIn, emit EvUnknownDoge h))
   }"

definition processCommandPayload :: "bytes \<Rightarrow> nat \<Rightarrow> host \<Rightarrow> host option" where
  "processCommandPayload payloadIn payloadSize h = do {
     c \<leftarrow> mem_get payloadIn 0;
     (if c = cmd_code NODE_ADDRESS_GET then do {
        r \<leftarrow> mem_get payloadIn 2; k \<leftarrow> mem_get payloadIn 3; n \<leftarrow> mem_get payloadIn 4;
        Some (emit (EvNodeAddress r k n) h)
      }
      else if c = cmd_code NODE_ADDRESS_SET \<or> c = cmd_code PING_REQUEST
              \<or> c = cmd_code MESSAGE_REQUEST then Some h
      else if c = cmd_code HARDWARE_INFO then do {
        k \<leftarrow> mem_get payloadIn 2; v \<leftarrow> mem_get payloadIn 3; f \<leftarrow> mem_get payloadIn 4;
        Some (emit (if k = 104 then EvHardware v f else EvUnknownHardware) h)
      }
      else if c = cmd_code HOST_FORMED_PACKET \<or> c = cmd_code MULTIPART_PACKET
        then Some (emit EvUnexpectedPacket h)
      else if c = cmd_code RESULT_CODE then do {
        r \<leftarrow> mem_get payloadIn 2;
        Some (if r = result_code RESULT_ACK then emit EvAck h
              else if r = result_code RESULT_NACK then emit EvNack h
              else h)
      }
      else Some (emit EvUnknownPayload h))
   }"

section \<open>Packets\<close>

text \<open>\<open>parseHostFormedPacket\<close>: the sender address and the data buffer after the call.\<close>

definition parseHostFormedPacket ::
    "bytes \<Rightarrow> bytes \<Rightarrow> nat \<Rightarrow> host \<Rightarrow> (bytes \<times> bytes \<times> host) option" where
  "parseHostFormedPacket extractedDataBuffer payloadIn payloadSize h = do {
     senderAddr \<leftarrow> mem_read payloadIn HDR_LEN ADDR_LEN;
     destAddr \<leftarrow> mem_read payloadIn (HDR_LEN + ADDR_LEN) ADDR_LEN;
     let offset = HDR_LEN + ADDR_LEN + ADDR_LEN;
     (if payloadSize < offset then None
      else do {
        d \<leftarrow> mem_read payloadIn offset (payloadSize - offset);
        buf \<leftarrow> mem_write extractedDataBuffer 0 d;
        Some (senderAddr, buf, emit (EvPacket senderAddr destAddr d) h)
      })
   }"

text \<open>
  \<open>parseMultipartPayload\<close>: its result, then the multipart buffer, the number of bytes in it and the
  sender address afterwards. Only the first part of a message sets the sender.
\<close>

definition parseMultipartPayload ::
    "bytes \<Rightarrow> nat \<Rightarrow> bytes \<Rightarrow> nat \<Rightarrow> bytes \<Rightarrow> (bool \<times> bytes \<times> nat \<times> bytes) option" where
  "parseMultipartPayload payloadPartIn partSize multipartBuffer multipartSize senderAddress = do {
     senderAddress \<leftarrow> (if multipartSize = 0 then mem_read payloadPartIn 2 3
                       else Some senderAddress);
     (if partSize < MULTIPART_HDR_LEN then None
      else do {
        d \<leftarrow> mem_read payloadPartIn MULTIPART_HDR_LEN (partSize - MULTIPART_HDR_LEN);
        buf \<leftarrow> mem_write multipartBuffer multipartSize d;
        i \<leftarrow> mem_get payloadPartIn 10;
        n \<leftarrow> mem_get payloadPartIn 11;
        Some (i = n, buf, multipartSize + (partSize - MULTIPART_HDR_LEN), senderAddress)
      })
   }"

section \<open>The poll thread\<close>

record poll =
  rxbuffer :: bytes
  totalRxChars :: nat
  dataBuffer :: bytes
  multipartBuffer :: bytes
  multipartIndex :: nat
  senderAddress :: bytes

definition poll_init :: poll where
  "poll_init = \<lparr>rxbuffer = replicate 1024 0, totalRxChars = 0, dataBuffer = replicate 255 0,
     multipartBuffer = replicate 4096 0, multipartIndex = 0, senderAddress = replicate 3 0\<rparr>"

text \<open>The loop that appends the received characters to \<open>rxbuffer\<close>.\<close>

fun store_chars :: "bytes \<Rightarrow> poll \<Rightarrow> poll option" where
  "store_chars [] s = Some s"
| "store_chars (b # bs) s = do {
     buf \<leftarrow> mem_set (rxbuffer s) (totalRxChars s) b;
     store_chars bs (s\<lparr>rxbuffer := buf, totalRxChars := Suc (totalRxChars s)\<rparr>)
   }"

text \<open>What the thread does with a complete command in \<open>rxbuffer\<close>.\<close>

definition handle_command :: "env \<Rightarrow> host \<times> poll \<Rightarrow> (host \<times> poll) option" where
  "handle_command e = (\<lambda>(h, s).
     (if rxbuffer s ! 0 = cmd_code MULTIPART_PACKET then do {
        (processResult, mb, mi, sa) \<leftarrow> parseMultipartPayload (rxbuffer s) (totalRxChars s)
            (multipartBuffer s) (multipartIndex s) (senderAddress s);
        let s = s\<lparr>multipartBuffer := mb, multipartIndex := mi, senderAddress := sa\<rparr>;
        (if processResult then do {
           d \<leftarrow> mem_read mb 0 mi;
           (mb', h) \<leftarrow> processDogePayload e sa mb mi (emit (EvReassembled sa d) h);
           Some (h, s\<lparr>multipartBuffer := mb', multipartIndex := 0\<rparr>)
         }
         else Some (h, s))
      }
      else if rxbuffer s ! 0 = cmd_code HOST_FORMED_PACKET then do {
        (sa, db, h) \<leftarrow> parseHostFormedPacket (dataBuffer s) (rxbuffer s) (totalRxChars s) h;
        (db', h) \<leftarrow> processDogePayload e sa db (totalRxChars s - SINGLE_PACKET_HDR_LEN) h;
        Some (h, s\<lparr>senderAddress := sa, dataBuffer := db'\<rparr>)
      }
      else do {
        h \<leftarrow> processCommandPayload (rxbuffer s) (totalRxChars s) h;
        Some (h, s)
      }))"

text \<open>
  One turn of the loop of \<open>serialPollThread\<close>. \<open>chunk\<close> are the characters \<open>read\<close> returned, at most
  the 255 of \<open>minibuffer\<close> and none when \<open>poll\<close> or \<open>read\<close> gave nothing.
\<close>

definition poll_step :: "env \<Rightarrow> bytes \<Rightarrow> host \<times> poll \<Rightarrow> (host \<times> poll) option" where
  "poll_step e chunk = (\<lambda>(h, s). do {
     s \<leftarrow> store_chars (take 255 chunk) s;
     (if totalRxChars s > 0 then
        (if isCompleteCmd (rxbuffer s) (totalRxChars s) \<ge> 0 then do {
           (h, s) \<leftarrow> handle_command e (h, s);
           Some (h, s\<lparr>totalRxChars := 0\<rparr>)
         }
         else Some (h, s))
      else Some (h, s))
   })"

fun poll_run :: "(env \<times> bytes) list \<Rightarrow> host \<times> poll \<Rightarrow> (host \<times> poll) option" where
  "poll_run [] st = Some st"
| "poll_run ((e, chunk) # rest) st = do { st' \<leftarrow> poll_step e chunk st; poll_run rest st' }"

end
