(* ===== verification/PollThread.thy ===== *)
theory PollThread
  imports HostRx FrameReceiver
begin

text \<open>
  What \<open>serialPollThread\<close> does with the bytes of the serial port: it is a \<open>frame_receiver\<close>, so a
  command may arrive in any pieces; single packets and multipart messages are given to
  \<open>processDogePayload\<close> as they were sent; two commands in one \<open>read\<close> block it for good; and the
  replies of the hub are decoded as \<open>serdog.c\<close> lays them out.
\<close>

section \<open>Buffers keep their size\<close>

lemma xor_pin_length: "xor_pin pin i n s = Some s' \<Longrightarrow> length s' = length s"
  by (induction pin i n s rule: xor_pin.induct)
    (auto simp: bind_eq_Some_conv mem_set_def split: if_splits)

lemma processDogePayload_length:
  assumes "processDogePayload e a buf n h = Some (buf', h')"
  shows "length buf' = length buf"
proof (cases buf)
  case Nil
  with assms show ?thesis by (simp add: processDogePayload_def mem_get_def)
next
  case (Cons b bs)
  with assms show ?thesis
    by (auto simp: processDogePayload_def mem_get_def deobfuscateReceivedBalance_def bind_eq_Some_conv
        dest!: xor_pin_length split: if_splits)
qed

definition poll_ok :: "poll \<Rightarrow> bool" where
  "poll_ok s \<longleftrightarrow> length (rxbuffer s) = 1024 \<and> length (dataBuffer s) = 255
     \<and> length (multipartBuffer s) = 4096 \<and> multipartIndex s \<le> 4096 \<and> length (senderAddress s) = 3"

lemma poll_init_ok: "poll_ok poll_init"
  by (simp add: poll_ok_def poll_init_def)

lemma parseHostFormedPacket_lengths:
  assumes "parseHostFormedPacket db pl n h = Some (sa, db', h')"
  shows "length sa = 3 \<and> length db' = length db"
  using assms
  by (auto simp: parseHostFormedPacket_def bind_eq_Some_conv Let_def code_values
      dest: mem_write_length mem_read_length split: if_splits)

lemma parseMultipartPayload_lengths:
  assumes "parseMultipartPayload pl n mb mi sa = Some (r, mb', mi', sa')"
    and "length sa = 3" "mi \<le> length mb"
  shows "length sa' = 3 \<and> length mb' = length mb \<and> mi' \<le> length mb"
  using assms
  by (auto simp: parseMultipartPayload_def bind_eq_Some_conv Let_def mem_write_def
      dest: mem_read_length split: if_splits)

lemma handle_command_ok:
  assumes "handle_command e (h, s) = Some (h', s')" "poll_ok s"
  shows "poll_ok s' \<and> rxbuffer s' = rxbuffer s"
proof -
  consider (mp) "rxbuffer s ! 0 = cmd_code MULTIPART_PACKET"
    | (host) "rxbuffer s ! 0 = cmd_code HOST_FORMED_PACKET"
    | (other) "rxbuffer s ! 0 \<notin> {cmd_code MULTIPART_PACKET, cmd_code HOST_FORMED_PACKET}"
    by blast
  then show ?thesis
  proof cases
    case mp
    with assms show ?thesis
      by (auto simp: handle_command_def poll_ok_def bind_eq_Some_conv Let_def
          dest!: parseMultipartPayload_lengths processDogePayload_length split: if_splits)
  next
    case host
    with assms show ?thesis
      by (auto simp: handle_command_def poll_ok_def bind_eq_Some_conv
          dest!: parseHostFormedPacket_lengths processDogePayload_length)
  next
    case other
    with assms show ?thesis
      by (auto simp: handle_command_def bind_eq_Some_conv)
  qed
qed

section \<open>Storing characters\<close>

lemma store_chars_Some:
  assumes "totalRxChars s + length bs \<le> length (rxbuffer s)"
  shows "store_chars bs s = Some (s\<lparr>
    rxbuffer := take (totalRxChars s) (rxbuffer s) @ bs
                @ drop (totalRxChars s + length bs) (rxbuffer s),
    totalRxChars := totalRxChars s + length bs\<rparr>)"
  using assms
proof (induction bs arbitrary: s)
  case Nil
  then show ?case by simp
next
  case (Cons b bs)
  let ?n = "totalRxChars s" let ?buf = "rxbuffer s"
  let ?s = "s\<lparr>rxbuffer := ?buf[?n := b], totalRxChars := Suc ?n\<rparr>"
  have "store_chars (b # bs) s = store_chars bs ?s"
    using Cons.prems by (simp add: mem_simps)
  also have "\<dots> = Some (?s\<lparr>rxbuffer := take (Suc ?n) (?buf[?n := b]) @ bs
      @ drop (Suc ?n + length bs) (?buf[?n := b]), totalRxChars := Suc ?n + length bs\<rparr>)"
    using Cons.prems by (subst Cons.IH) simp_all
  finally show ?case using Cons.prems by simp
qed

lemma store_chars_None:
  "totalRxChars s \<le> length (rxbuffer s) \<Longrightarrow> length (rxbuffer s) < totalRxChars s + length bs
   \<Longrightarrow> store_chars bs s = None"
proof (induction bs arbitrary: s)
  case Nil
  then show ?case by simp
next
  case (Cons b bs)
  then show ?case
    by (cases "totalRxChars s < length (rxbuffer s)") (auto simp: mem_simps)
qed

section \<open>The poll thread receives frames\<close>

definition is_command :: "bytes \<Rightarrow> bool" where
  "is_command f \<longleftrightarrow> 2 \<le> length f \<and> isCmd (f ! 0) \<noteq> 0 \<and> unat (f ! 1) + 2 = length f"

lemma isCompleteCmd_iff:
  "isCompleteCmd buf n \<ge> 0 \<longleftrightarrow> 2 \<le> n \<and> isCmd (buf ! 0) \<noteq> 0 \<and> unat (buf ! 1) + 2 = n"
proof -
  have "int (unat (buf ! 1)) = int n - 2 \<longleftrightarrow> unat (buf ! 1) + 2 = n" by arith
  then show ?thesis by (simp add: isCompleteCmd_def HDR_LEN_def del: of_nat_unat)
qed

lemma isCompleteCmd_prefix:
  assumes "is_command f" "strict_prefix bs f" "take (length bs) buf = bs" "length bs \<le> length buf"
  shows "\<not> isCompleteCmd buf (length bs) \<ge> 0"
proof -
  have "length bs < length f" using assms(2) by (rule prefix_length_less)
  moreover have "buf ! 1 = f ! 1" if "2 \<le> length bs"
    using that assms(2-4) by (auto simp: strict_prefix_def nth_append elim!: prefixE)
      (metis nth_take numeral_2_eq_2 order_less_le_trans lessI)
  ultimately show ?thesis
    using assms(1) unfolding isCompleteCmd_iff is_command_def by (metis add_diff_cancel_right' less_irrefl)
qed

lemma isCompleteCmd_whole:
  "is_command f \<Longrightarrow> isCompleteCmd (f @ rest) (length f) \<ge> 0"
  unfolding isCompleteCmd_iff is_command_def by (auto simp: nth_append)

definition deliver_command :: "env \<Rightarrow> bytes \<Rightarrow> host \<times> poll \<Rightarrow> (host \<times> poll) option" where
  "deliver_command e f = (\<lambda>(h, s). do {
     (h, s) \<leftarrow> handle_command e
       (h, s\<lparr>rxbuffer := f @ drop (length f) (rxbuffer s), totalRxChars := length f\<rparr>);
     Some (h, s\<lparr>totalRxChars := 0\<rparr>)
   })"

definition poll_idle :: "host \<times> poll \<Rightarrow> bool" where
  "poll_idle = (\<lambda>(h, s). poll_ok s \<and> totalRxChars s = 0)"

definition poll_holds :: "bytes \<Rightarrow> host \<times> poll \<Rightarrow> host \<times> poll \<Rightarrow> bool" where
  "poll_holds bs = (\<lambda>(h, s) t. length bs \<le> 1024 \<and>
     t = (h, s\<lparr>rxbuffer := bs @ drop (length bs) (rxbuffer s), totalRxChars := length bs\<rparr>))"

lemma poll_collects:
  assumes "poll_idle s" "poll_holds bs s t" "length (snd c) \<le> 255" "length (bs @ snd c) \<le> 1024"
  shows "poll_step (fst c) (snd c) t =
    (let t' = (fst s, (snd s)\<lparr>rxbuffer := (bs @ snd c) @ drop (length (bs @ snd c)) (rxbuffer (snd s)),
                 totalRxChars := length (bs @ snd c)\<rparr>)
     in if length (bs @ snd c) > 0
           \<and> isCompleteCmd ((bs @ snd c) @ drop (length (bs @ snd c)) (rxbuffer (snd s)))
                 (length (bs @ snd c)) \<ge> 0
        then do { (h, s) \<leftarrow> handle_command (fst c) t'; Some (h, s\<lparr>totalRxChars := 0\<rparr>) }
        else Some t')"
proof -
  obtain h p where s: "s = (h, p)" by fastforce
  let ?t = "p\<lparr>rxbuffer := bs @ drop (length bs) (rxbuffer p), totalRxChars := length bs\<rparr>"
  have t: "t = (h, ?t)" using assms(2) s by (simp add: poll_holds_def)
  have "store_chars (take 255 (snd c)) ?t = Some (p\<lparr>
      rxbuffer := (bs @ snd c) @ drop (length (bs @ snd c)) (rxbuffer p),
      totalRxChars := length (bs @ snd c)\<rparr>)"
    using assms s by (subst store_chars_Some) (simp_all add: poll_idle_def poll_ok_def add.commute)
  then show ?thesis
    by (simp add: poll_step_def t s Let_def)
qed

lemma poll_run_steps: "poll_run cs = run_steps (\<lambda>c. poll_step (fst c) (snd c)) cs"
proof
  fix st
  show "poll_run cs st = run_steps (\<lambda>c. poll_step (fst c) (snd c)) cs st"
    by (induction cs arbitrary: st) (auto split: Option.bind_splits)
qed

interpretation poll: frame_receiver "\<lambda>c. poll_step (fst c) (snd c)" snd "\<lambda>c. length (snd c) \<le> 255"
  poll_idle poll_holds is_command "\<lambda>c. deliver_command (fst c)"
proof unfold_locales
  fix s
  assume "poll_idle s"
  then show "poll_holds [] s s" by (auto simp: poll_idle_def poll_holds_def)
next
  fix s t bs f and c :: "env \<times> bytes"
  assume a: "poll_idle s" "poll_holds bs s t" "length (snd c) \<le> 255" "is_command f"
    "strict_prefix (bs @ snd c) f"
  have len: "length f < 258" using a(4) unat_u8_less [of "f ! 1"] unfolding is_command_def by linarith
  then have l: "length (bs @ snd c) \<le> 1024"
    using prefix_length_less [OF a(5)] by linarith
  have "\<not> isCompleteCmd ((bs @ snd c) @ drop (length (bs @ snd c)) (rxbuffer (snd s)))
      (length (bs @ snd c)) \<ge> 0"
    using a(4,5) by (rule isCompleteCmd_prefix) simp_all
  then show "\<exists>t'. poll_step (fst c) (snd c) t = Some t' \<and> poll_holds (bs @ snd c) s t'"
    using l by (subst poll_collects [OF a(1-3) l]) (cases s, auto simp: poll_holds_def Let_def)
next
  fix s t bs and c :: "env \<times> bytes"
  assume a: "poll_idle s" "poll_holds bs s t" "length (snd c) \<le> 255" "is_command (bs @ snd c)"
  have l: "length (bs @ snd c) \<le> 1024" "length (bs @ snd c) > 0"
    using a(4) unat_u8_less [of "(bs @ snd c) ! 1"] unfolding is_command_def by linarith+
  show "poll_step (fst c) (snd c) t = deliver_command (fst c) (bs @ snd c) s"
    using isCompleteCmd_whole [OF a(4)] l(2)
    by (subst poll_collects [OF a(1-3) l(1)]) (cases s, simp add: deliver_command_def Let_def)
next
  fix s s' f and c :: "env \<times> bytes"
  assume a: "poll_idle s" "is_command f" "deliver_command (fst c) f s = Some s'"
  have "length f \<le> 1024"
    using a(2) unat_u8_less [of "f ! 1"] unfolding is_command_def by linarith
  then show "poll_idle s'"
    using a by (auto simp: poll_idle_def deliver_command_def bind_eq_Some_conv poll_ok_def
        dest!: handle_command_ok)
qed

section \<open>Single packets\<close>

lemma is_command_frame:
  "length pl < 256 \<Longrightarrow> isCmd (cmd_code c) \<noteq> 0 \<Longrightarrow> is_command (frame c pl)"
  by (simp add: is_command_def frame_def unat_of_nat)

lemma deliver_host_packet:
  assumes "poll_ok s" "length a = 3" "length d = 3" "length pl \<le> 249"
  shows "deliver_command e (host_packet a d pl) (h, s) = do {
      (db', h') \<leftarrow> processDogePayload e a (pl @ drop (length pl) (dataBuffer s)) (length pl)
                   (emit (EvPacket a d pl) h);
      Some (h', s\<lparr>rxbuffer := host_packet a d pl @ drop (length pl + 8) (rxbuffer s),
                  totalRxChars := 0, senderAddress := a, dataBuffer := db'\<rparr>)
    }"
proof -
  let ?rx = "host_packet a d pl @ drop (length pl + 8) (rxbuffer s)"
  have rx: "?rx = [104, of_nat (length pl + 6)] @ a @ d @ pl @ drop (length pl + 8) (rxbuffer s)"
    using assms by (simp add: host_packet_def frame_def)
  have reads: "mem_read ?rx 2 3 = Some a" "mem_read ?rx 5 3 = Some d"
    "mem_read ?rx 8 (length pl) = Some pl"
    using assms by (simp_all add: rx mem_read_def)
  have "parseHostFormedPacket (dataBuffer s) ?rx (length pl + 8) h =
      Some (a, pl @ drop (length pl) (dataBuffer s), emit (EvPacket a d pl) h)"
    using reads assms
    by (simp add: parseHostFormedPacket_def code_values poll_ok_def mem_write_def)
  moreover have "?rx ! 0 = cmd_code HOST_FORMED_PACKET" by (simp add: rx)
  moreover have "cmd_code HOST_FORMED_PACKET \<noteq> cmd_code MULTIPART_PACKET" by simp
  moreover have "length (host_packet a d pl) = length pl + 8"
    using assms by (simp add: length_host_packet)
  ultimately show ?thesis
    by (simp add: deliver_command_def handle_command_def SINGLE_PACKET_HDR_LEN_def
        del: cmd_code.simps split: Option.bind_splits)
qed

section \<open>Multipart messages\<close>

lemma deliver_multipart:
  assumes "poll_ok s" "length a = 3" "length d = 3" "length part \<le> 192"
    and "0 < i" "i \<le> n" "n \<le> 255"
  shows "deliver_command e (multipart_packet a d m i n part) (h, s) =
    (let mi = multipartIndex s; mb = take mi (multipartBuffer s) @ part
           @ drop (mi + length part) (multipartBuffer s);
         sa = (if mi = 0 then a else senderAddress s);
         s' = s\<lparr>rxbuffer := multipart_packet a d m i n part @ drop (length part + 12) (rxbuffer s),
                totalRxChars := 0, senderAddress := sa\<rparr>
     in if 4096 < mi + length part then None
        else if i = n then do {
          (mb', h') \<leftarrow> processDogePayload e sa mb (mi + length part)
             (emit (EvReassembled sa (take mi (multipartBuffer s) @ part)) h);
          Some (h', s'\<lparr>multipartBuffer := mb', multipartIndex := 0\<rparr>)
        }
        else Some (h, s'\<lparr>multipartBuffer := mb, multipartIndex := mi + length part\<rparr>))"
proof -
  let ?p = "multipart_packet a d m i n part"
  let ?rx = "?p @ drop (length part + 12) (rxbuffer s)"
  let ?mi = "multipartIndex s" let ?mb = "multipartBuffer s"
  have rx: "?rx = ([109, of_nat (length part + 10)] @ a @ d @ [m, 0, of_nat i, of_nat n])
      @ part @ drop (length part + 12) (rxbuffer s)"
    using assms by (simp add: multipart_packet_def code_values add.commute)
  have reads: "mem_read ?rx 2 3 = Some a" "mem_read ?rx 12 (length part) = Some part"
    "mem_get ?rx 10 = Some (of_nat i)" "mem_get ?rx 11 = Some (of_nat n)"
    using assms by (simp_all add: rx mem_read_def mem_get_def nth_append)
  have last: "(of_nat i = (of_nat n :: u8)) \<longleftrightarrow> i = n"
    using assms(5-7) by (simp add: word_of_nat_eq_iff take_bit_nat_eq_self)
  have mb: "length ?mb = 4096" "?mi \<le> 4096" "length (senderAddress s) = 3"
    using assms(1) by (simp_all add: poll_ok_def)
  have parse: "parseMultipartPayload ?rx (length part + 12) ?mb ?mi (senderAddress s) =
      (if 4096 < ?mi + length part then None
       else Some (i = n, take ?mi ?mb @ part @ drop (?mi + length part) ?mb, ?mi + length part,
                  if ?mi = 0 then a else senderAddress s))"
    using reads mb last
    by (simp add: parseMultipartPayload_def mem_write_def MULTIPART_HDR_LEN_def)
  have len: "length ?p = length part + 12"
    using assms by (simp add: multipart_packet_def)
  have hd: "?rx ! 0 = cmd_code MULTIPART_PACKET" by (simp add: rx)
  have rd: "mem_read (take ?mi ?mb @ part @ drop (?mi + length part) ?mb) 0 (?mi + length part)
      = Some (take ?mi ?mb @ part)" if "\<not> 4096 < ?mi + length part"
    using that mb by (simp add: mem_read_def)
  show ?thesis
    using hd rd
    by (simp add: deliver_command_def handle_command_def len parse Let_def
        del: cmd_code.simps split: Option.bind_splits)
qed

text \<open>The packets of the parts numbered from \<open>i\<close>, as they go over the air.\<close>

fun mp_packets :: "bytes \<Rightarrow> bytes \<Rightarrow> u8 \<Rightarrow> nat \<Rightarrow> nat \<Rightarrow> bytes list \<Rightarrow> bytes list" where
  "mp_packets a d m n i [] = []"
| "mp_packets a d m n i (x # xs) = multipart_packet a d m i n x # mp_packets a d m n (Suc i) xs"

lemma mp_frames_packets: "mp_frames a d m n i xs = map (frame MULTIPART_PACKET) (mp_packets a d m n i xs)"
  by (induction xs arbitrary: i) simp_all

lemma deliver_command_rx:
  assumes "poll_ok s" "deliver_command e f (h, s) = Some (h', s')" "length f \<le> 1024"
  shows "poll_ok s'"
  using assms by (auto simp: deliver_command_def bind_eq_Some_conv poll_ok_def dest!: handle_command_ok)

definition mp_result :: "env \<Rightarrow> bytes \<Rightarrow> bytes \<Rightarrow> host \<Rightarrow> poll \<Rightarrow> (host \<times> bytes) option" where
  "mp_result e a msg h s = (if 4096 < length msg then None else do {
     (mb', h') \<leftarrow> processDogePayload e a (msg @ drop (length msg) (multipartBuffer s)) (length msg)
        (emit (EvReassembled a msg) h);
     Some (h', mb')
   })"

definition mp_view :: "host \<times> poll \<Rightarrow> host \<times> bytes" where
  "mp_view = (\<lambda>(h, s). (h, multipartBuffer s))"

lemma deliver_parts:
  assumes "poll_ok s" "length a = 3" "length d = 3" "n \<le> 255" "0 < i" "i + length xs = n + 1"
    and "xs \<noteq> []" "\<forall>x\<in>set xs. 0 < length x \<and> length x \<le> 192"
    and "multipartIndex s = length pre" "take (length pre) (multipartBuffer s) = pre"
    and "pre \<noteq> [] \<Longrightarrow> senderAddress s = a"
    and "map (\<lambda>cs. concat (map snd cs)) css = mp_packets a d m n i xs"
    and "\<And>cs. cs \<in> set css \<Longrightarrow> fst (last cs) = e"
  shows "map_option mp_view (poll.deliveries css (h, s)) = mp_result e a (pre @ concat xs) h s
    \<and> (\<forall>h' s'. poll.deliveries css (h, s) = Some (h', s') \<longrightarrow> poll_ok s' \<and> totalRxChars s' = 0
          \<and> multipartIndex s' = 0)"
  using assms
proof (induction xs arbitrary: s pre i css)
  case Nil
  then show ?case by simp
next
  case (Cons x xs)
  obtain cs css' where css: "css = cs # css'"
    "concat (map snd cs) = multipart_packet a d m i n x"
    "map (\<lambda>cs. concat (map snd cs)) css' = mp_packets a d m n (Suc i) xs"
    using Cons.prems(12) by (auto simp: map_eq_Cons_conv)
  have e: "fst (last cs) = e" using Cons.prems(13) css by simp
  have x: "0 < length x" "length x \<le> 192" using Cons.prems(8) by simp_all
  have i: "i \<le> n" using Cons.prems(6) by simp
  let ?s = "\<lambda>r. s\<lparr>rxbuffer := r, totalRxChars := 0, senderAddress := a\<rparr>"
  obtain r where r: "length r = 1024" and
    del: "deliver_command e (multipart_packet a d m i n x) (h, s) =
    (let mb = pre @ x @ drop (length pre + length x) (multipartBuffer s)
     in if 4096 < length pre + length x then None
        else if i = n then do {
          (mb', h') \<leftarrow> processDogePayload e a mb (length pre + length x)
             (emit (EvReassembled a (pre @ x)) h);
          Some (h', (?s r)\<lparr>multipartBuffer := mb', multipartIndex := 0\<rparr>)
        }
        else Some (h, (?s r)\<lparr>multipartBuffer := mb, multipartIndex := length pre + length x\<rparr>))"
  proof
    let ?r = "multipart_packet a d m i n x @ drop (length x + 12) (rxbuffer s)"
    show "length ?r = 1024"
      using Cons.prems(1-3) x by (simp add: multipart_packet_def poll_ok_def)
    have "(if length pre = 0 then a else senderAddress s) = a" using Cons.prems(11) by auto
    then show "deliver_command e (multipart_packet a d m i n x) (h, s) =
    (let mb = pre @ x @ drop (length pre + length x) (multipartBuffer s)
     in if 4096 < length pre + length x then None
        else if i = n then do {
          (mb', h') \<leftarrow> processDogePayload e a mb (length pre + length x)
             (emit (EvReassembled a (pre @ x)) h);
          Some (h', (?s ?r)\<lparr>multipartBuffer := mb', multipartIndex := 0\<rparr>)
        }
        else Some (h, (?s ?r)\<lparr>multipartBuffer := mb, multipartIndex := length pre + length x\<rparr>))"
      using Cons.prems(1-5,9,10) x i
      by (subst deliver_multipart) (simp_all add: Let_def)
  qed
  have mb: "length (multipartBuffer s) = 4096" using Cons.prems(1) by (simp add: poll_ok_def)
  show ?case
  proof (cases "4096 < length pre + length x")
    case True
    then show ?thesis using css del e by (simp add: mp_result_def)
  next
    case fits: False
    show ?thesis
    proof (cases "i = n")
      case True
      then have "xs = []" using Cons.prems(6) by simp
      then show ?thesis
        using css del e fits True r Cons.prems(1,2) mb
        by (auto simp: Let_def mp_result_def mp_view_def poll_ok_def
            dest!: processDogePayload_length split: Option.bind_splits)
    next
      case False
      let ?mb = "pre @ x @ drop (length pre + length x) (multipartBuffer s)"
      let ?t = "(?s r)\<lparr>multipartBuffer := ?mb, multipartIndex := length pre + length x\<rparr>"
      have ok: "poll_ok ?t" using Cons.prems(1,2) r fits mb by (simp add: poll_ok_def)
      have dr: "drop (length pre + (length x + length (concat xs))) ?mb
          = drop (length pre + (length x + length (concat xs))) (multipartBuffer s)"
        by (simp add: ac_simps)
      have "deliver_command e (multipart_packet a d m i n x) (h, s) = Some (h, ?t)"
        using del fits False by simp
      moreover have "map_option mp_view (poll.deliveries css' (h, ?t)) =
          mp_result e a ((pre @ x) @ concat xs) h ?t
        \<and> (\<forall>h' s'. poll.deliveries css' (h, ?t) = Some (h', s') \<longrightarrow> poll_ok s' \<and> totalRxChars s' = 0
              \<and> multipartIndex s' = 0)"
        using Cons.prems False css(3) ok x css(1)
        by (intro Cons.IH [of ?t "Suc i" "pre @ x" css']) auto
      moreover have "mp_result e a ((pre @ x) @ concat xs) h ?t =
          mp_result e a (pre @ concat (x # xs)) h s"
        using dr by (simp add: mp_result_def)
      ultimately show ?thesis
        using css(1,2) e by simp
    qed
  qed
qed

text \<open>The reads that carry a sequence of packets: none of them spans two packets.\<close>

definition carries :: "env \<Rightarrow> bytes list \<Rightarrow> (env \<times> bytes) list list \<Rightarrow> bool" where
  "carries e packets css \<longleftrightarrow> map (\<lambda>cs. concat (map snd cs)) css = packets
     \<and> (\<forall>cs\<in>set css. cs \<noteq> [] \<and> snd (last cs) \<noteq> [] \<and> (\<forall>c\<in>set cs. fst c = e \<and> length (snd c) \<le> 255))"

lemma carries_cut:
  assumes "carries e packets css" "list_all is_command packets"
  shows "list_all poll.well_cut css"
  using assms
  by (fastforce simp: carries_def list_all_iff poll.well_cut_def)

lemma carries_run:
  assumes "carries e packets css" "list_all is_command packets" "poll_idle s"
  shows "poll_run (concat css) s = poll.deliveries css s"
  using poll.frame_by_frame [OF assms(3) carries_cut [OF assms(1,2)]]
  by (simp add: poll_run_steps)

lemma mp_packets_commands:
  assumes "length a = 3" "length d = 3" "\<forall>x\<in>set xs. length x \<le> 192"
  shows "list_all is_command (mp_packets a d m n i xs)"
  using assms(3)
proof (induction xs arbitrary: i)
  case Nil
  then show ?case by simp
next
  case (Cons x xs)
  then have "is_command (multipart_packet a d m i n x)"
    using assms(1,2) by (simp add: multipart_packet_frame is_command_frame isCmd_def)
  with Cons show ?case by simp
qed

lemma multipart_run:
  assumes "poll_idle (h, s)" "multipartIndex s = 0" "length a = 3" "length d = 3"
    and "msg \<noteq> []" "length (chunks MAX_PAYLOAD_LEN msg) \<le> 255"
    and "carries e (mp_packets a d m (length (chunks MAX_PAYLOAD_LEN msg)) 1
                     (chunks MAX_PAYLOAD_LEN msg)) css"
  shows "map_option mp_view (poll_run (concat css) (h, s)) = mp_result e a msg h s
    \<and> (\<forall>h' s'. poll_run (concat css) (h, s) = Some (h', s') \<longrightarrow> poll_idle (h', s')
          \<and> multipartIndex s' = 0)"
proof -
  let ?xs = "chunks MAX_PAYLOAD_LEN msg"
  have pos: "0 < MAX_PAYLOAD_LEN" by (simp add: MAX_PAYLOAD_LEN_def)
  then have ne: "?xs \<noteq> []" "concat ?xs = msg"
    using assms(5) concat_chunks [OF pos, of msg] by fastforce+
  have b: "\<forall>x\<in>set ?xs. 0 < length x \<and> length x \<le> 192"
    using chunks_bounded [of _ MAX_PAYLOAD_LEN msg] by (auto simp: MAX_PAYLOAD_LEN_def)
  have run: "poll_run (concat css) (h, s) = poll.deliveries css (h, s)"
    using assms b by (intro carries_run [OF assms(7)] mp_packets_commands) auto
  have "\<And>cs. cs \<in> set css \<Longrightarrow> fst (last cs) = e"
    using assms(7) by (force simp: carries_def)
  then show ?thesis
    unfolding run poll_idle_def case_prod_conv
    using assms(1-4,6,7) b ne
      deliver_parts [where s = s and a = a and d = d and n = "length ?xs" and i = 1 and xs = ?xs
        and pre = "[]" and m = m and css = css and e = e and h = h]
    by (simp add: carries_def poll_idle_def)
qed

section \<open>Reads that hold more than one command\<close>

definition poll_stuck :: "poll \<Rightarrow> bool" where
  "poll_stuck s \<longleftrightarrow> length (rxbuffer s) = 1024 \<and> 2 \<le> totalRxChars s \<and> totalRxChars s \<le> 1024
     \<and> (isCmd (rxbuffer s ! 0) = 0 \<or> unat (rxbuffer s ! 1) + 2 < totalRxChars s)"

lemma stuck_step:
  assumes "poll_stuck s"
  shows "totalRxChars s + length (take 255 c) \<le> 1024 \<Longrightarrow>
      \<exists>s'. poll_step e c (h, s) = Some (h, s') \<and> poll_stuck s'
         \<and> totalRxChars s' = totalRxChars s + length (take 255 c)"
    and "1024 < totalRxChars s + length (take 255 c) \<Longrightarrow> poll_step e c (h, s) = None"
proof -
  assume fit: "totalRxChars s + length (take 255 c) \<le> 1024"
  let ?n = "totalRxChars s" let ?c = "take 255 c"
  let ?s = "s\<lparr>rxbuffer := take ?n (rxbuffer s) @ ?c @ drop (?n + length ?c) (rxbuffer s),
              totalRxChars := ?n + length ?c\<rparr>"
  have st: "store_chars ?c s = Some ?s"
    using assms fit by (intro store_chars_Some) (simp add: poll_stuck_def)
  have same: "rxbuffer ?s ! 0 = rxbuffer s ! 0" "rxbuffer ?s ! 1 = rxbuffer s ! 1"
    using assms by (auto simp: poll_stuck_def nth_append)
  have stuck: "poll_stuck ?s"
    using assms fit unfolding poll_stuck_def same by auto
  then have "\<not> isCompleteCmd (rxbuffer ?s) (totalRxChars ?s) \<ge> 0"
    unfolding isCompleteCmd_iff poll_stuck_def by linarith
  then show "\<exists>s'. poll_step e c (h, s) = Some (h, s') \<and> poll_stuck s'
         \<and> totalRxChars s' = totalRxChars s + length (take 255 c)"
    using st stuck by (auto simp: poll_step_def)
next
  assume "1024 < totalRxChars s + length (take 255 c)"
  then show "poll_step e c (h, s) = None"
    using assms store_chars_None [of s "take 255 c"] by (simp add: poll_step_def poll_stuck_def)
qed

lemma stuck_run:
  assumes "poll_stuck s"
  shows "(\<exists>s'. poll_run cs (h, s) = Some (h, s')) \<longleftrightarrow>
           totalRxChars s + (\<Sum>c\<leftarrow>cs. length (take 255 (snd c))) \<le> 1024"
    and "poll_run cs (h, s) = Some (h', s') \<Longrightarrow> h' = h \<and> poll_stuck s'"
  using assms
proof (induction cs arbitrary: s)
  case Nil
  {
    case 1
    then show ?case by (simp add: poll_stuck_def)
  next
    case 2
    then show ?case by simp
  }
next
  case (Cons c cs)
  obtain e bs where c: "c = (e, bs)" by fastforce
  {
    case 1
    show ?case
    proof (cases "totalRxChars s + length (take 255 bs) \<le> 1024")
      case True
      from stuck_step(1) [OF 1 this] obtain t where
        "poll_step e bs (h, s) = Some (h, t)" "poll_stuck t"
        "totalRxChars t = totalRxChars s + length (take 255 bs)" by blast
      with Cons.IH(1) [of t] show ?thesis
        by (simp add: c add.assoc)
    next
      case False
      with stuck_step(2) [OF 1] show ?thesis by (simp add: c)
    qed
  next
    case 2
    then show ?case
      using stuck_step [OF 2(2), of bs e h] Cons.IH(2)
      by (cases "totalRxChars s + length (take 255 bs) \<le> 1024") (auto simp: c)
  }
qed

section \<open>What the thread guarantees\<close>

text \<open>C11:
  A command may arrive in any pieces. When nothing is pending and the bytes of one complete command
  come in by any number of reads (empty ones too), the thread runs \<open>handle_command\<close> exactly once, on
  the whole command, at the read that brings its last byte, and is then ready for the next.
\<close>

theorem command_fragmentation:
  assumes "poll_ok s" "totalRxChars s = 0" "is_command f"
    and "concat (map snd cs) @ piece = f" "piece \<noteq> []"
    and "length piece \<le> 255" "\<forall>c\<in>set cs. length (snd c) \<le> 255"
  shows "poll_run (cs @ [(e, piece)]) (h, s) = do {
      (h', s') \<leftarrow> handle_command e
         (h, s\<lparr>rxbuffer := f @ drop (length f) (rxbuffer s), totalRxChars := length f\<rparr>);
      Some (h', s'\<lparr>totalRxChars := 0\<rparr>)
    }"
proof -
  have "poll_run (cs @ [(e, piece)]) (h, s) = deliver_command e f (h, s)"
    unfolding poll_run_steps
    using poll.fragmented [of "(h, s)" cs "(e, piece)"] assms
    by (simp add: poll_idle_def list_all_iff)
  then show ?thesis by (simp add: deliver_command_def)
qed

lemma command_fragmentation_witness:
  shows "poll_run [(env_zero, [2]), (env_zero, []), (env_zero, [1, 0])] (host_init, poll_init) = Some (host_init,
      poll_init\<lparr>rxbuffer := [2, 1, 0] @ replicate 1021 0, totalRxChars := 0\<rparr>)"
proof -
  have d: "drop 3 (rxbuffer poll_init) = replicate 1021 0" by (simp add: poll_init_def)
  have "is_command [2, 1, 0]" by (simp add: is_command_def isCmd_def)
  then show ?thesis
    using command_fragmentation [of poll_init "[2, 1, 0]" "[(env_zero, [2]), (env_zero, [])]" "[1, 0]" env_zero host_init]
      poll_init_ok
    by (simp add: d handle_command_def processCommandPayload_def mem_get_def)
      (simp add: poll_init_def)
qed

text \<open>C12:
  Two commands in one read block the receiver. When a read brings a complete command and at least
  one more byte, the length test never holds again: whatever is received later, no command is
  handled and nothing is reported, until the bytes no longer fit in \<open>rxbuffer\<close>; then the thread
  writes past its end.
\<close>

theorem coalesced_read_blocks:
  assumes "poll_ok s" "totalRxChars s = 0" "is_command f" "g \<noteq> []" "length (f @ g) \<le> 255"
    and "n = length (f @ g) + (\<Sum>c\<leftarrow>cs. length (take 255 (snd c)))"
  shows "if n \<le> 1024 then \<exists>s'. poll_run ((e, f @ g) # cs) (h, s) = Some (h, s')
         else poll_run ((e, f @ g) # cs) (h, s) = None"
proof -
  let ?t = "s\<lparr>rxbuffer := (f @ g) @ drop (length (f @ g)) (rxbuffer s), totalRxChars := length (f @ g)\<rparr>"
  have f: "2 \<le> length f" "isCmd (f ! 0) \<noteq> 0" "unat (f ! 1) + 2 = length f"
    using assms(3) by (simp_all add: is_command_def)
  have hd: "((f @ g) @ r) ! 1 = f ! 1" "(f @ g @ r) ! Suc 0 = f ! 1" for r
    using f(1) by (simp_all add: nth_append)
  have lt: "unat (f ! 1) + 2 < length (f @ g)" using f(3) assms(4) by simp
  have stuck: "poll_stuck ?t"
    using assms(1,5) f(1) lt by (simp add: poll_stuck_def poll_ok_def hd)
  have "\<not> isCompleteCmd ((f @ g) @ drop (length (f @ g)) (rxbuffer s)) (length (f @ g)) \<ge> 0"
    unfolding isCompleteCmd_iff hd using lt by linarith
  moreover have "store_chars (take 255 (f @ g)) s = Some ?t"
    using assms by (subst store_chars_Some) (simp_all add: poll_ok_def)
  ultimately have "poll_step e (f @ g) (h, s) = Some (h, ?t)"
    by (simp add: poll_step_def)
  then have run: "poll_run ((e, f @ g) # cs) (h, s) = poll_run cs (h, ?t)" by simp
  have n: "n = totalRxChars ?t + (\<Sum>c\<leftarrow>cs. length (take 255 (snd c)))"
    using assms(6) by simp
  show ?thesis
  proof (cases "n \<le> 1024")
    case True
    with stuck_run(1) [OF stuck, of cs h] n show ?thesis by (simp only: run if_True)
  next
    case False
    then have "poll_run cs (h, ?t) \<noteq> Some (h', s')" for h' s'
      using stuck_run [OF stuck, of cs h] n by metis
    then have "poll_run cs (h, ?t) = None" by (metis not_Some_eq surj_pair)
    with False show ?thesis by (simp only: run if_False)
  qed
qed

lemma coalesced_read_blocks_witness:
  shows "\<exists>s'. poll_run [(env_zero, [254, 1, 6, 254, 1, 6]), (env_zero, [254, 1, 6])] (host_init, poll_init) = Some (host_init, s')"
proof -
  have "is_command [254, 1, 6]" by (simp add: is_command_def isCmd_def)
  then show ?thesis
    using coalesced_read_blocks
      [of poll_init "[254, 1, 6]" "[254, 1, 6]" 9 "[(env_zero, [254, 1, 6])]" env_zero host_init] poll_init_ok
    by (simp add: poll_init_def)
qed

lemma host_packet_run:
  assumes "poll_ok s" "totalRxChars s = 0" "length a = 3" "length d = 3" "length pl \<le> 249"
    and "carries e [host_packet a d pl] [cs]"
  shows "poll_run cs (h, s) = do {
      (db', h') \<leftarrow> processDogePayload e a (pl @ drop (length pl) (dataBuffer s)) (length pl)
                   (emit (EvPacket a d pl) h);
      Some (h', s\<lparr>rxbuffer := host_packet a d pl @ drop (length pl + 8) (rxbuffer s),
                  totalRxChars := 0, senderAddress := a, dataBuffer := db'\<rparr>)
    }"
proof -
  have "is_command (host_packet a d pl)"
    using assms unfolding host_packet_def by (intro is_command_frame) (simp_all add: isCmd_def)
  then have "poll_run (concat [cs]) (h, s) = poll.deliveries [cs] (h, s)"
    using assms by (intro carries_run [OF assms(6)]) (simp_all add: poll_idle_def)
  moreover have "cs \<noteq> []" "fst (last cs) = e" "concat (map snd cs) = host_packet a d pl"
    using assms(6) by (simp_all add: carries_def)
  ultimately show ?thesis
    using deliver_host_packet [OF assms(1,3-5), of e h] by simp
qed

text \<open>
  A packet of one part reaches the application unchanged. The bytes of a host-formed packet with
  sender \<open>a\<close>, destination \<open>d\<close> and up to 249 bytes of payload, received in any pieces, are reported
  with that sender, destination and payload, and \<open>processDogePayload\<close> runs once with the payload at
  the start of its buffer; what follows it there is left over from earlier packets.
\<close>

theorem single_packet_delivery:
  assumes "poll_ok s" "totalRxChars s = 0" "length a = 3" "length d = 3" "length pl \<le> 249"
    and "carries e [host_packet a d pl] [cs]"
  shows "poll_run cs (h, s) = do {
      (db', h') \<leftarrow> processDogePayload e a (pl @ drop (length pl) (dataBuffer s)) (length pl)
                   (emit (EvPacket a d pl) h);
      Some (h', s\<lparr>rxbuffer := host_packet a d pl @ drop (length pl + 8) (rxbuffer s),
                  totalRxChars := 0, senderAddress := a, dataBuffer := db'\<rparr>)
    }"
  using assms by (rule host_packet_run)

lemma single_packet_delivery_witness:
  shows "\<exists>s'. poll_run [(env_zero, [104, 8, 10, 0, 1]), (env_zero, [10, 0, 2, 1, 101])] (host_init, poll_init) =
    Some (emit (EvSuccess 101) (emit (EvPacket [10, 0, 1] [10, 0, 2] [1, 101]) host_init), s')"
proof -
  have "carries env_zero [host_packet [10, 0, 1] [10, 0, 2] [1, 101]]
      [[(env_zero, [104, 8, 10, 0, 1]), (env_zero, [10, 0, 2, 1, 101])]]"
    by (simp add: carries_def host_packet_def frame_def)
  then show ?thesis
    using single_packet_delivery [of poll_init "[10, 0, 1]" "[10, 0, 2]" "[1, 101]" env_zero
        "[(env_zero, [104, 8, 10, 0, 1]), (env_zero, [10, 0, 2, 1, 101])]" host_init] poll_init_ok
    by (simp add: poll_init_def processDogePayload_def mem_get_def)
qed

text \<open>A multipart message is reassembled. The parts of a message, received in order and in any pieces,
  give one report with the sender and the whole message, and one call of \<open>processDogePayload\<close> with
  it, if the message fits in the 4096 bytes of the multipart buffer; the parts of a longer message
  write past the end of that buffer, whatever the message is.
\<close>

theorem multipart_delivery:
  assumes "poll_ok s" "totalRxChars s = 0" "multipartIndex s = 0" "length a = 3" "length d = 3"
    and "msg \<noteq> []" "parts = chunks MAX_PAYLOAD_LEN msg" "length parts \<le> 255"
    and "carries e (mp_packets a d m (length parts) 1 parts) css"
  shows "map_option (\<lambda>(h', s'). (h', multipartBuffer s')) (poll_run (concat css) (h, s)) =
    (if 4096 < length msg then None
     else do {
       (mb', h') \<leftarrow> processDogePayload e a (msg @ drop (length msg) (multipartBuffer s)) (length msg)
          (emit (EvReassembled a msg) h);
       Some (h', mb')
     })"
  using multipart_run [of h s a d msg e m css] assms
  by (simp add: poll_idle_def mp_result_def mp_view_def)

lemma multipart_delivery_witness:
  shows "map_option (\<lambda>(h', s'). (h', multipartBuffer s'))
      (poll_run [(env_zero, [109, 12, 10, 0, 1, 10, 0, 2, 7, 0, 1, 1]), (env_zero, [1, 101])] (host_init, poll_init)) =
    Some (emit (EvSuccess 101) (emit (EvReassembled [10, 0, 1] [1, 101]) host_init),
          [1, 101] @ replicate 4094 0)"
proof -
  let ?cs = "[(env_zero, [109, 12, 10, 0, 1, 10, 0, 2, 7, 0, 1, 1]), (env_zero, [1, 101])]"
  have c: "chunks MAX_PAYLOAD_LEN [1, 101 :: u8] = [[1, 101]]"
    by (simp add: chunks.simps MAX_PAYLOAD_LEN_def)
  have "carries env_zero (mp_packets [10, 0, 1] [10, 0, 2] 7 1 1 [[1, 101]]) [?cs]"
    by (simp add: carries_def multipart_packet_def code_values)
  moreover have "drop 2 (multipartBuffer poll_init) = replicate 4094 0"
    by (simp add: poll_init_def)
  ultimately show ?thesis
    using multipart_delivery [of poll_init "[10, 0, 1]" "[10, 0, 2]" "[1, 101]" "[[1, 101]]"
        env_zero 7 "[?cs]" host_init] poll_init_ok c
    by (simp add: poll_init_def processDogePayload_def mem_get_def)
qed

end
