(* ===== verification/HubReplies.thy ===== *)
theory HubReplies
  imports PollThread
begin

text \<open>
  The application payloads a hub sends: balances, which are hidden with the user's PIN, and lists of
  unspent outputs. The wire formats are written here as encoders, and the handlers of \<open>serdog.c\<close> are
  shown to decode them; the count of a list of outputs is not checked.
\<close>

section \<open>Balances\<close>

lemma xor_pin_map:
  assumes "length pin = 4" "i + n \<le> length s"
  shows "xor_pin pin i n s = Some (take i s @ map (\<lambda>j. s ! j XOR pin ! (j mod 4)) [i..<i + n]
           @ drop (i + n) s)"
  using assms(2)
proof (induction n arbitrary: i s)
  case 0
  then show ?case by simp
next
  case (Suc n)
  let ?s = "s[i := s ! i XOR pin ! (i mod 4)]"
  have "xor_pin pin i (Suc n) s = xor_pin pin (Suc i) n ?s"
    using Suc.prems assms(1) by (simp add: mem_simps PIN_LENGTH_def)
  also have "\<dots> = Some (take (Suc i) ?s @ map (\<lambda>j. ?s ! j XOR pin ! (j mod 4)) [Suc i..<Suc i + n]
      @ drop (Suc i + n) ?s)"
    using Suc.prems by (subst Suc.IH) simp_all
  also have "map (\<lambda>j. ?s ! j XOR pin ! (j mod 4)) [Suc i..<Suc i + n]
      = map (\<lambda>j. s ! j XOR pin ! (j mod 4)) [Suc i..<Suc i + n]"
    by (rule map_cong) auto
  finally show ?case
    using Suc.prems by (subst upt_conv_Cons [of i "i + Suc n"]) (simp_all del: upt_Suc)
qed

text \<open>What the hub sends for a balance.\<close>

definition hide_balance :: "bytes \<Rightarrow> u64 \<Rightarrow> bytes" where
  "hide_balance pin b = map (\<lambda>j. le_bytes 8 (unat b) ! j XOR pin ! (j mod 4)) [0..<8]"

lemma length_hide_balance [simp]: "length (hide_balance pin b) = 8"
  by (simp add: hide_balance_def)

lemma le_word_u64_inj:
  assumes "length as = 8" "length bs = 8" "(le_word as :: u64) = le_word bs"
  shows "as = bs"
proof -
  have "le_nat xs < 2 ^ 64" if "length xs = 8" for xs
    using le_nat_bound [of xs] that by simp
  then have "le_nat as = le_nat bs"
    using assms by (simp add: le_word_def word_of_nat_eq_iff take_bit_nat_eq_self)
  with assms show ?thesis by (intro le_nat_inj) simp_all
qed

lemma xor_cancel: "(x :: 'a::len word) XOR p XOR q = x \<longleftrightarrow> p = q"
  by (metis xor.assoc xor.right_neutral xor_self_eq xor.commute)

lemma deobfuscate_hidden:
  assumes "length pin = 4" "length pin' = 4"
  shows "\<exists>b' bs. deobfuscateReceivedBalance pin' (hide_balance pin b @ rest) = Some (b', bs @ rest)
    \<and> length bs = 8 \<and> (b' = b \<longleftrightarrow> pin' = pin)"
proof -
  let ?s = "hide_balance pin b @ rest"
  let ?le = "le_bytes 8 (unat b)"
  let ?bs = "map (\<lambda>j. ?le ! j XOR pin ! (j mod 4) XOR pin' ! (j mod 4)) [0..<8]"
  have le: "map (\<lambda>j. ?le ! j) [0..<8] = ?le"
    by (rule list_all_nth_upt) simp
  have "map (\<lambda>j. ?s ! j XOR pin' ! (j mod 4)) [0..<8] = ?bs"
    by (rule map_cong) (simp_all add: nth_append hide_balance_def xor.assoc del: le_bytes_numeral)
  then have "xor_pin pin' 0 8 ?s = Some (?bs @ rest)"
    using xor_pin_map [OF assms(2), of 0 8 ?s] by simp
  then have "deobfuscateReceivedBalance pin' ?s = Some (le_word ?bs, ?bs @ rest)"
    by (simp add: deobfuscateReceivedBalance_def SERIALIZED_BALANCE_LENGTH_def mem_read_def
        del: le_bytes_numeral upt_Suc upt_rec_numeral)
  moreover have "le_word ?bs = b \<longleftrightarrow> pin' = pin"
  proof
    assume "le_word ?bs = b"
    then have "?bs = map (\<lambda>j. ?le ! j) [0..<8]"
      unfolding le by (intro le_word_u64_inj) (simp_all del: le_bytes_numeral upt_rec_numeral)
    then have eq: "\<forall>j\<in>set [0..<8]. ?le ! j XOR pin ! (j mod 4) XOR pin' ! (j mod 4) = ?le ! j"
      by (simp only: map_eq_conv)
    have "pin ! j = pin' ! j" if "j < 4" for j
    proof -
      have "?le ! j XOR pin ! (j mod 4) XOR pin' ! (j mod 4) = ?le ! j"
        using that by (intro bspec [OF eq]) simp
      then show ?thesis unfolding xor_cancel using that by simp
    qed
    with assms show "pin' = pin" by (intro nth_equalityI) simp_all
  next
    assume "pin' = pin"
    then have "?bs = map (\<lambda>j. ?le ! j) [0..<8]"
      by (intro map_cong) (simp_all del: le_bytes_numeral)
    then show "le_word ?bs = b" by (simp only: le le_word_u64)
  qed
  ultimately show ?thesis by (intro exI [of _ "le_word ?bs"] exI [of _ ?bs]) simp
qed

text \<open>A balance is recovered exactly with the PIN it was hidden with. A \<open>BALANCE_RECEIVED\<close> payload whose
  eight bytes are the little-endian balance combined with a PIN is always reported as some balance,
  and that is the balance sent if and only if the user's PIN is the one used.
\<close>

theorem balance_received:
  assumes "length (userPin h) = 4" "length pin = 4"
  shows "\<exists>b' buf. processDogePayload e a (doge_code BALANCE_RECEIVED # hide_balance pin b @ rest) n h =
      Some (buf, emit (EvBalance b') h) \<and> (b' = b \<longleftrightarrow> userPin h = pin)"
proof -
  obtain b' bs where "deobfuscateReceivedBalance (userPin h) (hide_balance pin b @ rest)
      = Some (b', bs @ rest)" "b' = b \<longleftrightarrow> userPin h = pin"
    using deobfuscate_hidden [OF assms(2,1)] by blast
  then show ?thesis
    by (intro exI [of _ b'] exI [of _ "202 # bs @ rest"]) (simp add: processDogePayload_def mem_get_def)
qed

lemma balance_received_witness:
  shows "\<exists>b' buf. processDogePayload env_zero [10, 0, 1]
      (doge_code BALANCE_RECEIVED # hide_balance [1, 2, 3, 4] 150000000 @ []) 9
      (host_init\<lparr>userPin := [1, 2, 3, 4]\<rparr>)
      = Some (buf, emit (EvBalance b') (host_init\<lparr>userPin := [1, 2, 3, 4]\<rparr>)) \<and> (b' = 150000000 \<longleftrightarrow> True)"
  using balance_received [of "host_init\<lparr>userPin := [1, 2, 3, 4]\<rparr>" "[1, 2, 3, 4]" env_zero "[10, 0, 1]" 150000000 "[]" 9]
  by simp

section \<open>Unspent outputs\<close>

text \<open>What the hub sends for an output, and the state the host keeps it in.\<close>

type_synonym wire_utxo = "u32 \<times> bytes \<times> u64"

definition ser_utxo :: "wire_utxo \<Rightarrow> bytes" where
  "ser_utxo = (\<lambda>(v, t, a). le_bytes 4 (unat v) @ t @ le_bytes 8 (unat a))"

definition stored_utxo :: "wire_utxo \<Rightarrow> utxoInfo \<Rightarrow> utxoInfo" where
  "stored_utxo = (\<lambda>(v, t, a) u. u\<lparr>vout := v, txId := t @ drop 64 (txId u), amount := a\<rparr>)"

definition utxos_ok :: "utxoInfo list \<Rightarrow> bool" where
  "utxos_ok us \<longleftrightarrow> length us = 64 \<and> (\<forall>u\<in>set us. length (txId u) = 512)"

lemma deserialize_loop_ok:
  assumes "length pre = i" "length pre + length ws + length post = length us"
    and "us = pre @ olds @ post" "length olds = length ws"
    and "\<forall>u\<in>set us. length (txId u) = 512" "\<forall>(v, t, a)\<in>set ws. length t = 64"
    and "drop off ser = concat (map ser_utxo ws) @ rest" "off \<le> length ser"
  shows "deserialize_loop ser off i (length ws) us = Some (pre @ map2 stored_utxo ws olds @ post)"
  using assms
proof (induction ws arbitrary: off i us pre olds)
  case Nil
  then show ?case by simp
next
  case (Cons w ws)
  obtain v t a where w: "w = (v, t, a)" by (cases w) auto
  obtain u us' where olds: "olds = u # us'" using Cons.prems(4) by (cases olds) auto
  have t: "length t = 64" using Cons.prems(6) w by auto
  have u: "length (txId u) = 512" using Cons.prems(3,5) olds by auto
  let ?v = "le_bytes 4 (unat v)" let ?a = "le_bytes 8 (unat a)"
  let ?tail = "concat (map ser_utxo ws) @ rest"
  have d: "drop off ser = ?v @ t @ ?a @ ?tail"
    using Cons.prems(7) w by (simp add: ser_utxo_def del: le_bytes_numeral)
  have len: "length ser = off + 76 + length ?tail"
  proof -
    have "length (drop off ser) = 76 + length ?tail" using d t by simp
    with Cons.prems(8) show ?thesis by simp
  qed
  have d4: "drop (off + 4) ser = t @ ?a @ ?tail"
  proof -
    have "drop (off + 4) ser = drop 4 (drop off ser)" by (simp add: add.commute)
    then show ?thesis unfolding d by simp
  qed
  have d68: "drop (off + 4 + 64) ser = ?a @ ?tail"
  proof -
    have "drop (off + 4 + 64) ser = drop 64 (drop (off + 4) ser)" by (simp add: add.commute)
    then show ?thesis unfolding d4 using t by simp
  qed
  have d76: "drop (off + 4 + 64 + 8) ser = ?tail"
  proof -
    have "drop (off + 4 + 64 + 8) ser = drop 8 (drop (off + 4 + 64) ser)" by (simp add: add.commute)
    then show ?thesis unfolding d68 by simp
  qed
  have reads: "mem_read ser off 4 = Some ?v" "mem_read ser (off + 4) 64 = Some t"
    "mem_read ser (off + 4 + 64) 8 = Some ?a"
    using len t unfolding mem_read_def d d4 d68 by (simp_all del: le_bytes_numeral)
  have get: "mem_get us i = Some u"
    using Cons.prems(1,3) olds by (simp add: mem_get_def nth_append)
  have wr: "mem_write (txId u) 0 t = Some (t @ drop 64 (txId u))"
    using t u by (simp add: mem_write_def)
  let ?u = "stored_utxo w u"
  have st: "mem_set us i (u\<lparr>vout := le_word ?v, txId := t @ drop 64 (txId u), amount := le_word ?a\<rparr>)
      = Some ((pre @ [?u]) @ us' @ post)"
    using Cons.prems(1,3) olds w
    by (simp add: mem_set_def stored_utxo_def list_update_append del: le_bytes_numeral)
  have "deserialize_loop ser off i (length (w # ws)) us =
      deserialize_loop ser (off + 4 + 64 + 8) (Suc i) (length ws) ((pre @ [?u]) @ us' @ post)"
    using reads get wr st by (simp add: code_values del: le_bytes_numeral)
  also have "\<dots> = Some ((pre @ [?u]) @ map2 stored_utxo ws us' @ post)"
  proof (rule Cons.IH)
    show "\<forall>x\<in>set ((pre @ [?u]) @ us' @ post). length (txId x) = 512"
      using Cons.prems(3,5) olds w t u by (auto simp: stored_utxo_def)
  qed (use Cons.prems olds d76 len in auto)
  finally show ?case using olds by simp
qed

lemma deserializeUTXOs_ok:
  assumes "utxos_ok (currUTXOs h)" "length ws \<le> 64" "\<forall>(v, t, a)\<in>set ws. length t = 64"
    and "unat (numUTXOs h) = length ws"
  shows "deserializeUTXOs (concat (map ser_utxo ws) @ rest) h =
    Some (h\<lparr>currUTXOs := map2 stored_utxo ws (take (length ws) (currUTXOs h))
                         @ drop (length ws) (currUTXOs h)\<rparr>)"
  using assms deserialize_loop_ok [of "[]" 0 ws "drop (length ws) (currUTXOs h)" "currUTXOs h"
      "take (length ws) (currUTXOs h)" 0 "concat (map ser_utxo ws) @ rest" rest]
  by (simp add: deserializeUTXOs_def utxos_ok_def min_absorb2)

text \<open>The loop needs an entry of the array for every output.\<close>

lemma deserialize_loop_None:
  "0 < n \<Longrightarrow> length us < i + n \<Longrightarrow> deserialize_loop ser off i n us = None"
proof (induction n arbitrary: off i us)
  case 0
  then show ?case by simp
next
  case (Suc n)
  show ?case
  proof (cases "i < length us \<and> 0 < n")
    case True
    then show ?thesis
      using Suc by (auto simp: mem_simps split: Option.bind_splits)
  next
    case False
    with Suc.prems have "mem_get us i = None" by (auto simp: mem_simps)
    then show ?thesis by simp
  qed
qed

lemma deserialize_loop_short:
  "0 < n \<Longrightarrow> length ser < off + 76 * n \<Longrightarrow> deserialize_loop ser off i n us = None"
proof (induction n arbitrary: off i us)
  case 0
  then show ?case by simp
next
  case (Suc n)
  show ?case
  proof (cases "0 < n")
    case True
    then have "deserialize_loop ser (off + 4 + 64 + 8) (Suc i) n us' = None" for us'
      using Suc by simp
    then show ?thesis
      by (auto simp: code_values split: Option.bind_splits)
  next
    case False
    with Suc.prems have "mem_read ser (off + 4 + 64) 8 = None" by (simp add: mem_simps)
    then show ?thesis by (auto simp: code_values split: Option.bind_splits)
  qed
qed

text \<open>C32:
  A list of up to 64 outputs is stored as it was sent. For an \<open>UTXOS_RECEIVED\<close> payload with the
  count and, for each output, the little-endian output index, the 64 characters of the transaction
  id and the little-endian amount, the handler reports the count, stores the three fields of every
  output at its place in the array, leaves the other places as they were, and prints the list.
\<close>

theorem utxos_received:
  assumes "utxos_ok (currUTXOs h)" "length ws \<le> 64" "\<forall>(v, t, a)\<in>set ws. length t = 64"
  shows "processReceivedUTXOs e (le_bytes 4 (length ws) @ concat (map ser_utxo ws) @ rest) h =
    printAllUTXOs e ((emit (EvUTXOCount (of_nat (length ws)))
        (h\<lparr>numUTXOs := of_nat (length ws)\<rparr>))\<lparr>
      currUTXOs := map2 stored_utxo ws (take (length ws) (currUTXOs h))
                   @ drop (length ws) (currUTXOs h)\<rparr>)"
proof -
  let ?p = "le_bytes 4 (length ws) @ concat (map ser_utxo ws) @ rest"
  let ?h = "emit (EvUTXOCount (of_nat (length ws))) (h\<lparr>numUTXOs := of_nat (length ws)\<rparr>)"
  have n: "unat (of_nat (length ws) :: u32) = length ws"
    using assms(2) by (simp add: unat_of_nat)
  have "(le_word (le_bytes 4 (length ws)) :: u32) = of_nat (length ws)"
    using assms(2) by (simp add: le_word_def le_nat_le_bytes del: le_bytes_numeral)
  moreover have "deserializeUTXOs (concat (map ser_utxo ws) @ rest) ?h =
      Some (?h\<lparr>currUTXOs := map2 stored_utxo ws (take (length ws) (currUTXOs h))
                         @ drop (length ws) (currUTXOs h)\<rparr>)"
    using deserializeUTXOs_ok [of ?h ws rest] assms n by (simp add: emit_def)
  ultimately show ?thesis
    by (simp add: processReceivedUTXOs_def mem_read_def SERIALIZED_NUM_UTXO_LENGTH_def emit_def
        del: le_bytes_numeral)
qed

lemma utxos_received_witness:
  "let ws = [(3 :: u32, replicate 64 (97 :: u8), 150000000 :: u64)] in
   processReceivedUTXOs env_zero (le_bytes 4 (length ws) @ concat (map ser_utxo ws) @ []) host_init =
    printAllUTXOs env_zero ((emit (EvUTXOCount 1) (host_init\<lparr>numUTXOs := 1\<rparr>))\<lparr>
      currUTXOs := map2 stored_utxo ws (take 1 (currUTXOs host_init)) @ drop 1 (currUTXOs host_init)\<rparr>)"
proof -
  let ?ws = "[(3 :: u32, replicate 64 (97 :: u8), 150000000 :: u64)]"
  have "utxos_ok (currUTXOs host_init)" by (simp add: host_init_def utxos_ok_def)
  then show ?thesis
    using utxos_received [of host_init ?ws env_zero "[]"] by (simp add: Let_def)
qed

text \<open>The number of outputs is not checked. An \<open>UTXOS_RECEIVED\<close> payload that announces more than the 64
  outputs of \<open>currUTXOs\<close> makes the handler write past the array, and one that announces more outputs
  than it carries makes it read past its buffer, whatever the rest of the message is.
\<close>

theorem utxo_count_unchecked:
  assumes "length (currUTXOs h) = 64" "length cnt = 4"
    and "64 < le_nat cnt \<or> length rest < 76 * le_nat cnt"
  shows "processDogePayload e a (doge_code UTXOS_RECEIVED # cnt @ rest) n h = None"
proof -
  have "le_nat cnt < 2 ^ 32"
    using le_nat_bound [of cnt] assms(2) by simp
  then have c: "unat (le_word cnt :: u32) = le_nat cnt"
    by (simp add: le_word_def unat_of_nat)
  have "0 < le_nat cnt" using assms(3) by auto
  then have "deserialize_loop rest 0 0 (le_nat cnt) (currUTXOs h) = None"
    using assms(1,3) deserialize_loop_None [of "le_nat cnt" "currUTXOs h" 0 rest 0]
      deserialize_loop_short [of "le_nat cnt" rest 0 0 "currUTXOs h"] by auto
  then show ?thesis
    using assms(2) c
    by (simp add: processDogePayload_def mem_get_def processReceivedUTXOs_def mem_read_def
        deserializeUTXOs_def emit_def SERIALIZED_NUM_UTXO_LENGTH_def)
qed

lemma utxo_count_unchecked_witness:
  shows "processDogePayload env_zero [10, 0, 1] (doge_code UTXOS_RECEIVED # [65, 0, 0, 0] @ []) 5
    (host_init\<lparr>currUTXOs := replicate 64 \<lparr>vout = 0, txId = replicate 512 0, amount = 0\<rparr>\<rparr>) = None"
  by (rule utxo_count_unchecked) simp_all

section \<open>Printing the outputs\<close>

lemma print_utxos_ok:
  assumes "\<forall>j<n. j + i < length us \<longrightarrow> (\<exists>r. txId (us ! (i + j)) = t (i + j) @ 0 # r \<and> 0 \<notin> set (t (i + j)))"
    and "\<forall>j<n. koinu_valid (amount (us ! (i + j))) \<and> 10 ^ 8 \<le> unat (amount (us ! (i + j)))
           \<and> unat (amount (us ! (i + j))) < 10 ^ 19"
    and "i + n \<le> length us" "currUTXOs h = us" "length junk = 21"
  shows "print_utxos_loop junk i n h = Some (h\<lparr>out := out h @
     map (\<lambda>j. EvUTXO j (t j) (vout (us ! j)) (koinu_text (amount (us ! j))) (amount (us ! j))) [i..<i + n]\<rparr>)"
  using assms
proof (induction n arbitrary: i h)
  case 0
  then show ?case by simp
next
  case (Suc n)
  let ?u = "us ! i" let ?a = "amount (us ! i)"
  let ?ev = "\<lambda>j. EvUTXO j (t j) (vout (us ! j)) (koinu_text (amount (us ! j))) (amount (us ! j))"
  obtain r where r: "txId ?u = t i @ 0 # r" "0 \<notin> set (t i)"
    using Suc.prems(1,3) by fastforce
  have v: "koinu_valid ?a" "10 ^ 8 \<le> unat ?a" "unat ?a < 10 ^ 19"
    using Suc.prems(2) by force+
  have l9: "\<not> calc_length (unat ?a) < 9" using v(2) calc_length_less_9 [of "unat ?a"] by simp
  have l19: "calc_length (unat ?a) \<le> 19" using calc_length_bound [of "unat ?a" 19] v(3) by simp
  have k: "koinu_to_coins_str ?a junk
      = Some (True, koinu_text ?a @ 0 # drop (calc_length (unat ?a) + 2) junk)"
    using v l9 l19 Suc.prems(5) by (intro koinu_to_coins_large) simp_all
  have step: "print_utxos_loop junk i (Suc n) h = print_utxos_loop junk (Suc i) n (emit (?ev i) h)"
    using Suc.prems(3,4) r k koinu_text_chars [of ?a]
    by (simp add: mem_get_def c_string_append)
  have "print_utxos_loop junk (Suc i) n (emit (?ev i) h)
      = Some ((emit (?ev i) h)\<lparr>out := out (emit (?ev i) h) @ map ?ev [Suc i..<Suc i + n]\<rparr>)"
  proof (rule Suc.IH)
    show "\<forall>j<n. j + Suc i < length us
        \<longrightarrow> (\<exists>r. txId (us ! (Suc i + j)) = t (Suc i + j) @ 0 # r \<and> 0 \<notin> set (t (Suc i + j)))"
      using Suc.prems(1) by (metis Suc_less_eq add_Suc_right add_Suc add_Suc_shift)
    show "\<forall>j<n. koinu_valid (amount (us ! (Suc i + j))) \<and> 10 ^ 8 \<le> unat (amount (us ! (Suc i + j)))
        \<and> unat (amount (us ! (Suc i + j))) < 10 ^ 19"
      using Suc.prems(2) by (metis Suc_less_eq add_Suc_shift)
  qed (use Suc.prems in \<open>simp_all add: emit_def\<close>)
  then show ?case
    unfolding step by (simp add: emit_def upt_conv_Cons del: upt_Suc)
qed

text \<open>
  The list of outputs is printed faithfully. With the transaction ids NUL-terminated and the amounts
  of at least one coin and below 10^19 koinu, \<open>printAllUTXOs\<close> reports every stored output once and in
  order, with its own transaction id, index and amount, and the amount's text is the amount in coins
  whatever the stack holds.
\<close>

theorem utxos_printed:
  assumes "us = currUTXOs h" "0 < numUTXOs h" "unat (numUTXOs h) = n" "n \<le> length us"
    and "\<forall>j<n. 0 \<notin> set (t j) \<and> (\<exists>r. txId (us ! j) = t j @ 0 # r)"
    and "\<forall>j<n. koinu_valid (amount (us ! j)) \<and> 10 ^ 8 \<le> unat (amount (us ! j))
           \<and> unat (amount (us ! j)) < 10 ^ 19"
    and "21 \<le> length (stack_junk e)"
  shows "printAllUTXOs e h = Some (h\<lparr>out := out h @
     map (\<lambda>j. EvUTXO j (t j) (vout (us ! j)) (koinu_text (amount (us ! j))) (amount (us ! j))) [0..<n]\<rparr>)"
proof -
  have pos: "unat (numUTXOs h) > 0" using assms(2) by (simp add: unat_gt_0 word_neq_0_conv)
  have "print_utxos_loop (take 21 (stack_junk e)) 0 n h = Some (h\<lparr>out := out h @
     map (\<lambda>j. EvUTXO j (t j) (vout (us ! j)) (koinu_text (amount (us ! j))) (amount (us ! j))) [0..<0 + n]\<rparr>)"
    by (rule print_utxos_ok) (use assms in auto)
  then show ?thesis
    using pos unfolding printAllUTXOs_def MAX_DOGECOIN_AMOUNT_STRING_LENGTH_def assms(3) by simp
qed

lemma utxos_printed_witness:
  "printAllUTXOs env_zero (host_init\<lparr>numUTXOs := 1,
      currUTXOs := [\<lparr>vout = 3, txId = [97, 98, 0], amount = 150000000\<rparr>]\<rparr>) =
   Some (host_init\<lparr>numUTXOs := 1,
      currUTXOs := [\<lparr>vout = 3, txId = [97, 98, 0], amount = 150000000\<rparr>],
      out := [EvUTXO 0 [97, 98] 3 (koinu_text 150000000) 150000000]\<rparr>)"
proof -
  let ?us = "[\<lparr>vout = 3, txId = [97, 98, 0], amount = 150000000\<rparr>]"
  let ?h = "host_init\<lparr>numUTXOs := 1, currUTXOs := ?us\<rparr>"
  have v: "koinu_valid 150000000"
    by (simp add: koinu_valid_def UINT64_MAX_def UNDERFLOW_VALUE_def)
  have "printAllUTXOs env_zero ?h = Some (?h\<lparr>out := out ?h @ map (\<lambda>j. EvUTXO j [97, 98]
      (vout (?us ! j)) (koinu_text (amount (?us ! j))) (amount (?us ! j))) [0..<1]\<rparr>)"
    by (rule utxos_printed) (simp_all add: v env_zero_def)
  then show ?thesis by simp
qed

end
