(* ===== verification/RadioLink.thy ===== *)
theory RadioLink
  imports RadioModule HubReplies
begin


lemma host_packet_module: "length a = 3 \<Longrightarrow> length d = 3 \<Longrightarrow> length pl < 248 \<Longrightarrow>
    module.packet (host_packet a d pl) \<and> take 3 (drop 5 (host_packet a d pl)) = d"
  by (simp add: module.packet_def host_packet_def frame_def)

text \<open>C4:
  A message sent by one host reaches the other host unchanged. A message of less than 248 bytes that
  \<open>cmdSendMessage\<close> writes to the serial port is put on the air by the module as one packet; the module
  with the destination's address forwards that packet; and however it is cut into reads, the poll
  thread of the other host reports the sender, the destination and the message, and hands the
  message to \<open>processDogePayload\<close>.
\<close>

theorem message_end_to_end:
  assumes "fw_reach fa" "fw_reach fb" "wr_results p = []" "length a = 3" "length pl < 248"
    and "poll_ok s" "totalRxChars s = 0"
  shows "\<exists>wire pkt fa' fb'.
      cmdSendMessage a (addr_bytes (local_address fb)) pl (of_nat (length pl)) p
        = Some (p\<lparr>sent := sent p @ wire\<rparr>)
    \<and> host_sends wire fa = Some fa' \<and> sent_packets (radio fa') = sent_packets (radio fa) @ [pkt]
    \<and> OnRxDone pkt fb = Some fb' \<and> serial_out fb' = serial_out fb @ pkt
    \<and> (\<forall>e cs. carries e [pkt] [cs] \<longrightarrow> poll_run cs (h, s) = do {
          (db', h') \<leftarrow> processDogePayload e a (pl @ drop (length pl) (dataBuffer s)) (length pl)
             (emit (EvPacket a (addr_bytes (local_address fb)) pl) h);
          Some (h', s\<lparr>rxbuffer := pkt @ drop (length pl + 8) (rxbuffer s), totalRxChars := 0,
                      senderAddress := a, dataBuffer := db'\<rparr>)
        })"
proof -
  let ?d = "addr_bytes (local_address fb)" let ?pkt = "host_packet a ?d pl"
  let ?wire = "frame HOST_FORMED_PACKET ?pkt"
  have pkt: "module.packet ?pkt" "take 3 (drop 5 ?pkt) = ?d"
    using host_packet_module [of a ?d pl] assms(4,5) by auto
  have send: "cmdSendMessage a ?d pl (of_nat (length pl)) p = Some (p\<lparr>sent := sent p @ ?wire\<rparr>)"
    using cmdSendMessage_tx [of a ?d pl "of_nat (length pl)" p] assms(3-5)
    by (simp add: tx_message_def write_bytes_working)
  obtain fa' where fa: "host_sends ?wire fa = Some fa'"
    "sent_packets (radio fa') = sent_packets (radio fa) @ [?pkt]"
    using module.xmit_packets [OF fw_reach_ok [OF assms(1)], of HOST_FORMED_PACKET "[?pkt]"] pkt
    by auto
  obtain fb' where fb: "OnRxDone ?pkt fb = Some fb'" "serial_out fb' = serial_out fb @ ?pkt"
    using module.recv_packets [OF fw_reach_ok [OF assms(2)], of "[?pkt]"] pkt by auto
  have "poll_run cs (h, s) = do {
      (db', h') \<leftarrow> processDogePayload e a (pl @ drop (length pl) (dataBuffer s)) (length pl)
                   (emit (EvPacket a ?d pl) h);
      Some (h', s\<lparr>rxbuffer := ?pkt @ drop (length pl + 8) (rxbuffer s),
                  totalRxChars := 0, senderAddress := a, dataBuffer := db'\<rparr>)
    }" if "carries e [?pkt] [cs]" for e cs
    using host_packet_run [OF assms(6,7,4) _ _ that] assms(5) by simp
  with send fa fb show ?thesis by blast
qed

lemma message_end_to_end_witness:
  "\<exists>wire pkt fa' fb'.
      cmdSendMessage [10, 0, 2] (addr_bytes (local_address fw_init)) [1, 101] (of_nat (length [1, 101 :: u8]))
        (usb host_init) = Some ((usb host_init)\<lparr>sent := sent (usb host_init) @ wire\<rparr>)
    \<and> host_sends wire fw_init = Some fa'
    \<and> sent_packets (radio fa') = sent_packets (radio fw_init) @ [pkt]
    \<and> OnRxDone pkt fw_init = Some fb' \<and> serial_out fb' = serial_out fw_init @ pkt
    \<and> (\<forall>e cs. carries e [pkt] [cs] \<longrightarrow> poll_run cs (host_init, poll_init) = do {
          (db', h') \<leftarrow> processDogePayload e [10, 0, 2] ([1, 101] @ drop (length [1, 101 :: u8]) (dataBuffer poll_init))
             (length [1, 101 :: u8])
             (emit (EvPacket [10, 0, 2] (addr_bytes (local_address fw_init)) [1, 101]) host_init);
          Some (h', poll_init\<lparr>rxbuffer := pkt @ drop (length [1, 101 :: u8] + 8) (rxbuffer poll_init),
                      totalRxChars := 0, senderAddress := [10, 0, 2], dataBuffer := db'\<rparr>)
        })"
  by (rule message_end_to_end) (simp_all add: fw_reach.start poll_init_ok, simp add: poll_init_def)





text \<open>C34:
  A packet for another node does not reach the host and is not answered. A module that receives a packet of 8 to 255
  bytes, of whatever type, whose destination is neither its own address nor the broadcast address writes nothing to its
  host and calls nothing on the radio but sleep; a broadcast is forwarded to the host and not answered either. It asks for
  no ACK: a flag that was not set is not set afterwards, and if nothing else is pending the next turn of its main loop puts
  the radio back to receiving and sends nothing.
\<close>

theorem foreign_packet_ignored:
  assumes "fw_reach f" "8 \<le> length pkt" "length pkt < 256"
    and "take 3 (drop 5 pkt) \<noteq> addr_bytes (local_address f)"
  shows "\<exists>f'. OnRxDone pkt f = Some f' \<and> radio f' = radio f @ [RadioSleep]
    \<and> serial_out f' = serial_out f @ (if take 3 (drop 5 pkt) = broadcastAddress then pkt else [])
    \<and> serial_in f' = serial_in f \<and> needToSendACK f' = needToSendACK f \<and> isLoRaIdle f'
    \<and> (\<not> needToSendACK f \<and> serial_in f = [] \<longrightarrow>
         (\<exists>f''. CommandAndControlLoop [] f' = Some f'' \<and> radio f'' = radio f' @ [RadioRx] \<and> serial_out f'' = serial_out f'))"
proof -
  from OnRxDone_foreign [OF fw_reach_ok [OF assms(1)] assms(2) _ assms(4)] assms(3)
  obtain f' where f: "OnRxDone pkt f = Some f'" "serial_in f' = serial_in f" "needToSendACK f' = needToSendACK f" "isLoRaIdle f'"
    "radio f' = radio f @ [RadioSleep]"
    "serial_out f' = serial_out f @ (if take 3 (drop 5 pkt) = broadcastAddress then pkt else [])"
    by (auto simp: broadcastAddress_def)
  have "\<exists>f''. CommandAndControlLoop [] f' = Some f'' \<and> radio f'' = radio f' @ [RadioRx] \<and> serial_out f'' = serial_out f'"
    if "\<not> needToSendACK f" "serial_in f = []"
    using that f(2-4) by (simp add: CommandAndControlLoop_def Let_def arrived_def radio_call_def)
  with f show ?thesis by blast
qed

text \<open>A ping and a packet of a host, both for the node 10.0.1.\<close>

lemma foreign_packet_ignored_witness:
  "(\<exists>f' f''. OnRxDone [message_code PING, 6, 10, 0, 2, 10, 0, 1] fw_init = Some f' \<and> CommandAndControlLoop [] f' = Some f''
      \<and> radio f'' = radio fw_init @ [RadioSleep, RadioRx] \<and> serial_out f'' = serial_out fw_init)
    \<and> (\<exists>f'. OnRxDone [104, 6, 10, 0, 2, 10, 0, 1] fw_init = Some f'
      \<and> radio f' = radio fw_init @ [RadioSleep] \<and> serial_out f' = serial_out fw_init)"
proof -
  have i: "\<not> needToSendACK fw_init" "serial_in fw_init = []" "addr_bytes (local_address fw_init) \<noteq> [10, 0, 1]"
    by (simp_all add: fw_init_def addr_bytes_def Let_def)
  have a: "[10, 0, 1] \<noteq> addr_bytes (local_address fw_init)" "[10, 0, 1] \<noteq> broadcastAddress"
    using i(3) by (auto simp: broadcastAddress_def)
  show ?thesis
    using foreign_packet_ignored [OF fw_reach.start, of "[message_code PING, 6, 10, 0, 2, 10, 0, 1]"]
      foreign_packet_ignored [OF fw_reach.start, of "[104, 6, 10, 0, 2, 10, 0, 1]"] a i(1,2)
    by fastforce
qed

end
