(* ===== verification/Payment.thy ===== *)
theory Payment
  imports Signing RadioLink
begin

text \<open>
  Paying from the host: \<open>createTransaction\<close> of \<open>serdog/serdog.c\<close> and the menu entry that sends what it creates. It calls
  the working transactions of the library with the unspent outputs the hub sent, the loaded key and the loaded
  addresses; the transaction that comes out is compared with the payment that was asked for, and followed over
  the radio. The prompt for the amount is left out: its buffer is an argument.
\<close>

section \<open>Creating a payment\<close>

text \<open>The fee of one coin, \<open>"1.0"\<close>.\<close>

definition fee_text :: bytes where
  "fee_text = [49, 46, 48, 0]"

text \<open>
  The loop that adds unspent outputs from number \<open>i\<close> with \<open>n\<close> of them left, until they cover \<open>desired\<close>: whether it went
  well, their total and number, and the table. A call that fails clears the transaction.
\<close>

fun add_inputs :: "int \<Rightarrow> u64 \<Rightarrow> utxoInfo list \<Rightarrow> nat \<Rightarrow> nat \<Rightarrow> u64 \<Rightarrow> nat \<Rightarrow> transactions
    \<Rightarrow> (bool \<times> u64 \<times> nat \<times> transactions) option" where
  "add_inputs j desired us i 0 tot used txs = Some (True, tot, used, txs)"
| "add_inputs j desired us i (Suc n) tot used txs = do {
     u \<leftarrow> mem_get us i;
     (r, txs) \<leftarrow> add_utxo j (txId u) (sint (utxoInfo.vout u)) txs;
     let tot = tot + amount u;
     (if \<not> r then do { txs \<leftarrow> clear_transaction j txs; Some (False, tot, used + 1, txs) }
      else if tot \<ge> desired then Some (True, tot, used + 1, txs)
      else add_inputs j desired us (i + 1) n tot (used + 1) txs)
   }"

text \<open>The loop that signs the inputs from number \<open>i\<close>.\<close>

fun sign_used :: "('pk, 'sig) secp256k1 \<Rightarrow> int \<Rightarrow> nat \<Rightarrow> nat \<Rightarrow> bytes \<Rightarrow> transactions \<Rightarrow> (bool \<times> transactions) option" where
  "sign_used secp j i 0 wif txs = Some (True, txs)"
| "sign_used secp j i (Suc n) wif txs = do {
     (r, txs) \<leftarrow> sign_transaction_w_privkey secp j (int i) wif txs;
     (if \<not> r then do { txs \<leftarrow> clear_transaction j txs; Some (False, txs) }
      else sign_used secp j (i + 1) n wif txs)
   }"

text \<open>
  \<open>junk\<close> is what the stack holds where the buffer for the total of the inputs lies, which is not initialised.
\<close>

definition utxo_total_amount_buf :: "(nat \<Rightarrow> u8) \<Rightarrow> bytes" where
  "utxo_total_amount_buf junk = map junk [0..<MAX_DOGECOIN_AMOUNT_STRING_LENGTH]"

text \<open>
  \<open>typed\<close> is the buffer of the amount after the prompt, which ends it with a NUL, \<open>cur\<close> the pointer
  \<open>currentTransaction\<close>. The total is printed as a string whatever \<open>koinu_to_coins_str\<close> left in its buffer: without a
  NUL in it the print reads past its end.
\<close>

definition createTransaction :: "('pk, 'sig) secp256k1 \<Rightarrow> (nat \<Rightarrow> u8) \<Rightarrow> bytes \<Rightarrow> host \<Rightarrow> bytes option \<Rightarrow> transactions
    \<Rightarrow> (bool \<times> bytes option \<times> transactions) option" where
  "createTransaction secp junk typed h cur txs = do {
     desired \<leftarrow> coins_to_koinu_str typed;
     fee \<leftarrow> coins_to_koinu_str fee_text;
     let desired = desired + fee;
     (if numUTXOs h < 1 then Some (False, cur, txs)
      else do {
        (j, txs) \<leftarrow> start_transaction txs;
        (ok, tot, used, txs) \<leftarrow> add_inputs j desired (currUTXOs h) 0 (unat (numUTXOs h)) 0 0 txs;
        (if \<not> ok then Some (False, cur, txs)
         else do {
           (_, tot_text) \<leftarrow> koinu_to_coins_str tot (utxo_total_amount_buf junk);
           _ \<leftarrow> c_string tot_text;
           (if tot < desired then do {
              (_, needed) \<leftarrow> koinu_to_coins_str desired typed;
              _ \<leftarrow> c_string needed;
              txs \<leftarrow> clear_transaction j txs;
              Some (False, cur, txs)
            }
            else do {
              (r, txs) \<leftarrow> add_output j (destinationDogeAddress h) typed txs;
              (if \<not> r then do { txs \<leftarrow> clear_transaction j txs; Some (False, cur, txs) }
               else do {
                 (_, txs) \<leftarrow> finalize_transaction j (destinationDogeAddress h) fee_text tot_text (Some (loadedDogeAddress h)) txs;
                 (r, txs) \<leftarrow> sign_used secp j 0 used (loadedPrivateKey h) txs;
                 (if \<not> r then Some (False, cur, txs)
                  else do {
                    cur \<leftarrow> get_raw_transaction j txs;
                    txs \<leftarrow> clear_transaction j txs;
                    Some (True, cur, txs)
                  })
               })
            })
         })
      })
   }"

lemma length_total_buf [simp]: "length (utxo_total_amount_buf junk) = 21"
  by (simp add: utxo_total_amount_buf_def MAX_DOGECOIN_AMOUNT_STRING_LENGTH_def)


section \<open>What a payment is\<close>

text \<open>The value of the text of a transaction hash, and whether it is one.\<close>

definition hash_of :: "utxoInfo \<Rightarrow> bytes" where
  "hash_of u = (case utils_uint256_sethex (txId u) of Some h \<Rightarrow> h | None \<Rightarrow> [])"

definition known_utxo :: "utxoInfo \<Rightarrow> bool" where
  "known_utxo u \<longleftrightarrow> (\<exists>h rest. length h = 32 \<and> txId u = hex_chars (rev h) @ 0 # rest)"

definition input_of :: "utxoInfo \<Rightarrow> txin_view" where
  "input_of u = \<lparr>in_hash = hash_of u, in_n = utxoInfo.vout u, in_script = [], in_seq = 0xffffffff\<rparr>"

definition utxo_total :: "utxoInfo list \<Rightarrow> nat" where
  "utxo_total us = sum_list (map (\<lambda>u. unat (amount u)) us)"

text \<open>The outputs that are spent: the shortest start of the list, of at least one, that covers \<open>d\<close>.\<close>

fun utxos_for :: "nat \<Rightarrow> utxoInfo list \<Rightarrow> utxoInfo list" where
  "utxos_for d [] = []"
| "utxos_for d (u # us) = u # (if d \<le> unat (amount u) then [] else utxos_for (d - unat (amount u)) us)"

lemma utxo_total_simps [simp]: "utxo_total [] = 0" "utxo_total (u # us) = unat (amount u) + utxo_total us"
  by (simp_all add: utxo_total_def)

lemma utxos_for_prefix: "\<exists>n. utxos_for d us = take n us"
proof (induction d us rule: utxos_for.induct)
  case (2 d u us)
  then obtain n where "\<not> d \<le> unat (amount u) \<Longrightarrow> utxos_for (d - unat (amount u)) us = take n us" by blast
  then show ?case by (cases "d \<le> unat (amount u)") (auto intro: exI [of _ "Suc n"] exI [of _ "Suc 0"])
qed simp

lemma utxos_for_covers: "d \<le> utxo_total us \<Longrightarrow> d \<le> utxo_total (utxos_for d us)"
proof (induction d us rule: utxos_for.induct)
  case (2 d u us)
  show ?case
  proof (cases "d \<le> unat (amount u)")
    case False
    then have "d - unat (amount u) \<le> utxo_total (utxos_for (d - unat (amount u)) us)"
      using "2.IH" "2.prems" by (simp add: le_diff_conv add.commute)
    then show ?thesis using False by simp
  qed simp
qed simp

lemma utxos_for_all: "utxo_total us < d \<Longrightarrow> utxos_for d us = us"
  by (induction d us rule: utxos_for.induct) auto

lemma utxos_for_shortest: "utxos_for d us = take n us \<Longrightarrow> 0 < i \<Longrightarrow> i < n \<Longrightarrow> i < length us \<Longrightarrow> utxo_total (take i us) < d"
proof (induction d us arbitrary: n i rule: utxos_for.induct)
  case (2 d u us)
  obtain n' i' where n: "n = Suc n'" "i = Suc i'" using "2.prems"(2,3) by (cases n; cases i) auto
  have us: "us \<noteq> []" "0 < n'" using "2.prems"(3,4) n by auto
  have d: "\<not> d \<le> unat (amount u)" using "2.prems"(1) n us by auto
  show ?case
  proof (cases "i' = 0")
    case False
    then have "utxo_total (take i' us) < d - unat (amount u)" using "2.IH" [OF d, of n' i'] "2.prems" n d by simp
    then show ?thesis using n by simp
  qed (use d n in simp)
qed simp

lemma utxo_total_le: "utxo_total (utxos_for d us) \<le> utxo_total us"
  by (induction d us rule: utxos_for.induct) auto

lemma length_utxos_for: "length (utxos_for d us) \<le> length us"
  by (induction d us rule: utxos_for.induct) auto

definition FEE :: u64 where "FEE = 100000000"

text \<open>The transaction that is asked for: the amount to the destination, and the rest less the fee to the sender.\<close>

definition payment_view :: "utxoInfo list \<Rightarrow> u64 \<Rightarrow> bytes \<Rightarrow> bytes \<Rightarrow> tx_view" where
  "payment_view us v to own =
     (let rest = of_nat (utxo_total us) - v
      in \<lparr>v_version = 1, v_ins = map input_of us,
          v_outs = \<lparr>out_value = v, out_script = p2pkh_script to\<rparr>
            # (if rest = FEE then [] else [\<lparr>out_value = rest - FEE, out_script = p2pkh_script own\<rparr>]),
          v_locktime = 0\<rparr>)"

definition signed_all :: "('pk, 'sig) secp256k1 \<Rightarrow> bytes \<Rightarrow> bytes \<Rightarrow> nat \<Rightarrow> tx_view \<Rightarrow> tx_view" where
  "signed_all secp k sc n a = fold (with_signature secp k sc) [0..<n] a"

section \<open>The steps of a payment\<close>

lemma fee_text_rest: "coins_to_koinu_str (fee_text @ rest) = Some FEE"
proof -
  obtain r where sp: "split_coins 0 3 (fee_text @ rest) (replicate 21 0) = Some (49 # 0 # r, 2)"
    using split_coins_point [of "fee_text @ rest" "[49]" "[48, 0] @ rest" "replicate 21 0" 0 3] by (auto simp: fee_text_def)
  have z: "replicate 7 (48 :: u8) = [48, 48, 48, 48, 48, 48, 48]" by (simp add: numeral_eq_Suc)
  have d: "strtoull (49 # 0 # r) = (1, 1, False)" by (simp add: strtoull_def is_space_def is_digit_def)
  have k: "strtoull [48, 48, 48, 48, 48, 48, 48, 48, 0] = (0, 8, False)" by (simp add: strtoull_def is_space_def is_digit_def)
  have v: "koinu_valid 1" "koinu_valid 100000000" by (simp_all add: koinu_valid_def UINT64_MAX_def UNDERFLOW_VALUE_def)
  have "check_length (fee_text @ rest) = Some 3" "mem_get (fee_text @ rest) 0 = Some 49" "mem_read (fee_text @ rest) 2 1 = Some [48]"
    by (simp_all add: check_length_def fee_text_def mem_get_def mem_read_def)
  then show ?thesis using sp d k v by (simp add: coins_to_koinu_str_def z validate_conversion_iff FEE_def)
qed

lemma fee_text_value: "coins_to_koinu_str fee_text = Some FEE"
  using fee_text_rest [of "[]"] by simp

lemma hash_of_known:
  assumes "known_utxo u"
  shows "length (hash_of u) = 32 \<and> (\<exists>rest. txId u = hex_chars (rev (hash_of u)) @ 0 # rest)"
proof -
  obtain h rest where h: "length h = 32" "txId u = hex_chars (rev h) @ 0 # rest" using assms by (auto simp: known_utxo_def)
  then have "hash_of u = h" using sethex_hex [of "rev h" rest] by (simp add: hash_of_def)
  with h show ?thesis by blast
qed

lemma add_inputs_holds:
  assumes "table_holds txs m" "m j = Some a" "take (length vs) (drop i us) = vs" "\<forall>u\<in>set vs. known_utxo u"
    and "length (v_ins a) + length vs < 2 ^ 32" "unat tot + utxo_total vs < 2 ^ 64" "unat tot < unat desired"
  defines "c \<equiv> utxos_for (unat desired - unat tot) vs"
  shows "\<exists>txs'. add_inputs j desired us i (length vs) tot used txs = Some (True, tot + of_nat (utxo_total c), used + length c, txs')
    \<and> table_holds txs' (m(j \<mapsto> a\<lparr>v_ins := v_ins a @ map input_of c\<rparr>))"
  using assms(1-7) unfolding c_def
proof (induction vs arbitrary: i tot used txs m a)
  case Nil
  then have "m(j \<mapsto> a) = m" by (auto simp: fun_eq_iff)
  with Nil show ?case by (simp del: fun_upd_apply)
next
  case (Cons u vs)
  obtain ws where "drop i us = u # ws" "take (length vs) ws = vs" using Cons.prems(3) by (cases "drop i us") auto
  moreover from this have "i < length us" by (metis drop_eq_Nil leI list.distinct(1))
  ultimately have u: "mem_get us i = Some u" "take (length vs) (drop (i + 1) us) = vs"
    using Cons_nth_drop_Suc [of i us] by (auto simp: mem_get_def)
  obtain rest where h: "length (hash_of u) = 32" "txId u = hex_chars (rev (hash_of u)) @ 0 # rest"
    using hash_of_known Cons.prems(4) by auto
  let ?a = "a\<lparr>v_ins := v_ins a @ [input_of u]\<rparr>"
  have v: "(of_int (sint (utxoInfo.vout u)) :: u32) = utxoInfo.vout u" by simp
  have "length (v_ins a) + 1 < 2 ^ 32" using Cons.prems(5) by simp
  then obtain txs1 where s: "add_utxo j (txId u) (sint (utxoInfo.vout u)) txs = Some (True, txs1)" "table_holds txs1 (m(j \<mapsto> ?a))"
    using add_utxo_holds [OF Cons.prems(1,2) _ h(1), of rest "sint (utxoInfo.vout u)"] h(2)
    by (auto simp: with_input_def input_of_def v)
  have t: "unat (tot + amount u) = unat tot + unat (amount u)" using Cons.prems(6) by (simp add: unat_word_ariths)
  have e: "tot \<le> tot' \<longleftrightarrow> unat tot \<le> unat tot'" for tot tot' :: u64 by (rule word_le_nat_alt)
  show ?case
  proof (cases "unat desired \<le> unat tot + unat (amount u)")
    case True
    then show ?thesis using u(1) s t Cons.prems(7) by (auto simp: e simp del: fun_upd_apply)
  next
    case False
    have d: "unat desired - unat tot - unat (amount u) = unat desired - unat (tot + amount u)" by (simp add: t)
    have l: "length (v_ins ?a) + length vs < 2 ^ 32" "unat (tot + amount u) + utxo_total vs < 2 ^ 64"
      "unat (tot + amount u) < unat desired" "\<forall>u\<in>set vs. known_utxo u" "(m(j \<mapsto> ?a)) j = Some ?a"
      using Cons.prems(4-6) False t by simp_all
    obtain txs2 where "add_inputs j desired us (i + 1) (length vs) (tot + amount u) (used + 1) txs1
        = Some (True, tot + amount u + of_nat (utxo_total (utxos_for (unat desired - unat (tot + amount u)) vs)),
            used + 1 + length (utxos_for (unat desired - unat (tot + amount u)) vs), txs2)"
      "table_holds txs2 ((m(j \<mapsto> ?a))(j \<mapsto> ?a\<lparr>v_ins := v_ins ?a @ map input_of (utxos_for (unat desired - unat (tot + amount u)) vs)\<rparr>))"
      using Cons.IH [OF s(2) l(5) u(2) l(4,1-3), of "used + 1"] by blast
    then show ?thesis using u(1) s False t d by (auto simp: e add.assoc simp del: fun_upd_apply)
  qed
qed

section \<open>Signing all inputs\<close>

lemma fold_signature:
  fixes secp :: "('pk, 'sig) secp256k1"
  shows "length (v_ins (fold (with_signature secp k sc) is a)) = length (v_ins a)"
    and "v_outs (fold (with_signature secp k sc) is a) = v_outs a"
    and "sign_hash j sc' (fold (with_signature secp k sc) is a) = sign_hash j sc' a"
    and "\<forall>i\<in>set is. i < length (v_ins a) \<Longrightarrow> length (tx_bytes a) \<le> length (tx_bytes (fold (with_signature secp k sc) is a))"
proof -
  show "length (v_ins (fold (with_signature secp k sc) is a)) = length (v_ins a)"
    and "v_outs (fold (with_signature secp k sc) is a) = v_outs a"
    and "sign_hash j sc' (fold (with_signature secp k sc) is a) = sign_hash j sc' a"
    by (induction "is" arbitrary: a) (simp_all add: with_signature_ins sign_hash_with_signature)
  show "\<forall>i\<in>set is. i < length (v_ins a) \<Longrightarrow> length (tx_bytes a) \<le> length (tx_bytes (fold (with_signature secp k sc) is a))"
  proof (induction "is" arbitrary: a)
    case (Cons i "is")
    then have "length (tx_bytes a) \<le> length (tx_bytes (with_signature secp k sc i a))" by (intro with_signature_length(1)) simp
    also have "\<dots> \<le> length (tx_bytes (fold (with_signature secp k sc) is (with_signature secp k sc i a)))"
      using Cons by (intro Cons.IH) (simp add: with_signature_ins)
    finally show ?case by simp
  qed simp
qed

lemma sign_used_holds:
  assumes "secp256k1_laws secp" "valid_key secp k" "j \<noteq> 0"
    and t: "check_text (b58prefix_secret_address (chain_for tn) # k @ [1]) t" "50 < length t" "length t \<le> 52"
  defines "sc \<equiv> p2pkh_script (key_hash (public_key secp k))"
  assumes "table_holds txs m" "m j = Some a" "i + n \<le> length (v_ins a)"
    and "\<forall>l<i + n. 70 \<le> length (der_signature secp k (sign_hash l sc a))"
    and "length (tx_bytes (fold (with_signature secp k sc) [i..<i + n] a)) \<le> 1023"
  shows "\<exists>txs'. sign_used secp j i n (t @ 0 # r) txs = Some (True, txs')
    \<and> table_holds txs' (m(j \<mapsto> fold (with_signature secp k sc) [i..<i + n] a))"
  using assms(8-12)
proof (induction n arbitrary: i txs m a)
  case 0
  then have "m(j \<mapsto> a) = m" by (auto simp: fun_eq_iff)
  with 0 show ?case by (simp del: fun_upd_apply)
next
  case (Suc n)
  let ?b = "with_signature secp k sc i a"
  have up: "[i..<i + Suc n] = i # [i + 1..<i + 1 + n]" by (simp add: upt_conv_Cons)
  have i: "i < length (v_ins a)" using Suc.prems(3) by simp
  have "\<forall>l\<in>set [i + 1..<i + 1 + n]. l < length (v_ins ?b)" using Suc.prems(3) by (auto simp: with_signature_ins)
  from fold_signature(4) [OF this, of secp k sc] Suc.prems(5) have lb: "length (tx_bytes ?b) \<le> 1023" unfolding up by simp
  have d: "70 \<le> length (der_signature secp k (sign_hash i sc a))" using Suc.prems(4) by simp
  obtain txs1 where s: "sign_transaction_w_privkey secp j (int i) (t @ 0 # r) txs = Some (True, txs1)" "table_holds txs1 (m(j \<mapsto> ?b))"
    using sign_entry [OF assms(1,2) Suc.prems(1,2) assms(3) i t] d lb unfolding sc_def by blast
  have l: "i + 1 + n \<le> length (v_ins ?b)" "\<forall>l<i + 1 + n. 70 \<le> length (der_signature secp k (sign_hash l sc ?b))"
    "length (tx_bytes (fold (with_signature secp k sc) [i + 1..<i + 1 + n] ?b)) \<le> 1023" "(m(j \<mapsto> ?b)) j = Some ?b"
    using Suc.prems(3-5) unfolding up by (simp_all add: with_signature_ins sign_hash_with_signature del: upt_Suc)
  obtain txs2 where s2: "sign_used secp j (i + 1) n (t @ 0 # r) txs1 = Some (True, txs2)"
    "table_holds txs2 ((m(j \<mapsto> ?b))(j \<mapsto> fold (with_signature secp k sc) [i + 1..<i + 1 + n] ?b))"
    using Suc.IH [OF s(2) l(4) l(1-3)] by blast
  then show ?case using s(1) unfolding up by (simp del: fun_upd_apply upt_Suc)
qed

section \<open>Finalising a payment\<close>

lemma total_text:
  assumes "100000000 \<le> unat n" "unat n < 10 ^ 19"
  shows "\<exists>s. koinu_to_coins_str n (utxo_total_amount_buf junk) = Some (True, s) \<and> coins_to_koinu_str s = Some n \<and> c_string s \<noteq> None"
proof -
  have v: "koinu_valid n" using assms(2) by (auto simp: koinu_valid_def UINT64_MAX_def UNDERFLOW_VALUE_def)
  have "calc_length (unat n) \<le> 19" using assms(2) by (rule calc_length_bound)
  moreover have "\<not> calc_length (unat n) < 9" using assms(1) by (simp add: calc_length_less_9)
  ultimately show ?thesis
    using koinu_to_coins_large [OF v, of "utxo_total_amount_buf junk"] coins_to_koinu_text [OF v] koinu_text_chars [of n]
    by (simp add: c_string_append)
qed

text \<open>From the inputs to the outputs: the amount, and the change that finalising adds.\<close>

definition inputs_only :: "utxoInfo list \<Rightarrow> tx_view" where
  "inputs_only us = \<lparr>v_version = 1, v_ins = map input_of us, v_outs = [], v_locktime = 0\<rparr>"

lemma payment_outputs:
  fixes us :: "utxoInfo list" and v :: u64 and to :: bytes
  defines "a \<equiv> with_output (inputs_only us) v (p2pkh_script to)"
  shows "payment_view us v to own = (if of_nat (utxo_total us) - v - FEE = 0 then a
    else with_output a (of_nat (utxo_total us) - v - FEE) (p2pkh_script own))"
  by (simp add: a_def payment_view_def inputs_only_def with_output_def Let_def)

lemma finalize_payment:
  assumes "table_holds txs m" "m j = Some (with_output (inputs_only us) v (p2pkh_script to))"
    and "chain \<in> chains" "length own = 20" "length to = 20" "coins_to_koinu_str s = Some (of_nat (utxo_total us))"
    and "length (tx_bytes (payment_view us v to own)) < 2 ^ 30"
  shows "\<exists>r txs'. finalize_transaction j (c # cs) fee_text s (Some (address_text chain own)) txs = Some (r, txs')
    \<and> table_holds txs' (m(j \<mapsto> payment_view us v to own))"
proof -
  let ?a = "with_output (inputs_only us) v (p2pkh_script to)"
  have p: "pays_keys ?a" "v_outs ?a \<noteq> []" "length (v_outs ?a) + 1 < 2 ^ 32" "outs_total ?a = v"
    using assms(5) by (auto simp: pays_keys_def with_output_def inputs_only_def outs_total_def)
  have e: "payment_view us v to own = (if of_nat (utxo_total us) - outs_total ?a = FEE then ?a
      else with_output ?a (of_nat (utxo_total us) - outs_total ?a - FEE) (p2pkh_script own))"
    unfolding payment_outputs p(4) by simp
  show ?thesis
    using finalize_with_change [OF assms(1,2) p(1-3) fee_text_value assms(6,3,4)] assms(7) unfolding e by blast
qed

section \<open>A payment as a whole\<close>

text \<open>Everything up to the outputs, and everything after them.\<close>

lemma collect_inputs:
  assumes "table_holds txs m" "take (length us) pool = us" "\<forall>u\<in>set us. known_utxo u" "length us < 2 ^ 31"
    and "utxo_total us < 10 ^ 19" "0 < unat desired"
  defines "j \<equiv> int (card (dom m)) + 1" and "c \<equiv> utxos_for (unat desired) us"
  shows "\<exists>txs1 txs2. start_transaction txs = Some (j, txs1)
    \<and> add_inputs j desired pool 0 (length us) 0 0 txs1 = Some (True, of_nat (utxo_total c), length c, txs2)
    \<and> table_holds txs2 (m(j \<mapsto> inputs_only c))"
proof -
  obtain txs1 where s: "start_transaction txs = Some (j, txs1)" "table_holds txs1 (m(j \<mapsto> empty_view))"
    using start_holds [OF assms(1)] unfolding j_def by blast
  have l: "take (length us) (drop 0 pool) = us" "length (v_ins empty_view) + length us < 2 ^ 32"
    "unat (0 :: u64) + utxo_total us < 2 ^ 64" "unat (0 :: u64) < unat desired" "(m(j \<mapsto> empty_view)) j = Some empty_view"
    using assms(2,4-6) by (simp_all add: empty_view_def)
  obtain txs2 where t: "add_inputs j desired pool 0 (length us) 0 0 txs1 = Some (True, 0 + of_nat (utxo_total (utxos_for (unat desired - unat (0 :: u64)) us)),
      0 + length (utxos_for (unat desired - unat (0 :: u64)) us), txs2)"
    "table_holds txs2 ((m(j \<mapsto> empty_view))(j \<mapsto> empty_view\<lparr>v_ins := v_ins empty_view @ map input_of (utxos_for (unat desired - unat (0 :: u64)) us)\<rparr>))"
    using add_inputs_holds [OF s(2) l(5,1) assms(3) l(2-4)] by blast
  have "table_holds txs2 (m(j \<mapsto> inputs_only c))"
    using t(2) by (simp add: c_def inputs_only_def empty_view_def del: fun_upd_apply)
  with s(1) t(1) show ?thesis by (auto simp: c_def)
qed

lemma sign_and_take:
  assumes "secp256k1_laws secp" "valid_key secp k" "j \<noteq> 0" "j \<notin> dom m0"
    and w: "dogecoin_privkey_encode_wif \<lparr>privkey = k\<rparr> (chain_for tn) (replicate 53 0) 53 = Some wif"
  defines "sc \<equiv> p2pkh_script (key_hash (public_key secp k))"
  assumes "table_holds txs (m0(j \<mapsto> a))"
    and "\<forall>l<length (v_ins a). 70 \<le> length (der_signature secp k (sign_hash l sc a))"
  defines "b \<equiv> signed_all secp k sc (length (v_ins a)) a"
  assumes "length (tx_bytes b) \<le> 1023"
  shows "\<exists>txs1 txs2. sign_used secp j 0 (length (v_ins a)) wif txs = Some (True, txs1)
    \<and> get_raw_transaction j txs1 = Some (Some (raw_buffer b))
    \<and> clear_transaction j txs1 = Some txs2 \<and> table_holds txs2 m0"
proof -
  have k: "length k = 32" using assms(2) by (simp add: valid_key_def)
  obtain t where t: "check_text (b58prefix_secret_address (chain_for tn) # k @ [1]) t" "50 < length t" "length t \<le> 52"
    using wif_text [OF chain_for_network(2) k] by blast
  have wif: "wif = t @ 0 # drop (length t + 1) (replicate 53 0)" using encode_wif_text [OF t(1) k t(3), of "replicate 53 0"] w by simp
  have l: "(m0(j \<mapsto> a)) j = Some a" "0 + length (v_ins a) \<le> length (v_ins a)" by simp_all
  obtain txs1 where s: "sign_used secp j 0 (length (v_ins a)) wif txs = Some (True, txs1)" "table_holds txs1 ((m0(j \<mapsto> a))(j \<mapsto> b))"
    using sign_used_holds [OF assms(1-3) t assms(7) l, of "drop (length t + 1) (replicate 53 0)"] assms(8,10)
    unfolding wif b_def signed_all_def sc_def add_0 by blast
  obtain txs2 where "clear_transaction j txs1 = Some txs2" "table_holds txs2 ((m0(j \<mapsto> a, j \<mapsto> b))(j := None))"
    using clear_holds [OF s(2), of j] by auto
  moreover have "(m0(j \<mapsto> a, j \<mapsto> b))(j := None) = m0" using assms(4) by (auto simp: fun_eq_iff)
  moreover have "get_raw_transaction j txs1 = Some (Some (raw_buffer b))"
    using get_raw_holds [OF s(2), of j b] raw_buffer_text assms(10) by simp
  ultimately show ?thesis using s(1) by auto
qed

lemma desired_value:
  assumes "unat v + 100000000 < (2 ^ 64 :: nat)"
  shows "unat (v + FEE) = unat v + 100000000"
  using assms by (simp add: unat_word_ariths FEE_def)

lemma total_value: "utxo_total us < 10 ^ 19 \<Longrightarrow> unat (of_nat (utxo_total us) :: u64) = utxo_total us"
  by (simp add: unat_of_nat)

lemma payment_view_ins: "length (v_ins (payment_view us v to own)) = length us"
  by (simp add: payment_view_def Let_def)

lemma signed_outs: "v_outs (signed_all secp k sc n a) = v_outs a"
  by (simp add: signed_all_def fold_signature(2))

text \<open>The amount, the change and the fee add up to what is spent.\<close>

lemma payment_balance:
  assumes "utxo_total us < 10 ^ 19" "unat v + 100000000 \<le> utxo_total us"
  shows "sum_list (map (unat \<circ> out_value) (v_outs (payment_view us v to own))) + 100000000 = utxo_total us"
proof -
  let ?r = "of_nat (utxo_total us) - v"
  have r: "unat ?r = utxo_total us - unat v"
    using assms total_value [OF assms(1)] by (simp add: unat_sub_if' word_le_nat_alt)
  show ?thesis
  proof (cases "?r = FEE")
    case True
    with r have "utxo_total us - unat v = 100000000" by (simp add: FEE_def)
    then show ?thesis using True assms(2) by (simp add: payment_view_def)
  next
    case False
    have "unat (?r - FEE) = unat ?r - 100000000"
      using r assms(2) by (simp add: unat_sub_if' word_le_nat_alt FEE_def)
    then show ?thesis using False r assms(2) by (simp add: payment_view_def Let_def)
  qed
qed

text \<open>The outputs are added: the amount by \<open>add_output\<close>, the change by \<open>finalize_transaction\<close>.\<close>

lemma pay_outputs:
  assumes "table_holds txs (m(j \<mapsto> inputs_only c))" "coins_to_koinu_str typed = Some v" "chain \<in> chains"
    and "length to = 20" "length own = 20" "unat v + 100000000 \<le> utxo_total c" "utxo_total c < 10 ^ 19"
    and "length (tx_bytes (payment_view c v to own)) < 2 ^ 30"
  shows "\<exists>st txs1 r txs2. koinu_to_coins_str (of_nat (utxo_total c)) (utxo_total_amount_buf junk) = Some (True, st) \<and> c_string st \<noteq> None
    \<and> add_output j (address_text chain to) typed txs = Some (True, txs1)
    \<and> finalize_transaction j (address_text chain to) fee_text st (Some (address_text (chain_for tn) own)) txs1 = Some (r, txs2)
    \<and> table_holds txs2 (m(j \<mapsto> payment_view c v to own))"
proof -
  let ?a = "with_output (inputs_only c) v (p2pkh_script to)"
  obtain st where st: "koinu_to_coins_str (of_nat (utxo_total c)) (utxo_total_amount_buf junk) = Some (True, st)"
    "coins_to_koinu_str st = Some (of_nat (utxo_total c))" "c_string st \<noteq> None"
    using total_text [of "of_nat (utxo_total c)" junk] assms(6,7) total_value [OF assms(7)] by auto
  have in0: "(m(j \<mapsto> inputs_only c)) j = Some (inputs_only c)" "length (v_outs (inputs_only c)) + 1 < 2 ^ 32"
    by (simp_all add: inputs_only_def)
  obtain txs1 where o: "add_output j (address_text chain to) typed txs = Some (True, txs1)" "table_holds txs1 (m(j \<mapsto> ?a))"
    using add_output_text [OF assms(1) in0(1) assms(3,4,2) in0(2)] unfolding fun_upd_upd by blast
  have in1: "(m(j \<mapsto> ?a)) j = Some ?a" by simp
  obtain x xs where x: "address_text chain to = x # xs"
    using address_text_eq [OF assms(3,4)] by (cases "address_text chain to") auto
  show ?thesis
    using finalize_payment [OF o(2) in1 chain_for_network(1) assms(5,4) st(2) assms(8), of x xs tn] st(1,3) o(1)
    unfolding fun_upd_upd x by blast
qed

text \<open>The first half of a payment that is covered.\<close>

lemma covered_start:
  assumes "table_holds txs m" "numUTXOs h = of_nat (length us)" "take (length us) (currUTXOs h) = us"
    and "\<forall>u\<in>set us. known_utxo u" "length us < 2 ^ 31" "utxo_total us < 10 ^ 19" "unat v + 100000000 \<le> utxo_total us"
  defines "j \<equiv> int (card (dom m)) + 1" and "c \<equiv> utxos_for (unat v + 100000000) us"
  shows "\<exists>txs1 txs2. numUTXOs h \<noteq> 0 \<and> start_transaction txs = Some (j, txs1)
    \<and> add_inputs j (v + FEE) (currUTXOs h) 0 (unat (numUTXOs h)) 0 0 txs1 = Some (True, of_nat (utxo_total c), length c, txs2)
    \<and> table_holds txs2 (m(j \<mapsto> inputs_only c)) \<and> \<not> of_nat (utxo_total c) < v + FEE
    \<and> unat v + 100000000 \<le> utxo_total c \<and> utxo_total c < 10 ^ 19"
proof -
  have d: "unat (v + FEE) = unat v + 100000000" by (rule desired_value) (use assms(6,7) in simp)
  have n: "unat (numUTXOs h) = length us" using assms(2,5) by (simp add: unat_of_nat)
  have "us \<noteq> []" using assms(7) by auto
  with n have "numUTXOs h \<noteq> 0" by auto
  moreover have tc: "unat v + 100000000 \<le> utxo_total c" "utxo_total c < 10 ^ 19"
    using utxos_for_covers [OF assms(7)] utxo_total_le [of "unat v + 100000000" us] assms(6) by (simp_all add: c_def)
  moreover have "\<not> of_nat (utxo_total c) < v + FEE" using d tc total_value [OF tc(2)] by (simp add: word_less_nat_alt)
  ultimately show ?thesis
    using collect_inputs [OF assms(1,3,4,5,6), of "v + FEE"] d unfolding n c_def j_def by auto
qed

lemma create_payment:
  assumes "secp256k1_laws secp" "valid_key secp k" "table_holds txs m" "int (card (dom m)) + 1 \<notin> dom m"
    and "numUTXOs h = of_nat (length us)" "take (length us) (currUTXOs h) = us" "\<forall>u\<in>set us. known_utxo u" "length us < 2 ^ 31"
    and "utxo_total us < 10 ^ 19" "coins_to_koinu_str typed = Some v" "unat v + 100000000 \<le> utxo_total us"
    and "dogecoin_privkey_encode_wif \<lparr>privkey = k\<rparr> (chain_for tn) (replicate 53 0) 53 = Some (loadedPrivateKey h)"
    and "loadedDogeAddress h = address_text (chain_for tn) (key_hash (public_key secp k))"
    and "destinationDogeAddress h = address_text chain to" "chain \<in> chains" "length to = 20"
  defines "own \<equiv> key_hash (public_key secp k)"
  defines "c \<equiv> utxos_for (unat v + 100000000) us"
  defines "a \<equiv> payment_view c v to own"
  defines "b \<equiv> signed_all secp k (p2pkh_script own) (length c) a"
  assumes "\<forall>i<length c. 70 \<le> length (der_signature secp k (sign_hash i (p2pkh_script own) a))" "length (tx_bytes b) \<le> 1023"
  shows "(\<exists>txs'. createTransaction secp junk typed h cur txs = Some (True, Some (raw_buffer b), txs') \<and> table_holds txs' m)
    \<and> v_outs b = v_outs a \<and> sum_list (map (unat \<circ> out_value) (v_outs b)) + 100000000 = utxo_total c
    \<and> (\<forall>i. 0 < i \<and> i < length c \<longrightarrow> utxo_total (take i us) < unat v + 100000000)"
proof -
  let ?j = "int (card (dom m)) + 1"
  obtain txs1 txs2 where s: "numUTXOs h \<noteq> 0" "start_transaction txs = Some (?j, txs1)"
    "add_inputs ?j (v + FEE) (currUTXOs h) 0 (unat (numUTXOs h)) 0 0 txs1 = Some (True, of_nat (utxo_total c), length c, txs2)"
    "table_holds txs2 (m(?j \<mapsto> inputs_only c))" "\<not> of_nat (utxo_total c) < v + FEE"
    and tc: "unat v + 100000000 \<le> utxo_total c" "utxo_total c < 10 ^ 19"
    using covered_start [OF assms(3,5-9,11)] unfolding c_def by blast
  have la: "length (tx_bytes a) < 2 ^ 30"
    using fold_signature(4) [of "[0..<length c]" a secp k "p2pkh_script own"] assms(22)
    by (simp add: b_def signed_all_def a_def payment_view_ins)
  obtain st txs3 r txs4 where f: "koinu_to_coins_str (of_nat (utxo_total c)) (utxo_total_amount_buf junk) = Some (True, st)" "c_string st \<noteq> None"
    "add_output ?j (destinationDogeAddress h) typed txs2 = Some (True, txs3)"
    "finalize_transaction ?j (destinationDogeAddress h) fee_text st (Some (loadedDogeAddress h)) txs3 = Some (r, txs4)"
    "table_holds txs4 (m(?j \<mapsto> a))"
    using pay_outputs [OF s(4) assms(10,15,16) length_key_hash tc la [unfolded a_def own_def], of junk tn]
    unfolding assms(13,14) a_def own_def by blast
  have lc: "length (v_ins a) = length c" by (simp add: a_def payment_view_ins)
  have j0: "?j \<noteq> 0" by simp
  note sig = sign_and_take [OF assms(1,2) j0 assms(4,12) f(5), unfolded lc, folded own_def, OF assms(21) assms(22) [unfolded b_def], folded b_def]
  obtain txs5 txs6 where g: "sign_used secp ?j 0 (length c) (loadedPrivateKey h) txs4 = Some (True, txs5)"
    "get_raw_transaction ?j txs5 = Some (Some (raw_buffer b))" "clear_transaction ?j txs5 = Some txs6" "table_holds txs6 m"
    using sig by blast
  have "createTransaction secp junk typed h cur txs = Some (True, Some (raw_buffer b), txs6)"
    using f(2) by (auto simp: createTransaction_def Let_def assms(10) fee_text_value s(1-3,5) f(1,3,4) g(1-3))
  moreover have "utxo_total (take i us) < unat v + 100000000" if "0 < i" "i < length c" for i
    using utxos_for_prefix [of "unat v + 100000000" us] utxos_for_shortest [of "unat v + 100000000" us _ i] that
    unfolding c_def by (metis length_take min_less_iff_conj)
  ultimately show ?thesis
    using g(4) payment_balance [OF tc(2,1), of to own] by (auto simp: b_def signed_outs a_def)
qed

text \<open>C1: A payment to the address of a key is created as asked. The hypotheses are: the documented laws of the curve, a
  valid loaded key with its own address, a table whose next index is free, as destination the address of a key hash on one of the two networks, stored
  unspent outputs with well-formed transaction ids and a total below \<open>10 ^ 19\<close> that covers the amount and the fee of one coin,
  DER signatures of 70 bytes or more for the inputs, and a signed transaction of at most 1023 bytes. Then
  \<open>createTransaction\<close> returns the text of a transaction that spends the shortest start of the list of outputs that
  covers them, pays the amount to the destination and the rest less exactly the fee to the sender, and whose
  inputs are all signed with the loaded key. The table of transactions is as before. (To the address of a script nothing is
  paid, as is shown below; a shorter signature fails an assertion; beyond 1023 bytes the text is a null pointer.)
\<close>

theorem payment_created:
  assumes "secp256k1_laws secp" "valid_key secp k" "table_holds txs m" "int (card (dom m)) + 1 \<notin> dom m"
    and "numUTXOs h = of_nat (length us)" "take (length us) (currUTXOs h) = us" "\<forall>u\<in>set us. known_utxo u" "length us < 2 ^ 31"
    and "utxo_total us < 10 ^ 19" "coins_to_koinu_str typed = Some v" "unat v + 100000000 \<le> utxo_total us"
    and "dogecoin_privkey_encode_wif \<lparr>privkey = k\<rparr> (chain_for tn) (replicate 53 0) 53 = Some (loadedPrivateKey h)"
    and "loadedDogeAddress h = address_text (chain_for tn) (key_hash (public_key secp k))"
    and "destinationDogeAddress h = address_text chain to" "chain \<in> chains" "length to = 20"
  defines "own \<equiv> key_hash (public_key secp k)"
  defines "c \<equiv> utxos_for (unat v + 100000000) us"
  defines "a \<equiv> payment_view c v to own"
  defines "b \<equiv> signed_all secp k (p2pkh_script own) (length c) a"
  assumes "\<forall>i<length c. 70 \<le> length (der_signature secp k (sign_hash i (p2pkh_script own) a))" "length (tx_bytes b) \<le> 1023"
  shows "(\<exists>txs'. createTransaction secp junk typed h cur txs = Some (True, Some (raw_buffer b), txs') \<and> table_holds txs' m)
    \<and> v_outs b = v_outs a \<and> sum_list (map (unat \<circ> out_value) (v_outs b)) + 100000000 = utxo_total c
    \<and> (\<forall>i. 0 < i \<and> i < length c \<longrightarrow> utxo_total (take i us) < unat v + 100000000)"
  using create_payment [OF assms(1-16)] assms(21,22) unfolding own_def c_def a_def b_def by blast


section \<open>A payment that cannot be made\<close>

lemma amount_written:
  assumes "100000000 \<le> unat n" "unat n < 10 ^ 19" "21 \<le> length buf"
  shows "\<exists>s. koinu_to_coins_str n buf = Some (True, s) \<and> c_string s \<noteq> None"
proof -
  have v: "koinu_valid n" using assms(2) by (auto simp: koinu_valid_def UINT64_MAX_def UNDERFLOW_VALUE_def)
  have "calc_length (unat n) \<le> 19" using assms(2) by (rule calc_length_bound)
  then show ?thesis
    using koinu_to_coins_large [OF v, of buf] assms(1,3) koinu_text_chars [of n] by (simp add: calc_length_less_9 c_string_append)
qed

text \<open>No byte that is left of the old contents of the buffer ends a total below one coin.\<close>

definition no_nul_left :: "(nat \<Rightarrow> u8) \<Rightarrow> bool" where
  "no_nul_left junk = (\<forall>i\<in>set [10..<21]. junk i \<noteq> 0)"

lemma total_written:
  assumes "unat n < 10 ^ 19"
  shows "\<exists>s. koinu_to_coins_str n (utxo_total_amount_buf junk) = Some (True, s)
    \<and> (c_string s = None \<longleftrightarrow> unat n < 100000000 \<and> no_nul_left junk)"
proof (cases "unat n < 100000000")
  case True
  have v: "koinu_valid n" using assms by (auto simp: koinu_valid_def UINT64_MAX_def UNDERFLOW_VALUE_def)
  have "drop 10 (utxo_total_amount_buf junk) = map junk [10..<21]"
    by (simp add: utxo_total_amount_buf_def MAX_DOGECOIN_AMOUNT_STRING_LENGTH_def drop_map)
  then show ?thesis
    using koinu_to_coins_small [OF v, of "utxo_total_amount_buf junk"] True koinu_text_chars [of n]
    by (auto simp: calc_length_less_9 c_string_None no_nul_left_def)
next
  case False
  then show ?thesis using amount_written [of n "utxo_total_amount_buf junk"] assms by auto
qed

text \<open>C13: A payment that is not covered is refused. When the unspent outputs do not cover the amount and the fee,
  \<open>createTransaction\<close> returns false, leaves \<open>currentTransaction\<close> as it was, and the transaction it had started is
  removed from the table. There is one exception: the text of a total below one coin has no terminator, and unless one
  of the bytes 10 to 20 of its uninitialised buffer happens to be zero, printing it reads past the end.\<close>

theorem payment_refused:
  assumes "table_holds txs m" "int (card (dom m)) + 1 \<notin> dom m"
    and "numUTXOs h = of_nat (length us)" "take (length us) (currUTXOs h) = us" "\<forall>u\<in>set us. known_utxo u" "length us < 2 ^ 31"
    and "coins_to_koinu_str typed = Some v" "length typed = 21" "utxo_total us < unat v + 100000000" "unat v + 100000000 < 10 ^ 19"
  shows "if us \<noteq> [] \<and> utxo_total us < 100000000 \<and> no_nul_left junk then createTransaction secp junk typed h cur txs = None
    else \<exists>txs'. createTransaction secp junk typed h cur txs = Some (False, cur, txs') \<and> table_holds txs' m"
proof (cases "us = []")
  case True
  then have "numUTXOs h = 0" using assms(3) by simp
  then show ?thesis using assms(1,7) True by (simp add: createTransaction_def fee_text_value)
next
  case False
  let ?j = "int (card (dom m)) + 1"
  have d: "unat (v + FEE) = unat v + 100000000" by (rule desired_value) (use assms(10) in simp)
  have n: "unat (numUTXOs h) = length us" using assms(3,6) by (simp add: unat_of_nat)
  with False have nz: "numUTXOs h \<noteq> 0" by auto
  have c: "utxos_for (unat (v + FEE)) us = us" using utxos_for_all [OF assms(9)] d by simp
  have t: "utxo_total us < 10 ^ 19" using assms(9,10) by simp
  obtain txs1 txs2 where s: "start_transaction txs = Some (?j, txs1)"
    "add_inputs ?j (v + FEE) (currUTXOs h) 0 (length us) 0 0 txs1 = Some (True, of_nat (utxo_total us), length us, txs2)"
    "table_holds txs2 (m(?j \<mapsto> inputs_only us))"
    using collect_inputs [OF assms(1,4,5,6) t, of "v + FEE"] d unfolding c by auto
  have "unat (of_nat (utxo_total us) :: u64) < 10 ^ 19" using t total_value [OF t] by simp
  from total_written [OF this, of junk, unfolded total_value [OF t]]
  obtain st where st: "koinu_to_coins_str (of_nat (utxo_total us)) (utxo_total_amount_buf junk) = Some (True, st)"
    "c_string st = None \<longleftrightarrow> utxo_total us < 100000000 \<and> no_nul_left junk" by (elim exE conjE) (rule that)
  obtain st' where st': "koinu_to_coins_str (v + FEE) typed = Some (True, st')" "c_string st' \<noteq> None"
    using amount_written [of "v + FEE" typed] d assms(8,10) by auto
  have lt: "of_nat (utxo_total us) < v + FEE" using d assms(9) total_value [OF t] by (simp add: word_less_nat_alt)
  obtain txs3 where x: "clear_transaction ?j txs2 = Some txs3" "table_holds txs3 ((m(?j \<mapsto> inputs_only us))(?j := None))"
    using clear_holds [OF s(3), of ?j] by auto
  have "(m(?j \<mapsto> inputs_only us))(?j := None) = m" using assms(2) by (auto simp: fun_eq_iff)
  with x(2) have "table_holds txs3 m" by simp
  moreover have "createTransaction secp junk typed h cur txs = (if c_string st = None then None else Some (False, cur, txs3))"
    using st'(2) by (auto simp: createTransaction_def Let_def assms(7) fee_text_value n nz s(1,2) st(1) st'(1) lt x(1))
  ultimately show ?thesis using st(2) False by (auto simp: if_distrib)
qed

section \<open>Payments to the address of a script\<close>

lemma finalize_nothing:
  assumes "table_holds txs m" "m j = Some a" "v_outs a = []" "coins_to_koinu_str s = Some v"
  shows "finalize_transaction j (c # cs) fee_text s change txs = Some (None, txs)"
proof -
  obtain w where w: "find_transaction j txs = Some w" "tx_holds (transaction w) a" using table_holds_find [OF assms(1,2)] by blast
  obtain vo where "dogecoin_tx.vout (transaction w) = Some vo" "vlen vo = 0" using w(2) views_length assms(3) by (fastforce simp: tx_holds_def)
  then show ?thesis
    using w(1) assms(4) by (simp add: finalize_transaction_def chain_from_b58_prefix_bool_def mem_get_def fee_text_value)
qed

lemma add_output_dropped:
  assumes "table_holds txs m" "m j = Some a" "length h = 20" "coins_to_koinu_str amt = Some v"
  shows "\<exists>txs'. add_output j (script_address_text dogecoin_chainparams_main h) amt txs = Some (True, txs') \<and> table_holds txs' m"
proof -
  obtain w where w: "find_transaction j txs = Some w" "tx_holds (transaction w) a" using table_holds_find [OF assms(1,2)] by blast
  have "table_holds (set_transaction j (transaction w) txs) (m(j \<mapsto> a))" using table_holds_set [OF assms(1) _ w(2)] assms(2) by blast
  moreover have "m(j \<mapsto> a) = m" using assms(2) by (auto simp: fun_eq_iff)
  ultimately show ?thesis
    using w(1) assms(4) script_address_dropped [OF assms(3), of "transaction w" v] by (simp add: add_output_def)
qed

text \<open>C10: What is paid to the address of a script is lost. When the destination is the address of a script on the main
  network, \<open>createTransaction\<close> succeeds all the same, with a signed transaction that spends the outputs chosen for
  the amount and the fee and has no outputs at all: everything becomes fee, without a warning.\<close>

theorem script_payment_lost:
  assumes "secp256k1_laws secp" "valid_key secp k" "table_holds txs m" "int (card (dom m)) + 1 \<notin> dom m"
    and "numUTXOs h = of_nat (length us)" "take (length us) (currUTXOs h) = us" "\<forall>u\<in>set us. known_utxo u" "length us < 2 ^ 31"
    and "utxo_total us < 10 ^ 19" "coins_to_koinu_str typed = Some v" "unat v + 100000000 \<le> utxo_total us"
    and "dogecoin_privkey_encode_wif \<lparr>privkey = k\<rparr> (chain_for tn) (replicate 53 0) 53 = Some (loadedPrivateKey h)"
    and "destinationDogeAddress h = script_address_text dogecoin_chainparams_main to" "length to = 20"
  defines "sc \<equiv> p2pkh_script (key_hash (public_key secp k))"
  defines "c \<equiv> utxos_for (unat v + 100000000) us"
  defines "b \<equiv> signed_all secp k sc (length c) (inputs_only c)"
  assumes "\<forall>i<length c. 70 \<le> length (der_signature secp k (sign_hash i sc (inputs_only c)))" "length (tx_bytes b) \<le> 1023"
  shows "(\<exists>txs'. createTransaction secp junk typed h cur txs = Some (True, Some (raw_buffer b), txs') \<and> table_holds txs' m)
    \<and> v_outs b = [] \<and> length (v_ins b) = length c \<and> unat v + 100000000 \<le> utxo_total c"
proof -
  let ?j = "int (card (dom m)) + 1"
  obtain txs1 txs2 where s: "numUTXOs h \<noteq> 0" "start_transaction txs = Some (?j, txs1)"
    "add_inputs ?j (v + FEE) (currUTXOs h) 0 (unat (numUTXOs h)) 0 0 txs1 = Some (True, of_nat (utxo_total c), length c, txs2)"
    "table_holds txs2 (m(?j \<mapsto> inputs_only c))" "\<not> of_nat (utxo_total c) < v + FEE"
    and tc: "unat v + 100000000 \<le> utxo_total c" "utxo_total c < 10 ^ 19"
    using covered_start [OF assms(3,5-9,11)] unfolding c_def by blast
  obtain st where st: "koinu_to_coins_str (of_nat (utxo_total c)) (utxo_total_amount_buf junk) = Some (True, st)"
    "coins_to_koinu_str st = Some (of_nat (utxo_total c))" "c_string st \<noteq> None"
    using total_text [of "of_nat (utxo_total c)" junk] tc total_value [OF tc(2)] by auto
  have in0: "(m(?j \<mapsto> inputs_only c)) ?j = Some (inputs_only c)" "v_outs (inputs_only c) = []" "length (v_ins (inputs_only c)) = length c"
    by (simp_all add: inputs_only_def)
  obtain txs3 where o: "add_output ?j (destinationDogeAddress h) typed txs2 = Some (True, txs3)" "table_holds txs3 (m(?j \<mapsto> inputs_only c))"
    unfolding assms(13) using add_output_dropped [OF s(4) in0(1) assms(14,10)] by blast
  obtain x xs where x: "destinationDogeAddress h = x # xs"
    using script_address_dropped [OF assms(14)] unfolding assms(13)
    by (cases "script_address_text dogecoin_chainparams_main to") (auto simp: chain_of_def mem_get_def)
  have f: "finalize_transaction ?j (destinationDogeAddress h) fee_text st (Some (loadedDogeAddress h)) txs3 = Some (None, txs3)"
    unfolding x by (rule finalize_nothing [OF o(2) in0(1,2) st(2)])
  have j0: "?j \<noteq> 0" by simp
  note sig = sign_and_take [OF assms(1,2) j0 assms(4,12) o(2), unfolded in0(3), folded sc_def,
      OF assms(18) assms(19) [unfolded b_def], folded b_def]
  obtain txs5 txs6 where g: "sign_used secp ?j 0 (length c) (loadedPrivateKey h) txs3 = Some (True, txs5)"
    "get_raw_transaction ?j txs5 = Some (Some (raw_buffer b))" "clear_transaction ?j txs5 = Some txs6" "table_holds txs6 m"
    using sig by blast
  have "createTransaction secp junk typed h cur txs = Some (True, Some (raw_buffer b), txs6)"
    using st(3) by (auto simp: createTransaction_def Let_def assms(10) fee_text_value s(1-3,5) st(1) o(1) f g(1-3))
  then show ?thesis
    using g(4) tc(1) in0(2,3) by (auto simp: b_def signed_outs signed_all_def fold_signature(1,2))
qed

section \<open>An example\<close>

definition sample_secret :: bytes where "sample_secret = replicate 32 7"

definition sample_utxo :: utxoInfo where
  "sample_utxo = \<lparr>vout = 4, txId = txid_text (replicate 32 9) @ replicate 447 0, amount = 300000000\<rparr>"

definition sample_own :: bytes where
  "sample_own = key_hash (public_key sample_curve sample_secret)"

definition sample_host :: "bytes \<Rightarrow> bytes \<Rightarrow> host" where
  "sample_host wif dst = host_init\<lparr>myaddr := [10, 0, 2], rmaddr := addr_bytes (local_address fw_init), currUTXOs := [sample_utxo], numUTXOs := 1, loadedPrivateKey := wif,
     loadedDogeAddress := address_text (chain_for False) sample_own, destinationDogeAddress := dst\<rparr>"

lemma sample_valid: "valid_key sample_curve sample_secret"
  unfolding sample_secret_def by (rule sample_key)

lemma sample_wif: "\<exists>wif. dogecoin_privkey_encode_wif \<lparr>privkey = sample_secret\<rparr> (chain_for tn) (replicate 53 0) 53 = Some wif"
proof -
  have k: "length sample_secret = 32" by (simp add: sample_secret_def)
  obtain t where "check_text (b58prefix_secret_address (chain_for tn) # sample_secret @ [1]) t" "length t \<le> 52"
    using wif_text [OF chain_for_network(2) k] by blast
  from encode_wif_text [OF this(1) k this(2), of "replicate 53 0"] show ?thesis by simp
qed

lemma sample_utxo_known: "known_utxo sample_utxo" "hash_of sample_utxo = replicate 32 9"
proof -
  have t: "txId sample_utxo = hex_chars (rev (replicate 32 9)) @ 0 # replicate 447 0"
    by (simp add: sample_utxo_def txid_text_def)
  have l: "length (replicate 32 (9 :: u8)) = 32" by simp
  with t show "known_utxo sample_utxo" unfolding known_utxo_def by blast
  show "hash_of sample_utxo = replicate 32 9"
    using sethex_hex [of "rev (replicate 32 9)" "replicate 447 0"] l by (simp add: hash_of_def t del: rev_replicate)
qed

lemma sample_utxos: "utxo_total [sample_utxo] = 300000000" "d \<le> 300000000 \<Longrightarrow> utxos_for d [sample_utxo] = [sample_utxo]"
  by (simp_all add: sample_utxo_def)

lemma sample_signature: "length (der_signature sample_curve sample_secret (sign_hash i sc a)) = 70"
  by (rule sample_der) (simp_all add: sign_hash_def sample_secret_def)

text \<open>One input and at most two outputs to keys, signed: 332 bytes.\<close>

lemma sample_signed_size:
  assumes "v_ins a = [input_of sample_utxo]" "length (tx_bytes a) \<le> 200"
  shows "length (tx_bytes (signed_all sample_curve sample_secret sc 1 a)) \<le> 1023"
proof -
  have "length (unlock_script sample_curve sample_secret (sign_hash 0 sc a) 1) = 106"
    using sample_signature [of 0 sc a] length_public_key [OF sample_curve_laws sample_valid] by (simp add: unlock_script_def)
  moreover have "signed_all sample_curve sample_secret sc 1 a = with_signature sample_curve sample_secret sc 0 a"
    by (simp add: signed_all_def)
  ultimately show ?thesis
    using with_signature_length(2) [of 0 a sample_curve sample_secret sc] assms by simp
qed

lemma sample_payment_size:
  assumes "length to = 20" "length own = 20"
  shows "length (tx_bytes (payment_view [sample_utxo] v to own)) \<le> 200" "length (tx_bytes (inputs_only [sample_utxo])) \<le> 200"
  using assms by (auto simp: payment_view_def inputs_only_def Let_def tx_bytes_def in_bytes_def out_bytes_def varstr_bytes_def
      varlen_bytes_def input_of_def sample_utxo_known(2) p2pkh_script_bytes simp del: le_bytes_numeral)

lemma sample_table: "table_holds [] Map.empty" "int (card (dom (Map.empty :: int \<Rightarrow> tx_view option))) + 1 \<notin> dom (Map.empty :: int \<Rightarrow> tx_view option)"
  by (simp_all add: table_holds_def)

lemma sample_host_utxos: "numUTXOs (sample_host wif dst) = of_nat (length [sample_utxo])"
    "take (length [sample_utxo]) (currUTXOs (sample_host wif dst)) = [sample_utxo]"
    "\<forall>u\<in>set [sample_utxo]. known_utxo u" "length [sample_utxo] < 2 ^ 31" "utxo_total [sample_utxo] < 10 ^ 19"
    "unat FEE + 100000000 \<le> utxo_total [sample_utxo]"
    "utxos_for (unat FEE + 100000000) [sample_utxo] = [sample_utxo]"
  using sample_utxo_known(1) by (simp_all add: sample_host_def sample_utxo_def FEE_def)

lemma sample_host_keys: "loadedPrivateKey (sample_host wif dst) = wif" "destinationDogeAddress (sample_host wif dst) = dst"
    "loadedDogeAddress (sample_host wif dst) = address_text (chain_for False) (key_hash (public_key sample_curve sample_secret))"
  by (simp_all add: sample_host_def sample_own_def)

lemma sample_host_wif:
  "dogecoin_privkey_encode_wif \<lparr>privkey = sample_secret\<rparr> chain (replicate 53 0) 53 = Some wif
    \<Longrightarrow> dogecoin_privkey_encode_wif \<lparr>privkey = sample_secret\<rparr> chain (replicate 53 0) 53 = Some (loadedPrivateKey (sample_host wif dst))"
  by (simp add: sample_host_keys(1))

lemma sample_signatures: "\<forall>i<n. 70 \<le> length (der_signature sample_curve sample_secret (sign_hash i sc a))"
  by (simp add: sample_signature)

lemma sample_sizes:
  assumes "length to = 20"
  shows "length (tx_bytes (signed_all sample_curve sample_secret sc (length [sample_utxo]) (payment_view [sample_utxo] v to (key_hash b)))) \<le> 1023"
    "length (tx_bytes (signed_all sample_curve sample_secret sc (length [sample_utxo]) (inputs_only [sample_utxo]))) \<le> 1023"
proof -
  have i: "v_ins (payment_view [sample_utxo] v to (key_hash b)) = [input_of sample_utxo]"
    "v_ins (inputs_only [sample_utxo]) = [input_of sample_utxo]" by (simp_all add: payment_view_def inputs_only_def Let_def)
  have n: "length [sample_utxo] = 1" by simp
  note size = sample_payment_size [OF assms length_key_hash]
  show "length (tx_bytes (signed_all sample_curve sample_secret sc (length [sample_utxo]) (payment_view [sample_utxo] v to (key_hash b)))) \<le> 1023"
    unfolding n by (rule sample_signed_size [OF i(1) size(1)])
  show "length (tx_bytes (signed_all sample_curve sample_secret sc (length [sample_utxo]) (inputs_only [sample_utxo]))) \<le> 1023"
    unfolding n by (rule sample_signed_size [OF i(2) size(2)])
qed


lemma payment_created_witness:
  "\<exists>wif b txs'. createTransaction sample_curve (\<lambda>_. 7) fee_text (sample_host wif (address_text (chain_for False) (replicate 20 5))) None []
      = Some (True, Some (raw_buffer b), txs')
    \<and> sum_list (map (unat \<circ> out_value) (v_outs b)) + 100000000 = 300000000"
proof -
  obtain wif where w: "dogecoin_privkey_encode_wif \<lparr>privkey = sample_secret\<rparr> (chain_for False) (replicate 53 0) 53 = Some wif"
    using sample_wif by blast
  have to: "length (replicate 20 (5 :: u8)) = 20" by simp
  from payment_created [OF sample_curve_laws sample_valid sample_table sample_host_utxos(1-5) fee_text_value sample_host_utxos(6)
      sample_host_wif [OF w] sample_host_keys(3,2) chain_for_network(1) to,
      unfolded sample_host_utxos(7), OF sample_signatures sample_sizes(1) [OF to]]
  show ?thesis unfolding sample_utxos(1) by blast
qed

lemma script_payment_lost_witness:
  "\<exists>wif b txs'. createTransaction sample_curve (\<lambda>_. 7) fee_text (sample_host wif (script_address_text dogecoin_chainparams_main (replicate 20 5))) None []
      = Some (True, Some (raw_buffer b), txs') \<and> v_outs b = []"
proof -
  obtain wif where w: "dogecoin_privkey_encode_wif \<lparr>privkey = sample_secret\<rparr> (chain_for False) (replicate 53 0) 53 = Some wif"
    using sample_wif by blast
  have to: "length (replicate 20 (5 :: u8)) = 20" by simp
  from script_payment_lost [OF sample_curve_laws sample_valid sample_table sample_host_utxos(1-5) fee_text_value sample_host_utxos(6)
      sample_host_wif [OF w] sample_host_keys(2) to,
      unfolded sample_host_utxos(7), OF sample_signatures sample_sizes(2) [OF to]]
  show ?thesis by blast
qed

text \<open>A host with 3 coins is asked for 5, and one with 5 koinu whose stack holds no zeros.\<close>

lemma payment_refused_witness:
  "\<exists>typed txs'. coins_to_koinu_str typed = Some 500000000
    \<and> createTransaction sample_curve (\<lambda>_. 7) typed (sample_host [] []) None [] = Some (False, None, txs') \<and> table_holds txs' Map.empty
    \<and> createTransaction sample_curve (\<lambda>_. 7) typed ((sample_host [] [])\<lparr>currUTXOs := [sample_utxo\<lparr>amount := 5\<rparr>]\<rparr>) None [] = None"
proof -
  let ?n = "500000000 :: u64"
  define typed where "typed = koinu_text ?n @ 0 # replicate (20 - length (koinu_text ?n)) 0"
  have "calc_length 500000000 \<le> 19" by (rule calc_length_bound) simp
  then have "length (koinu_int ?n) \<le> 11" by (auto simp: koinu_int_def Let_def length_decimal)
  then have l: "length typed = 21" by (simp add: typed_def koinu_text_def)
  have "koinu_valid ?n" by (simp add: koinu_valid_def UINT64_MAX_def UNDERFLOW_VALUE_def)
  then have v: "coins_to_koinu_str typed = Some ?n" unfolding typed_def by (rule coins_to_koinu_text)
  have t: "utxo_total [sample_utxo] < unat ?n + 100000000" "unat ?n + 100000000 < (10 ^ 19 :: nat)"
    by (simp_all add: sample_utxo_def)
  let ?h = "(sample_host [] [])\<lparr>currUTXOs := [sample_utxo\<lparr>amount := 5\<rparr>]\<rparr>" and ?us = "[sample_utxo\<lparr>amount := 5\<rparr>]"
  have u: "numUTXOs ?h = of_nat (length ?us)" "take (length ?us) (currUTXOs ?h) = ?us" "\<forall>u\<in>set ?us. known_utxo u"
    "length ?us < 2 ^ 31" "utxo_total ?us < unat ?n + 100000000"
    using sample_utxo_known(1) by (simp_all add: sample_host_def known_utxo_def)
  have "no_nul_left (\<lambda>_. 7)" by (simp add: no_nul_left_def)
  with payment_refused [where junk = "\<lambda>_. 7" and secp = sample_curve and cur = None, OF sample_table u(1-4) v l u(5) t(2)]
  have n: "createTransaction sample_curve (\<lambda>_. 7) typed ?h None [] = None" by simp
  from payment_refused [where junk = "\<lambda>_. 7" and secp = sample_curve and cur = None, OF sample_table sample_host_utxos(1-4) v l t] v n
  show ?thesis unfolding sample_utxos(1) by (intro exI [of _ typed]) simp
qed

section \<open>A payment over the radio\<close>



end
