(* ===== verification/Hmac.thy ===== *)
theory Hmac
  imports Sha2
begin

text \<open>
  The keyed hashes of \<open>src/sha2.c\<close>: HMAC with SHA-256 and SHA-512, in one call and in pieces, and
  PBKDF2 with each. Results \<open>None\<close> are accesses outside an object. The proofs use a hash only through
  the interface \<open>stream_hash\<close>.
\<close>

section \<open>HMAC\<close>

definition xor_all :: "u8 \<Rightarrow> bytes \<Rightarrow> bytes" where
  "xor_all c = map (\<lambda>b. b XOR c)"

record hmac_sha256_context =
  h256_o_key_pad :: bytes
  h256_ctx :: sha256_context

record hmac_sha512_context =
  h512_o_key_pad :: bytes
  h512_ctx :: sha512_context

definition hmac_sha256_init :: "bytes \<Rightarrow> hmac_sha256_context option" where
  "hmac_sha256_init key = do {
     let i_key_pad = replicate SHA256_BLOCK_LENGTH 0;
     i_key_pad \<leftarrow> (if length key > SHA256_BLOCK_LENGTH then sha256_raw key i_key_pad
                   else mem_write i_key_pad 0 key);
     let o_key_pad = xor_all 0x5c i_key_pad;
     let i_key_pad = xor_all 0x36 i_key_pad;
     ctx \<leftarrow> sha256_write sha256_init i_key_pad;
     Some \<lparr>h256_o_key_pad = o_key_pad, h256_ctx = ctx\<rparr>
   }"

definition hmac_sha256_write :: "hmac_sha256_context \<Rightarrow> bytes \<Rightarrow> hmac_sha256_context option" where
  "hmac_sha256_write hctx msg = do {
     ctx \<leftarrow> sha256_write (h256_ctx hctx) msg;
     Some (hctx\<lparr>h256_ctx := ctx\<rparr>)
   }"

definition hmac_sha256_finalize :: "hmac_sha256_context \<Rightarrow> bytes \<Rightarrow> bytes option" where
  "hmac_sha256_finalize hctx hmac = do {
     (hash, _) \<leftarrow> sha256_finalize (h256_ctx hctx) (Some (replicate SHA256_DIGEST_LENGTH 0));
     hash \<leftarrow> hash;
     ctx \<leftarrow> sha256_write sha256_init (h256_o_key_pad hctx);
     ctx \<leftarrow> sha256_write ctx hash;
     (hmac, _) \<leftarrow> sha256_finalize ctx (Some hmac);
     hmac
   }"

definition hmac_sha256 :: "bytes \<Rightarrow> bytes \<Rightarrow> bytes \<Rightarrow> bytes option" where
  "hmac_sha256 key msg hmac = do {
     let buf = replicate SHA256_BLOCK_LENGTH 0;
     buf \<leftarrow> (if length key > SHA256_BLOCK_LENGTH then sha256_raw key buf else mem_write buf 0 key);
     let o_key_pad = xor_all 0x5c buf;
     let i_key_pad = xor_all 0x36 buf;
     ctx \<leftarrow> sha256_write sha256_init i_key_pad;
     ctx \<leftarrow> sha256_write ctx msg;
     (buf, _) \<leftarrow> sha256_finalize ctx (Some buf);
     buf \<leftarrow> buf;
     ctx \<leftarrow> sha256_write sha256_init o_key_pad;
     ctx \<leftarrow> sha256_write ctx (take SHA256_DIGEST_LENGTH buf);
     (hmac, _) \<leftarrow> sha256_finalize ctx (Some hmac);
     hmac
   }"

definition hmac_sha512_init :: "bytes \<Rightarrow> hmac_sha512_context option" where
  "hmac_sha512_init key = do {
     let i_key_pad = replicate SHA512_BLOCK_LENGTH 0;
     i_key_pad \<leftarrow> (if length key > SHA512_BLOCK_LENGTH then sha512_raw key i_key_pad
                   else mem_write i_key_pad 0 key);
     let o_key_pad = xor_all 0x5c i_key_pad;
     let i_key_pad = xor_all 0x36 i_key_pad;
     ctx \<leftarrow> sha512_write sha512_init i_key_pad;
     Some \<lparr>h512_o_key_pad = o_key_pad, h512_ctx = ctx\<rparr>
   }"

definition hmac_sha512_write :: "hmac_sha512_context \<Rightarrow> bytes \<Rightarrow> hmac_sha512_context option" where
  "hmac_sha512_write hctx msg = do {
     ctx \<leftarrow> sha512_write (h512_ctx hctx) msg;
     Some (hctx\<lparr>h512_ctx := ctx\<rparr>)
   }"

definition hmac_sha512_finalize :: "hmac_sha512_context \<Rightarrow> bytes \<Rightarrow> bytes option" where
  "hmac_sha512_finalize hctx hmac = do {
     (hash, _) \<leftarrow> sha512_finalize (h512_ctx hctx) (Some (replicate SHA512_DIGEST_LENGTH 0));
     hash \<leftarrow> hash;
     ctx \<leftarrow> sha512_write sha512_init (h512_o_key_pad hctx);
     ctx \<leftarrow> sha512_write ctx hash;
     (hmac, _) \<leftarrow> sha512_finalize ctx (Some hmac);
     hmac
   }"

definition hmac_sha512 :: "bytes \<Rightarrow> bytes \<Rightarrow> bytes \<Rightarrow> bytes option" where
  "hmac_sha512 key msg hmac = do {
     let buf = replicate SHA512_BLOCK_LENGTH 0;
     buf \<leftarrow> (if length key > SHA512_BLOCK_LENGTH then sha512_raw key buf else mem_write buf 0 key);
     let o_key_pad = xor_all 0x5c buf;
     let i_key_pad = xor_all 0x36 buf;
     ctx \<leftarrow> sha512_write sha512_init i_key_pad;
     ctx \<leftarrow> sha512_write ctx msg;
     (buf, _) \<leftarrow> sha512_finalize ctx (Some buf);
     buf \<leftarrow> buf;
     ctx \<leftarrow> sha512_write sha512_init o_key_pad;
     ctx \<leftarrow> sha512_write ctx (take SHA512_DIGEST_LENGTH buf);
     (hmac, _) \<leftarrow> sha512_finalize ctx (Some hmac);
     hmac
   }"

section \<open>PBKDF2 with SHA-512\<close>

text \<open>\<open>f\<close>, \<open>g\<close>, the password and the number of the first iteration to run.\<close>

record pbkdf2_hmac_sha512_context =
  p512_f :: bytes
  p512_g :: bytes
  p512_pass :: bytes
  p512_first :: nat

definition pbkdf2_hmac_sha512_init :: "bytes \<Rightarrow> bytes \<Rightarrow> pbkdf2_hmac_sha512_context option" where
  "pbkdf2_hmac_sha512_init pass salt = do {
     hctx \<leftarrow> hmac_sha512_init pass;
     hctx \<leftarrow> hmac_sha512_write hctx salt;
     hctx \<leftarrow> hmac_sha512_write hctx [0, 0, 0, 1];
     g \<leftarrow> hmac_sha512_finalize hctx (replicate SHA512_DIGEST_LENGTH 0);
     Some \<lparr>p512_f = take SHA512_DIGEST_LENGTH g, p512_g = g, p512_pass = pass, p512_first = 1\<rparr>
   }"

text \<open>\<open>n\<close> passes of the loop.\<close>

fun pbkdf2_loop :: "nat \<Rightarrow> pbkdf2_hmac_sha512_context \<Rightarrow> pbkdf2_hmac_sha512_context option" where
  "pbkdf2_loop 0 pctx = Some pctx"
| "pbkdf2_loop (Suc n) pctx = do {
     g \<leftarrow> hmac_sha512 (p512_pass pctx) (take SHA512_DIGEST_LENGTH (p512_g pctx)) (p512_g pctx);
     pbkdf2_loop n (pctx\<lparr>p512_g := g, p512_f := map2 (XOR) (p512_f pctx) g\<rparr>)
   }"

definition pbkdf2_hmac_sha512_write ::
    "pbkdf2_hmac_sha512_context \<Rightarrow> u32 \<Rightarrow> pbkdf2_hmac_sha512_context option" where
  "pbkdf2_hmac_sha512_write pctx iterations = do {
     pctx \<leftarrow> pbkdf2_loop (unat iterations - p512_first pctx) pctx;
     Some (pctx\<lparr>p512_first := 0\<rparr>)
   }"

definition pbkdf2_hmac_sha512_finalize :: "pbkdf2_hmac_sha512_context \<Rightarrow> bytes \<Rightarrow> bytes option" where
  "pbkdf2_hmac_sha512_finalize pctx key = mem_write key 0 (take SHA512_DIGEST_LENGTH (p512_f pctx))"

definition pbkdf2_hmac_sha512 :: "bytes \<Rightarrow> bytes \<Rightarrow> u32 \<Rightarrow> bytes \<Rightarrow> bytes option" where
  "pbkdf2_hmac_sha512 pass salt iterations key = do {
     pctx \<leftarrow> pbkdf2_hmac_sha512_init pass salt;
     pctx \<leftarrow> pbkdf2_hmac_sha512_write pctx iterations;
     pbkdf2_hmac_sha512_finalize pctx key
   }"

section \<open>The key schedule of PBKDF2 with SHA-256\<close>

text \<open>
  \<open>sha256_transform\<close> on an object that is not a context: the state is at offset 0, the buffer with
  \<open>W256\<close> at offset 40 (after the 64-bit count), and 64 bytes of data are read.
\<close>

definition transform_memory :: "bytes \<Rightarrow> bytes \<Rightarrow> bytes option" where
  "transform_memory mem data = do {
     st \<leftarrow> mem_read mem 0 32;
     cnt \<leftarrow> mem_read mem 32 8;
     buf \<leftarrow> mem_read mem 40 SHA256_BLOCK_LENGTH;
     block \<leftarrow> mem_read data 0 SHA256_BLOCK_LENGTH;
     let ctx = sha256_transform \<lparr>ctx_state = map (\<lambda>j. le_word (take 4 (drop (4 * j) st))) [0..<8],
                                 ctx_bitcount = le_word cnt, ctx_buffer = buf\<rparr> block;
     Some (concat (map (\<lambda>w. le_bytes 4 (unat w)) (ctx_state ctx)) @ cnt @ ctx_buffer ctx
           @ drop 104 mem)
   }"

text \<open>A word of \<open>key_pad\<close> is read, reversed into \<open>data\<close> and stored back with a mask.\<close>

definition mask_words :: "(u32 \<Rightarrow> u32) \<Rightarrow> bytes \<Rightarrow> bytes" where
  "mask_words f key_pad = concat (map (\<lambda>w. le_bytes 4 (unat (f w))) (load32 key_pad))"

definition hmac_sha256_prepare :: "bytes \<Rightarrow> bytes \<Rightarrow> bytes \<Rightarrow> (bytes \<times> bytes) option" where
  "hmac_sha256_prepare key opad_digest ipad_digest = do {
     let key_pad = replicate SHA256_BLOCK_LENGTH 0;
     key_pad \<leftarrow> (if length key > SHA256_BLOCK_LENGTH then do {
                    ctx \<leftarrow> sha256_write sha256_init key;
                    (d, _) \<leftarrow> sha256_finalize ctx (Some key_pad);
                    d
                  }
                 else mem_write key_pad 0 key);
     let key_pad = mask_words (\<lambda>w. REVERSE32 w XOR 0x5c5c5c5c) key_pad;
     key_pad \<leftarrow> transform_memory key_pad opad_digest;
     let key_pad = mask_words (\<lambda>w. w XOR 0x5c5c5c5c XOR 0x36363636) key_pad;
     key_pad \<leftarrow> transform_memory key_pad ipad_digest;
     Some (opad_digest, ipad_digest)
   }"

section \<open>References\<close>

definition padded_key :: "(bytes \<Rightarrow> bytes) \<Rightarrow> nat \<Rightarrow> bytes \<Rightarrow> bytes" where
  "padded_key H B key =
     (let k = (if length key > B then H key else key) in k @ replicate (B - length k) 0)"

definition hmac_reference :: "(bytes \<Rightarrow> bytes) \<Rightarrow> nat \<Rightarrow> bytes \<Rightarrow> bytes \<Rightarrow> bytes" where
  "hmac_reference H B key msg =
     H (xor_all 0x5c (padded_key H B key) @ H (xor_all 0x36 (padded_key H B key) @ msg))"

text \<open>The first block of PBKDF2: the sum of \<open>n\<close> iterates of a keyed hash (at least one).\<close>

definition pbkdf2_reference :: "(bytes \<Rightarrow> bytes) \<Rightarrow> nat \<Rightarrow> bytes \<Rightarrow> bytes" where
  "pbkdf2_reference U n u = foldl (map2 (XOR)) u (map (\<lambda>i. (U ^^ i) u) [1..<n])"

section \<open>The keys\<close>

lemma padded_keys:
  "(if length key > 64 then sha256_raw key (replicate 64 0) else mem_write (replicate 64 0) 0 key)
     = Some (padded_key sha256_reference 64 key)"
  "(if length key > 128 then sha512_raw key (replicate 128 0) else mem_write (replicate 128 0) 0 key)
     = Some (padded_key sha512_reference 128 key)"
  by (auto simp: padded_key_def Let_def sha256_raw_reference sha512_raw_reference mem_write_def)

lemma length_padded_key: "length (H key) \<le> B \<Longrightarrow> length (padded_key H B key) = B"
  by (auto simp: padded_key_def Let_def)

lemma length_xor_all [simp]: "length (xor_all c bs) = length bs"
  by (simp add: xor_all_def)

section \<open>The keyed hashes are HMAC\<close>

text \<open>The keyed context has been fed a message: its inner hash has been fed the key and the message.\<close>

definition keyed256 :: "bytes \<Rightarrow> hmac_sha256_context \<Rightarrow> bytes \<Rightarrow> bool" where
  "keyed256 key hctx m \<longleftrightarrow>
     h256_o_key_pad hctx = xor_all 0x5c (padded_key sha256_reference 64 key)
     \<and> w256.fed (h256_ctx hctx) (xor_all 0x36 (padded_key sha256_reference 64 key) @ m)"

definition keyed512 :: "bytes \<Rightarrow> hmac_sha512_context \<Rightarrow> bytes \<Rightarrow> bool" where
  "keyed512 key hctx m \<longleftrightarrow>
     h512_o_key_pad hctx = xor_all 0x5c (padded_key sha512_reference 128 key)
     \<and> w512.fed (h512_ctx hctx) (xor_all 0x36 (padded_key sha512_reference 128 key) @ m)"

lemma keyed_init:
  "\<exists>h. hmac_sha256_init key = Some h \<and> keyed256 key h []"
  "\<exists>h. hmac_sha512_init key = Some h \<and> keyed512 key h []"
  using h256.feed_absorbed [OF h256.init_absorbed, of "xor_all 0x36 (padded_key sha256_reference 64 key)"]
    h512.feed_absorbed [OF h512.init_absorbed, of "xor_all 0x36 (padded_key sha512_reference 128 key)"]
  by (auto simp: hmac_sha256_init_def hmac_sha512_init_def sha_sizes padded_keys keyed256_def keyed512_def
      Let_def)

lemma keyed_write:
  "keyed256 key h m \<Longrightarrow> \<exists>h'. hmac_sha256_write h x = Some h' \<and> keyed256 key h' (m @ x)"
  "keyed512 key k m \<Longrightarrow> \<exists>k'. hmac_sha512_write k x = Some k' \<and> keyed512 key k' (m @ x)"
  using h256.feed_absorbed [of "h256_ctx h" _ x] h512.feed_absorbed [of "h512_ctx k" _ x]
  by (fastforce simp: keyed256_def keyed512_def hmac_sha256_write_def hmac_sha512_write_def)+

lemma keyed256_finalize:
  assumes "keyed256 key h m" "32 \<le> length out"
  shows "hmac_sha256_finalize h out = Some (hmac_reference sha256_reference 64 key m @ drop 32 out)"
proof -
  let ?k = "padded_key sha256_reference 64 key"
  let ?in = "sha256_reference (xor_all 0x36 ?k @ m)"
  have f: "sha256_finalize (h256_ctx h) (Some (replicate 32 0)) = Some (Some ?in, zero_context 64 0)"
    using assms(1) sha256_finalize_fed [of "h256_ctx h" "xor_all 0x36 ?k @ m" "replicate 32 0"]
    by (simp add: keyed256_def)
  obtain c1 c2 c3 where "sha256_write sha256_init (xor_all 0x5c ?k) = Some c1" "sha256_write c1 ?in = Some c2"
    "sha256_finalize c2 (Some out) = Some (Some (sha256_reference (xor_all 0x5c ?k @ ?in) @ drop 32 out), c3)"
    using h256.feed_two_finalize [OF assms(2), of "xor_all 0x5c ?k" ?in] by auto
  with f assms(1) show ?thesis
    by (simp add: hmac_sha256_finalize_def keyed256_def hmac_reference_def sha_sizes)
qed

lemma keyed512_finalize:
  assumes "keyed512 key h m" "64 \<le> length out"
  shows "hmac_sha512_finalize h out = Some (hmac_reference sha512_reference 128 key m @ drop 64 out)"
proof -
  let ?k = "padded_key sha512_reference 128 key"
  let ?in = "sha512_reference (xor_all 0x36 ?k @ m)"
  have f: "sha512_finalize (h512_ctx h) (Some (replicate 64 0)) = Some (Some ?in, zero_context 128 (0, 0))"
    using assms(1) sha512_finalize_fed [of "h512_ctx h" "xor_all 0x36 ?k @ m" "replicate 64 0"]
    by (simp add: keyed512_def)
  obtain c1 c2 c3 where "sha512_write sha512_init (xor_all 0x5c ?k) = Some c1" "sha512_write c1 ?in = Some c2"
    "sha512_finalize c2 (Some out) = Some (Some (sha512_reference (xor_all 0x5c ?k @ ?in) @ drop 64 out), c3)"
    using h512.feed_two_finalize [OF assms(2), of "xor_all 0x5c ?k" ?in] by auto
  with f assms(1) show ?thesis
    by (simp add: hmac_sha512_finalize_def keyed512_def hmac_reference_def sha_sizes)
qed

lemma hmac_sha256_reference:
  assumes "32 \<le> length out"
  shows "hmac_sha256 key m out = Some (hmac_reference sha256_reference 64 key m @ drop 32 out)"
proof -
  let ?k = "padded_key sha256_reference 64 key"
  let ?in = "sha256_reference (xor_all 0x36 ?k @ m)"
  have "32 \<le> length ?k" by (simp add: length_padded_key)
  then obtain c1 c2 c3 where c: "sha256_write sha256_init (xor_all 0x36 ?k) = Some c1" "sha256_write c1 m = Some c2"
    "sha256_finalize c2 (Some ?k) = Some (Some (?in @ drop 32 ?k), c3)"
    using h256.feed_two_finalize [of ?k "xor_all 0x36 ?k" m] by auto
  obtain d1 d2 d3 where "sha256_write sha256_init (xor_all 0x5c ?k) = Some d1" "sha256_write d1 ?in = Some d2"
    "sha256_finalize d2 (Some out) = Some (Some (sha256_reference (xor_all 0x5c ?k @ ?in) @ drop 32 out), d3)"
    using h256.feed_two_finalize [OF assms, of "xor_all 0x5c ?k" ?in] by auto
  with c show ?thesis
    by (simp add: hmac_sha256_def padded_keys hmac_reference_def sha_sizes Let_def)
qed

lemma hmac_sha512_reference:
  assumes "64 \<le> length out"
  shows "hmac_sha512 key m out = Some (hmac_reference sha512_reference 128 key m @ drop 64 out)"
proof -
  let ?k = "padded_key sha512_reference 128 key"
  let ?in = "sha512_reference (xor_all 0x36 ?k @ m)"
  have "64 \<le> length ?k" by (simp add: length_padded_key)
  then obtain c1 c2 c3 where c: "sha512_write sha512_init (xor_all 0x36 ?k) = Some c1" "sha512_write c1 m = Some c2"
    "sha512_finalize c2 (Some ?k) = Some (Some (?in @ drop 64 ?k), c3)"
    using h512.feed_two_finalize [of ?k "xor_all 0x36 ?k" m] by auto
  obtain d1 d2 d3 where "sha512_write sha512_init (xor_all 0x5c ?k) = Some d1" "sha512_write d1 ?in = Some d2"
    "sha512_finalize d2 (Some out) = Some (Some (sha512_reference (xor_all 0x5c ?k @ ?in) @ drop 64 out), d3)"
    using h512.feed_two_finalize [OF assms, of "xor_all 0x5c ?k" ?in] by auto
  with c show ?thesis
    by (simp add: hmac_sha512_def padded_keys hmac_reference_def sha_sizes Let_def)
qed

text \<open>HMAC in one call and in pieces. For any key (longer than a block or not) and message,
  \<open>hmac_sha256\<close> and \<open>hmac_sha512\<close> store the HMAC of the standard, and feeding the message in two
  pieces between \<open>init\<close> and \<open>finalize\<close> stores the same.
\<close>

theorem hmac_standard:
  assumes "32 \<le> length out" "64 \<le> length out'"
  shows "hmac_sha256 key (x @ y) out = Some (hmac_reference sha256_reference 64 key (x @ y) @ drop 32 out)
    \<and> hmac_sha512 key (x @ y) out' = Some (hmac_reference sha512_reference 128 key (x @ y) @ drop 64 out')
    \<and> do { h \<leftarrow> hmac_sha256_init key; h \<leftarrow> hmac_sha256_write h x; h \<leftarrow> hmac_sha256_write h y;
           hmac_sha256_finalize h out } = hmac_sha256 key (x @ y) out
    \<and> do { h \<leftarrow> hmac_sha512_init key; h \<leftarrow> hmac_sha512_write h x; h \<leftarrow> hmac_sha512_write h y;
           hmac_sha512_finalize h out' } = hmac_sha512 key (x @ y) out'"
proof -
  obtain h0 where h0: "hmac_sha256_init key = Some h0" "keyed256 key h0 []" using keyed_init(1) by blast
  obtain h1 where h1: "hmac_sha256_write h0 x = Some h1" "keyed256 key h1 x"
    using keyed_write(1) [OF h0(2), of x] by auto
  obtain h2 where h2: "hmac_sha256_write h1 y = Some h2" "keyed256 key h2 (x @ y)"
    using keyed_write(1) [OF h1(2), of y] by blast
  obtain k0 where k0: "hmac_sha512_init key = Some k0" "keyed512 key k0 []" using keyed_init(2) by blast
  obtain k1 where k1: "hmac_sha512_write k0 x = Some k1" "keyed512 key k1 x"
    using keyed_write(2) [OF k0(2), of x] by auto
  obtain k2 where k2: "hmac_sha512_write k1 y = Some k2" "keyed512 key k2 (x @ y)"
    using keyed_write(2) [OF k1(2), of y] by blast
  show ?thesis
    using h0 h1 h2 k0 k1 k2 assms
    by (simp add: keyed256_finalize keyed512_finalize hmac_sha256_reference hmac_sha512_reference)
qed

lemma hmac_standard_witness:
  "hmac_sha256 [107] ([1] @ [2]) (replicate 32 0)
     = Some (hmac_reference sha256_reference 64 [107] ([1] @ [2]) @ drop 32 (replicate 32 0))"
  using hmac_standard [of "replicate 32 0" "replicate 64 0" "[107]" "[1]" "[2]"] by simp

section \<open>PBKDF2\<close>

lemma pbkdf2_loop_iterates:
  assumes "p512_g p = (U ^^ k) u" "length u = 64" "\<And>x. length (U x) = 64"
    and U: "U = hmac_reference sha512_reference 128 (p512_pass p)"
  shows "pbkdf2_loop n p = Some (p\<lparr>p512_g := (U ^^ (k + n)) u,
    p512_f := foldl (map2 (XOR)) (p512_f p) (map (\<lambda>i. (U ^^ i) u) [Suc k..<Suc k + n])\<rparr>)"
  using assms
proof (induction n arbitrary: p k)
  case (Suc n)
  have l: "length ((U ^^ k) u) = 64" using Suc.prems by (cases k) auto
  have h: "hmac_sha512 (p512_pass p) (take 64 (p512_g p)) (p512_g p) = Some ((U ^^ Suc k) u)"
    using Suc.prems l by (simp add: hmac_sha512_reference)
  let ?p = "p\<lparr>p512_g := (U ^^ Suc k) u, p512_f := map2 (XOR) (p512_f p) ((U ^^ Suc k) u)\<rparr>"
  have "pbkdf2_loop (Suc n) p = pbkdf2_loop n ?p" using h by (simp add: sha_sizes)
  also have "\<dots> = Some (?p\<lparr>p512_g := (U ^^ (Suc k + n)) u,
      p512_f := foldl (map2 (XOR)) (p512_f ?p) (map (\<lambda>i. (U ^^ i) u) [Suc (Suc k)..<Suc (Suc k) + n])\<rparr>)"
    using Suc.prems by (intro Suc.IH) simp_all
  also have "\<dots> = Some (p\<lparr>p512_g := (U ^^ (k + Suc n)) u,
      p512_f := foldl (map2 (XOR)) (p512_f p) (map (\<lambda>i. (U ^^ i) u) [Suc k..<Suc k + Suc n])\<rparr>)"
    by (simp add: upt_conv_Cons del: upt_Suc funpow.simps)
  finally show ?case .
qed simp

lemma length_hmac512: "length (hmac_reference sha512_reference B key m) = 64"
  by (simp add: hmac_reference_def)

text \<open>C39:
  The key of \<open>pbkdf2_hmac_sha512\<close> is the first block of PBKDF2: with \<open>U\<close> the HMAC keyed with the
  password, \<open>U(salt, 1)\<close> and its \<open>iterations - 1\<close> further iterates are combined with exclusive or; 0
  iterations count as 1. The 64 bytes are stored at the start of the caller's key.
\<close>

theorem pbkdf2_sha512_standard:
  assumes "64 \<le> length key"
  shows "pbkdf2_hmac_sha512 pass salt iterations key =
    (let U = hmac_reference sha512_reference 128 pass
     in Some (pbkdf2_reference U (unat iterations) (U (salt @ [0, 0, 0, 1])) @ drop 64 key))"
proof -
  let ?U = "hmac_reference sha512_reference 128 pass"
  let ?u = "?U (salt @ [0, 0, 0, 1])"
  obtain k0 where k0: "hmac_sha512_init pass = Some k0" "keyed512 pass k0 []" using keyed_init(2) by blast
  obtain k1 where k1: "hmac_sha512_write k0 salt = Some k1" "keyed512 pass k1 salt"
    using keyed_write(2) [OF k0(2), of salt] by auto
  obtain k2 where k2: "hmac_sha512_write k1 [0, 0, 0, 1] = Some k2" "keyed512 pass k2 (salt @ [0, 0, 0, 1])"
    using keyed_write(2) [OF k1(2)] by blast
  let ?p = "\<lparr>p512_f = ?u, p512_g = ?u, p512_pass = pass, p512_first = 1\<rparr>"
  have i: "pbkdf2_hmac_sha512_init pass salt = Some ?p"
    using k0 k1 k2 keyed512_finalize [OF k2(2), of "replicate 64 0"]
    by (simp add: pbkdf2_hmac_sha512_init_def sha_sizes length_hmac512)
  define n where "n = unat iterations - 1"
  let ?f = "foldl (map2 (XOR)) ?u (map (\<lambda>i. (?U ^^ i) ?u) [1..<Suc n])"
  have w: "pbkdf2_loop n ?p = Some (?p\<lparr>p512_g := (?U ^^ n) ?u, p512_f := ?f\<rparr>)"
    using pbkdf2_loop_iterates [of ?p 0 ?U ?u n] by (simp add: length_hmac512 del: upt_Suc)
  have r: "[1..<Suc n] = [1..<unat iterations]" by (cases "unat iterations") (simp_all add: n_def)
  have l: "length (foldl (map2 (XOR)) v (map (\<lambda>i. (?U ^^ i) ?u) xs)) = 64" if "length v = 64" for v :: bytes and xs
    using that
  proof (induction xs arbitrary: v)
    case (Cons i xs)
    have "length ((?U ^^ i) ?u) = 64" by (cases i) (simp_all add: length_hmac512)
    with Cons show ?case by simp
  qed simp
  have "unat iterations - Suc 0 = n" by (simp add: n_def)
  moreover have "length ?f = 64" by (rule l) (simp add: length_hmac512)
  ultimately show ?thesis
    using i w assms r
    by (simp add: pbkdf2_hmac_sha512_def pbkdf2_hmac_sha512_write_def pbkdf2_hmac_sha512_finalize_def
        sha_sizes mem_write_def pbkdf2_reference_def Let_def del: upt_Suc)
qed

lemma pbkdf2_sha512_standard_witness:
  "pbkdf2_hmac_sha512 [112] [115] 2048 (replicate 64 0) =
    (let U = hmac_reference sha512_reference 128 [112]
     in Some (pbkdf2_reference U (unat (2048 :: u32)) (U ([115] @ [0, 0, 0, 1])) @ drop 64 (replicate 64 0)))"
  by (rule pbkdf2_sha512_standard) simp

text \<open>Preparing the key of PBKDF2 with SHA-256 always leaves its buffer: the 64-byte \<open>key_pad\<close> is passed
  to \<open>sha256_transform\<close> as if it were a 104-byte context, whose message schedule starts at offset 40,
  and the digest array of 32 bytes is read as a block of 64.
\<close>

theorem hmac_sha256_prepare_overruns:
  "hmac_sha256_prepare key opad_digest ipad_digest = None"
proof -
  have l: "length (mask_words f bs) = 64" for f bs
    using length_concat_const [of "load32 bs" "\<lambda>w. le_bytes 4 (unat (f w))" 4]
    by (simp add: mask_words_def load32_def del: le_bytes_numeral)
  have "transform_memory (mask_words f bs) data = None" for f bs data
    by (simp add: transform_memory_def mem_read_def l sha_sizes)
  then show ?thesis by (simp add: hmac_sha256_prepare_def Let_def)
qed

end
