(* ===== verification/HdNode.thy ===== *)
theory HdNode
  imports Keys Hmac
begin

text \<open>
  Nodes of a hierarchical wallet (\<open>src/bip32.c\<close>): a key with the chain code its children are derived with. A node is
  made from a seed, derived from its parent with the private or only with the public key, written as text and read
  back. The curve is the parameter \<open>secp\<close> of Keys.thy. Arrays of a node that has not been written hold any bytes.
\<close>

section \<open>Nodes\<close>

definition DOGECOIN_BIP32_CHAINCODE_SIZE :: nat where [code_values]: "DOGECOIN_BIP32_CHAINCODE_SIZE = 32"

record dogecoin_hdnode =
  depth :: u32
  fingerprint :: u32
  child_num :: u32
  chain_code :: bytes
  hd_private_key :: bytes
  hd_public_key :: bytes

text \<open>Four bytes, the most significant first.\<close>

definition be32 :: "u32 \<Rightarrow> bytes" where
  "be32 x = [ucast (drop_bit 24 x), ucast (drop_bit 16 x), ucast (drop_bit 8 x), ucast x]"

definition write_be :: "bytes \<Rightarrow> nat \<Rightarrow> u32 \<Rightarrow> bytes option" where
  "write_be bs off x = mem_write bs off (be32 x)"

definition read_be :: "bytes \<Rightarrow> nat \<Rightarrow> u32 option" where
  "read_be bs off = do {
     b \<leftarrow> mem_read bs off 4;
     Some (push_bit 24 (ucast (b ! 0)) OR push_bit 16 (ucast (b ! 1)) OR push_bit 8 (ucast (b ! 2)) OR ucast (b ! 3))
   }"

definition dogecoin_hdnode_new :: dogecoin_hdnode where
  "dogecoin_hdnode_new = \<lparr>depth = 0, fingerprint = 0, child_num = 0, chain_code = replicate 32 0,
     hd_private_key = replicate 32 0, hd_public_key = replicate 33 0\<rparr>"

definition dogecoin_hdnode_copy :: "dogecoin_hdnode \<Rightarrow> dogecoin_hdnode option" where
  "dogecoin_hdnode_copy node = do {
     let newnode = dogecoin_hdnode_new;
     c \<leftarrow> mem_write (chain_code newnode) 0 (chain_code node);
     k \<leftarrow> mem_write (hd_private_key newnode) 0 (hd_private_key node);
     p \<leftarrow> mem_write (hd_public_key newnode) 0 (hd_public_key node);
     Some (newnode\<lparr>depth := depth node, fingerprint := fingerprint node, child_num := child_num node,
       chain_code := c, hd_private_key := k, hd_public_key := p\<rparr>)
   }"

definition dogecoin_hdnode_fill_public_key :: "('pk, 'sig) secp256k1 \<Rightarrow> dogecoin_hdnode \<Rightarrow> dogecoin_hdnode option" where
  "dogecoin_hdnode_fill_public_key secp node = do {
     (p, _) \<leftarrow> dogecoin_ecc_get_pubkey secp (hd_private_key node) (hd_public_key node) DOGECOIN_ECKEY_COMPRESSED_LENGTH True;
     Some (node\<lparr>hd_public_key := p\<rparr>)
   }"

text \<open>The key of the hash of a seed, \<open>"Bitcoin seed"\<close>.\<close>

definition seed_key :: bytes where
  "seed_key = [66, 105, 116, 99, 111, 105, 110, 32, 115, 101, 101, 100]"

definition dogecoin_hdnode_from_seed ::
    "('pk, 'sig) secp256k1 \<Rightarrow> bytes \<Rightarrow> nat \<Rightarrow> (bool \<times> dogecoin_hdnode) option" where
  "dogecoin_hdnode_from_seed secp seed seed_len = do {
     let node = dogecoin_hdnode_new;
     s \<leftarrow> mem_read seed 0 seed_len;
     I \<leftarrow> hmac_sha512 seed_key s (replicate 64 0);
     k \<leftarrow> mem_read I 0 DOGECOIN_ECKEY_PKEY_LENGTH;
     let node = node\<lparr>hd_private_key := k\<rparr>;
     v \<leftarrow> dogecoin_ecc_verify_privatekey secp k;
     (if \<not> v then Some (False, node)
      else do {
        c \<leftarrow> mem_read I DOGECOIN_ECKEY_PKEY_LENGTH DOGECOIN_BIP32_CHAINCODE_SIZE;
        node \<leftarrow> dogecoin_hdnode_fill_public_key secp (node\<lparr>chain_code := c\<rparr>);
        Some (True, node)
      })
   }"

section \<open>Children\<close>

text \<open>The fingerprint of a public key: the hash is written over the buffer that it is read from.\<close>

definition key_fingerprint :: "bytes \<Rightarrow> u32 option" where
  "key_fingerprint p = do {
     b \<leftarrow> mem_read p 0 DOGECOIN_ECKEY_COMPRESSED_LENGTH;
     f \<leftarrow> sha256_raw b (replicate 32 0);
     f \<leftarrow> rmd160 f 32 f;
     f \<leftarrow> mem_read f 0 4;
     Some (push_bit 24 (ucast (f ! 0)) + push_bit 16 (ucast (f ! 1)) + push_bit 8 (ucast (f ! 2)) + ucast (f ! 3))
   }"

text \<open>The key is added to in both functions with a tweak that is not in range as well; the public one sets
  \<open>failed\<close> to \<open>false\<close> then, the private one returns true in any case.\<close>

definition dogecoin_hdnode_public_ckd ::
    "('pk, 'sig) secp256k1 \<Rightarrow> dogecoin_hdnode \<Rightarrow> u32 \<Rightarrow> (bool \<times> dogecoin_hdnode) option" where
  "dogecoin_hdnode_public_ckd secp node i =
     (if i AND 0x80000000 \<noteq> 0 then Some (False, node)
      else do {
        p \<leftarrow> mem_read (hd_public_key node) 0 DOGECOIN_ECKEY_COMPRESSED_LENGTH;
        d \<leftarrow> mem_write (replicate 37 0) 0 p;
        d \<leftarrow> write_be d DOGECOIN_ECKEY_COMPRESSED_LENGTH i;
        f \<leftarrow> key_fingerprint (hd_public_key node);
        c \<leftarrow> mem_read (chain_code node) 0 32;
        I \<leftarrow> hmac_sha512 c d (replicate 64 0);
        c \<leftarrow> mem_read I 32 DOGECOIN_BIP32_CHAINCODE_SIZE;
        (_, p) \<leftarrow> dogecoin_ecc_public_key_tweak_add secp (hd_public_key node) I;
        Some (True, node\<lparr>fingerprint := f, hd_private_key := replicate 32 0, chain_code := c, hd_public_key := p,
          depth := depth node + 1, child_num := i\<rparr>)
      })"

definition dogecoin_hdnode_private_ckd ::
    "('pk, 'sig) secp256k1 \<Rightarrow> dogecoin_hdnode \<Rightarrow> u32 \<Rightarrow> (bool \<times> dogecoin_hdnode) option" where
  "dogecoin_hdnode_private_ckd secp node i = do {
     k \<leftarrow> mem_read (hd_private_key node) 0 DOGECOIN_ECKEY_PKEY_LENGTH;
     p \<leftarrow> mem_read (hd_public_key node) 0 DOGECOIN_ECKEY_COMPRESSED_LENGTH;
     d \<leftarrow> (if i AND 0x80000000 \<noteq> 0 then mem_write (replicate 37 0) 0 (0 # k) else mem_write (replicate 37 0) 0 p);
     d \<leftarrow> write_be d DOGECOIN_ECKEY_COMPRESSED_LENGTH i;
     f \<leftarrow> key_fingerprint (hd_public_key node);
     c \<leftarrow> mem_read (chain_code node) 0 DOGECOIN_BIP32_CHAINCODE_SIZE;
     I \<leftarrow> hmac_sha512 c d (replicate 64 0);
     c \<leftarrow> mem_read I DOGECOIN_ECKEY_PKEY_LENGTH DOGECOIN_BIP32_CHAINCODE_SIZE;
     z \<leftarrow> mem_read I 0 DOGECOIN_ECKEY_PKEY_LENGTH;
     v \<leftarrow> dogecoin_ecc_verify_privatekey secp z;
     (r, k) \<leftarrow> dogecoin_ecc_private_key_tweak_add secp k z;
     let node = node\<lparr>fingerprint := f, chain_code := c, hd_private_key := k\<rparr>;
     (if v \<and> r then do {
        node \<leftarrow> dogecoin_hdnode_fill_public_key secp (node\<lparr>depth := depth node + 1, child_num := i\<rparr>);
        Some (True, node)
      }
      else Some (True, node))
   }"

definition dogecoin_hdnode_private_ckd_prime ::
    "('pk, 'sig) secp256k1 \<Rightarrow> dogecoin_hdnode \<Rightarrow> u32 \<Rightarrow> (bool \<times> dogecoin_hdnode) option" where
  "dogecoin_hdnode_private_ckd_prime secp node i = dogecoin_hdnode_private_ckd secp node (i OR 0x80000000)"

section \<open>Text\<close>

definition dogecoin_hdnode_serialize ::
    "dogecoin_hdnode \<Rightarrow> u32 \<Rightarrow> bool \<Rightarrow> bytes \<Rightarrow> nat \<Rightarrow> bytes option" where
  "dogecoin_hdnode_serialize node version use_public s strsize = do {
     d \<leftarrow> write_be (replicate 78 0) 0 version;
     d \<leftarrow> mem_set d 4 (ucast (depth node));
     d \<leftarrow> write_be d 5 (fingerprint node);
     d \<leftarrow> write_be d 9 (child_num node);
     c \<leftarrow> mem_read (chain_code node) 0 DOGECOIN_BIP32_CHAINCODE_SIZE;
     d \<leftarrow> mem_write d 13 c;
     d \<leftarrow> (if use_public then do {
             p \<leftarrow> mem_read (hd_public_key node) 0 DOGECOIN_ECKEY_COMPRESSED_LENGTH;
             mem_write d 45 p
           }
           else do {
             d \<leftarrow> mem_set d 45 0;
             k \<leftarrow> mem_read (hd_private_key node) 0 DOGECOIN_ECKEY_PKEY_LENGTH;
             mem_write d 46 k
           });
     (_, s) \<leftarrow> dogecoin_base58_encode_check d 78 s strsize;
     Some s
   }"

definition dogecoin_hdnode_serialize_public :: "dogecoin_hdnode \<Rightarrow> dogecoin_chainparams \<Rightarrow> bytes \<Rightarrow> nat \<Rightarrow> bytes option" where
  "dogecoin_hdnode_serialize_public node chain = dogecoin_hdnode_serialize node (b58prefix_bip32_pubkey chain) True"

definition dogecoin_hdnode_serialize_private :: "dogecoin_hdnode \<Rightarrow> dogecoin_chainparams \<Rightarrow> bytes \<Rightarrow> nat \<Rightarrow> bytes option" where
  "dogecoin_hdnode_serialize_private node chain = dogecoin_hdnode_serialize node (b58prefix_bip32_privkey chain) False"

definition dogecoin_hdnode_get_hash160 :: "dogecoin_hdnode \<Rightarrow> bytes \<Rightarrow> bytes option" where
  "dogecoin_hdnode_get_hash160 node hash160_out = do {
     p \<leftarrow> mem_read (hd_public_key node) 0 DOGECOIN_ECKEY_COMPRESSED_LENGTH;
     h \<leftarrow> dogecoin_hash_sngl_sha256 p (replicate 32 0);
     rmd160 h 32 hash160_out
   }"

definition dogecoin_hdnode_get_p2pkh_address ::
    "dogecoin_hdnode \<Rightarrow> dogecoin_chainparams \<Rightarrow> bytes \<Rightarrow> nat \<Rightarrow> bytes option" where
  "dogecoin_hdnode_get_p2pkh_address node chain s strsize = do {
     h \<leftarrow> dogecoin_hdnode_get_hash160 node (replicate 20 0);
     (_, s) \<leftarrow> dogecoin_base58_encode_check (b58prefix_pubkey_address chain # h) 21 s strsize;
     Some s
   }"

definition dogecoin_hdnode_get_pub_hex :: "dogecoin_hdnode \<Rightarrow> bytes \<Rightarrow> nat \<Rightarrow> (bool \<times> bytes \<times> nat) option" where
  "dogecoin_hdnode_get_pub_hex node s strsize = do {
     let k = dogecoin_pubkey_init \<lparr>compressed = False, pubkey = replicate 65 0\<rparr>;
     p \<leftarrow> mem_read (hd_public_key node) 0 DOGECOIN_ECKEY_COMPRESSED_LENGTH;
     b \<leftarrow> mem_write (pubkey k) 0 p;
     dogecoin_pubkey_get_hex (k\<lparr>pubkey := b, compressed := True\<rparr>) s strsize
   }"

text \<open>The buffer has the size of a node, 112 bytes with its padding. A text that is null is refused; the network and the
  node of the callers are not null.\<close>

definition dogecoin_hdnode_deserialize ::
    "('pk, 'sig) secp256k1 \<Rightarrow> bytes option \<Rightarrow> dogecoin_chainparams \<Rightarrow> dogecoin_hdnode \<Rightarrow> (bool \<times> dogecoin_hdnode) option" where
  "dogecoin_hdnode_deserialize secp t chain node =
     (case t of
        None \<Rightarrow> Some (False, node)
      | Some s \<Rightarrow> do {
          let node = dogecoin_hdnode_new;
          (r, d) \<leftarrow> dogecoin_base58_decode_check s (replicate 112 0) 112;
          (if r = 0 then Some (False, node)
           else do {
             version \<leftarrow> read_be d 0;
             (ok, node) \<leftarrow>
               (if version = b58prefix_bip32_pubkey chain then do {
                  p \<leftarrow> mem_read d 45 DOGECOIN_ECKEY_COMPRESSED_LENGTH;
                  Some (True, node\<lparr>hd_public_key := p\<rparr>)
                }
                else if version = b58prefix_bip32_privkey chain then do {
                  z \<leftarrow> mem_get d 45;
                  (if z \<noteq> 0 then Some (False, node)
                   else do {
                     k \<leftarrow> mem_read d 46 DOGECOIN_ECKEY_PKEY_LENGTH;
                     node \<leftarrow> dogecoin_hdnode_fill_public_key secp (node\<lparr>hd_private_key := k\<rparr>);
                     Some (True, node)
                   })
                }
                else Some (False, node));
             (if \<not> ok then Some (False, node)
              else do {
                n \<leftarrow> mem_get d 4;
                f \<leftarrow> read_be d 5;
                i \<leftarrow> read_be d 9;
                c \<leftarrow> mem_read d 13 DOGECOIN_BIP32_CHAINCODE_SIZE;
                Some (True, node\<lparr>depth := ucast n, fingerprint := f, child_num := i, chain_code := c\<rparr>)
              })
           })
        })"

definition dogecoin_hdnode_has_privkey :: "dogecoin_hdnode \<Rightarrow> bool option" where
  "dogecoin_hdnode_has_privkey node = do {
     k \<leftarrow> mem_read (hd_private_key node) 0 DOGECOIN_ECKEY_PKEY_LENGTH;
     Some (\<exists>b\<in>set k. b \<noteq> 0)
   }"

section \<open>The standard\<close>

text \<open>The value of four bytes, and that they are those of the value.\<close>

definition be_word :: "bytes \<Rightarrow> u32" where
  "be_word b = le_word (rev b)"

lemma be32_rev: "be32 x = rev (le_bytes 4 (unat x))"
  by (simp add: be32_def del: le_bytes_numeral flip: digest_bytes)

lemma length_be32 [simp]: "length (be32 x) = 4"
  by (simp add: be32_def)

lemma be_word_be32 [simp]: "be_word (be32 x) = x"
  unfolding be_word_def be32_rev rev_rev_ident by (rule le_word_u32)

lemma be32_be_word: "length b = 4 \<Longrightarrow> be32 (be_word b) = b"
  using le_bytes_le_nat [of "rev b"] le_nat_bound [of "rev b"]
  by (simp add: be32_rev be_word_def le_word_def unat_of_nat del: le_bytes_numeral)

lemma four_bytes: "length b = 4 \<Longrightarrow> b = [b ! 0, b ! 1, b ! 2, b ! 3]"
  by (cases b rule: list.exhaust; auto simp: numeral_eq_Suc length_Suc_conv)

lemma be_word_or:
  assumes "length b = 4"
  shows "push_bit 24 (ucast (b ! 0)) OR push_bit 16 (ucast (b ! 1)) OR push_bit 8 (ucast (b ! 2)) OR ucast (b ! 3) = be_word b"
    "push_bit 24 (ucast (b ! 0)) + push_bit 16 (ucast (b ! 1)) + push_bit 8 (ucast (b ! 2)) + ucast (b ! 3) = be_word b"
proof -
  have "be_word b = le_word [b ! 3, b ! 2, b ! 1, b ! 0]"
    unfolding be_word_def by (subst four_bytes [OF assms]) simp
  then show o: "push_bit 24 (ucast (b ! 0)) OR push_bit 16 (ucast (b ! 1)) OR push_bit 8 (ucast (b ! 2)) OR ucast (b ! 3) = be_word b"
    by (simp add: le_word4 ac_simps)
  have hi: "\<not> bit (x :: u8) i" if "8 \<le> i" for x i using bit_imp_le_length [of x i] that by auto
  let ?a = "push_bit 24 (ucast (b ! 0)) :: u32" and ?b = "push_bit 16 (ucast (b ! 1)) :: u32"
    and ?c = "push_bit 8 (ucast (b ! 2)) :: u32" and ?d = "ucast (b ! 3) :: u32"
  have "?a + ?b = ?a OR ?b" by (rule disjunctive_add) (auto simp: bit_simps hi)
  moreover have "(?a OR ?b) + ?c = (?a OR ?b) OR ?c" by (rule disjunctive_add) (auto simp: bit_simps hi)
  moreover have "(?a OR ?b OR ?c) + ?d = (?a OR ?b OR ?c) OR ?d" by (rule disjunctive_add) (auto simp: bit_simps hi)
  ultimately show "?a + ?b + ?c + ?d = be_word b" unfolding o [symmetric] by (simp only: or.assoc)
qed

lemma read_be_word: "read_be bs off = map_option be_word (mem_read bs off 4)"
  using be_word_or(1) [OF mem_read_length] by (cases "mem_read bs off 4") (auto simp: read_be_def)

lemma length_rmd160 [simp]: "length (rmd160_reference b) = 20"
  by (simp add: rmd160_reference_def Let_def split: prod.split)

lemma key_fingerprint_hash: "length p = 33 \<Longrightarrow> key_fingerprint p = Some (be_word (take 4 (key_hash p)))"
  using rmd160_correct [of "sha256_reference p" "sha256_reference p"]
    be_word_or(2) [of "take 4 (rmd160_reference (sha256_reference p))"]
  by (simp add: key_fingerprint_def sha256_raw_reference mem_simps key_hash_def DOGECOIN_ECKEY_COMPRESSED_LENGTH_def)

text \<open>
  The hash that a child is made of, from the chain code and the serialised key of its parent: the left half is added to
  the key, the right half is the new chain code. \<open>ckd_priv\<close> is the child of the standard, which does not exist when
  the left half or the sum is out of range.
\<close>

definition child_hash :: "bytes \<Rightarrow> bytes \<Rightarrow> u32 \<Rightarrow> bytes" where
  "child_hash c d i = hmac_reference sha512_reference 128 c (d @ be32 i)"

definition hardened :: "u32 \<Rightarrow> bool" where
  "hardened i \<longleftrightarrow> i AND 0x80000000 \<noteq> 0"

definition ckd_hash :: "dogecoin_hdnode \<Rightarrow> u32 \<Rightarrow> bytes" where
  "ckd_hash n i = child_hash (chain_code n) (if hardened i then 0 # hd_private_key n else hd_public_key n) i"

definition ckd_priv :: "('pk, 'sig) secp256k1 \<Rightarrow> dogecoin_hdnode \<Rightarrow> u32 \<Rightarrow> dogecoin_hdnode option" where
  "ckd_priv secp n i =
     (let I = ckd_hash n i; (ok, k) = ec_privkey_tweak_add secp (hd_private_key n) (take 32 I)
      in if ec_seckey_verify secp (take 32 I) \<and> ok
         then Some \<lparr>depth = depth n + 1, fingerprint = be_word (take 4 (key_hash (hd_public_key n))), child_num = i,
                chain_code = drop 32 I, hd_private_key = k, hd_public_key = public_key secp k\<rparr>
         else None)"

text \<open>The documented laws of public keys and of adding a tweak, a node with both keys, and the node with the public key only.\<close>

definition key_laws :: "('pk, 'sig) secp256k1 \<Rightarrow> bool" where
  "key_laws secp \<longleftrightarrow> (\<forall>k. valid_key secp k \<longrightarrow> (\<exists>pk. ec_pubkey_create secp k = Some pk
     \<and> length (ec_pubkey_serialize secp pk True) = 33 \<and> ec_pubkey_parse secp (ec_pubkey_serialize secp pk True) = Some pk))"

definition hd_full :: "('pk, 'sig) secp256k1 \<Rightarrow> dogecoin_hdnode \<Rightarrow> bool" where
  "hd_full secp n \<longleftrightarrow> length (chain_code n) = 32 \<and> valid_key secp (hd_private_key n)
     \<and> hd_public_key n = public_key secp (hd_private_key n)"

definition neuter :: "dogecoin_hdnode \<Rightarrow> dogecoin_hdnode" where
  "neuter n = n\<lparr>hd_private_key := replicate 32 0\<rparr>"

definition tweak_laws :: "('pk, 'sig) secp256k1 \<Rightarrow> bool" where
  "tweak_laws secp \<longleftrightarrow> (\<forall>k t. valid_key secp k \<longrightarrow> length t = 32 \<longrightarrow>
     (let (ok, k') = ec_privkey_tweak_add secp k t
      in length k' = 32 \<and> (ok \<longrightarrow> ec_seckey_verify secp k')
       \<and> (\<forall>pk. ec_pubkey_create secp k = Some pk \<longrightarrow>
            ec_pubkey_tweak_add secp pk t = (if ok then ec_pubkey_create secp k' else None))))"

lemma key_laws_of_curve: "secp256k1_laws secp \<Longrightarrow> key_laws secp"
  unfolding secp256k1_laws_def key_laws_def valid_key_def by blast

lemma key_laws_public:
  assumes "key_laws secp" "valid_key secp k"
  shows "\<exists>pk. ec_pubkey_create secp k = Some pk \<and> ec_pubkey_serialize secp pk True = public_key secp k
    \<and> length (public_key secp k) = 33 \<and> ec_pubkey_parse secp (public_key secp k) = Some pk"
  using assms unfolding key_laws_def public_key_def by (auto split: option.splits)

lemma length_sha512_reference [simp]: "length (hmac_reference sha512_reference 128 c d) = 64"
  by (rule length_hmac512)

lemma length_child_hash [simp]: "length (child_hash c d i) = 64"
  by (simp add: child_hash_def)

lemma length_ckd_hash [simp]: "length (ckd_hash n i) = 64"
  by (simp add: ckd_hash_def)

lemma hmac_child: "hmac_sha512 c (d @ be32 i) (replicate 64 0) = Some (child_hash c d i)"
  by (simp add: hmac_sha512_reference child_hash_def)

lemma fill_public_key:
  assumes "key_laws secp" "valid_key secp (hd_private_key n)" "length (hd_public_key n) = 33"
  shows "dogecoin_hdnode_fill_public_key secp n = Some (n\<lparr>hd_public_key := public_key secp (hd_private_key n)\<rparr>)"
proof -
  obtain pk where "ec_pubkey_create secp (hd_private_key n) = Some pk"
    "ec_pubkey_serialize secp pk True = public_key secp (hd_private_key n)"
    "length (public_key secp (hd_private_key n)) = 33"
    using key_laws_public [OF assms(1,2)] by blast
  then show ?thesis using assms(2,3)
    by (simp add: dogecoin_hdnode_fill_public_key_def dogecoin_ecc_get_pubkey_def serialized_key_length_def
        DOGECOIN_ECKEY_COMPRESSED_LENGTH_def valid_key_def mem_simps)
qed

lemma hd_fullD:
  assumes "key_laws secp" "hd_full secp n"
  shows "length (chain_code n) = 32" "length (hd_private_key n) = 32" "length (hd_public_key n) = 33"
    "valid_key secp (hd_private_key n)" "hd_public_key n = public_key secp (hd_private_key n)"
  using assms key_laws_public by (auto simp: hd_full_def valid_key_def)

text \<open>Both functions on such a node.\<close>

lemma private_ckd_step:
  assumes "key_laws secp" "tweak_laws secp" "hd_full secp n"
  shows "dogecoin_hdnode_private_ckd secp n i = Some (True,
      case ckd_priv secp n i of Some m \<Rightarrow> m
      | None \<Rightarrow> n\<lparr>fingerprint := be_word (take 4 (key_hash (hd_public_key n))), chain_code := drop 32 (ckd_hash n i),
          hd_private_key := snd (ec_privkey_tweak_add secp (hd_private_key n) (take 32 (ckd_hash n i)))\<rparr>)"
proof -
  note n = hd_fullD [OF assms(1,3)]
  let ?I = "ckd_hash n i"
  have I: "length ?I = 64" by (simp add: ckd_hash_def)
  obtain ok k where t: "ec_privkey_tweak_add secp (hd_private_key n) (take 32 ?I) = (ok, k)" by fastforce
  have k: "length k = 32" "ok \<Longrightarrow> valid_key secp k"
    using assms(2) [unfolded tweak_laws_def, rule_format, OF n(4), of "take 32 ?I"] t I by (auto simp: valid_key_def)
  let ?x = "if hardened i then 0 # hd_private_key n else hd_public_key n"
  have x: "length ?x = 33" using n(2,3) by simp
  have d: "(if i AND 0x80000000 \<noteq> 0 then mem_write (replicate 37 0) 0 (0 # hd_private_key n)
      else mem_write (replicate 37 0) 0 (hd_public_key n)) = Some (?x @ replicate 4 0)"
    using n(2,3) by (simp add: mem_simps hardened_def flip: replicate_Suc)
  have w: "write_be (?x @ replicate 4 0) 33 i = Some (?x @ be32 i)"
    using x by (simp add: write_be_def mem_write_def)
  have h: "hmac_sha512 (chain_code n) (?x @ be32 i) (replicate 64 0) = Some ?I"
    using hmac_child [of "chain_code n" ?x i] by (simp add: ckd_hash_def)
  have f: "dogecoin_ecc_private_key_tweak_add secp (hd_private_key n) (take 32 ?I) = Some (ok, k)"
    using n(2) k(1) I by (simp add: dogecoin_ecc_private_key_tweak_add_def mem_simps t)
  have v: "dogecoin_ecc_verify_privatekey secp (take 32 ?I) = Some (ec_seckey_verify secp (take 32 ?I))"
    using I by (simp add: dogecoin_ecc_verify_privatekey_def mem_simps)
  have r: "mem_read (hd_private_key n) 0 32 = Some (hd_private_key n)" "mem_read (hd_public_key n) 0 33 = Some (hd_public_key n)"
    "mem_read (chain_code n) 0 32 = Some (chain_code n)" "mem_read ?I 0 32 = Some (take 32 ?I)" "mem_read ?I 32 32 = Some (drop 32 ?I)"
    using n(1-3) I by (simp_all add: mem_simps)
  show ?thesis
    using n(3) k(2) fill_public_key [OF assms(1)]
    by (simp add: dogecoin_hdnode_private_ckd_def DOGECOIN_ECKEY_PKEY_LENGTH_def DOGECOIN_ECKEY_COMPRESSED_LENGTH_def
        DOGECOIN_BIP32_CHAINCODE_SIZE_def r d w key_fingerprint_hash h f v ckd_priv_def t Let_def)
qed

lemma public_ckd_step:
  assumes "key_laws secp" "tweak_laws secp" "hd_full secp n" "ckd_priv secp n i = Some m"
  shows "dogecoin_hdnode_public_ckd secp (neuter n) i = Some (if hardened i then (False, neuter n) else (True, neuter m))"
proof (cases "hardened i")
  case True
  then show ?thesis by (simp add: dogecoin_hdnode_public_ckd_def hardened_def)
next
  case False
  note n = hd_fullD [OF assms(1,3)]
  let ?I = "ckd_hash n i"
  have I: "length ?I = 64" "?I = child_hash (chain_code n) (hd_public_key n) i" using False by (simp_all add: ckd_hash_def)
  obtain ok k where t: "ec_privkey_tweak_add secp (hd_private_key n) (take 32 ?I) = (ok, k)" by fastforce
  obtain pk where pk: "ec_pubkey_create secp (hd_private_key n) = Some pk" "ec_pubkey_parse secp (hd_public_key n) = Some pk"
    using key_laws_public [OF assms(1) n(4)] n(5) by auto
  have ok: ok "m = \<lparr>depth = depth n + 1, fingerprint = be_word (take 4 (key_hash (hd_public_key n))), child_num = i,
      chain_code = drop 32 ?I, hd_private_key = k, hd_public_key = public_key secp k\<rparr>"
    using assms(4) by (auto simp: ckd_priv_def t Let_def split: if_splits)
  have k: "length k = 32" "valid_key secp k" "ec_pubkey_tweak_add secp pk (take 32 ?I) = ec_pubkey_create secp k"
    using assms(2) [unfolded tweak_laws_def, rule_format, OF n(4), of "take 32 ?I"] t I(1) ok(1) pk(1) by (auto simp: valid_key_def)
  obtain qk where q: "ec_pubkey_create secp k = Some qk" "ec_pubkey_serialize secp qk True = public_key secp k"
    "length (public_key secp k) = 33" using key_laws_public [OF assms(1) k(2)] by blast
  have p: "dogecoin_ecc_public_key_tweak_add secp (hd_public_key n) ?I = Some (True, public_key secp k)"
    using n(3) I(1) pk k(3) q by (simp add: dogecoin_ecc_public_key_tweak_add_def mem_simps)
  have w: "write_be (hd_public_key n @ replicate 4 0) 33 i = Some (hd_public_key n @ be32 i)"
    "mem_write (replicate 37 0) 0 (hd_public_key n) = Some (hd_public_key n @ replicate 4 0)"
    using n(3) by (simp_all add: write_be_def mem_write_def)
  have r: "mem_read (hd_public_key n) 0 33 = Some (hd_public_key n)"
    "mem_read (chain_code n) 0 32 = Some (chain_code n)" "mem_read ?I 32 32 = Some (drop 32 ?I)"
    using n(1-3) I(1) by (simp_all add: mem_simps)
  show ?thesis
    using False n(3) hmac_child [of "chain_code n" "hd_public_key n" i] r(3)
    by (simp add: dogecoin_hdnode_public_ckd_def hardened_def DOGECOIN_ECKEY_COMPRESSED_LENGTH_def neuter_def ok(2) I(2) [symmetric]
        DOGECOIN_BIP32_CHAINCODE_SIZE_def r w key_fingerprint_hash p Let_def)
qed

lemma ckd_full:
  assumes "tweak_laws secp" "hd_full secp n" "ckd_priv secp n i = Some m"
  shows "hd_full secp m"
proof -
  obtain ok k where t: "ec_privkey_tweak_add secp (hd_private_key n) (take 32 (ckd_hash n i)) = (ok, k)" by fastforce
  have "length k = 32 \<and> (ok \<longrightarrow> ec_seckey_verify secp k)"
    using assms(1) [unfolded tweak_laws_def, rule_format, of "hd_private_key n" "take 32 (ckd_hash n i)"] t assms(2)
    by (auto simp: hd_full_def)
  then show ?thesis using assms(3) length_ckd_hash [of n i]
    by (auto simp: ckd_priv_def t hd_full_def valid_key_def Let_def split: if_splits)
qed

text \<open>The node of a seed.\<close>

definition master_node :: "('pk, 'sig) secp256k1 \<Rightarrow> bytes \<Rightarrow> dogecoin_hdnode option" where
  "master_node secp seed =
     (let I = hmac_reference sha512_reference 128 seed_key seed
      in if ec_seckey_verify secp (take 32 I)
         then Some \<lparr>depth = 0, fingerprint = 0, child_num = 0, chain_code = drop 32 I,
                hd_private_key = take 32 I, hd_public_key = public_key secp (take 32 I)\<rparr>
         else None)"

lemma new_fields [simp]:
  "length (chain_code dogecoin_hdnode_new) = 32" "length (hd_private_key dogecoin_hdnode_new) = 32"
  "length (hd_public_key dogecoin_hdnode_new) = 33" "depth dogecoin_hdnode_new = 0"
  "fingerprint dogecoin_hdnode_new = 0" "child_num dogecoin_hdnode_new = 0"
  by (simp_all add: dogecoin_hdnode_new_def)

lemma from_seed_master:
  assumes "key_laws secp"
  shows "dogecoin_hdnode_from_seed secp (seed @ rest) (length seed) = Some (case master_node secp seed of Some m \<Rightarrow> (True, m)
      | None \<Rightarrow> (False, dogecoin_hdnode_new\<lparr>hd_private_key := take 32 (hmac_reference sha512_reference 128 seed_key seed)\<rparr>))"
proof -
  let ?I = "hmac_reference sha512_reference 128 seed_key seed"
  have r: "mem_read ?I 0 32 = Some (take 32 ?I)" "mem_read ?I 32 32 = Some (drop 32 ?I)" "mem_read (seed @ rest) 0 (length seed) = Some seed"
    by (simp_all add: mem_simps)
  have v: "dogecoin_ecc_verify_privatekey secp (take 32 ?I) = Some (ec_seckey_verify secp (take 32 ?I))"
    by (simp add: dogecoin_ecc_verify_privatekey_def mem_simps)
  show ?thesis
    using fill_public_key [OF assms, of "dogecoin_hdnode_new\<lparr>hd_private_key := take 32 ?I, chain_code := drop 32 ?I\<rparr>"]
    by (simp add: dogecoin_hdnode_from_seed_def r v hmac_sha512_reference master_node_def Let_def valid_key_def
        DOGECOIN_ECKEY_PKEY_LENGTH_def DOGECOIN_BIP32_CHAINCODE_SIZE_def dogecoin_hdnode_new_def)
qed

lemma master_full: "master_node secp seed = Some m \<Longrightarrow> hd_full secp m"
  by (auto simp: master_node_def hd_full_def valid_key_def Let_def split: if_splits)

section \<open>Nodes as text\<close>

definition hd_bytes :: "u32 \<Rightarrow> bool \<Rightarrow> dogecoin_hdnode \<Rightarrow> bytes" where
  "hd_bytes version pub n = be32 version @ [ucast (depth n)] @ be32 (fingerprint n) @ be32 (child_num n) @ chain_code n
     @ (if pub then hd_public_key n else 0 # hd_private_key n)"

definition hd_sizes :: "dogecoin_hdnode \<Rightarrow> bool" where
  "hd_sizes n \<longleftrightarrow> length (chain_code n) = 32 \<and> length (hd_private_key n) = 32 \<and> length (hd_public_key n) = 33"

lemma length_hd_bytes: "hd_sizes n \<Longrightarrow> length (hd_bytes v pub n) = 78"
  by (simp add: hd_bytes_def hd_sizes_def)

lemma mem_read_all [mem_simps]: "length b = n \<Longrightarrow> mem_read b 0 n = Some b"
  by (simp add: mem_read_def)

lemma serialize_bytes:
  assumes "hd_sizes n"
  shows "dogecoin_hdnode_serialize n v pub s k = map_option snd (dogecoin_base58_encode_check (hd_bytes v pub n) 78 s k)"
proof -
  let ?a = "be32 v" let ?b = "?a @ [ucast (depth n)]" let ?c = "?b @ be32 (fingerprint n)" let ?d = "?c @ be32 (child_num n)"
  let ?e = "?d @ chain_code n"
  have l: "length (chain_code n) = 32" "length (hd_private_key n) = 32" "length (hd_public_key n) = 33"
    using assms by (simp_all add: hd_sizes_def)
  have r: "replicate 74 0 = (0 :: u8) # replicate 73 0" "replicate (Suc 0) 0 = [0 :: u8]"
    by (simp flip: replicate_Suc) simp
  have w: "write_be (replicate 78 0) 0 v = Some (?a @ replicate 74 0)"
    "mem_set (?a @ replicate 74 0) 4 (ucast (depth n)) = Some (?b @ replicate 73 0)"
    "write_be (?b @ replicate 73 0) 5 (fingerprint n) = Some (?c @ replicate 69 0)"
    "write_be (?c @ replicate 69 0) 9 (child_num n) = Some (?d @ replicate 65 0)"
    "mem_write (?d @ replicate 65 0) 13 (chain_code n) = Some (?e @ replicate 33 0)"
    "mem_write (?e @ replicate 33 0) 45 (hd_public_key n) = Some (?e @ hd_public_key n)"
    "mem_set (?e @ replicate 33 0) 45 0 = Some (?e @ replicate 33 0)"
    "mem_write (?e @ replicate 33 0) 46 (hd_private_key n) = Some (?e @ 0 # hd_private_key n)"
    using l r by (simp_all add: write_be_def mem_write_def mem_set_def list_update_append nth_append list_update_same_conv)
  show ?thesis
    by (simp only: dogecoin_hdnode_serialize_def w l mem_read_all DOGECOIN_ECKEY_PKEY_LENGTH_def DOGECOIN_ECKEY_COMPRESSED_LENGTH_def
        DOGECOIN_BIP32_CHAINCODE_SIZE_def bind.bind_lunit)
      (auto simp: hd_bytes_def map_option_case split: option.splits)
qed

text \<open>The text of a node takes at most 111 characters: the 112 bytes of its callers hold it, and so does the buffer that
  reads it.\<close>

lemma check_text_fits_word:
  assumes "check_text (be32 v @ p) t" "(unat v + 1) * 256 ^ (length p + 4) \<le> 58 ^ k" "be32 v ! 0 \<noteq> 0"
  shows "length t \<le> k"
proof -
  let ?q = "p @ take 4 (sha256d (be32 v @ p))"
  have v: "radix 256 (nats (be32 v)) = unat v"
    using le_nat_radix [of "rev (be32 v)"] by (simp add: be32_rev le_nat_le_bytes unat_u32_less del: le_bytes_numeral)
  have "radix 256 (nats (be32 v @ ?q)) < (unat v + 1) * 256 ^ (length p + 4)"
    using bytes_radix_less [of ?q] by (simp add: radix_append v)
  then have "radix 256 (nats (checked (be32 v @ p))) < 58 ^ k"
    using assms(2) by (simp add: checked_def del: map_append)
  moreover have "\<exists>b bs. checked (be32 v @ p) = b # bs \<and> b \<noteq> 0"
    using assms(3) by (auto simp: checked_def be32_def)
  ultimately show ?thesis using assms(1) b58_digits_at_most [of "checked (be32 v @ p)" _ k]
    unfolding check_text_def by auto
qed

definition hd_version :: "dogecoin_chainparams \<Rightarrow> bool \<Rightarrow> u32" where
  "hd_version chain pub = (if pub then b58prefix_bip32_pubkey chain else b58prefix_bip32_privkey chain)"

lemma network_versions:
  assumes "chain \<in> networks"
  shows "unat (hd_version chain pub) \<le> 0x043587cf" "be32 (hd_version chain pub) ! 0 \<noteq> 0"
    "b58prefix_bip32_pubkey chain \<noteq> b58prefix_bip32_privkey chain"
  using assms by (auto simp: networks_def hd_version_def be32_def dogecoin_chainparams_main_def dogecoin_chainparams_test_def
      dogecoin_chainparams_regtest_def)

lemma hd_text:
  assumes "chain \<in> networks" "hd_sizes n"
  shows "\<exists>t. check_text (hd_bytes (hd_version chain pub) pub n) t \<and> length t \<le> 111"
proof -
  let ?p = "[ucast (depth n)] @ be32 (fingerprint n) @ be32 (child_num n) @ chain_code n @ (if pub then hd_public_key n else 0 # hd_private_key n)"
  have p: "hd_bytes (hd_version chain pub) pub n = be32 (hd_version chain pub) @ ?p" by (simp add: hd_bytes_def)
  have l: "length ?p = 74" using assms(2) by (simp add: hd_sizes_def)
  obtain t where t: "check_text (be32 (hd_version chain pub) @ ?p) t"
    using check_text_ex [of "be32 (hd_version chain pub) @ ?p"] l by auto
  have "(unat (hd_version chain pub) + 1) * 256 ^ (length ?p + 4) \<le> 0x043587d0 * 256 ^ 78"
    unfolding l using network_versions(1) [OF assms(1), of pub] by (intro mult_le_mono) simp_all
  also have "(0x043587d0 :: nat) * 256 ^ 78 \<le> 58 ^ 111" by simp
  finally have "length t \<le> 111" by (rule check_text_fits_word [OF t _ network_versions(2) [OF assms(1)]])
  with t show ?thesis unfolding p by blast
qed

lemma serialize_text:
  assumes "hd_sizes n" "check_text (hd_bytes v pub n) t" "length t < k" "length t < length s"
  shows "dogecoin_hdnode_serialize n v pub s k = Some (t @ 0 # drop (length t + 1) s)"
  using check_text_write [OF assms(2-4)] by (simp add: serialize_bytes [OF assms(1)] length_hd_bytes [OF assms(1)])

text \<open>Reading the text back: the depth is kept modulo 256, and one of the keys.\<close>

lemma hd_bytes_parts:
  fixes n v pub r
  assumes "hd_sizes n"
  defines "d \<equiv> hd_bytes v pub n @ r"
  shows "read_be d 0 = Some v" "mem_get d 4 = Some (ucast (depth n))" "read_be d 5 = Some (fingerprint n)"
    "read_be d 9 = Some (child_num n)" "mem_read d 13 32 = Some (chain_code n)"
    "pub \<Longrightarrow> mem_read d 45 33 = Some (hd_public_key n)"
    "\<not> pub \<Longrightarrow> mem_get d 45 = Some 0" "\<not> pub \<Longrightarrow> mem_read d 46 32 = Some (hd_private_key n)"
  using assms(1) unfolding d_def
  by (simp_all add: hd_sizes_def hd_bytes_def read_be_word mem_read_def mem_get_def nth_append)

lemma byte_of_word: "ucast (ucast x :: u8) = (x AND 255 :: u32)"
proof -
  have m: "(255 :: u32) = mask 8" by (simp add: mask_eq_exp_minus_1)
  show ?thesis unfolding m by (rule bit_word_eqI) (auto simp: bit_simps)
qed

lemma decode_text:
  assumes "hd_sizes n" "check_text (hd_bytes v pub n) t" "length t \<le> 111" "be32 v ! 0 \<noteq> 0"
  shows "dogecoin_base58_decode_check (t @ 0 # r) (replicate 112 0) 112
    = Some (82, hd_bytes v pub n @ take 4 (sha256d (hd_bytes v pub n)) @ replicate 30 0)"
proof -
  have "\<exists>b\<in>set (hd_bytes v pub n). b \<noteq> 0" using assms(4) by (auto simp: hd_bytes_def be32_def)
  then show ?thesis
    using check_text_decode [OF assms(2), of 112 "replicate 112 0" r] length_hd_bytes [OF assms(1)] assms(3) by simp
qed

lemma deserialize_public:
  assumes "hd_sizes n" "check_text (hd_bytes (b58prefix_bip32_pubkey chain) True n) t" "length t \<le> 111"
    "be32 (b58prefix_bip32_pubkey chain) ! 0 \<noteq> 0"
  shows "dogecoin_hdnode_deserialize secp (Some (t @ 0 # r)) chain node
    = Some (True, n\<lparr>depth := depth n AND 255, hd_private_key := replicate 32 0\<rparr>)"
  by (simp add: dogecoin_hdnode_deserialize_def decode_text [OF assms] hd_bytes_parts [OF assms(1)] byte_of_word
      DOGECOIN_ECKEY_COMPRESSED_LENGTH_def DOGECOIN_BIP32_CHAINCODE_SIZE_def)
    (simp add: dogecoin_hdnode_new_def)

lemma deserialize_private:
  assumes "key_laws secp" "hd_full secp n" "check_text (hd_bytes (b58prefix_bip32_privkey chain) False n) t" "length t \<le> 111"
    "be32 (b58prefix_bip32_privkey chain) ! 0 \<noteq> 0" "b58prefix_bip32_pubkey chain \<noteq> b58prefix_bip32_privkey chain"
  shows "dogecoin_hdnode_deserialize secp (Some (t @ 0 # r)) chain node = Some (True, n\<lparr>depth := depth n AND 255\<rparr>)"
proof -
  note f = hd_fullD [OF assms(1,2)]
  have s: "hd_sizes n" using f(1-3) by (simp add: hd_sizes_def)
  show ?thesis
    using assms(6) fill_public_key [OF assms(1), of "dogecoin_hdnode_new\<lparr>hd_private_key := hd_private_key n\<rparr>"] f(4,5)
    by (simp add: dogecoin_hdnode_deserialize_def decode_text [OF s assms(3-5)] hd_bytes_parts [OF s] byte_of_word
        DOGECOIN_ECKEY_PKEY_LENGTH_def DOGECOIN_BIP32_CHAINCODE_SIZE_def)
qed

lemma deserialize_other:
  assumes "hd_sizes n" "check_text (hd_bytes v pub n) t" "length t \<le> 111" "be32 v ! 0 \<noteq> 0"
    "v \<noteq> b58prefix_bip32_pubkey chain" "v \<noteq> b58prefix_bip32_privkey chain"
  shows "dogecoin_hdnode_deserialize secp (Some (t @ 0 # r)) chain node = Some (False, dogecoin_hdnode_new)"
  using assms(5,6) by (simp add: dogecoin_hdnode_deserialize_def decode_text [OF assms(1-4)] hd_bytes_parts [OF assms(1)])

text \<open>Only the two version bytes of the parameters matter for reading, and the node handed in is overwritten.\<close>

lemma same_versions:
  assumes "b58prefix_bip32_pubkey chain = b58prefix_bip32_pubkey other" "b58prefix_bip32_privkey chain = b58prefix_bip32_privkey other"
  shows "dogecoin_hdnode_deserialize secp t other x = dogecoin_hdnode_deserialize secp t chain x"
  unfolding dogecoin_hdnode_deserialize_def assms ..

section \<open>Properties\<close>

text \<open>C15: Deriving a child. From a node with both keys \<open>dogecoin_hdnode_private_ckd\<close> gives the child of the standard, a
  node with both keys again. Without the private key, \<open>dogecoin_hdnode_public_ckd\<close> refuses a hardened index and for
  every other gives the same child without its private key. The master node of a seed is the one of the standard.\<close>

theorem child_derivation:
  assumes "key_laws secp" "tweak_laws secp" "hd_full secp n" "ckd_priv secp n i = Some m"
  shows "dogecoin_hdnode_private_ckd secp n i = Some (True, m) \<and> hd_full secp m
    \<and> dogecoin_hdnode_public_ckd secp (neuter n) i = Some (if hardened i then (False, neuter n) else (True, neuter m))
    \<and> depth m = depth n + 1 \<and> child_num m = i \<and> be32 (fingerprint m) = take 4 (key_hash (hd_public_key n))
    \<and> map_option fst (dogecoin_hdnode_from_seed secp seed (length seed)) = Some (master_node secp seed \<noteq> None)
    \<and> (\<forall>m'. master_node secp seed = Some m' \<longrightarrow> dogecoin_hdnode_from_seed secp seed (length seed) = Some (True, m') \<and> hd_full secp m')"
proof -
  have "depth m = depth n + 1 \<and> child_num m = i \<and> be32 (fingerprint m) = take 4 (key_hash (hd_public_key n))"
    using assms(4) by (auto simp: ckd_priv_def Let_def be32_be_word split: if_splits prod.splits)
  then show ?thesis
    using private_ckd_step [OF assms(1-3), of i] public_ckd_step [OF assms] ckd_full [OF assms(2-4)] assms(4)
      from_seed_master [OF assms(1), of seed "[]"] master_full [of secp seed]
    by (auto split: option.splits)
qed

text \<open>A curve for examples, on which adding a tweak is exclusive or.\<close>

definition xor_curve :: "(bytes, bytes) secp256k1" where
  "xor_curve = sample_curve\<lparr>ec_seckey_verify := (\<lambda>k. True), ec_pubkey_create := Some,
     ec_privkey_tweak_add := (\<lambda>k t. (True, map2 (XOR) k t)), ec_pubkey_tweak_add := (\<lambda>pk t. Some (map2 (XOR) pk t))\<rparr>"

definition sample_node :: dogecoin_hdnode where
  "sample_node = \<lparr>depth = 3, fingerprint = 1, child_num = 2, chain_code = replicate 32 5,
     hd_private_key = replicate 32 7, hd_public_key = 2 # replicate 32 7\<rparr>"

lemma xor_curve_laws: "key_laws xor_curve" "tweak_laws xor_curve"
  by (simp_all add: key_laws_def tweak_laws_def valid_key_def xor_curve_def sample_curve_def)

lemma sample_node_full: "hd_full xor_curve sample_node"
  by (simp add: hd_full_def sample_node_def valid_key_def public_key_def xor_curve_def sample_curve_def)

lemma xor_child: "\<exists>m. ckd_priv xor_curve n i = Some m"
  by (simp add: ckd_priv_def xor_curve_def Let_def)

lemma child_derivation_witness:
  "\<exists>m. dogecoin_hdnode_private_ckd xor_curve sample_node 6 = Some (True, m)
    \<and> dogecoin_hdnode_public_ckd xor_curve (neuter sample_node) 6 = Some (True, neuter m)"
proof -
  obtain m where "ckd_priv xor_curve sample_node 6 = Some m" using xor_child by blast
  from child_derivation [OF xor_curve_laws sample_node_full this] show ?thesis by (auto simp: hardened_def)
qed

text \<open>C22: A derivation that fails is reported as a success. When the sum of key and tweak is out of range, both functions
  return true: the private one leaves the keys' numbers and the public key but replaces the chain code, the public one
  counts the depth up as well, with the key of the parent as that of the child.\<close>

theorem failed_derivation_succeeds:
  assumes "key_laws secp" "tweak_laws secp" "hd_full secp n" "\<not> hardened i"
    and "\<not> fst (ec_privkey_tweak_add secp (hd_private_key n) (take 32 (ckd_hash n i)))"
  shows "ckd_priv secp n i = None
    \<and> (\<exists>m. dogecoin_hdnode_private_ckd secp n i = Some (True, m) \<and> hd_public_key m = hd_public_key n
        \<and> depth m = depth n \<and> child_num m = child_num n \<and> chain_code m = drop 32 (ckd_hash n i))
    \<and> (\<exists>m. dogecoin_hdnode_public_ckd secp (neuter n) i = Some (True, m) \<and> hd_public_key m = hd_public_key n
        \<and> depth m = depth n + 1 \<and> child_num m = i \<and> chain_code m = drop 32 (ckd_hash n i))"
proof -
  note n = hd_fullD [OF assms(1,3)]
  let ?I = "ckd_hash n i"
  have c: "ckd_priv secp n i = None" using assms(5) by (auto simp: ckd_priv_def Let_def split: prod.splits)
  have I: "?I = child_hash (chain_code n) (hd_public_key n) i" using assms(4) by (simp add: ckd_hash_def)
  obtain pk where pk: "ec_pubkey_create secp (hd_private_key n) = Some pk" "ec_pubkey_parse secp (hd_public_key n) = Some pk"
    using key_laws_public [OF assms(1) n(4)] n(5) by auto
  have "ec_pubkey_tweak_add secp pk (take 32 ?I) = None"
    using assms(2) [unfolded tweak_laws_def, rule_format, OF n(4), of "take 32 ?I"] assms(5) pk(1) by (auto split: prod.splits)
  then have p: "dogecoin_ecc_public_key_tweak_add secp (hd_public_key n) ?I = Some (False, hd_public_key n)"
    using n(3) pk by (simp add: dogecoin_ecc_public_key_tweak_add_def mem_simps)
  have w: "write_be (hd_public_key n @ replicate 4 0) 33 i = Some (hd_public_key n @ be32 i)"
    "mem_write (replicate 37 0) 0 (hd_public_key n) = Some (hd_public_key n @ replicate 4 0)"
    using n(3) by (simp_all add: write_be_def mem_write_def)
  have "dogecoin_hdnode_public_ckd secp (neuter n) i = Some (True, (neuter n)\<lparr>fingerprint := be_word (take 4 (key_hash (hd_public_key n))),
      chain_code := drop 32 ?I, depth := depth n + 1, child_num := i\<rparr>)"
    using assms(4) n(1,3) hmac_child [of "chain_code n" "hd_public_key n" i]
    by (simp add: dogecoin_hdnode_public_ckd_def hardened_def DOGECOIN_ECKEY_COMPRESSED_LENGTH_def neuter_def I [symmetric]
        DOGECOIN_BIP32_CHAINCODE_SIZE_def w key_fingerprint_hash p mem_simps)
  then show ?thesis using c private_ckd_step [OF assms(1-3), of i] by (simp add: neuter_def)
qed

lemma failed_derivation_succeeds_witness:
  "\<exists>m. dogecoin_hdnode_public_ckd (xor_curve\<lparr>ec_privkey_tweak_add := (\<lambda>k t. (False, k)), ec_pubkey_tweak_add := (\<lambda>_ _. None)\<rparr>)
      (neuter sample_node) 6 = Some (True, m) \<and> hd_public_key m = hd_public_key sample_node \<and> depth m = 4"
  using failed_derivation_succeeds [of "xor_curve\<lparr>ec_privkey_tweak_add := (\<lambda>k t. (False, k)), ec_pubkey_tweak_add := (\<lambda>_ _. None)\<rparr>"
      sample_node 6]
  by (auto simp: key_laws_def tweak_laws_def valid_key_def xor_curve_def sample_curve_def hd_full_def sample_node_def
      public_key_def hardened_def)

lemma depth_byte: "unat (x :: u32) < 256 \<Longrightarrow> x AND 255 = x"
proof -
  assume x: "unat x < 256"
  have "x AND 255 = take_bit 8 x" by (simp add: take_bit_eq_mask mask_eq_exp_minus_1)
  also have "\<dots> = x" using x by (simp add: word_unat_eq_iff unsigned_take_bit_eq take_bit_nat_eq_self)
  finally show ?thesis .
qed

lemma hd_full_sizes: "key_laws secp \<Longrightarrow> hd_full secp n \<Longrightarrow> hd_sizes n"
  by (simp add: hd_sizes_def hd_fullD(1-3))

text \<open>The text of a node, from the private or the public key, and that it is read back.\<close>

lemma node_text:
  assumes "key_laws secp" "hd_full secp n" "chain \<in> networks" "unat (depth n) < 256"
  shows "\<exists>t. check_text (hd_bytes (hd_version chain pub) pub n) t \<and> length t \<le> 111
    \<and> (\<forall>s. 112 \<le> length s \<longrightarrow> dogecoin_hdnode_serialize n (hd_version chain pub) pub s 112 = Some (t @ 0 # drop (length t + 1) s))
    \<and> (\<forall>r x. dogecoin_hdnode_deserialize secp (Some (t @ 0 # r)) chain x = Some (True, if pub then neuter n else n))"
proof -
  note z = hd_full_sizes [OF assms(1,2)] and d = depth_byte [OF assms(4)]
  obtain t where t: "check_text (hd_bytes (hd_version chain pub) pub n) t" "length t \<le> 111" using hd_text [OF assms(3) z] by blast
  note v = network_versions(2) [OF assms(3), of pub]
  have "dogecoin_hdnode_deserialize secp (Some (t @ 0 # r)) chain x = Some (True, if pub then neuter n else n)" for r x
  proof (cases pub)
    case True
    then show ?thesis using deserialize_public [OF z, of chain t secp r x] t v d by (simp add: hd_version_def neuter_def)
  next
    case False
    then show ?thesis using deserialize_private [OF assms(1,2), of chain t r x] t v d network_versions(3) [OF assms(3)]
      by (simp add: hd_version_def)
  qed
  moreover have "dogecoin_hdnode_serialize n (hd_version chain pub) pub s 112 = Some (t @ 0 # drop (length t + 1) s)" if "112 \<le> length s" for s
    by (rule serialize_text [OF z t(1)]) (use t(2) that in simp_all)
  ultimately show ?thesis using t by blast
qed

text \<open>C19: A node survives its text. The private text of a node with both keys and a depth below 256 is read back as the node,
  the public text as the node without its private key; each takes at most 111 characters and fits the buffer of 112. Each is
  refused under parameters whose two version bytes both differ from those of the text: so the texts of the main network on the
  other two and the reverse, while the test network and the regression test network share their version bytes and read each
  other's texts. (Only eight bits of the depth are written.)\<close>

theorem hdnode_round_trip:
  assumes "key_laws secp" "hd_full secp n" "chain \<in> networks" "112 \<le> length s" "unat (depth n) < 256"
  shows "\<exists>t u. length t \<le> 111 \<and> length u \<le> 111
    \<and> dogecoin_hdnode_serialize_private n chain s 112 = Some (t @ 0 # drop (length t + 1) s)
    \<and> dogecoin_hdnode_serialize_public n chain s 112 = Some (u @ 0 # drop (length u + 1) s)
    \<and> dogecoin_hdnode_deserialize secp (Some (t @ 0 # r)) chain x = Some (True, n)
    \<and> dogecoin_hdnode_deserialize secp (Some (u @ 0 # r)) chain x = Some (True, neuter n)
    \<and> (\<forall>other. b58prefix_bip32_privkey chain \<notin> {b58prefix_bip32_pubkey other, b58prefix_bip32_privkey other} \<longrightarrow>
         dogecoin_hdnode_deserialize secp (Some (t @ 0 # r)) other x = Some (False, dogecoin_hdnode_new))
    \<and> (\<forall>other. b58prefix_bip32_pubkey chain \<notin> {b58prefix_bip32_pubkey other, b58prefix_bip32_privkey other} \<longrightarrow>
         dogecoin_hdnode_deserialize secp (Some (u @ 0 # r)) other x = Some (False, dogecoin_hdnode_new))
    \<and> (chain \<noteq> dogecoin_chainparams_main \<longrightarrow> (\<forall>other\<in>{dogecoin_chainparams_test, dogecoin_chainparams_regtest}.
         dogecoin_hdnode_deserialize secp (Some (t @ 0 # r)) other x = Some (True, n)))"
proof -
  note z = hd_full_sizes [OF assms(1,2)]
  obtain t where t: "check_text (hd_bytes (hd_version chain False) False n) t" "length t \<le> 111"
    "\<forall>s. 112 \<le> length s \<longrightarrow> dogecoin_hdnode_serialize n (hd_version chain False) False s 112 = Some (t @ 0 # drop (length t + 1) s)"
    "\<forall>r x. dogecoin_hdnode_deserialize secp (Some (t @ 0 # r)) chain x = Some (True, n)"
    using node_text [OF assms(1-3,5), of False] by auto
  obtain u where u: "check_text (hd_bytes (hd_version chain True) True n) u" "length u \<le> 111"
    "\<forall>s. 112 \<le> length s \<longrightarrow> dogecoin_hdnode_serialize n (hd_version chain True) True s 112 = Some (u @ 0 # drop (length u + 1) s)"
    "\<forall>r x. dogecoin_hdnode_deserialize secp (Some (u @ 0 # r)) chain x = Some (True, neuter n)"
    using node_text [OF assms(1-3,5), of True] by auto
  have shared: "dogecoin_hdnode_deserialize secp (Some (t @ 0 # r)) other x = Some (True, n)"
    if "chain \<noteq> dogecoin_chainparams_main" "other \<in> {dogecoin_chainparams_test, dogecoin_chainparams_regtest}" for other
    using t(4) same_versions [of chain other secp "Some (t @ 0 # r)" x] that assms(3)
    by (auto simp: networks_def dogecoin_chainparams_test_def dogecoin_chainparams_regtest_def)
  show ?thesis
    using t(2-4) u(2-4) assms(4) shared deserialize_other [OF z t(1,2) network_versions(2) [OF assms(3)], of _ secp r x]
      deserialize_other [OF z u(1,2) network_versions(2) [OF assms(3)], of _ secp r x]
    by (intro exI [of _ t] exI [of _ u])
      (simp add: dogecoin_hdnode_serialize_private_def dogecoin_hdnode_serialize_public_def hd_version_def)
qed

lemma hdnode_round_trip_witness:
  "\<exists>t. dogecoin_hdnode_serialize_private sample_node dogecoin_chainparams_main (replicate 112 0) 112 = Some (t @ 0 # drop (length t + 1) (replicate 112 0))
    \<and> dogecoin_hdnode_deserialize xor_curve (Some (t @ [0])) dogecoin_chainparams_main dogecoin_hdnode_new = Some (True, sample_node)"
  using hdnode_round_trip [OF xor_curve_laws(1) sample_node_full, of dogecoin_chainparams_main "replicate 112 0" "[]" dogecoin_hdnode_new]
  by (auto simp: networks_def sample_node_def)

end
