(* ===== verification/HdPath.thy ===== *)
theory HdPath
  imports HdNode
begin

text \<open>
  Derivation paths: \<open>dogecoin_hd_generate_key\<close> of \<open>src/bip32.c\<close> follows a path such as \<open>m/44'/3'/0'/0/5\<close>, \<open>src/bip44.c\<close>
  writes the path of an account, a change level and an address index and follows it, and \<open>src/address.c\<close> derives
  extended keys and addresses from the text of a master key.
\<close>

section \<open>Following a path\<close>

text \<open>The marks of a hardened index \<open>"phH'"\<close>, and a component of a path: whether it is one, and whether it is marked.\<close>

definition prime_marks :: bytes where "prime_marks = [112, 104, 72, 39]"

fun scan_token :: "bytes \<Rightarrow> bool \<Rightarrow> bool \<Rightarrow> bool \<times> bool" where
  "scan_token [] pub prm = (True, prm)"
| "scan_token (c # cs) pub prm =
     (if c \<in> set prime_marks then (if cs \<noteq> [] \<or> pub then (False, prm) else scan_token cs pub True)
      else if \<not> is_digit c then (False, prm)
      else scan_token cs pub prm)"

text \<open>\<open>strtok_r\<close> with the slash: the next component, and what follows it.\<close>

definition next_token :: "bytes \<Rightarrow> (bytes \<times> bytes) option" where
  "next_token s =
     (let s = dropWhile (\<lambda>c. c = 47) s
      in if s = [] then None else Some (takeWhile (\<lambda>c. c \<noteq> 47) s, drop 1 (dropWhile (\<lambda>c. c \<noteq> 47) s)))"

lemma next_token_length: "next_token s = Some (t, rest) \<Longrightarrow> length rest < length s"
proof -
  define u where "u = dropWhile (\<lambda>c. c = 47) s"
  define v where "v = dropWhile (\<lambda>c. c \<noteq> 47) u"
  have l: "length u \<le> length s" "length v \<le> length u" by (simp_all add: u_def v_def length_dropWhile_le)
  assume "next_token s = Some (t, rest)"
  then have "rest = drop 1 v" "u \<noteq> []" by (auto simp: next_token_def Let_def u_def v_def split: if_splits)
  then have "length rest = length v - 1" "0 < length u" by simp_all
  with l show ?thesis by linarith
qed

text \<open>The loop over the components, with the node derived so far.\<close>

function hd_path :: "('pk, 'sig) secp256k1 \<Rightarrow> bool \<Rightarrow> bytes \<Rightarrow> dogecoin_hdnode \<Rightarrow> (bool \<times> dogecoin_hdnode) option" where
  "hd_path secp pub s node =
     (case next_token s of
        None \<Rightarrow> Some (True, node)
      | Some (t, rest) \<Rightarrow>
          (let (ok, prm) = scan_token t pub False; idx = (case strtoull (t @ [0]) of (v, _) \<Rightarrow> v)
           in if \<not> ok \<or> idx > 0xffffffff then Some (False, node)
              else do {
                (r, node) \<leftarrow> (if prm then dogecoin_hdnode_private_ckd_prime secp node (ucast idx)
                            else if pub then dogecoin_hdnode_public_ckd secp node (ucast idx)
                            else dogecoin_hdnode_private_ckd secp node (ucast idx));
                (if \<not> r then Some (False, node) else hd_path secp pub rest node)
              }))"
  by pat_completeness auto
termination
  by (relation "measure (\<lambda>(secp, pub, s, node). length s)") (auto dest: next_token_length)

declare hd_path.simps [simp del]

definition dogecoin_hd_generate_key ::
    "('pk, 'sig) secp256k1 \<Rightarrow> dogecoin_hdnode \<Rightarrow> bytes \<Rightarrow> bytes \<Rightarrow> bytes \<Rightarrow> bool \<Rightarrow> (bool \<times> dogecoin_hdnode) option" where
  "dogecoin_hd_generate_key secp node keypath keymaster chaincode usepubckd = do {
     n \<leftarrow> c_strlen keypath;
     _ \<leftarrow> (if n < 1024 then Some () else None);
     (if n < 2 \<or> keypath ! 0 \<noteq> 109 \<or> keypath ! 1 \<noteq> 47 then Some (False, node)
      else do {
        c \<leftarrow> mem_read chaincode 0 DOGECOIN_BIP32_CHAINCODE_SIZE;
        c \<leftarrow> mem_write (chain_code node) 0 c;
        let node = node\<lparr>depth := 0, child_num := 0, fingerprint := 0, chain_code := c\<rparr>;
        node \<leftarrow> (if usepubckd then do {
                   p \<leftarrow> mem_read keymaster 0 DOGECOIN_ECKEY_COMPRESSED_LENGTH;
                   p \<leftarrow> mem_write (hd_public_key node) 0 p;
                   Some (node\<lparr>hd_public_key := p\<rparr>)
                 }
                 else do {
                   k \<leftarrow> mem_read keymaster 0 DOGECOIN_ECKEY_PKEY_LENGTH;
                   k \<leftarrow> mem_write (hd_private_key node) 0 k;
                   dogecoin_hdnode_fill_public_key secp (node\<lparr>hd_private_key := k\<rparr>)
                 });
        hd_path secp usepubckd (drop 2 (take n keypath)) node
      })
   }"

section \<open>The paths of accounts\<close>

text \<open>The decimal digits of \<open>%u\<close>, and \<open>snprintf\<close> into a buffer of \<open>n\<close> bytes.\<close>

definition uint_text :: "nat \<Rightarrow> bytes" where
  "uint_text n = (if n = 0 then [48] else decimal n)"

definition snprintf :: "bytes \<Rightarrow> nat \<Rightarrow> bytes \<Rightarrow> bytes option" where
  "snprintf buf n s = mem_write buf 0 (take (n - 1) s @ [0])"

definition BIP44_KEY_PATH_MAX_LENGTH :: nat where [code_values]: "BIP44_KEY_PATH_MAX_LENGTH = 255"
definition UINT32_MAX_DIGITS :: nat where [code_values]: "UINT32_MAX_DIGITS = 10"

text \<open>\<open>"m/44'/"\<close> and the numbers of the coin, \<open>"1"\<close> and \<open>"3"\<close>.\<close>

definition SLIP44_KEY_PATH :: bytes where "SLIP44_KEY_PATH = [109, 47, 52, 52, 39, 47]"

definition coin_type :: "bool \<Rightarrow> bytes" where
  "coin_type is_testnet = (if is_testnet then [49] else [51])"

text \<open>
  What both derivations do before the key is generated: the path is written, or an argument is refused. Pointers that
  may be null are options; the node that is written is never null.
\<close>

definition bip44_keypath :: "u32 \<Rightarrow> u32 option \<Rightarrow> bytes option \<Rightarrow> bytes option \<Rightarrow> bool \<Rightarrow> bytes option \<Rightarrow> bytes option option" where
  "bip44_keypath account address_index change_level custom_path is_testnet keypath =
     (case (change_level, keypath) of
        (Some level, Some keypath) \<Rightarrow> do {
          addr \<leftarrow> (case address_index of
                     None \<Rightarrow> Some (replicate (UINT32_MAX_DIGITS + 1) 0)
                   | Some i \<Rightarrow> snprintf (replicate (UINT32_MAX_DIGITS + 1) 0) (UINT32_MAX_DIGITS + 1) (47 # uint_text (unat i)));
          external \<leftarrow> same_string level [48, 0];
          internal \<leftarrow> (if external then Some False else same_string level [49, 0]);
          (if \<not> external \<and> \<not> internal then Some None
           else do {
             addr \<leftarrow> c_string addr;
             level \<leftarrow> c_string level;
             (case custom_path of
                Some path \<Rightarrow> do {
                  path \<leftarrow> c_string path;
                  map_option Some (snprintf keypath BIP44_KEY_PATH_MAX_LENGTH (path @ addr))
                }
              | None \<Rightarrow> map_option Some (snprintf keypath BIP44_KEY_PATH_MAX_LENGTH
                   (SLIP44_KEY_PATH @ coin_type is_testnet @ [39, 47] @ uint_text (unat account) @ [39, 47] @ level @ addr)))
           })
        }
      | _ \<Rightarrow> Some None)"

text \<open>The result 0 or -1, the path and the node.\<close>

definition derive_bip44_extended_private_key ::
    "('pk, 'sig) secp256k1 \<Rightarrow> dogecoin_hdnode \<Rightarrow> u32 \<Rightarrow> u32 option \<Rightarrow> bytes option \<Rightarrow> bytes option \<Rightarrow> bool \<Rightarrow> bytes option
      \<Rightarrow> dogecoin_hdnode \<Rightarrow> (int \<times> bytes option \<times> dogecoin_hdnode) option" where
  "derive_bip44_extended_private_key secp master_key account address_index change_level custom_path is_testnet keypath bip44_key = do {
     p \<leftarrow> bip44_keypath account address_index change_level custom_path is_testnet keypath;
     (case p of
        None \<Rightarrow> Some (-1, keypath, bip44_key)
      | Some path \<Rightarrow> do {
          (ok, node) \<leftarrow> dogecoin_hd_generate_key secp bip44_key path (hd_private_key master_key) (chain_code master_key) False;
          Some (if ok then 0 else -1, Some path, node)
        })
   }"

definition derive_bip44_extended_public_key ::
    "('pk, 'sig) secp256k1 \<Rightarrow> dogecoin_hdnode \<Rightarrow> u32 \<Rightarrow> u32 option \<Rightarrow> bytes option \<Rightarrow> bytes option \<Rightarrow> bool \<Rightarrow> bytes option
      \<Rightarrow> dogecoin_hdnode \<Rightarrow> (int \<times> bytes option \<times> dogecoin_hdnode) option" where
  "derive_bip44_extended_public_key secp master_key account address_index change_level custom_path is_testnet keypath bip44_key = do {
     p \<leftarrow> bip44_keypath account address_index change_level custom_path is_testnet keypath;
     (case p of
        None \<Rightarrow> Some (-1, keypath, bip44_key)
      | Some path \<Rightarrow> do {
          (ok, node) \<leftarrow> dogecoin_hd_generate_key secp bip44_key path (hd_public_key master_key) (chain_code master_key) True;
          Some (if ok then 0 else -1, Some path, node)
        })
   }"

section \<open>Paths as lists of indices\<close>

text \<open>A component of a path is a number and whether it is hardened; \<open>index_of\<close> is the index it stands for.\<close>

type_synonym hd_index = "nat \<times> bool"

definition comp_text :: "hd_index \<Rightarrow> bytes" where
  "comp_text p = uint_text (fst p) @ (if snd p then [39] else [])"

definition path_text :: "hd_index list \<Rightarrow> bytes" where
  "path_text ps = concat (map (\<lambda>p. 47 # comp_text p) ps)"

definition index_of :: "hd_index \<Rightarrow> u32" where
  "index_of p = (if snd p then of_nat (fst p) OR 0x80000000 else of_nat (fst p))"

text \<open>The node that the standard derives along a list of indices.\<close>

fun derive :: "('pk, 'sig) secp256k1 \<Rightarrow> u32 list \<Rightarrow> dogecoin_hdnode \<Rightarrow> dogecoin_hdnode option" where
  "derive secp [] n = Some n"
| "derive secp (i # is) n = (case ckd_priv secp n i of None \<Rightarrow> None | Some m \<Rightarrow> derive secp is m)"

lemma path_text_Nil [simp]: "path_text [] = []"
  and path_text_Cons [simp]: "path_text (p # ps) = 47 # comp_text p @ path_text ps"
  by (simp_all add: path_text_def)

lemma uint_text_digits: "list_all is_digit (uint_text n)" "uint_text n \<noteq> []" "dec_val 0 (uint_text n) = n"
proof -
  have "is_digit 48" by (simp add: is_digit_def word_le_nat_alt)
  moreover have "decimal n \<noteq> []" if "n \<noteq> 0" using that by (simp add: decimal.simps [of n])
  ultimately show "list_all is_digit (uint_text n)" "uint_text n \<noteq> []" "dec_val 0 (uint_text n) = n"
    by (auto simp: uint_text_def list_all_iff decimal_digits dec_val_decimal)
qed

lemma digit_not_mark: "is_digit c \<Longrightarrow> c \<noteq> 47 \<and> c \<notin> set prime_marks \<and> c \<noteq> 0"
  by (auto simp: is_digit_def prime_marks_def word_le_nat_alt)

lemma scan_digits: "list_all is_digit ds \<Longrightarrow> scan_token (ds @ s) pub prm = scan_token s pub prm"
  by (induction ds) (auto dest: digit_not_mark)

lemma scan_comp: "scan_token (comp_text p) pub False = (if snd p \<and> pub then (False, False) else (True, snd p))"
  using scan_digits [OF uint_text_digits(1), of "fst p" "if snd p then [39] else []" pub False]
  by (simp add: comp_text_def prime_marks_def)

lemma comp_no_slash: "\<forall>c\<in>set (comp_text p). c \<noteq> 47 \<and> c \<noteq> 0"
  using uint_text_digits(1) [of "fst p"] digit_not_mark by (auto simp: comp_text_def list_all_iff)

lemma strtoull_comp:
  assumes "fst p < 2 ^ 32"
  shows "fst (strtoull (comp_text p @ [0])) = of_nat (fst p)"
proof -
  obtain b bs where ds: "uint_text (fst p) = b # bs" using uint_text_digits(2) by (cases "uint_text (fst p)") auto
  then have b: "b \<noteq> 43" "b \<noteq> 45" "\<not> is_space b" using uint_text_digits(1) [of "fst p"] digit_nonzero by auto
  have "parse_digits 0 0 (uint_text (fst p) @ (if snd p then [39, 0] else [0])) = (fst p, length (uint_text (fst p)))"
    using parse_digits_digits [OF uint_text_digits(1), of "if snd p then [39, 0] else [0]" 0 0 "fst p"] uint_text_digits(3)
    by (simp add: is_digit_def word_le_nat_alt)
  moreover have "comp_text p @ [0] = uint_text (fst p) @ (if snd p then [39, 0] else [0])" by (simp add: comp_text_def)
  ultimately show ?thesis using b assms ds by (simp add: strtoull_def Let_def)
qed

lemma next_token_slash: "next_token (47 # s) = next_token s"
  by (simp add: next_token_def)

lemma hd_path_slash: "hd_path secp pub (47 # s) node = hd_path secp pub s node"
  by (simp add: hd_path.simps [of secp pub "47 # s"] hd_path.simps [of secp pub s] next_token_slash)

lemma next_token_comp: "next_token (comp_text p @ path_text ps) = Some (comp_text p, drop 1 (path_text ps))"
proof -
  obtain c cs where c: "comp_text p = c # cs" using uint_text_digits(2) [of "fst p"] by (cases "comp_text p") (auto simp: comp_text_def)
  then have "dropWhile (\<lambda>c. c = 47) (comp_text p @ path_text ps) = comp_text p @ path_text ps" using comp_no_slash [of p] by simp
  moreover have "takeWhile (\<lambda>c. c \<noteq> 47) (comp_text p @ path_text ps) = comp_text p"
    "dropWhile (\<lambda>c. c \<noteq> 47) (comp_text p @ path_text ps) = path_text ps"
    using comp_no_slash [of p] by (cases ps; simp add: takeWhile_append dropWhile_append)+
  ultimately show ?thesis using c by (simp add: next_token_def Let_def)
qed

lemma hd_path_comp:
  assumes "fst p < 2 ^ 32"
  shows "hd_path secp pub (path_text (p # ps)) node =
    (if snd p \<and> pub then Some (False, node)
     else do {
       (r, node) \<leftarrow> (if pub then dogecoin_hdnode_public_ckd secp node (index_of p) else dogecoin_hdnode_private_ckd secp node (index_of p));
       (if \<not> r then Some (False, node) else hd_path secp pub (path_text ps) node)
     })"
proof -
  have rest: "hd_path secp pub (drop (Suc 0) (path_text ps)) = hd_path secp pub (path_text ps)"
    by (rule ext) (cases ps; simp add: hd_path_slash)
  obtain v w where v: "strtoull (comp_text p @ [0]) = (v, w)" by (cases "strtoull (comp_text p @ [0])")
  then have vn: "v = of_nat (fst p)" using strtoull_comp [OF assms] by simp
  have "unat (of_nat (fst p) :: u64) = fst p" using assms by (simp add: unat_of_nat)
  then have le: "\<not> v > 0xffffffff" using assms by (simp add: vn word_less_nat_alt)
  have u: "(ucast v :: u32) = of_nat (fst p)" using assms by (simp add: vn word_unat_eq_iff unat_of_nat unsigned_ucast_eq take_bit_eq_mod)
  show ?thesis
    by (auto simp: hd_path_slash hd_path.simps [of secp pub "comp_text p @ path_text ps"] next_token_comp scan_comp v u le rest
        index_of_def dogecoin_hdnode_private_ckd_prime_def Let_def case_prod_beta' cong: if_cong)
qed

lemma hardened_index: "fst p < 2 ^ 32 \<Longrightarrow> hardened (index_of p) \<longleftrightarrow> snd p \<or> 2 ^ 31 \<le> fst p"
proof -
  assume n: "fst p < 2 ^ 32"
  have b: "bit (of_nat (fst p) :: u32) 31 \<longleftrightarrow> 2 ^ 31 \<le> fst p"
  proof -
    have "fst p div 2 ^ 31 < 2" using n by (simp add: less_mult_imp_div_less)
    moreover have "fst p div 2 ^ 31 = 0 \<longleftrightarrow> fst p < 2 ^ 31" by (simp add: div_eq_0_iff)
    ultimately have "odd (fst p div 2 ^ 31) \<longleftrightarrow> 2 ^ 31 \<le> fst p" by (cases "fst p div 2 ^ 31") auto
    moreover have "bit (of_nat (fst p) :: u32) 31 \<longleftrightarrow> bit (unat (of_nat (fst p) :: u32)) 31"
      by (subst bit_unsigned_iff) simp
    moreover have "unat (of_nat (fst p) :: u32) = fst p" using n by (simp add: unat_of_nat)
    ultimately show ?thesis by (simp add: bit_iff_odd)
  qed
  have "hardened i \<longleftrightarrow> bit i 31" for i :: u32
    using and_exp_eq_0_iff_not_bit [of i 31] by (simp add: hardened_def)
  moreover have "bit (0x80000000 :: u32) 31" using bit_exp_iff [where 'a = u32, of 31 31] by simp
  ultimately show ?thesis using b by (auto simp: index_of_def bit_or_iff)
qed

definition root_node :: "('pk, 'sig) secp256k1 \<Rightarrow> bytes \<Rightarrow> bytes \<Rightarrow> dogecoin_hdnode" where
  "root_node secp k c = \<lparr>depth = 0, fingerprint = 0, child_num = 0, chain_code = c, hd_private_key = k, hd_public_key = public_key secp k\<rparr>"

definition soft :: "hd_index list \<Rightarrow> bool" where
  "soft ps \<longleftrightarrow> (\<forall>p\<in>set ps. \<not> snd p \<and> fst p < 2 ^ 31)"

lemma path_private:
  assumes "key_laws secp" "tweak_laws secp" "hd_full secp n" "\<forall>p\<in>set ps. fst p < 2 ^ 32" "derive secp (map index_of ps) n = Some m"
  shows "hd_path secp False (path_text ps) n = Some (True, m) \<and> hd_full secp m"
  using assms(3-5)
proof (induction ps arbitrary: n)
  case Nil
  then show ?case by (simp add: hd_path.simps [of secp False "[]"] next_token_def)
next
  case (Cons p ps)
  then obtain n' where n': "ckd_priv secp n (index_of p) = Some n'" "derive secp (map index_of ps) n' = Some m"
    by (auto split: option.splits)
  have "dogecoin_hdnode_private_ckd secp n (index_of p) = Some (True, n')"
    using private_ckd_step [OF assms(1,2) Cons.prems(1)] n'(1) by simp
  moreover have "hd_full secp n'" by (rule ckd_full [OF assms(2) Cons.prems(1) n'(1)])
  ultimately show ?case
    using Cons.IH [of n'] Cons.prems(2) n'(2) hd_path_comp [of p secp False ps n] by simp
qed

lemma path_public:
  assumes "key_laws secp" "tweak_laws secp" "hd_full secp n" "\<forall>p\<in>set ps. fst p < 2 ^ 32" "derive secp (map index_of ps) n = Some m"
  shows "\<exists>y. hd_path secp True (path_text ps) (neuter n) = Some (soft ps, y) \<and> (soft ps \<longrightarrow> y = neuter m)"
  using assms(3-5)
proof (induction ps arbitrary: n)
  case Nil
  then show ?case by (simp add: hd_path.simps [of secp True "[]"] next_token_def soft_def)
next
  case (Cons p ps)
  then obtain n' where n': "ckd_priv secp n (index_of p) = Some n'" "derive secp (map index_of ps) n' = Some m"
    by (auto split: option.splits)
  have p: "fst p < 2 ^ 32" using Cons.prems(2) by simp
  note step = public_ckd_step [OF assms(1,2) Cons.prems(1) n'(1)] hardened_index [OF p] hd_path_comp [OF p, of secp True ps "neuter n"]
  have f: "hd_full secp n'" by (rule ckd_full [OF assms(2) Cons.prems(1) n'(1)])
  show ?case
  proof (cases "snd p \<or> 2 ^ 31 \<le> fst p")
    case True
    then have "\<not> soft (p # ps)" by (auto simp: soft_def)
    with True step show ?thesis by auto
  next
    case False
    then have "soft (p # ps) = soft ps" by (auto simp: soft_def)
    with False step Cons.IH [OF f _ n'(2)] Cons.prems(2) show ?thesis by auto
  qed
qed

text \<open>The private key of the node does not matter when only the public one is derived.\<close>

lemma public_any_private:
  "dogecoin_hdnode_public_ckd secp (n\<lparr>hd_private_key := z\<rparr>) i
    = (if hardened i then Some (False, n\<lparr>hd_private_key := z\<rparr>) else dogecoin_hdnode_public_ckd secp (neuter n) i)"
  by (simp add: dogecoin_hdnode_public_ckd_def hardened_def neuter_def Let_def)

lemma path_any_private:
  assumes "fst p < 2 ^ 32" "hd_path secp True (path_text (p # ps)) (neuter n) = Some (r, y)"
  shows "\<exists>y'. hd_path secp True (path_text (p # ps)) (n\<lparr>hd_private_key := z\<rparr>) = Some (r, y') \<and> (r \<longrightarrow> y' = y)"
proof -
  have e: "dogecoin_hdnode_public_ckd secp (neuter n) (index_of p) = Some (False, neuter n)" if "hardened (index_of p)"
    using that by (simp add: dogecoin_hdnode_public_ckd_def hardened_def)
  show ?thesis
    using assms(2) e unfolding hd_path_comp [OF assms(1)] public_any_private
    by (auto split: if_splits)
qed

section \<open>Generating keys\<close>

lemma generate_key_path:
  assumes "ps \<noteq> []" "length (path_text ps) < 1023" "hd_sizes x" "length c = 32"
  shows "key_laws secp \<Longrightarrow> valid_key secp k \<Longrightarrow> dogecoin_hd_generate_key secp x (109 # path_text ps @ 0 # r) k c False
      = hd_path secp False (path_text ps) (root_node secp k c)"
    and "length p = 33 \<Longrightarrow> dogecoin_hd_generate_key secp x (109 # path_text ps @ 0 # r) p c True
      = hd_path secp True (path_text ps) ((root_node secp k c)\<lparr>hd_public_key := p, hd_private_key := hd_private_key x\<rparr>)"
proof -
  obtain p0 ps0 where ps: "ps = p0 # ps0" using assms(1) by (cases ps) auto
  define kp where "kp = 109 # path_text ps @ 0 # r"
  have n: "c_strlen kp = Some (Suc (length (path_text ps)))"
  proof -
    have "0 \<notin> set (path_text ps)" using comp_no_slash by (auto simp: path_text_def)
    then show ?thesis by (simp add: kp_def c_strlen_append)
  qed
  have d: "drop 2 (take (Suc (length (path_text ps))) kp) = comp_text p0 @ path_text ps0"
    by (simp add: ps kp_def)
  have h: "hd_path secp pub (comp_text p0 @ path_text ps0) = hd_path secp pub (path_text ps)" for secp :: "('a, 'b) secp256k1" and pub
    by (rule ext) (simp add: ps hd_path_slash)
  have l: "length (path_text ps) < 1023" "path_text ps \<noteq> []" "Suc 0 \<le> length (path_text ps)" "kp ! 0 = 109" "kp ! Suc 0 = 47"
    using assms(2) by (simp_all add: ps kp_def)
  note gen = dogecoin_hd_generate_key_def n d h l DOGECOIN_BIP32_CHAINCODE_SIZE_def DOGECOIN_ECKEY_PKEY_LENGTH_def
    DOGECOIN_ECKEY_COMPRESSED_LENGTH_def mem_simps
  note x = assms(3) [unfolded hd_sizes_def]
  have "key_laws secp \<Longrightarrow> valid_key secp k \<Longrightarrow> dogecoin_hd_generate_key secp x kp k c False = hd_path secp False (path_text ps) (root_node secp k c)"
  proof -
    assume k: "key_laws secp" "valid_key secp k"
    let ?y = "x\<lparr>depth := 0, child_num := 0, fingerprint := 0, chain_code := c, hd_private_key := k\<rparr>"
    have "dogecoin_hdnode_fill_public_key secp ?y = Some (root_node secp k c)"
      using fill_public_key [OF k(1), of ?y] k(2) x by (simp add: root_node_def)
    then show "dogecoin_hd_generate_key secp x kp k c False = hd_path secp False (path_text ps) (root_node secp k c)"
      using x assms(4) k(2) by (simp add: gen valid_key_def Let_def)
  qed
  moreover have "length p = 33 \<Longrightarrow> dogecoin_hd_generate_key secp x kp p c True
      = hd_path secp True (path_text ps) ((root_node secp k c)\<lparr>hd_public_key := p, hd_private_key := hd_private_key x\<rparr>)"
    using x assms(4) by (cases x) (simp add: gen root_node_def Let_def)
  ultimately show "key_laws secp \<Longrightarrow> valid_key secp k \<Longrightarrow> dogecoin_hd_generate_key secp x (109 # path_text ps @ 0 # r) k c False
      = hd_path secp False (path_text ps) (root_node secp k c)"
    "length p = 33 \<Longrightarrow> dogecoin_hd_generate_key secp x (109 # path_text ps @ 0 # r) p c True
      = hd_path secp True (path_text ps) ((root_node secp k c)\<lparr>hd_public_key := p, hd_private_key := hd_private_key x\<rparr>)"
    by (simp_all only: kp_def)
qed

section \<open>The path that is written\<close>

text \<open>The path of an address. The buffer of the address index holds the slash and nine digits: \<open>kept_index\<close> is
  the number that is left of it.\<close>

definition bip44_path :: "bool \<Rightarrow> nat \<Rightarrow> nat \<Rightarrow> nat \<Rightarrow> hd_index list" where
  "bip44_path tn acc chg ix = [(44, True), (if tn then 1 else 3, True), (acc, True), (chg, False), (ix, False)]"

definition kept_index :: "nat \<Rightarrow> nat" where
  "kept_index i = (if i < 10 ^ 9 then i else i div 10)"

lemma uint_text_no_nul: "0 \<notin> set (uint_text n)"
  using uint_text_digits(1) [of n] digit_not_mark by (auto simp: list_all_iff)

lemma uint_text_length: "n < 10 ^ k \<Longrightarrow> 0 < k \<Longrightarrow> length (uint_text n) \<le> k"
  by (auto simp: uint_text_def length_decimal calc_length_bound)

lemma decimal_split: "0 < n \<Longrightarrow> decimal n = decimal (n div 10) @ [of_nat (n mod 10) + 48]"
  by (subst decimal.simps) simp

lemma length_decimal_least: "10 ^ k \<le> n \<Longrightarrow> k < length (decimal n)"
proof (induction k arbitrary: n)
  case 0
  then show ?case by (simp add: decimal_split)
next
  case (Suc k)
  then have "10 ^ k \<le> n div 10" by (simp add: less_eq_div_iff_mult_less_eq)
  then have "k < length (decimal (n div 10))" by (rule Suc.IH)
  moreover have "0 < n" using Suc.prems by (metis gr0I not_numeral_le_zero power_eq_0_iff le_zero_eq zero_neq_numeral)
  ultimately show ?case by (simp add: decimal_split [of n])
qed

lemma index_kept: "i < 10 ^ 10 \<Longrightarrow> take 9 (uint_text i) = uint_text (kept_index i)"
proof (cases "i < 10 ^ 9")
  case True
  then have "length (uint_text i) \<le> 9" by (rule uint_text_length) simp
  with True show ?thesis by (simp add: kept_index_def)
next
  case False
  assume i: "i < 10 ^ 10"
  have "i div 10 < 10 ^ 9" "10 ^ 8 \<le> i div 10" using i False by (simp_all add: less_mult_imp_div_less less_eq_div_iff_mult_less_eq)
  then have "length (decimal (i div 10)) = 9"
    using length_decimal_least [of 8 "i div 10"] calc_length_bound [of "i div 10" 9] by (simp add: length_decimal)
  with False show ?thesis by (simp add: uint_text_def kept_index_def decimal_split [of i])
qed

lemma kept_index_bound: "kept_index (unat (i :: u32)) < 10 ^ 9"
proof -
  have "unat i div 10 < 10 ^ 9" by (rule less_mult_imp_div_less) (use unat_u32_less [of i] in simp)
  then show ?thesis by (simp add: kept_index_def)
qed

text \<open>The change level \<open>"0"\<close> or \<open>"1"\<close>.\<close>

definition level_text :: "bool \<Rightarrow> bytes" where
  "level_text internal = [if internal then 49 else 48, 0]"

definition bip44_text :: "bool \<Rightarrow> nat \<Rightarrow> bool \<Rightarrow> nat \<Rightarrow> bytes" where
  "bip44_text tn acc internal ix = 109 # path_text (bip44_path tn acc (if internal then 1 else 0) ix)"

lemma uint_texts: "uint_text 44 = [52, 52]" "uint_text 3 = [51]" "uint_text (Suc 0) = [49]" "uint_text 0 = [48]"
  by (simp_all add: uint_text_def decimal_split)

lemma bip44_text_parts:
  "bip44_text tn acc internal ix
    = SLIP44_KEY_PATH @ coin_type tn @ [39, 47] @ uint_text acc @ [39, 47] @ [if internal then 49 else 48] @ 47 # uint_text ix"
  by (simp add: bip44_text_def bip44_path_def comp_text_def uint_texts SLIP44_KEY_PATH_def coin_type_def)

lemma bip44_text_length: "acc < 10 ^ 10 \<Longrightarrow> ix < 10 ^ 10 \<Longrightarrow> length (bip44_text tn acc internal ix) \<le> 33"
  using uint_text_length [of acc 10] uint_text_length [of ix 10]
  by (simp add: bip44_text_parts SLIP44_KEY_PATH_def coin_type_def)

lemma bip44_keypath_text:
  fixes acc i :: u32 and tn internal :: bool and kp :: bytes
  assumes "34 \<le> length kp"
  defines "t \<equiv> bip44_text tn (unat acc) internal (kept_index (unat i))"
  shows "bip44_keypath acc (Some i) (Some (level_text internal)) None tn (Some kp) = Some (Some (t @ 0 # drop (length t + 1) kp))"
proof -
  have i: "unat i < 10 ^ 10" "unat acc < 10 ^ 10" using unat_u32_less [of i] unat_u32_less [of acc] by simp_all
  have l: "length t \<le> 33" unfolding t_def
    by (rule bip44_text_length [OF i(2)]) (use kept_index_bound [of i] in simp)
  let ?a = "47 # uint_text (kept_index (unat i))"
  have a: "length ?a \<le> 10" using uint_text_length [OF kept_index_bound, of i] by simp
  have "snprintf (replicate 11 0) 11 (47 # uint_text (unat i)) = Some (?a @ 0 # replicate (10 - length ?a) 0)"
    using index_kept [OF i(1)] a by (simp add: snprintf_def mem_write_def)
  moreover have "c_string (?a @ 0 # replicate (10 - length ?a) 0) = Some ?a"
    using uint_text_no_nul by (intro c_string_append) simp
  moreover have "c_string (level_text internal) = Some [if internal then 49 else 48]"
    by (simp add: level_text_def c_string_def)
  moreover have "snprintf kp 255 t = Some (t @ 0 # drop (length t + 1) kp)"
    using l assms(1) by (simp add: snprintf_def mem_write_def)
  ultimately show ?thesis
    unfolding bip44_keypath_def t_def bip44_text_parts
    by (cases internal) (simp_all add: code_values level_text_def)
qed

section \<open>Properties\<close>

text \<open>C16: A path derives what its indices do. When the standard derives a node along the indices of a path, the text of the
  path makes \<open>dogecoin_hd_generate_key\<close> return this node, with both keys, from the private key; from the public key it
  returns the node without its private key exactly when no index of the path is hardened, and reports a failure
  otherwise.\<close>

theorem path_derivation:
  assumes "key_laws secp" "tweak_laws secp" "valid_key secp k" "length c = 32" "hd_sizes x"
    and "ps \<noteq> []" "\<forall>p\<in>set ps. fst p < 2 ^ 32" "length (path_text ps) < 1023"
    and "derive secp (map index_of ps) (root_node secp k c) = Some m"
  shows "dogecoin_hd_generate_key secp x (109 # path_text ps @ 0 # r) k c False = Some (True, m) \<and> hd_full secp m
    \<and> (if soft ps then dogecoin_hd_generate_key secp x (109 # path_text ps @ 0 # r) (public_key secp k) c True = Some (True, neuter m)
       else \<exists>y. dogecoin_hd_generate_key secp x (109 # path_text ps @ 0 # r) (public_key secp k) c True = Some (False, y))"
proof -
  let ?n = "root_node secp k c"
  have n: "hd_full secp ?n" using assms(3,4) by (simp add: hd_full_def root_node_def)
  obtain p ps' where ps: "ps = p # ps'" using assms(6) by (cases ps) auto
  have l: "length (public_key secp k) = 33" using key_laws_public [OF assms(1,3)] by blast
  obtain y where y: "hd_path secp True (path_text ps) (neuter ?n) = Some (soft ps, y)" "soft ps \<longrightarrow> y = neuter m"
    using path_public [OF assms(1,2) n assms(7,9)] by blast
  have "?n\<lparr>hd_public_key := public_key secp k, hd_private_key := hd_private_key x\<rparr> = ?n\<lparr>hd_private_key := hd_private_key x\<rparr>"
    by (simp add: root_node_def)
  then obtain y' where "dogecoin_hd_generate_key secp x (109 # path_text ps @ 0 # r) (public_key secp k) c True = Some (soft ps, y')"
      "soft ps \<longrightarrow> y' = y"
    using path_any_private [of p secp ps' ?n "soft ps" y "hd_private_key x"] y(1) assms(7) l
      generate_key_path(2) [OF assms(6,8,5,4), of "public_key secp k" secp r k] by (auto simp: ps)
  then show ?thesis
    using path_private [OF assms(1,2) n assms(7,9)] generate_key_path(1) [OF assms(6,8,5,4,1,3), of r] y(2) by auto
qed

lemma xor_derive: "\<exists>m. derive xor_curve is n = Some m"
proof (induction "is" arbitrary: n)
  case (Cons i "is")
  obtain m where "ckd_priv xor_curve n i = Some m" using xor_child by blast
  with Cons [of m] show ?case by simp
qed simp

lemma sample_secret_valid: "valid_key xor_curve (replicate 32 7)"
  by (simp add: valid_key_def xor_curve_def)

lemma new_node_sizes: "hd_sizes dogecoin_hdnode_new"
  by (simp add: hd_sizes_def)

lemma path_derivation_witness:
  "\<exists>m. dogecoin_hd_generate_key xor_curve dogecoin_hdnode_new [109, 47, 48, 47, 53, 0] (replicate 32 7) (replicate 32 5) False = Some (True, m)
    \<and> dogecoin_hd_generate_key xor_curve dogecoin_hdnode_new [109, 47, 48, 47, 53, 0] (public_key xor_curve (replicate 32 7)) (replicate 32 5) True
      = Some (True, neuter m)"
proof -
  let ?ps = "[(0, False), (5, False)]"
  obtain m where m: "derive xor_curve (map index_of ?ps) (root_node xor_curve (replicate 32 7) (replicate 32 5)) = Some m"
    using xor_derive by blast
  have t: "path_text ?ps = [47, 48, 47, 53]" by (simp add: comp_text_def uint_texts uint_text_def decimal_split)
  from path_derivation [OF xor_curve_laws sample_secret_valid _ new_node_sizes _ _ _ m, of "[]"] show ?thesis
    by (auto simp: t soft_def simp del: path_text_Cons)
qed

text \<open>C17: Addresses of an account. \<open>derive_bip44_extended_private_key\<close> writes the path \<open>m/44'/coin'/account'/change/index\<close>
  and returns the node the standard derives along it. The public function, with the same arguments, always fails:
  the path is hardened. Another change level is refused with the node untouched.\<close>

theorem bip44_derivation:
  fixes acc i :: u32 and tn internal :: bool
  assumes "key_laws secp" "tweak_laws secp" "valid_key secp (hd_private_key n)" "hd_public_key n = public_key secp (hd_private_key n)"
    and "length (chain_code n) = 32" "hd_sizes x" "34 \<le> length kp" "unat i < 10 ^ 9"
  defines "ps \<equiv> bip44_path tn (unat acc) (if internal then 1 else 0) (unat i)"
  assumes "derive secp (map index_of ps) (root_node secp (hd_private_key n) (chain_code n)) = Some m"
  shows "derive_bip44_extended_private_key secp n acc (Some i) (Some (level_text internal)) None tn (Some kp) x
      = Some (0, Some (109 # path_text ps @ 0 # drop (length (path_text ps) + 2) kp), m)
    \<and> (\<exists>y. derive_bip44_extended_public_key secp n acc (Some i) (Some (level_text internal)) None tn (Some kp) x
      = Some (-1, Some (109 # path_text ps @ 0 # drop (length (path_text ps) + 2) kp), y))
    \<and> (c \<noteq> 48 \<longrightarrow> c \<noteq> 49 \<longrightarrow> derive_bip44_extended_private_key secp n acc (Some i) (Some [c, 0]) None tn (Some kp) x = Some (-1, Some kp, x))"
proof -
  let ?t = "109 # path_text ps"
  have t: "bip44_text tn (unat acc) internal (kept_index (unat i)) = ?t"
    using assms(8) by (simp add: bip44_text_def ps_def kept_index_def)
  have i: "unat acc < 10 ^ 10" "unat i < 10 ^ 10" using unat_u32_less [of acc] assms(8) by simp_all
  have l: "length (path_text ps) < 1023"
    using bip44_text_length [OF i, of tn internal] by (simp add: bip44_text_def ps_def)
  have ok: "\<forall>p\<in>set ps. fst p < 2 ^ 32" "ps \<noteq> []" "\<not> soft ps"
    using unat_u32_less [of acc] unat_u32_less [of i] by (auto simp: ps_def bip44_path_def soft_def)
  have p: "bip44_keypath acc (Some i) (Some (level_text internal)) None tn (Some kp) = Some (Some (?t @ 0 # drop (length ?t + 1) kp))"
    using bip44_keypath_text [OF assms(7), of acc i internal tn] by (simp only: t)
  note g = path_derivation [OF assms(1-3,5,6) ok(2,1) l assms(10), of "drop (length ?t + 1) kp"]
  have c: "derive_bip44_extended_private_key secp n acc (Some i) (Some [c, 0]) None tn (Some kp) x = Some (-1, Some kp, x)"
    if "c \<noteq> 48" "c \<noteq> 49"
    using that index_kept [OF i(2)] uint_text_length [OF kept_index_bound, of i]
    by (simp add: derive_bip44_extended_private_key_def bip44_keypath_def snprintf_def mem_write_def code_values)
  show ?thesis
    using g ok(3) c assms(4)
    by (auto simp: derive_bip44_extended_private_key_def derive_bip44_extended_public_key_def p)
qed

lemma bip44_derivation_witness:
  "\<exists>p m. derive_bip44_extended_private_key xor_curve sample_node 0 (Some 5) (Some (level_text False)) None False (Some (replicate 256 0)) dogecoin_hdnode_new
    = Some (0, p, m)"
proof -
  let ?ps = "bip44_path False (unat (0 :: u32)) (if False then 1 else 0) (unat (5 :: u32))"
  obtain m where m: "derive xor_curve (map index_of ?ps) (root_node xor_curve (hd_private_key sample_node) (chain_code sample_node)) = Some m"
    using xor_derive by blast
  from bip44_derivation [OF xor_curve_laws _ _ _ new_node_sizes _ _ m, of "replicate 256 0"] show ?thesis
    using sample_node_full by (auto simp: hd_full_def)
qed

text \<open>C21: Large address indices collide. The buffer of the index has room for the slash and nine digits, so from \<open>10^9\<close> on
  the last digit is cut off: the path and the key of index \<open>i\<close> are those of \<open>i div 10\<close>.\<close>

theorem address_index_truncated:
  assumes "10 ^ 9 \<le> unat i" "34 \<le> length kp"
  shows "derive_bip44_extended_private_key secp n acc (Some i) (Some (level_text internal)) None tn (Some kp) x
    = derive_bip44_extended_private_key secp n acc (Some (i div 10)) (Some (level_text internal)) None tn (Some kp) x
    \<and> i div 10 \<noteq> i"
proof -
  have d: "unat (i div 10) = unat i div 10" by (simp add: unat_div_distrib)
  have "unat i div 10 < 10 ^ 9" by (rule less_mult_imp_div_less) (use unat_u32_less [of i] in simp)
  then have "kept_index (unat (i div 10)) = kept_index (unat i)" using assms(1) by (simp add: kept_index_def d)
  moreover have "i div 10 \<noteq> i" using assms(1) d by (metis \<open>unat i div 10 < 10 ^ 9\<close> not_less)
  ultimately show ?thesis
    using bip44_keypath_text [OF assms(2), of acc _ internal tn] by (simp add: derive_bip44_extended_private_key_def)
qed

lemma address_index_truncated_witness:
  "derive_bip44_extended_private_key xor_curve sample_node 0 (Some 4000000007) (Some (level_text False)) None False (Some (replicate 256 0)) dogecoin_hdnode_new
    = derive_bip44_extended_private_key xor_curve sample_node 0 (Some 400000000) (Some (level_text False)) None False (Some (replicate 256 0)) dogecoin_hdnode_new"
  using address_index_truncated [of 4000000007 "replicate 256 0" xor_curve sample_node 0 False False dogecoin_hdnode_new] by simp

end
