(* ===== verification/HdAddress.thy ===== *)
theory HdAddress
  imports HdPath
begin

text \<open>
  Hierarchical wallets of \<open>src/address.c\<close>: a master key with its address, the check that they belong together, and
  extended keys derived from the text of a master key. Buffers that a function declares without a value are parameters
  where their contents could show.
\<close>

section \<open>Master keys\<close>

definition HD_MASTERKEY_STRINGLEN :: nat where [code_values]: "HD_MASTERKEY_STRINGLEN = 112"
definition DERIVED_PATH_STRINGLEN :: nat where [code_values]: "DERIVED_PATH_STRINGLEN = 33"

text \<open>\<open>hd_gen_master\<close> of \<open>src/cli/tool.c\<close>, with the 32 bytes \<open>seed\<close> that are drawn; it ignores whether they give a key.\<close>

definition hd_gen_master :: "('pk, 'sig) secp256k1 \<Rightarrow> bytes \<Rightarrow> dogecoin_chainparams \<Rightarrow> bytes \<Rightarrow> nat \<Rightarrow> (bool \<times> bytes) option" where
  "hd_gen_master secp seed chain masterkeyhex strsize = do {
     (_, node) \<leftarrow> dogecoin_hdnode_from_seed secp seed 32;
     s \<leftarrow> dogecoin_hdnode_serialize_private node chain masterkeyhex strsize;
     Some (True, s)
   }"

text \<open>The address goes to the buffer of the caller, if there is one; what it held is in the internal buffer \<open>s\<close> first.\<close>

definition generateDerivedHDPubkey ::
    "('pk, 'sig) secp256k1 \<Rightarrow> bytes option \<Rightarrow> bytes option \<Rightarrow> (bool \<times> bytes option) option" where
  "generateDerivedHDPubkey secp wif_privkey_master p2pkh_pubkey =
     (case wif_privkey_master of
        None \<Rightarrow> Some (False, p2pkh_pubkey)
      | Some w \<Rightarrow> do {
          chain \<leftarrow> chain_from_b58_prefix w;
          s \<leftarrow> (case p2pkh_pubkey of None \<Rightarrow> Some (replicate P2PKH_ADDR_STRINGLEN 0)
              | Some b \<Rightarrow> mem_read b 0 P2PKH_ADDR_STRINGLEN);
          (_, node) \<leftarrow> dogecoin_hdnode_deserialize secp (Some w) chain dogecoin_hdnode_new;
          s \<leftarrow> dogecoin_hdnode_get_p2pkh_address node chain s P2PKH_ADDR_STRINGLEN;
          p \<leftarrow> (case p2pkh_pubkey of None \<Rightarrow> Some None | Some b \<Rightarrow> map_option Some (mem_write b 0 s));
          _ \<leftarrow> c_strlen s;
          Some (True, p)
        })"

definition generateHDMasterPubKeypair ::
    "('pk, 'sig) secp256k1 \<Rightarrow> bytes \<Rightarrow> bytes option \<Rightarrow> bytes option \<Rightarrow> bool \<Rightarrow> (bool \<times> bytes option \<times> bytes option) option" where
  "generateHDMasterPubKeypair secp seed wif_privkey_master p2pkh_pubkey_master is_testnet = do {
     w \<leftarrow> (case wif_privkey_master of None \<Rightarrow> Some (replicate HD_MASTERKEY_STRINGLEN 0)
         | Some b \<Rightarrow> mem_read b 0 HD_MASTERKEY_STRINGLEN);
     p \<leftarrow> (case p2pkh_pubkey_master of None \<Rightarrow> Some (replicate P2PKH_ADDR_STRINGLEN 0)
         | Some b \<Rightarrow> mem_read b 0 P2PKH_ADDR_STRINGLEN);
     (g, w) \<leftarrow> hd_gen_master secp seed (chain_for is_testnet) w HD_MASTERKEY_STRINGLEN;
     (if \<not> g then Some (False, wif_privkey_master, p2pkh_pubkey_master)
      else do {
        (d, p) \<leftarrow> generateDerivedHDPubkey secp (Some w) (Some p);
        p \<leftarrow> p;
        (if \<not> d then Some (False, wif_privkey_master, p2pkh_pubkey_master)
         else do {
           w' \<leftarrow> (case wif_privkey_master of None \<Rightarrow> Some None | Some b \<Rightarrow> map_option Some (mem_write b 0 w));
           p' \<leftarrow> (case p2pkh_pubkey_master of None \<Rightarrow> Some None | Some b \<Rightarrow> map_option Some (mem_write b 0 p));
           Some (True, w', p')
         })
      })
   }"

text \<open>\<open>local\<close> is what the local node holds before: it is not initialised, but \<open>dogecoin_hdnode_deserialize\<close> clears it before it
  reads the text, so a text that is refused leaves a node of zeros (or what was read of it). The address of the node is
  compared in any case.\<close>

definition verifyHDMasterPubKeypair :: "('pk, 'sig) secp256k1 \<Rightarrow> dogecoin_hdnode \<Rightarrow> bytes option \<Rightarrow> bytes option \<Rightarrow> bool \<Rightarrow> bool option" where
  "verifyHDMasterPubKeypair secp local wif_privkey_master p2pkh_pubkey_master is_testnet =
     (case (wif_privkey_master, p2pkh_pubkey_master) of
        (Some w, Some p) \<Rightarrow> do {
          let chain = chain_for is_testnet;
          (_, node) \<leftarrow> dogecoin_hdnode_deserialize secp (Some w) chain local;
          a \<leftarrow> dogecoin_hdnode_get_p2pkh_address node chain (replicate HD_MASTERKEY_STRINGLEN 0) HD_MASTERKEY_STRINGLEN;
          same_string p a
        }
      | _ \<Rightarrow> Some False)"

section \<open>Derived keys\<close>

text \<open>\<open>local\<close> and \<open>nodenew\<close> are what the two local nodes hold before. The first is cleared by \<open>dogecoin_hdnode_deserialize\<close>; the
  second is written only as far as the derivation gets, and its text is written in any case.\<close>

definition getDerivedHDAddressByPath ::
    "('pk, 'sig) secp256k1 \<Rightarrow> dogecoin_hdnode \<Rightarrow> dogecoin_hdnode \<Rightarrow> bytes option \<Rightarrow> bytes option \<Rightarrow> bytes option \<Rightarrow> bool
      \<Rightarrow> (bool \<times> bytes option) option" where
  "getDerivedHDAddressByPath secp local nodenew masterkey derived_path outaddress outprivkey =
     (case (masterkey, derived_path, outaddress) of
        (Some mk, Some path, Some out) \<Rightarrow> do {
          chain \<leftarrow> chain_from_b58_prefix mk;
          (r1, node) \<leftarrow> dogecoin_hdnode_deserialize secp (Some mk) chain local;
          priv \<leftarrow> dogecoin_hdnode_has_privkey node;
          (r2, nodenew) \<leftarrow> dogecoin_hd_generate_key secp nodenew path
             (if \<not> priv then hd_public_key node else hd_private_key node) (chain_code node) (\<not> priv);
          out \<leftarrow> (if outprivkey then dogecoin_hdnode_serialize_private nodenew chain out HD_MASTERKEY_STRINGLEN
                 else dogecoin_hdnode_serialize_public nodenew chain out HD_MASTERKEY_STRINGLEN);
          Some (r1 \<and> r2, Some out)
        }
      | _ \<Rightarrow> Some (False, outaddress))"

text \<open>\<open>"m/44'/3'/%u'/%u/%u"\<close>.\<close>

definition derived_path_text :: "u32 \<Rightarrow> bool \<Rightarrow> u32 \<Rightarrow> bytes" where
  "derived_path_text account ischange addressindex =
     SLIP44_KEY_PATH @ [51, 39, 47] @ uint_text (unat account) @ [39, 47] @ [if ischange then 49 else 48] @ [47]
       @ uint_text (unat addressindex)"

definition getDerivedHDAddress ::
    "('pk, 'sig) secp256k1 \<Rightarrow> dogecoin_hdnode \<Rightarrow> dogecoin_hdnode \<Rightarrow> bytes option \<Rightarrow> u32 \<Rightarrow> bool \<Rightarrow> u32 \<Rightarrow> bytes option \<Rightarrow> bool
      \<Rightarrow> (bool \<times> bytes option) option" where
  "getDerivedHDAddress secp local nodenew masterkey account ischange addressindex outaddress outprivkey =
     (case masterkey of
        None \<Rightarrow> Some (False, outaddress)
      | Some mk \<Rightarrow> do {
          let t = derived_path_text account ischange addressindex;
          derived_path \<leftarrow> snprintf (replicate DERIVED_PATH_STRINGLEN 0) DERIVED_PATH_STRINGLEN t;
          (if length t \<ge> DERIVED_PATH_STRINGLEN then Some (False, outaddress)
           else getDerivedHDAddressByPath secp local nodenew (Some mk) (Some derived_path) outaddress outprivkey)
        })"

section \<open>The first character of a text\<close>

text \<open>By it the network is found again: \<open>d\<close> for keys of the main network, \<open>t\<close> for those of the others.\<close>

lemma word_text_first:
  assumes "check_text (be32 v @ p) t" "be32 v ! 0 \<noteq> 0" "0 < lo" "hi \<le> 58"
    and "lo * 58 ^ k \<le> unat v * 256 ^ (length p + 4)" "(unat v + 1) * 256 ^ (length p + 4) \<le> hi * 58 ^ k"
  shows "\<exists>d t'. lo \<le> d \<and> d < hi \<and> t = b58digits_ordered ! d # t' \<and> length t' = k"
proof -
  let ?q = "p @ take 4 (sha256d (be32 v @ p))"
  have v: "radix 256 (nats (be32 v)) = unat v"
    using le_nat_radix [of "rev (be32 v)"] by (simp add: be32_rev le_nat_le_bytes unat_u32_less del: le_bytes_numeral)
  have "radix 256 (nats (be32 v @ ?q)) < (unat v + 1) * 256 ^ (length p + 4)"
    "unat v * 256 ^ (length p + 4) \<le> radix 256 (nats (be32 v @ ?q))"
    using bytes_radix_less [of ?q] by (simp_all add: radix_append v)
  then have "lo * 58 ^ k \<le> radix 256 (nats (checked (be32 v @ p)))" "radix 256 (nats (checked (be32 v @ p))) < hi * 58 ^ k"
    using assms(5,6) by (simp_all add: checked_def del: map_append)
  then show ?thesis
    using check_text_first_value [OF assms(1) _ _ assms(3,4)] assms(2) by (simp add: be32_def)
qed

lemma hd_text_first:
  assumes "check_text (hd_bytes (hd_version (chain_for tn) pub) pub n) t" "hd_sizes n"
  shows "\<exists>t'. t = (if tn then 116 else 100) # t' \<and> length t' = 110"
proof -
  let ?v = "hd_version (chain_for tn) pub"
  let ?p = "[ucast (depth n)] @ be32 (fingerprint n) @ be32 (child_num n) @ chain_code n @ (if pub then hd_public_key n else 0 # hd_private_key n)"
  have p: "hd_bytes ?v pub n = be32 ?v @ ?p" by (simp add: hd_bytes_def)
  have l: "length ?p = 74" using assms(2) by (simp add: hd_sizes_def)
  have u: "unat ?v \<in> (if tn then {0x04358394, 0x043587cf} else {0x02fac398, 0x02facafd})"
    by (auto simp: hd_version_def chain_for_def dogecoin_chainparams_main_def dogecoin_chainparams_test_def)
  let ?lo = "if tn then 51 else 36 :: nat"
  have b: "?lo * 58 ^ 110 \<le> unat ?v * 256 ^ 78" "(unat ?v + 1) * 256 ^ 78 \<le> (?lo + 1) * 58 ^ 110"
    using u by (auto split: if_splits)
  have e: "length ?p + 4 = 78" using l by simp
  have "\<exists>d t'. ?lo \<le> d \<and> d < ?lo + 1 \<and> t = b58digits_ordered ! d # t' \<and> length t' = 110"
    by (rule word_text_first [OF assms(1) [unfolded p] network_versions(2) [OF chain_for_network(2)], of ?lo "?lo + 1" 110,
          unfolded e, OF _ _ b]) simp_all
  then obtain d t' where d: "?lo \<le> d" "d < ?lo + 1" "t = b58digits_ordered ! d # t'" "length t' = 110" by blast
  then have "d = ?lo" by linarith
  with d(3,4) show ?thesis by (cases tn) (simp_all add: b58digits_ordered_def upt_rec)
qed

section \<open>Addresses of nodes\<close>

lemma hash160_node: "length (hd_public_key n) = 33 \<Longrightarrow> dogecoin_hdnode_get_hash160 n (replicate 20 0) = Some (key_hash (hd_public_key n))"
  using rmd160_correct [of "sha256_reference (hd_public_key n)" "replicate 20 0"]
  by (simp add: dogecoin_hdnode_get_hash160_def dogecoin_hash_sngl_sha256_def DOGECOIN_ECKEY_COMPRESSED_LENGTH_def sha256_raw_reference
      mem_simps key_hash_def)

lemma address_node:
  assumes "length (hd_public_key n) = 33" "check_text (b58prefix_pubkey_address chain # key_hash (hd_public_key n)) a" "length a < k" "length a < length s"
  shows "dogecoin_hdnode_get_p2pkh_address n chain s k = Some (a @ 0 # drop (length a + 1) s)"
  using check_text_write [OF assms(2-4)] by (simp add: dogecoin_hdnode_get_p2pkh_address_def hash160_node [OF assms(1)])

text \<open>The network of the text of a node.\<close>

lemma hd_chain_of_text:
  assumes "check_text (hd_bytes (hd_version (chain_for tn) pub) pub n) t" "hd_sizes n"
  shows "chain_from_b58_prefix (t @ r) = Some (chain_for tn)"
  using hd_text_first [OF assms] by (auto simp: chain_from_b58_prefix_def chain_for_def mem_get_def)

lemma derive_depth: "derive secp is n = Some m \<Longrightarrow> depth m = depth n + of_nat (length is)"
proof (induction "is" arbitrary: n)
  case (Cons i "is")
  then obtain n' where n': "ckd_priv secp n i = Some n'" "derive secp is n' = Some m" by (auto split: option.splits)
  have "depth n' = depth n + 1" using n'(1) by (auto simp: ckd_priv_def Let_def split: prod.splits if_splits)
  with Cons.IH [OF n'(2)] show ?case by simp
qed simp

section \<open>Properties\<close>

text \<open>C18: A master key and its address belong together. When the bytes that are drawn give a master node,
  \<open>generateHDMasterPubKeypair\<close> writes the text of the node and the address of its public key,
  \<open>verifyHDMasterPubKeypair\<close> accepts the pair on its network and no other address with the key, and the text is read
  back as the node.\<close>

theorem hd_pair_verified:
  assumes "key_laws secp" "master_node secp seed = Some m" "length seed = 32" "112 \<le> length w" "35 \<le> length p"
  shows "\<exists>w' p' a. generateHDMasterPubKeypair secp seed (Some w) (Some p) tn = Some (True, Some w', Some p')
    \<and> check_text (b58prefix_pubkey_address (chain_for tn) # key_hash (hd_public_key m)) a \<and> c_string p' = Some a
    \<and> verifyHDMasterPubKeypair secp local (Some w') (Some p') tn = Some True
    \<and> (0 \<notin> set q \<longrightarrow> verifyHDMasterPubKeypair secp local (Some w') (Some (q @ 0 # r)) tn = Some (q = a))
    \<and> dogecoin_hdnode_deserialize secp (Some w') (chain_for tn) x = Some (True, m)"
proof -
  note n = chain_for_network(2) [of tn]
  have f: "hd_full secp m" by (rule master_full [OF assms(2)])
  note z = hd_full_sizes [OF assms(1) f]
  have d: "unat (depth m) < 256" using assms(2) by (auto simp: master_node_def Let_def split: if_splits)
  have l: "length (hd_public_key m) = 33" using z by (simp add: hd_sizes_def)
  obtain t where t: "check_text (hd_bytes (hd_version (chain_for tn) False) False m) t" "length t \<le> 111"
    "\<forall>s. 112 \<le> length s \<longrightarrow> dogecoin_hdnode_serialize m (hd_version (chain_for tn) False) False s 112 = Some (t @ 0 # drop (length t + 1) s)"
    "\<forall>r x. dogecoin_hdnode_deserialize secp (Some (t @ 0 # r)) (chain_for tn) x = Some (True, m)"
    using node_text [OF assms(1) f n d, of False] by auto
  obtain a where a: "check_text (b58prefix_pubkey_address (chain_for tn) # key_hash (hd_public_key m)) a" "length a \<le> 34"
    using pubkey_text [OF n, of "key_hash (hd_public_key m)"] by auto
  let ?w = "take 112 w" and ?p = "take 35 p"
  let ?w1 = "t @ 0 # drop (length t + 1) ?w" and ?p1 = "a @ 0 # drop (length a + 1) ?p"
  have seed: "dogecoin_hdnode_from_seed secp seed 32 = Some (True, m)"
    using from_seed_master [OF assms(1), of seed "[]"] assms(2,3) by simp
  have g: "hd_gen_master secp seed (chain_for tn) ?w 112 = Some (True, ?w1)"
    using t(3) assms(4) seed by (simp add: hd_gen_master_def dogecoin_hdnode_serialize_private_def hd_version_def)
  have c: "chain_from_b58_prefix ?w1 = Some (chain_for tn)" by (rule hd_chain_of_text [OF t(1) z])
  have ad: "dogecoin_hdnode_get_p2pkh_address m (chain_for tn) s k = Some (a @ 0 # drop (length a + 1) s)"
    if "length a < k" "length a < length s" for s k by (rule address_node [OF l a(1) that])
  have s: "c_strlen ?p1 = Some (length a)" by (rule c_strlen_append [OF check_text_no_nul [OF a(1)]])
  have dp: "generateDerivedHDPubkey secp (Some ?w1) (Some ?p) = Some (True, Some ?p1)"
    using t(4) ad [of 35 ?p] a(2) assms(5) s c by (simp add: generateDerivedHDPubkey_def P2PKH_ADDR_STRINGLEN_def mem_read_def mem_write_def)
  let ?w' = "?w1 @ drop 112 w" and ?p' = "?p1 @ drop 35 p"
  have gen: "generateHDMasterPubKeypair secp seed (Some w) (Some p) tn = Some (True, Some ?w', Some ?p')"
    using g dp assms(4,5) t(2) a(2)
    by (simp add: generateHDMasterPubKeypair_def HD_MASTERKEY_STRINGLEN_def P2PKH_ADDR_STRINGLEN_def mem_read_def mem_write_def)
  have v: "verifyHDMasterPubKeypair secp local (Some ?w') (Some (q @ 0 # r)) tn = Some (q = a)" if "0 \<notin> set q" for q r
    using ad [of 112 "replicate 112 0"] a(2) t(4) same_string_compare [OF that check_text_no_nul [OF a(1)]]
    by (simp add: verifyHDMasterPubKeypair_def HD_MASTERKEY_STRINGLEN_def)
  have "c_string ?p' = Some a" using c_string_append [OF check_text_no_nul [OF a(1)]] by simp
  then show ?thesis
    using gen a(1) v [of q r] v [OF check_text_no_nul [OF a(1)], of "drop (length a + 1) ?p @ drop 35 p"] t(4)
    by (intro exI [of _ ?w'] exI [of _ ?p'] exI [of _ a]) simp
qed

lemma hd_pair_verified_witness:
  "\<exists>w p. generateHDMasterPubKeypair xor_curve (replicate 32 9) (Some (replicate 112 0)) (Some (replicate 35 0)) False = Some (True, Some w, Some p)
    \<and> verifyHDMasterPubKeypair xor_curve dogecoin_hdnode_new (Some w) (Some p) False = Some True"
proof -
  obtain m where "master_node xor_curve (replicate 32 9) = Some m" by (auto simp: master_node_def xor_curve_def Let_def)
  from hd_pair_verified [OF xor_curve_laws(1) this, where w = "replicate 112 0" and p = "replicate 35 0" and tn = False
    and q = "[]" and r = "[]" and x = dogecoin_hdnode_new and local = dogecoin_hdnode_new] show ?thesis by auto
qed

text \<open>C20: Keys derived from the text of a master key. From the private text of a node, \<open>getDerivedHDAddress\<close> writes the
  extended key, private or public as asked, of the node that the standard derives along \<open>m/44'/3'/account'/change/index\<close>;
  the text is read back as that node. The path has the coin of the main network on every network, and the two numbers
  may have 19 digits together: with more the call fails and writes nothing.\<close>

theorem derived_address:
  fixes acc i :: u32 and change :: bool
  assumes "key_laws secp" "tweak_laws secp" "hd_full secp n" "unat (depth n) < 256" "\<exists>b\<in>set (hd_private_key n). b \<noteq> 0"
    and "check_text (hd_bytes (hd_version (chain_for tn) False) False n) t"
    and "112 \<le> length out" "hd_sizes x"
  defines "ps \<equiv> bip44_path False (unat acc) (if change then 1 else 0) (unat i)"
  assumes "derive secp (map index_of ps) (root_node secp (hd_private_key n) (chain_code n)) = Some m"
  shows "(if unat acc < 10 ^ 9 \<or> unat i < 10 ^ 9
      then \<exists>u. getDerivedHDAddress secp local x (Some (t @ 0 # r)) acc change i (Some out) priv = Some (True, Some (u @ 0 # drop (length u + 1) out))
        \<and> (\<forall>r' y. dogecoin_hdnode_deserialize secp (Some (u @ 0 # r')) (chain_for tn) y = Some (True, if priv then m else neuter m))
      else getDerivedHDAddress secp local x (Some (t @ 0 # r)) acc change i (Some out) priv = Some (False, Some out))"
proof -
  let ?d = "derived_path_text acc change i"
  have dt: "?d = 109 # path_text ps"
    by (simp add: derived_path_text_def ps_def bip44_path_def comp_text_def uint_texts SLIP44_KEY_PATH_def)
  have ld: "length ?d = 13 + length (uint_text (unat acc)) + length (uint_text (unat i))"
    by (simp add: derived_path_text_def SLIP44_KEY_PATH_def)
  have b: "length (uint_text (unat j)) \<le> 10" "unat j < 10 ^ 9 \<Longrightarrow> length (uint_text (unat j)) \<le> 9"
    "10 ^ 9 \<le> unat j \<Longrightarrow> length (uint_text (unat j)) = 10" for j :: u32
  proof -
    show l: "length (uint_text (unat j)) \<le> 10" by (rule uint_text_length) (use unat_u32_less [of j] in simp_all)
    show "unat j < 10 ^ 9 \<Longrightarrow> length (uint_text (unat j)) \<le> 9" by (rule uint_text_length) simp_all
    assume "10 ^ 9 \<le> unat j"
    then have "9 < length (decimal (unat j))" "uint_text (unat j) = decimal (unat j)" by (auto simp: uint_text_def intro: length_decimal_least)
    with l show "length (uint_text (unat j)) = 10" by simp
  qed
  show ?thesis
  proof (cases "unat acc < 10 ^ 9 \<or> unat i < 10 ^ 9")
    case False
    then have "length ?d = 33" using b(3) [of acc] b(3) [of i] ld by simp
    with False show ?thesis by (simp add: getDerivedHDAddress_def DERIVED_PATH_STRINGLEN_def snprintf_def mem_write_def)
  next
    case True
    then have l: "length ?d < 33" using b(1) [of acc] b(1) [of i] b(2) [of acc] b(2) [of i] ld by linarith
    note z = hd_full_sizes [OF assms(1,3)] and n = hd_fullD [OF assms(1,3)]
    have ok: "\<forall>p\<in>set ps. fst p < 2 ^ 32" "ps \<noteq> []" "length (path_text ps) < 1023"
      using unat_u32_less [of acc] unat_u32_less [of i] l by (auto simp: ps_def bip44_path_def dt)
    have root: "hd_full secp (root_node secp (hd_private_key n) (chain_code n))" using n by (simp add: hd_full_def root_node_def)
    note mp = path_private [OF assms(1,2) root ok(1) assms(10)]
    have g: "dogecoin_hd_generate_key secp x (?d @ 0 # s) (hd_private_key n) (chain_code n) False = Some (True, m)" for s
      using generate_key_path(1) [OF ok(2,3) assms(8) n(1) assms(1) n(4), of s] mp by (simp add: dt)
    have dm: "unat (depth m) < 256" using derive_depth [OF assms(10)] by (simp add: ps_def bip44_path_def root_node_def)
    obtain u where u: "length u \<le> 111"
      "\<forall>s. 112 \<le> length s \<longrightarrow> dogecoin_hdnode_serialize m (hd_version (chain_for tn) (\<not> priv)) (\<not> priv) s 112 = Some (u @ 0 # drop (length u + 1) s)"
      "\<forall>r x. dogecoin_hdnode_deserialize secp (Some (u @ 0 # r)) (chain_for tn) x = Some (True, if priv then m else neuter m)"
      using node_text [OF assms(1) _ chain_for_network(2) [of tn] dm, of "\<not> priv"] mp by auto
    obtain t0 where t0: "check_text (hd_bytes (hd_version (chain_for tn) False) False n) t0"
      "\<forall>r x. dogecoin_hdnode_deserialize secp (Some (t0 @ 0 # r)) (chain_for tn) x = Some (True, n)"
      using node_text [OF assms(1,3) chain_for_network(2) [of tn] assms(4), of False] by auto
    have t: "dogecoin_hdnode_deserialize secp (Some (t @ 0 # r)) (chain_for tn) y = Some (True, n)" for y
      using t0(2) check_text_unique [OF t0(1) assms(6)] by simp
    have c: "chain_from_b58_prefix (t @ 0 # r) = Some (chain_for tn)" by (rule hd_chain_of_text [OF assms(6) z])
    have h: "dogecoin_hdnode_has_privkey n = Some True"
      using n(2) assms(5) by (simp add: dogecoin_hdnode_has_privkey_def DOGECOIN_ECKEY_PKEY_LENGTH_def mem_simps)
    have sn: "snprintf (replicate 33 0) 33 ?d = Some (?d @ 0 # replicate (32 - length ?d) 0)"
      using l by (simp add: snprintf_def mem_write_def)
    have "getDerivedHDAddress secp local x (Some (t @ 0 # r)) acc change i (Some out) priv = Some (True, Some (u @ 0 # drop (length u + 1) out))"
      using l u(2) assms(7)
      by (cases priv) (simp_all add: getDerivedHDAddress_def getDerivedHDAddressByPath_def DERIVED_PATH_STRINGLEN_def sn c t h g
          HD_MASTERKEY_STRINGLEN_def dogecoin_hdnode_serialize_private_def dogecoin_hdnode_serialize_public_def hd_version_def)
    with True u(3) show ?thesis by auto
  qed
qed

lemma derived_address_witness:
  "\<exists>t u. getDerivedHDAddress xor_curve dogecoin_hdnode_new dogecoin_hdnode_new (Some (t @ [0])) 2 True 7 (Some (replicate 112 0)) False
    = Some (True, Some (u @ 0 # drop (length u + 1) (replicate 112 0)))"
proof -
  let ?ps = "bip44_path False (unat (2 :: u32)) (if True then 1 else 0) (unat (7 :: u32))"
  obtain m where m: "derive xor_curve (map index_of ?ps) (root_node xor_curve (hd_private_key sample_node) (chain_code sample_node)) = Some m"
    using xor_derive by blast
  obtain t where t: "check_text (hd_bytes (hd_version (chain_for False) False) False sample_node) t"
    using hd_text [OF chain_for_network(2) hd_full_sizes [OF xor_curve_laws(1) sample_node_full]] by blast
  from derived_address [OF xor_curve_laws sample_node_full _ _ t _ new_node_sizes m, where out = "replicate 112 0" and r = "[]" and priv = False and local = dogecoin_hdnode_new] show ?thesis
    by (auto simp: sample_node_def)
qed

end
