(* ===== verification/Block.thy ===== *)
theory Block
  imports Tx
begin

text \<open>
  Blocks (\<open>src/block.c\<close>, \<open>include/dogecoin/block.h\<close>): block headers, their serialisation and hash, and the proof of
  work of a merged block (AuxPoW), which is read over and thrown away. A pointer to a header is never null; freeing is
  left out.
\<close>

section \<open>Headers\<close>

record dogecoin_block_header =
  block_version :: u32
  prev_block :: bytes
  merkle_root :: bytes
  timestamp :: u32
  bits :: u32
  nonce :: u32

record dogecoin_auxpow_block =
  header :: dogecoin_block_header
  parent_coinbase :: dogecoin_tx
  parent_hash :: bytes
  parent_merkle_count :: u8
  parent_merkle_index :: u32
  aux_merkle_count :: u8
  aux_merkle_index :: u32
  parent_header :: dogecoin_block_header

definition BLOCK_VERSION_AUXPOW_BIT :: u32 where "BLOCK_VERSION_AUXPOW_BIT = 0x100"
definition DOGECOIN_MAX_P2P_MSG_SIZE :: nat where "DOGECOIN_MAX_P2P_MSG_SIZE = 0x003D0900"

definition dogecoin_block_header_new :: dogecoin_block_header where
  "dogecoin_block_header_new =
     \<lparr>block_version = 0, prev_block = replicate 32 0, merkle_root = replicate 32 0, timestamp = 0, bits = 0, nonce = 0\<rparr>"

definition dogecoin_auxpow_block_new :: "dogecoin_auxpow_block option" where
  "dogecoin_auxpow_block_new = do {
     tx \<leftarrow> dogecoin_tx_new;
     Some \<lparr>header = dogecoin_block_header_new, parent_coinbase = tx, parent_hash = replicate 32 0, parent_merkle_count = 0,
       parent_merkle_index = 0, aux_merkle_count = 0, aux_merkle_index = 0, parent_header = dogecoin_block_header_new\<rparr>
   }"

definition dogecoin_block_header_copy :: "dogecoin_block_header \<Rightarrow> dogecoin_block_header \<Rightarrow> dogecoin_block_header" where
  "dogecoin_block_header_copy dest src = dest\<lparr>block_version := block_version src, prev_block := prev_block src,
     merkle_root := merkle_root src, timestamp := timestamp src, bits := bits src, nonce := nonce src\<rparr>"

definition dogecoin_block_header_serialize :: "cstring \<Rightarrow> dogecoin_block_header \<Rightarrow> cstring option" where
  "dogecoin_block_header_serialize s h = do {
     s \<leftarrow> ser_s32 s (block_version h);
     s \<leftarrow> ser_u256 s (prev_block h);
     s \<leftarrow> ser_u256 s (merkle_root h);
     s \<leftarrow> ser_u32 s (timestamp h);
     s \<leftarrow> ser_u32 s (bits h);
     ser_u32 s (nonce h)
   }"

definition dogecoin_block_header_hash :: "dogecoin_block_header \<Rightarrow> bytes \<Rightarrow> (bool \<times> bytes) option" where
  "dogecoin_block_header_hash h hash = do {
     s \<leftarrow> cstr_new_sz 80;
     s \<leftarrow> dogecoin_block_header_serialize s h;
     b \<leftarrow> contents s;
     hash \<leftarrow> sha256_raw b hash;
     hash \<leftarrow> sha256_raw (take SHA256_DIGEST_LENGTH hash) hash;
     Some (True, hash)
   }"

section \<open>Reading headers\<close>

text \<open>The six fields, which are read in the same way for a block and for its parent: the result, the header as far as it
  was filled and the bytes that are left.\<close>

definition deser_header_fields :: "dogecoin_block_header \<Rightarrow> bytes \<Rightarrow> bool \<times> dogecoin_block_header \<times> bytes" where
  "deser_header_fields h buf =
     (case deser_s32 buf of
        None \<Rightarrow> (False, h, buf)
      | Some (v, buf) \<Rightarrow> let h = h\<lparr>block_version := v\<rparr> in
     case deser_u256 buf of
        None \<Rightarrow> (False, h, buf)
      | Some (p, buf) \<Rightarrow> let h = h\<lparr>prev_block := p\<rparr> in
     case deser_u256 buf of
        None \<Rightarrow> (False, h, buf)
      | Some (m, buf) \<Rightarrow> let h = h\<lparr>merkle_root := m\<rparr> in
     case deser_u32 buf of
        None \<Rightarrow> (False, h, buf)
      | Some (t, buf) \<Rightarrow> let h = h\<lparr>timestamp := t\<rparr> in
     case deser_u32 buf of
        None \<Rightarrow> (False, h, buf)
      | Some (b, buf) \<Rightarrow> let h = h\<lparr>bits := b\<rparr> in
     case deser_u32 buf of
        None \<Rightarrow> (False, h, buf)
      | Some (n, buf) \<Rightarrow> (True, h\<lparr>nonce := n\<rparr>, buf))"

text \<open>The hashes of a branch, of which nothing is kept.\<close>

fun skip_hashes :: "nat \<Rightarrow> bytes \<Rightarrow> bool \<times> bytes" where
  "skip_hashes 0 buf = (True, buf)"
| "skip_hashes (Suc n) buf =
     (case deser_u256 buf of
        None \<Rightarrow> (False, buf)
      | Some (_, buf) \<Rightarrow> skip_hashes n buf)"

text \<open>
  The number of hashes is read into one byte of the structure as if it were four; the other three fall on padding, so
  the low byte stays. A buffer that is too long gives the number of characters of the message that is printed.
\<close>

definition deserialize_dogecoin_auxpow_block ::
    "dogecoin_auxpow_block \<Rightarrow> bytes \<Rightarrow> (int \<times> dogecoin_auxpow_block \<times> bytes) option" where
  "deserialize_dogecoin_auxpow_block block buf =
     (if length buf > DOGECOIN_MAX_P2P_MSG_SIZE then Some (38, block, buf)
      else do {
        (ok, tx, consumed) \<leftarrow> dogecoin_tx_deserialize buf (parent_coinbase block);
        let block = block\<lparr>parent_coinbase := tx\<rparr>;
        Some (if \<not> ok \<or> consumed = 0 then (0, block, buf) else
          case deser_skip consumed buf of None \<Rightarrow> (0, block, buf) | Some buf \<Rightarrow>
          case deser_u256 buf of None \<Rightarrow> (0, block, buf) | Some (h, buf) \<Rightarrow>
          let block = block\<lparr>parent_hash := h\<rparr> in
          case deser_varlen buf of None \<Rightarrow> (0, block, buf) | Some (n, buf) \<Rightarrow>
          let block = block\<lparr>parent_merkle_count := ucast n\<rparr> in
          case skip_hashes (unat (parent_merkle_count block)) buf of (ok, buf) \<Rightarrow>
          if \<not> ok then (0, block, buf) else
          case deser_u32 buf of None \<Rightarrow> (0, block, buf) | Some (i, buf) \<Rightarrow>
          let block = block\<lparr>parent_merkle_index := i\<rparr> in
          case deser_varlen buf of None \<Rightarrow> (0, block, buf) | Some (n, buf) \<Rightarrow>
          let block = block\<lparr>aux_merkle_count := ucast n\<rparr> in
          case skip_hashes (unat (aux_merkle_count block)) buf of (ok, buf) \<Rightarrow>
          if \<not> ok then (0, block, buf) else
          case deser_u32 buf of None \<Rightarrow> (0, block, buf) | Some (i, buf) \<Rightarrow>
          let block = block\<lparr>aux_merkle_index := i\<rparr> in
          case deser_header_fields (parent_header block) buf of (ok, h, buf) \<Rightarrow>
          (if ok then 1 else 0, block\<lparr>parent_header := h\<rparr>, buf))
      })"

text \<open>What the proof of work gives is not looked at.\<close>

definition dogecoin_block_header_deserialize ::
    "dogecoin_block_header \<Rightarrow> bytes \<Rightarrow> (bool \<times> dogecoin_block_header \<times> bytes) option" where
  "dogecoin_block_header_deserialize h buf = do {
     block \<leftarrow> dogecoin_auxpow_block_new;
     (case deser_header_fields (header block) buf of (ok, h', buf) \<Rightarrow>
        if \<not> ok then Some (False, h, buf)
        else do {
          let block = block\<lparr>header := h'\<rparr>;
          let h = dogecoin_block_header_copy h (header block);
          (if block_version (header block) AND BLOCK_VERSION_AUXPOW_BIT \<noteq> 0 then do {
             (_, _, buf) \<leftarrow> deserialize_dogecoin_auxpow_block block buf;
             Some (True, h, buf)
           }
           else Some (True, h, buf))
        })
   }"

section \<open>The format\<close>

definition header_ok :: "dogecoin_block_header \<Rightarrow> bool" where
  "header_ok h \<longleftrightarrow> length (prev_block h) = 32 \<and> length (merkle_root h) = 32"

definition header_bytes :: "dogecoin_block_header \<Rightarrow> bytes" where
  "header_bytes h = le_bytes 4 (unat (block_version h)) @ prev_block h @ merkle_root h @ le_bytes 4 (unat (timestamp h))
     @ le_bytes 4 (unat (bits h)) @ le_bytes 4 (unat (nonce h))"

text \<open>A proof of work: the coinbase of the parent block, its hash, the two branches with their positions, and the header
  of the parent.\<close>

record auxpow_view =
  aux_coinbase :: tx_view
  aux_parent_hash :: bytes
  aux_branch :: "bytes list"
  aux_index :: u32
  aux_chain_branch :: "bytes list"
  aux_chain_index :: u32
  aux_parent :: dogecoin_block_header

definition branch_bytes :: "bytes list \<Rightarrow> bytes" where
  "branch_bytes hs = varlen_bytes (length hs) @ concat hs"

definition auxpow_bytes :: "auxpow_view \<Rightarrow> bytes" where
  "auxpow_bytes a = tx_bytes (aux_coinbase a) @ aux_parent_hash a
     @ branch_bytes (aux_branch a) @ le_bytes 4 (unat (aux_index a))
     @ branch_bytes (aux_chain_branch a) @ le_bytes 4 (unat (aux_chain_index a)) @ header_bytes (aux_parent a)"

definition branch_ok :: "bytes list \<Rightarrow> bool" where
  "branch_ok hs \<longleftrightarrow> (\<forall>h\<in>set hs. length h = 32) \<and> length hs < 256"

definition auxpow_ok :: "auxpow_view \<Rightarrow> bool" where
  "auxpow_ok a \<longleftrightarrow> view_ok (aux_coinbase a) \<and> length (aux_parent_hash a) = 32 \<and> branch_ok (aux_branch a)
     \<and> branch_ok (aux_chain_branch a) \<and> header_ok (aux_parent a)"

definition merged :: "dogecoin_block_header \<Rightarrow> bool" where
  "merged h \<longleftrightarrow> block_version h AND BLOCK_VERSION_AUXPOW_BIT \<noteq> 0"

lemma length_header_bytes: "header_ok h \<Longrightarrow> length (header_bytes h) = 80"
  by (simp add: header_ok_def header_bytes_def del: le_bytes_numeral)

lemma header_serialize_appends:
  "header_ok h \<Longrightarrow> sink.appends (\<lambda>s. dogecoin_block_header_serialize s h) (header_bytes h)"
  unfolding dogecoin_block_header_serialize_def header_bytes_def header_ok_def
  by (intro sink.appends_comp appending) auto

lemma deser_u256_append [simp]: "length x = 32 \<Longrightarrow> deser_u256 (x @ rest) = Some (x, rest)"
  by (simp add: deser_u256_def)

lemma deser_header_bytes:
  "header_ok h \<Longrightarrow> deser_header_fields h0 (header_bytes h @ rest) = (True, dogecoin_block_header_copy h0 h, rest)"
  by (simp add: header_ok_def header_bytes_def deser_header_fields_def dogecoin_block_header_copy_def Let_def
      del: le_bytes_numeral)

lemma header_copy_same [simp]: "dogecoin_block_header_copy h0 h = h"
  by (simp add: dogecoin_block_header_copy_def)

lemma skip_branch: "(\<forall>h\<in>set hs. length h = 32) \<Longrightarrow> skip_hashes (length hs) (concat hs @ rest) = (True, rest)"
  by (induction hs) auto
lemma deser_branch:
  assumes "branch_ok hs"
  shows "\<exists>n. deser_varlen (branch_bytes hs @ rest) = Some (n, concat hs @ rest)
    \<and> unat (ucast n :: u8) = length hs \<and> skip_hashes (length hs) (concat hs @ rest) = (True, rest)"
proof -
  have n: "length hs < 256" "\<forall>h\<in>set hs. length h = 32" using assms by (simp_all add: branch_ok_def)
  then have "unat (ucast (of_nat (length hs) :: u32) :: u8) = length hs"
    by (simp add: unsigned_ucast_eq unat_of_nat unsigned_of_nat take_bit_nat_eq_self)
  with n skip_branch show ?thesis by (intro exI [of _ "of_nat (length hs)"]) (simp add: branch_bytes_def)
qed

lemma deser_index [simp]: "deser_u32 (le_bytes 4 (unat i) @ rest) = Some (i, rest)"
  by (rule deser_ints(2))

definition fresh_coinbase :: "dogecoin_auxpow_block \<Rightarrow> bool" where
  "fresh_coinbase b \<longleftrightarrow> dogecoin_tx_new = Some (parent_coinbase b)"

lemma auxpow_deserialize:
  assumes "auxpow_ok a" "fresh_coinbase b" "length (auxpow_bytes a @ rest) \<le> DOGECOIN_MAX_P2P_MSG_SIZE"
  shows "\<exists>b'. deserialize_dogecoin_auxpow_block b (auxpow_bytes a @ rest) = Some (1, b', rest)
    \<and> header b' = header b \<and> tx_holds (parent_coinbase b') (aux_coinbase a) \<and> parent_hash b' = aux_parent_hash a
    \<and> unat (parent_merkle_count b') = length (aux_branch a) \<and> parent_merkle_index b' = aux_index a
    \<and> unat (aux_merkle_count b') = length (aux_chain_branch a) \<and> aux_merkle_index b' = aux_chain_index a
    \<and> parent_header b' = aux_parent a"
proof -
  let ?r3 = "header_bytes (aux_parent a) @ rest"
  let ?r2 = "branch_bytes (aux_chain_branch a) @ le_bytes 4 (unat (aux_chain_index a)) @ ?r3"
  let ?r1 = "branch_bytes (aux_branch a) @ le_bytes 4 (unat (aux_index a)) @ ?r2"
  let ?buf = "tx_bytes (aux_coinbase a) @ aux_parent_hash a @ ?r1"
  have a: "view_ok (aux_coinbase a)" "length (aux_parent_hash a) = 32" "header_ok (aux_parent a)"
    "branch_ok (aux_branch a)" "branch_ok (aux_chain_branch a)"
    using assms(1) by (simp_all add: auxpow_ok_def)
  have buf: "auxpow_bytes a @ rest = ?buf" by (simp add: auxpow_bytes_def)
  have small: "\<not> DOGECOIN_MAX_P2P_MSG_SIZE < length ?buf" using assms(3) unfolding buf by simp
  obtain tx where tx: "dogecoin_tx_deserialize ?buf (parent_coinbase b) = Some (True, tx, length (tx_bytes (aux_coinbase a)))"
    "tx_holds tx (aux_coinbase a)"
    using tx_deserialize_bytes [OF a(1), of "parent_coinbase b"] assms(2) signable_holds unfolding fresh_coinbase_def by blast
  have pos: "length (tx_bytes (aux_coinbase a)) \<noteq> 0" by (simp add: tx_bytes_def del: le_bytes_numeral)
  obtain m where m: "deser_varlen ?r1 = Some (m, concat (aux_branch a) @ le_bytes 4 (unat (aux_index a)) @ ?r2)"
    "unat (ucast m :: u8) = length (aux_branch a)"
    "skip_hashes (length (aux_branch a)) (concat (aux_branch a) @ le_bytes 4 (unat (aux_index a)) @ ?r2)
      = (True, le_bytes 4 (unat (aux_index a)) @ ?r2)"
    using deser_branch [OF a(4)] by blast
  obtain n where n: "deser_varlen ?r2 = Some (n, concat (aux_chain_branch a) @ le_bytes 4 (unat (aux_chain_index a)) @ ?r3)"
    "unat (ucast n :: u8) = length (aux_chain_branch a)"
    "skip_hashes (length (aux_chain_branch a)) (concat (aux_chain_branch a) @ le_bytes 4 (unat (aux_chain_index a)) @ ?r3)
      = (True, le_bytes 4 (unat (aux_chain_index a)) @ ?r3)"
    using deser_branch [OF a(5)] by blast
  show ?thesis
    unfolding buf
    using small tx pos m n a(2,3)
    by (simp add: deserialize_dogecoin_auxpow_block_def deser_skip_def deser_header_bytes Let_def del: le_bytes_numeral)
qed

lemma auxpow_block_new: "\<exists>b. dogecoin_auxpow_block_new = Some b \<and> fresh_coinbase b \<and> header b = dogecoin_block_header_new"
  by (simp add: dogecoin_auxpow_block_new_def fresh_coinbase_def fresh_tx_new)

lemma deser_header_short: "length buf < 80 \<Longrightarrow> fst (deser_header_fields h buf) = False"
  by (auto simp: deser_header_fields_def deser_s32_def deser_u32_def deser_u256_def deser_bytes_def Let_def
      split: Option.bind_splits)

lemma block_hash_reference:
  assumes "header_ok h" "32 \<le> length hash"
  shows "dogecoin_block_header_hash h hash = Some (True, sha256d (header_bytes h) @ drop 32 hash)"
proof -
  obtain s where s: "cstr_new_sz 80 = Some s" "cstr_holds s []" using cstr_new_sz_ok [of 80] by auto
  obtain t where t: "dogecoin_block_header_serialize s h = Some t" "cstr_holds t (header_bytes h)"
    using sink.appendsD [OF header_serialize_appends [OF assms(1)] s(2)] length_header_bytes [OF assms(1)] by auto
  have "contents t = Some (header_bytes h)" using read_contents [OF t(2)] by (simp add: contents_def)
  with s t assms(2) show ?thesis
    by (simp add: dogecoin_block_header_hash_def sha256_raw_reference sha256d_def sha_sizes)
qed

text \<open>C27:
  Block headers survive serialisation, and their hash is the double SHA-256 of the eighty bytes. What is appended for a
  header is read back, and when its version says that the block is merge-mined the proof of work that follows is read
  over: coinbase, parent hash, both branches and the header of the parent, no more and no less, as long as no branch has
  more than 255 hashes. Fewer than eighty bytes are refused and leave the header that is filled as it was.
\<close>

theorem header_round_trip:
  assumes "header_ok h" "cstr_holds s pre" "length pre + 80 < 2 ^ 30" "32 \<le> length hash"
    and "aux = (if merged h then auxpow_bytes a else [])" "auxpow_ok a" "length (aux @ rest) \<le> DOGECOIN_MAX_P2P_MSG_SIZE"
  shows "(\<exists>s'. dogecoin_block_header_serialize s h = Some s' \<and> cstr_holds s' (pre @ header_bytes h))
    \<and> dogecoin_block_header_deserialize h0 (header_bytes h @ aux @ rest) = Some (True, h, rest)
    \<and> dogecoin_block_header_hash h hash = Some (True, sha256d (header_bytes h) @ drop 32 hash)
    \<and> (length short < 80 \<longrightarrow>
          (\<exists>left. dogecoin_block_header_deserialize h0 short = Some (False, h0, left)))"
proof -
  note l = length_header_bytes [OF assms(1)]
  obtain b where b: "dogecoin_auxpow_block_new = Some b" "fresh_coinbase b" "header b = dogecoin_block_header_new"
    using auxpow_block_new by blast
  have "\<exists>s'. dogecoin_block_header_serialize s h = Some s' \<and> cstr_holds s' (pre @ header_bytes h)"
    using sink.appendsD [OF header_serialize_appends [OF assms(1)] assms(2)] assms(3) l by simp
  moreover have "dogecoin_block_header_deserialize h0 (header_bytes h @ aux @ rest) = Some (True, h, rest)"
  proof (cases "merged h")
    case True
    have "fresh_coinbase (b\<lparr>header := h\<rparr>)" using b(2) by (simp add: fresh_coinbase_def)
    with auxpow_deserialize [OF assms(6)] assms(5,7) True obtain b' where
      "deserialize_dogecoin_auxpow_block (b\<lparr>header := h\<rparr>) (aux @ rest) = Some (1, b', rest)" by fastforce
    with True show ?thesis
      by (simp add: dogecoin_block_header_deserialize_def b deser_header_bytes [OF assms(1)] merged_def Let_def)
  next
    case False
    with assms(5) show ?thesis
      by (simp add: dogecoin_block_header_deserialize_def b deser_header_bytes [OF assms(1)] merged_def Let_def)
  qed
  moreover have "\<exists>left. dogecoin_block_header_deserialize h0 short = Some (False, h0, left)" if lt: "length short < 80"
  proof -
    obtain x left where "deser_header_fields (header b) short = (False, x, left)"
      using deser_header_short [OF lt, of "header b"] by (cases "deser_header_fields (header b) short") simp
    then show ?thesis by (simp add: dogecoin_block_header_deserialize_def b(1))
  qed
  ultimately show ?thesis using block_hash_reference [OF assms(1,4)] by auto
qed

section \<open>Examples to run\<close>

definition sample_header :: dogecoin_block_header where
  "sample_header = \<lparr>block_version = 0x620102, prev_block = replicate 32 1, merkle_root = replicate 32 2,
     timestamp = 1700000000, bits = 0x1A01F5DC, nonce = 7\<rparr>"

definition sample_auxpow :: auxpow_view where
  "sample_auxpow = \<lparr>aux_coinbase = sample_view, aux_parent_hash = replicate 32 3, aux_branch = [replicate 32 4, replicate 32 5],
     aux_index = 0, aux_chain_branch = [], aux_chain_index = 0, aux_parent = sample_header\<lparr>block_version := 2\<rparr>\<rparr>"

lemma sample_header_ok: "header_ok sample_header" "merged sample_header"
  by (simp_all add: sample_header_def header_ok_def merged_def BLOCK_VERSION_AUXPOW_BIT_def)

lemma sample_auxpow_ok: "auxpow_ok sample_auxpow" "length (auxpow_bytes sample_auxpow) = 248"
  using sample_view_ok sample_length
  by (simp_all add: sample_auxpow_def auxpow_ok_def branch_ok_def header_ok_def sample_header_def auxpow_bytes_def
      header_bytes_def branch_bytes_def varlen_bytes_def)

lemma header_round_trip_witness:
  "(\<exists>s'. dogecoin_block_header_serialize empty_string sample_header = Some s' \<and> cstr_holds s' ([] @ header_bytes sample_header))
    \<and> dogecoin_block_header_deserialize dogecoin_block_header_new (header_bytes sample_header @ auxpow_bytes sample_auxpow @ [9])
        = Some (True, sample_header, [9])
    \<and> (\<exists>left. dogecoin_block_header_deserialize dogecoin_block_header_new [1, 2] = Some (False, dogecoin_block_header_new, left))"
  using header_round_trip [OF sample_header_ok(1) empty_string_holds, of "replicate 32 0" "auxpow_bytes sample_auxpow" sample_auxpow "[9]"
      dogecoin_block_header_new "[1, 2]"] sample_auxpow_ok
  by (simp add: sample_header_ok(2) DOGECOIN_MAX_P2P_MSG_SIZE_def)

section \<open>A proof of work that is not there\<close>

lemma auxpow_short:
  assumes "length r < 4"
  shows "\<exists>b'. deserialize_dogecoin_auxpow_block b r = Some (0, b', r)"
  using assms
  by (simp add: deserialize_dogecoin_auxpow_block_def dogecoin_tx_deserialize_def deser_s32_def deser_bytes_def
      DOGECOIN_MAX_P2P_MSG_SIZE_def)

text \<open>Nothing depends on the proof of work of a header. A merge-mined header that is followed by less than the start of a
  coinbase is accepted, although reading its proof of work fails; so is one that is followed by more than the longest
  message, where reading the proof of work prints a complaint and returns how long that is, and all that follows is left
  to be read as something else.
\<close>

theorem auxpow_unchecked:
  assumes "header_ok h" "merged h" "length r < 4 \<or> DOGECOIN_MAX_P2P_MSG_SIZE < length r"
  shows "dogecoin_block_header_deserialize h0 (header_bytes h @ r) = Some (True, h, r)
    \<and> (\<exists>b'. deserialize_dogecoin_auxpow_block b r = Some (if length r < 4 then 0 else 38, b', r))"
proof -
  have step: "\<exists>b'. deserialize_dogecoin_auxpow_block b r = Some (if length r < 4 then 0 else 38, b', r)" for b
    using assms(3) auxpow_short [of r b]
    by (auto simp: deserialize_dogecoin_auxpow_block_def DOGECOIN_MAX_P2P_MSG_SIZE_def)
  obtain b0 where b: "dogecoin_auxpow_block_new = Some b0" using auxpow_block_new by blast
  obtain b' where "deserialize_dogecoin_auxpow_block (b0\<lparr>header := h\<rparr>) r = Some (if length r < 4 then 0 else 38, b', r)"
    using step by blast
  then have "dogecoin_block_header_deserialize h0 (header_bytes h @ r) = Some (True, h, r)"
    using assms(2)
    by (simp add: dogecoin_block_header_deserialize_def b deser_header_bytes [OF assms(1)] merged_def Let_def)
  with step show ?thesis by blast
qed

lemma auxpow_unchecked_witness:
  "dogecoin_block_header_deserialize dogecoin_block_header_new (header_bytes sample_header @ [1, 2]) = Some (True, sample_header, [1, 2])"
  using auxpow_unchecked [OF sample_header_ok, of "[1, 2]"] by simp
end
