(* ===== verification/Protocol.thy ===== *)
theory Protocol
  imports Block Address
begin

text \<open>
  The messages of the peer-to-peer protocol (\<open>src/protocol.c\<close>, \<open>include/dogecoin/protocol.h\<close>): the header that frames
  every message, addresses, and the messages version, inv and getheaders. Times and random numbers are arguments.
\<close>

section \<open>Data\<close>

definition DOGECOIN_P2P_HDRSZ :: nat where "DOGECOIN_P2P_HDRSZ = 24"
definition DOGECOIN_ADDR_TIME_VERSION :: u32 where "DOGECOIN_ADDR_TIME_VERSION = 31402"
definition DOGECOIN_PROTOCOL_VERSION :: u32 where "DOGECOIN_PROTOCOL_VERSION = 70015"
definition DOGECOIN_IPV4_PREFIX :: bytes where "DOGECOIN_IPV4_PREFIX = replicate 10 0 @ [0xff, 0xff]"
definition DOGECOIN_NODE_NETWORK :: u64 where "DOGECOIN_NODE_NETWORK = 1"
definition DOGECOIN_INV_TYPE_TX :: u32 where "DOGECOIN_INV_TYPE_TX = 1"
definition NULLHASH :: bytes where "NULLHASH = replicate 32 0"

record dogecoin_p2p_msg_hdr =
  hdr_netmagic :: bytes
  command :: bytes
  data_len :: u32
  hdr_hash :: bytes

record dogecoin_p2p_inv_msg =
  inv_type :: u32
  inv_hash :: bytes

record dogecoin_p2p_address =
  addr_time :: u32
  addr_services :: u64
  ip :: bytes
  port :: u16

record dogecoin_p2p_version_msg =
  msg_version :: u32
  msg_services :: u64
  msg_timestamp :: u64
  addr_recv :: dogecoin_p2p_address
  addr_from :: dogecoin_p2p_address
  msg_nonce :: u64
  useragent :: bytes
  start_height :: u32
  relay :: u8

text \<open>
  \<open>struct sockaddr\<close> as far as it is used: the family, the port as it is stored, which is the most significant byte
  first, and the two addresses, which do not overlap.
\<close>

datatype sa_family = AF_INET | AF_INET6 | AF_OTHER

record sockaddr =
  sa_family :: sa_family
  sin_port :: u16
  sin_addr :: bytes
  sin6_addr :: bytes

text \<open>Both directions swap the two bytes.\<close>

definition ntohs :: "u16 \<Rightarrow> u16" where
  "ntohs x = push_bit 8 (x AND 0xff) OR drop_bit 8 x"

definition dogecoin_p2p_address_init :: dogecoin_p2p_address where
  "dogecoin_p2p_address_init = \<lparr>addr_time = 0, addr_services = 0, ip = replicate 16 0, port = 0\<rparr>"

definition zero_version_msg :: dogecoin_p2p_version_msg where
  "zero_version_msg = \<lparr>msg_version = 0, msg_services = 0, msg_timestamp = 0, addr_recv = dogecoin_p2p_address_init,
     addr_from = dogecoin_p2p_address_init, msg_nonce = 0, useragent = replicate 128 0, start_height = 0, relay = 0\<rparr>"

section \<open>Reading step by step\<close>

text \<open>
  \<open>if (!deser_x(&m->field, buf)) return false;\<close>: a step reads a field and goes on, or ends with what was filled so far.
\<close>

definition fill :: "(bytes \<Rightarrow> ('a \<times> bytes) option) \<Rightarrow> ('a \<Rightarrow> 'm \<Rightarrow> 'm) \<Rightarrow> bool \<times> 'm \<times> bytes \<Rightarrow> bool \<times> 'm \<times> bytes" where
  "fill deser u r = (case r of (ok, m, buf) \<Rightarrow>
     if \<not> ok then r
     else (case deser buf of None \<Rightarrow> (False, m, buf) | Some (x, buf) \<Rightarrow> (True, u x m, buf)))"

section \<open>Framing\<close>

text \<open>The data may be null when its length is 0; here it is empty then.\<close>

definition dogecoin_p2p_message_new :: "bytes \<Rightarrow> bytes \<Rightarrow> bytes \<Rightarrow> u32 \<Rightarrow> cstring option" where
  "dogecoin_p2p_message_new magic cmd payload n = do {
     s \<leftarrow> cstr_new_sz (unat (of_nat DOGECOIN_P2P_HDRSZ + n));
     s \<leftarrow> cstr_append_buf s (Some magic) 4;
     c \<leftarrow> c_string cmd;
     command_null \<leftarrow> mem_write (replicate 12 0) 0 c;
     s \<leftarrow> cstr_append_buf s (Some command_null) 12;
     s \<leftarrow> cstr_append_buf s (Some (le_bytes 4 (unat n))) 4;
     d \<leftarrow> mem_read payload 0 (unat n);
     msghash \<leftarrow> dogecoin_hash d (replicate 32 0);
     s \<leftarrow> cstr_append_buf s (Some msghash) 4;
     (if n > 0 then cstr_append_buf s (Some payload) (unat n) else Some s)
   }"

text \<open>Whether a field could be read is not looked at.\<close>

definition read_into :: "(bytes \<Rightarrow> ('a \<times> bytes) option) \<Rightarrow> ('a \<Rightarrow> 'm \<Rightarrow> 'm) \<Rightarrow> 'm \<times> bytes \<Rightarrow> 'm \<times> bytes" where
  "read_into deser u r = (case r of (m, buf) \<Rightarrow> (case deser buf of None \<Rightarrow> (m, buf) | Some (x, buf) \<Rightarrow> (u x m, buf)))"

definition dogecoin_p2p_deser_msghdr :: "dogecoin_p2p_msg_hdr \<Rightarrow> bytes \<Rightarrow> dogecoin_p2p_msg_hdr \<times> bytes" where
  "dogecoin_p2p_deser_msghdr hdr buf =
     (let r = (hdr, buf);
          r = read_into (deser_bytes 4) (\<lambda>x h. h\<lparr>hdr_netmagic := x\<rparr>) r;
          r = read_into (deser_bytes 12) (\<lambda>x h. h\<lparr>command := x\<rparr>) r;
          r = read_into deser_u32 (\<lambda>x h. h\<lparr>data_len := x\<rparr>) r
      in read_into (deser_bytes 4) (\<lambda>x h. h\<lparr>hdr_hash := x\<rparr>) r)"

section \<open>Addresses\<close>

definition is_ipv4_mapped :: "bytes \<Rightarrow> bool" where
  "is_ipv4_mapped ipaddr \<longleftrightarrow> take 12 ipaddr = DOGECOIN_IPV4_PREFIX"

definition dogecoin_p2p_deser_addr :: "u32 \<Rightarrow> dogecoin_p2p_address \<Rightarrow> bytes \<Rightarrow> bool \<times> dogecoin_p2p_address \<times> bytes" where
  "dogecoin_p2p_deser_addr protocol_version addr buf =
     (let r = (if protocol_version \<ge> DOGECOIN_ADDR_TIME_VERSION then fill deser_u32 (\<lambda>x a. a\<lparr>addr_time := x\<rparr>) (True, addr, buf)
               else (True, addr\<lparr>addr_time := 0\<rparr>, buf));
          r = fill deser_u64 (\<lambda>x a. a\<lparr>addr_services := x\<rparr>) r;
          r = fill (deser_bytes 16) (\<lambda>x a. a\<lparr>ip := x\<rparr>) r
      in fill deser_u16 (\<lambda>x a. a\<lparr>port := x\<rparr>) r)"

definition dogecoin_p2p_ser_addr :: "u32 \<Rightarrow> dogecoin_p2p_address \<Rightarrow> cstring \<Rightarrow> cstring option" where
  "dogecoin_p2p_ser_addr protover addr s = do {
     s \<leftarrow> (if protover \<ge> DOGECOIN_ADDR_TIME_VERSION then ser_u32 s (addr_time addr) else Some s);
     s \<leftarrow> ser_u64 s (addr_services addr);
     s \<leftarrow> ser_bytes s (Some (ip addr)) 16;
     ser_u16 s (port addr)
   }"

definition dogecoin_addr_to_p2paddr :: "sockaddr \<Rightarrow> dogecoin_p2p_address \<Rightarrow> dogecoin_p2p_address" where
  "dogecoin_addr_to_p2paddr addr addr_out =
     (case sa_family addr of
        AF_INET6 \<Rightarrow> addr_out\<lparr>ip := sin6_addr addr, port := ntohs (sin_port addr)\<rparr>
      | AF_INET \<Rightarrow> addr_out\<lparr>ip := replicate 10 0 @ replicate 2 0xff @ sin_addr addr, port := ntohs (sin_port addr)\<rparr>
      | AF_OTHER \<Rightarrow> addr_out)"

text \<open>The family of the result is not set.\<close>

definition dogecoin_p2paddr_to_addr :: "dogecoin_p2p_address \<Rightarrow> sockaddr \<Rightarrow> sockaddr" where
  "dogecoin_p2paddr_to_addr p2p_addr addr_out =
     (if \<not> is_ipv4_mapped (ip p2p_addr) then addr_out\<lparr>sin6_addr := ip p2p_addr, sin_port := ntohs (port p2p_addr)\<rparr>
      else addr_out\<lparr>sin_addr := take 4 (drop 12 (ip p2p_addr)), sin_port := ntohs (port p2p_addr)\<rparr>)"

section \<open>The version message\<close>

definition dogecoin_p2p_msg_version_init ::
    "u64 \<Rightarrow> u64 \<Rightarrow> dogecoin_p2p_version_msg \<Rightarrow> dogecoin_p2p_address option \<Rightarrow> dogecoin_p2p_address option \<Rightarrow> bytes option \<Rightarrow> u8
      \<Rightarrow> dogecoin_p2p_version_msg option" where
  "dogecoin_p2p_msg_version_init now random msg addrFrom addrTo strSubVer relay_flag = do {
     let msg = msg\<lparr>msg_version := DOGECOIN_PROTOCOL_VERSION, msg_services := 0, msg_timestamp := now,
       addr_recv := (case addrTo of Some a \<Rightarrow> a | None \<Rightarrow> dogecoin_p2p_address_init),
       addr_from := (case addrFrom of Some a \<Rightarrow> a | None \<Rightarrow> dogecoin_p2p_address_init), msg_nonce := random\<rparr>;
     ua \<leftarrow> (case strSubVer of
              None \<Rightarrow> Some (useragent msg)
            | Some v \<Rightarrow> do {
                v \<leftarrow> c_string v;
                (if length v < 128 then mem_write (useragent msg) 0 v else Some (useragent msg))
              });
     Some (msg\<lparr>useragent := ua, start_height := 0, relay := relay_flag\<rparr>)
   }"

definition dogecoin_p2p_msg_version_ser :: "dogecoin_p2p_version_msg \<Rightarrow> cstring \<Rightarrow> cstring option" where
  "dogecoin_p2p_msg_version_ser msg buf = do {
     buf \<leftarrow> ser_s32 buf (msg_version msg);
     buf \<leftarrow> ser_u64 buf (msg_services msg);
     buf \<leftarrow> ser_s64 buf (msg_timestamp msg);
     buf \<leftarrow> dogecoin_p2p_ser_addr 0 (addr_recv msg) buf;
     buf \<leftarrow> dogecoin_p2p_ser_addr 0 (addr_from msg) buf;
     buf \<leftarrow> ser_u64 buf (msg_nonce msg);
     buf \<leftarrow> ser_str buf (useragent msg) 1024;
     buf \<leftarrow> ser_s32 buf (start_height msg);
     cstr_append_c buf (relay msg)
   }"

text \<open>An address of the message is filled in place.\<close>

definition fill_addr ::
    "(dogecoin_p2p_version_msg \<Rightarrow> dogecoin_p2p_address) \<Rightarrow> (dogecoin_p2p_address \<Rightarrow> dogecoin_p2p_version_msg \<Rightarrow> dogecoin_p2p_version_msg)
      \<Rightarrow> bool \<times> dogecoin_p2p_version_msg \<times> bytes \<Rightarrow> bool \<times> dogecoin_p2p_version_msg \<times> bytes" where
  "fill_addr get u r = (case r of (ok, m, buf) \<Rightarrow>
     if \<not> ok then r
     else (case dogecoin_p2p_deser_addr 0 (get m) buf of (ok, a, buf) \<Rightarrow> (ok, u a m, buf)))"

text \<open>The user agent: at most 1024 bytes are read, at most 128 are kept.\<close>

definition fill_useragent :: "bool \<times> dogecoin_p2p_version_msg \<times> bytes \<Rightarrow> bool \<times> dogecoin_p2p_version_msg \<times> bytes" where
  "fill_useragent r = (case r of (ok, m, buf) \<Rightarrow>
     if \<not> ok then r
     else (case deser_varlen buf of
             None \<Rightarrow> (False, m, buf)
           | Some (ua_len, buf) \<Rightarrow>
               let cpy_len = min (unat ua_len) 128
               in if ua_len > 1024 then (False, m, buf)
                  else fill (deser_bytes (unat ua_len))
                         (\<lambda>x m. m\<lparr>useragent := take cpy_len x @ replicate (128 - cpy_len) 0\<rparr>) (True, m, buf)))"

definition dogecoin_p2p_msg_version_deser :: "bytes \<Rightarrow> bool \<times> dogecoin_p2p_version_msg \<times> bytes" where
  "dogecoin_p2p_msg_version_deser buf =
     (let r = (True, zero_version_msg, buf);
          r = fill deser_s32 (\<lambda>x m. m\<lparr>msg_version := x\<rparr>) r;
          r = fill deser_u64 (\<lambda>x m. m\<lparr>msg_services := x\<rparr>) r;
          r = fill deser_s64 (\<lambda>x m. m\<lparr>msg_timestamp := x\<rparr>) r;
          r = fill_addr addr_recv (\<lambda>a m. m\<lparr>addr_recv := a\<rparr>) r;
          r = fill_addr addr_from (\<lambda>a m. m\<lparr>addr_from := a\<rparr>) r;
          r = fill deser_u64 (\<lambda>x m. m\<lparr>msg_nonce := x\<rparr>) r;
          r = fill_useragent r;
          r = fill deser_s32 (\<lambda>x m. m\<lparr>start_height := x\<rparr>) r
      in if fst r \<and> sint (msg_version (fst (snd r))) > 70003
         then fill (deser_bytes 1) (\<lambda>x m. m\<lparr>relay := hd x\<rparr>) r else r)"

section \<open>Inventories and headers\<close>

definition dogecoin_p2p_msg_inv_init :: "dogecoin_p2p_inv_msg \<Rightarrow> u32 \<Rightarrow> bytes \<Rightarrow> dogecoin_p2p_inv_msg" where
  "dogecoin_p2p_msg_inv_init msg t hash = msg\<lparr>inv_type := t, inv_hash := hash\<rparr>"

definition dogecoin_p2p_msg_inv_ser :: "dogecoin_p2p_inv_msg \<Rightarrow> cstring \<Rightarrow> cstring option" where
  "dogecoin_p2p_msg_inv_ser msg buf = do {
     buf \<leftarrow> ser_u32 buf (inv_type msg);
     ser_bytes buf (Some (inv_hash msg)) DOGECOIN_HASH_LENGTH
   }"

definition dogecoin_p2p_msg_inv_deser :: "bytes \<Rightarrow> bool \<times> dogecoin_p2p_inv_msg \<times> bytes" where
  "dogecoin_p2p_msg_inv_deser buf =
     (let r = (True, \<lparr>inv_type = 0, inv_hash = replicate 32 0\<rparr>, buf);
          r = fill deser_u32 (\<lambda>x m. m\<lparr>inv_type := x\<rparr>) r
      in fill deser_u256 (\<lambda>x m. m\<lparr>inv_hash := x\<rparr>) r)"

definition dogecoin_p2p_msg_getheaders :: "bytes vector \<Rightarrow> bytes option \<Rightarrow> cstring \<Rightarrow> cstring option" where
  "dogecoin_p2p_msg_getheaders blocklocators hashstop s = do {
     s \<leftarrow> ser_u32 s DOGECOIN_PROTOCOL_VERSION;
     s \<leftarrow> ser_varlen s (of_nat (vlen blocklocators));
     s \<leftarrow> vec_each (\<lambda>h s. ser_bytes s (Some h) DOGECOIN_HASH_LENGTH) blocklocators 0 (vlen blocklocators) s;
     (case hashstop of
        Some h \<Rightarrow> ser_bytes s (Some h) DOGECOIN_HASH_LENGTH
      | None \<Rightarrow> ser_bytes s (Some NULLHASH) DOGECOIN_HASH_LENGTH)
   }"

fun deser_locators :: "nat \<Rightarrow> bytes vector \<Rightarrow> bytes \<Rightarrow> (bool \<times> bytes vector \<times> bytes) option" where
  "deser_locators 0 v buf = Some (True, v, buf)"
| "deser_locators (Suc n) v buf =
     (case deser_u256 buf of
        None \<Rightarrow> Some (False, v, buf)
      | Some (h, buf) \<Rightarrow> do { v \<leftarrow> vector_add v (Some h); deser_locators n v buf })"

definition dogecoin_p2p_deser_msg_getheaders ::
    "bytes vector \<Rightarrow> bytes \<Rightarrow> bytes \<Rightarrow> (bool \<times> bytes vector \<times> bytes \<times> bytes) option" where
  "dogecoin_p2p_deser_msg_getheaders blocklocators hashstop buf =
     (case deser_s32 buf of None \<Rightarrow> Some (False, blocklocators, hashstop, buf) | Some (_, buf) \<Rightarrow>
     (case deser_varlen buf of None \<Rightarrow> Some (False, blocklocators, hashstop, buf) | Some (vsize, buf) \<Rightarrow> do {
        v \<leftarrow> vector_resize blocklocators (unat vsize);
        (ok, v, buf) \<leftarrow> deser_locators (unat vsize) v buf;
        Some (if \<not> ok then (False, v, hashstop, buf)
              else (case deser_u256 buf of None \<Rightarrow> (False, v, hashstop, buf) | Some (h, buf) \<Rightarrow> (True, v, h, buf)))
      }))"
section \<open>The formats\<close>

definition pad12 :: "bytes \<Rightarrow> bytes" where
  "pad12 c = c @ replicate (12 - length c) 0"

definition frame_header :: "bytes \<Rightarrow> bytes \<Rightarrow> bytes \<Rightarrow> dogecoin_p2p_msg_hdr" where
  "frame_header magic c payload =
     \<lparr>hdr_netmagic = magic, command = pad12 c, data_len = of_nat (length payload), hdr_hash = take 4 (sha256d payload)\<rparr>"

definition frame :: "bytes \<Rightarrow> bytes \<Rightarrow> bytes \<Rightarrow> bytes" where
  "frame magic c payload = magic @ pad12 c @ le_bytes 4 (length payload) @ take 4 (sha256d payload) @ payload"

definition address_bytes :: "dogecoin_p2p_address \<Rightarrow> bytes" where
  "address_bytes a = le_bytes 8 (unat (addr_services a)) @ ip a @ le_bytes 2 (unat (port a))"

definition agent :: "dogecoin_p2p_version_msg \<Rightarrow> bytes" where
  "agent m = takeWhile (\<lambda>c. c \<noteq> 0) (useragent m)"

text \<open>The bytes of a version message with the user agent \<open>a\<close>, which may be longer than the field for it.\<close>

definition version_wire :: "dogecoin_p2p_version_msg \<Rightarrow> bytes \<Rightarrow> bytes" where
  "version_wire m a = le_bytes 4 (unat (msg_version m)) @ le_bytes 8 (unat (msg_services m)) @ le_bytes 8 (unat (msg_timestamp m))
     @ address_bytes (addr_recv m) @ address_bytes (addr_from m) @ le_bytes 8 (unat (msg_nonce m)) @ varstr_bytes a
     @ le_bytes 4 (unat (start_height m)) @ [relay m]"

definition version_bytes :: "dogecoin_p2p_version_msg \<Rightarrow> bytes" where
  "version_bytes m = version_wire m (agent m)"

text \<open>What reading such bytes leaves: the last byte is read for versions over 70003 only.\<close>

definition version_read :: "dogecoin_p2p_version_msg \<Rightarrow> bytes \<Rightarrow> dogecoin_p2p_version_msg \<times> bytes" where
  "version_read m rest = (if sint (msg_version m) > 70003 then (m, rest) else (m\<lparr>relay := 0\<rparr>, relay m # rest))"

definition inv_bytes :: "dogecoin_p2p_inv_msg \<Rightarrow> bytes" where
  "inv_bytes m = le_bytes 4 (unat (inv_type m)) @ inv_hash m"

definition locator_bytes :: "bytes list \<Rightarrow> bytes \<Rightarrow> bytes" where
  "locator_bytes hs stop = le_bytes 4 (unat DOGECOIN_PROTOCOL_VERSION) @ varlen_bytes (length hs) @ concat hs @ stop"

text \<open>An address of the version message has no time; a user agent is shorter than its field and padded with zeros.\<close>

definition address_ok :: "dogecoin_p2p_address \<Rightarrow> bool" where
  "address_ok a \<longleftrightarrow> length (ip a) = 16 \<and> addr_time a = 0"

definition version_ok :: "dogecoin_p2p_version_msg \<Rightarrow> bool" where
  "version_ok m \<longleftrightarrow> address_ok (addr_recv m) \<and> address_ok (addr_from m) \<and> length (agent m) < 128
     \<and> useragent m = agent m @ replicate (128 - length (agent m)) 0"

lemma fill_True [simp]: "deser buf = Some (x, rest) \<Longrightarrow> fill deser u (True, m, buf) = (True, u x m, rest)"
  by (simp add: fill_def)

lemma read_into_Some [simp]: "deser buf = Some (x, rest) \<Longrightarrow> read_into deser u (m, buf) = (u x m, rest)"
  by (simp add: read_into_def)

lemma length_pad12 [simp]: "length c \<le> 12 \<Longrightarrow> length (pad12 c) = 12"
  by (simp add: pad12_def)

lemma deser_bytes_at [simp]: "length x = n \<Longrightarrow> deser_bytes n (x @ rest) = Some (x, rest)"
  by (simp add: deser_bytes_def)

lemma length_framed: "length magic = 4 \<Longrightarrow> length c \<le> 12 \<Longrightarrow> length (frame magic c payload) = 24 + length payload"
  by (simp add: frame_def del: le_bytes_numeral)

lemma frame_read:
  assumes "length magic = 4" "length c \<le> 12" "length payload < 2 ^ 32"
  shows "dogecoin_p2p_deser_msghdr hdr (frame magic c payload @ rest) = (frame_header magic c payload, payload @ rest)"
proof -
  have "le_bytes 4 (length payload) = le_bytes 4 (unat (of_nat (length payload) :: u32))"
    using assms(3) by (simp add: unat_of_nat)
  then show ?thesis
    using assms by (simp add: frame_def frame_header_def dogecoin_p2p_deser_msghdr_def Let_def del: le_bytes_numeral)
qed

lemma append_take: "n \<le> length b \<Longrightarrow> cstr_append_buf s (Some b) n = cstr_append_buf s (Some (take n b)) n"
  by (simp add: cstr_append_buf_def memcpy_safe_def mem_read_def)

lemma append_part_appends: "n \<le> length b \<Longrightarrow> sink.appends (\<lambda>s. cstr_append_buf s (Some b) n) (take n b)"
  by (subst append_take) (simp_all add: appends_buf)

lemma strnlen_agent: "0 \<notin> set a \<Longrightarrow> length a < n \<Longrightarrow> strnlen (a @ 0 # r) n = Some (length a)"
  by (induction a arbitrary: n; case_tac n) auto

lemma ser_str_appends:
  assumes "0 \<notin> set a" "length a < n" "length a < 2 ^ 30"
  shows "sink.appends (\<lambda>s. ser_str s (a @ 0 # r) n) (varstr_bytes a)"
proof -
  have "unat (of_nat (length a) :: u32) = length a" using assms(3) by (simp add: unat_of_nat)
  then have "sink.appends (\<lambda>s. do { s \<leftarrow> ser_varlen s (of_nat (length a)); ser_bytes s (Some (a @ 0 # r)) (length a) })
      (varlen_bytes (length a) @ take (length a) (a @ 0 # r))"
    using ser_varlen_appends [of "of_nat (length a)"] append_part_appends [of "length a" "a @ 0 # r"]
    by (intro sink.appends_comp) (simp_all add: ser_bytes_def)
  then show ?thesis using strnlen_agent [OF assms(1,2), of r] by (simp add: ser_str_def varstr_bytes_def)
qed

lemma message_new_frame:
  assumes "length magic = 4" "0 \<notin> set c" "length c \<le> 12" "length payload + 24 < 2 ^ 30"
  shows "\<exists>s. dogecoin_p2p_message_new magic (c @ [0]) payload (of_nat (length payload)) = Some s
    \<and> cstr_holds s (frame magic c payload)"
proof -
  define n :: u32 where "n = of_nat (length payload)"
  have n: "unat n = length payload" using assms(4) by (simp add: n_def unat_of_nat)
  have sz: "unat (of_nat DOGECOIN_P2P_HDRSZ + n) = 24 + length payload"
    using assms(4) n by (simp add: DOGECOIN_P2P_HDRSZ_def unat_word_ariths)
  obtain s where s: "cstr_new_sz (24 + length payload) = Some s" "cstr_holds s []"
    using cstr_new_sz_ok [of "24 + length payload"] assms(4) by auto
  have cmd: "c_string (c @ [0]) = Some c" using assms(2) by (simp add: c_string_append)
  have pad: "mem_write (replicate 12 0) 0 c = Some (pad12 c)"
    using assms(3) by (simp add: mem_write_def pad12_def)
  have data: "mem_read payload 0 (unat n) = Some payload" by (simp add: mem_read_def n)
  have hash: "dogecoin_hash payload (replicate 32 0) = Some (sha256d payload)" by (simp add: dogecoin_hash_reference)
  have body: "sink.appends (\<lambda>s. if n > 0 then cstr_append_buf s (Some payload) (unat n) else Some s) payload"
  proof (cases "n > 0")
    case True
    then show ?thesis by (simp add: n appends_buf)
  next
    case False
    then have "payload = []" using n by (simp add: word_less_nat_alt)
    then show ?thesis using False by (simp add: sink.appends_Some)
  qed
  have "sink.appends (\<lambda>s. do {
        s \<leftarrow> cstr_append_buf s (Some magic) 4;
        s \<leftarrow> cstr_append_buf s (Some (pad12 c)) 12;
        s \<leftarrow> cstr_append_buf s (Some (le_bytes 4 (unat n))) 4;
        s \<leftarrow> cstr_append_buf s (Some (sha256d payload)) 4;
        (if n > 0 then cstr_append_buf s (Some payload) (unat n) else Some s) }) (frame magic c payload)"
    unfolding frame_def n [symmetric]
    using assms(1,3) by (intro sink.appends_comp body appends_buf append_part_appends) simp_all
  from sink.appendsD [OF this s(2)] show ?thesis
    using assms s(1) sz cmd pad data hash length_framed [OF assms(1,3), of payload]
    by (simp add: dogecoin_p2p_message_new_def n_def [symmetric] del: le_bytes_numeral)
qed
text \<open>A message is framed by the magic of the network, its command padded with zeros, its length and the start of the double
  SHA-256 of its data; the header that is read from it, whatever follows, is that of the message, and the data is next.
  A command of more than twelve characters does not fit.
\<close>

theorem message_framed:
  assumes "length magic = 4" "0 \<notin> set c" "length payload + 24 < 2 ^ 30"
  shows "(if length c \<le> 12
      then (\<exists>s. dogecoin_p2p_message_new magic (c @ [0]) payload (of_nat (length payload)) = Some s
              \<and> cstr_holds s (frame magic c payload))
        \<and> dogecoin_p2p_deser_msghdr hdr (frame magic c payload @ rest) = (frame_header magic c payload, payload @ rest)
      else dogecoin_p2p_message_new magic (c @ [0]) payload (of_nat (length payload)) = None)"
proof (cases "length c \<le> 12")
  case True
  with message_new_frame [OF assms(1,2) _ assms(3)] frame_read [OF assms(1) True] assms(3) show ?thesis by simp
next
  case False
  have "c_string (c @ [0]) = Some c" using assms(2) by (simp add: c_string_append)
  moreover have "mem_write (replicate 12 0) 0 c = None" using False by (simp add: mem_write_def)
  ultimately show ?thesis using False by (auto simp: dogecoin_p2p_message_new_def split: Option.bind_splits)
qed

lemma message_framed_witness:
  "(\<exists>s. dogecoin_p2p_message_new [0xc0, 0xc0, 0xc0, 0xc0] ([112, 105, 110, 103] @ [0]) [1, 2, 3, 4, 5, 6, 7, 8] (of_nat 8) = Some s
      \<and> cstr_holds s (frame [0xc0, 0xc0, 0xc0, 0xc0] [112, 105, 110, 103] [1, 2, 3, 4, 5, 6, 7, 8]))
    \<and> dogecoin_p2p_message_new [0xc0, 0xc0, 0xc0, 0xc0] (replicate 13 97 @ [0]) [] 0 = None"
  using message_framed [of "[0xc0, 0xc0, 0xc0, 0xc0]" "[112, 105, 110, 103]" "[1, 2, 3, 4, 5, 6, 7, 8]"]
    message_framed [of "[0xc0, 0xc0, 0xc0, 0xc0]" "replicate 13 97" "[]"]
  by simp

section \<open>Messages that are read back\<close>

lemma agent_clean: "0 \<notin> set (agent m)"
  by (auto simp: agent_def dest: set_takeWhileD)

lemma ser_addr_appends:
  "length (ip a) = 16 \<Longrightarrow> sink.appends (dogecoin_p2p_ser_addr 0 a) (address_bytes a)"
proof -
  assume a: "length (ip a) = 16"
  have "dogecoin_p2p_ser_addr 0 a = (\<lambda>s. do { s \<leftarrow> ser_u64 s (addr_services a); s \<leftarrow> ser_bytes s (Some (ip a)) 16; ser_u16 s (port a) })"
    by (rule ext) (simp add: dogecoin_p2p_ser_addr_def DOGECOIN_ADDR_TIME_VERSION_def)
  then show ?thesis unfolding address_bytes_def using a by (simp only:) (intro sink.appends_comp appending, simp)
qed

lemma deser_s64_bytes [simp]: "deser_s64 (le_bytes 8 (unat x) @ rest) = Some (x, rest)"
  by (simp add: deser_s64_def del: le_bytes_numeral)

lemma deser_addr_bytes:
  "address_ok a \<Longrightarrow> dogecoin_p2p_deser_addr 0 a0 (address_bytes a @ rest) = (True, a, rest)"
  by (simp add: dogecoin_p2p_deser_addr_def address_bytes_def address_ok_def DOGECOIN_ADDR_TIME_VERSION_def Let_def
      del: le_bytes_numeral)

lemma version_ser_appends:
  assumes "version_ok m"
  shows "sink.appends (dogecoin_p2p_msg_version_ser m) (version_bytes m)"
proof -
  have a: "length (ip (addr_recv m)) = 16" "length (ip (addr_from m)) = 16" "length (agent m) < 128"
    using assms by (simp_all add: version_ok_def address_ok_def)
  have "128 - length (agent m) = Suc (127 - length (agent m))" using a(3) by simp
  then have "useragent m = agent m @ 0 # replicate (127 - length (agent m)) 0"
    using assms by (simp add: version_ok_def)
  then have u: "sink.appends (\<lambda>s. ser_str s (useragent m) 1024) (varstr_bytes (agent m))"
    using ser_str_appends [OF agent_clean, of m 1024 "replicate (127 - length (agent m)) 0"] a(3) by simp
  show ?thesis
    unfolding dogecoin_p2p_msg_version_ser_def version_bytes_def version_wire_def cstr_append_c_def
    using a(1,2) by (intro sink.appends_comp appending ser_addr_appends u appends_buf) simp_all
qed

lemma fill_addr_True [simp]:
  "dogecoin_p2p_deser_addr 0 (get m) buf = (True, a, rest) \<Longrightarrow> fill_addr get u (True, m, buf) = (True, u a m, rest)"
  by (simp add: fill_addr_def)

lemma fill_useragent_bytes:
  assumes "length a \<le> 1024"
  shows "fill_useragent (True, m, varstr_bytes a @ rest)
    = (True, m\<lparr>useragent := take 128 a @ replicate (128 - length a) 0\<rparr>, rest)"
proof -
  have n: "unat (of_nat (length a) :: u32) = length a" using assms by (simp add: unat_of_nat)
  then have "\<not> (of_nat (length a) :: u32) > 1024" using assms by (simp add: word_less_nat_alt)
  moreover have "take (min (length a) 128) a = take 128 a" by (simp add: min_def)
  moreover have "128 - min (length a) 128 = 128 - length a" by simp
  ultimately show ?thesis
    using n assms by (simp add: fill_useragent_def varstr_bytes_def Let_def)
qed

lemma fill_useragent_long:
  assumes "1024 < length a" "length a < 2 ^ 32"
  shows "fst (fill_useragent (True, m, varstr_bytes a @ rest)) = False"
proof -
  have n: "unat (of_nat (length a) :: u32) = length a" using assms(2) by (simp add: unat_of_nat)
  then have "(of_nat (length a) :: u32) > 1024" using assms by (simp add: word_less_nat_alt)
  then show ?thesis using n assms(2) by (simp add: fill_useragent_def varstr_bytes_def Let_def)
qed

lemma version_deser_wire:
  assumes "address_ok (addr_recv m)" "address_ok (addr_from m)"
  shows "length a \<le> 1024 \<Longrightarrow> dogecoin_p2p_msg_version_deser (version_wire m a @ rest)
      = (True, version_read (m\<lparr>useragent := take 128 a @ replicate (128 - length a) 0\<rparr>) rest)"
    and "1024 < length a \<Longrightarrow> length a < 2 ^ 32 \<Longrightarrow> fst (dogecoin_p2p_msg_version_deser (version_wire m a @ rest)) = False"
proof -
  show "length a \<le> 1024 \<Longrightarrow> dogecoin_p2p_msg_version_deser (version_wire m a @ rest)
      = (True, version_read (m\<lparr>useragent := take 128 a @ replicate (128 - length a) 0\<rparr>) rest)"
    by (simp add: dogecoin_p2p_msg_version_deser_def version_wire_def version_read_def zero_version_msg_def assms deser_addr_bytes
        fill_useragent_bytes Let_def del: le_bytes_numeral)
  assume a: "1024 < length a" "length a < 2 ^ 32"
  let ?m = "zero_version_msg\<lparr>msg_version := msg_version m, msg_services := msg_services m, msg_timestamp := msg_timestamp m,
    addr_recv := addr_recv m, addr_from := addr_from m, msg_nonce := msg_nonce m\<rparr>"
  obtain m' b where u: "fill_useragent (True, ?m, varstr_bytes a @ le_bytes 4 (unat (start_height m)) @ [relay m] @ rest) = (False, m', b)"
    using fill_useragent_long [OF a, of ?m "le_bytes 4 (unat (start_height m)) @ [relay m] @ rest"] by (cases "fill_useragent (True, ?m, varstr_bytes a @ le_bytes 4 (unat (start_height m)) @ [relay m] @ rest)") auto
  then show "fst (dogecoin_p2p_msg_version_deser (version_wire m a @ rest)) = False"
    by (simp add: dogecoin_p2p_msg_version_deser_def version_wire_def zero_version_msg_def assms deser_addr_bytes
        Let_def fill_def del: le_bytes_numeral)
qed

text \<open>C28:
  A version message survives the wire: what is appended for it is read back as the same message, except that its last
  byte is left unread, and the field for it zero, when its version is 70003 or less. The same message with a user agent
  of 128 to 1024 bytes is read back with exactly the first 128 of them, which leaves the field without a terminator when
  there is no NUL among them; one with a longer user agent is refused.
\<close>

theorem version_round_trip:
  assumes "version_ok m" "cstr_holds s pre" "length pre + length (version_bytes m) < 2 ^ 30"
  shows "(\<exists>s'. dogecoin_p2p_msg_version_ser m s = Some s' \<and> cstr_holds s' (pre @ version_bytes m))
    \<and> dogecoin_p2p_msg_version_deser (version_bytes m @ rest) = (True, version_read m rest)
    \<and> (\<forall>a. 128 \<le> length a \<and> length a \<le> 1024 \<longrightarrow>
         dogecoin_p2p_msg_version_deser (version_wire m a @ rest) = (True, version_read (m\<lparr>useragent := take 128 a\<rparr>) rest)
         \<and> (0 \<notin> set (take 128 a) \<longrightarrow> c_string (useragent (m\<lparr>useragent := take 128 a\<rparr>)) = None))
    \<and> (\<forall>a. 1024 < length a \<and> length a < 2 ^ 32 \<longrightarrow> fst (dogecoin_p2p_msg_version_deser (version_wire m a @ rest)) = False)"
proof -
  have "\<exists>s'. dogecoin_p2p_msg_version_ser m s = Some s' \<and> cstr_holds s' (pre @ version_bytes m)"
    using sink.appendsD [OF version_ser_appends [OF assms(1)] assms(2)] assms(3) by simp
  moreover have a: "address_ok (addr_recv m)" "address_ok (addr_from m)" "length (agent m) < 128"
      "take 128 (agent m) @ replicate (128 - length (agent m)) 0 = useragent m"
    using assms(1) by (simp_all add: version_ok_def)
  moreover have "m\<lparr>useragent := useragent m\<rparr> = m" by simp
  ultimately show ?thesis
    using version_deser_wire(1) [OF a(1,2), of "agent m" rest] version_deser_wire [OF a(1,2), of _ rest]
    by (simp add: version_bytes_def c_string_None)
qed

definition sample_version :: dogecoin_p2p_version_msg where
  "sample_version = zero_version_msg\<lparr>msg_version := 70015, msg_services := 1, msg_nonce := 77,
     useragent := [115, 112, 118] @ replicate 125 0, start_height := 5000000, relay := 1\<rparr>"

lemma sample_version_ok: "version_ok sample_version" "length (version_bytes sample_version) = 89" "agent sample_version = [115, 112, 118]"
  by (simp_all add: sample_version_def zero_version_msg_def version_ok_def agent_def address_ok_def dogecoin_p2p_address_init_def
      version_bytes_def version_wire_def address_bytes_def varstr_bytes_def varlen_bytes_def)

lemma version_round_trip_witness:
  "(\<exists>s'. dogecoin_p2p_msg_version_ser sample_version empty_string = Some s' \<and> cstr_holds s' ([] @ version_bytes sample_version))
    \<and> dogecoin_p2p_msg_version_deser (version_bytes sample_version @ [9]) = (True, sample_version, [9])
    \<and> dogecoin_p2p_msg_version_deser (version_wire sample_version (replicate 200 97) @ [9])
        = (True, sample_version\<lparr>useragent := replicate 128 97\<rparr>, [9])
    \<and> fst (dogecoin_p2p_msg_version_deser (version_wire sample_version (replicate 1025 97) @ [9])) = False"
proof -
  have "version_read sample_version [9] = (sample_version, [9])"
    "version_read (sample_version\<lparr>useragent := replicate 128 97\<rparr>) [9] = (sample_version\<lparr>useragent := replicate 128 97\<rparr>, [9])"
    by (simp_all add: version_read_def sample_version_def)
  moreover have "length (replicate 200 (97 :: u8)) = 200" "length (replicate 1025 (97 :: u8)) = 1025"
      "take 128 (replicate 200 (97 :: u8)) = replicate 128 97"
    by (simp_all only: length_replicate take_replicate) simp
  ultimately show ?thesis
    using version_round_trip [OF sample_version_ok(1) empty_string_holds, of "[9]"] sample_version_ok(2)
    by auto
qed

lemma inv_ser_appends: "length (inv_hash m) = 32 \<Longrightarrow> sink.appends (dogecoin_p2p_msg_inv_ser m) (inv_bytes m)"
  unfolding dogecoin_p2p_msg_inv_ser_def inv_bytes_def DOGECOIN_HASH_LENGTH_def
  by (intro sink.appends_comp appending) simp

lemma inv_deser_bytes:
  "length (inv_hash m) = 32 \<Longrightarrow> dogecoin_p2p_msg_inv_deser (inv_bytes m @ rest) = (True, m, rest)"
  by (simp add: dogecoin_p2p_msg_inv_deser_def inv_bytes_def Let_def del: le_bytes_numeral)

lemma deser_locators_all:
  assumes "vec_holds v (map Some xs)" "\<forall>h\<in>set hs. length h = 32" "length xs + length hs < 2 ^ 63"
  shows "\<exists>v'. deser_locators (length hs) v (concat hs @ rest) = Some (True, v', rest) \<and> vec_holds v' (map Some (xs @ hs))"
  using assms
proof (induction hs arbitrary: v xs)
  case Nil
  then show ?case by simp
next
  case (Cons h hs)
  obtain w where w: "vector_add v (Some h) = Some w" "vec_holds w (map Some xs @ [Some h])"
    using vec_add [OF Cons.prems(1), of "Some h"] Cons.prems(3) by auto
  from Cons.IH [of w "xs @ [h]"] Cons.prems w show ?case by simp
qed

lemma empty_resize: "vec_holds v [] \<Longrightarrow> n < 2 ^ 62 \<Longrightarrow> \<exists>v'. vector_resize v n = Some v' \<and> vec_holds v' []"
  using vector_resize_length [of v "[]" n] by auto

lemma locators_each:
  assumes "vec_holds v (map Some hs)" "\<forall>h\<in>set hs. length h = 32"
  shows "sink.appends (vec_each (\<lambda>h s. ser_bytes s (Some h) DOGECOIN_HASH_LENGTH) v 0 (vlen v)) (concat hs)"
  unfolding vec_each_all [OF assms(1)]
  using assms(2)
proof (induction hs)
  case (Cons h hs)
  then show ?case
    using sink.appends_comp [OF ser_bytes_appends [of 32 h] Cons.IH] by (simp add: DOGECOIN_HASH_LENGTH_def)
qed (simp add: sink.appends_def)

text \<open>
  The hashes of a locator are read back, with the hash to stop at, into an empty vector: making room for them first does
  not change its length. No hash to stop at is thirty-two zeros.
\<close>

theorem getheaders_round_trip:
  assumes "vec_holds v (map Some hs)" "\<forall>h\<in>set (stop # hs). length h = 32" "cstr_holds s pre"
    and "length pre + length (locator_bytes hs stop) < 2 ^ 30" "vec_holds w []"
  shows "(\<exists>s'. dogecoin_p2p_msg_getheaders v (Some stop) s = Some s' \<and> cstr_holds s' (pre @ locator_bytes hs stop))
    \<and> dogecoin_p2p_msg_getheaders v None s = dogecoin_p2p_msg_getheaders v (Some NULLHASH) s
    \<and> (\<exists>w'. dogecoin_p2p_deser_msg_getheaders w old (locator_bytes hs stop @ rest) = Some (True, w', stop, rest)
          \<and> vec_holds w' (map Some hs))"
proof -
  have n: "length hs < 2 ^ 26"
  proof -
    have "length (concat hs) = 32 * length hs" using assms(2) by (induction hs) auto
    then show ?thesis using assms(4) by (simp add: locator_bytes_def del: le_bytes_numeral)
  qed
  have u: "unat (of_nat (length hs) :: u32) = length hs" and vl: "vlen v = length hs"
    using n assms(1) by (simp_all add: unat_of_nat vec_holds_def)
  have "sink.appends (dogecoin_p2p_msg_getheaders v (Some stop)) (locator_bytes hs stop)"
    unfolding dogecoin_p2p_msg_getheaders_def locator_bytes_def
    using assms(2) ser_varlen_appends [of "of_nat (vlen v)"] locators_each [OF assms(1)]
    by (simp only: option.case u vl) (intro sink.appends_comp appending, auto simp: DOGECOIN_HASH_LENGTH_def)
  note ser = sink.appendsD [OF this assms(3)]
  obtain x where x: "vector_resize w (length hs) = Some x" "vec_holds x []"
    using empty_resize [OF assms(5), of "length hs"] n by auto
  obtain w' where w: "deser_locators (length hs) x (concat hs @ stop @ rest) = Some (True, w', stop @ rest)"
    "vec_holds w' (map Some hs)"
    using deser_locators_all [of x "[]" hs "stop @ rest"] x(2) assms(2) n by auto
  have "dogecoin_p2p_deser_msg_getheaders w old (locator_bytes hs stop @ rest) = Some (True, w', stop, rest)"
    using w(1) x(1) u n assms(2) by (simp add: dogecoin_p2p_deser_msg_getheaders_def locator_bytes_def del: le_bytes_numeral)
  with ser w(2) assms(4) show ?thesis by (auto simp: dogecoin_p2p_msg_getheaders_def)
qed
end
