(* ===== verification/NetNode.thy ===== *)
theory NetNode
  imports Protocol
begin

text \<open>
  Peers (\<open>src/net.c\<close>, \<open>include/dogecoin/net.h\<close>): the state of a node, what is read from it, the handshake, the timer,
  and the broadcast of a transaction. libevent is outside: what it reports comes in as arguments, what is written to a
  peer goes to the list \<open>sent\<close> of its node. A node is an index into its group. Time and random numbers are those of the
  callback that runs; loggers are left out.
\<close>

section \<open>State\<close>

definition NODE_CONNECTING :: u32 where [code_values]: "NODE_CONNECTING = 1"
definition NODE_CONNECTED :: u32 where [code_values]: "NODE_CONNECTED = 2"
definition NODE_ERRORED :: u32 where [code_values]: "NODE_ERRORED = 4"
definition NODE_TIMEOUT :: u32 where [code_values]: "NODE_TIMEOUT = 8"
definition NODE_MISSBEHAVED :: u32 where [code_values]: "NODE_MISSBEHAVED = 64"
definition NODE_DISCONNECTED :: u32 where [code_values]: "NODE_DISCONNECTED = 128"
definition NODE_DISCONNECTED_FROM_REMOTE_PEER :: u32 where [code_values]: "NODE_DISCONNECTED_FROM_REMOTE_PEER = 256"
definition DOGECOIN_PING_INTERVAL_S :: u64 where [code_values]: "DOGECOIN_PING_INTERVAL_S = 120"
definition DOGECOIN_CONNECT_TIMEOUT_S :: u64 where [code_values]: "DOGECOIN_CONNECT_TIMEOUT_S = 10"
definition DOGECOIN_P2P_MESSAGE_CHUNK_SIZE :: nat where "DOGECOIN_P2P_MESSAGE_CHUNK_SIZE = 4000"

text \<open>Commands: version, verack, inv, getdata, tx, ping and pong.\<close>

definition DOGECOIN_MSG_VERSION :: bytes where "DOGECOIN_MSG_VERSION = [118, 101, 114, 115, 105, 111, 110]"
definition DOGECOIN_MSG_VERACK :: bytes where "DOGECOIN_MSG_VERACK = [118, 101, 114, 97, 99, 107]"
definition DOGECOIN_MSG_INV :: bytes where "DOGECOIN_MSG_INV = [105, 110, 118]"
definition DOGECOIN_MSG_GETDATA :: bytes where "DOGECOIN_MSG_GETDATA = [103, 101, 116, 100, 97, 116, 97]"
definition DOGECOIN_MSG_TX :: bytes where "DOGECOIN_MSG_TX = [116, 120]"
definition DOGECOIN_MSG_PING :: bytes where "DOGECOIN_MSG_PING = [112, 105, 110, 103]"
definition DOGECOIN_MSG_PONG :: bytes where "DOGECOIN_MSG_PONG = [112, 111, 110, 103]"

text \<open>The events and timers that are set up are only seen as present; the receive buffer of a node is kept beside it. The
  fields that this file sets once and never reads are left out.\<close>

record dogecoin_node =
  addr :: sockaddr
  event_bev :: bool
  timer_event :: bool
  nodeid :: nat
  lastping :: u64
  time_started_con :: u64
  node_state :: u32
  version_handshake :: bool
  bestknownheight :: u32
  hints :: u32
  sent :: "bytes list"

record 'c dogecoin_node_group =
  nodes :: "dogecoin_node list"
  desired_amount_connected_nodes :: int
  chainparams :: dogecoin_chainparams
  clientstr :: bytes
  ctx :: 'c

record callback_env =
  now :: u64
  random :: u64
  connect_ok :: "nat \<Rightarrow> bool"

text \<open>The callbacks of a group: those that a change of the connection runs, and those of messages and the timer.\<close>

record 'c connection_callbacks =
  node_connection_state_changed_cb :: "(nat \<Rightarrow> 'c dogecoin_node_group \<Rightarrow> 'c dogecoin_node_group option) option"
  should_connect_to_more_nodes_cb :: "(nat \<Rightarrow> 'c dogecoin_node_group \<Rightarrow> bool) option"

record 'c group_callbacks = "'c connection_callbacks" +
  parse_cmd_cb :: "(callback_env \<Rightarrow> nat \<Rightarrow> dogecoin_p2p_msg_hdr \<Rightarrow> bytes \<Rightarrow> 'c dogecoin_node_group
    \<Rightarrow> (bool \<times> 'c dogecoin_node_group) option) option"
  postcmd_cb :: "(callback_env \<Rightarrow> nat \<Rightarrow> dogecoin_p2p_msg_hdr \<Rightarrow> bytes \<Rightarrow> 'c dogecoin_node_group
    \<Rightarrow> 'c dogecoin_node_group option) option"
  handshake_done_cb :: "(callback_env \<Rightarrow> nat \<Rightarrow> 'c dogecoin_node_group \<Rightarrow> 'c dogecoin_node_group option) option"
  periodic_timer_cb :: "(callback_env \<Rightarrow> nat \<Rightarrow> 'c dogecoin_node_group \<Rightarrow> (bool \<times> 'c dogecoin_node_group) option) option"

definition has_state :: "dogecoin_node \<Rightarrow> u32 \<Rightarrow> bool" where
  "has_state n f \<longleftrightarrow> node_state n AND f = f"

definition node_at :: "nat \<Rightarrow> 'c dogecoin_node_group \<Rightarrow> dogecoin_node option" where
  "node_at i g = mem_get (nodes g) i"

definition update_node :: "nat \<Rightarrow> (dogecoin_node \<Rightarrow> dogecoin_node) \<Rightarrow> 'c dogecoin_node_group \<Rightarrow> 'c dogecoin_node_group option" where
  "update_node i f g = do { n \<leftarrow> node_at i g; ns \<leftarrow> mem_set (nodes g) i (f n); Some (g\<lparr>nodes := ns\<rparr>) }"

definition dogecoin_node_new :: dogecoin_node where
  "dogecoin_node_new = \<lparr>addr = \<lparr>sa_family = AF_OTHER, sin_port = 0, sin_addr = replicate 4 0, sin6_addr = replicate 16 0\<rparr>,
     event_bev = False, timer_event = False, nodeid = 0, lastping = 0, time_started_con = 0, node_state = 0,
     version_handshake = False, bestknownheight = 0, hints = 0, sent = []\<rparr>"

definition dogecoin_node_recv_new :: "cstring option" where
  "dogecoin_node_recv_new = cstr_new_sz DOGECOIN_P2P_MESSAGE_CHUNK_SIZE"

definition dogecoin_node_group_add_node :: "'c dogecoin_node_group \<Rightarrow> dogecoin_node \<Rightarrow> 'c dogecoin_node_group" where
  "dogecoin_node_group_add_node g n = g\<lparr>nodes := nodes g @ [n\<lparr>nodeid := length (nodes g) + 1\<rparr>]\<rparr>"

definition dogecoin_node_group_amount_of_connected_nodes :: "'c dogecoin_node_group \<Rightarrow> u32 \<Rightarrow> int" where
  "dogecoin_node_group_amount_of_connected_nodes g f = int (length (filter (\<lambda>n. has_state n f) (nodes g)))"

section \<open>Connections\<close>

definition dogecoin_node_release_events :: "dogecoin_node \<Rightarrow> dogecoin_node" where
  "dogecoin_node_release_events n = n\<lparr>event_bev := False, timer_event := False\<rparr>"

definition dogecoin_node_disconnect :: "dogecoin_node \<Rightarrow> dogecoin_node" where
  "dogecoin_node_disconnect n =
     (let n = dogecoin_node_release_events n
      in n\<lparr>node_state := node_state n AND NOT NODE_CONNECTING AND NOT NODE_CONNECTED OR NODE_DISCONNECTED,
           time_started_con := 0\<rparr>)"

definition dogecoin_node_group_shutdown :: "'c dogecoin_node_group \<Rightarrow> 'c dogecoin_node_group" where
  "dogecoin_node_group_shutdown g = g\<lparr>nodes := map dogecoin_node_disconnect (nodes g)\<rparr>"

definition idle :: "dogecoin_node \<Rightarrow> bool" where
  "idle n \<longleftrightarrow> \<not> has_state n NODE_CONNECTED \<and> \<not> has_state n NODE_CONNECTING \<and> \<not> has_state n NODE_DISCONNECTED
     \<and> \<not> has_state n NODE_ERRORED"

text \<open>The loop over the nodes, from index \<open>i\<close> on.\<close>

fun connect_loop :: "callback_env \<Rightarrow> nat \<Rightarrow> int \<Rightarrow> bool \<Rightarrow> dogecoin_node list \<Rightarrow> bool \<times> dogecoin_node list" where
  "connect_loop env i connect_amount connected [] = (connected, [])"
| "connect_loop env i connect_amount connected (n # ns) =
     (if idle n then
        (if \<not> connect_ok env i then (False, n\<lparr>event_bev := False\<rparr> # ns)
         else
           let n = n\<lparr>event_bev := True, time_started_con := now env, timer_event := True,
                     node_state := node_state n OR NODE_CONNECTING\<rparr>;
               connect_amount = connect_amount - 1
           in if connect_amount \<le> 0 then (True, n # ns)
              else let (r, ns) = connect_loop env (Suc i) connect_amount True ns in (r, n # ns))
      else let (r, ns) = connect_loop env (Suc i) connect_amount connected ns in (r, n # ns))"

definition dogecoin_node_group_connect_next_nodes ::
    "callback_env \<Rightarrow> 'c dogecoin_node_group \<Rightarrow> bool \<times> 'c dogecoin_node_group" where
  "dogecoin_node_group_connect_next_nodes env g =
     (let connect_amount = desired_amount_connected_nodes g - dogecoin_node_group_amount_of_connected_nodes g NODE_CONNECTED
      in if connect_amount \<le> 0 then (True, g)
         else let (r, ns) = connect_loop env 0 (connect_amount * 3) False (nodes g) in (r, g\<lparr>nodes := ns\<rparr>))"

definition dogecoin_node_send :: "nat \<Rightarrow> cstring \<Rightarrow> 'c dogecoin_node_group \<Rightarrow> 'c dogecoin_node_group option" where
  "dogecoin_node_send i msg g = do {
     n \<leftarrow> node_at i g;
     (if \<not> has_state n NODE_CONNECTED then Some g
      else do {
        b \<leftarrow> contents msg;
        update_node i (\<lambda>n. n\<lparr>sent := sent n @ [b]\<rparr>) g
      })
   }"

definition dogecoin_node_send_version :: "callback_env \<Rightarrow> nat \<Rightarrow> 'c dogecoin_node_group \<Rightarrow> 'c dogecoin_node_group option" where
  "dogecoin_node_send_version env i g = do {
     s \<leftarrow> cstr_new_sz 256;
     n \<leftarrow> node_at i g;
     let toAddr = dogecoin_addr_to_p2paddr (addr n) dogecoin_p2p_address_init;
     msg \<leftarrow> dogecoin_p2p_msg_version_init (now env) (random env) zero_version_msg (Some dogecoin_p2p_address_init) (Some toAddr)
              (Some (clientstr g)) 1;
     s \<leftarrow> dogecoin_p2p_msg_version_ser msg s;
     b \<leftarrow> contents s;
     p2p_msg \<leftarrow> dogecoin_p2p_message_new (netmagic (chainparams g)) (DOGECOIN_MSG_VERSION @ [0]) b (of_nat (len s));
     dogecoin_node_send i p2p_msg g
   }"

definition dogecoin_node_connection_state_changed ::
    "('c, 'z) connection_callbacks_scheme \<Rightarrow> callback_env \<Rightarrow> nat \<Rightarrow> 'c dogecoin_node_group \<Rightarrow> 'c dogecoin_node_group option" where
  "dogecoin_node_connection_state_changed cbs env i g = do {
     g \<leftarrow> (case node_connection_state_changed_cb cbs of None \<Rightarrow> Some g | Some f \<Rightarrow> f i g);
     n \<leftarrow> node_at i g;
     g \<leftarrow> (if has_state n NODE_ERRORED then do {
             g \<leftarrow> update_node i dogecoin_node_release_events g;
             let more = (case should_connect_to_more_nodes_cb cbs of None \<Rightarrow> True | Some f \<Rightarrow> f i g);
             Some (if more \<and> dogecoin_node_group_amount_of_connected_nodes g NODE_CONNECTED
                     + dogecoin_node_group_amount_of_connected_nodes g NODE_CONNECTING < desired_amount_connected_nodes g
                   then snd (dogecoin_node_group_connect_next_nodes env g) else g)
           }
           else Some g);
     n \<leftarrow> node_at i g;
     (if has_state n NODE_MISSBEHAVED
      then (if has_state n NODE_CONNECTED \<or> has_state n NODE_CONNECTING then update_node i dogecoin_node_disconnect g else Some g)
      else dogecoin_node_send_version env i g)
   }"

definition dogecoin_node_misbehave ::
    "('c, 'z) connection_callbacks_scheme \<Rightarrow> callback_env \<Rightarrow> nat \<Rightarrow> 'c dogecoin_node_group \<Rightarrow> (int \<times> 'c dogecoin_node_group) option" where
  "dogecoin_node_misbehave cbs env i g = do {
     g \<leftarrow> update_node i (\<lambda>n. n\<lparr>node_state := node_state n OR NODE_MISSBEHAVED\<rparr>) g;
     g \<leftarrow> dogecoin_node_connection_state_changed cbs env i g;
     Some (0, g)
   }"

section \<open>Messages\<close>

text \<open>\<open>strcmp(hdr->command, c) == 0\<close>, which looks no further than the terminator of \<open>c\<close>.\<close>

definition is_command :: "dogecoin_p2p_msg_hdr \<Rightarrow> bytes \<Rightarrow> bool" where
  "is_command hdr c \<longleftrightarrow> take (length c + 1) (command hdr) = c @ [0]"

text \<open>What the message does itself: \<open>None\<close> for the rest of the buffer when the peer misbehaved.\<close>

definition handle_message ::
    "('c, 'z) group_callbacks_scheme \<Rightarrow> callback_env \<Rightarrow> nat \<Rightarrow> dogecoin_p2p_msg_hdr \<Rightarrow> bytes \<Rightarrow> 'c dogecoin_node_group
      \<Rightarrow> (bytes option \<times> 'c dogecoin_node_group) option" where
  "handle_message cbs env i hdr buf g =
     (if is_command hdr DOGECOIN_MSG_VERSION then
        (case dogecoin_p2p_msg_version_deser buf of (ok, v, buf) \<Rightarrow>
           if \<not> ok then do { (_, g) \<leftarrow> dogecoin_node_misbehave cbs env i g; Some (None, g) }
           else do {
             g \<leftarrow> (if msg_services v AND DOGECOIN_NODE_NETWORK \<noteq> DOGECOIN_NODE_NETWORK
                   then update_node i dogecoin_node_disconnect g else Some g);
             g \<leftarrow> update_node i (\<lambda>n. n\<lparr>bestknownheight := start_height v\<rparr>) g;
             verack \<leftarrow> dogecoin_p2p_message_new (netmagic (chainparams g)) (DOGECOIN_MSG_VERACK @ [0]) [] 0;
             g \<leftarrow> dogecoin_node_send i verack g;
             Some (Some buf, g)
           })
      else if is_command hdr DOGECOIN_MSG_VERACK then do {
        g \<leftarrow> update_node i (\<lambda>n. n\<lparr>version_handshake := True\<rparr>) g;
        g \<leftarrow> (case handshake_done_cb cbs of None \<Rightarrow> Some g | Some f \<Rightarrow> f env i g);
        Some (Some buf, g)
      }
      else if is_command hdr DOGECOIN_MSG_PING then
        (case deser_u64 buf of
           None \<Rightarrow> do { (_, g) \<leftarrow> dogecoin_node_misbehave cbs env i g; Some (None, g) }
         | Some (n, buf) \<Rightarrow> do {
             pongmsg \<leftarrow> dogecoin_p2p_message_new (netmagic (chainparams g)) (DOGECOIN_MSG_PONG @ [0]) (le_bytes 8 (unat n)) 8;
             g \<leftarrow> dogecoin_node_send i pongmsg g;
             Some (Some buf, g)
           })
      else Some (Some buf, g))"

definition dogecoin_node_parse_message ::
    "('c, 'z) group_callbacks_scheme \<Rightarrow> callback_env \<Rightarrow> nat \<Rightarrow> dogecoin_p2p_msg_hdr \<Rightarrow> bytes \<Rightarrow> 'c dogecoin_node_group
      \<Rightarrow> (int \<times> 'c dogecoin_node_group) option" where
  "dogecoin_node_parse_message cbs env i hdr buf g =
     (if hdr_netmagic hdr \<noteq> netmagic (chainparams g) then dogecoin_node_misbehave cbs env i g
      else do {
        (go_on, g) \<leftarrow> (case parse_cmd_cb cbs of None \<Rightarrow> Some (True, g) | Some f \<Rightarrow> f env i hdr buf g);
        (left, g) \<leftarrow> (if go_on then handle_message cbs env i hdr buf g else Some (Some buf, g));
        (case left of
           None \<Rightarrow> Some (0, g)
         | Some buf \<Rightarrow> do {
             g \<leftarrow> (case postcmd_cb cbs of None \<Rightarrow> Some g | Some f \<Rightarrow> f env i hdr buf g);
             Some (1, g)
           })
      })"

section \<open>The receive buffer\<close>

text \<open>
  The loop of \<open>read_cb\<close>: the bytes that are left from \<open>read_upto\<close> on, if any message was complete; \<open>Returned\<close> is the
  return from the middle of the loop. A message is parsed with all that has been received after its header.
\<close>

datatype loop_end = Returned | Ended "bytes option"

definition no_header :: dogecoin_p2p_msg_hdr where
  "no_header = \<lparr>hdr_netmagic = replicate 4 0, command = replicate 12 0, data_len = 0, hdr_hash = replicate 4 0\<rparr>"

lemma msghdr_length:
  assumes "(x, b) = dogecoin_p2p_deser_msghdr h buf" "\<not> length buf < 24"
  shows "length b + 24 = length buf"
proof -
  have "deser_bytes 4 buf = Some (take 4 buf, drop 4 buf)" "deser_bytes 12 (drop 4 buf) = Some (take 12 (drop 4 buf), drop 16 buf)"
    "deser_u32 (drop 16 buf) = Some (le_word (take 4 (drop 16 buf)), drop 20 buf)"
    "deser_bytes 4 (drop 20 buf) = Some (take 4 (drop 20 buf), drop 24 buf)"
    using assms(2) by (simp_all add: deser_bytes_def deser_u32_def)
  then have "b = drop 24 buf" using assms(1) by (simp add: dogecoin_p2p_deser_msghdr_def)
  with assms(2) show ?thesis by simp
qed

function read_loop ::
    "('c, 'z) group_callbacks_scheme \<Rightarrow> callback_env \<Rightarrow> nat \<Rightarrow> bytes \<Rightarrow> bytes option \<Rightarrow> 'c dogecoin_node_group
      \<Rightarrow> (loop_end \<times> 'c dogecoin_node_group) option" where
  "read_loop cbs env i buf read_upto g =
     (if length buf < DOGECOIN_P2P_HDRSZ then Some (Ended read_upto, g)
      else let (hdr, b) = dogecoin_p2p_deser_msghdr no_header buf in
        if unat (data_len hdr) > DOGECOIN_MAX_P2P_MSG_SIZE then do {
          (_, g) \<leftarrow> dogecoin_node_misbehave cbs env i g;
          Some (Returned, g)
        }
        else if length b < unat (data_len hdr) then Some (Ended read_upto, g)
        else do {
          n \<leftarrow> node_at i g;
          (if \<not> has_state n NODE_CONNECTED then Some (Returned, g)
           else do {
             (_, g) \<leftarrow> dogecoin_node_parse_message cbs env i hdr b g;
             let b = drop (unat (data_len hdr)) b;
             (if b = [] then Some (Ended (Some b), g) else read_loop cbs env i b (Some b) g)
           })
        })"
  by pat_completeness auto

termination
proof (relation "measure (\<lambda>(cbs, env, i, buf, read_upto, g). length buf)", goal_cases)
  case (2 cbs env i buf read_upto g r hdr b n y z g' d)
  with msghdr_length [of hdr b no_header buf] show ?case by (simp add: DOGECOIN_P2P_HDRSZ_def)
qed simp

declare read_loop.simps [simp del]

text \<open>
  The callback of the event buffer, with the bytes that have arrived. The buffer has no terminator after them, except
  when what is left of it is copied to a new one.
\<close>

definition read_cb ::
    "('c, 'z) group_callbacks_scheme \<Rightarrow> callback_env \<Rightarrow> nat \<Rightarrow> bytes \<Rightarrow> cstring \<times> 'c dogecoin_node_group
      \<Rightarrow> (cstring \<times> 'c dogecoin_node_group) option" where
  "read_cb cbs env i input st = (case st of (recvBuffer, g) \<Rightarrow> do {
     n \<leftarrow> node_at i g;
     (if \<not> has_state n NODE_CONNECTED then Some (recvBuffer, g)
      else do {
        (_, recvBuffer) \<leftarrow> cstr_alloc_minsize recvBuffer (len recvBuffer + length input);
        b \<leftarrow> mem_write (str recvBuffer) (len recvBuffer) (map Some input);
        let recvBuffer = recvBuffer\<lparr>str := b, len := len recvBuffer + length input\<rparr>;
        buf \<leftarrow> contents recvBuffer;
        (r, g) \<leftarrow> read_loop cbs env i buf None g;
        (case r of
           Ended (Some left) \<Rightarrow>
             (if left = [] then Some (recvBuffer\<lparr>len := 0\<rparr>, g)
              else do { tmp \<leftarrow> cstr_new_buf (Some left) (length left); Some (tmp, g) })
         | _ \<Rightarrow> Some (recvBuffer, g))
      })
   })"
section \<open>The timer and the connection\<close>

definition node_periodical_timer ::
    "('c, 'z) group_callbacks_scheme \<Rightarrow> callback_env \<Rightarrow> nat \<Rightarrow> 'c dogecoin_node_group \<Rightarrow> 'c dogecoin_node_group option" where
  "node_periodical_timer cbs env i g = do {
     (go_on, g) \<leftarrow> (case periodic_timer_cb cbs of None \<Rightarrow> Some (True, g) | Some f \<Rightarrow> f env i g);
     (if \<not> go_on then Some g
      else do {
        n \<leftarrow> node_at i g;
        g \<leftarrow> (if time_started_con n + DOGECOIN_CONNECT_TIMEOUT_S < now env \<and> has_state n NODE_CONNECTING then do {
                g \<leftarrow> update_node i (\<lambda>n. n\<lparr>node_state := NODE_ERRORED OR NODE_TIMEOUT, time_started_con := 0\<rparr>) g;
                dogecoin_node_connection_state_changed cbs env i g
              }
              else Some g);
        n \<leftarrow> node_at i g;
        (if has_state n NODE_CONNECTED \<and> lastping n + DOGECOIN_PING_INTERVAL_S < now env then do {
           pingmsg \<leftarrow> dogecoin_p2p_message_new (netmagic (chainparams g)) (DOGECOIN_MSG_PING @ [0]) (le_bytes 8 (unat (random env))) 8;
           g \<leftarrow> dogecoin_node_send i pingmsg g;
           update_node i (\<lambda>n. n\<lparr>lastping := now env\<rparr>) g
         }
         else Some g)
      })
   }"

text \<open>What libevent reports about a connection.\<close>

definition BEV_EVENT_EOF :: u16 where [code_values]: "BEV_EVENT_EOF = 0x10"
definition BEV_EVENT_ERROR :: u16 where [code_values]: "BEV_EVENT_ERROR = 0x20"
definition BEV_EVENT_TIMEOUT :: u16 where [code_values]: "BEV_EVENT_TIMEOUT = 0x40"
definition BEV_EVENT_CONNECTED :: u16 where [code_values]: "BEV_EVENT_CONNECTED = 0x80"

definition event_cb ::
    "('c, 'z) group_callbacks_scheme \<Rightarrow> callback_env \<Rightarrow> nat \<Rightarrow> u16 \<Rightarrow> 'c dogecoin_node_group \<Rightarrow> 'c dogecoin_node_group option" where
  "event_cb cbs env i t g = do {
     n \<leftarrow> node_at i g;
     (if t AND BEV_EVENT_TIMEOUT \<noteq> 0 \<and> has_state n NODE_CONNECTING then do {
        g \<leftarrow> update_node i (\<lambda>n. n\<lparr>node_state := NODE_ERRORED OR NODE_TIMEOUT\<rparr>) g;
        dogecoin_node_connection_state_changed cbs env i g
      }
      else if t AND BEV_EVENT_EOF \<noteq> 0 \<or> t AND BEV_EVENT_ERROR \<noteq> 0 then do {
        g \<leftarrow> update_node i (\<lambda>n. n\<lparr>node_state := NODE_ERRORED OR NODE_DISCONNECTED
               OR (if t AND BEV_EVENT_EOF \<noteq> 0 then NODE_DISCONNECTED_FROM_REMOTE_PEER else 0)\<rparr>) g;
        dogecoin_node_connection_state_changed cbs env i g
      }
      else if t AND BEV_EVENT_CONNECTED \<noteq> 0 then do {
        g \<leftarrow> update_node i (\<lambda>n. n\<lparr>node_state := (node_state n OR NODE_CONNECTED) AND NOT NODE_CONNECTING AND NOT NODE_ERRORED\<rparr>) g;
        dogecoin_node_connection_state_changed cbs env i g
      }
      else Some g)
   }"

section \<open>Adding peers\<close>

text \<open>
  \<open>dogecoin_node_group_add_peers_by_ip_or_seed\<close> with a list of addresses. The parser of addresses is that of libevent,
  a parameter. The buffer of an address has 64 bytes, which 64 characters fill to the end.
\<close>

definition dogecoin_node_set_ipport :: "(bytes \<Rightarrow> sockaddr option) \<Rightarrow> dogecoin_node \<Rightarrow> bytes \<Rightarrow> (bool \<times> dogecoin_node) option" where
  "dogecoin_node_set_ipport parse n ipport = do {
     a \<leftarrow> c_string ipport;
     Some (case parse a of None \<Rightarrow> (False, n) | Some a \<Rightarrow> (True, n\<lparr>addr := a\<rparr>))
   }"

fun add_peers_loop :: "(bytes \<Rightarrow> sockaddr option) \<Rightarrow> bytes \<Rightarrow> bytes \<Rightarrow> nat \<Rightarrow> 'c dogecoin_node_group \<Rightarrow> 'c dogecoin_node_group option" where
  "add_peers_loop parse [] working_str offset g = do {
     (ok, n) \<leftarrow> dogecoin_node_set_ipport parse dogecoin_node_new working_str;
     Some (if ok then dogecoin_node_group_add_node g n else g)
   }"
| "add_peers_loop parse (c # cs) working_str offset g =
     (if c = 44 then do {
        (ok, n) \<leftarrow> dogecoin_node_set_ipport parse dogecoin_node_new working_str;
        add_peers_loop parse cs (replicate 64 0) 0 (if ok then dogecoin_node_group_add_node g n else g)
      }
      else if c \<noteq> 32 \<and> offset < 64 then do {
        w \<leftarrow> mem_set working_str offset c;
        add_peers_loop parse cs w (offset + 1) g
      }
      else add_peers_loop parse cs working_str offset g)"

definition dogecoin_node_group_add_peers_by_ip ::
    "(bytes \<Rightarrow> sockaddr option) \<Rightarrow> 'c dogecoin_node_group \<Rightarrow> bytes \<Rightarrow> 'c dogecoin_node_group option" where
  "dogecoin_node_group_add_peers_by_ip parse g ips = do {
     s \<leftarrow> c_string ips;
     add_peers_loop parse s (replicate 64 0) 0 g
   }"

section \<open>Broadcasting a transaction\<close>

record broadcast_ctx =
  bc_tx :: dogecoin_tx
  timeout :: u32
  connected_to_peers :: int
  max_peers_to_connect :: int
  max_peers_to_inv :: int
  inved_to_peers :: int
  getdata_from_peers :: int
  found_on_non_inved_peers :: int
  start_time :: u64

type_synonym broadcast_group = "broadcast_ctx dogecoin_node_group"

definition has_hint :: "dogecoin_node \<Rightarrow> nat \<Rightarrow> bool" where
  "has_hint n k \<longleftrightarrow> bit (hints n) k"

definition set_hint :: "nat \<Rightarrow> dogecoin_node \<Rightarrow> dogecoin_node" where
  "set_hint k n = n\<lparr>hints := hints n OR push_bit k 1\<rparr>"

definition broadcast_timer_cb :: "callback_env \<Rightarrow> nat \<Rightarrow> broadcast_group \<Rightarrow> (bool \<times> broadcast_group) option" where
  "broadcast_timer_cb env i g = do {
     g \<leftarrow> (if now env - start_time (ctx g) > ucast (timeout (ctx g)) then update_node i dogecoin_node_disconnect g else Some g);
     n \<leftarrow> node_at i g;
     g \<leftarrow> (if has_hint n 1 then update_node i dogecoin_node_disconnect g else Some g);
     n \<leftarrow> node_at i g;
     g \<leftarrow> (if has_hint n 2 then update_node i dogecoin_node_disconnect g else Some g);
     Some (True, g)
   }"

definition broadcast_should_connect_more :: "nat \<Rightarrow> broadcast_group \<Rightarrow> bool" where
  "broadcast_should_connect_more i g \<longleftrightarrow> \<not> connected_to_peers (ctx g) \<ge> max_peers_to_connect (ctx g)"

definition broadcast_handshake_done :: "callback_env \<Rightarrow> nat \<Rightarrow> broadcast_group \<Rightarrow> broadcast_group option" where
  "broadcast_handshake_done env i g =
     (let g = g\<lparr>ctx := (ctx g)\<lparr>connected_to_peers := connected_to_peers (ctx g) + 1\<rparr>\<rparr>
      in if inved_to_peers (ctx g) \<ge> max_peers_to_inv (ctx g) then Some g
         else do {
           s \<leftarrow> cstr_new_sz 256;
           hash \<leftarrow> dogecoin_tx_hash (bc_tx (ctx g)) (replicate 32 0);
           let inv_msg = dogecoin_p2p_msg_inv_init \<lparr>inv_type = 0, inv_hash = replicate 32 0\<rparr> DOGECOIN_INV_TYPE_TX hash;
           s \<leftarrow> ser_varlen s 1;
           s \<leftarrow> dogecoin_p2p_msg_inv_ser inv_msg s;
           b \<leftarrow> contents s;
           p2p_msg \<leftarrow> dogecoin_p2p_message_new (netmagic (chainparams g)) (DOGECOIN_MSG_INV @ [0]) b (of_nat (len s));
           g \<leftarrow> dogecoin_node_send i p2p_msg g;
           g \<leftarrow> update_node i (set_hint 0) g;
           Some (g\<lparr>ctx := (ctx g)\<lparr>inved_to_peers := inved_to_peers (ctx g) + 1\<rparr>\<rparr>)
         })"

definition broadcast_conn :: "broadcast_ctx connection_callbacks" where
  "broadcast_conn = \<lparr>node_connection_state_changed_cb = None, should_connect_to_more_nodes_cb = Some broadcast_should_connect_more\<rparr>"

text \<open>The entries of an inventory, of which \<open>n\<close> are left.\<close>

fun inv_loop :: "callback_env \<Rightarrow> nat \<Rightarrow> bytes \<Rightarrow> nat \<Rightarrow> bytes \<Rightarrow> broadcast_group \<Rightarrow> broadcast_group option" where
  "inv_loop env i hash 0 buf g = Some g"
| "inv_loop env i hash (Suc n) buf g =
     (case dogecoin_p2p_msg_inv_deser buf of (ok, inv_msg, buf) \<Rightarrow>
        if \<not> ok then map_option snd (dogecoin_node_misbehave broadcast_conn env i g)
        else do {
          g \<leftarrow> (if hash = inv_hash inv_msg then do {
                  g \<leftarrow> update_node i (set_hint 2) g;
                  Some (g\<lparr>ctx := (ctx g)\<lparr>found_on_non_inved_peers := found_on_non_inved_peers (ctx g) + 1\<rparr>\<rparr>)
                }
                else Some g);
          inv_loop env i hash n buf g
        })"

definition broadcast_getdata :: "callback_env \<Rightarrow> nat \<Rightarrow> bytes \<Rightarrow> broadcast_group \<Rightarrow> broadcast_group option" where
  "broadcast_getdata env i buf g =
     (let g = g\<lparr>ctx := (ctx g)\<lparr>getdata_from_peers := getdata_from_peers (ctx g) + 1\<rparr>\<rparr>;
          misbehave = map_option snd (dogecoin_node_misbehave broadcast_conn env i g)
      in case deser_varlen buf of
           None \<Rightarrow> misbehave
         | Some (vsize, buf) \<Rightarrow>
             if vsize \<noteq> 1 then misbehave
             else (case dogecoin_p2p_msg_inv_deser buf of (ok, inv_msg, buf) \<Rightarrow>
               if \<not> ok \<or> inv_type inv_msg \<noteq> DOGECOIN_INV_TYPE_TX then misbehave
               else do {
                 s \<leftarrow> cstr_new_sz 1024;
                 s \<leftarrow> dogecoin_tx_serialize (bc_tx (ctx g)) s;
                 b \<leftarrow> contents s;
                 p2p_msg \<leftarrow> dogecoin_p2p_message_new (netmagic (chainparams g)) (DOGECOIN_MSG_TX @ [0]) b (of_nat (len s));
                 g \<leftarrow> dogecoin_node_send i p2p_msg g;
                 update_node i (set_hint 1) g
               }))"

definition broadcast_post_cmd :: "callback_env \<Rightarrow> nat \<Rightarrow> dogecoin_p2p_msg_hdr \<Rightarrow> bytes \<Rightarrow> broadcast_group \<Rightarrow> broadcast_group option" where
  "broadcast_post_cmd env i hdr buf g =
     (if is_command hdr DOGECOIN_MSG_INV then do {
        hash \<leftarrow> dogecoin_tx_hash (bc_tx (ctx g)) (replicate 32 0);
        (case deser_varlen buf of
           None \<Rightarrow> map_option snd (dogecoin_node_misbehave broadcast_conn env i g)
         | Some (vsize, buf) \<Rightarrow> inv_loop env i hash (unat vsize) buf g)
      }
      else do {
        n \<leftarrow> node_at i g;
        (if is_command hdr DOGECOIN_MSG_GETDATA \<and> \<not> has_hint n 1 then broadcast_getdata env i buf g else Some g)
      })"

definition broadcast_callbacks :: "broadcast_ctx group_callbacks" where
  "broadcast_callbacks = connection_callbacks.extend broadcast_conn
     (group_callbacks.fields None (Some broadcast_post_cmd) (Some broadcast_handshake_done) (Some broadcast_timer_cb))"

text \<open>The group that \<open>broadcast_tx\<close> sets up before the addresses are added, and what it returns after the event loop.\<close>

definition CLIENTSTR :: bytes where
  "CLIENTSTR = [108, 105, 98, 100, 111, 103, 101, 99, 111, 105, 110, 45, 115, 112, 118, 45, 110, 111, 100, 101]"

definition broadcast_setup :: "dogecoin_chainparams \<Rightarrow> dogecoin_tx \<Rightarrow> int \<Rightarrow> u32 \<Rightarrow> u64 \<Rightarrow> broadcast_group" where
  "broadcast_setup chain tx maxpeers t start = \<lparr>nodes = [], desired_amount_connected_nodes = maxpeers, chainparams = chain,
     clientstr = CLIENTSTR @ replicate (1024 - length CLIENTSTR) 0,
     ctx = \<lparr>bc_tx = tx, timeout = t, connected_to_peers = 0, max_peers_to_connect = maxpeers, max_peers_to_inv = 2,
       inved_to_peers = 0, getdata_from_peers = 0, found_on_non_inved_peers = 0, start_time = start\<rparr>\<rparr>"

definition broadcast_result :: "broadcast_group \<Rightarrow> int" where
  "broadcast_result g =
     (if getdata_from_peers (ctx g) = 0 then 0 else if found_on_non_inved_peers (ctx g) = 0 then 0 else 1)"
section \<open>Reading a stream\<close>

type_synonym message = "bytes \<times> bytes"

definition frame_of :: "bytes \<Rightarrow> message \<Rightarrow> bytes" where
  "frame_of magic m = frame magic (fst m) (snd m)"

definition header_of :: "bytes \<Rightarrow> message \<Rightarrow> dogecoin_p2p_msg_hdr" where
  "header_of magic m = frame_header magic (fst m) (snd m)"

definition frames :: "bytes \<Rightarrow> message list \<Rightarrow> bytes" where
  "frames magic ms = concat (map (frame_of magic) ms)"

definition frame_ok :: "message \<Rightarrow> bool" where
  "frame_ok m \<longleftrightarrow> length (fst m) \<le> 12 \<and> length (snd m) \<le> DOGECOIN_MAX_P2P_MSG_SIZE"

text \<open>Messages handled one after the other, each alone, by a node that is connected when it gets it.\<close>

fun handle_all ::
    "('c, 'z) group_callbacks_scheme \<Rightarrow> callback_env \<Rightarrow> nat \<Rightarrow> bytes \<Rightarrow> message list \<Rightarrow> 'c dogecoin_node_group
      \<Rightarrow> 'c dogecoin_node_group option" where
  "handle_all cbs env i magic [] g = Some g"
| "handle_all cbs env i magic (m # ms) g = do {
     n \<leftarrow> node_at i g;
     (if \<not> has_state n NODE_CONNECTED then None
      else do {
        (_, g) \<leftarrow> dogecoin_node_parse_message cbs env i (header_of magic m) (snd m) g;
        handle_all cbs env i magic ms g
      })
   }"

text \<open>The stream in the pieces in which it arrives.\<close>

fun feed ::
    "('c, 'z) group_callbacks_scheme \<Rightarrow> callback_env \<Rightarrow> nat \<Rightarrow> bytes list \<Rightarrow> cstring \<times> 'c dogecoin_node_group
      \<Rightarrow> (cstring \<times> 'c dogecoin_node_group) option" where
  "feed cbs env i [] st = Some st"
| "feed cbs env i (d # ds) st = do { st \<leftarrow> read_cb cbs env i d st; feed cbs env i ds st }"

text \<open>A message is self-contained when what follows it in the buffer makes no difference.\<close>

definition self_contained ::
    "('c, 'z) group_callbacks_scheme \<Rightarrow> callback_env \<Rightarrow> nat \<Rightarrow> bytes \<Rightarrow> message \<Rightarrow> bool" where
  "self_contained cbs env i magic m \<longleftrightarrow> (\<forall>g rest.
     dogecoin_node_parse_message cbs env i (header_of magic m) (snd m @ rest) g
       = dogecoin_node_parse_message cbs env i (header_of magic m) (snd m) g)"

definition recv_holds :: "cstring \<Rightarrow> bytes \<Rightarrow> bool" where
  "recv_holds s bs \<longleftrightarrow> len s = length bs \<and> length (str s) = alloc s \<and> length bs < alloc s \<and> alloc s \<le> 2 ^ 30
     \<and> take (length bs) (str s) = map Some bs"

lemma cstr_recv: "cstr_holds s bs \<Longrightarrow> recv_holds s bs"
  by (simp add: cstr_holds_def recv_holds_def)

lemma recv_contents: "recv_holds s bs \<Longrightarrow> contents s = Some bs"
  by (simp add: recv_holds_def contents_def)

lemma recv_zero: "recv_holds s bs \<Longrightarrow> recv_holds (s\<lparr>len := 0\<rparr>) []"
  by (auto simp: recv_holds_def)

lemma recv_append:
  assumes "recv_holds s bs" "length bs + length d < 2 ^ 30"
  shows "\<exists>ok t b. cstr_alloc_minsize s (len s + length d) = Some (ok, t)
    \<and> mem_write (str t) (len t) (map Some d) = Some b \<and> recv_holds (t\<lparr>str := b, len := len t + length d\<rparr>) (bs @ d)"
proof (cases "d = []")
  case True
  then show ?thesis using assms(1) by (auto simp: cstr_alloc_minsize_def mem_write_def recv_holds_def)
next
  case False
  have h: "len s = length bs" "length (str s) = alloc s" "length bs < alloc s" "alloc s \<le> 2 ^ 30"
    "take (length bs) (str s) = map Some bs"
    using assms(1) by (simp_all add: recv_holds_def)
  let ?n = "length bs + length d"
  have m: "(?n + 1) mod 2 ^ 64 = ?n + 1" using assms(2) by simp
  obtain t where t: "cstr_alloc_min_sz s ?n = Some t" "len t = length bs" "length (str t) = alloc t" "?n < alloc t"
    "alloc t \<le> 2 ^ 30" "take (length bs) (str t) = map Some bs"
  proof (cases "?n + 1 \<le> alloc s")
    case True
    then show ?thesis using that [of s] h m by (simp add: cstr_alloc_min_sz_def)
  next
    case False
    obtain k where k: "alloc_size (?n + 1) 3 = Some (2 ^ k)" "?n + 1 \<le> 2 ^ k" "k \<le> 30"
      using alloc_size_Some [of "?n + 1" 3] assms(2) by auto
    let ?b = "(take (2 ^ k) (str s @ replicate (2 ^ k - length (str s)) None))[length bs := Some 0]"
    have l: "length ?b = 2 ^ k" by simp
    have "take (length bs) ?b = map Some bs"
      using h k by (simp add: take_update_cancel min_def)
    moreover have "(2 :: nat) ^ k \<le> 2 ^ 30" by (rule power_increasing [OF k(3)]) simp
    ultimately show ?thesis
      using that [of "s\<lparr>str := ?b, alloc := 2 ^ k\<rparr>"] False h k l m
      by (simp add: cstr_alloc_min_sz_def mem_set_def Let_def)
  qed
  let ?t = "t\<lparr>str := (str t)[length bs := Some 0]\<rparr>"
  have a: "cstr_alloc_minsize s (len s + length d) = Some (True, ?t)"
    using False h(1) t by (simp add: cstr_alloc_minsize_def mem_set_def)
  let ?b = "take (length bs) (str ?t) @ map Some d @ drop ?n (str ?t)"
  have "mem_write (str ?t) (len ?t) (map Some d) = Some ?b"
    using t by (simp add: mem_write_def)
  moreover have "recv_holds (?t\<lparr>str := ?b, len := len ?t + length d\<rparr>) (bs @ d)"
    using t h by (simp add: recv_holds_def)
  ultimately show ?thesis using a by blast
qed

text \<open>One piece: what the loop makes of the contents decides what the buffer holds afterwards.\<close>

lemma read_cb_piece:
  assumes "recv_holds s bs" "length bs + length d < 2 ^ 30" "node_at i g = Some n" "has_state n NODE_CONNECTED"
    and "read_loop cbs env i (bs @ d) None g = Some (Ended r, g')" "r = None \<longrightarrow> left = bs @ d" "r \<noteq> None \<longrightarrow> r = Some left"
    and "length left < 2 ^ 30"
  shows "\<exists>s'. read_cb cbs env i d (s, g) = Some (s', g') \<and> recv_holds s' left"
proof -
  obtain ok t b where t: "cstr_alloc_minsize s (len s + length d) = Some (ok, t)"
    "mem_write (str t) (len t) (map Some d) = Some b" "recv_holds (t\<lparr>str := b, len := len t + length d\<rparr>) (bs @ d)"
    using recv_append [OF assms(1,2)] by blast
  note c = recv_contents [OF t(3)]
  consider "r = None" | "r = Some []" "left = []" | "r = Some left" "left \<noteq> []"
    using assms(7) by (cases "r = None"; cases "left = []") simp_all
  then show ?thesis
  proof cases
    case 1
    then have "left = bs @ d" using assms(6) by simp
    moreover have "read_cb cbs env i d (s, g) = Some (t\<lparr>str := b, len := len t + length d\<rparr>, g')"
      using 1 by (simp add: read_cb_def assms(3-5) t(1,2) c)
    ultimately show ?thesis using t(3) by blast
  next
    case 2
    have "read_cb cbs env i d (s, g) = Some (t\<lparr>str := b, len := 0\<rparr>, g')"
      using 2(1) by (simp add: read_cb_def assms(3-5) t(1,2) c)
    then show ?thesis using 2(2) recv_zero [OF t(3)] by simp
  next
    case 3
    obtain tmp where "cstr_new_buf (Some left) (length left) = Some tmp" "cstr_holds tmp left"
      using cstr_new_buf_ok [OF assms(8)] by blast
    moreover from this(1) have "read_cb cbs env i d (s, g) = Some (tmp, g')"
      using 3 by (simp add: read_cb_def assms(3-5) t(1,2) c)
    ultimately show ?thesis using cstr_recv by blast
  qed
qed

lemma head_read:
  assumes "length magic = 4" "frame_ok m"
  shows "dogecoin_p2p_deser_msghdr h (take 24 (frame_of magic m) @ x) = (header_of magic m, x)"
    and "frame_of magic m = take 24 (frame_of magic m) @ snd m"
    and "length (frame_of magic m) = 24 + length (snd m)"
    and "unat (data_len (header_of magic m)) = length (snd m)"
proof -
  have ok: "length (fst m) \<le> 12" "length (snd m) < 2 ^ 32"
    using assms(2) by (simp_all add: frame_ok_def DOGECOIN_MAX_P2P_MSG_SIZE_def)
  let ?h = "magic @ pad12 (fst m) @ le_bytes 4 (length (snd m)) @ take 4 (sha256d (snd m))"
  have l: "length ?h = 24" using assms(1) ok(1) by (simp del: le_bytes_numeral)
  have f: "frame_of magic m = ?h @ snd m" by (simp add: frame_of_def frame_def)
  then have t: "take 24 (frame_of magic m) = ?h" using l by (metis append_eq_conv_conj)
  show "frame_of magic m = take 24 (frame_of magic m) @ snd m" unfolding t by (rule f)
  show "length (frame_of magic m) = 24 + length (snd m)" using f l by simp
  show "unat (data_len (header_of magic m)) = length (snd m)"
    using ok(2) by (simp add: header_of_def frame_header_def unat_of_nat)
  have n: "le_bytes 4 (length (snd m)) = le_bytes 4 (unat (of_nat (length (snd m)) :: u32))" using ok(2) by (simp add: unat_of_nat)
  show "dogecoin_p2p_deser_msghdr h (take 24 (frame_of magic m) @ x) = (header_of magic m, x)"
    unfolding t n
    using assms(1) ok by (simp add: header_of_def frame_header_def dogecoin_p2p_deser_msghdr_def Let_def del: le_bytes_numeral)
qed

lemma read_loop_frame:
  assumes "length magic = 4" "frame_ok m" "self_contained cbs env i magic m"
    and "node_at i g = Some n" "has_state n NODE_CONNECTED"
  shows "read_loop cbs env i (frame_of magic m @ rest) u g = do {
     (_, g) \<leftarrow> dogecoin_node_parse_message cbs env i (header_of magic m) (snd m) g;
     (if rest = [] then Some (Ended (Some rest), g) else read_loop cbs env i rest (Some rest) g) }"
proof -
  note h = head_read [OF assms(1,2)]
  have "frame_of magic m @ rest = take 24 (frame_of magic m) @ snd m @ rest" using h(2) by (metis append_assoc)
  then have d: "dogecoin_p2p_deser_msghdr no_header (frame_of magic m @ rest) = (header_of magic m, snd m @ rest)"
    using h(1) by metis
  have "\<not> length (snd m) > DOGECOIN_MAX_P2P_MSG_SIZE" using assms(2) by (simp add: frame_ok_def)
  then show ?thesis
    using assms(3-5) by (simp add: read_loop.simps [of cbs env i "frame_of magic m @ rest"] DOGECOIN_P2P_HDRSZ_def d h(3,4)
        self_contained_def)
qed

lemma read_loop_part:
  assumes "length magic = 4" "frame_ok m" "length q < length (frame_of magic m)" "q @ r = frame_of magic m @ t"
  shows "read_loop cbs env i q u g = Some (Ended u, g)"
proof (cases "length q < 24")
  case True
  then show ?thesis by (simp add: read_loop.simps [of cbs env i q] DOGECOIN_P2P_HDRSZ_def)
next
  case False
  note h = head_read [OF assms(1,2)]
  have "q = take (length q) (frame_of magic m)"
    using assms(3,4) by (metis append_eq_append_conv_if append_take_drop_id order_less_imp_le take_all_iff append_eq_conv_conj)
  then have q: "q = take 24 (frame_of magic m) @ take (length q - 24) (snd m)"
    using h(2,3) False by (metis (no_types, lifting) length_take min.absorb2 le_add1 not_less take_append take_all)
  let ?x = "take (length q - 24) (snd m)"
  have d: "dogecoin_p2p_deser_msghdr no_header q = (header_of magic m, ?x)" using h(1) q by metis
  have "length q - 24 < length (snd m)" using assms(3) h(3) False by simp
  moreover have "\<not> length (snd m) > DOGECOIN_MAX_P2P_MSG_SIZE" using assms(2) by (simp add: frame_ok_def)
  ultimately show ?thesis
    using False by (simp add: read_loop.simps [of cbs env i q] DOGECOIN_P2P_HDRSZ_def d h(4) min_def)
qed

lemma frames_simps [simp]: "frames magic [] = []" "frames magic (m # ms) = frame_of magic m @ frames magic ms"
  "frames magic (ms @ ns) = frames magic ms @ frames magic ns"
  by (simp_all add: frames_def)

lemma read_loop_stream:
  assumes "length magic = 4" "\<forall>m\<in>set ms. frame_ok m \<and> self_contained cbs env i magic m"
    and "handle_all cbs env i magic ms g = Some g'" "\<And>u g. read_loop cbs env i q u g = Some (Ended u, g)"
  shows "read_loop cbs env i (frames magic ms @ q) u g = Some (Ended (if ms = [] then u else Some q), g')"
  using assms(2,3)
proof (induction ms arbitrary: g u)
  case Nil
  then show ?case by (simp add: assms(4))
next
  case (Cons m ms)
  obtain n where n: "node_at i g = Some n" "has_state n NODE_CONNECTED"
    using Cons.prems(2) by (auto split: Option.bind_splits if_splits)
  obtain r g1 where p: "dogecoin_node_parse_message cbs env i (header_of magic m) (snd m) g = Some (r, g1)"
    "handle_all cbs env i magic ms g1 = Some g'"
    using Cons.prems(2) n by (auto split: Option.bind_splits)
  let ?rest = "frames magic ms @ q"
  have step: "read_loop cbs env i (frame_of magic m @ ?rest) u g
      = (if ?rest = [] then Some (Ended (Some ?rest), g1) else read_loop cbs env i ?rest (Some ?rest) g1)"
    using read_loop_frame [OF assms(1) _ _ n, of m cbs env ?rest u] Cons.prems(1) p(1) by simp
  have ne: "ms = []" if "?rest = []"
    using that head_read(3) [OF assms(1)] Cons.prems(1) by (cases ms) fastforce+
  from Cons.IH [OF _ p(2), of "Some ?rest"] Cons.prems(1)
  have "read_loop cbs env i ?rest (Some ?rest) g1 = Some (Ended (if ms = [] then Some ?rest else Some q), g')" by simp
  with step ne p(2) show ?case by (cases "?rest = []") auto
qed

lemma split_stream:
  assumes "x @ r = frames magic ms"
  shows "\<exists>ms1 ms2 q. ms = ms1 @ ms2 \<and> x = frames magic ms1 @ q \<and> q @ r = frames magic ms2
    \<and> (ms2 \<noteq> [] \<longrightarrow> length q < length (frame_of magic (hd ms2)))"
  using assms
proof (induction ms arbitrary: x)
  case Nil
  then show ?case by simp
next
  case (Cons m ms)
  show ?case
  proof (cases "length x < length (frame_of magic m)")
    case True
    with Cons.prems show ?thesis by (intro exI [of _ "[]"] exI [of _ "m # ms"] exI [of _ x]) simp
  next
    case False
    moreover have "x @ r = frame_of magic m @ frames magic ms" using Cons.prems by simp
    ultimately obtain y where y: "x = frame_of magic m @ y" "y @ r = frames magic ms"
      by (metis append_eq_append_conv_if append_take_drop_id not_less)
    obtain ms1 ms2 q where "ms = ms1 @ ms2" "y = frames magic ms1 @ q" "q @ r = frames magic ms2"
      "ms2 \<noteq> [] \<longrightarrow> length q < length (frame_of magic (hd ms2))"
      using Cons.IH [OF y(2)] by blast
    with y(1) show ?thesis by (intro exI [of _ "m # ms1"] exI [of _ ms2] exI [of _ q]) simp
  qed
qed

lemma handle_all_append:
  "handle_all cbs env i magic (ms1 @ ms2) g = do { g \<leftarrow> handle_all cbs env i magic ms1 g; handle_all cbs env i magic ms2 g }"
  by (induction ms1 arbitrary: g) (auto split: Option.bind_split prod.splits)

lemma feed_stream:
  assumes "length magic = 4" "recv_holds s q" "q @ concat ds = frames magic ms" "handle_all cbs env i magic ms g = Some g'"
    and "\<forall>m\<in>set ms. frame_ok m \<and> self_contained cbs env i magic m"
    and "ms \<noteq> [] \<longrightarrow> length q < length (frame_of magic (hd ms))" "length (q @ concat ds) < 2 ^ 30" "node_at i g' \<noteq> None"
  shows "\<exists>s'. feed cbs env i ds (s, g) = Some (s', g') \<and> recv_holds s' []"
  using assms(2-8)
proof (induction ds arbitrary: s q ms g)
  case Nil
  then have "ms = []" by (cases ms) simp_all
  with Nil show ?case by simp
next
  case (Cons d ds)
  have "(q @ d) @ concat ds = frames magic ms" using Cons.prems(2) by simp
  then obtain ms1 ms2 p where p: "ms = ms1 @ ms2" "q @ d = frames magic ms1 @ p" "p @ concat ds = frames magic ms2"
    "ms2 \<noteq> [] \<longrightarrow> length p < length (frame_of magic (hd ms2))"
    using split_stream by blast
  obtain g1 where g1: "handle_all cbs env i magic ms1 g = Some g1" "handle_all cbs env i magic ms2 g1 = Some g'"
    using Cons.prems(3) p(1) by (auto simp: handle_all_append split: Option.bind_splits)
  have part: "read_loop cbs env i p u h = Some (Ended u, h)" for u h
  proof (cases ms2)
    case Nil
    then show ?thesis using p(3) by (simp add: read_loop.simps [of cbs env i "[]"] DOGECOIN_P2P_HDRSZ_def)
  next
    case (Cons m ns)
    then show ?thesis
      using read_loop_part [OF assms(1), of m p "concat ds" "frames magic ns"] p \<open>\<forall>m\<in>set ms. _ m\<close> by simp
  qed
  have all: "\<forall>m\<in>set ms1. frame_ok m \<and> self_contained cbs env i magic m"
    "\<forall>m\<in>set ms2. frame_ok m \<and> self_contained cbs env i magic m"
    using Cons.prems(4) p(1) by simp_all
  have loop: "read_loop cbs env i (q @ d) None g = Some (Ended (if ms1 = [] then None else Some p), g1)"
    using read_loop_stream [OF assms(1) all(1) g1(1) part] p(2) by simp
  have small: "length q + length d < 2 ^ 30" "length p < 2 ^ 30" "length (p @ concat ds) < 2 ^ 30"
    using Cons.prems(6) arg_cong [OF p(2), of length] by simp_all
  obtain s1 where s1: "read_cb cbs env i d (s, g) = Some (s1, g1)" "recv_holds s1 p"
  proof -
    obtain n where n: "node_at i g = Some n"
      using Cons.prems(3,7) by (cases ms) (auto split: Option.bind_splits)
    have r: "(if ms1 = [] then None else Some p) = None \<longrightarrow> p = q @ d"
      "(if ms1 = [] then None else Some p) \<noteq> None \<longrightarrow> (if ms1 = [] then None else Some p) = Some p"
      using p(2) by simp_all
    show thesis
    proof (cases "has_state n NODE_CONNECTED")
      case True
      show thesis
        using read_cb_piece [OF Cons.prems(1) small(1) n True loop r small(2)] that by blast
    next
      case False
      with n Cons.prems(3) have "ms = []" by (cases ms) simp_all
      with p Cons.prems(2) g1 n False Cons.prems(1) show thesis by (intro that [of s]) (simp_all add: read_cb_def)
    qed
  qed
  have "\<exists>s'. feed cbs env i ds (s1, g1) = Some (s', g') \<and> recv_holds s' []"
    by (rule Cons.IH [OF s1(2) p(3) g1(2) all(2) p(4) small(3) Cons.prems(7)])
  with s1(1) show ?case by simp
qed
section \<open>Messages that keep to themselves\<close>

text \<open>A reader that has found what it looks for finds the same when ys follows.\<close>

definition reads_prefix :: "(bytes \<Rightarrow> ('a \<times> bytes) option) \<Rightarrow> bool" where
  "reads_prefix deser \<longleftrightarrow> (\<forall>b x r ys. deser b = Some (x, r) \<longrightarrow> deser (b @ ys) = Some (x, r @ ys))"

lemma reads_prefixD: "reads_prefix deser \<Longrightarrow> deser b = Some (x, r) \<Longrightarrow> deser (b @ ys) = Some (x, r @ ys)"
  by (auto simp: reads_prefix_def)

lemma prefix_readers [simp]:
  "reads_prefix (deser_bytes n)" "reads_prefix deser_u16" "reads_prefix deser_u32" "reads_prefix deser_s32"
  "reads_prefix deser_u64" "reads_prefix deser_s64" "reads_prefix deser_u256"
  by (auto simp: reads_prefix_def deser_bytes_def deser_u16_def deser_u32_def deser_s32_def deser_u64_def deser_s64_def
      deser_u256_def split: if_splits)

lemma prefix_varlen [simp]: "reads_prefix deser_varlen"
proof -
  have "deser_varlen (b @ ys) = Some (x, r @ ys)" if d: "deser_varlen b = Some (x, r)" for b x r ys
  proof -
    obtain c b1 where c: "deser_bytes 1 b = Some (c, b1)"
      using d by (cases "deser_bytes 1 b") (auto simp: deser_varlen_def)
    note c' = reads_prefixD [OF prefix_readers(1) c, of ys]
    consider "hd c = 253" | "hd c = 254" | "hd c = 255" | "hd c \<noteq> 253" "hd c \<noteq> 254" "hd c \<noteq> 255" by blast
    then show ?thesis
    proof cases
      case 1
      with d c obtain v where "deser_u16 b1 = Some (v, r)" "x = ucast v"
        by (cases "deser_u16 b1") (auto simp: deser_varlen_def)
      with 1 c' reads_prefixD [OF prefix_readers(2)] show ?thesis by (simp add: deser_varlen_def)
    next
      case 2
      with d c have "deser_u32 b1 = Some (x, r)" by (cases "deser_u32 b1") (auto simp: deser_varlen_def)
      with 2 c' reads_prefixD [OF prefix_readers(3)] show ?thesis by (simp add: deser_varlen_def)
    next
      case 3
      with d c obtain v where "deser_u64 b1 = Some (v, r)" "x = ucast v"
        by (cases "deser_u64 b1") (auto simp: deser_varlen_def)
      with 3 c' reads_prefixD [OF prefix_readers(5)] show ?thesis by (simp add: deser_varlen_def)
    next
      case 4
      with d c c' show ?thesis by (simp add: deser_varlen_def)
    qed
  qed
  then show ?thesis by (simp add: reads_prefix_def)
qed

definition more_left :: "bytes \<Rightarrow> bool \<times> 'm \<times> bytes \<Rightarrow> bool \<times> 'm \<times> bytes" where
  "more_left ys r = (case r of (ok, m, buf) \<Rightarrow> (ok, m, buf @ ys))"

lemma fill_more:
  assumes "reads_prefix deser" "fst (fill deser u r)"
  shows "fst r" and "fill deser u (more_left ys r) = more_left ys (fill deser u r)"
  using assms reads_prefixD [OF assms(1)]
  by (auto simp: fill_def more_left_def split: prod.splits option.splits if_splits)

lemma more_left_simps [simp]: "fst (more_left ys r) = fst r" "fst (snd (more_left ys r)) = fst (snd r)"
  "snd (snd (more_left ys r)) = snd (snd r) @ ys"
  by (simp_all add: more_left_def split: prod.splits)

lemma more_left_True: "more_left ys (True, m, b) = (True, m, b @ ys)"
  by (simp add: more_left_def)

lemma deser_addr_more:
  assumes "fst (dogecoin_p2p_deser_addr 0 a b)"
  shows "dogecoin_p2p_deser_addr 0 a (b @ ys) = more_left ys (dogecoin_p2p_deser_addr 0 a b)"
proof -
  define r0 where "r0 = (True, a\<lparr>addr_time := 0\<rparr>, b)"
  define r1 where "r1 = fill deser_u64 (\<lambda>x a. a\<lparr>addr_services := x\<rparr>) r0"
  define r2 where "r2 = fill (deser_bytes 16) (\<lambda>x a. a\<lparr>ip := x\<rparr>) r1"
  have e: "dogecoin_p2p_deser_addr 0 a b = fill deser_u16 (\<lambda>x a. a\<lparr>port := x\<rparr>) r2"
    by (simp add: dogecoin_p2p_deser_addr_def DOGECOIN_ADDR_TIME_VERSION_def r0_def r1_def r2_def)
  have s3: "fst (fill deser_u16 (\<lambda>x a. a\<lparr>port := x\<rparr>) r2)" using assms by (simp add: e)
  note s2 = fill_more(1) [OF prefix_readers(2) s3, unfolded r2_def]
  note s1 = fill_more(1) [OF prefix_readers(1) s2, unfolded r1_def]
  have "(True, a\<lparr>addr_time := 0\<rparr>, b @ ys) = more_left ys r0" by (simp add: r0_def more_left_True)
  then show ?thesis
    using fill_more(2) [OF prefix_readers(2) s3, of ys] fill_more(2) [OF prefix_readers(1) s2, of ys]
      fill_more(2) [OF prefix_readers(5) s1, of ys]
    by (simp add: dogecoin_p2p_deser_addr_def DOGECOIN_ADDR_TIME_VERSION_def r1_def r2_def flip: r0_def)
qed

lemma fill_addr_more:
  assumes "fst (fill_addr get u r)"
  shows "fst r" and "fill_addr get u (more_left ys r) = more_left ys (fill_addr get u r)"
  using assms deser_addr_more [of "get (fst (snd r))" "snd (snd r)" ys]
  by (auto simp: fill_addr_def more_left_def split: prod.splits if_splits)

lemma fill_useragent_more:
  assumes "fst (fill_useragent r)"
  shows "fst r" and "fill_useragent (more_left ys r) = more_left ys (fill_useragent r)"
proof -
  obtain m b where r: "r = (True, m, b)" using assms by (cases r) (auto simp: fill_useragent_def split: if_splits)
  obtain k c where k: "deser_varlen b = Some (k, c)"
    using assms r by (cases "deser_varlen b") (auto simp: fill_useragent_def)
  show "fst r" by (simp add: r)
  show "fill_useragent (more_left ys r) = more_left ys (fill_useragent r)"
    using assms fill_more(2) [OF prefix_readers(1), of "unat k" _ "(True, m, c)" ys] reads_prefixD [OF prefix_varlen k, of ys]
    by (simp add: r k more_left_True fill_useragent_def Let_def split: if_splits)
qed

lemma version_more:
  assumes "fst (dogecoin_p2p_msg_version_deser b)"
  shows "dogecoin_p2p_msg_version_deser (b @ ys) = more_left ys (dogecoin_p2p_msg_version_deser b)"
proof -
  define r0 where "r0 = (True, zero_version_msg, b)"
  define r1 where "r1 = fill deser_s32 (\<lambda>x m. m\<lparr>msg_version := x\<rparr>) r0"
  define r2 where "r2 = fill deser_u64 (\<lambda>x m. m\<lparr>msg_services := x\<rparr>) r1"
  define r3 where "r3 = fill deser_s64 (\<lambda>x m. m\<lparr>msg_timestamp := x\<rparr>) r2"
  define r4 where "r4 = fill_addr addr_recv (\<lambda>a m. m\<lparr>addr_recv := a\<rparr>) r3"
  define r5 where "r5 = fill_addr addr_from (\<lambda>a m. m\<lparr>addr_from := a\<rparr>) r4"
  define r6 where "r6 = fill deser_u64 (\<lambda>x m. m\<lparr>msg_nonce := x\<rparr>) r5"
  define r7 where "r7 = fill_useragent r6"
  define r8 where "r8 = fill deser_s32 (\<lambda>x m. m\<lparr>start_height := x\<rparr>) r7"
  note defs = r0_def r1_def r2_def r3_def r4_def r5_def r6_def r7_def r8_def
  have e: "dogecoin_p2p_msg_version_deser b = (if fst r8 \<and> sint (msg_version (fst (snd r8))) > 70003
      then fill (deser_bytes 1) (\<lambda>x m. m\<lparr>relay := hd x\<rparr>) r8 else r8)"
    by (simp add: dogecoin_p2p_msg_version_deser_def defs Let_def)
  have s8: "fst r8" using assms e by (auto split: if_splits)
  note f8 = fill_more(1) [OF prefix_readers(4) s8 [unfolded r8_def]] and g8 = fill_more(2) [OF prefix_readers(4) s8 [unfolded r8_def], of ys]
  note f7 = fill_useragent_more(1) [OF f8 [unfolded r7_def]] and g7 = fill_useragent_more(2) [OF f8 [unfolded r7_def], of ys]
  note f6 = fill_more(1) [OF prefix_readers(5) f7 [unfolded r6_def]] and g6 = fill_more(2) [OF prefix_readers(5) f7 [unfolded r6_def], of ys]
  note f5 = fill_addr_more(1) [OF f6 [unfolded r5_def]] and g5 = fill_addr_more(2) [OF f6 [unfolded r5_def], of ys]
  note f4 = fill_addr_more(1) [OF f5 [unfolded r4_def]] and g4 = fill_addr_more(2) [OF f5 [unfolded r4_def], of ys]
  note f3 = fill_more(1) [OF prefix_readers(6) f4 [unfolded r3_def]] and g3 = fill_more(2) [OF prefix_readers(6) f4 [unfolded r3_def], of ys]
  note f2 = fill_more(1) [OF prefix_readers(5) f3 [unfolded r2_def]] and g2 = fill_more(2) [OF prefix_readers(5) f3 [unfolded r2_def], of ys]
  note f1 = fill_more(1) [OF prefix_readers(4) f2 [unfolded r1_def]] and g1 = fill_more(2) [OF prefix_readers(4) f2 [unfolded r1_def], of ys]
  have m0: "(True, zero_version_msg, b @ ys) = more_left ys r0" by (simp add: r0_def more_left_True)
  have "dogecoin_p2p_msg_version_deser (b @ ys)
      = (let r = more_left ys r8 in if fst r \<and> sint (msg_version (fst (snd r))) > 70003
          then fill (deser_bytes 1) (\<lambda>x m. m\<lparr>relay := hd x\<rparr>) r else r)"
    unfolding dogecoin_p2p_msg_version_deser_def Let_def m0 g1 g2 g3 g4 g5 g6 g7 g8
    by (simp only: r1_def [symmetric] r2_def [symmetric] r3_def [symmetric] r4_def [symmetric] r5_def [symmetric]
        r6_def [symmetric] r7_def [symmetric] r8_def [symmetric] g2 g3 g4 g5 g6 g7 g8)
  then show ?thesis
    using assms fill_more(2) [OF prefix_readers(1), of 1 _ r8 ys] unfolding e Let_def by (auto split: if_splits)
qed
section \<open>The stream of a peer\<close>

lemma is_command_framed:
  assumes "frame_ok m" "0 \<notin> set (fst m)" "0 \<notin> set c" "length c < 12"
  shows "is_command (header_of magic m) c \<longleftrightarrow> fst m = c"
proof -
  let ?x = "fst m"
  have l: "length ?x \<le> 12" using assms(1) by (simp add: frame_ok_def)
  have t: "take (length c + 1) (pad12 ?x) = c @ [0] \<longleftrightarrow> ?x = c"
  proof
    assume e: "take (length c + 1) (pad12 ?x) = c @ [0]"
    have n: "\<not> length c < length ?x"
    proof
      assume a: "length c < length ?x"
      then have "take (length c + 1) (pad12 ?x) = take (length c + 1) ?x" by (simp add: pad12_def)
      moreover have "0 \<in> set (c @ [0])" by simp
      ultimately have "0 \<in> set (take (length c + 1) ?x)" using e by metis
      with assms(2) show False by (meson in_set_takeD)
    qed
    have "\<not> length ?x < length c"
    proof
      assume a: "length ?x < length c"
      have "(c @ [0]) ! length ?x = pad12 ?x ! length ?x"
        using a l by (subst e [symmetric]) simp
      with a assms(4) have "c ! length ?x = 0" by (simp add: nth_append pad12_def)
      with a assms(3) show False by (metis nth_mem)
    qed
    with n have "length ?x = length c" by simp
    with e show "?x = c" by (simp add: pad12_def)
  next
    assume "?x = c"
    moreover have "12 - length c = Suc (11 - length c)" using assms(4) by simp
    ultimately show "take (length c + 1) (pad12 ?x) = c @ [0]" by (simp add: pad12_def)
  qed
  then show ?thesis by (simp add: is_command_def header_of_def frame_header_def)
qed

text \<open>
  A well-formed message: a command of at most twelve characters, data that is not too long and, for the commands that
  are looked at, holds what is read from it.
\<close>

definition inventory_ok :: "bytes \<Rightarrow> bool" where
  "inventory_ok b \<longleftrightarrow> (case deser_varlen b of None \<Rightarrow> False | Some (n, r) \<Rightarrow> 36 * unat n \<le> length r)"

definition message_ok :: "message \<Rightarrow> bool" where
  "message_ok m \<longleftrightarrow> frame_ok m \<and> 0 \<notin> set (fst m)
     \<and> (fst m = DOGECOIN_MSG_VERSION \<longrightarrow> fst (dogecoin_p2p_msg_version_deser (snd m)))
     \<and> (fst m = DOGECOIN_MSG_PING \<longrightarrow> 8 \<le> length (snd m))
     \<and> (fst m = DOGECOIN_MSG_INV \<or> fst m = DOGECOIN_MSG_GETDATA \<longrightarrow> inventory_ok (snd m))"

lemmas commands = DOGECOIN_MSG_VERSION_def DOGECOIN_MSG_VERACK_def DOGECOIN_MSG_INV_def DOGECOIN_MSG_GETDATA_def
  DOGECOIN_MSG_TX_def DOGECOIN_MSG_PING_def DOGECOIN_MSG_PONG_def

lemma commands_clean [simp]:
  "0 \<notin> set DOGECOIN_MSG_VERSION" "0 \<notin> set DOGECOIN_MSG_VERACK" "0 \<notin> set DOGECOIN_MSG_INV" "0 \<notin> set DOGECOIN_MSG_GETDATA"
  "0 \<notin> set DOGECOIN_MSG_TX" "0 \<notin> set DOGECOIN_MSG_PING" "0 \<notin> set DOGECOIN_MSG_PONG"
  "length DOGECOIN_MSG_VERSION < 12" "length DOGECOIN_MSG_VERACK < 12" "length DOGECOIN_MSG_INV < 12"
  "length DOGECOIN_MSG_GETDATA < 12" "length DOGECOIN_MSG_TX < 12" "length DOGECOIN_MSG_PING < 12" "length DOGECOIN_MSG_PONG < 12"
  by (simp_all add: commands)

lemma commands_distinct [simp]:
  "DOGECOIN_MSG_GETDATA \<noteq> DOGECOIN_MSG_INV" "DOGECOIN_MSG_VERACK \<noteq> DOGECOIN_MSG_VERSION"
  "DOGECOIN_MSG_PING \<noteq> DOGECOIN_MSG_VERSION" "DOGECOIN_MSG_PING \<noteq> DOGECOIN_MSG_VERACK"
  "DOGECOIN_MSG_INV \<noteq> DOGECOIN_MSG_VERSION" "DOGECOIN_MSG_INV \<noteq> DOGECOIN_MSG_VERACK"
  "DOGECOIN_MSG_INV \<noteq> DOGECOIN_MSG_PING" "DOGECOIN_MSG_GETDATA \<noteq> DOGECOIN_MSG_VERSION"
  "DOGECOIN_MSG_GETDATA \<noteq> DOGECOIN_MSG_VERACK" "DOGECOIN_MSG_GETDATA \<noteq> DOGECOIN_MSG_PING"
  by (simp_all add: commands)

declare commands_distinct [symmetric, simp]

lemma inv_deser_more:
  assumes "36 \<le> length b"
  shows "\<exists>m r. dogecoin_p2p_msg_inv_deser b = (True, m, r) \<and> length r = length b - 36
    \<and> dogecoin_p2p_msg_inv_deser (b @ ys) = (True, m, r @ ys)"
proof -
  have d: "deser_u32 c = Some (le_word (take 4 c), drop 4 c)" "deser_u256 (drop 4 c) = Some (take 32 (drop 4 c), drop 36 c)"
    if "36 \<le> length c" for c
    using that by (simp_all add: deser_u32_def deser_u256_def deser_bytes_def)
  show ?thesis
    using assms d [of b] d [of "b @ ys"] by (simp add: dogecoin_p2p_msg_inv_deser_def)
qed

lemma inv_loop_more: "36 * n \<le> length b \<Longrightarrow> inv_loop env i hash n (b @ ys) g = inv_loop env i hash n b g"
proof (induction n arbitrary: b g)
  case (Suc n)
  then obtain m r where m: "dogecoin_p2p_msg_inv_deser b = (True, m, r)" "length r = length b - 36"
    "dogecoin_p2p_msg_inv_deser (b @ ys) = (True, m, r @ ys)"
    using inv_deser_more [of b ys] by auto
  have r: "inv_loop env i hash n (r @ ys) = inv_loop env i hash n r"
    by (rule ext, rule Suc.IH) (use Suc.prems m(2) in simp)
  show ?case by (simp only: inv_loop.simps m(1,3) prod.case r)
qed simp

lemma getdata_more:
  assumes "inventory_ok b"
  shows "broadcast_getdata env i (b @ ys) g = broadcast_getdata env i b g"
proof -
  obtain n r where n: "deser_varlen b = Some (n, r)" "36 * unat n \<le> length r"
    using assms by (auto simp: inventory_ok_def split: option.splits)
  note n' = reads_prefixD [OF prefix_varlen n(1), of ys]
  show ?thesis
  proof (cases "n = 1")
    case True
    then obtain m s where "dogecoin_p2p_msg_inv_deser r = (True, m, s)" "dogecoin_p2p_msg_inv_deser (r @ ys) = (True, m, s @ ys)"
      using inv_deser_more [of r ys] n(2) by auto
    with True n(1) n' show ?thesis by (simp add: broadcast_getdata_def)
  next
    case False
    with n(1) n' show ?thesis by (simp add: broadcast_getdata_def)
  qed
qed

lemma broadcast_callbacks_simps [simp]:
  "parse_cmd_cb broadcast_callbacks = None" "postcmd_cb broadcast_callbacks = Some broadcast_post_cmd"
  "handshake_done_cb broadcast_callbacks = Some broadcast_handshake_done"
  "periodic_timer_cb broadcast_callbacks = Some broadcast_timer_cb"
  "node_connection_state_changed_cb broadcast_callbacks = None"
  "should_connect_to_more_nodes_cb broadcast_callbacks = Some broadcast_should_connect_more"
  by (simp_all add: broadcast_callbacks_def connection_callbacks.extend_def group_callbacks.fields_def broadcast_conn_def)

lemma post_cmd_more:
  assumes "message_ok m" "fst m = DOGECOIN_MSG_INV \<or> fst m = DOGECOIN_MSG_GETDATA \<longrightarrow> b = snd m"
  shows "broadcast_post_cmd env i (header_of magic m) (b @ ys) g = broadcast_post_cmd env i (header_of magic m) b g"
proof -
  have ok: "frame_ok m" "0 \<notin> set (fst m)" using assms(1) by (simp_all add: message_ok_def)
  note cmd = is_command_framed [OF ok, of _ magic]
  consider "fst m = DOGECOIN_MSG_INV" | "fst m = DOGECOIN_MSG_GETDATA" | "fst m \<noteq> DOGECOIN_MSG_INV" "fst m \<noteq> DOGECOIN_MSG_GETDATA"
    by blast
  then show ?thesis
  proof cases
    case 1
    then have b: "b = snd m" "inventory_ok b" using assms by (simp_all add: message_ok_def)
    then obtain n r where n: "deser_varlen b = Some (n, r)" "36 * unat n \<le> length r"
      by (auto simp: inventory_ok_def split: option.splits)
    show ?thesis
      using 1 by (simp add: broadcast_post_cmd_def cmd n(1) reads_prefixD [OF prefix_varlen n(1)] inv_loop_more [OF n(2)])
  next
    case 2
    then have "inventory_ok b" using assms by (simp add: message_ok_def)
    with 2 show ?thesis by (simp add: broadcast_post_cmd_def cmd getdata_more cong: if_cong)
  next
    case 3
    then show ?thesis by (simp add: broadcast_post_cmd_def cmd)
  qed
qed

lemma broadcast_self_contained:
  assumes "message_ok m"
  shows "self_contained broadcast_callbacks env i magic m"
  unfolding self_contained_def
proof (intro allI)
  fix g :: broadcast_group and ys
  have ok: "frame_ok m" "0 \<notin> set (fst m)" using assms by (simp_all add: message_ok_def)
  note cmd = is_command_framed [OF ok, of _ magic]
  let ?h = "header_of magic m" and ?c = "handle_message broadcast_callbacks env i (header_of magic m)"
  have split: "?c (snd m @ ys) g = map_option (\<lambda>(r, g). (map_option (\<lambda>b. b @ ys) r, g)) (?c (snd m) g)
      \<and> (\<forall>b g'. ?c (snd m) g = Some (Some b, g') \<longrightarrow> fst m = DOGECOIN_MSG_INV \<or> fst m = DOGECOIN_MSG_GETDATA \<longrightarrow> b = snd m)"
  proof -
    consider "fst m = DOGECOIN_MSG_VERSION" | "fst m = DOGECOIN_MSG_VERACK" | "fst m = DOGECOIN_MSG_PING"
      | "fst m \<noteq> DOGECOIN_MSG_VERSION" "fst m \<noteq> DOGECOIN_MSG_VERACK" "fst m \<noteq> DOGECOIN_MSG_PING" by blast
    then show ?thesis
    proof cases
      case 1
      then have v: "fst (dogecoin_p2p_msg_version_deser (snd m))" using assms by (simp add: message_ok_def)
      then obtain x r where "dogecoin_p2p_msg_version_deser (snd m) = (True, x, r)" by (metis prod.collapse)
      with version_more [OF v, of ys] 1 show ?thesis
        by (simp add: handle_message_def cmd more_left_def commands split: Option.bind_split)
    next
      case 2
      then show ?thesis by (simp add: handle_message_def cmd split: Option.bind_split)
    next
      case 3
      then have "8 \<le> length (snd m)" using assms by (simp add: message_ok_def)
      then obtain n r where n: "deser_u64 (snd m) = Some (n, r)" by (simp add: deser_u64_def deser_bytes_def)
      with 3 reads_prefixD [OF prefix_readers(5) n, of ys] show ?thesis
        by (simp add: handle_message_def cmd split: Option.bind_split del: le_bytes_numeral)
    next
      case 4
      then show ?thesis by (simp add: handle_message_def cmd)
    qed
  qed
  show "dogecoin_node_parse_message broadcast_callbacks env i ?h (snd m @ ys) g
      = dogecoin_node_parse_message broadcast_callbacks env i ?h (snd m) g"
  proof (cases "?c (snd m) g")
    case None
    with split show ?thesis by (simp add: dogecoin_node_parse_message_def)
  next
    case (Some x)
    obtain r g' where x: "x = (r, g')" by fastforce
    show ?thesis
    proof (cases r)
      case None
      with Some x split show ?thesis by (simp add: dogecoin_node_parse_message_def)
    next
      case (Some b)
      have "broadcast_post_cmd env i ?h (b @ ys) g' = broadcast_post_cmd env i ?h b g'"
        using split Some \<open>?c (snd m) g = Some x\<close> x by (intro post_cmd_more [OF assms]) simp
      with split Some \<open>?c (snd m) g = Some x\<close> x show ?thesis by (simp add: dogecoin_node_parse_message_def)
    qed
  qed
qed

text \<open>C23:
  What a peer sends is handled message by message, however the stream is cut into pieces. When the well-formed messages,
  each handled alone while the peer is connected, take a group of broadcasting nodes to \<open>g'\<close>, feeding their frames to
  the read callback in any pieces gives the same group and leaves nothing in the receive buffer.
\<close>

theorem stream_fragmentation:
  assumes "length magic = 4" "\<forall>m\<in>set ms. message_ok m" "handle_all broadcast_callbacks env i magic ms g = Some g'"
    and "node_at i g' \<noteq> None" "concat ds = frames magic ms" "length (frames magic ms) < 2 ^ 30" "recv_holds s []"
  shows "\<exists>s'. feed broadcast_callbacks env i ds (s, g) = Some (s', g') \<and> recv_holds s' []"
proof -
  have ok: "\<forall>m\<in>set ms. frame_ok m \<and> self_contained broadcast_callbacks env i magic m"
    using assms(2) broadcast_self_contained by (auto simp: message_ok_def)
  have "ms \<noteq> [] \<longrightarrow> length [] < length (frame_of magic (hd ms))"
    using head_read(3) [OF assms(1), of "hd ms"] ok by (cases ms) auto
  with feed_stream [OF assms(1,7) _ assms(3) ok] assms(4-6) show ?thesis by simp
qed
section \<open>What a message does\<close>

lemma update_node_Some [simp]:
  "i < length (nodes g) \<Longrightarrow> update_node i f g = Some (g\<lparr>nodes := (nodes g)[i := f (nodes g ! i)]\<rparr>)"
  by (simp add: update_node_def node_at_def mem_get_def mem_set_def)

lemma node_at_Some [simp]: "i < length (nodes g) \<Longrightarrow> node_at i g = Some (nodes g ! i)"
  by (simp add: node_at_def mem_get_def)

definition sends :: "nat \<Rightarrow> bytes \<Rightarrow> 'c dogecoin_node_group \<Rightarrow> 'c dogecoin_node_group" where
  "sends i b g = g\<lparr>nodes := (nodes g)[i := (nodes g ! i)\<lparr>sent := sent (nodes g ! i) @ [b]\<rparr>]\<rparr>"

lemma sends_simps [simp]: "length (nodes (sends i b g)) = length (nodes g)" "ctx (sends i b g) = ctx g"
  "chainparams (sends i b g) = chainparams g"
  by (simp_all add: sends_def)

text \<open>A message that is made and sent to a connected node adds its frame to what was sent.\<close>

lemma send_frame:
  assumes "i < length (nodes g)" "has_state (nodes g ! i) NODE_CONNECTED" "length magic = 4" "0 \<notin> set c" "length c \<le> 12"
    and "length payload + 24 < 2 ^ 30" "k = of_nat (length payload)"
  shows "\<exists>s. dogecoin_p2p_message_new magic (c @ [0]) payload k = Some s
    \<and> dogecoin_node_send i s g = Some (sends i (frame magic c payload) g)"
proof -
  obtain s where "dogecoin_p2p_message_new magic (c @ [0]) payload k = Some s" "cstr_holds s (frame magic c payload)"
    using message_new_frame [OF assms(3-6)] assms(7) by blast
  with assms(1,2) show ?thesis
    by (simp add: dogecoin_node_send_def sends_def recv_contents [OF cstr_recv])
qed

definition with_magic :: "'c dogecoin_node_group \<Rightarrow> bytes \<Rightarrow> bool" where
  "with_magic g magic \<longleftrightarrow> netmagic (chainparams g) = magic \<and> length magic = 4"

lemma parse_framed:
  assumes "with_magic g magic"
  shows "dogecoin_node_parse_message broadcast_callbacks env i (frame_header magic c p) b g = do {
     (left, g) \<leftarrow> handle_message broadcast_callbacks env i (frame_header magic c p) b g;
     (case left of
        None \<Rightarrow> Some (0, g)
      | Some buf \<Rightarrow> do { g \<leftarrow> broadcast_post_cmd env i (frame_header magic c p) buf g; Some (1, g) }) }"
proof -
  have "hdr_netmagic (frame_header magic c p) = netmagic (chainparams g)"
    using assms(1) by (simp add: with_magic_def frame_header_def)
  then show ?thesis unfolding dogecoin_node_parse_message_def broadcast_callbacks_simps option.case by simp
qed

lemma is_command_header:
  "length c \<le> 12 \<Longrightarrow> length p \<le> DOGECOIN_MAX_P2P_MSG_SIZE \<Longrightarrow> 0 \<notin> set c \<Longrightarrow> 0 \<notin> set d \<Longrightarrow> length d < 12 \<Longrightarrow>
    is_command (frame_header magic c p) d \<longleftrightarrow> c = d"
  using is_command_framed [of "(c, p)" d magic] by (simp add: frame_ok_def header_of_def)

lemma tx_hash_reference:
  assumes "tx_holds tx a" "length (tx_bytes a) < 2 ^ 30"
  shows "dogecoin_tx_hash tx (replicate 32 0) = Some (sha256d (tx_bytes a))"
proof -
  obtain s where s: "cstr_new_sz 1024 = Some s" "cstr_holds s []" using cstr_new_sz_ok [of 1024] by auto
  obtain t where t: "dogecoin_tx_serialize tx s = Some t" "cstr_holds t (tx_bytes a)"
    using sink.appendsD [OF tx_serialize_appends [OF assms(1)] s(2)] assms(2) by auto
  then show ?thesis
    using s recv_contents [OF cstr_recv [OF t(2)]]
    by (simp add: dogecoin_tx_hash_def sha256_raw_reference sha256d_def DOGECOIN_HASH_LENGTH_def sha_sizes)
qed

definition served :: "bytes \<Rightarrow> dogecoin_p2p_inv_msg \<Rightarrow> bool" where
  "served p m \<longleftrightarrow> p = 1 # inv_bytes m \<and> length (inv_hash m) = 32 \<and> inv_type m = DOGECOIN_INV_TYPE_TX"

lemma ping_answered:
  assumes "i < length (nodes g)" "has_state (nodes g ! i) NODE_CONNECTED" "with_magic g magic" "deser_u64 b = Some (k, r)"
    and "length p \<le> DOGECOIN_MAX_P2P_MSG_SIZE"
  shows "dogecoin_node_parse_message broadcast_callbacks env i (frame_header magic DOGECOIN_MSG_PING p) b g
    = Some (1, sends i (frame magic DOGECOIN_MSG_PONG (le_bytes 8 (unat k))) g)"
proof -
  have m: "netmagic (chainparams g) = magic" "length magic = 4" using assms(3) by (simp_all add: with_magic_def)
  note cmd = is_command_header [OF _ assms(5), of DOGECOIN_MSG_PING, OF less_imp_le]
  obtain s where "dogecoin_p2p_message_new magic (DOGECOIN_MSG_PONG @ [0]) (le_bytes 8 (unat k)) 8 = Some s"
    "dogecoin_node_send i s g = Some (sends i (frame magic DOGECOIN_MSG_PONG (le_bytes 8 (unat k))) g)"
    using send_frame [OF assms(1,2) m(2), of DOGECOIN_MSG_PONG "le_bytes 8 (unat k)" 8] by (auto simp: less_imp_le simp del: le_bytes_numeral)
  with assms(1,4) show ?thesis
    by (simp add: parse_framed [OF assms(3)] handle_message_def cmd m broadcast_post_cmd_def del: le_bytes_numeral)
qed

lemma verack_answered:
  assumes "i < length (nodes g)" "has_state (nodes g ! i) NODE_CONNECTED" "with_magic g magic"
    and "tx_holds (bc_tx (ctx g)) a" "length (tx_bytes a) + 24 < 2 ^ 30"
  shows "dogecoin_node_parse_message broadcast_callbacks env i (frame_header magic DOGECOIN_MSG_VERACK []) b g
    = Some (1, let g = g\<lparr>nodes := (nodes g)[i := (nodes g ! i)\<lparr>version_handshake := True\<rparr>],
                         ctx := (ctx g)\<lparr>connected_to_peers := connected_to_peers (ctx g) + 1\<rparr>\<rparr>
                in if inved_to_peers (ctx g) \<ge> max_peers_to_inv (ctx g) then g
                   else let g = sends i (frame magic DOGECOIN_MSG_INV (1 # inv_bytes \<lparr>inv_type = DOGECOIN_INV_TYPE_TX, inv_hash = sha256d (tx_bytes a)\<rparr>)) g
                        in g\<lparr>nodes := (nodes g)[i := set_hint 0 (nodes g ! i)],
                             ctx := (ctx g)\<lparr>inved_to_peers := inved_to_peers (ctx g) + 1\<rparr>\<rparr>)"
proof -
  have m: "netmagic (chainparams g) = magic" "length magic = 4" using assms(3) by (simp_all add: with_magic_def)
  note cmd = is_command_header [of DOGECOIN_MSG_VERACK "[]", OF less_imp_le]
  define g1 where "g1 = g\<lparr>nodes := (nodes g)[i := (nodes g ! i)\<lparr>version_handshake := True\<rparr>],
    ctx := (ctx g)\<lparr>connected_to_peers := connected_to_peers (ctx g) + 1\<rparr>\<rparr>"
  let ?inv = "\<lparr>inv_type = DOGECOIN_INV_TYPE_TX, inv_hash = sha256d (tx_bytes a)\<rparr>"
  let ?p = "1 # inv_bytes ?inv"
  have g1: "i < length (nodes g1)" "has_state (nodes g1 ! i) NODE_CONNECTED" "netmagic (chainparams g1) = magic"
    "bc_tx (ctx g1) = bc_tx (ctx g)"
    using assms(1,2) m by (simp_all add: g1_def has_state_def)
  obtain s where s: "cstr_new_sz 256 = Some s" "cstr_holds s []" using cstr_new_sz_ok [of 256] by auto
  have "sink.appends (\<lambda>s. do { s \<leftarrow> ser_varlen s 1; dogecoin_p2p_msg_inv_ser ?inv s }) (varlen_bytes 1 @ inv_bytes ?inv)"
    using ser_varlen_appends [of 1] inv_ser_appends [of ?inv] by (intro sink.appends_comp) simp_all
  moreover have "varlen_bytes 1 @ inv_bytes ?inv = ?p" by (simp add: varlen_bytes_def)
  moreover have l: "length ?p = 37" by (simp add: inv_bytes_def del: le_bytes_numeral)
  ultimately obtain t u where t: "ser_varlen s 1 = Some t" "dogecoin_p2p_msg_inv_ser ?inv t = Some u" "cstr_holds u ?p"
    using sink.appendsD [OF _ s(2)] by (fastforce split: Option.bind_splits)
  have lu: "(of_nat (len u) :: u32) = of_nat (length ?p)" using t(3) by (simp add: cstr_holds_def)
  obtain v where v: "dogecoin_p2p_message_new magic (DOGECOIN_MSG_INV @ [0]) ?p (of_nat (len u)) = Some v"
    "dogecoin_node_send i v g1 = Some (sends i (frame magic DOGECOIN_MSG_INV ?p) g1)"
    using send_frame [OF g1(1,2) m(2), of DOGECOIN_MSG_INV ?p "of_nat (len u)"] l lu by (auto simp: less_imp_le)
  have hs: "broadcast_handshake_done env i (g\<lparr>nodes := (nodes g)[i := (nodes g ! i)\<lparr>version_handshake := True\<rparr>]\<rparr>)
      = Some (if inved_to_peers (ctx g1) \<ge> max_peers_to_inv (ctx g1) then g1
          else let g = sends i (frame magic DOGECOIN_MSG_INV ?p) g1
               in g\<lparr>nodes := (nodes g)[i := set_hint 0 (nodes g ! i)], ctx := (ctx g)\<lparr>inved_to_peers := inved_to_peers (ctx g) + 1\<rparr>\<rparr>)"
    using s(1) t v g1 recv_contents [OF cstr_recv [OF t(3)]] tx_hash_reference [OF assms(4)] assms(5)
    by (simp add: broadcast_handshake_done_def Let_def dogecoin_p2p_msg_inv_init_def flip: g1_def)
  show ?thesis
    using assms(1) hs g1(1)
    by (simp add: parse_framed [OF assms(3)] handle_message_def cmd m broadcast_post_cmd_def Let_def flip: g1_def)
qed

lemma getdata_answered:
  assumes "i < length (nodes g)" "has_state (nodes g ! i) NODE_CONNECTED" "with_magic g magic"
    and "tx_holds (bc_tx (ctx g)) a" "length (tx_bytes a) + 24 < 2 ^ 30" "served p m"
  shows "dogecoin_node_parse_message broadcast_callbacks env i (frame_header magic DOGECOIN_MSG_GETDATA p) (p @ r) g
    = Some (1, if has_hint (nodes g ! i) 1 then g
               else let g = sends i (frame magic DOGECOIN_MSG_TX (tx_bytes a)) g
                    in g\<lparr>nodes := (nodes g)[i := set_hint 1 (nodes g ! i)],
                         ctx := (ctx g)\<lparr>getdata_from_peers := getdata_from_peers (ctx g) + 1\<rparr>\<rparr>)"
proof -
  have m: "netmagic (chainparams g) = magic" "length magic = 4" using assms(3) by (simp_all add: with_magic_def)
  have p: "p = 1 # inv_bytes m" "length (inv_hash m) = 32" "inv_type m = DOGECOIN_INV_TYPE_TX"
    using assms(6) by (simp_all add: served_def)
  have "length p \<le> DOGECOIN_MAX_P2P_MSG_SIZE" using p by (simp add: inv_bytes_def DOGECOIN_MAX_P2P_MSG_SIZE_def del: le_bytes_numeral)
  note cmd = is_command_header [OF _ this, of DOGECOIN_MSG_GETDATA, OF less_imp_le]
  define g1 where "g1 = g\<lparr>ctx := (ctx g)\<lparr>getdata_from_peers := getdata_from_peers (ctx g) + 1\<rparr>\<rparr>"
  have g1: "i < length (nodes g1)" "has_state (nodes g1 ! i) NODE_CONNECTED" "netmagic (chainparams g1) = magic"
    "bc_tx (ctx g1) = bc_tx (ctx g)"
    using assms(1,2) m by (simp_all add: g1_def)
  obtain s where s: "cstr_new_sz 1024 = Some s" "cstr_holds s []" using cstr_new_sz_ok [of 1024] by auto
  obtain t where t: "dogecoin_tx_serialize (bc_tx (ctx g)) s = Some t" "cstr_holds t (tx_bytes a)"
    using sink.appendsD [OF tx_serialize_appends [OF assms(4)] s(2)] assms(5) by auto
  have lt: "(of_nat (len t) :: u32) = of_nat (length (tx_bytes a))" using t(2) by (simp add: cstr_holds_def)
  obtain v where v: "dogecoin_p2p_message_new magic (DOGECOIN_MSG_TX @ [0]) (tx_bytes a) (of_nat (len t)) = Some v"
    "dogecoin_node_send i v g1 = Some (sends i (frame magic DOGECOIN_MSG_TX (tx_bytes a)) g1)"
    using send_frame [OF g1(1,2) m(2), of DOGECOIN_MSG_TX "tx_bytes a" "of_nat (len t)"] assms(5) lt by (auto simp: less_imp_le)
  have var: "deser_varlen (p @ r) = Some (1, inv_bytes m @ r)"
    using deser_varlen_bytes [of 1 "inv_bytes m @ r"] p(1) by (simp add: varlen_bytes_def)
  have "broadcast_getdata env i (p @ r) g = Some (let g = sends i (frame magic DOGECOIN_MSG_TX (tx_bytes a)) g1
      in g\<lparr>nodes := (nodes g)[i := set_hint 1 (nodes g ! i)]\<rparr>)"
    using s(1) t v g1 var inv_deser_bytes [OF p(2)] p(3) recv_contents [OF cstr_recv [OF t(2)]]
    by (simp add: broadcast_getdata_def Let_def flip: g1_def)
  then show ?thesis
    using assms(1)
    by (simp add: parse_framed [OF assms(3)] handle_message_def cmd m broadcast_post_cmd_def Let_def g1_def sends_def
        cong: if_cong)
qed

text \<open>C24:
  How a transaction is broadcast. A connected peer that completes the handshake is counted and, as long as fewer peers
  than wanted have been told, is told the hash of the transaction; when it then asks for data, with any hash, it is sent
  the transaction, once; a second request changes nothing. Every ping is answered with its own number.
\<close>

theorem broadcast_served:
  fixes k :: u64
  assumes "i < length (nodes g)" "has_state (nodes g ! i) NODE_CONNECTED" "with_magic g magic"
    and "tx_holds (bc_tx (ctx g)) a" "length (tx_bytes a) + 24 < 2 ^ 30" "served p m"
    and "inv_msg = \<lparr>inv_type = DOGECOIN_INV_TYPE_TX, inv_hash = sha256d (tx_bytes a)\<rparr>"
  shows "dogecoin_node_parse_message broadcast_callbacks env i (frame_header magic DOGECOIN_MSG_VERACK []) [] g
      = Some (1, let g = g\<lparr>nodes := (nodes g)[i := (nodes g ! i)\<lparr>version_handshake := True\<rparr>],
                           ctx := (ctx g)\<lparr>connected_to_peers := connected_to_peers (ctx g) + 1\<rparr>\<rparr>
                  in if inved_to_peers (ctx g) \<ge> max_peers_to_inv (ctx g) then g
                     else let g = sends i (frame magic DOGECOIN_MSG_INV (1 # inv_bytes inv_msg)) g
                          in g\<lparr>nodes := (nodes g)[i := set_hint 0 (nodes g ! i)],
                               ctx := (ctx g)\<lparr>inved_to_peers := inved_to_peers (ctx g) + 1\<rparr>\<rparr>)
    \<and> dogecoin_node_parse_message broadcast_callbacks env i (frame_header magic DOGECOIN_MSG_GETDATA p) p g
      = Some (1, if has_hint (nodes g ! i) 1 then g
                 else let g = sends i (frame magic DOGECOIN_MSG_TX (tx_bytes a)) g
                      in g\<lparr>nodes := (nodes g)[i := set_hint 1 (nodes g ! i)],
                           ctx := (ctx g)\<lparr>getdata_from_peers := getdata_from_peers (ctx g) + 1\<rparr>\<rparr>)
    \<and> dogecoin_node_parse_message broadcast_callbacks env i
        (frame_header magic DOGECOIN_MSG_PING (le_bytes 8 (unat k))) (le_bytes 8 (unat k)) g
      = Some (1, sends i (frame magic DOGECOIN_MSG_PONG (le_bytes 8 (unat k))) g)"
proof -
  have "deser_u64 (le_bytes 8 (unat k)) = Some (k, [])" using deser_ints(4) [of k "[]"] by (simp del: le_bytes_numeral)
  moreover have "length (le_bytes 8 (unat k)) \<le> DOGECOIN_MAX_P2P_MSG_SIZE"
    by (simp add: DOGECOIN_MAX_P2P_MSG_SIZE_def del: le_bytes_numeral)
  ultimately have pong: "dogecoin_node_parse_message broadcast_callbacks env i
      (frame_header magic DOGECOIN_MSG_PING (le_bytes 8 (unat k))) (le_bytes 8 (unat k)) g
      = Some (1, sends i (frame magic DOGECOIN_MSG_PONG (le_bytes 8 (unat k))) g)"
    by (rule ping_answered [OF assms(1-3)])
  show ?thesis
    unfolding assms(7)
    by (intro conjI verack_answered [OF assms(1-5)] getdata_answered [OF assms(1-6), of env "[]", unfolded append_Nil2] pong)
qed

definition sample_node :: dogecoin_node where
  "sample_node = dogecoin_node_new\<lparr>event_bev := True, node_state := NODE_CONNECTED\<rparr>"

definition sample_group :: broadcast_group where
  "sample_group = dogecoin_node_group_add_node (broadcast_setup dogecoin_chainparams_main sample_tx 8 60 0) sample_node"

definition sample_inv :: dogecoin_p2p_inv_msg where
  "sample_inv = \<lparr>inv_type = DOGECOIN_INV_TYPE_TX, inv_hash = replicate 32 5\<rparr>"

definition sample_env :: callback_env where
  "sample_env = \<lparr>now = 10, random = 4, connect_ok = (\<lambda>_. True)\<rparr>"

lemma sample_group_facts:
  "0 < length (nodes sample_group)" "has_state (nodes sample_group ! 0) NODE_CONNECTED"
  "with_magic sample_group [0xc0, 0xc0, 0xc0, 0xc0]" "bc_tx (ctx sample_group) = sample_tx"
  "hints (nodes sample_group ! 0) = 0" "sent (nodes sample_group ! 0) = []" "\<not> has_state (nodes sample_group ! 0) NODE_ERRORED"
  by (simp_all add: sample_group_def sample_node_def dogecoin_node_group_add_node_def broadcast_setup_def has_state_def
      with_magic_def dogecoin_chainparams_main_def NODE_CONNECTED_def NODE_ERRORED_def dogecoin_node_new_def)

lemma broadcast_served_witness:
  "\<exists>g'. dogecoin_node_parse_message broadcast_callbacks sample_env 0
      (frame_header [0xc0, 0xc0, 0xc0, 0xc0] DOGECOIN_MSG_GETDATA (1 # inv_bytes sample_inv)) (1 # inv_bytes sample_inv) sample_group
        = Some (1, g')
    \<and> sent (nodes g' ! 0) = [frame [0xc0, 0xc0, 0xc0, 0xc0] DOGECOIN_MSG_TX (tx_bytes sample_view)]"
proof -
  have t: "tx_holds (bc_tx (ctx sample_group)) sample_view" by (simp add: sample_group_facts(4) sample_tx_holds)
  have s: "served (1 # inv_bytes sample_inv) sample_inv" by (simp add: served_def sample_inv_def)
  have l: "length (tx_bytes sample_view) + 24 < 2 ^ 30" by (simp add: sample_length)
  have h: "\<not> has_hint (nodes sample_group ! 0) 1" by (simp add: has_hint_def sample_group_facts(5))
  show ?thesis
    using broadcast_served [OF sample_group_facts(1-3) t l s refl, of sample_env, THEN conjunct2, THEN conjunct1] h sample_group_facts(1)
    by (simp add: Let_def sends_def set_hint_def sample_group_facts(6))
qed

section \<open>Peers that misbehave\<close>

lemma misbehave_disconnects:
  assumes "i < length (nodes g)" "has_state (nodes g ! i) NODE_CONNECTED" "\<not> has_state (nodes g ! i) NODE_ERRORED"
  shows "dogecoin_node_misbehave broadcast_callbacks env i g
      = Some (0, g\<lparr>nodes := (nodes g)[i := dogecoin_node_disconnect ((nodes g ! i)\<lparr>node_state := node_state (nodes g ! i) OR NODE_MISSBEHAVED\<rparr>)]\<rparr>)"
proof -
  let ?n = "(nodes g ! i)\<lparr>node_state := node_state (nodes g ! i) OR NODE_MISSBEHAVED\<rparr>"
  have "has_state ?n NODE_MISSBEHAVED" "has_state ?n NODE_CONNECTED" "\<not> has_state ?n NODE_ERRORED"
    using assms(2,3)
    by (simp_all add: has_state_def NODE_MISSBEHAVED_def NODE_CONNECTED_def NODE_ERRORED_def bit.conj_disj_distrib2)
  with assms(1) show ?thesis
    by (simp add: dogecoin_node_misbehave_def dogecoin_node_connection_state_changed_def)
qed

lemma disconnected_state: "\<not> has_state (dogecoin_node_disconnect n) NODE_CONNECTED" "sent (dogecoin_node_disconnect n) = sent n"
proof -
  have "bit (node_state (dogecoin_node_disconnect n)) 1 = False"
    by (simp add: dogecoin_node_disconnect_def dogecoin_node_release_events_def bit_or_iff bit_and_iff bit_not_iff
        NODE_CONNECTED_def NODE_CONNECTING_def NODE_DISCONNECTED_def)
  moreover have "bit (node_state m) 1" if "has_state m NODE_CONNECTED" for m
  proof -
    have "bit (node_state m AND NODE_CONNECTED) 1"
      using that by (simp add: has_state_def) (simp add: NODE_CONNECTED_def)
    then show ?thesis by (simp add: bit_and_iff)
  qed
  ultimately show "\<not> has_state (dogecoin_node_disconnect n) NODE_CONNECTED" by blast
  show "sent (dogecoin_node_disconnect n) = sent n"
    by (simp add: dogecoin_node_disconnect_def dogecoin_node_release_events_def)
qed
lemma read_loop_step:
  assumes "length magic = 4" "frame_ok m" "i < length (nodes g)" "has_state (nodes g ! i) NODE_CONNECTED"
    and "dogecoin_node_parse_message cbs env i (header_of magic m) (snd m @ rest) g = Some (r, g')"
  shows "read_loop cbs env i (frame_of magic m @ rest) u g
    = (if rest = [] then Some (Ended (Some rest), g') else read_loop cbs env i rest (Some rest) g')"
proof -
  note h = head_read [OF assms(1,2)]
  have "frame_of magic m @ rest = take 24 (frame_of magic m) @ snd m @ rest" using h(2) by (metis append_assoc)
  then have d: "dogecoin_p2p_deser_msghdr no_header (frame_of magic m @ rest) = (header_of magic m, snd m @ rest)"
    using h(1) by metis
  have "\<not> length (snd m) > DOGECOIN_MAX_P2P_MSG_SIZE" using assms(2) by (simp add: frame_ok_def)
  then show ?thesis
    using assms(3-5) by (simp add: read_loop.simps [of cbs env i "frame_of magic m @ rest"] DOGECOIN_P2P_HDRSZ_def d h(3,4))
qed

text \<open>A message with a command that nothing is done for.\<close>

definition harmless :: "message \<Rightarrow> bool" where
  "harmless m \<longleftrightarrow> frame_ok m \<and> 0 \<notin> set (fst m) \<and> fst m \<notin> {DOGECOIN_MSG_VERSION, DOGECOIN_MSG_VERACK, DOGECOIN_MSG_PING,
     DOGECOIN_MSG_INV, DOGECOIN_MSG_GETDATA}"

lemma harmless_parse:
  assumes "i < length (nodes g)" "with_magic g magic" "harmless m"
  shows "dogecoin_node_parse_message broadcast_callbacks env i (header_of magic m) b g = Some (1, g)"
proof -
  have m: "frame_ok m" "0 \<notin> set (fst m)" using assms(3) by (simp_all add: harmless_def)
  note cmd = is_command_framed [OF m, of _ magic]
  have "handle_message broadcast_callbacks env i (header_of magic m) b g = Some (Some b, g)"
    "broadcast_post_cmd env i (header_of magic m) b g = Some g"
    using assms(1,3) by (simp_all add: handle_message_def broadcast_post_cmd_def cmd harmless_def)
  then show ?thesis using parse_framed [OF assms(2)] by (simp add: header_of_def)
qed

lemma disconnected_ignores:
  "i < length (nodes g) \<Longrightarrow> \<not> has_state (nodes g ! i) NODE_CONNECTED \<Longrightarrow> read_cb cbs env i d (s, g) = Some (s, g)"
  by (simp add: read_cb_def)

definition cut_off :: "nat \<Rightarrow> 'c dogecoin_node_group \<Rightarrow> 'c dogecoin_node_group" where
  "cut_off i g = g\<lparr>nodes := (nodes g)[i := dogecoin_node_disconnect ((nodes g ! i)\<lparr>node_state := node_state (nodes g ! i) OR NODE_MISSBEHAVED\<rparr>)]\<rparr>"

lemma cut_off_state: "i < length (nodes g) \<Longrightarrow> \<not> has_state (nodes (cut_off i g) ! i) NODE_CONNECTED"
  "i < length (nodes g) \<Longrightarrow> sent (nodes (cut_off i g) ! i) = sent (nodes g ! i)" "length (nodes (cut_off i g)) = length (nodes g)"
  by (simp_all add: cut_off_def disconnected_state)

lemma feed_ignored:
  "i < length (nodes g) \<Longrightarrow> \<not> has_state (nodes g ! i) NODE_CONNECTED \<Longrightarrow> feed cbs env i ds (s, g) = Some (s, g)"
  by (induction ds) (simp_all add: disconnected_ignores)

text \<open>C25:
  A peer is cut off for a message that must not be. The node is connected and has no error, its receive buffer is empty, and
  one read brings exactly a message of another network, or starts with the header of a message that is announced to be too
  long, or brings exactly a ping without a number: then the peer is marked, disconnected and sent nothing, and whatever
  arrives in later reads is ignored.
\<close>

theorem misbehaving_peer_cut_off:
  assumes "i < length (nodes g)" "has_state (nodes g ! i) NODE_CONNECTED" "\<not> has_state (nodes g ! i) NODE_ERRORED"
    and "with_magic g magic" "recv_holds s []" "length d < 2 ^ 30"
    and "(\<exists>m other. d = frame_of other m \<and> frame_ok m \<and> length other = 4 \<and> other \<noteq> magic)
      \<or> (24 \<le> length d \<and> DOGECOIN_MAX_P2P_MSG_SIZE < unat (data_len (fst (dogecoin_p2p_deser_msghdr no_header d))))
      \<or> (\<exists>p. d = frame magic DOGECOIN_MSG_PING p \<and> length p < 8)"
  shows "\<exists>s'. feed broadcast_callbacks env i (d # ds) (s, g) = Some (s', cut_off i g)"
proof -
  have mis: "dogecoin_node_misbehave broadcast_callbacks env i g = Some (0, cut_off i g)"
    using misbehave_disconnects [OF assms(1-3)] by (simp add: cut_off_def)
  have m: "length magic = 4" "netmagic (chainparams g) = magic" using assms(4) by (simp_all add: with_magic_def)
  have "\<exists>s'. read_cb broadcast_callbacks env i d (s, g) = Some (s', cut_off i g)"
    using assms(7)
  proof (elim disjE exE conjE)
    fix m other
    assume a: "d = frame_of other m" "frame_ok m" "length other = 4" "other \<noteq> magic"
    have "dogecoin_node_parse_message broadcast_callbacks env i (header_of other m) (snd m @ []) g = Some (0, cut_off i g)"
      using a(4) m mis by (simp add: dogecoin_node_parse_message_def header_of_def frame_header_def)
    from read_loop_step [OF a(3,2) assms(1,2) this, of None] a(1)
    have "read_loop broadcast_callbacks env i ([] @ d) None g = Some (Ended (Some []), cut_off i g)" by simp
    from read_cb_piece [OF assms(5) _ node_at_Some [OF assms(1)] assms(2) this, of "[]"] assms(6) show ?thesis by auto
  next
    assume a: "24 \<le> length d" "DOGECOIN_MAX_P2P_MSG_SIZE < unat (data_len (fst (dogecoin_p2p_deser_msghdr no_header d)))"
    obtain h rest where h: "dogecoin_p2p_deser_msghdr no_header d = (h, rest)" by fastforce
    have l: "read_loop broadcast_callbacks env i d None g = Some (Returned, cut_off i g)"
      using a mis h by (simp add: read_loop.simps [of broadcast_callbacks env i d] DOGECOIN_P2P_HDRSZ_def)
    obtain ok t b where t: "cstr_alloc_minsize s (len s + length d) = Some (ok, t)"
      "mem_write (str t) (len t) (map Some d) = Some b" "recv_holds (t\<lparr>str := b, len := len t + length d\<rparr>) ([] @ d)"
      using recv_append [OF assms(5), of d] assms(6) by auto
    show ?thesis
      using assms(1,2) by (simp add: read_cb_def t(1,2) recv_contents [OF t(3)] l)
  next
    fix p
    assume a: "d = frame magic DOGECOIN_MSG_PING p" "length p < 8"
    have ok: "frame_ok (DOGECOIN_MSG_PING, p)" "length p \<le> DOGECOIN_MAX_P2P_MSG_SIZE"
      using a(2) by (simp_all add: frame_ok_def DOGECOIN_MAX_P2P_MSG_SIZE_def less_imp_le)
    note cmd = is_command_header [OF _ ok(2), of DOGECOIN_MSG_PING, OF less_imp_le]
    have "deser_u64 p = None" using a(2) by (simp add: deser_u64_def deser_bytes_def)
    then have "dogecoin_node_parse_message broadcast_callbacks env i (header_of magic (DOGECOIN_MSG_PING, p)) (p @ []) g
        = Some (0, cut_off i g)"
      using mis by (simp add: header_of_def parse_framed [OF assms(4)] handle_message_def cmd)
    from read_loop_step [OF m(1) ok(1) assms(1,2), of _ _ "[]"] this a(1)
    have "read_loop broadcast_callbacks env i ([] @ d) None g = Some (Ended (Some []), cut_off i g)"
      by (simp add: frame_of_def)
    from read_cb_piece [OF assms(5) _ node_at_Some [OF assms(1)] assms(2) this, of "[]"] assms(6) show ?thesis by auto
  qed
  then obtain s' where "read_cb broadcast_callbacks env i d (s, g) = Some (s', cut_off i g)" by blast
  moreover have "feed broadcast_callbacks env i ds (s', cut_off i g) = Some (s', cut_off i g)"
    by (rule feed_ignored) (simp_all add: cut_off_state assms(1))
  ultimately show ?thesis by simp
qed

lemma misbehaving_peer_cut_off_witness:
  "\<exists>s'. feed broadcast_callbacks sample_env 0 [frame_of [1, 2, 3, 4] ([120], []), [5, 6]] (empty_string, sample_group)
    = Some (s', cut_off 0 sample_group)"
proof -
  have f: "frame_ok ([120], [])" by (simp add: frame_ok_def)
  have l: "length (frame_of [1, 2, 3, 4] ([120], [])) < 2 ^ 30" using head_read(3) [OF _ f, of "[1, 2, 3, 4]"] by simp
  show ?thesis
    by (rule misbehaving_peer_cut_off [OF sample_group_facts(1,2,7,3) cstr_recv [OF empty_string_holds] l])
      (rule disjI1, intro exI [of _ "([120], [])"] exI [of _ "[1, 2, 3, 4]"], simp add: f)
qed

text \<open>C26:
  What a message that is too short means depends on how the stream was cut. A ping without a number cuts the peer off
  when it arrives alone; when the next message is already there, the ping is answered with the first eight bytes of that
  message, and the peer stays: the data of a message is not bounded by its announced length.
\<close>

theorem short_ping_reads_on:
  assumes "i < length (nodes g)" "has_state (nodes g ! i) NODE_CONNECTED" "\<not> has_state (nodes g ! i) NODE_ERRORED"
    and "with_magic g magic" "recv_holds s []" "harmless m"
  shows "(\<exists>s'. feed broadcast_callbacks env i [frame magic DOGECOIN_MSG_PING [], frame_of magic m] (s, g) = Some (s', cut_off i g))
    \<and> (\<exists>s'. feed broadcast_callbacks env i [frame magic DOGECOIN_MSG_PING [] @ frame_of magic m] (s, g)
          = Some (s', sends i (frame magic DOGECOIN_MSG_PONG (take 8 (frame_of magic m))) g))"
proof -
  have magic: "length magic = 4" using assms(4) by (simp add: with_magic_def)
  have ping: "frame_ok (DOGECOIN_MSG_PING, [])" by (simp add: frame_ok_def less_imp_le)
  have m: "frame_ok m" using assms(6) by (simp add: harmless_def)
  note len = head_read(3) [OF magic ping] head_read(3) [OF magic m]
  have size: "length (snd m) \<le> 4000000" using m by (simp add: frame_ok_def DOGECOIN_MAX_P2P_MSG_SIZE_def)
  let ?f = "frame_of magic m" and ?p = "frame magic DOGECOIN_MSG_PING []"
  let ?g = "sends i (frame magic DOGECOIN_MSG_PONG (take 8 ?f)) g"
  have alone: "\<exists>s'. feed broadcast_callbacks env i [?p, ?f] (s, g) = Some (s', cut_off i g)"
    by (rule misbehaving_peer_cut_off [OF assms(1-5)]) (use len(1) in \<open>auto simp: frame_of_def\<close>)
  define k :: u64 where "k = le_word (take 8 ?f)"
  have t: "length (take 8 ?f) = 8" using len(2) by simp
  have d: "deser_u64 ?f = Some (k, drop 8 ?f)" using len(2) by (simp add: deser_u64_def deser_bytes_def k_def)
  have k: "le_bytes 8 (unat k) = take 8 ?f"
  proof -
    have "le_nat (take 8 ?f) < 2 ^ 64" using le_nat_bound [of "take 8 ?f"] t by simp
    then have "unat k = le_nat (take 8 ?f)" by (simp add: k_def le_word_def unat_of_nat)
    with le_bytes_le_nat [of "take 8 ?f"] t show ?thesis by (simp del: le_bytes_numeral)
  qed
  have answered: "dogecoin_node_parse_message broadcast_callbacks env i (header_of magic (DOGECOIN_MSG_PING, [])) (snd (DOGECOIN_MSG_PING, []) @ ?f) g = Some (1, ?g)"
    using ping_answered [OF assms(1,2,4) d, of "[]" env] by (simp only: k header_of_def fst_conv snd_conv append_Nil list.size)
  have g: "i < length (nodes ?g)" "has_state (nodes ?g ! i) NODE_CONNECTED" "with_magic ?g magic"
    using assms(1,2,4) by (simp_all add: with_magic_def sends_def has_state_def)
  have "dogecoin_node_parse_message broadcast_callbacks env i (header_of magic m) (snd m @ []) ?g = Some (1, ?g)"
    by (rule harmless_parse [OF g(1,3) assms(6)])
  from read_loop_step [OF magic m g(1,2) this, of "Some ?f"]
  have last: "read_loop broadcast_callbacks env i ?f (Some ?f) ?g = Some (Ended (Some []), ?g)"
    by (simp only: append_Nil2 if_True refl)
  have "?f \<noteq> []" using len(2) by auto
  then have loop: "read_loop broadcast_callbacks env i ([] @ ?p @ ?f) None g = Some (Ended (Some []), ?g)"
    using read_loop_step [OF magic ping assms(1,2) answered, of None] last
    by (simp only: frame_of_def fst_conv snd_conv append_Nil if_False)
  have "\<exists>s'. read_cb broadcast_callbacks env i (?p @ ?f) (s, g) = Some (s', ?g) \<and> recv_holds s' []"
    by (rule read_cb_piece [OF assms(5) _ node_at_Some [OF assms(1)] assms(2) loop])
      (use len size in \<open>auto simp: frame_of_def\<close>)
  with alone show ?thesis by auto
qed

lemma short_ping_reads_on_witness:
  "\<exists>s'. feed broadcast_callbacks sample_env 0
      [frame [0xc0, 0xc0, 0xc0, 0xc0] DOGECOIN_MSG_PING [] @ frame_of [0xc0, 0xc0, 0xc0, 0xc0] ([97, 100, 100, 114], [])] (empty_string, sample_group)
    = Some (s', sends 0 (frame [0xc0, 0xc0, 0xc0, 0xc0] DOGECOIN_MSG_PONG
        (take 8 (frame_of [0xc0, 0xc0, 0xc0, 0xc0] ([97, 100, 100, 114], [])))) sample_group)"
  by (rule short_ping_reads_on [OF sample_group_facts(1,2,7,3) cstr_recv [OF empty_string_holds], THEN conjunct2])
    (simp add: harmless_def frame_ok_def commands)

lemma stream_fragmentation_witness:
  "\<exists>s'. feed broadcast_callbacks sample_env 0
      [take 30 (frames [0xc0, 0xc0, 0xc0, 0xc0] [([97, 100, 100, 114], [1, 2, 3]), ([120], [])]),
       drop 30 (frames [0xc0, 0xc0, 0xc0, 0xc0] [([97, 100, 100, 114], [1, 2, 3]), ([120], [])])] (empty_string, sample_group)
    = Some (s', sample_group) \<and> recv_holds s' []"
proof -
  let ?ms = "[([97, 100, 100, 114], [1, 2, 3]), ([120], [])] :: message list"
  have h: "harmless m" if "m \<in> set ?ms" for m
    using that by (auto simp: harmless_def frame_ok_def commands DOGECOIN_MAX_P2P_MSG_SIZE_def)
  then have ok: "\<forall>m\<in>set ?ms. message_ok m" by (auto simp: message_ok_def harmless_def)
  let ?w = "frames [0xc0, 0xc0, 0xc0, 0xc0] ?ms"
  have all: "handle_all broadcast_callbacks sample_env 0 [0xc0, 0xc0, 0xc0, 0xc0] ?ms sample_group = Some sample_group"
    using harmless_parse [OF sample_group_facts(1,3) h] sample_group_facts(1,2) by simp
  have magic: "length [0xc0, 0xc0, 0xc0, 0xc0 :: u8] = 4" by simp
  have small: "length ?w < 2 ^ 30" by (simp add: frame_of_def length_framed)
  have pieces: "concat [take 30 ?w, drop 30 ?w] = ?w" by (simp only: concat.simps append_Nil2 append_take_drop_id)
  have "node_at 0 sample_group \<noteq> None" using sample_group_facts(1) by simp
  from stream_fragmentation [OF magic ok all this pieces small cstr_recv [OF empty_string_holds]] show ?thesis .
qed
end
