(* ===== verification/Spec2Isabelle.thy ===== *)
theory Spec2Isabelle
  imports Payment HdAddress NetNode
begin

text \<open>
  A verification library for RadioDoge: the host program \<open>serdog\<close>, the firmware of its LoRa module,
  and the parts of the fork of libdogecoin in the tree that the wallet side rests on.

  \<^bold>\<open>The program.\<close> A host runs \<open>serdog/serdog.c\<close>. Its \<open>cmd...\<close> functions frame a payload as a command
  (\<open>sendCommand\<close>) and write it to a serial port; the module (\<open>heltec-firmware/heltec-firmware.ino\<close>)
  reads the command (\<open>HostSerialRead\<close>), answers it, and puts packets on the air. The module of the
  other node takes packets that are addressed to it (\<open>OnRxDone\<close>) and forwards them to its host, where
  \<open>serialPollThread\<close> collects the bytes of a command, reassembles messages of several parts and hands
  the payloads to \<open>processDogePayload\<close>: balances hidden with a PIN, and lists of unspent outputs. Amounts,
  transactions, scripts, addresses and hashes are those of \<open>src/libdogecoin/libdogecoin-rd-dev\<close>.

  \<^bold>\<open>Conventions.\<close> A C struct is a record, an enum a datatype with its wire value, a \<open>w\<close>-bit integer a
  \<open>w word\<close>. An object in memory is the list of its bytes; a function that changes an object returns it
  updated. \<open>None\<close> as the result of a function that can fail is behaviour C leaves undefined or a program
  that stops: an access outside an object, a null pointer followed, a failed assertion. What the stack holds in a local
  object the code does not initialise is an argument (\<open>junk\<close>, \<open>local\<close>, \<open>nodenew\<close>, \<open>stack_junk\<close>) unless it is written before
  it is read; printing a string without a terminator is a read past its end. Results that
  the code reports (false, a null pointer, a negative number) are values. Loops are structural
  recursion or \<open>function\<close>s with a measure, so no fuel is needed, except \<open>poll_run\<close> and the module's main
  loop, which run forever in the code: there a theorem is about the given reads and events, and each of them is
  one turn. Console output is a list of events, the radio and the display are logs of calls, the
  serial port records the bytes written. Memory never runs out: the allocators end the program then.

  \<^bold>\<open>Theories.\<close>
  \<^item> \<open>Prelude\<close>: machine types, bounded memory accesses, little-endian integers, C strings.
    \<open>Radix\<close>: positional numbers.
  \<^item> \<open>RadioTypes\<close> (\<open>radioDogeTypes.h\<close>, \<open>serdog.h\<close>): enumerations and sizes of the protocol.
  \<^item> \<open>HostTx\<close>, \<open>HostRx\<close> (\<open>serdog.c\<close>): the transmit and the receive side, with the state of the globals in
    \<open>host\<close> and that of the poll thread in \<open>poll\<close>. \<open>FrameReceiver\<close> states the contract of a receiver of frames
    as a locale, \<open>PollThread\<close> interprets it on \<open>poll_step\<close>: a command may arrive in any pieces, but two in
    one read block the thread. \<open>HubReplies\<close>: balances and outputs are decoded as they were encoded.
  \<^item> \<open>Firmware\<close>, \<open>RadioModule\<close> (\<open>heltec-firmware.ino\<close>): the module, its invariant \<open>fw_ok\<close>, and the contract
    \<open>packet_module\<close>. \<open>RadioLink\<close> composes both hosts and both modules end to end.
  \<^item> \<open>Koinu\<close> (\<open>koinu.c\<close>): amounts and their decimal text, which has no terminator below one coin.
  \<^item> \<open>Cstr\<close>, \<open>Vector\<close>, \<open>Serialize\<close> (\<open>cstr.c\<close>, \<open>vector.c\<close>, \<open>serialize.c\<close>, \<open>buffer.c\<close>): growable strings as
    cells that may be uninitialised, arrays of pointers, and the wire format. \<open>cstr_holds\<close>, \<open>vec_holds\<close> relate
    them to lists; the locale \<open>sink\<close> carries every proof about appending.
  \<^item> \<open>Script\<close>, \<open>Tx\<close> (\<open>script.c\<close>, \<open>tx.c\<close>): scripts are built, parsed and recognised; transactions are
    serialised, read back, copied, and hashed for signing. \<open>tx_holds\<close> relates the pointer structure to a
    view, and the operations are shown on views.
  \<^item> \<open>BlockHash\<close>, \<open>Sha2\<close>, \<open>Hmac\<close> (\<open>sha2.c\<close>): the hash functions agree with reference definitions of the
    standards for messages in any pieces; the keyed hashes use them through the locale \<open>stream_hash\<close>.
  \<^item> \<open>Utils\<close>, \<open>Base58\<close>, \<open>Address\<close> (\<open>utils.c\<close>, \<open>base58.c\<close>, \<open>chainparams.c\<close>, \<open>address.c\<close>, \<open>key.c\<close>): text
    conversions and their round trips, addresses and keys as text.

  \<^item> \<open>Transaction\<close>, \<open>TransactionTable\<close> (\<open>transaction.c\<close>): working transactions and their table, with the invariant
    \<open>table_ok\<close>; building and finalising refine operations on views.
  \<^item> \<open>Rmd160\<close>, \<open>Keys\<close>, \<open>Signing\<close> (\<open>rmd160.c\<close>, \<open>ecc.c\<close>, \<open>key.c\<close>, \<open>address.c\<close>, \<open>tx.c\<close>, \<open>transaction.c\<close>): key pairs and signed
    inputs. The curve is the vendored secp256k1: a record of functions, with its documented behaviour as hypotheses.
  \<^item> \<open>Payment\<close> (\<open>serdog.c\<close>): a payment from the outputs of the hub to the message that carries it, refused payments, and
    payments to scripts, which are lost.
  \<^item> \<open>HdNode\<close>, \<open>HdPath\<close>, \<open>HdAddress\<close> (\<open>bip32.c\<close>, \<open>bip44.c\<close>, \<open>address.c\<close>): hierarchical wallets; derivation is that of the
    standard, paths are lists of indices, master keys and derived keys are read back from their text.
  \<^item> \<open>Block\<close>, \<open>Protocol\<close>, \<open>NetNode\<close> (\<open>block.c\<close>, \<open>protocol.c\<close>, \<open>net.c\<close>): block headers, the messages of the peer-to-peer
    protocol, and a peer: its state, its receive buffer, the handshake, the timer, and the broadcast of a transaction.
    What libevent reports and does is an argument or a log; a stream of well-formed messages may be cut in any way.

  \<^bold>\<open>Bounds.\<close> Buffers have the sizes of the source. Strings are shorter than \<open>2^30\<close> bytes, because the size
  loop of \<open>cstr.c\<close> shifts a 32-bit 1; vectors are shorter than \<open>2^63\<close> elements and, on the wire, \<open>2^32\<close>.

  \<^bold>\<open>Not modelled.\<close> Menus, console input and files of \<open>serdog\<close>; the second firmware \<open>heltec-firmware-v3\<close>, a
  near copy with its display code; the C# program. Of libdogecoin: the curve itself, recoverable signatures and
  messages signed with them, the source of random numbers, mnemonics, sockets, name lookup and the event loop, the
  header database and the client that follows it, scrypt, the wallet file, encryption, images and codes, and the
  vendored libraries. The manifest lists each part with the reason.
\<close>

end
